(* ===== verification/Prelude.thy ===== *)
theory Prelude
  imports Main "HOL-Library.Word" "HOL-Library.Char_ord" "HOL-Library.List_Lexorder"
    "HOL-Library.Multiset" "HOL-Library.AList"
begin

text \<open>
  Shared vocabulary of the development: the Go library functions on strings and maps that
  several components use, the failing fold that models a Go loop whose body may not return
  a value, and the collections of simplification rules the component proofs draw on.
\<close>

named_theorems go_strings \<open>characterisations of the modelled strings package\<close>
named_theorems frame_rules \<open>fields an operation leaves unchanged\<close>
named_theorems inv_intros \<open>preservation of component invariants\<close>

type_synonym u8 = "8 word"
type_synonym u16 = "16 word"
type_synonym u32 = "32 word"
type_synonym path = string

section \<open>Strings\<close>

text \<open>A Go string is a sequence of bytes, as an Isabelle string is.\<close>

definition HasPrefix :: "string \<Rightarrow> string \<Rightarrow> bool" where
  "HasPrefix s p \<longleftrightarrow> take (length p) s = p"

lemma HasPrefix_iff [go_strings]: "HasPrefix s p \<longleftrightarrow> (\<exists>r. s = p @ r)"
  by (metis HasPrefix_def append_take_drop_id append_eq_conv_conj)

lemma HasPrefix_append [simp]: "HasPrefix (p @ r) p"
  by (simp add: HasPrefix_def)

lemma HasPrefix_trans: "HasPrefix s p \<Longrightarrow> HasPrefix p q \<Longrightarrow> HasPrefix s q"
  by (auto simp: HasPrefix_iff)

fun strings_Join :: "string \<Rightarrow> string list \<Rightarrow> string" where
  "strings_Join sep [] = []"
| "strings_Join sep [x] = x"
| "strings_Join sep (x # y # xs) = x @ sep @ strings_Join sep (y # xs)"

text \<open>strconv.Itoa on a non-negative number.\<close>

fun Itoa :: "nat \<Rightarrow> string" where
  "Itoa n = (if n < 10 then [char_of (48 + n)] else Itoa (n div 10) @ [char_of (48 + n mod 10)])"

declare Itoa.simps [simp del]

section \<open>Map iteration\<close>

text \<open>
  Go iterates over a map in an unspecified order that may differ from one loop to the
  next. A map the code ranges over is an association list here, and every such loop takes
  its order from a parameter \<open>iter\<close>, indexed by the loop it serves: any function that
  permutes the entries.
\<close>

definition map_iteration :: "('l \<Rightarrow> 'a list \<Rightarrow> 'a list) \<Rightarrow> bool" where
  "map_iteration iter \<longleftrightarrow> (\<forall>l xs. mset (iter l xs) = mset xs)"

lemma map_iteration_set: "map_iteration iter \<Longrightarrow> set (iter l xs) = set xs"
  unfolding map_iteration_def by (metis set_mset_mset)

lemma map_iteration_id: "map_iteration (\<lambda>_ xs. xs)"
  by (simp add: map_iteration_def)

lemma map_iteration_rev: "map_iteration (\<lambda>_. rev)"
  by (simp add: map_iteration_def)

section \<open>Loops whose body may fail to return\<close>

fun foldo :: "('a \<Rightarrow> 's \<Rightarrow> 's option) \<Rightarrow> 'a list \<Rightarrow> 's \<Rightarrow> 's option" where
  "foldo f [] s = Some s"
| "foldo f (x # xs) s = (case f x s of None \<Rightarrow> None | Some s' \<Rightarrow> foldo f xs s')"

lemma foldo_inv:
  assumes "foldo f xs s = Some t" and "I s"
    and "\<And>x s s'. x \<in> set xs \<Longrightarrow> I s \<Longrightarrow> f x s = Some s' \<Longrightarrow> I s'"
  shows "I t"
  using assms
proof (induction xs arbitrary: s)
  case Nil
  then show ?case by simp
next
  case (Cons x xs)
  from Cons.prems(1) obtain s' where s': "f x s = Some s'" "foldo f xs s' = Some t"
    by (auto split: option.splits)
  have "I s'" by (rule Cons.prems(3) [OF _ Cons.prems(2) s'(1)]) simp
  from Cons.IH [OF s'(2) this] Cons.prems(3) show ?case by (meson list.set_intros(2))
qed

text \<open>What every iteration establishes and no iteration destroys holds for all elements.\<close>

lemma foldo_all:
  assumes "foldo f xs s = Some t" and "I s"
    and step: "\<And>x s s'. x \<in> set xs \<Longrightarrow> I s \<Longrightarrow> f x s = Some s' \<Longrightarrow> I s' \<and> Q x s'"
    and keep: "\<And>x y s s'. x \<in> set xs \<Longrightarrow> I s \<Longrightarrow> f x s = Some s' \<Longrightarrow> Q y s \<Longrightarrow> Q y s'"
  shows "I t \<and> (\<forall>x \<in> set xs. Q x t)"
  using assms
proof (induction xs arbitrary: s)
  case Nil
  then show ?case by simp
next
  case (Cons x xs)
  from Cons.prems(1) obtain s' where s': "f x s = Some s'" "foldo f xs s' = Some t"
    by (auto split: option.splits)
  have s'_ok: "I s'" "Q x s'" using Cons.prems(3) [OF _ Cons.prems(2) s'(1)] by simp_all
  have "I t \<and> (\<forall>x \<in> set xs. Q x t)"
    by (rule Cons.IH [OF s'(2) s'_ok(1)]) (meson Cons.prems(3,4) list.set_intros(2))+
  moreover have "Q x t"
  proof -
    have "I t \<and> Q x t"
    proof (rule foldo_inv [OF s'(2), where I = "\<lambda>s. I s \<and> Q x s"])
      show "I s' \<and> Q x s'" using s'_ok by simp
      fix y u u' assume "y \<in> set xs" "I u \<and> Q x u" "f y u = Some u'"
      then show "I u' \<and> Q x u'" by (meson Cons.prems(3,4) list.set_intros(2))
    qed
    then show ?thesis by simp
  qed
  ultimately show ?case by simp
qed

lemma foldo_total:
  assumes "I s"
    and "\<And>x s. x \<in> set xs \<Longrightarrow> I s \<Longrightarrow> \<exists>s'. f x s = Some s' \<and> I s'"
  shows "\<exists>t. foldo f xs s = Some t \<and> I t"
  using assms
proof (induction xs arbitrary: s)
  case Nil
  then show ?case by simp
next
  case (Cons x xs)
  then obtain s' where s': "f x s = Some s'" "I s'" by (meson list.set_intros(1))
  have "\<exists>t. foldo f xs s' = Some t \<and> I t"
    by (rule Cons.IH [OF s'(2)]) (meson Cons.prems(2) list.set_intros(2))
  with s' show ?case by simp
qed

lemma foldo_append:
  "foldo f (xs @ ys) s = (case foldo f xs s of None \<Rightarrow> None | Some t \<Rightarrow> foldo f ys t)"
  by (induction xs arbitrary: s) (auto split: option.splits)

section \<open>Lists and relations\<close>

lemma successively_appendI:
  "successively P xs \<Longrightarrow> successively P ys \<Longrightarrow>
    (xs \<noteq> [] \<Longrightarrow> ys \<noteq> [] \<Longrightarrow> P (last xs) (hd ys)) \<Longrightarrow> successively P (xs @ ys)"
  by (auto simp: successively_append_iff)

lemma successively_drop: "successively P xs \<Longrightarrow> successively P (drop i xs)"
  by (metis append_take_drop_id successively_append_iff)

lemma successively_trancl:
  assumes "successively P xs" and "length xs \<ge> 2"
  shows "(hd xs, last xs) \<in> {(a, b). P a b}\<^sup>+"
  using assms
proof (induction xs)
  case Nil
  then show ?case by simp
next
  case (Cons x xs)
  then obtain y ys where xs: "xs = y # ys" by (cases xs) auto
  with Cons.prems(1) have xy: "P x y" and sys: "successively P xs" by auto
  show ?case
  proof (cases "ys = []")
    case True
    with xs xy show ?thesis by auto
  next
    case False
    with xs have "length xs \<ge> 2" by (cases ys) auto
    with Cons.IH sys xs have "(y, last xs) \<in> {(a, b). P a b}\<^sup>+" by simp
    with xy xs show ?thesis by (auto intro: trancl_into_trancl2)
  qed
qed

text \<open>
  A relation stays acyclic when a fresh node is added whose successors all lie in a part
  closed under the relation.
\<close>

lemma acyclic_add_source:
  assumes acy: "acyclic r" and Dom: "Domain r \<subseteq> A" and Ran: "Range r \<subseteq> A"
    and n: "n \<notin> A" and M: "M \<subseteq> A"
  shows "acyclic (r \<union> {n} \<times> M)"
proof (rule acyclicI, rule allI, rule notI)
  fix x assume cyc: "(x, x) \<in> (r \<union> {n} \<times> M)\<^sup>+"
  have inA: "b \<in> A" if "(a, b) \<in> (r \<union> {n} \<times> M)\<^sup>+" for a b
    using that by (induction) (use Ran M in auto)
  have backw: "(a, b) \<in> r\<^sup>+" if "(a, b) \<in> (r \<union> {n} \<times> M)\<^sup>+" and "a \<in> A" for a b
    using that
  proof (induction rule: trancl_induct)
    case (base y)
    with n show ?case by auto
  next
    case (step y z)
    have "y \<in> A" using step.hyps(1) by (rule inA)
    with step.hyps(2) n have "(y, z) \<in> r" by auto
    with step show ?case by (meson trancl.trancl_into_trancl)
  qed
  from cyc have "x \<in> A" by (rule inA)
  with cyc have "(x, x) \<in> r\<^sup>+" by (rule backw)
  with acy show False by (simp add: acyclic_def)
qed

lemma count_list_filter_if:
  "count_list (filter P xs) x = (if P x then count_list xs x else 0)"
  by (induction xs) auto

lemma count_list_distinct: "distinct xs \<Longrightarrow> count_list xs x = (if x \<in> set xs then 1 else 0)"
  by (induction xs) auto

lemma count_list_notin_0: "x \<notin> set xs \<Longrightarrow> count_list xs x = 0"
  by (induction xs) auto

end
