(* ===== verification/Engine_Model.thy ===== *)
theory Engine_Model
  imports Prelude
begin

text \<open>
  The data the engine works on: internal/spec (resources, steps, ops, check results),
  internal/capability, the diagnostic events and error values of internal/diagnostic and
  internal/engine/errors.go, and the report types of internal/diagnostic/result with the
  invariant exec.go checks on every op report.
\<close>

unbundle bit_operations_syntax

section \<open>Source locations (internal/spec/span.go)\<close>

record Span =
  sp_Filename :: string
  sp_StartLine :: int
  sp_EndLine :: int
  sp_StartCol :: int
  sp_EndCol :: int

record FieldSpan =
  fs_Field :: Span
  fs_Value :: Span

definition zero_span :: Span where
  "zero_span = \<lparr>sp_Filename = [], sp_StartLine = 0, sp_EndLine = 0, sp_StartCol = 0, sp_EndCol = 0\<rparr>"

section \<open>Resources (internal/spec/resource.go)\<close>

datatype ResourceKind = ResourcePath | ResourceUser | ResourceGroup | ResourceRef | ResourceLabel

record Resource =
  res_kind :: ResourceKind
  res_name :: string

definition PathResource :: "string \<Rightarrow> Resource" where
  "PathResource n = \<lparr>res_kind = ResourcePath, res_name = n\<rparr>"

definition UserResource :: "string \<Rightarrow> Resource" where
  "UserResource n = \<lparr>res_kind = ResourceUser, res_name = n\<rparr>"

definition GroupResource :: "string \<Rightarrow> Resource" where
  "GroupResource n = \<lparr>res_kind = ResourceGroup, res_name = n\<rparr>"

definition LabelResource :: "string \<Rightarrow> Resource" where
  "LabelResource n = \<lparr>res_kind = ResourceLabel, res_name = n\<rparr>"

fun resourceKindName :: "ResourceKind \<Rightarrow> string" where
  "resourceKindName ResourcePath = ''path''"
| "resourceKindName ResourceUser = ''user''"
| "resourceKindName ResourceGroup = ''group''"
| "resourceKindName ResourceRef = ''ref''"
| "resourceKindName ResourceLabel = ''label''"

definition displayResource :: "Resource \<Rightarrow> string" where
  "displayResource r = ''['' @ resourceKindName (res_kind r) @ '']'' @ res_name r"

lemma resource_ctor_simps [simp]:
  "res_kind (PathResource n) = ResourcePath" "res_name (PathResource n) = n"
  "res_kind (UserResource n) = ResourceUser" "res_name (UserResource n) = n"
  "res_kind (GroupResource n) = ResourceGroup" "res_name (GroupResource n) = n"
  "res_kind (LabelResource n) = ResourceLabel" "res_name (LabelResource n) = n"
  by (simp_all add: PathResource_def UserResource_def GroupResource_def LabelResource_def)

text \<open>A provided path lies strictly below another path when the other is its ancestor.\<close>

definition path_below :: "string \<Rightarrow> string \<Rightarrow> bool" where
  "path_below p parent \<longleftrightarrow> HasPrefix p (parent @ ''/'')"

lemma path_below_irrefl: "\<not> path_below p p"
  by (auto simp: path_below_def HasPrefix_iff dest: arg_cong [where f = length])

section \<open>Capabilities (internal/capability/capability.go)\<close>

type_synonym Capability = u16

definition Filesystem :: Capability where "Filesystem = push_bit 0 1"
definition FileMode :: Capability where "FileMode = push_bit 1 1"
definition SymlinkCap :: Capability where "SymlinkCap = push_bit 2 1"
definition Ownership :: Capability where "Ownership = push_bit 3 1"
definition Pkg :: Capability where "Pkg = push_bit 4 1"
definition PkgUpdate :: Capability where "PkgUpdate = push_bit 5 1"
definition Service :: Capability where "Service = push_bit 6 1"
definition CommandCap :: Capability where "CommandCap = push_bit 7 1"
definition UserCap :: Capability where "UserCap = push_bit 8 1"
definition GroupCap :: Capability where "GroupCap = push_bit 9 1"
definition PkgRepo :: Capability where "PkgRepo = push_bit 10 1"
definition ContainerCap :: Capability where "ContainerCap = push_bit 11 1"

definition POSIX :: Capability where
  "POSIX = Filesystem OR Ownership OR FileMode OR SymlinkCap OR CommandCap OR UserCap OR GroupCap"

definition AllCaps :: Capability where "AllCaps = NOT 0"

definition HasAll :: "Capability \<Rightarrow> Capability \<Rightarrow> bool" where
  "HasAll c other \<longleftrightarrow> c AND other = other"

definition HasAny :: "Capability \<Rightarrow> Capability \<Rightarrow> bool" where
  "HasAny c other \<longleftrightarrow> c AND other \<noteq> 0"

definition cap_names :: "(Capability \<times> string) list" where
  "cap_names =
     [(Filesystem, ''Filesystem''), (Ownership, ''Ownership''), (FileMode, ''FileMode''),
      (SymlinkCap, ''Symlink''), (Pkg, ''Pkg''), (PkgUpdate, ''PkgUpdate''),
      (Service, ''Service''), (CommandCap, ''Command''), (UserCap, ''User''),
      (GroupCap, ''Group''), (PkgRepo, ''PkgRepo''), (ContainerCap, ''Container'')]"

definition Capability_String :: "Capability \<Rightarrow> string" where
  "Capability_String c =
     (if c = 0 then ''None''
      else if c = POSIX then ''POSIX''
      else
        (let parts = map snd (filter (\<lambda>(flag, _). c AND flag \<noteq> 0) cap_names) in
         if parts = [] then ''Capability('' @ Itoa (unat c) @ '')''
         else strings_Join '', '' parts))"

text \<open>The Go bit-clear operator written \<open>x &^ y\<close>.\<close>

definition and_not :: "Capability \<Rightarrow> Capability \<Rightarrow> Capability" where
  "and_not x y = x AND NOT y"

lemma and_not_eq_0_iff: "and_not req tgt = 0 \<longleftrightarrow> HasAll tgt req"
  by (simp add: and_not_def HasAll_def bit_eq_iff bit_simps) blast

lemma HasAll_OR: "HasAll c (a OR b) \<longleftrightarrow> HasAll c a \<and> HasAll c b"
  by (simp add: HasAll_def bit_eq_iff bit_simps) blast

lemma HasAll_0 [simp]: "HasAll c 0"
  by (simp add: HasAll_def)

lemma HasAll_AllCaps [simp]: "HasAll AllCaps c"
  by (simp add: HasAll_def AllCaps_def)

section \<open>Ops and steps (internal/spec/execution.go)\<close>

text \<open>
  An op is known to the engine by its pointer, here a number, and by what its interface
  reports; what Check and Execute do is a parameter of the schedulers. A step's optional
  interfaces (StepProvides, StepRequires, stepIdentifier) are \<open>None\<close> when the step type
  does not implement them.
\<close>

record Op =
  op_id :: nat
  op_display :: string
  op_deps :: "nat list"
  op_caps :: Capability

record Step =
  step_kind :: string
  step_desc :: string
  step_ops :: "Op list"
  step_provides :: "Resource list option"
  step_requires :: "Resource list option"
  step_id :: "nat option"

definition Provides :: "Step \<Rightarrow> Resource list" where
  "Provides s = (case step_provides s of None \<Rightarrow> [] | Some rs \<Rightarrow> rs)"

definition Requires :: "Step \<Rightarrow> Resource list" where
  "Requires s = (case step_requires s of None \<Rightarrow> [] | Some rs \<Rightarrow> rs)"

datatype CheckResult = CheckUnknown | CheckSatisfied | CheckUnsatisfied

record DriftDetail =
  drift_field :: string
  drift_current :: string
  drift_desired :: string

record Result =
  res_changed :: bool

section \<open>Diagnostics and errors (internal/diagnostic, internal/engine/errors.go)\<close>

text \<open>
  A template's data, of type any in the code, is the list of the texts it may show, and
  the time stamps of events are left out. The summary of the event union and that of the step report have the
  same fields and are one record here.
\<close>

datatype Impact = ImpactNone | ImpactAbort

record Template =
  tmpl_ID :: string
  tmpl_Text :: string
  tmpl_Hint :: string
  tmpl_Help :: string
  tmpl_Data :: "string list"
  tmpl_Span :: "Span option"

datatype CauseKind = CauseNone | CauseHook

record Cause =
  cause_kind :: CauseKind
  cause_ref :: string

record DeployRef =
  dr_Name :: string
  dr_Ordinal :: int
  dr_MaxNameWidth :: int
  dr_RunTotalSteps :: int

record StepRef =
  ref_Deploy :: DeployRef
  ref_Index :: nat
  ref_Kind :: string
  ref_Desc :: string

datatype ChangePhase = ChangePlanned | ChangeExecuted

datatype StepOutcome = StepUnchanged | StepChanged | StepFailed

record StepSummary =
  sum_Total :: nat
  sum_Succeeded :: nat
  sum_Failed :: nat
  sum_Aborted :: nat
  sum_Skipped :: nat
  sum_Changed :: nat
  sum_WouldChange :: nat

datatype Event =
    EvError Impact Template
  | EvWarning Template
  | EvInfo Template
  | EvChange ChangePhase StepRef string DriftDetail Cause
  | EvBegin StepRef Cause
  | EvResult StepRef StepOutcome StepSummary "string list" Cause

text \<open>
  Go error values, with what \<open>errors.As\<close> and \<open>errors.Is\<close> can see of them: a diagnostic
  carries the event it raises, the resource it can be deferred on and the error it wraps; a
  sentinel is known by its message; the errors of internal/target carry their fields.
\<close>

datatype EscalateReason = EscalateOK | EscalateRoot | EscalateMissing | EscalateRequiresPassword

datatype err =
    AbortError "err list"
  | StepAbortedError "err option"
  | CancelledError
  | ContextCanceled
  | Diag Event "Resource option" "err option"
  | WrappedErr string err
  | SentinelErr string
  | NoEscalationError string string EscalateReason
  | EscalationError string string string string int
  | StagingError string err
  | PlainErr string

fun as_Raisable :: "err \<Rightarrow> Event option" where
  "as_Raisable (Diag ev _ _) = Some ev"
| "as_Raisable (StepAbortedError (Some e)) = as_Raisable e"
| "as_Raisable (WrappedErr _ e) = as_Raisable e"
| "as_Raisable (StagingError _ e) = as_Raisable e"
| "as_Raisable _ = None"

fun as_Deferrable :: "err \<Rightarrow> Resource option" where
  "as_Deferrable (Diag _ (Some r) _) = Some r"
| "as_Deferrable (Diag _ None (Some e)) = as_Deferrable e"
| "as_Deferrable (StepAbortedError (Some e)) = as_Deferrable e"
| "as_Deferrable (WrappedErr _ e) = as_Deferrable e"
| "as_Deferrable (StagingError _ e) = as_Deferrable e"
| "as_Deferrable _ = None"

fun as_AbortError :: "err \<Rightarrow> err option" where
  "as_AbortError (AbortError cs) = Some (AbortError cs)"
| "as_AbortError (StepAbortedError (Some e)) = as_AbortError e"
| "as_AbortError (Diag _ _ (Some e)) = as_AbortError e"
| "as_AbortError (WrappedErr _ e) = as_AbortError e"
| "as_AbortError (StagingError _ e) = as_AbortError e"
| "as_AbortError _ = None"

fun as_StepAbortedError :: "err \<Rightarrow> err option" where
  "as_StepAbortedError (StepAbortedError c) = Some (StepAbortedError c)"
| "as_StepAbortedError (Diag _ _ (Some e)) = as_StepAbortedError e"
| "as_StepAbortedError (WrappedErr _ e) = as_StepAbortedError e"
| "as_StepAbortedError (StagingError _ e) = as_StepAbortedError e"
| "as_StepAbortedError _ = None"

fun is_ContextCanceled :: "err \<Rightarrow> bool" where
  "is_ContextCanceled ContextCanceled = True"
| "is_ContextCanceled (StepAbortedError (Some e)) = is_ContextCanceled e"
| "is_ContextCanceled (Diag _ _ (Some e)) = is_ContextCanceled e"
| "is_ContextCanceled (WrappedErr _ e) = is_ContextCanceled e"
| "is_ContextCanceled (StagingError _ e) = is_ContextCanceled e"
| "is_ContextCanceled _ = False"

definition ShouldAbort :: "Impact \<Rightarrow> bool" where
  "ShouldAbort i \<longleftrightarrow> i = ImpactAbort"

fun aborts :: "Event \<Rightarrow> bool" where
  "aborts (EvError i _) = ShouldAbort i"
| "aborts _ = False"

text \<open>
  The events a function emits are its first component. \<open>nil\<close> errors are \<open>None\<close>.
\<close>

definition emitScopedDiagnostic :: "err option \<Rightarrow> Event list \<times> Impact \<times> bool" where
  "emitScopedDiagnostic e =
     (case e of None \<Rightarrow> ([], ImpactNone, False)
      | Some e' \<Rightarrow>
          (case as_Raisable e' of
             Some ev \<Rightarrow> ([ev], if aborts ev then ImpactAbort else ImpactNone, True)
           | None \<Rightarrow> ([], ImpactNone, False)))"

text \<open>The scope parameters of the four emitters are not used, as in the code.\<close>

definition emitEngineDiagnostic :: "string \<Rightarrow> err option \<Rightarrow> Event list \<times> Impact \<times> bool" where
  "emitEngineDiagnostic cfgPath e = emitScopedDiagnostic e"

definition emitPlanDiagnostic ::
  "int \<Rightarrow> string \<Rightarrow> string \<Rightarrow> err option \<Rightarrow> Event list \<times> Impact \<times> bool" where
  "emitPlanDiagnostic idx kind desc e = emitScopedDiagnostic e"

definition emitStepDiagnostic ::
  "nat \<Rightarrow> string \<Rightarrow> string \<Rightarrow> err option \<Rightarrow> Event list \<times> Impact \<times> bool" where
  "emitStepDiagnostic idx kind desc e = emitScopedDiagnostic e"

definition emitOpDiagnostic ::
  "nat \<Rightarrow> string \<Rightarrow> string \<Rightarrow> string \<Rightarrow> err option \<Rightarrow> Event list \<times> Impact \<times> bool" where
  "emitOpDiagnostic idx kind desc displayID e = emitScopedDiagnostic e"

lemmas emit_defs = emitEngineDiagnostic_def emitPlanDiagnostic_def emitStepDiagnostic_def
  emitOpDiagnostic_def

text \<open>A Go panic is the left summand, with the message the code gives it.\<close>

type_synonym go_panic = string

definition panicIfNotAbortError :: "err \<Rightarrow> go_panic + err" where
  "panicIfNotAbortError e =
     (case as_AbortError e of Some a \<Rightarrow> Inr a
      | None \<Rightarrow>
          (case as_StepAbortedError e of Some a \<Rightarrow> Inr a
           | None \<Rightarrow>
               if is_ContextCanceled e then Inr CancelledError
               else Inl ''BUG: Engine failed with non-signal error''))"

section \<open>Reports (internal/diagnostic/result, exec.go)\<close>

datatype OpOutcome =
    OpSucceeded | OpFailed | OpAborted | OpSkipped | OpWouldChange
  | opOutcomeUnknown

record OpReport =
  or_op :: Op
  or_outcome :: OpOutcome
  or_result :: "Result option"
  or_err :: "err option"

record StepReport =
  sr_step :: "Step option"
  sr_ops :: "OpReport list"
  sr_summary :: StepSummary

record Execution =
  ex_steps :: "StepReport list"
  ex_err :: "err option"

definition zero_summary :: StepSummary where
  "zero_summary = \<lparr>sum_Total = 0, sum_Succeeded = 0, sum_Failed = 0, sum_Aborted = 0,
     sum_Skipped = 0, sum_Changed = 0, sum_WouldChange = 0\<rparr>"

text \<open>The zero value of result.StepReport, which the report slice starts from.\<close>

definition zero_report :: StepReport where
  "zero_report = \<lparr>sr_step = None, sr_ops = [], sr_summary = zero_summary\<rparr>"

definition validateOpReport :: "OpReport \<Rightarrow> go_panic option" where
  "validateOpReport r =
     (case or_outcome r of
        OpSucceeded \<Rightarrow>
          (if or_result r = None \<or> or_err r \<noteq> None
           then Some ''BUG: succeeded op must have result only'' else None)
      | OpFailed \<Rightarrow>
          (if or_err r = None \<or> or_result r \<noteq> None
           then Some ''BUG: failed/aborted op must have err only'' else None)
      | OpAborted \<Rightarrow>
          (if or_err r = None \<or> or_result r \<noteq> None
           then Some ''BUG: failed/aborted op must have err only'' else None)
      | OpSkipped \<Rightarrow>
          (if or_result r \<noteq> None \<or> or_err r \<noteq> None
           then Some ''BUG: skipped/would-change op must have no result or err'' else None)
      | OpWouldChange \<Rightarrow>
          (if or_result r \<noteq> None \<or> or_err r \<noteq> None
           then Some ''BUG: skipped/would-change op must have no result or err'' else None)
      | opOutcomeUnknown \<Rightarrow> Some ''BUG: unknown op outcome'')"

definition count_outcome :: "StepSummary \<Rightarrow> OpOutcome \<Rightarrow> Result option \<Rightarrow> StepSummary" where
  "count_outcome s0 oc r =
     (let s = s0\<lparr>sum_Total := sum_Total s0 + 1\<rparr> in
      case oc of
        OpSucceeded \<Rightarrow>
          (let s' = s\<lparr>sum_Succeeded := sum_Succeeded s + 1\<rparr> in
           case r of Some res \<Rightarrow>
               if res_changed res then s'\<lparr>sum_Changed := sum_Changed s' + 1\<rparr> else s'
           | None \<Rightarrow> s')
      | OpFailed \<Rightarrow> s\<lparr>sum_Failed := sum_Failed s + 1\<rparr>
      | OpAborted \<Rightarrow> s\<lparr>sum_Aborted := sum_Aborted s + 1\<rparr>
      | OpSkipped \<Rightarrow> s\<lparr>sum_Skipped := sum_Skipped s + 1\<rparr>
      | OpWouldChange \<Rightarrow> s\<lparr>sum_WouldChange := sum_WouldChange s + 1\<rparr>
      | opOutcomeUnknown \<Rightarrow> s)"

text \<open>Check and apply ask the same question of a report with different counters.\<close>

definition stepChanged :: "StepReport \<Rightarrow> bool \<Rightarrow> bool" where
  "stepChanged ar checkOnly =
     (if checkOnly then sum_WouldChange (sr_summary ar) > 0
      else sum_Changed (sr_summary ar) > 0)"

lemma emit_none [simp]: "emitScopedDiagnostic None = ([], ImpactNone, False)"
  by (simp add: emitScopedDiagnostic_def)

lemma emit_abort_consumed:
  "emitScopedDiagnostic e = (evs, i, c) \<Longrightarrow> ShouldAbort i \<Longrightarrow> c"
  by (auto simp: emitScopedDiagnostic_def ShouldAbort_def split: option.splits)

lemma emit_AbortError [simp]:
  "emitScopedDiagnostic (Some (AbortError cs)) = ([], ImpactNone, False)"
  by (simp add: emitScopedDiagnostic_def)

end
