(* ===== verification/Counters.thy ===== *)
theory Counters
  imports Prelude
begin

text \<open>
  The pending counters both schedulers of exec.go run on: finishing a node decrements the
  counter of every node waiting for it and launches the ones that reach zero. The locale is
  the contract of a dependency graph, stated over its requirement and waiter lists; the
  step graph and the op graph interpret it.
\<close>

section \<open>Unblocking the waiters of a node\<close>

text \<open>
  \<open>for _, w := range waiters { w.pending--; if w.pending == 0 { launch(w) } }\<close>
\<close>

fun unblock :: "nat list \<Rightarrow> (nat \<Rightarrow> int) \<Rightarrow> nat list \<Rightarrow> (nat \<Rightarrow> int) \<times> nat list" where
  "unblock [] pending launched = (pending, launched)"
| "unblock (w # ws) pending launched =
     (let pending' = pending(w := pending w - 1)
      in unblock ws pending' (if pending' w = 0 then launched @ [w] else launched))"

lemma unblock_pending:
  "fst (unblock ws p q) n = p n - int (count_list ws n)"
  by (induction ws arbitrary: p q) (auto simp: Let_def)

lemma unblock_launched:
  "unblock ws p q = (p', q') \<Longrightarrow>
     \<exists>new. q' = q @ new \<and> distinct new
       \<and> set new = {w \<in> set ws. 0 < p w \<and> p w \<le> int (count_list ws w)}"
proof (induction ws arbitrary: p q)
  case Nil
  then show ?case by (auto intro: exI [of _ "[]"])
next
  case (Cons w ws)
  let ?p = "p(w := p w - 1)"
  let ?q = "if ?p w = 0 then q @ [w] else q"
  from Cons.prems have "unblock ws ?p ?q = (p', q')" by (simp add: Let_def)
  from Cons.IH [OF this] obtain new where new: "q' = ?q @ new" "distinct new"
    "set new = {x \<in> set ws. 0 < ?p x \<and> ?p x \<le> int (count_list ws x)}" by blast
  have pos: "0 < count_list ws x" if "x \<in> set ws" for x
    using that by (metis count_list_0_iff neq0_conv)
  show ?case
  proof (cases "p w = 1")
    case True
    with new have "q' = q @ (w # new)" "distinct (w # new)" by auto
    moreover have "set (w # new) = {x \<in> set (w # ws). 0 < p x \<and> p x \<le> int (count_list (w # ws) x)}"
      using new(3) True by auto
    ultimately show ?thesis by blast
  next
    case False
    have "set new = {x \<in> set (w # ws). 0 < p x \<and> p x \<le> int (count_list (w # ws) x)}"
      unfolding new(3) using False pos [of w] by (cases "w \<in> set ws") (auto simp: count_list_notin_0)
    with new(1,2) False show ?thesis by auto
  qed
qed

section \<open>Orders of completion\<close>

text \<open>Every element comes after everything it depends on.\<close>

definition topological :: "('n \<Rightarrow> 'n list) \<Rightarrow> 'n list \<Rightarrow> bool" where
  "topological deps xs \<longleftrightarrow>
     (\<forall>i < length xs. set (deps (xs ! i)) \<subseteq> set (take i xs))"

lemma topological_Nil [simp]: "topological deps []"
  by (simp add: topological_def)

lemma topological_snoc:
  "topological deps (xs @ [x]) \<longleftrightarrow> topological deps xs \<and> set (deps x) \<subseteq> set xs"
  by (auto simp: topological_def nth_append less_Suc_eq)

lemma topological_trancl:
  assumes "topological deps xs" "distinct xs" "j < length xs"
    and "(a, xs ! j) \<in> {(d, n). d \<in> set (deps n)}\<^sup>+"
  shows "\<exists>i < j. xs ! i = a"
  using assms(4,3)
proof (induction "xs ! j" arbitrary: j rule: trancl_induct)
  case base
  then have "a \<in> set (take j xs)" using assms(1) by (auto simp: topological_def)
  then show ?case using base(2) by (auto simp: in_set_conv_nth)
next
  case (step y)
  then have "y \<in> set (take j xs)" using assms(1) by (auto simp: topological_def)
  then obtain k where k: "k < j" "xs ! k = y" using step.prems by (auto simp: in_set_conv_nth)
  then obtain i where "i < k" "xs ! i = a" using step.hyps(3) [of k] step.prems by auto
  with k(1) show ?case by (auto intro: less_trans)
qed

lemma topological_no_cycle:
  assumes "topological deps xs" "distinct xs" "n \<in> set xs"
  shows "(n, n) \<notin> {(d, m). d \<in> set (deps m)}\<^sup>+"
proof
  assume cyc: "(n, n) \<in> {(d, m). d \<in> set (deps m)}\<^sup>+"
  from assms(3) obtain j where j: "j < length xs" "xs ! j = n" by (auto simp: in_set_conv_nth)
  with topological_trancl [OF assms(1,2) j(1)] cyc obtain i where "i < j" "xs ! i = n" by auto
  with j assms(2) nth_eq_iff_index_eq [of xs i j] show False by auto
qed

section \<open>The contract of a dependency graph\<close>

locale dependency_graph =
  fixes nodes :: "nat set"
    and deps :: "nat \<Rightarrow> nat list"
    and waiters :: "nat \<Rightarrow> nat list"
  assumes finite_nodes: "finite nodes"
    and deps_nodes: "n \<in> nodes \<Longrightarrow> set (deps n) \<subseteq> nodes"
    and waiters_nodes: "d \<in> nodes \<Longrightarrow> set (waiters d) \<subseteq> nodes"
    and waiters_deps: "d \<in> nodes \<Longrightarrow> n \<in> nodes \<Longrightarrow>
          count_list (waiters d) n = count_list (deps n) d"
begin

text \<open>The counters, the launched nodes and the completed ones agree.\<close>

definition counters_ok :: "(nat \<Rightarrow> int) \<Rightarrow> nat list \<Rightarrow> nat list \<Rightarrow> bool" where
  "counters_ok pending launched completed \<longleftrightarrow>
     (\<forall>n \<in> nodes. pending n = int (length (filter (\<lambda>d. d \<notin> set completed) (deps n))))
     \<and> set launched = {n \<in> nodes. pending n = 0} \<and> distinct launched
     \<and> set completed \<subseteq> set launched \<and> distinct completed \<and> topological deps completed"

lemma counters_start:
  assumes "\<forall>n \<in> nodes. pending n = int (length (deps n))"
    and "set launched = {n \<in> nodes. pending n = 0}" and "distinct launched"
  shows "counters_ok pending launched []"
  using assms by (simp add: counters_ok_def)

lemma length_filter_insert:
  "length (filter (\<lambda>x. x \<notin> D) xs) = length (filter (\<lambda>x. x \<notin> insert d D) xs)
     + (if d \<in> D then 0 else count_list xs d)"
  by (induction xs) auto

lemma launched_deps:
  assumes "counters_ok p q c" and "n \<in> set q"
  shows "set (deps n) \<subseteq> set c"
proof -
  from assms have "length (filter (\<lambda>d. d \<notin> set c) (deps n)) = 0"
    by (auto simp: counters_ok_def)
  then show ?thesis by (auto simp: filter_empty_conv)
qed

lemma counters_complete:
  assumes ok: "counters_ok p q c" and d: "d \<in> set q" "d \<notin> set c"
    and un: "unblock (waiters d) p q = (p', q')"
  shows "counters_ok p' q' (c @ [d]) \<and> (\<exists>new. q' = q @ new)"
proof -
  from ok d have dn: "d \<in> nodes" by (auto simp: counters_ok_def)
  have p': "p' n = int (length (filter (\<lambda>x. x \<notin> set (c @ [d])) (deps n)))" if n: "n \<in> nodes" for n
  proof -
    have "p' n = p n - int (count_list (deps n) d)"
      using unblock_pending [of "waiters d" p q n] un waiters_deps [OF dn n] by simp
    moreover have "p n = int (length (filter (\<lambda>x. x \<notin> set c) (deps n)))"
      using ok n by (simp add: counters_ok_def)
    ultimately show ?thesis using length_filter_insert [of "set c" "deps n" d] d(2) by simp
  qed
  from unblock_launched [OF un] obtain new where new: "q' = q @ new" "distinct new"
    "set new = {w \<in> set (waiters d). 0 < p w \<and> p w \<le> int (count_list (waiters d) w)}" by blast
  have cnt: "p' n = p n - int (count_list (waiters d) n)" for n
    using unblock_pending [of "waiters d" p q n] un by simp
  have q: "set q = {n \<in> nodes. p n = 0}" using ok by (simp add: counters_ok_def)
  have zero: "count_list (waiters d) n = 0" if "n \<in> set q" for n
    using that cnt [of n] p' [of n] q by auto
  have new_eq: "set new = {n \<in> nodes. p n \<noteq> 0 \<and> p' n = 0}"
  proof (intro equalityI subsetI)
    fix n assume "n \<in> set new"
    then have "n \<in> nodes" "0 < p n" "p n \<le> int (count_list (waiters d) n)"
      using new(3) waiters_nodes [OF dn] by auto
    then show "n \<in> {n \<in> nodes. p n \<noteq> 0 \<and> p' n = 0}" using cnt [of n] p' [of n] by auto
  next
    fix n assume n: "n \<in> {n \<in> nodes. p n \<noteq> 0 \<and> p' n = 0}"
    then have "0 < p n" using ok by (auto simp: counters_ok_def)
    moreover have "n \<in> set (waiters d)"
    proof (rule ccontr)
      assume "n \<notin> set (waiters d)"
      then have "p' n = p n" using cnt [of n] by (simp add: count_list_notin_0)
      with n \<open>0 < p n\<close> show False by simp
    qed
    ultimately show "n \<in> set new" using n cnt [of n] new(3) by auto
  qed
  moreover have "p' n = 0" if "n \<in> set q" for n using that zero [OF that] cnt [of n] q by auto
  ultimately have q': "set q' = {n \<in> nodes. p' n = 0}" using new(1) q by auto
  have "set new \<inter> set q = {}" using new_eq q by auto
  then have "distinct q'" using ok new by (auto simp: counters_ok_def)
  moreover have "topological deps (c @ [d])"
    using ok launched_deps [OF ok d(1)] by (simp add: counters_ok_def topological_snoc)
  moreover have "set (c @ [d]) \<subseteq> set q'" using ok d new(1) by (auto simp: counters_ok_def)
  moreover have "distinct (c @ [d])" using ok d(2) by (simp add: counters_ok_def)
  ultimately have "counters_ok p' q' (c @ [d])" using p' q' unfolding counters_ok_def by blast
  with new(1) show ?thesis by blast
qed

text \<open>No deadlock: when everything launched has completed, an acyclic graph is done.\<close>

lemma all_complete:
  assumes ok: "counters_ok p q c" and fin: "set q \<subseteq> set c"
    and acy: "acyclic {(d, n). n \<in> nodes \<and> d \<in> set (deps n)}"
  shows "set c = nodes"
proof (rule ccontr)
  assume ne: "set c \<noteq> nodes"
  let ?r = "{(d, n). n \<in> nodes \<and> d \<in> set (deps n)}"
  have "?r \<subseteq> nodes \<times> nodes" using deps_nodes by auto
  then have "finite ?r" using finite_nodes by (meson finite_SigmaI finite_subset)
  with acy have wf: "wf ?r" by (rule finite_acyclic_wf [rotated])
  have "set c \<subseteq> nodes" using ok by (auto simp: counters_ok_def)
  with ne obtain n where "n \<in> nodes - set c" by auto
  from wfE_min [OF wf this] obtain m where m: "m \<in> nodes - set c"
    and min: "\<And>y. (y, m) \<in> ?r \<Longrightarrow> y \<notin> nodes - set c" by blast
  have "set (deps m) \<subseteq> set c" using min m deps_nodes [of m] by auto
  then have "p m = 0" using ok m by (auto simp: counters_ok_def filter_empty_conv)
  with ok m have "m \<in> set q" by (auto simp: counters_ok_def)
  with fin m show False by auto
qed

lemma cyclic_never_completes:
  assumes "counters_ok p q c" and "(n, n) \<in> {(d, m). d \<in> set (deps m)}\<^sup>+"
  shows "n \<notin> set c"
  using topological_no_cycle [of deps c n] assms by (auto simp: counters_ok_def)

end

end
