(* ===== verification/Op_Plan.thy ===== *)
theory Op_Plan
  imports Engine_Model Counters
begin

text \<open>
  buildPlan (internal/engine/exec.go): the nodes of a step's ops, linked through their
  declared dependencies, with the three checks that panic on a faulty step kind: an op
  listed twice, a dependency on an op of another step, and a cycle, found by Kahn's
  algorithm. Nodes are known by their position, which stands for the pointer.
\<close>

record opNode =
  n_op :: Op
  n_deps :: "nat list"
  n_dependents :: "nat list"
  n_indegree :: int
  n_pending :: int
  n_satisfied :: bool
  n_outcome :: OpOutcome
  n_result :: "Result option"
  n_err :: "err option"

definition new_opNode :: "Op \<Rightarrow> opNode" where
  "new_opNode op = \<lparr>n_op = op, n_deps = [], n_dependents = [], n_indegree = 0, n_pending = 0,
     n_satisfied = False, n_outcome = opOutcomeUnknown, n_result = None, n_err = None\<rparr>"

text \<open>The first loop: one node per op, and the lookup index.\<close>

fun index_ops :: "Op list \<Rightarrow> nat \<Rightarrow> (nat \<rightharpoonup> nat) \<Rightarrow> go_panic + (nat \<rightharpoonup> nat)" where
  "index_ops [] i byOp = Inr byOp"
| "index_ops (op # ops) i byOp =
     (if byOp (op_id op) \<noteq> None then Inl ''BUG: op listed twice in step plan''
      else index_ops ops (Suc i) (byOp(op_id op \<mapsto> i)))"

definition link :: "nat \<Rightarrow> nat \<Rightarrow> opNode list \<Rightarrow> opNode list" where
  "link n dn ns =
     (let ns1 = ns[n := (ns ! n)\<lparr>n_deps := n_deps (ns ! n) @ [dn]\<rparr>];
          ns2 = ns1[dn := (ns1 ! dn)\<lparr>n_dependents := n_dependents (ns1 ! dn) @ [n]\<rparr>]
      in ns2[n := (ns2 ! n)\<lparr>n_indegree := n_indegree (ns2 ! n) + 1\<rparr>])"

fun link_deps :: "(nat \<rightharpoonup> nat) \<Rightarrow> nat \<Rightarrow> nat list \<Rightarrow> opNode list \<Rightarrow> go_panic + opNode list" where
  "link_deps byOp n [] ns = Inr ns"
| "link_deps byOp n (d # ds) ns =
     (case byOp d of
        None \<Rightarrow> Inl ''BUG: op depends on unknown op''
      | Some dn \<Rightarrow> link_deps byOp n ds (link n dn ns))"

fun link_all :: "(nat \<rightharpoonup> nat) \<Rightarrow> nat list \<Rightarrow> opNode list \<Rightarrow> go_panic + opNode list" where
  "link_all byOp [] ns = Inr ns"
| "link_all byOp (n # is) ns =
     (case link_deps byOp n (op_deps (n_op (ns ! n))) ns of
        Inl p \<Rightarrow> Inl p
      | Inr ns' \<Rightarrow> link_all byOp is ns')"

text \<open>
  Kahn's loop over the queue. Every node enters the queue at most once, so as much fuel as
  nodes is enough (\<open>kahn_run\<close>); \<open>None\<close> is running out of it.
\<close>

fun kahn :: "nat \<Rightarrow> opNode list \<Rightarrow> nat list \<Rightarrow> (nat \<Rightarrow> int) \<Rightarrow> nat \<Rightarrow> nat option" where
  "kahn fuel ns [] tmp visited = Some visited"
| "kahn 0 ns (n # queue) tmp visited = None"
| "kahn (Suc fuel) ns (n # queue) tmp visited =
     (let (tmp', queue') = unblock (n_dependents (ns ! n)) tmp queue
      in kahn fuel ns queue' tmp' (Suc visited))"

definition buildPlan :: "Op list \<Rightarrow> go_panic + opNode list" where
  "buildPlan ops =
     (case index_ops ops 0 Map.empty of
        Inl p \<Rightarrow> Inl p
      | Inr byOp \<Rightarrow>
          (case link_all byOp [0..<length ops] (map new_opNode ops) of
             Inl p \<Rightarrow> Inl p
           | Inr ns \<Rightarrow>
               (let tmp = (\<lambda>i. n_indegree (ns ! i));
                    queue = filter (\<lambda>i. tmp i = 0) [0..<length ns]
                in if kahn (length ns) ns queue tmp 0 \<noteq> Some (length ns)
                   then Inl ''BUG: cycle detected in op graph''
                   else Inr (map (\<lambda>n. n\<lparr>n_pending := n_indegree n\<rparr>) ns))))"

section \<open>Linked nodes\<close>

definition linked_ok :: "opNode list \<Rightarrow> bool" where
  "linked_ok ns \<longleftrightarrow>
     (\<forall>n < length ns. set (n_deps (ns ! n)) \<subseteq> {..<length ns}
        \<and> set (n_dependents (ns ! n)) \<subseteq> {..<length ns}
        \<and> n_indegree (ns ! n) = int (length (n_deps (ns ! n)))
        \<and> (\<forall>m < length ns. count_list (n_dependents (ns ! n)) m = count_list (n_deps (ns ! m)) n))"

definition fresh :: "opNode \<Rightarrow> bool" where
  "fresh n \<longleftrightarrow> n_outcome n = opOutcomeUnknown \<and> n_result n = None \<and> n_err n = None \<and> \<not> n_satisfied n"

lemma link_nth:
  assumes "n < length ns" "dn < length ns" "k < length ns"
  shows "n_deps (link n dn ns ! k) = (if k = n then n_deps (ns ! k) @ [dn] else n_deps (ns ! k))"
    and "n_dependents (link n dn ns ! k) =
      (if k = dn then n_dependents (ns ! k) @ [n] else n_dependents (ns ! k))"
    and "n_indegree (link n dn ns ! k) = (if k = n then n_indegree (ns ! k) + 1 else n_indegree (ns ! k))"
    and "n_op (link n dn ns ! k) = n_op (ns ! k)"
    and "fresh (link n dn ns ! k) = fresh (ns ! k)"
  using assms by (auto simp: link_def Let_def nth_list_update fresh_def)

lemma length_link [simp]: "length (link n dn ns) = length ns"
  by (simp add: link_def Let_def)

lemma linked_ok_link:
  assumes ok: "linked_ok ns" and n: "n < length ns" and d: "dn < length ns"
  shows "linked_ok (link n dn ns)"
  unfolding linked_ok_def
proof (intro allI impI conjI)
  fix k assume "k < length (link n dn ns)"
  then have k: "k < length ns" by simp
  note okk = ok [unfolded linked_ok_def, rule_format, OF k]
  show "set (n_deps (link n dn ns ! k)) \<subseteq> {..<length (link n dn ns)}"
    "set (n_dependents (link n dn ns ! k)) \<subseteq> {..<length (link n dn ns)}"
    "n_indegree (link n dn ns ! k) = int (length (n_deps (link n dn ns ! k)))"
    using okk n d by (auto simp: link_nth [OF n d k])
  fix m assume "m < length (link n dn ns)"
  then have m: "m < length ns" by simp
  show "count_list (n_dependents (link n dn ns ! k)) m = count_list (n_deps (link n dn ns ! m)) k"
    using okk m by (auto simp: link_nth [OF n d k] link_nth [OF n d m])
qed

lemma linked_ok_new: "linked_ok (map new_opNode ops)"
  by (simp add: linked_ok_def new_opNode_def)

text \<open>What linking one node's dependencies yields, and when it panics.\<close>

definition same_ops :: "opNode list \<Rightarrow> opNode list \<Rightarrow> bool" where
  "same_ops ns ns' \<longleftrightarrow> length ns' = length ns
     \<and> (\<forall>k < length ns. n_op (ns' ! k) = n_op (ns ! k) \<and> fresh (ns' ! k) = fresh (ns ! k))"

lemma same_ops_trans: "same_ops a b \<Longrightarrow> same_ops b c \<Longrightarrow> same_ops a c"
  by (auto simp: same_ops_def)

lemma link_deps_spec:
  assumes "linked_ok ns" and "n < length ns" and "\<forall>d i. byOp d = Some i \<longrightarrow> i < length ns"
  shows "(case link_deps byOp n ds ns of
      Inl _ \<Rightarrow> \<exists>d \<in> set ds. byOp d = None
    | Inr ns' \<Rightarrow> (\<forall>d \<in> set ds. byOp d \<noteq> None) \<and> linked_ok ns' \<and> same_ops ns ns'
        \<and> (\<forall>k < length ns. n_deps (ns' ! k) =
             (if k = n then n_deps (ns ! k) @ map (the \<circ> byOp) ds else n_deps (ns ! k))))"
  using assms
proof (induction ds arbitrary: ns)
  case Nil
  then show ?case by (simp add: same_ops_def)
next
  case (Cons d ds)
  show ?case
  proof (cases "byOp d")
    case None
    then show ?thesis by simp
  next
    case (Some i)
    then have i: "i < length ns" using Cons.prems(3) by blast
    have "linked_ok (link n i ns)" by (rule linked_ok_link [OF Cons.prems(1,2) i])
    note IH = Cons.IH [OF this, simplified, OF Cons.prems(2,3)]
    show ?thesis using IH Some i Cons.prems(2)
      by (auto simp: same_ops_def link_nth split: sum.splits)
  qed
qed

lemma link_all_spec:
  assumes "linked_ok ns" and "\<forall>n \<in> set is. n < length ns" and "distinct is"
    and "\<forall>d i. byOp d = Some i \<longrightarrow> i < length ns" and "\<forall>n \<in> set is. n_deps (ns ! n) = []"
  shows "(case link_all byOp is ns of
      Inl _ \<Rightarrow> \<exists>n \<in> set is. \<exists>d \<in> set (op_deps (n_op (ns ! n))). byOp d = None
    | Inr ns' \<Rightarrow> (\<forall>n \<in> set is. \<forall>d \<in> set (op_deps (n_op (ns ! n))). byOp d \<noteq> None)
        \<and> linked_ok ns' \<and> same_ops ns ns'
        \<and> (\<forall>k < length ns. n_deps (ns' ! k) =
             (if k \<in> set is then map (the \<circ> byOp) (op_deps (n_op (ns ! k))) else n_deps (ns ! k))))"
  using assms
proof (induction "is" arbitrary: ns)
  case Nil
  then show ?case by (simp add: same_ops_def)
next
  case (Cons n "is")
  have n: "n < length ns" using Cons.prems by simp
  note one = link_deps_spec [OF Cons.prems(1) n Cons.prems(4), of "op_deps (n_op (ns ! n))"]
  show ?case
  proof (cases "link_deps byOp n (op_deps (n_op (ns ! n))) ns")
    case (Inl p)
    with one show ?thesis by auto
  next
    case (Inr ns1)
    with one have ok1: "linked_ok ns1" and same: "same_ops ns ns1"
      and found: "\<forall>d \<in> set (op_deps (n_op (ns ! n))). byOp d \<noteq> None"
      and deps: "\<forall>k < length ns. n_deps (ns1 ! k) =
             (if k = n then n_deps (ns ! k) @ map (the \<circ> byOp) (op_deps (n_op (ns ! n)))
              else n_deps (ns ! k))" by auto
    have len: "length ns1 = length ns" using same by (simp add: same_ops_def)
    have ops: "n_op (ns1 ! k) = n_op (ns ! k)" if "k < length ns" for k
      using same that by (simp add: same_ops_def)
    have "n \<notin> set is" using Cons.prems(3) by simp
    then have rest: "\<forall>m \<in> set is. n_deps (ns1 ! m) = []"
      using deps Cons.prems(2,5) by auto
    note IH = Cons.IH [OF ok1, unfolded len, OF _ _ Cons.prems(4) rest]
    show ?thesis
    proof (cases "link_all byOp is ns1")
      case (Inl p)
      with IH Cons.prems(2,3) \<open>link_deps byOp n _ ns = Inr ns1\<close> ops show ?thesis by auto
    next
      case I: (Inr ns2)
      with IH Cons.prems(2,3) have r: "\<forall>m \<in> set is. \<forall>d \<in> set (op_deps (n_op (ns1 ! m))). byOp d \<noteq> None"
        "linked_ok ns2" "same_ops ns1 ns2"
        "\<forall>k < length ns. n_deps (ns2 ! k) =
             (if k \<in> set is then map (the \<circ> byOp) (op_deps (n_op (ns1 ! k))) else n_deps (ns1 ! k))"
        by auto
      have "n_deps (ns ! n) = []" using Cons.prems(5) by simp
      then show ?thesis
        using I Inr r found ops deps same_ops_trans [OF same r(3)] Cons.prems(2) \<open>n \<notin> set is\<close>
        by (auto split: if_splits)
    qed
  qed
qed

lemma index_ops_spec:
  "(case index_ops ops i m of
      Inl _ \<Rightarrow> \<not> distinct (map op_id ops) \<or> (\<exists>op \<in> set ops. m (op_id op) \<noteq> None)
    | Inr m' \<Rightarrow> distinct (map op_id ops) \<and> (\<forall>op \<in> set ops. m (op_id op) = None)
        \<and> (\<forall>d. m' d = (if d \<in> op_id ` set ops
             then Some (i + length (takeWhile (\<lambda>op. op_id op \<noteq> d) ops)) else m d)))"
proof (induction ops arbitrary: i m)
  case Nil
  then show ?case by simp
next
  case (Cons op ops)
  show ?case
  proof (cases "m (op_id op)")
    case (Some j)
    then show ?thesis by auto
  next
    case None
    let ?m = "m(op_id op \<mapsto> i)"
    note IH = Cons.IH [where i = "Suc i" and m = ?m]
    show ?thesis
    proof (cases "index_ops ops (Suc i) ?m")
      case (Inl p)
      have "\<not> distinct (map op_id ops) \<or> (\<exists>x \<in> set ops. ?m (op_id x) \<noteq> None)"
        by (rule IH [unfolded Inl sum.case])
      then have "\<not> distinct (map op_id (op # ops)) \<or> (\<exists>x \<in> set (op # ops). m (op_id x) \<noteq> None)"
        by (auto split: if_splits) (metis image_eqI)
      then show ?thesis using Inl None by simp
    next
      case (Inr m')
      note I = IH [unfolded Inr sum.case]
      have d: "distinct (map op_id ops)" "\<forall>x \<in> set ops. ?m (op_id x) = None"
        using I by blast+
      have m': "\<And>d. m' d = (if d \<in> op_id ` set ops
             then Some (Suc i + length (takeWhile (\<lambda>x. op_id x \<noteq> d) ops)) else ?m d)"
        using I by blast
      have new: "op_id op \<notin> op_id ` set ops"
      proof
        assume "op_id op \<in> op_id ` set ops"
        then obtain x where "x \<in> set ops" "op_id x = op_id op" by auto
        with d(2) have "?m (op_id op) = None" by metis
        then show False by simp
      qed
      have "m (op_id x) = None" if "x \<in> set ops" for x
        using d(2) that by (fastforce split: if_splits)
      moreover have "m' d = (if d \<in> op_id ` set (op # ops)
             then Some (i + length (takeWhile (\<lambda>x. op_id x \<noteq> d) (op # ops))) else m d)" for d
        unfolding m' using new by (cases "d = op_id op") auto
      moreover have "distinct (map op_id (op # ops))" using d(1) new by simp
      moreover have "index_ops (op # ops) i m = Inr m'" using Inr None by simp
      ultimately show ?thesis using None by simp
    qed
  qed
qed

section \<open>Kahn's loop\<close>

lemma unblock_append:
  "unblock ws p (q0 @ q) = (fst (unblock ws p q), q0 @ snd (unblock ws p q))"
proof (induction ws arbitrary: p q)
  case (Cons w ws)
  show ?case
    using Cons.IH [of "p(w := p w - 1)" q] Cons.IH [of "p(w := p w - 1)" "q @ [w]"]
    by (simp add: Let_def fun_upd_def)
qed simp

definition op_nodes :: "opNode list \<Rightarrow> nat set" where
  "op_nodes ns = (if linked_ok ns then {..<length ns} else {})"

definition op_edges :: "opNode list \<Rightarrow> (nat \<times> nat) set" where
  "op_edges ns = {(d, n). n < length ns \<and> d \<in> set (n_deps (ns ! n))}"

interpretation og: dependency_graph "op_nodes ns" "\<lambda>i. n_deps (ns ! i)" "\<lambda>i. n_dependents (ns ! i)"
  for ns :: "opNode list"
  by unfold_locales (auto simp: op_nodes_def linked_ok_def split: if_splits)

lemma op_edges_finite: "linked_ok ns \<Longrightarrow> finite (op_edges ns)"
  by (rule finite_subset [of _ "{..<length ns} \<times> {..<length ns}"])
    (auto simp: op_edges_def linked_ok_def)

lemma og_counters:
  assumes "og.counters_ok ns tmp q c"
  shows "set q \<subseteq> {..<length ns}" "distinct q" "set c \<subseteq> set q" "distinct c"
  using assms unfolding og.counters_ok_def by (auto simp: op_nodes_def split: if_splits)

lemma kahn_run:
  assumes ok: "linked_ok ns" and "og.counters_ok ns tmp (c @ queue) c"
    and "length ns \<le> fuel + length c"
  shows "\<exists>tmp' c'. kahn fuel ns queue tmp (length c) = Some (length c') \<and> og.counters_ok ns tmp' c' c'"
  using assms(2,3)
proof (induction fuel ns queue tmp "length c" arbitrary: c rule: kahn.induct)
  case (1 fuel ns tmp)
  then show ?case by auto
next
  case (2 ns n queue tmp)
  have "set (c @ n # queue) \<subseteq> {..<length ns}" "distinct (c @ n # queue)"
    using og_counters [OF 2(1)] by simp_all
  then have "length (c @ n # queue) \<le> length ns"
    by (metis card_lessThan card_mono distinct_card finite_lessThan)
  with 2 show ?case by simp
next
  case (3 fuel ns n queue tmp)
  obtain tmp' queue' where un: "unblock (n_dependents (ns ! n)) tmp queue = (tmp', queue')"
    by (cases "unblock (n_dependents (ns ! n)) tmp queue")
  have "n \<in> set (c @ n # queue)" "n \<notin> set c" using og_counters(2) [OF "3.prems"(1)] by auto
  from og.counters_complete [OF "3.prems"(1) this]
    unblock_append [of "n_dependents (ns ! n)" tmp "c @ [n]" queue] un
  have "og.counters_ok ns tmp' ((c @ [n]) @ queue') (c @ [n])" by simp
  from "3.hyps" [OF un [symmetric] refl _ this] "3.prems"(2) un
  show ?case by simp
qed

lemma kahn_acyclic:
  assumes ok: "linked_ok ns"
  shows "kahn (length ns) ns (filter (\<lambda>i. n_indegree (ns ! i) = 0) [0..<length ns])
      (\<lambda>i. n_indegree (ns ! i)) 0 = Some (length ns) \<longleftrightarrow> acyclic (op_edges ns)"
    (is "kahn _ _ ?q ?t 0 = _ \<longleftrightarrow> _")
proof -
  have "og.counters_ok ns ?t ([] @ ?q) []"
    by (subst append_Nil, rule og.counters_start)
      (use ok in \<open>auto simp: linked_ok_def op_nodes_def split: if_splits\<close>)
  from kahn_run [OF ok this, of "length ns"] obtain t' c' where
    k: "kahn (length ns) ns ?q ?t 0 = Some (length c')" and c': "og.counters_ok ns t' c' c'" by auto
  have sub: "set c' \<subseteq> {..<length ns}" and dist: "distinct c'"
    using og_counters [OF c'] by auto
  have len: "length c' = length ns \<longleftrightarrow> set c' = {..<length ns}"
    using sub dist by (metis card_lessThan card_subset_eq distinct_card finite_lessThan)
  have eq: "op_edges ns = {(d, n). n \<in> op_nodes ns \<and> d \<in> set (n_deps (ns ! n))}"
    using ok by (auto simp: op_edges_def op_nodes_def)
  have "acyclic (op_edges ns)" if all: "set c' = {..<length ns}"
  proof (rule acyclicI, intro allI notI)
    fix x assume x: "(x, x) \<in> (op_edges ns)\<^sup>+"
    then have "x < length ns" by (cases rule: tranclE) (auto simp: op_edges_def)
    moreover have "(x, x) \<in> {(d, m). d \<in> set (n_deps (ns ! m))}\<^sup>+"
      by (rule trancl_mono [OF x]) (auto simp: op_edges_def)
    ultimately show False using og.cyclic_never_completes [OF c'] all by auto
  qed
  moreover have "set c' = {..<length ns}" if "acyclic (op_edges ns)"
    using og.all_complete [OF c'] that ok by (simp add: eq op_nodes_def)
  ultimately show ?thesis using k len by auto
qed

section \<open>The plan of a step's ops\<close>

text \<open>What a step kind must get right: distinct ops, known dependencies, no cycle.\<close>

definition dep_edges :: "Op list \<Rightarrow> (nat \<times> nat) set" where
  "dep_edges ops = {(d, op_id op) | d op. op \<in> set ops \<and> d \<in> set (op_deps op)}"

definition ops_ok :: "Op list \<Rightarrow> bool" where
  "ops_ok ops \<longleftrightarrow> distinct (map op_id ops)
     \<and> (\<forall>op \<in> set ops. set (op_deps op) \<subseteq> op_id ` set ops) \<and> acyclic (dep_edges ops)"

definition plan_ok :: "Op list \<Rightarrow> opNode list \<Rightarrow> bool" where
  "plan_ok ops ns \<longleftrightarrow> map n_op ns = ops \<and> linked_ok ns \<and> acyclic (op_edges ns) \<and> list_all fresh ns
     \<and> (\<forall>n < length ns. map (\<lambda>d. op_id (ops ! d)) (n_deps (ns ! n)) = op_deps (ops ! n)
          \<and> n_pending (ns ! n) = n_indegree (ns ! n))"

lemma op_edges_ids:
  assumes ok: "linked_ok ns" and len: "length ns = length ops" and dist: "distinct (map op_id ops)"
    and deps: "\<And>n. n < length ns \<Longrightarrow> map (\<lambda>d. op_id (ops ! d)) (n_deps (ns ! n)) = op_deps (ops ! n)"
  shows "acyclic (op_edges ns) \<longleftrightarrow> acyclic (dep_edges ops)"
proof -
  let ?f = "\<lambda>i. op_id (ops ! i)"
  have inj: "inj_on ?f {..<length ns}"
    using dist len by (auto simp: inj_on_def distinct_conv_nth)
  have img: "dep_edges ops = map_prod ?f ?f ` op_edges ns"
  proof (intro equalityI subsetI)
    fix x assume "x \<in> dep_edges ops"
    then obtain d n where x: "x = (d, ?f n)" "n < length ns" "d \<in> set (op_deps (ops ! n))"
      using len by (auto simp: dep_edges_def in_set_conv_nth)
    with deps [OF x(2)] obtain i where "i \<in> set (n_deps (ns ! n))" "d = ?f i"
      by (metis (no_types, lifting) image_iff list.set_map)
    with x show "x \<in> map_prod ?f ?f ` op_edges ns"
      by (auto simp: op_edges_def intro!: image_eqI [of _ _ "(i, n)"])
  next
    fix x assume "x \<in> map_prod ?f ?f ` op_edges ns"
    then obtain i n where x: "x = (?f i, ?f n)" "n < length ns" "i \<in> set (n_deps (ns ! n))"
      by (auto simp: op_edges_def)
    then have "?f i \<in> set (op_deps (ops ! n))" using deps [OF x(2)] by (metis image_eqI list.set_map)
    moreover have "ops ! n \<in> set ops" using x(2) len by simp
    ultimately show "x \<in> dep_edges ops"
      unfolding x(1) dep_edges_def by (intro CollectI exI [of _ "?f i"] exI [of _ "ops ! n"]) (use x(2) in simp)
  qed
  have fin: "finite (op_edges ns)" by (rule op_edges_finite [OF ok])
  have nodes: "op_edges ns \<subseteq> {..<length ns} \<times> {..<length ns}"
    using ok by (auto simp: op_edges_def linked_ok_def)
  show ?thesis
  proof
    assume "acyclic (op_edges ns)"
    then have "wf (op_edges ns)" using fin by (simp add: finite_acyclic_wf)
    moreover have "dep_edges ops \<subseteq> inv_image (op_edges ns) (the_inv_into {..<length ns} ?f)"
    proof (clarsimp simp: img)
      fix i n assume "(i, n) \<in> op_edges ns"
      moreover from this nodes have "i \<in> {..<length ns}" "n \<in> {..<length ns}" by auto
      ultimately show "(the_inv_into {..<length ns} ?f (?f i), the_inv_into {..<length ns} ?f (?f n))
          \<in> op_edges ns" using the_inv_into_f_f [OF inj] by simp
    qed
    ultimately have "wf (dep_edges ops)" by (meson wf_inv_image wf_subset)
    then show "acyclic (dep_edges ops)" by (rule wf_acyclic)
  next
    assume "acyclic (dep_edges ops)"
    then have "wf (dep_edges ops)" using fin img by (simp add: finite_acyclic_wf)
    moreover have "op_edges ns \<subseteq> inv_image (dep_edges ops) ?f" unfolding img by force
    ultimately have "wf (op_edges ns)" by (meson wf_inv_image wf_subset)
    then show "acyclic (op_edges ns)" by (rule wf_acyclic)
  qed
qed

text \<open>buildPlan succeeds exactly on such a list, with its nodes in declaration order.\<close>

lemma buildPlan_spec:
  "(case buildPlan ops of Inl _ \<Rightarrow> \<not> ops_ok ops | Inr ns \<Rightarrow> ops_ok ops \<and> plan_ok ops ns)"
proof (cases "index_ops ops 0 Map.empty")
  case (Inl p)
  then show ?thesis
    using index_ops_spec [where ops = ops and i = 0 and m = Map.empty] by (auto simp: buildPlan_def ops_ok_def)
next
  case (Inr byOp)
  have I: "distinct (map op_id ops)" and byOp: "\<And>d. byOp d = (if d \<in> op_id ` set ops
      then Some (length (takeWhile (\<lambda>op. op_id op \<noteq> d) ops)) else None)"
    using index_ops_spec [where ops = ops and i = 0 and m = Map.empty] Inr by simp_all
  have pos: "length (takeWhile (\<lambda>op. op_id op \<noteq> d) ops) < length ops
      \<and> op_id (ops ! length (takeWhile (\<lambda>op. op_id op \<noteq> d) ops)) = d"
    if "d \<in> op_id ` set ops" for d
  proof -
    from that obtain op where "op \<in> set ops" "op_id op = d" by auto
    then have lt: "length (takeWhile (\<lambda>op. op_id op \<noteq> d) ops) < length ops"
      by (induction ops) auto
    with nth_length_takeWhile [OF this] show ?thesis by simp
  qed
  let ?ns0 = "map new_opNode ops"
  have L: "case link_all byOp [0..<length ops] ?ns0 of
      Inl _ \<Rightarrow> \<exists>n \<in> {..<length ops}. \<exists>d \<in> set (op_deps (ops ! n)). byOp d = None
    | Inr ns \<Rightarrow> (\<forall>n < length ops. \<forall>d \<in> set (op_deps (ops ! n)). byOp d \<noteq> None)
        \<and> linked_ok ns \<and> same_ops ?ns0 ns
        \<and> (\<forall>k < length ops. n_deps (ns ! k) = map (the \<circ> byOp) (op_deps (ops ! k)))"
  proof -
    have "\<forall>d i. byOp d = Some i \<longrightarrow> i < length ?ns0" using byOp pos by (auto split: if_splits)
    with link_all_spec [OF linked_ok_new, of "[0..<length ops]" ops byOp]
    show ?thesis by (auto simp: new_opNode_def split: sum.splits)
  qed
  show ?thesis
  proof (cases "link_all byOp [0..<length ops] ?ns0")
    case I2: (Inl p)
    then have "\<not> ops_ok ops"
      using L byOp by (auto simp: ops_ok_def split: if_splits)
    with I2 Inr show ?thesis by (simp add: buildPlan_def)
  next
    case I2: (Inr ns)
    with L have ns: "linked_ok ns" "same_ops ?ns0 ns"
      and known: "\<And>n. n < length ops \<Longrightarrow> \<forall>d \<in> set (op_deps (ops ! n)). byOp d \<noteq> None"
      and deps: "\<And>n. n < length ops \<Longrightarrow> n_deps (ns ! n) = map (the \<circ> byOp) (op_deps (ops ! n))"
      by auto
    from ns(2) have len: "length ns = length ops"
      and opn: "\<And>n. n < length ops \<Longrightarrow> n_op (ns ! n) = ops ! n"
      and fr: "\<And>n. n < length ops \<Longrightarrow> fresh (ns ! n)"
      by (auto simp: same_ops_def new_opNode_def fresh_def)
    have known': "set (op_deps (ops ! n)) \<subseteq> op_id ` set ops" if "n < length ops" for n
      using known [OF that] byOp by (auto split: if_splits)
    have ids: "map (\<lambda>d. op_id (ops ! d)) (n_deps (ns ! n)) = op_deps (ops ! n)" if "n < length ops" for n
      unfolding deps [OF that] using known' [OF that] pos byOp by (auto intro!: map_idI)
    have acy: "acyclic (op_edges ns) \<longleftrightarrow> acyclic (dep_edges ops)"
      by (rule op_edges_ids [OF ns(1) len I]) (use ids len in simp)
    have ok: "ops_ok ops \<longleftrightarrow> acyclic (op_edges ns)"
    proof -
      have "set (op_deps op) \<subseteq> op_id ` set ops" if "op \<in> set ops" for op
        using known' that by (metis in_set_conv_nth)
      then show ?thesis unfolding ops_ok_def acy using I by blast
    qed
    let ?ns = "map (\<lambda>n. n\<lparr>n_pending := n_indegree n\<rparr>) ns"
    have "plan_ok ops ?ns" if "acyclic (op_edges ns)"
    proof -
      have "map n_op ?ns = ops" using len opn by (auto intro!: nth_equalityI)
      moreover have "linked_ok ?ns" using ns(1) by (simp add: linked_ok_def)
      moreover have "op_edges ?ns = op_edges ns" by (auto simp: op_edges_def)
      moreover have "list_all fresh ?ns" using fr len by (auto simp: list_all_length fresh_def)
      ultimately show ?thesis using that ids len by (simp add: plan_ok_def)
    qed
    then show ?thesis
      using Inr I2 ok kahn_acyclic [OF ns(1)] by (simp add: buildPlan_def Let_def)
  qed
qed

section \<open>Properties\<close>

text \<open>C11: buildPlan panics exactly when a step kind lists an op twice, depends on an op it does not
  list, or lists ops with cyclic dependencies; otherwise its nodes are the ops in declaration order,
  with the declared dependencies, both edge lists in agreement and counters set to the in-degrees.\<close>

theorem buildPlan_correct:
  "(\<exists>ns. buildPlan ops = Inr ns) = ops_ok ops
   \<and> (case buildPlan ops of Inl _ \<Rightarrow> True | Inr ns \<Rightarrow> plan_ok ops ns)"
  using buildPlan_spec [of ops] by (auto split: sum.splits)

end
