(* ===== verification/Cycles.thy ===== *)
theory Cycles
  imports Prelude
begin

text \<open>
  Cycle detection on a graph given by a neighbour function (internal/engine/cycles.go):
  the depth-first search with its visited and on-stack maps, its explicit stack and its
  list of cycles, and the deduplication of cycles that are rotations of each other.

  The Go search recurses without a bound, so the model spends fuel: one unit per nested
  call. \<open>None\<close> is running out. For roots inside a finite set of nodes closed under
  \<open>neighbors\<close>, more fuel than nodes is enough (\<open>detectCycles_enough\<close>).
\<close>

section \<open>The search\<close>

record 'n dfs_state =
  visited :: "'n \<Rightarrow> bool"
  onStack :: "'n \<Rightarrow> bool"
  stack :: "'n list"
  cycles :: "'n list list"

text \<open>\<open>for i, s := range slices.Backward(stack)\<close>, stopping at the first match.\<close>

fun backward_index :: "'n list \<Rightarrow> nat \<Rightarrow> 'n \<Rightarrow> nat option" where
  "backward_index st 0 n = None"
| "backward_index st (Suc i) n = (if st ! i = n then Some i else backward_index st i n)"

primrec dfs :: "nat \<Rightarrow> ('n \<Rightarrow> 'n list) \<Rightarrow> 'n \<Rightarrow> 'n dfs_state \<Rightarrow> 'n dfs_state option" where
  "dfs 0 neighbors n s = None"
| "dfs (Suc fuel) neighbors n s =
     (case (if onStack s n then backward_index (stack s) (length (stack s)) n else None) of
        Some i \<Rightarrow> Some (s\<lparr>cycles := cycles s @ [drop i (stack s) @ [n]]\<rparr>)
      | None \<Rightarrow>
          if visited s n then Some s
          else
            (case foldo (dfs fuel neighbors) (neighbors n)
                    (s\<lparr>visited := (visited s)(n := True), onStack := (onStack s)(n := True),
                       stack := stack s @ [n]\<rparr>) of
               None \<Rightarrow> None
             | Some t \<Rightarrow> Some (t\<lparr>stack := butlast (stack t), onStack := (onStack t)(n := False)\<rparr>)))"

definition dfs_start :: "'n dfs_state" where
  "dfs_start = \<lparr>visited = (\<lambda>_. False), onStack = (\<lambda>_. False), stack = [], cycles = []\<rparr>"

definition detectCycles :: "nat \<Rightarrow> 'n list \<Rightarrow> ('n \<Rightarrow> 'n list) \<Rightarrow> 'n list list option" where
  "detectCycles fuel roots neighbors =
     map_option cycles
       (foldo (\<lambda>root s. if visited s root then Some s else dfs fuel neighbors root s) roots dfs_start)"

section \<open>What a reported cycle is\<close>

definition edge :: "('n \<Rightarrow> 'n list) \<Rightarrow> 'n \<Rightarrow> 'n \<Rightarrow> bool" where
  "edge neighbors a b \<longleftrightarrow> b \<in> set (neighbors a)"

text \<open>A simple cycle, closed by repeating its first node at the end.\<close>

definition closed_cycle :: "('n \<Rightarrow> 'n list) \<Rightarrow> 'n list \<Rightarrow> bool" where
  "closed_cycle neighbors c \<longleftrightarrow>
     length c \<ge> 2 \<and> hd c = last c \<and> distinct (butlast c) \<and> successively (edge neighbors) c"

lemma closed_cycle_trancl:
  assumes "closed_cycle neighbors c"
  shows "(hd c, hd c) \<in> {(a, b). edge neighbors a b}\<^sup>+"
  using successively_trancl [of "edge neighbors" c] assms unfolding closed_cycle_def by auto

section \<open>Invariant of the search\<close>

definition finished :: "'n dfs_state \<Rightarrow> 'n set" where
  "finished s = {n. visited s n \<and> \<not> onStack s n}"

definition stack_ok :: "('n \<Rightarrow> 'n list) \<Rightarrow> 'n dfs_state \<Rightarrow> bool" where
  "stack_ok nb s \<longleftrightarrow>
     (\<forall>n. onStack s n \<longleftrightarrow> n \<in> set (stack s)) \<and> distinct (stack s)
     \<and> (\<forall>n \<in> set (stack s). visited s n) \<and> successively (edge nb) (stack s)
     \<and> (\<forall>c \<in> set (cycles s). closed_cycle nb c \<and> (\<forall>n \<in> set c. visited s n))"

text \<open>While no cycle is reported, the finished nodes are closed and acyclic.\<close>

definition done_ok :: "('n \<Rightarrow> 'n list) \<Rightarrow> 'n dfs_state \<Rightarrow> bool" where
  "done_ok nb s \<longleftrightarrow>
     (\<forall>n \<in> finished s. set (nb n) \<subseteq> finished s)
     \<and> acyclic {(a, b). a \<in> finished s \<and> edge nb a b}"

definition grows :: "'n dfs_state \<Rightarrow> 'n dfs_state \<Rightarrow> bool" where
  "grows s t \<longleftrightarrow> stack t = stack s \<and> finished s \<subseteq> finished t
     \<and> (\<forall>n. visited s n \<longrightarrow> visited t n) \<and> (\<exists>cs. cycles t = cycles s @ cs)"

lemma grows_refl [simp]: "grows s s"
  by (simp add: grows_def)

lemma grows_trans: "grows s t \<Longrightarrow> grows t u \<Longrightarrow> grows s u"
  unfolding grows_def by auto

lemma backward_index_Some:
  "backward_index st k n = Some i \<Longrightarrow> i < k \<and> st ! i = n"
  by (induction k) (auto split: if_splits)

lemma backward_index_None:
  "backward_index st k n = None \<Longrightarrow> k \<le> length st \<Longrightarrow> n \<notin> set (take k st)"
  by (induction k) (auto simp: take_Suc_conv_app_nth split: if_splits)

lemma back_edge_cycle:
  assumes ok: "stack_ok nb s" and i: "backward_index (stack s) (length (stack s)) n = Some i"
    and e: "edge nb (last (stack s)) n"
  shows "closed_cycle nb (drop i (stack s) @ [n])"
proof -
  from backward_index_Some [OF i] have il: "i < length (stack s)" and ni: "stack s ! i = n"
    by auto
  from il have ne: "drop i (stack s) \<noteq> []" by simp
  have "hd (drop i (stack s)) = n" using il ni by (simp add: hd_drop_conv_nth)
  moreover have "successively (edge nb) (drop i (stack s) @ [n])"
    using ok e ne by (intro successively_appendI successively_drop) (auto simp: stack_ok_def)
  moreover have "distinct (drop i (stack s))" using ok by (simp add: stack_ok_def)
  moreover have "2 \<le> length (drop i (stack s) @ [n])" using il by simp
  ultimately show ?thesis using ne by (simp add: closed_cycle_def)
qed

lemma stack_ok_push:
  assumes "stack_ok nb s" and "\<not> visited s n" and "stack s \<noteq> [] \<Longrightarrow> edge nb (last (stack s)) n"
  shows "stack_ok nb (s\<lparr>visited := (visited s)(n := True), onStack := (onStack s)(n := True),
                        stack := stack s @ [n]\<rparr>)"
  using assms unfolding stack_ok_def by (auto intro!: successively_appendI)

lemma stack_ok_pop:
  assumes ok: "stack_ok nb t" and st: "stack t = st @ [n]"
  shows "stack_ok nb (t\<lparr>stack := butlast (stack t), onStack := (onStack t)(n := False)\<rparr>)"
  using ok unfolding stack_ok_def st by (auto simp: successively_append_iff)

lemma finished_pop:
  assumes "stack_ok nb t" and "stack t = st @ [n]"
  shows "finished (t\<lparr>stack := butlast (stack t), onStack := (onStack t)(n := False)\<rparr>)
    = insert n (finished t)"
  using assms unfolding finished_def stack_ok_def by auto

lemma done_ok_pop:
  assumes ok: "stack_ok nb t" and st: "stack t = st @ [n]" and d: "done_ok nb t"
    and nb: "set (nb n) \<subseteq> finished t"
  shows "done_ok nb (t\<lparr>stack := butlast (stack t), onStack := (onStack t)(n := False)\<rparr>)"
proof -
  let ?r = "{(a, b). a \<in> finished t \<and> edge nb a b}"
  have "n \<notin> finished t" using ok st by (auto simp: finished_def stack_ok_def)
  moreover have "Range ?r \<subseteq> finished t" using d by (auto simp: done_ok_def edge_def)
  ultimately have "acyclic (?r \<union> {n} \<times> set (nb n))"
    using d nb by (intro acyclic_add_source [where A = "finished t"]) (auto simp: done_ok_def)
  moreover have "{(a, b). a \<in> insert n (finished t) \<and> edge nb a b} = ?r \<union> {n} \<times> set (nb n)"
    by (auto simp: edge_def)
  ultimately show ?thesis
    using d nb unfolding done_ok_def finished_pop [OF ok st] by auto
qed

section \<open>One search\<close>

text \<open>What a call establishes, given the stack it was called on.\<close>

definition dfs_post :: "('n \<Rightarrow> 'n list) \<Rightarrow> 'n \<Rightarrow> 'n dfs_state \<Rightarrow> 'n dfs_state \<Rightarrow> bool" where
  "dfs_post nb n s t \<longleftrightarrow> stack_ok nb t \<and> grows s t
     \<and> (cycles t = [] \<longrightarrow> done_ok nb s \<longrightarrow> done_ok nb t \<and> n \<in> finished t)"

lemma dfs_children:
  assumes run: "foldo f ns s = Some t" and ok: "stack_ok nb s" and st: "stack s \<noteq> []"
    and ns: "\<forall>m \<in> set ns. edge nb (last (stack s)) m"
    and f: "\<And>m u u'. f m u = Some u' \<Longrightarrow> stack_ok nb u \<Longrightarrow>
              (stack u \<noteq> [] \<Longrightarrow> edge nb (last (stack u)) m) \<Longrightarrow> dfs_post nb m u u'"
  shows "stack_ok nb t \<and> grows s t
     \<and> (cycles t = [] \<longrightarrow> done_ok nb s \<longrightarrow> done_ok nb t \<and> set ns \<subseteq> finished t)"
proof -
  let ?I = "\<lambda>u. stack_ok nb u \<and> grows s u \<and> (cycles u = [] \<longrightarrow> done_ok nb s \<longrightarrow> done_ok nb u)"
  let ?Q = "\<lambda>m u. cycles u = [] \<longrightarrow> done_ok nb s \<longrightarrow> m \<in> finished u"
  have post: "dfs_post nb m u u'" if "m \<in> set ns" "?I u" "f m u = Some u'" for m u u'
    using that ns by (intro f) (auto simp: grows_def)
  have "?I t \<and> (\<forall>m \<in> set ns. ?Q m t)"
  proof (rule foldo_all [OF run])
    show "?I s" using ok by simp
  next
    fix m u u' assume *: "m \<in> set ns" "?I u" "f m u = Some u'"
    from post [OF this] * show "?I u' \<and> ?Q m u'"
      unfolding dfs_post_def by (metis append_is_Nil_conv grows_def grows_trans)
  next
    fix m k u u' assume *: "m \<in> set ns" "?I u" "f m u = Some u'" "?Q k u"
    from post [OF *(1-3)] have "grows u u'" by (simp add: dfs_post_def)
    with *(4) show "?Q k u'" by (auto simp: grows_def)
  qed
  then show ?thesis by auto
qed

lemma dfs_call:
  assumes "dfs fuel nb n s = Some t" and "stack_ok nb s"
    and "stack s \<noteq> [] \<Longrightarrow> edge nb (last (stack s)) n"
  shows "dfs_post nb n s t"
  using assms
proof (induction fuel arbitrary: n s t)
  case 0
  then show ?case by simp
next
  case (Suc fuel)
  let ?b = "if onStack s n then backward_index (stack s) (length (stack s)) n else None"
  show ?case
  proof (cases ?b)
    case (Some i)
    then have i: "backward_index (stack s) (length (stack s)) n = Some i"
      and on: "onStack s n" by (auto split: if_splits)
    from Suc.prems(1) Some have t: "t = s\<lparr>cycles := cycles s @ [drop i (stack s) @ [n]]\<rparr>" by simp
    from on Suc.prems(2) have "stack s \<noteq> []" by (auto simp: stack_ok_def)
    with Suc.prems(3) have "edge nb (last (stack s)) n" by simp
    from back_edge_cycle [OF Suc.prems(2) i this] Suc.prems(2) show ?thesis
      unfolding t dfs_post_def using on
      by (auto simp: stack_ok_def grows_def finished_def dest: in_set_dropD)
  next
    case None
    have off: "\<not> onStack s n"
      using None backward_index_None [of "stack s" "length (stack s)" n] Suc.prems(2)
      by (auto simp: stack_ok_def split: if_splits)
    show ?thesis
    proof (cases "visited s n")
      case True
      with Suc.prems(1,2) None off show ?thesis by (auto simp: dfs_post_def finished_def)
    next
      case False
      define s0 where "s0 = s\<lparr>visited := (visited s)(n := True),
        onStack := (onStack s)(n := True), stack := stack s @ [n]\<rparr>"
      from Suc.prems(1) None False obtain u where
        u: "foldo (dfs fuel nb) (nb n) s0 = Some u"
        and t: "t = u\<lparr>stack := butlast (stack u), onStack := (onStack u)(n := False)\<rparr>"
        by (auto simp: s0_def split: option.splits)
      have ok0: "stack_ok nb s0"
        unfolding s0_def using Suc.prems(2,3) False by (intro stack_ok_push) auto
      have fin0: "finished s0 = finished s"
        using False by (auto simp: s0_def finished_def)
      have done0: "done_ok nb s0 = done_ok nb s" by (simp add: done_ok_def fin0)
      have kids: "stack_ok nb u \<and> grows s0 u
          \<and> (cycles u = [] \<longrightarrow> done_ok nb s0 \<longrightarrow> done_ok nb u \<and> set (nb n) \<subseteq> finished u)"
        by (rule dfs_children [OF u ok0]) (auto simp: s0_def edge_def intro: Suc.IH)
      then have stu: "stack u = stack s @ [n]" by (simp add: grows_def s0_def)
      have fin: "finished t = insert n (finished u)"
        unfolding t using kids stu by (intro finished_pop) auto
      have "stack_ok nb t" unfolding t using kids stu by (intro stack_ok_pop) auto
      moreover have "grows s t"
        using kids stu fin fin0 by (auto simp: grows_def s0_def t)
      moreover have "done_ok nb t \<and> n \<in> finished t" if "cycles t = []" "done_ok nb s"
        using that kids stu done0 unfolding fin unfolding t
        by (intro conjI done_ok_pop) auto
      ultimately show ?thesis by (simp add: dfs_post_def)
    qed
  qed
qed


lemma dfs_visited_reachable:
  "dfs fuel nb n s = Some t \<Longrightarrow> visited t m \<Longrightarrow>
     visited s m \<or> (n, m) \<in> {(a, b). edge nb a b}\<^sup>*"
proof (induction fuel arbitrary: n s t m)
  case 0
  then show ?case by simp
next
  case (Suc fuel)
  show ?case
  proof (cases "(if onStack s n then backward_index (stack s) (length (stack s)) n else None) = None
      \<and> \<not> visited s n")
    case True
    let ?s0 = "s\<lparr>visited := (visited s)(n := True), onStack := (onStack s)(n := True),
        stack := stack s @ [n]\<rparr>"
    let ?I = "\<lambda>u. \<forall>m. visited u m \<longrightarrow> visited s m \<or> (n, m) \<in> {(a, b). edge nb a b}\<^sup>*"
    from Suc.prems(1) True obtain u where u: "foldo (dfs fuel nb) (nb n) ?s0 = Some u"
      and t: "visited t = visited u"
      by (auto split: option.splits)
    have "?I u"
    proof (rule foldo_inv [OF u])
      show "?I ?s0" by auto
    next
      fix x v v' assume x: "x \<in> set (nb n)" and v: "?I v" and v': "dfs fuel nb x v = Some v'"
      have "(n, x) \<in> {(a, b). edge nb a b}" using x by (simp add: edge_def)
      then show "?I v'" using Suc.IH [OF v'] v by (meson converse_rtrancl_into_rtrancl)
    qed
    with Suc.prems(2) t show ?thesis by auto
  next
    case False
    with Suc.prems show ?thesis by (auto split: option.splits if_splits)
  qed
qed

section \<open>Enough fuel\<close>

lemma dfs_visited_mono:
  "dfs fuel nb n s = Some t \<Longrightarrow> visited s m \<Longrightarrow> visited t m"
proof (induction fuel arbitrary: n s t)
  case 0
  then show ?case by simp
next
  case (Suc fuel)
  have mono: "visited u m" if "foldo (dfs fuel nb) ns v = Some u" "visited v m" for ns u v
    by (rule foldo_inv [OF that(1), where I = "\<lambda>w. visited w m"]) (use that(2) Suc.IH in auto)
  show ?case using Suc.prems by (auto split: option.splits if_splits dest!: mono)
qed

lemma dfs_enough:
  assumes "finite V" and "n \<in> V" and "\<And>m. m \<in> V \<Longrightarrow> set (nb m) \<subseteq> V"
    and "card {m \<in> V. \<not> visited s m} < fuel"
  shows "\<exists>t. dfs fuel nb n s = Some t"
  using assms(2,4)
proof (induction fuel arbitrary: n s)
  case 0
  then show ?case by simp
next
  case (Suc fuel)
  show ?case
  proof (cases "(if onStack s n then backward_index (stack s) (length (stack s)) n else None) = None
      \<and> \<not> visited s n")
    case True
    let ?s0 = "s\<lparr>visited := (visited s)(n := True), onStack := (onStack s)(n := True),
        stack := stack s @ [n]\<rparr>"
    let ?I = "\<lambda>u. \<forall>m. visited ?s0 m \<longrightarrow> visited u m"
    have less: "card {m \<in> V. \<not> visited u m} < fuel" if "?I u" for u :: "'a dfs_state"
    proof -
      have "{m \<in> V. \<not> visited u m} \<subseteq> {m \<in> V. \<not> visited s m} - {n}" using that by auto
      then have "card {m \<in> V. \<not> visited u m} \<le> card ({m \<in> V. \<not> visited s m} - {n})"
        using assms(1) by (intro card_mono) auto
      also have "\<dots> < card {m \<in> V. \<not> visited s m}"
        using assms(1) Suc.prems(1) True by (intro psubset_card_mono) auto
      finally show ?thesis using Suc.prems(2) by simp
    qed
    have "\<exists>u. foldo (dfs fuel nb) (nb n) ?s0 = Some u \<and> ?I u"
    proof (rule foldo_total)
      fix x and u :: "'a dfs_state" assume x: "x \<in> set (nb n)" and u: "?I u"
      from x assms(3) [OF Suc.prems(1)] have "x \<in> V" by auto
      from Suc.IH [OF this less [OF u]] obtain u' where u': "dfs fuel nb x u = Some u'" ..
      with u dfs_visited_mono [OF u'] show "\<exists>u'. dfs fuel nb x u = Some u' \<and> ?I u'" by auto
    qed simp
    with True show ?thesis by (auto split: option.splits)
  next
    case False
    then show ?thesis by (auto split: option.splits if_splits)
  qed
qed

section \<open>The whole detection\<close>

definition reach_edges :: "('n \<Rightarrow> 'n list) \<Rightarrow> 'n list \<Rightarrow> ('n \<times> 'n) set" where
  "reach_edges nb roots =
     {(a, b). (\<exists>r \<in> set roots. (r, a) \<in> {(x, y). edge nb x y}\<^sup>*) \<and> edge nb a b}"

abbreviation root_step :: "nat \<Rightarrow> ('n \<Rightarrow> 'n list) \<Rightarrow> 'n \<Rightarrow> 'n dfs_state \<Rightarrow> 'n dfs_state option" where
  "root_step fuel nb \<equiv> \<lambda>root s. if visited s root then Some s else dfs fuel nb root s"

lemma root_loop:
  assumes run: "foldo (root_step fuel nb) roots dfs_start = Some t"
  shows "stack_ok nb t \<and> stack t = []
     \<and> (cycles t = [] \<longrightarrow> done_ok nb t \<and> set roots \<subseteq> finished t)"
proof -
  let ?I = "\<lambda>u. stack_ok nb u \<and> stack u = [] \<and> (cycles u = [] \<longrightarrow> done_ok nb u)"
  let ?Q = "\<lambda>r u. cycles u = [] \<longrightarrow> r \<in> finished u"
  have call: "dfs_post nb x u u'"
    if "?I u" "root_step fuel nb x u = Some u'" "\<not> visited u x" for x u u'
    using that by (intro dfs_call [of fuel]) auto
  have "?I t \<and> (\<forall>r \<in> set roots. ?Q r t)"
  proof (rule foldo_all [OF run])
    show "?I dfs_start" by (simp add: stack_ok_def done_ok_def finished_def dfs_start_def acyclic_def)
  next
    fix x u u' assume *: "x \<in> set roots" "?I u" "root_step fuel nb x u = Some u'"
    show "?I u' \<and> ?Q x u'"
    proof (cases "visited u x")
      case True
      with * show ?thesis by (auto simp: finished_def stack_ok_def)
    next
      case False
      from call [OF *(2,3) False] *(2) show ?thesis by (auto simp: dfs_post_def grows_def)
    qed
  next
    fix x y u u' assume *: "x \<in> set roots" "?I u" "root_step fuel nb x u = Some u'" "?Q y u"
    show "?Q y u'"
    proof (cases "visited u x")
      case True
      with * show ?thesis by simp
    next
      case False
      from call [OF *(2,3) False] *(4) show ?thesis by (auto simp: dfs_post_def grows_def)
    qed
  qed
  then show ?thesis by auto
qed

lemma root_loop_visited:
  assumes run: "foldo (root_step fuel nb) roots dfs_start = Some t" and "visited t m"
  shows "\<exists>r \<in> set roots. (r, m) \<in> {(a, b). edge nb a b}\<^sup>*"
proof -
  let ?I = "\<lambda>u. \<forall>m. visited u m \<longrightarrow> (\<exists>r \<in> set roots. (r, m) \<in> {(a, b). edge nb a b}\<^sup>*)"
  have "?I t"
    by (rule foldo_inv [OF run])
      (auto simp: dfs_start_def split: if_splits dest: dfs_visited_reachable)
  with assms(2) show ?thesis by auto
qed

lemma detectCycles_sound:
  assumes "detectCycles fuel roots nb = Some cs" and "c \<in> set cs"
  shows "closed_cycle nb c \<and> (\<exists>r \<in> set roots. (r, hd c) \<in> {(a, b). edge nb a b}\<^sup>*)"
proof -
  from assms(1) obtain t where t: "foldo (root_step fuel nb) roots dfs_start = Some t"
    and cs: "cs = cycles t" by (auto simp: detectCycles_def)
  from root_loop [OF t] assms(2) cs have c: "closed_cycle nb c" "\<forall>n \<in> set c. visited t n"
    by (auto simp: stack_ok_def)
  then have "visited t (hd c)" by (cases c) (auto simp: closed_cycle_def)
  from root_loop_visited [OF t this] c(1) show ?thesis by blast
qed

lemma detectCycles_complete:
  assumes "detectCycles fuel roots nb = Some []"
  shows "acyclic (reach_edges nb roots)"
proof -
  from assms obtain t where t: "foldo (root_step fuel nb) roots dfs_start = Some t"
    and cs: "cycles t = []" by (auto simp: detectCycles_def)
  from root_loop [OF t] cs have d: "done_ok nb t" and r: "set roots \<subseteq> finished t" by auto
  have closed: "b \<in> finished t" if "(a, b) \<in> {(a, b). edge nb a b}\<^sup>*" "a \<in> finished t" for a b
    using that by (induction rule: rtrancl_induct) (use d in \<open>auto simp: done_ok_def edge_def\<close>)
  have "reach_edges nb roots \<subseteq> {(a, b). a \<in> finished t \<and> edge nb a b}"
    using closed r by (auto simp: reach_edges_def)
  with d show ?thesis unfolding done_ok_def by (meson acyclic_subset)
qed

lemma closed_cycle_reach:
  assumes "closed_cycle nb c" and "\<exists>r \<in> set roots. (r, hd c) \<in> {(a, b). edge nb a b}\<^sup>*"
  shows "\<not> acyclic (reach_edges nb roots)"
proof
  assume acy: "acyclic (reach_edges nb roots)"
  let ?E = "{(a, b). edge nb a b}"
  obtain r where r: "r \<in> set roots" "(r, hd c) \<in> ?E\<^sup>*" using assms(2) by blast
  have "(hd c, y) \<in> (reach_edges nb roots)\<^sup>+" if "(hd c, y) \<in> ?E\<^sup>+" for y
    using that
  proof (induction rule: trancl_induct)
    case (base y)
    with r show ?case by (auto simp: reach_edges_def)
  next
    case (step y z)
    have "(r, y) \<in> ?E\<^sup>*" using r(2) step.hyps(1) by (meson rtrancl_trans trancl_into_rtrancl)
    with step.hyps(2) r(1) have "(y, z) \<in> reach_edges nb roots" by (auto simp: reach_edges_def)
    with step.IH show ?case by (rule trancl_into_trancl)
  qed
  from this [OF closed_cycle_trancl [OF assms(1)]] acy show False by (simp add: acyclic_def)
qed

lemma detectCycles_enough:
  assumes "finite V" and "set roots \<subseteq> V" and "\<And>m. m \<in> V \<Longrightarrow> set (nb m) \<subseteq> V"
    and "card V < fuel"
  shows "\<exists>cs. detectCycles fuel roots nb = Some cs"
proof -
  have "\<exists>t. foldo (root_step fuel nb) roots dfs_start = Some t \<and> True"
  proof (rule foldo_total [where I = "\<lambda>_. True"])
    fix x and s :: "'a dfs_state" assume "x \<in> set roots"
    with assms(2) have "x \<in> V" by auto
    have "card {m \<in> V. \<not> visited s m} \<le> card V" using assms(1) by (intro card_mono) auto
    with assms(4) have "card {m \<in> V. \<not> visited s m} < fuel" by simp
    from dfs_enough [OF assms(1) \<open>x \<in> V\<close> assms(3) this]
    show "\<exists>s'. root_step fuel nb x s = Some s' \<and> True" by auto
  qed simp
  then show ?thesis by (auto simp: detectCycles_def)
qed

text \<open>The detector reports nothing exactly when nothing reachable from the roots is cyclic.\<close>

lemma detectCycles_Nil_iff:
  assumes "detectCycles fuel roots nb = Some cs"
  shows "cs = [] \<longleftrightarrow> acyclic (reach_edges nb roots)"
proof
  assume "cs = []"
  with assms show "acyclic (reach_edges nb roots)" using detectCycles_complete by blast
next
  assume acy: "acyclic (reach_edges nb roots)"
  show "cs = []"
  proof (rule ccontr)
    assume "cs \<noteq> []"
    then obtain c where "c \<in> set cs" by (cases cs) auto
    from detectCycles_sound [OF assms this] closed_cycle_reach acy show False by blast
  qed
qed

lemma reach_edges_all:
  assumes "\<And>m. m \<in> set roots \<Longrightarrow> set (nb m) \<subseteq> set roots"
  shows "reach_edges nb roots = {(a, b). a \<in> set roots \<and> edge nb a b}"
proof -
  have "a \<in> set roots" if "(r, a) \<in> {(x, y). edge nb x y}\<^sup>*" "r \<in> set roots" for r a
    using that by (induction rule: rtrancl_induct) (use assms in \<open>auto simp: edge_def\<close>)
  then show ?thesis unfolding reach_edges_def by blast
qed

section \<open>Properties\<close>

text \<open>C1: detectCycles on roots inside a finite set of nodes closed under the neighbour function
  returns, given more fuel than nodes; everything it reports is a simple closed cycle that can be
  reached from a root; and it reports nothing exactly when no cycle can be reached.\<close>

theorem detectCycles_correct:
  assumes "finite V" and "set roots \<subseteq> V" and "\<forall>m \<in> V. set (nb m) \<subseteq> V" and "card V < fuel"
  shows "\<exists>cs. detectCycles fuel roots nb = Some cs
    \<and> (\<forall>c \<in> set cs. closed_cycle nb c \<and> (\<exists>r \<in> set roots. (r, hd c) \<in> {(a, b). edge nb a b}\<^sup>*))
    \<and> (cs = [] \<longleftrightarrow> acyclic (reach_edges nb roots))"
proof -
  obtain cs where cs: "detectCycles fuel roots nb = Some cs"
    using detectCycles_enough [where nb = nb, OF assms(1,2) _ assms(4)] assms(3) by blast
  with detectCycles_sound [OF cs] detectCycles_Nil_iff [OF cs] show ?thesis by blast
qed

definition triangle :: "nat \<Rightarrow> nat list" where
  "triangle n = (if n = 0 then [1] else if n = 1 then [2] else if n = 2 then [0] else [])"

lemma detectCycles_correct_witness:
  "detectCycles 4 [0] triangle = Some [[0, 1, 2, 0]] \<and> \<not> acyclic (reach_edges triangle [0])"
proof -
  have run: "detectCycles 4 [0] triangle = Some [[0, 1, 2, 0]]" by code_simp
  have "finite {0, 1, 2 :: nat}" "set [0 :: nat] \<subseteq> {0, 1, 2}" "card {0, 1, 2 :: nat} < 4"
    "\<forall>m \<in> {0, 1, 2 :: nat}. set (triangle m) \<subseteq> {0, 1, 2}"
    by (auto simp: triangle_def)
  from detectCycles_correct [where nb = triangle, OF this(1,2,4,3)] run show ?thesis by auto
qed

end
