(* ===== verification/Cycle_Dedup.thy ===== *)
theory Cycle_Dedup
  imports Cycles
begin

text \<open>
  Deduplication of reported cycles (dedupCycles, rotationKey in internal/engine/cycles.go):
  two reports of one cycle differ by a rotation, and the key of a cycle, written from its
  smallest node on, does not. Node keys are strings compared bytewise; ptrKey, the
  key the engine uses, prints a pointer, so keys of distinct nodes differ and none holds
  the separator: these two facts are the hypotheses below.
\<close>

fun min_rotation :: "('n \<Rightarrow> string) \<Rightarrow> 'n list \<Rightarrow> nat list \<Rightarrow> nat \<times> string \<Rightarrow> nat \<times> string" where
  "min_rotation key cyc [] acc = acc"
| "min_rotation key cyc (i # is) (minIdx, minKey) =
     (let k = key (cyc ! i) in
      min_rotation key cyc is (if k < minKey then (i, k) else (minIdx, minKey)))"

definition rotationKey :: "('n \<Rightarrow> string) \<Rightarrow> 'n list \<Rightarrow> string" where
  "rotationKey key cyc =
     (let n = length cyc - 1;
          minIdx = fst (min_rotation key cyc [1..<n] (0, key (cyc ! 0)))
      in concat (map (\<lambda>i. key (cyc ! ((minIdx + i) mod n)) @ ''>'') [0..<n]))"

fun dedup_loop :: "('n \<Rightarrow> string) \<Rightarrow> (string \<Rightarrow> bool) \<Rightarrow> 'n list list \<Rightarrow> 'n list list \<Rightarrow> 'n list list" where
  "dedup_loop key seen out [] = out"
| "dedup_loop key seen out (c # cs) =
     (let k = rotationKey key c in
      if seen k then dedup_loop key seen out cs
      else dedup_loop key (seen(k := True)) (out @ [c]) cs)"

definition dedupCycles :: "('n \<Rightarrow> string) \<Rightarrow> 'n list list \<Rightarrow> 'n list list" where
  "dedupCycles key cs = dedup_loop key (\<lambda>_. False) [] cs"

section \<open>The key of a closed cycle\<close>

definition render_keys :: "('n \<Rightarrow> string) \<Rightarrow> 'n list \<Rightarrow> string" where
  "render_keys key xs = concat (map (\<lambda>x. key x @ ''>'') xs)"

lemma min_rotation_spec:
  assumes "min_rotation key cyc is (m, key (cyc ! m)) = (mi, mk)"
  shows "mk = key (cyc ! mi) \<and> mi \<in> insert m (set is)
    \<and> (\<forall>i \<in> insert m (set is). mk \<le> key (cyc ! i))"
  using assms
proof (induction "is" arbitrary: m)
  case Nil
  then show ?case by auto
next
  case (Cons i "is")
  let ?m = "if key (cyc ! i) < key (cyc ! m) then i else m"
  have "min_rotation key cyc is (?m, key (cyc ! ?m)) = (mi, mk)"
    using Cons.prems by (auto simp: Let_def split: if_splits)
  from Cons.IH [OF this] have IH: "mk = key (cyc ! mi)" "mi \<in> insert ?m (set is)"
    "\<forall>i \<in> insert ?m (set is). mk \<le> key (cyc ! i)" by auto
  have "mk \<le> key (cyc ! i)" "mk \<le> key (cyc ! m)"
    using IH(3) by (cases "key (cyc ! i) < key (cyc ! m)"; auto)+
  with IH show ?case by (auto split: if_splits)
qed

lemma map_shift_rotate:
  assumes "m < length xs"
  shows "map (\<lambda>i. f (xs ! ((m + i) mod length xs))) [0..<length xs] = map f (rotate m xs)"
  using assms by (intro nth_equalityI) (auto simp: nth_rotate add.commute)

lemma rotationKey_canonical:
  assumes "xs \<noteq> []"
  shows "\<exists>m < length xs. rotationKey key (xs @ [hd xs]) = render_keys key (rotate m xs)
     \<and> (\<forall>x \<in> set xs. key (xs ! m) \<le> key x)"
proof -
  let ?c = "xs @ [hd xs]"
  obtain mi mk where m: "min_rotation key ?c [1..<length xs] (0, key (?c ! 0)) = (mi, mk)"
    by (metis surj_pair)
  from min_rotation_spec [OF m] have mi: "mi \<in> insert 0 {1..<length xs}"
    and le: "\<And>i. i \<in> insert 0 {1..<length xs} \<Longrightarrow> key (?c ! mi) \<le> key (?c ! i)"
    by auto
  from mi assms have lt: "mi < length xs" by auto
  have "key (xs ! mi) \<le> key x" if x: "x \<in> set xs" for x
  proof -
    from x obtain i where i: "i < length xs" "x = xs ! i" by (auto simp: in_set_conv_nth)
    then have "i \<in> insert 0 {1..<length xs}" by auto
    from le [OF this] i lt show ?thesis by (simp add: nth_append)
  qed
  moreover have "rotationKey key ?c = render_keys key (rotate mi xs)"
  proof -
    have "map (\<lambda>i. key (?c ! ((mi + i) mod length xs)) @ ''>'') [0..<length xs]
        = map (\<lambda>i. key (xs ! ((mi + i) mod length xs)) @ ''>'') [0..<length xs]"
      using assms by (intro map_cong) (simp_all add: nth_append)
    then show ?thesis
      using map_shift_rotate [OF lt, of "\<lambda>x. key x @ ''>''"] m
      by (simp add: rotationKey_def render_keys_def Let_def)
  qed
  ultimately show ?thesis using lt by blast
qed

lemma rotate_same_head:
  assumes "distinct xs" "a < length xs" "b < length xs" "xs ! a = xs ! b"
  shows "rotate a xs = rotate b xs"
  using assms by (simp add: nth_eq_iff_index_eq)

text \<open>Rotations of one simple cycle have one key.\<close>

lemma rotationKey_rotate:
  assumes xs: "xs \<noteq> []" and d: "distinct xs" and inj: "inj_on key (set xs)"
  shows "rotationKey key (rotate r xs @ [hd (rotate r xs)]) = rotationKey key (xs @ [hd xs])"
proof -
  let ?ys = "rotate r xs"
  have ys: "?ys \<noteq> []" "set ?ys = set xs" "length ?ys = length xs" using xs by simp_all
  from rotationKey_canonical [OF xs, of key] obtain a where
    a: "a < length xs" "rotationKey key (xs @ [hd xs]) = render_keys key (rotate a xs)"
    "\<forall>x \<in> set xs. key (xs ! a) \<le> key x" by blast
  from rotationKey_canonical [OF ys(1), of key] ys obtain b where
    b: "b < length xs" "rotationKey key (?ys @ [hd ?ys]) = render_keys key (rotate b ?ys)"
    "\<forall>x \<in> set xs. key (?ys ! b) \<le> key x" by auto
  have "?ys ! b \<in> set xs" "xs ! a \<in> set xs" using a(1) b(1) ys nth_mem by metis+
  then have "key (?ys ! b) = key (xs ! a)" using a(3) b(3) by (simp add: order_antisym)
  with inj \<open>?ys ! b \<in> set xs\<close> \<open>xs ! a \<in> set xs\<close> have same: "?ys ! b = xs ! a"
    by (auto dest: inj_onD)
  let ?p = "(r + b) mod length xs"
  have "?ys ! b = xs ! ?p" using b(1) by (simp add: nth_rotate add.commute)
  with same have "rotate ?p xs = rotate a xs"
    using d a(1) xs by (intro rotate_same_head) auto
  moreover have "rotate b ?ys = rotate ?p xs"
    by (metis add.commute rotate_conv_mod rotate_rotate)
  ultimately show ?thesis using a(2) b(2) by simp
qed

lemma render_keys_inj:
  assumes inj: "inj key" and sep: "\<And>x. CHR ''>'' \<notin> set (key x)"
    and "render_keys key xs = render_keys key ys"
  shows "xs = ys"
  using assms(3)
proof (induction xs arbitrary: ys)
  case Nil
  then show ?case by (cases ys) (auto simp: render_keys_def)
next
  case (Cons x xs)
  then obtain y ys' where ys: "ys = y # ys'" by (cases ys) (auto simp: render_keys_def)
  have split: "takeWhile (\<lambda>c. c \<noteq> CHR ''>'') (key z @ ''>'' @ r) = key z
      \<and> dropWhile (\<lambda>c. c \<noteq> CHR ''>'') (key z @ ''>'' @ r) = ''>'' @ r" for z r
    using sep [of z] by (simp add: takeWhile_append dropWhile_append)
  from Cons.prems ys have
    "key x @ ''>'' @ render_keys key xs = key y @ ''>'' @ render_keys key ys'"
    by (simp add: render_keys_def)
  with split have "key x = key y" "render_keys key xs = render_keys key ys'"
    by (metis append_Cons append_Nil list.inject)+
  with Cons.IH inj ys show ?case by (auto dest: injD)
qed

section \<open>Deduplication\<close>

definition rotation_of :: "'n list \<Rightarrow> 'n list \<Rightarrow> bool" where
  "rotation_of c d \<longleftrightarrow> (\<exists>m. butlast d = rotate m (butlast c))"

lemma closed_cycle_form:
  assumes "closed_cycle nb c"
  obtains xs where "xs \<noteq> []" "distinct xs" "c = xs @ [hd xs]" "butlast c = xs"
proof -
  from assms have l: "length c \<ge> 2" and h: "hd c = last c" and d: "distinct (butlast c)"
    by (auto simp: closed_cycle_def)
  then have ne: "butlast c \<noteq> []" by (cases c rule: rev_cases) auto
  from l have c: "c = butlast c @ [last c]" by (cases c rule: rev_cases) auto
  from ne have "hd (butlast c) = hd c" by (metis c hd_append2)
  with c h have "c = butlast c @ [hd (butlast c)]" by metis
  with ne d show ?thesis using that by blast
qed

lemma rotationKey_eq_iff:
  assumes inj: "inj key" and sep: "\<And>x. CHR ''>'' \<notin> set (key x)"
    and c: "closed_cycle nb c" and d: "closed_cycle nb d"
  shows "rotationKey key c = rotationKey key d \<longleftrightarrow> rotation_of c d"
proof -
  obtain xs where xs: "xs \<noteq> []" "distinct xs" "c = xs @ [hd xs]" "butlast c = xs"
    using c by (rule closed_cycle_form)
  obtain ys where ys: "ys \<noteq> []" "distinct ys" "d = ys @ [hd ys]" "butlast d = ys"
    using d by (rule closed_cycle_form)
  show ?thesis
  proof
    assume eq: "rotationKey key c = rotationKey key d"
    from rotationKey_canonical [OF xs(1), of key] rotationKey_canonical [OF ys(1), of key]
    obtain a b where ab: "a < length xs" "b < length ys"
      "rotationKey key c = render_keys key (rotate a xs)"
      "rotationKey key d = render_keys key (rotate b ys)" unfolding xs(3) ys(3) by blast
    with eq render_keys_inj [OF inj sep] have rot: "rotate a xs = rotate b ys" by metis
    have "ys = rotate (length ys - b) (rotate b ys)" using ab(2) by (simp add: rotate_rotate)
    also have "\<dots> = rotate (length ys - b + a) xs" by (simp add: rot [symmetric] rotate_rotate)
    finally show "rotation_of c d" unfolding rotation_of_def xs(4) ys(4) by blast
  next
    assume "rotation_of c d"
    then obtain m where "ys = rotate m xs" unfolding rotation_of_def xs(4) ys(4) by blast
    with rotationKey_rotate [OF xs(1,2), of key m] inj show "rotationKey key c = rotationKey key d"
      unfolding xs(3) ys(3) by (simp add: inj_on_subset [OF inj])
  qed
qed

lemma dedup_loop_spec:
  assumes "seen = (\<lambda>k. k \<in> rotationKey key ` set out)" and "distinct (map (rotationKey key) out)"
  shows "set out \<subseteq> set (dedup_loop key seen out cs)
    \<and> set (dedup_loop key seen out cs) \<subseteq> set out \<union> set cs
    \<and> distinct (map (rotationKey key) (dedup_loop key seen out cs))
    \<and> rotationKey key ` set cs \<subseteq> rotationKey key ` set (dedup_loop key seen out cs)"
  using assms
proof (induction cs arbitrary: seen out)
  case Nil
  then show ?case by simp
next
  case (Cons c cs)
  show ?case
  proof (cases "seen (rotationKey key c)")
    case True
    with Cons.IH [OF Cons.prems] Cons.prems(1) show ?thesis by (auto simp: Let_def)
  next
    case False
    let ?k = "rotationKey key c"
    have "seen(?k := True) = (\<lambda>k. k \<in> rotationKey key ` set (out @ [c]))"
      using Cons.prems(1) by (auto simp: fun_eq_iff)
    moreover have "distinct (map (rotationKey key) (out @ [c]))"
      using Cons.prems False by auto
    ultimately show ?thesis using Cons.IH [of "seen(?k := True)" "out @ [c]"] False
      by (auto simp: Let_def)
  qed
qed

lemma dedupCycles_spec:
  "set (dedupCycles key cs) \<subseteq> set cs \<and> distinct (map (rotationKey key) (dedupCycles key cs))
    \<and> rotationKey key ` set cs = rotationKey key ` set (dedupCycles key cs)"
  using dedup_loop_spec [of "\<lambda>_. False" key "[]" cs] unfolding dedupCycles_def by auto

lemma dedupCycles_Nil [simp]: "dedupCycles key cs = [] \<longleftrightarrow> cs = []"
  using dedupCycles_spec [of key cs] by (metis image_is_empty set_empty)

section \<open>Properties\<close>

text \<open>C2: dedupCycles keeps only cycles it was given, and exactly one of each class of cycles
  that are rotations of one another, when keys of different nodes differ and hold no separator.\<close>

theorem dedupCycles_representatives:
  assumes "inj key" and "\<And>x. CHR ''>'' \<notin> set (key x)" and "\<And>c. c \<in> set cs \<Longrightarrow> closed_cycle nb c"
  shows "set (dedupCycles key cs) \<subseteq> set cs
    \<and> (\<forall>c \<in> set cs. \<exists>!d. d \<in> set (dedupCycles key cs) \<and> rotation_of c d)
    \<and> distinct (dedupCycles key cs)"
proof -
  let ?ds = "dedupCycles key cs"
  note spec = dedupCycles_spec [of key cs]
  note iff = rotationKey_eq_iff [OF assms(1,2) assms(3) assms(3)]
  have inj: "inj_on (rotationKey key) (set ?ds)" using spec by (simp add: distinct_map)
  have "\<exists>!d. d \<in> set ?ds \<and> rotation_of c d" if c: "c \<in> set cs" for c
  proof -
    from spec c obtain d where d: "d \<in> set ?ds" "rotationKey key c = rotationKey key d" by blast
    show ?thesis
    proof (rule ex1I [of _ d])
      show "d \<in> set ?ds \<and> rotation_of c d" using d iff [OF c, of d] spec by blast
    next
      fix d' assume d': "d' \<in> set ?ds \<and> rotation_of c d'"
      then have "rotationKey key c = rotationKey key d'" using iff [OF c, of d'] spec by blast
      with d d' inj show "d' = d" by (auto dest: inj_onD)
    qed
  qed
  moreover have "distinct ?ds" using spec by (auto simp: distinct_map)
  ultimately show ?thesis using spec by blast
qed

definition unary_key :: "nat \<Rightarrow> string" where
  "unary_key n = replicate n (CHR ''x'')"

lemma dedupCycles_representatives_witness:
  "dedupCycles unary_key [[0, 1, 2, 0], [1, 2, 0, 1]] = [[0, 1, 2, 0]]
   \<and> (\<exists>!d. d \<in> {[0, 1, 2, 0 :: nat]} \<and> rotation_of [1, 2, 0, 1] d)"
proof -
  have run: "dedupCycles unary_key [[0, 1, 2, 0], [1, 2, 0, 1]] = [[0, 1, 2, 0]]" by code_simp
  have "inj unary_key" by (auto simp: inj_on_def unary_key_def)
  moreover have "CHR ''>'' \<notin> set (unary_key x)" for x by (simp add: unary_key_def)
  moreover have "closed_cycle triangle c" if "c \<in> set [[0, 1, 2, 0], [1, 2, 0, 1]]" for c
    using that by (auto simp: closed_cycle_def edge_def triangle_def)
  ultimately show ?thesis
    using dedupCycles_representatives [of unary_key "[[0, 1, 2, 0], [1, 2, 0, 1]]" triangle] run by simp
qed

end
