(* ===== verification/Step_Graph.thy ===== *)
theory Step_Graph
  imports Engine_Model Cycle_Dedup
begin

text \<open>
  The dependency graph of a deploy's steps (internal/engine/step_graph.go): edges from the
  step that provides a resource to the steps that require it, edges from the step that
  provides a directory to the steps that provide something below it, and the fences that
  steps without resources put between their neighbours. A node is known by its index, which
  stands for its pointer; the \<open>pending\<close> counter, the one field that changes during a
  run, belongs to the scheduler's state.
\<close>

record stepNode =
  sn_step :: Step
  sn_idx :: nat
  sn_requires :: "nat list"
  sn_requiresSet :: "nat set"
  sn_requiredBy :: "nat list"

definition hasResources :: "Step \<Rightarrow> bool" where
  "hasResources act \<longleftrightarrow>
     (case step_requires act of Some rs \<Rightarrow> length rs > 0 | None \<Rightarrow> False)
     \<or> (case step_provides act of Some rs \<Rightarrow> length rs > 0 | None \<Rightarrow> False)"

definition addEdge :: "nat \<Rightarrow> nat \<Rightarrow> stepNode list \<Rightarrow> stepNode list" where
  "addEdge from to g =
     (if from \<in> sn_requiresSet (g ! to) then g
      else
        (let g1 = g[to := (g ! to)\<lparr>sn_requiresSet := insert from (sn_requiresSet (g ! to)),
                                  sn_requires := sn_requires (g ! to) @ [from]\<rparr>]
         in g1[from := (g1 ! from)\<lparr>sn_requiredBy := sn_requiredBy (g1 ! from) @ [to]\<rparr>]))"

definition new_nodes :: "Step list \<Rightarrow> stepNode list" where
  "new_nodes steps =
     map (\<lambda>i. \<lparr>sn_step = steps ! i, sn_idx = i, sn_requires = [], sn_requiresSet = {},
               sn_requiredBy = []\<rparr>) [0..<length steps]"

type_synonym producers = "(Resource \<times> nat) list"

definition step_producers :: "Step list \<Rightarrow> producers" where
  "step_producers steps =
     fold (\<lambda>n ps. fold (\<lambda>r ps. AList.update r n ps) (Provides (steps ! n)) ps)
       [0..<length steps] []"

definition requires_edges :: "producers \<Rightarrow> nat \<Rightarrow> Resource list \<Rightarrow> stepNode list \<Rightarrow> stepNode list" where
  "requires_edges ps n =
     fold (\<lambda>r g. case map_of ps r of
         Some producer \<Rightarrow> if producer \<noteq> n then addEdge producer n g else g
       | None \<Rightarrow> g)"

text \<open>\<open>entries\<close> is the order in which this loop ranges over the producers map.\<close>

definition parent_edges :: "nat \<Rightarrow> Resource \<Rightarrow> producers \<Rightarrow> stepNode list \<Rightarrow> stepNode list" where
  "parent_edges n out =
     fold (\<lambda>(r, producer) g.
       if producer \<noteq> n \<and> res_kind r = ResourcePath \<and> HasPrefix (res_name out) (res_name r @ ''/'')
       then addEdge producer n g else g)"

definition provides_edges ::
  "(nat \<times> Resource \<Rightarrow> producers \<Rightarrow> producers) \<Rightarrow> producers \<Rightarrow> nat \<Rightarrow> Resource list
     \<Rightarrow> stepNode list \<Rightarrow> stepNode list" where
  "provides_edges iter ps n =
     fold (\<lambda>out g. if res_kind out = ResourcePath then parent_edges n out (iter (n, out) ps) g else g)"

record fence_state =
  lastBarrier :: "nat option"
  resourceStepsSinceBarrier :: "nat list"
  fence_graph :: "stepNode list"

definition fence_step :: "Step list \<Rightarrow> nat \<Rightarrow> fence_state \<Rightarrow> fence_state" where
  "fence_step steps n st =
     (let g = (case lastBarrier st of Some b \<Rightarrow> addEdge b n (fence_graph st) | None \<Rightarrow> fence_graph st)
      in if hasResources (steps ! n)
         then st\<lparr>fence_graph := g,
                 resourceStepsSinceBarrier := resourceStepsSinceBarrier st @ [n]\<rparr>
         else st\<lparr>fence_graph := fold (\<lambda>p. addEdge p n) (resourceStepsSinceBarrier st) g,
                 resourceStepsSinceBarrier := [], lastBarrier := Some n\<rparr>)"

definition fence_edges :: "Step list \<Rightarrow> stepNode list \<Rightarrow> stepNode list" where
  "fence_edges steps g =
     fence_graph (fold (fence_step steps) [0..<length steps]
       \<lparr>lastBarrier = None, resourceStepsSinceBarrier = [], fence_graph = g\<rparr>)"

definition buildStepGraph ::
  "(nat \<times> Resource \<Rightarrow> producers \<Rightarrow> producers) \<Rightarrow> Step list \<Rightarrow> stepNode list" where
  "buildStepGraph iter steps =
     (let ps = step_producers steps;
          g = fold (\<lambda>n g. provides_edges iter ps n (Provides (steps ! n))
                          (requires_edges ps n (Requires (steps ! n)) g))
                [0..<length steps] (new_nodes steps)
      in fence_edges steps g)"

text \<open>The counters initStepPending sets, by node index.\<close>

definition initStepPending :: "stepNode list \<Rightarrow> nat \<Rightarrow> int" where
  "initStepPending g n = (if n < length g then int (length (sn_requires (g ! n))) else 0)"

definition extractStepDeps :: "stepNode list \<Rightarrow> nat list list" where
  "extractStepDeps g = map sn_requires g"

section \<open>Well-formed graphs\<close>

definition edges :: "stepNode list \<Rightarrow> (nat \<times> nat) set" where
  "edges g = {(i, j). j < length g \<and> i \<in> set (sn_requires (g ! j))}"

text \<open>
  Requirements and their reverse lists hold the same edges, each once, between existing and
  different nodes.
\<close>

definition graph_ok :: "stepNode list \<Rightarrow> bool" where
  "graph_ok g \<longleftrightarrow>
     (\<forall>j < length g. distinct (sn_requires (g ! j)) \<and> distinct (sn_requiredBy (g ! j))
        \<and> sn_requiresSet (g ! j) = set (sn_requires (g ! j))
        \<and> set (sn_requires (g ! j)) \<subseteq> {..<length g} - {j}
        \<and> sn_idx (g ! j) = j
        \<and> set (sn_requiredBy (g ! j)) = {k. (j, k) \<in> edges g})"

definition adds :: "stepNode list \<Rightarrow> stepNode list \<Rightarrow> (nat \<times> nat) set \<Rightarrow> bool" where
  "adds g g' E \<longleftrightarrow> length g' = length g \<and> map sn_step g' = map sn_step g
     \<and> (graph_ok g \<longrightarrow> graph_ok g' \<and> edges g' = edges g \<union> E)"

lemma adds_refl [simp]: "adds g g {}"
  by (simp add: adds_def)

lemma adds_trans: "adds g g1 E1 \<Longrightarrow> adds g1 g2 E2 \<Longrightarrow> adds g g2 (E1 \<union> E2)"
  by (auto simp: adds_def)

lemma adds_fold:
  assumes "\<And>x g. x \<in> set xs \<Longrightarrow> length g = n \<Longrightarrow> adds g (f x g) (E x)" and "length g = n"
  shows "adds g (fold f xs g) (\<Union>x \<in> set xs. E x)"
  using assms
proof (induction xs arbitrary: g)
  case Nil
  then show ?case by simp
next
  case (Cons x xs)
  have 1: "adds g (f x g) (E x)" using Cons.prems by auto
  then have "length (f x g) = n" using Cons.prems(2) by (simp add: adds_def)
  then have "adds (f x g) (fold f xs (f x g)) (\<Union>x \<in> set xs. E x)"
    by (intro Cons.IH Cons.prems(1)) auto
  from adds_trans [OF 1 this] show ?case by simp
qed

lemma adds_addEdge:
  assumes "i < length g" and "j < length g" and "i \<noteq> j"
  shows "adds g (addEdge i j g) {(i, j)}"
proof (cases "i \<in> sn_requiresSet (g ! j)")
  case True
  then show ?thesis using assms by (auto simp: adds_def addEdge_def graph_ok_def edges_def)
next
  case False
  let ?g = "addEdge i j g"
  have len: "length ?g = length g" by (simp add: addEdge_def Let_def)
  have at: "?g ! k = (if k = j then (g ! j)\<lparr>sn_requiresSet := insert i (sn_requiresSet (g ! j)),
                                          sn_requires := sn_requires (g ! j) @ [i]\<rparr>
                     else if k = i then (g ! i)\<lparr>sn_requiredBy := sn_requiredBy (g ! i) @ [j]\<rparr>
                     else g ! k)" if "k < length g" for k
    using False assms that by (simp add: addEdge_def Let_def)
  have steps: "map sn_step ?g = map sn_step g"
    using len at by (intro nth_equalityI) auto
  have edges: "edges ?g = edges g \<union> {(i, j)}"
    using len at assms by (auto simp: edges_def split: if_splits)
  have ok: "graph_ok ?g" if g: "graph_ok g"
    unfolding graph_ok_def
  proof (intro allI impI)
    fix k assume "k < length ?g"
    then have k: "k < length g" using len by simp
    note gk = g [unfolded graph_ok_def, rule_format, OF k]
    have "j \<notin> set (sn_requiredBy (g ! i))"
      using False assms(1,2) g by (auto simp: graph_ok_def edges_def)
    with gk False assms
    show "distinct (sn_requires (?g ! k)) \<and> distinct (sn_requiredBy (?g ! k))
        \<and> sn_requiresSet (?g ! k) = set (sn_requires (?g ! k))
        \<and> set (sn_requires (?g ! k)) \<subseteq> {..<length ?g} - {k} \<and> sn_idx (?g ! k) = k
        \<and> set (sn_requiredBy (?g ! k)) = {l. (k, l) \<in> edges ?g}"
      unfolding edges at [OF k] len by auto
  qed
  show ?thesis using len steps edges ok by (simp add: adds_def)
qed

lemma new_nodes_ok: "graph_ok (new_nodes steps)" "edges (new_nodes steps) = {}"
  "length (new_nodes steps) = length steps" "map sn_step (new_nodes steps) = steps"
  by (auto simp: graph_ok_def new_nodes_def edges_def intro: nth_equalityI)

section \<open>The producers map\<close>

lemma fold_update_const:
  "map_of (fold (\<lambda>r ps. AList.update r n ps) rs ps) r =
     (if r \<in> set rs then Some n else map_of ps r)"
  by (induction rs arbitrary: ps) (auto simp: update_conv')

definition is_producer :: "Step list \<Rightarrow> Resource \<Rightarrow> nat \<Rightarrow> bool" where
  "is_producer steps r i \<longleftrightarrow> i < length steps \<and> r \<in> set (Provides (steps ! i))
     \<and> (\<forall>j. i < j \<and> j < length steps \<longrightarrow> r \<notin> set (Provides (steps ! j)))"

lemma step_producers_Some:
  "map_of (step_producers steps) r = Some i \<longleftrightarrow> is_producer steps r i"
proof -
  have "map_of (fold (\<lambda>n ps. fold (\<lambda>r ps. AList.update r n ps) (Provides (steps ! n)) ps)
            [0..<k] []) r = Some i \<longleftrightarrow>
        i < k \<and> r \<in> set (Provides (steps ! i))
        \<and> (\<forall>j. i < j \<and> j < k \<longrightarrow> r \<notin> set (Provides (steps ! j)))" for k
  proof (induction k)
    case 0
    then show ?case by simp
  next
    case (Suc k)
    then show ?case by (auto simp: fold_update_const less_Suc_eq)
  qed
  then show ?thesis by (simp add: step_producers_def is_producer_def)
qed

lemma distinct_step_producers: "distinct (map fst (step_producers steps))"
proof -
  have inner: "distinct (map fst ps) \<Longrightarrow> distinct (map fst (fold (\<lambda>r ps. AList.update r n ps) rs ps))"
    for rs n and ps :: producers
    by (induction rs arbitrary: ps) (auto simp: distinct_update)
  have "distinct (map fst ps) \<Longrightarrow> distinct (map fst
      (fold (\<lambda>n ps. fold (\<lambda>r ps. AList.update r n ps) (Provides (steps ! n)) ps) ns ps))"
    for ns and ps :: producers
    by (induction ns arbitrary: ps) (auto simp: inner)
  then show ?thesis by (simp add: step_producers_def)
qed

lemma in_step_producers: "(r, i) \<in> set (step_producers steps) \<longleftrightarrow> is_producer steps r i"
  by (metis distinct_step_producers map_of_eq_Some_iff step_producers_Some)


section \<open>Resource edges\<close>

text \<open>
  Step \<open>j\<close> must wait for step \<open>i\<close>: \<open>i\<close> provides a resource \<open>j\<close> requires, or a
  directory above a path \<open>j\<close> provides.
\<close>

definition resource_dep :: "Step list \<Rightarrow> nat \<Rightarrow> nat \<Rightarrow> bool" where
  "resource_dep steps i j \<longleftrightarrow> j < length steps \<and> i \<noteq> j \<and>
     (\<exists>r. is_producer steps r i \<and>
        (r \<in> set (Requires (steps ! j))
         \<or> res_kind r = ResourcePath \<and>
           (\<exists>out \<in> set (Provides (steps ! j)).
              res_kind out = ResourcePath \<and> path_below (res_name out) (res_name r))))"

lemma producer_bound: "is_producer steps r i \<Longrightarrow> i < length steps"
  by (simp add: is_producer_def)

lemma resource_dep_bound: "resource_dep steps i j \<Longrightarrow> i < length steps \<and> j < length steps \<and> i \<noteq> j"
  by (auto simp: resource_dep_def is_producer_def)

lemma adds_requires:
  assumes n: "n < length steps" and g: "length g = length steps"
  shows "adds g (requires_edges (step_producers steps) n rs g)
     {(i, n) | i r. r \<in> set rs \<and> is_producer steps r i \<and> i \<noteq> n}"
proof -
  let ?E = "\<lambda>r. {(i, n) | i. is_producer steps r i \<and> i \<noteq> n}"
  have "adds g (requires_edges (step_producers steps) n rs g) (\<Union>r \<in> set rs. ?E r)"
    unfolding requires_edges_def
  proof (rule adds_fold [OF _ g])
    fix r and h :: "stepNode list" assume h: "length h = length steps"
    show "adds h (case map_of (step_producers steps) r of
         Some producer \<Rightarrow> if producer \<noteq> n then addEdge producer n h else h
       | None \<Rightarrow> h) (?E r)"
    proof (cases "map_of (step_producers steps) r")
      case None
      then have "\<not> is_producer steps r i" for i by (metis option.distinct(1) step_producers_Some)
      with None show ?thesis by simp
    next
      case (Some p)
      then have p: "is_producer steps r i \<longleftrightarrow> i = p" for i
        by (metis option.inject step_producers_Some)
      show ?thesis
      proof (cases "p = n")
        case True
        then have "?E r = {}" using p by auto
        then show ?thesis using Some True by (simp only: option.case if_False simp_thms adds_refl)
      next
        case False
        then have "?E r = {(p, n)}" using p by auto
        then show ?thesis using Some False adds_addEdge [of p h n] producer_bound [of steps r p] h n p
          by simp
      qed
    qed
  qed
  moreover have "(\<Union>r \<in> set rs. ?E r) = {(i, n) | i r. r \<in> set rs \<and> is_producer steps r i \<and> i \<noteq> n}"
    by auto
  ultimately show ?thesis by simp
qed

lemma adds_parents:
  assumes n: "n < length steps" and g: "length g = length steps"
    and es: "set es = set (step_producers steps)"
  shows "adds g (parent_edges n out es g)
     {(i, n) | i r. is_producer steps r i \<and> i \<noteq> n \<and> res_kind r = ResourcePath
        \<and> path_below (res_name out) (res_name r)}"
proof -
  let ?E = "\<lambda>(r, i). if i \<noteq> n \<and> res_kind r = ResourcePath \<and> path_below (res_name out) (res_name r)
                     then {(i, n)} else {}"
  have "adds g (parent_edges n out es g) (\<Union>e \<in> set es. ?E e)"
    unfolding parent_edges_def
  proof (rule adds_fold [OF _ g])
    fix e and h :: "stepNode list" assume e: "e \<in> set es" and h: "length h = length steps"
    obtain r i where ri: "e = (r, i)" by fastforce
    with e es have "is_producer steps r i" by (simp add: in_step_producers)
    then have "i < length h" using h producer_bound by simp
    then show "adds h ((case e of (r, producer) \<Rightarrow> \<lambda>g.
         if producer \<noteq> n \<and> res_kind r = ResourcePath \<and> HasPrefix (res_name out) (res_name r @ ''/'')
         then addEdge producer n g else g) h) (?E e)"
      using adds_addEdge [of i h n] n h ri by (simp add: path_below_def)
  qed
  moreover have "(\<Union>e \<in> set es. ?E e) = {(i, n) | i r. is_producer steps r i \<and> i \<noteq> n
      \<and> res_kind r = ResourcePath \<and> path_below (res_name out) (res_name r)}"
    unfolding es by (auto simp: in_step_producers split: if_splits) (force simp: in_step_producers)
  ultimately show ?thesis by simp
qed

lemma adds_provides:
  assumes n: "n < length steps" and g: "length g = length steps" and it: "map_iteration iter"
  shows "adds g (provides_edges iter (step_producers steps) n outs g)
     {(i, n) | i r out. out \<in> set outs \<and> is_producer steps r i \<and> i \<noteq> n
        \<and> res_kind r = ResourcePath \<and> res_kind out = ResourcePath
        \<and> path_below (res_name out) (res_name r)}"
proof -
  let ?E = "\<lambda>out. if res_kind out = ResourcePath then
      {(i, n) | i r. is_producer steps r i \<and> i \<noteq> n \<and> res_kind r = ResourcePath
        \<and> path_below (res_name out) (res_name r)} else {}"
  have "adds g (provides_edges iter (step_producers steps) n outs g) (\<Union>out \<in> set outs. ?E out)"
    unfolding provides_edges_def
    using adds_parents [OF n _ map_iteration_set [OF it]]
    by (intro adds_fold [OF _ g]) (simp add: conj_commute conj_left_commute)
  moreover have "(\<Union>out \<in> set outs. ?E out) = {(i, n) | i r out. out \<in> set outs
      \<and> is_producer steps r i \<and> i \<noteq> n \<and> res_kind r = ResourcePath \<and> res_kind out = ResourcePath
      \<and> path_below (res_name out) (res_name r)}"
    by (auto split: if_splits)
  ultimately show ?thesis by simp
qed

lemma adds_node_resources:
  assumes n: "n < length steps" and g: "length g = length steps" and it: "map_iteration iter"
  shows "adds g (provides_edges iter (step_producers steps) n (Provides (steps ! n))
            (requires_edges (step_producers steps) n (Requires (steps ! n)) g))
     {(i, n) | i. resource_dep steps i n}"
proof -
  let ?g1 = "requires_edges (step_producers steps) n (Requires (steps ! n)) g"
  have 1: "adds g ?g1 {(i, n) | i r. r \<in> set (Requires (steps ! n)) \<and> is_producer steps r i \<and> i \<noteq> n}"
    by (rule adds_requires [OF n g])
  then have "length ?g1 = length steps" using g by (simp add: adds_def)
  from adds_trans [OF 1 adds_provides [OF n this it]]
  have "adds g (provides_edges iter (step_producers steps) n (Provides (steps ! n)) ?g1)
      ({(i, n) | i r. r \<in> set (Requires (steps ! n)) \<and> is_producer steps r i \<and> i \<noteq> n} \<union>
       {(i, n) | i r out. out \<in> set (Provides (steps ! n)) \<and> is_producer steps r i \<and> i \<noteq> n
        \<and> res_kind r = ResourcePath \<and> res_kind out = ResourcePath
        \<and> path_below (res_name out) (res_name r)})" .
  moreover have "\<dots> = {(i, n) | i. resource_dep steps i n}"
    using n by (auto simp: resource_dep_def)
  ultimately show ?thesis by simp
qed

section \<open>Fences\<close>

definition barrier :: "Step list \<Rightarrow> nat \<Rightarrow> bool" where
  "barrier steps n \<longleftrightarrow> \<not> hasResources (steps ! n)"

text \<open>
  The fence edges the code adds: from a barrier to what follows it up to the next barrier,
  and from what lies before a barrier, back to the previous one.
\<close>

definition fence_dep :: "(nat \<Rightarrow> bool) \<Rightarrow> nat \<Rightarrow> nat \<Rightarrow> nat \<Rightarrow> bool" where
  "fence_dep B k i j \<longleftrightarrow> i < j \<and> j < k \<and> (B i \<or> B j) \<and> (\<forall>m. i < m \<and> m < j \<longrightarrow> \<not> B m)"

definition fence_inv :: "Step list \<Rightarrow> stepNode list \<Rightarrow> nat \<Rightarrow> fence_state \<Rightarrow> bool" where
  "fence_inv steps g k st \<longleftrightarrow>
     (case lastBarrier st of
        None \<Rightarrow> \<forall>i < k. \<not> barrier steps i
      | Some b \<Rightarrow> b < k \<and> barrier steps b \<and> (\<forall>i. b < i \<and> i < k \<longrightarrow> \<not> barrier steps i))
     \<and> set (resourceStepsSinceBarrier st) = {i. i < k \<and> (\<forall>m. i \<le> m \<and> m < k \<longrightarrow> \<not> barrier steps m)}
     \<and> adds g (fence_graph st) {(i, j). fence_dep (barrier steps) k i j}"

lemma fence_step_inv:
  assumes inv: "fence_inv steps g k st" and k: "k < length steps" and g: "length g = length steps"
  shows "fence_inv steps g (Suc k) (fence_step steps k st)"
proof -
  define B where "B = barrier steps"
  have len: "length (fence_graph st) = length steps" using inv g by (simp add: fence_inv_def adds_def)
  define g1 where "g1 = (case lastBarrier st of Some b \<Rightarrow> addEdge b k (fence_graph st)
      | None \<Rightarrow> fence_graph st)"
  define L where "L = {(b, k) | b. lastBarrier st = Some b}"
  have g1: "adds (fence_graph st) g1 L"
    using inv k len by (auto simp: fence_inv_def g1_def L_def intro!: adds_addEdge split: option.splits)
  then have len1: "length g1 = length steps" using len by (simp add: adds_def)
  have base: "adds g (fence_graph st) {(i, j). fence_dep B k i j}" using inv by (simp add: fence_inv_def B_def)
  note last = inv [unfolded fence_inv_def, folded B_def, THEN conjunct1]
  have since: "set (resourceStepsSinceBarrier st) = {i. i < k \<and> (\<forall>m. i \<le> m \<and> m < k \<longrightarrow> \<not> B m)}"
    using inv by (simp add: fence_inv_def B_def)
  show ?thesis
  proof (cases "hasResources (steps ! k)")
    case True
    then have nb: "\<not> B k" by (simp add: B_def barrier_def)
    have "adds g g1 ({(i, j). fence_dep B k i j} \<union> L)" using base g1 by (rule adds_trans)
    moreover have "{(i, j). fence_dep B k i j} \<union> L = {(i, j). fence_dep B (Suc k) i j}"
      using last nb by (auto simp: L_def fence_dep_def less_Suc_eq split: option.splits)
        (metis linorder_neqE_nat)+
    ultimately have "adds g g1 {(i, j). fence_dep B (Suc k) i j}" by simp
    then show ?thesis using last since nb True
      unfolding fence_inv_def fence_step_def g1_def [symmetric] B_def [symmetric]
      by (auto simp: Let_def less_Suc_eq split: option.splits)
  next
    case False
    then have b: "B k" by (simp add: B_def barrier_def)
    define S where "S = {(i, k) | i. i \<in> set (resourceStepsSinceBarrier st)}"
    have "adds g1 (fold (\<lambda>p. addEdge p k) (resourceStepsSinceBarrier st) g1)
        (\<Union>p \<in> set (resourceStepsSinceBarrier st). {(p, k)})"
      using since k by (intro adds_fold [OF _ len1] adds_addEdge) auto
    moreover have "(\<Union>p \<in> set (resourceStepsSinceBarrier st). {(p, k)}) = S"
      by (auto simp: S_def)
    ultimately have "adds g1 (fold (\<lambda>p. addEdge p k) (resourceStepsSinceBarrier st) g1) S"
      by simp
    with adds_trans [OF base g1] have
      "adds g (fold (\<lambda>p. addEdge p k) (resourceStepsSinceBarrier st) g1)
         ({(i, j). fence_dep B k i j} \<union> L \<union> S)" by (rule adds_trans)
    moreover have "{(i, j). fence_dep B k i j} \<union> L \<union> S = {(i, j). fence_dep B (Suc k) i j}"
      using last b since by (auto simp: L_def S_def fence_dep_def less_Suc_eq split: option.splits)
        (metis linorder_neqE_nat le_neq_implies_less)+
    ultimately have "adds g (fold (\<lambda>p. addEdge p k) (resourceStepsSinceBarrier st) g1)
        {(i, j). fence_dep B (Suc k) i j}" by simp
    then show ?thesis using b False
      unfolding fence_inv_def fence_step_def g1_def [symmetric] B_def [symmetric]
      by (auto simp: Let_def less_Suc_eq) (metis less_imp_le)
  qed
qed

lemma adds_fences:
  assumes g: "length g = length steps"
  shows "adds g (fence_edges steps g) {(i, j). fence_dep (barrier steps) (length steps) i j}"
proof -
  let ?st0 = "\<lparr>lastBarrier = None, resourceStepsSinceBarrier = [], fence_graph = g\<rparr>"
  have "k \<le> length steps \<Longrightarrow> fence_inv steps g k (fold (fence_step steps) [0..<k] ?st0)" for k
  proof (induction k)
    case 0
    then show ?case by (simp add: fence_inv_def fence_dep_def)
  next
    case (Suc k)
    then show ?case using fence_step_inv [OF _ _ g] by simp
  qed
  from this [of "length steps"] show ?thesis by (simp add: fence_inv_def fence_edges_def)
qed

section \<open>The whole graph\<close>

lemma adds_buildStepGraph:
  assumes it: "map_iteration iter"
  shows "adds (new_nodes steps) (buildStepGraph iter steps)
     {(i, j). resource_dep steps i j \<or> fence_dep (barrier steps) (length steps) i j}"
proof -
  let ?g = "fold (\<lambda>n g. provides_edges iter (step_producers steps) n (Provides (steps ! n))
                (requires_edges (step_producers steps) n (Requires (steps ! n)) g))
              [0..<length steps] (new_nodes steps)"
  have len: "length (new_nodes steps) = length steps" by (rule new_nodes_ok)
  have 1: "adds (new_nodes steps) ?g (\<Union>n \<in> set [0..<length steps]. {(i, n) | i. resource_dep steps i n})"
    using adds_node_resources [OF _ _ it] by (intro adds_fold [OF _ len]) auto
  then have "length ?g = length steps" using len by (simp add: adds_def)
  from adds_trans [OF 1 adds_fences [OF this]]
  have "adds (new_nodes steps) (buildStepGraph iter steps)
     ((\<Union>n \<in> set [0..<length steps]. {(i, n) | i. resource_dep steps i n}) \<union>
      {(i, j). fence_dep (barrier steps) (length steps) i j})"
    by (simp add: buildStepGraph_def Let_def)
  moreover have "(\<Union>n \<in> set [0..<length steps]. {(i, n) | i. resource_dep steps i n})
      = {(i, j). resource_dep steps i j}"
    by (auto dest: resource_dep_bound)
  moreover have "{(i, j). resource_dep steps i j} \<union> {(i, j). fence_dep (barrier steps) (length steps) i j}
      = {(i, j). resource_dep steps i j \<or> fence_dep (barrier steps) (length steps) i j}" by auto
  ultimately show ?thesis by simp
qed

lemma buildStepGraph_ok [simp]: "map_iteration iter \<Longrightarrow> graph_ok (buildStepGraph iter steps)"
  using adds_buildStepGraph [of iter steps] new_nodes_ok [of steps] by (simp add: adds_def)

lemma length_buildStepGraph [simp]:
  "map_iteration iter \<Longrightarrow> length (buildStepGraph iter steps) = length steps"
  using adds_buildStepGraph [of iter steps] new_nodes_ok [of steps] by (simp add: adds_def)

lemma buildStepGraph_steps:
  "map_iteration iter \<Longrightarrow> map sn_step (buildStepGraph iter steps) = steps"
  using adds_buildStepGraph [of iter steps] new_nodes_ok [of steps] by (simp add: adds_def)

lemma buildStepGraph_edges:
  "map_iteration iter \<Longrightarrow> edges (buildStepGraph iter steps) =
     {(i, j). resource_dep steps i j \<or> fence_dep (barrier steps) (length steps) i j}"
  using adds_buildStepGraph [of iter steps] new_nodes_ok [of steps] by (simp add: adds_def)

section \<open>Fences against full barriers\<close>

text \<open>The order the fences stand for: nothing is reordered across a barrier.\<close>

definition full_barrier_dep :: "(nat \<Rightarrow> bool) \<Rightarrow> nat \<Rightarrow> nat \<Rightarrow> nat \<Rightarrow> bool" where
  "full_barrier_dep B k i j \<longleftrightarrow> i < j \<and> j < k \<and> (B i \<or> B j)"

lemma barrier_before:
  assumes "B j" and "i \<le> j" and "j < k"
  shows "i = j \<or> (i, j) \<in> {(i, j). fence_dep B k i j}\<^sup>+"
  using assms
proof (induction "j - i" arbitrary: i rule: less_induct)
  case less
  show ?case
  proof (cases "i = j")
    case False
    with less.prems have ij: "i < j" by simp
    show ?thesis
    proof (cases "\<exists>m. i < m \<and> m < j \<and> B m")
      case True
      define m where "m = (LEAST m. i < m \<and> m < j \<and> B m)"
      have m: "i < m" "m < j" "B m" using LeastI_ex [OF True] by (simp_all add: m_def)
      have first: "\<not> B l" if "i < l" "l < m" for l
        using that m(2) not_less_Least [of l "\<lambda>m. i < m \<and> m < j \<and> B m"] by (auto simp: m_def)
      have "fence_dep B k i m" using m first less.prems(3) by (auto simp: fence_dep_def)
      moreover have "m = j \<or> (m, j) \<in> {(i, j). fence_dep B k i j}\<^sup>+"
        using less.hyps [of m] m less.prems by auto
      ultimately show ?thesis using m(2) by (auto intro: trancl_into_trancl2)
    next
      case False
      with ij less.prems have "fence_dep B k i j" by (auto simp: fence_dep_def)
      then show ?thesis by auto
    qed
  qed simp
qed

lemma barrier_after:
  assumes "B i" and "i \<le> j" and "j < k"
  shows "i = j \<or> (i, j) \<in> {(i, j). fence_dep B k i j}\<^sup>+"
proof (cases "i = j")
  case False
  with assms have ij: "i < j" by simp
  define b where "b = (GREATEST b. b < j \<and> B b)"
  have b: "b < j" "B b" and last: "\<And>m. m < j \<Longrightarrow> B m \<Longrightarrow> m \<le> b"
    using GreatestI_nat [of "\<lambda>b. b < j \<and> B b" i j] Greatest_le_nat [of "\<lambda>b. b < j \<and> B b" _ j] ij assms(1)
    by (auto simp: b_def)
  have "fence_dep B k b j" using b last assms(3) by (force simp: fence_dep_def)
  moreover have "i = b \<or> (i, b) \<in> {(i, j). fence_dep B k i j}\<^sup>+"
    using barrier_before [of B b i k] b last [OF ij assms(1)] assms(3) by auto
  ultimately show ?thesis by (auto intro: trancl_into_trancl)
qed simp

lemma fence_trancl_eq:
  "{(i, j). fence_dep B k i j}\<^sup>+ = {(i, j). full_barrier_dep B k i j}\<^sup>+"
proof
  show "{(i, j). fence_dep B k i j}\<^sup>+ \<subseteq> {(i, j). full_barrier_dep B k i j}\<^sup>+"
    by (rule trancl_mono_subset) (auto simp: fence_dep_def full_barrier_dep_def)
next
  have "{(i, j). full_barrier_dep B k i j} \<subseteq> {(i, j). fence_dep B k i j}\<^sup>+"
    using barrier_before [of B _ _ k] barrier_after [of B _ _ k]
    by (auto simp: full_barrier_dep_def) (metis less_imp_le nat_neq_iff)+
  then show "{(i, j). full_barrier_dep B k i j}\<^sup>+ \<subseteq> {(i, j). fence_dep B k i j}\<^sup>+"
    by (metis trancl_id trancl_mono_subset trans_trancl)
qed

section \<open>Properties\<close>

text \<open>C3: whatever order the producers map is ranged over, the step graph has the steps in
  order, no step waits for itself or twice for another, both edge lists agree, and its edges are
  the resource dependencies together with the fences.\<close>

theorem buildStepGraph_correct:
  assumes "map_iteration iter"
  shows "map sn_step (buildStepGraph iter steps) = steps \<and> graph_ok (buildStepGraph iter steps)
    \<and> edges (buildStepGraph iter steps) =
        {(i, j). resource_dep steps i j \<or> fence_dep (barrier steps) (length steps) i j}"
  using buildStepGraph_ok buildStepGraph_steps buildStepGraph_edges assms by blast

definition bare_step :: Step where
  "bare_step = \<lparr>step_kind = ''run'', step_desc = [], step_ops = [], step_provides = None,
     step_requires = None, step_id = None\<rparr>"

definition dir_step :: "string \<Rightarrow> Step" where
  "dir_step p = bare_step\<lparr>step_kind := ''dir'', step_provides := Some [PathResource p]\<rparr>"

definition nested_dirs :: "Step list" where
  "nested_dirs = [dir_step ''/a/b'', dir_step ''/a'', bare_step]"

lemma buildStepGraph_correct_witness:
  "edges (buildStepGraph (\<lambda>_ ps. ps) nested_dirs) =
     {(i, j). resource_dep nested_dirs i j \<or> fence_dep (barrier nested_dirs) (length nested_dirs) i j}
   \<and> extractStepDeps (buildStepGraph (\<lambda>_ ps. ps) nested_dirs) = [[1], [], [0, 1]]"
proof
  show "edges (buildStepGraph (\<lambda>_ ps. ps) nested_dirs) =
     {(i, j). resource_dep nested_dirs i j \<or> fence_dep (barrier nested_dirs) (length nested_dirs) i j}"
    using buildStepGraph_correct [OF map_iteration_id, of nested_dirs] by blast
qed code_simp

text \<open>C4: the fences order the steps as full barriers would: the order they generate with the
  resource dependencies is the one in which nothing is moved across a step without resources.\<close>

theorem fences_are_barriers:
  assumes "map_iteration iter"
  shows "(edges (buildStepGraph iter steps))\<^sup>+ =
    ({(i, j). resource_dep steps i j} \<union> {(i, j). full_barrier_dep (barrier steps) (length steps) i j})\<^sup>+"
proof -
  have un: "(A \<union> B)\<^sup>+ = (A \<union> C)\<^sup>+" if "B\<^sup>+ = C\<^sup>+" for A B C :: "(nat \<times> nat) set"
  proof -
    have half: "(A \<union> B)\<^sup>+ \<subseteq> (A \<union> C)\<^sup>+" if "B \<subseteq> C\<^sup>+" for B C
    proof -
      have "C\<^sup>+ \<subseteq> (A \<union> C)\<^sup>+" by (rule trancl_mono_subset) simp
      with that have "A \<union> B \<subseteq> (A \<union> C)\<^sup>+" by auto
      from trancl_mono_subset [OF this] show ?thesis by (simp add: trancl_id [OF trans_trancl])
    qed
    have "B \<subseteq> C\<^sup>+" "C \<subseteq> B\<^sup>+" using that by auto
    then show ?thesis using half [of B C] half [of C B] by blast
  qed
  have "edges (buildStepGraph iter steps) = {(i, j). resource_dep steps i j}
      \<union> {(i, j). fence_dep (barrier steps) (length steps) i j}"
    using buildStepGraph_edges [OF assms] by auto
  then show ?thesis using un [OF fence_trancl_eq] by simp
qed

definition fenced_dirs :: "Step list" where
  "fenced_dirs = [dir_step ''/x'', bare_step, dir_step ''/y'']"

lemma fences_are_barriers_witness:
  "(0, 2) \<in> (edges (buildStepGraph (\<lambda>_ ps. ps) fenced_dirs))\<^sup>+"
proof -
  have "full_barrier_dep (barrier fenced_dirs) (length fenced_dirs) 0 1"
    "full_barrier_dep (barrier fenced_dirs) (length fenced_dirs) 1 2"
    by (simp_all add: full_barrier_dep_def barrier_def hasResources_def bare_step_def fenced_dirs_def)
  then show ?thesis
    unfolding fences_are_barriers [OF map_iteration_id] by (blast intro: trancl_into_trancl)
qed

end
