(* ===== verification/Step_Scheduler.thy ===== *)
theory Step_Scheduler
  imports Step_Graph Counters
begin

text \<open>
  The step schedulers executePlan and checkPlan (internal/engine/exec.go) as state machines.
  A step is a goroutine: it is launched when its counter reaches zero, begins (or gives up
  because the group's context is cancelled), runs, and returns under the lock, where its
  report is stored and its waiters are unblocked. What a step reports, whether it fails and
  which goroutine moves next are left open: each is a choice of the transition relation.
\<close>

section \<open>State and handlers of executePlan\<close>

record 'o run_state =
  pending :: "nat \<Rightarrow> int"
  launched :: "nat list"
  active :: "nat set"
  returned :: "nat set"
  completed :: "nat list"
  reports :: "StepReport list"
  exec_err :: "err option"
  group_err :: "err option"
  parent_err :: "err option"
  outputs :: "nat \<Rightarrow> 'o option"

definition init_run :: "stepNode list \<Rightarrow> 'o run_state" where
  "init_run g =
     \<lparr>pending = initStepPending g,
      launched = filter (\<lambda>n. initStepPending g n = 0) [0..<length g],
      active = {}, returned = {}, completed = [],
      reports = replicate (length g) zero_report,
      exec_err = None, group_err = None, parent_err = None, outputs = (\<lambda>_. None)\<rparr>"

text \<open>\<open>gctx.Err()\<close>: the group's context is cancelled by its first error or by its parent.\<close>

definition gctx_err :: "('o, 'z) run_state_scheme \<Rightarrow> err option" where
  "gctx_err s = (case group_err s of Some _ \<Rightarrow> Some ContextCanceled | None \<Rightarrow> parent_err s)"

text \<open>A goroutine returns an error: errgroup keeps the first one.\<close>

definition return_err :: "nat \<Rightarrow> err \<Rightarrow> ('o, 'z) run_state_scheme \<Rightarrow> ('o, 'z) run_state_scheme" where
  "return_err n e s =
     s\<lparr>active := active s - {n}, returned := insert n (returned s),
       group_err := (case group_err s of None \<Rightarrow> Some e | Some e' \<Rightarrow> Some e')\<rparr>"

definition begin_step :: "nat \<Rightarrow> ('o, 'z) run_state_scheme \<Rightarrow> ('o, 'z) run_state_scheme" where
  "begin_step n s =
     (case gctx_err s of
        Some e \<Rightarrow> return_err n e s
      | None \<Rightarrow> s\<lparr>active := insert n (active s)\<rparr>)"

text \<open>ResolveRefs failed: the abort error is the report's error and the goroutine's.\<close>

definition ref_failed :: "nat \<Rightarrow> err \<Rightarrow> ('o, 'z) run_state_scheme \<Rightarrow> ('o, 'z) run_state_scheme" where
  "ref_failed n e s = return_err n (AbortError [e]) (s\<lparr>exec_err := Some (AbortError [e])\<rparr>)"

text \<open>The first op of the report with an output provides the step's output.\<close>

fun first_output :: "(Op \<Rightarrow> 'o option) \<Rightarrow> OpReport list \<Rightarrow> 'o option" where
  "first_output out [] = None"
| "first_output out (r # rs) =
     (case out (or_op r) of Some v \<Rightarrow> Some v | None \<Rightarrow> first_output out rs)"

definition captureStepOutput ::
  "(Op \<Rightarrow> 'o option) \<Rightarrow> Step \<Rightarrow> StepReport \<Rightarrow> (nat \<Rightarrow> 'o option) \<Rightarrow> (nat \<Rightarrow> 'o option)" where
  "captureStepOutput out act rep outs =
     (case step_id act of None \<Rightarrow> outs
      | Some i \<Rightarrow> (case first_output out (sr_ops rep) of None \<Rightarrow> outs | Some v \<Rightarrow> outs(i \<mapsto> v)))"

definition finish_step ::
  "stepNode list \<Rightarrow> nat \<Rightarrow> StepReport \<Rightarrow> err option \<Rightarrow> (Op \<Rightarrow> 'o option)
     \<Rightarrow> ('o, 'z) run_state_scheme \<Rightarrow> ('o, 'z) run_state_scheme" where
  "finish_step g n rep e out s =
     (let s1 = s\<lparr>reports := (reports s)[n := rep],
                 outputs := captureStepOutput out (sn_step (g ! n)) rep (outputs s)\<rparr>
      in case e of
           Some e' \<Rightarrow> return_err n e' (s1\<lparr>exec_err := Some e'\<rparr>)
         | None \<Rightarrow>
             (let (p, q) = unblock (sn_requiredBy (g ! n)) (pending s1) (launched s1)
              in s1\<lparr>pending := p, launched := q, active := active s1 - {n},
                    returned := insert n (returned s1), completed := completed s1 @ [n]\<rparr>))"

text \<open>\<open>grp.Wait()\<close> returns once every launched goroutine has.\<close>

definition all_returned :: "('o, 'z) run_state_scheme \<Rightarrow> bool" where
  "all_returned s \<longleftrightarrow> set (launched s) \<subseteq> returned s"

definition wait_result :: "('o, 'z) run_state_scheme \<Rightarrow> Execution \<times> err option" where
  "wait_result s =
     (\<lparr>ex_steps = reports s,
       ex_err = (case group_err s of Some e \<Rightarrow> Some e | None \<Rightarrow> exec_err s)\<rparr>, group_err s)"

inductive exec_trans :: "stepNode list \<Rightarrow> 'o run_state \<Rightarrow> 'o run_state \<Rightarrow> bool" for g where
  interrupt: "parent_err s = None \<Longrightarrow> exec_trans g s (s\<lparr>parent_err := Some ContextCanceled\<rparr>)"
| begins: "n \<in> set (launched s) \<Longrightarrow> n \<notin> active s \<Longrightarrow> n \<notin> returned s \<Longrightarrow>
     exec_trans g s (begin_step n s)"
| ref_fails: "n \<in> active s \<Longrightarrow> exec_trans g s (ref_failed n e s)"
| finishes: "n \<in> active s \<Longrightarrow> exec_trans g s (finish_step g n rep e out s)"

inductive_cases exec_transE: "exec_trans g s t"

inductive exec_reach :: "stepNode list \<Rightarrow> 'o run_state \<Rightarrow> bool" for g where
  start: "exec_reach g (init_run g)"
| step: "exec_reach g s \<Longrightarrow> exec_trans g s t \<Longrightarrow> exec_reach g t"

section \<open>The step graph as a dependency graph\<close>

definition graph_nodes :: "stepNode list \<Rightarrow> nat set" where
  "graph_nodes g = (if graph_ok g then {..<length g} else {})"

lemma graph_ok_counts:
  assumes "graph_ok g" "d < length g" "n < length g"
  shows "count_list (sn_requiredBy (g ! d)) n = count_list (sn_requires (g ! n)) d"
proof -
  have "distinct (sn_requiredBy (g ! d))" "distinct (sn_requires (g ! n))"
    using assms by (auto simp: graph_ok_def)
  moreover have "n \<in> set (sn_requiredBy (g ! d)) \<longleftrightarrow> d \<in> set (sn_requires (g ! n))"
    using assms by (auto simp: graph_ok_def edges_def)
  ultimately show ?thesis by (simp add: count_list_distinct)
qed

interpretation sg: dependency_graph "graph_nodes g" "\<lambda>n. sn_requires (g ! n)" "\<lambda>n. sn_requiredBy (g ! n)"
  for g
proof
  show "finite (graph_nodes g)" by (simp add: graph_nodes_def)
  show "set (sn_requires (g ! n)) \<subseteq> graph_nodes g" if "n \<in> graph_nodes g" for n
    using that by (auto simp: graph_nodes_def graph_ok_def split: if_splits)
  show "set (sn_requiredBy (g ! d)) \<subseteq> graph_nodes g" if "d \<in> graph_nodes g" for d
    using that by (auto simp: graph_nodes_def graph_ok_def edges_def split: if_splits)
  show "count_list (sn_requiredBy (g ! d)) n = count_list (sn_requires (g ! n)) d"
    if "d \<in> graph_nodes g" "n \<in> graph_nodes g" for d n
    using that graph_ok_counts by (auto simp: graph_nodes_def split: if_splits)
qed

lemma graph_nodes_ok: "graph_ok g \<Longrightarrow> graph_nodes g = {..<length g}"
  by (simp add: graph_nodes_def)

lemma graph_edges_rel:
  "graph_ok g \<Longrightarrow> {(d, n). n \<in> graph_nodes g \<and> d \<in> set (sn_requires (g ! n))} = edges g"
  by (auto simp: edges_def graph_nodes_ok)

section \<open>Invariant\<close>

definition run_inv :: "stepNode list \<Rightarrow> ('o, 'z) run_state_scheme \<Rightarrow> bool" where
  "run_inv g s \<longleftrightarrow>
     sg.counters_ok g (pending s) (launched s) (completed s)
     \<and> active s \<subseteq> set (launched s) \<and> returned s \<subseteq> set (launched s)
     \<and> active s \<inter> returned s = {} \<and> set (completed s) \<subseteq> returned s
     \<and> (group_err s = None \<longrightarrow> returned s = set (completed s))
     \<and> length (reports s) = length g
     \<and> (\<forall>n < length g. n \<notin> returned s \<longrightarrow> reports s ! n = zero_report)"

lemma run_inv_init:
  assumes "graph_ok g"
  shows "run_inv g (init_run g)"
proof -
  have "sg.counters_ok g (initStepPending g) (filter (\<lambda>n. initStepPending g n = 0) [0..<length g]) []"
    using graph_nodes_ok [OF assms] by (intro sg.counters_start) (auto simp: initStepPending_def)
  then show ?thesis by (simp add: run_inv_def init_run_def)
qed

lemma run_inv_return_err [inv_intros]:
  assumes "run_inv g s" and "n \<in> active s \<or> (n \<in> set (launched s) \<and> n \<notin> returned s)"
  shows "run_inv g (return_err n e s)"
  using assms unfolding run_inv_def return_err_def by (auto split: option.splits)

lemma run_inv_exec_err [simp]: "run_inv g (s\<lparr>exec_err := x\<rparr>) = run_inv g s"
  by (simp add: run_inv_def)

lemma run_inv_parent_err [simp]: "run_inv g (s\<lparr>parent_err := x\<rparr>) = run_inv g s"
  by (simp add: run_inv_def)

lemma run_inv_outputs [simp]: "run_inv g (s\<lparr>outputs := x\<rparr>) = run_inv g s"
  by (simp add: run_inv_def)

lemma run_inv_begin [inv_intros]:
  assumes "run_inv g s" "n \<in> set (launched s)" "n \<notin> active s" "n \<notin> returned s"
  shows "run_inv g (begin_step n s)"
proof (cases "gctx_err s")
  case None
  with assms show ?thesis by (auto simp: begin_step_def run_inv_def)
next
  case (Some e)
  with assms show ?thesis by (auto simp: begin_step_def intro: run_inv_return_err)
qed

lemma run_inv_ref_failed [inv_intros]:
  "run_inv g s \<Longrightarrow> n \<in> active s \<Longrightarrow> run_inv g (ref_failed n e s)"
  unfolding ref_failed_def by (intro run_inv_return_err) auto

lemma run_inv_finish [inv_intros]:
  assumes inv: "run_inv g s" and n: "n \<in> active s"
  shows "run_inv g (finish_step g n rep e out s)"
proof (cases e)
  case (Some e')
  have "run_inv g (return_err n e' (s\<lparr>exec_err := Some e'\<rparr>))"
    using inv n by (intro run_inv_return_err) auto
  then show ?thesis using Some
    by (auto simp: finish_step_def Let_def run_inv_def return_err_def nth_list_update)
next
  case None
  obtain p q where pq: "unblock (sn_requiredBy (g ! n)) (pending s) (launched s) = (p, q)"
    by fastforce
  have "n \<in> set (launched s)" "n \<notin> set (completed s)" using inv n by (auto simp: run_inv_def)
  with inv pq have c: "sg.counters_ok g p q (completed s @ [n])" and q: "\<exists>new. q = launched s @ new"
    using sg.counters_complete by (auto simp: run_inv_def)
  then show ?thesis using None inv n pq
    by (auto simp: finish_step_def Let_def run_inv_def nth_list_update)
qed

lemma exec_trans_inv: "exec_trans g s t \<Longrightarrow> run_inv g s \<Longrightarrow> run_inv g t"
  by (induction rule: exec_trans.induct) (auto intro: inv_intros)

lemma exec_reach_inv: "exec_reach g s \<Longrightarrow> graph_ok g \<Longrightarrow> run_inv g s"
  by (induction rule: exec_reach.induct) (auto intro: run_inv_init exec_trans_inv)

section \<open>What the invariant gives\<close>

lemma run_inv_predecessors:
  assumes inv: "run_inv g s" and ok: "graph_ok g" and n: "n \<in> set (launched s)"
    and d: "(d, n) \<in> (edges g)\<^sup>+"
  shows "d \<in> set (completed s)"
proof -
  have c: "sg.counters_ok g (pending s) (launched s) (completed s)" using inv by (simp add: run_inv_def)
  have direct: "i \<in> set (completed s)" if "(i, j) \<in> edges g" "j \<in> set (launched s)" for i j
    using that sg.launched_deps [OF c that(2)] by (auto simp: edges_def)
  have "set (completed s) \<subseteq> set (launched s)"
    using inv by (auto simp: run_inv_def)
  with d n direct show ?thesis
    by (induction arbitrary: rule: converse_trancl_induct) auto
qed

lemma run_inv_all_done:
  assumes inv: "run_inv g s" and ok: "graph_ok g" and fin: "all_returned s"
    and no_err: "group_err s = None" and acy: "acyclic (edges g)"
  shows "set (completed s) = {..<length g} \<and> distinct (completed s)
     \<and> topological (\<lambda>n. sn_requires (g ! n)) (completed s)"
proof -
  have c: "sg.counters_ok g (pending s) (launched s) (completed s)"
    and "set (launched s) \<subseteq> set (completed s)"
    using inv fin no_err by (auto simp: run_inv_def all_returned_def)
  from sg.all_complete [OF this] acy graph_edges_rel [OF ok] graph_nodes_ok [OF ok]
  have "set (completed s) = {..<length g}" by simp
  with c show ?thesis by (simp add: sg.counters_ok_def)
qed

lemma run_inv_failed_not_before:
  assumes "run_inv g s" "graph_ok g" "d \<in> returned s" "d \<notin> set (completed s)"
    and "(d, n) \<in> (edges g)\<^sup>+"
  shows "n \<notin> set (launched s)"
  using run_inv_predecessors assms by blast

lemma exec_progress:
  assumes "run_inv g s" and "\<not> all_returned s"
  shows "\<exists>t. exec_trans g s t"
proof -
  from assms(2) obtain n where n: "n \<in> set (launched s)" "n \<notin> returned s"
    by (auto simp: all_returned_def)
  show ?thesis
  proof (cases "n \<in> active s")
    case True
    then show ?thesis by (blast intro: exec_trans.finishes)
  next
    case False
    with n show ?thesis by (blast intro: exec_trans.begins)
  qed
qed

text \<open>Every transition uses up one of finitely many moves.\<close>

definition moves_left :: "stepNode list \<Rightarrow> ('o, 'z) run_state_scheme \<Rightarrow> nat" where
  "moves_left g s = 2 * card ({..<length g} - returned s - active s) + card (active s)
     + (if parent_err s = None then 1 else 0)"

lemma run_inv_bounded:
  assumes "run_inv g s"
  shows "set (launched s) \<subseteq> {..<length g}" and "active s \<subseteq> {..<length g}"
proof -
  have "set (launched s) \<subseteq> graph_nodes g" using assms by (auto simp: run_inv_def sg.counters_ok_def)
  also have "\<dots> \<subseteq> {..<length g}" by (auto simp: graph_nodes_def)
  finally show "set (launched s) \<subseteq> {..<length g}" .
  with assms show "active s \<subseteq> {..<length g}" by (auto simp: run_inv_def)
qed

lemma moves_left_return:
  assumes inv: "run_inv g s" and t: "active t = active s - {n}" "returned t = insert n (returned s)"
      "parent_err t = parent_err s"
    and n: "n \<in> active s \<or> (n \<in> set (launched s) \<and> n \<notin> returned s \<and> n \<notin> active s)"
  shows "moves_left g t < moves_left g s"
proof -
  note b = run_inv_bounded [OF inv]
  have fin: "finite (active s)" using b(2) by (rule finite_subset) simp
  show ?thesis
  proof (cases "n \<in> active s")
    case True
    then have "{..<length g} - insert n (returned s) - (active s - {n}) = {..<length g} - returned s - active s"
      using inv by auto
    moreover have "card (active s - {n}) < card (active s)" using True fin by (simp add: card_gt_0_iff)
      (metis card_gt_0_iff diff_Suc_less empty_iff)
    ultimately show ?thesis by (simp add: moves_left_def t)
  next
    case False
    with n b(1) have n': "n \<in> {..<length g} - returned s - active s" by auto
    have "{..<length g} - insert n (returned s) - (active s - {n}) = ({..<length g} - returned s - active s) - {n}"
      using False by auto
    moreover have "card (({..<length g} - returned s - active s) - {n}) < card ({..<length g} - returned s - active s)"
      using n' by (intro psubset_card_mono) auto
    ultimately show ?thesis using False by (simp add: moves_left_def t)
  qed
qed

lemma moves_left_begin:
  assumes inv: "run_inv g s" and n: "n \<in> set (launched s)" "n \<notin> active s" "n \<notin> returned s"
  shows "moves_left g (s\<lparr>active := insert n (active s)\<rparr>) < moves_left g s"
proof -
  note b = run_inv_bounded [OF inv]
  have fin: "finite (active s)" using b(2) by (rule finite_subset) simp
  let ?A = "{..<length g} - returned s - active s"
  have n': "n \<in> ?A" using n b(1) by auto
  have "{..<length g} - returned s - insert n (active s) = ?A - {n}" by auto
  moreover have "card (?A - {n}) < card ?A" using n' by (intro psubset_card_mono) auto
  moreover have "card (insert n (active s)) = Suc (card (active s))" using fin n(2) by simp
  ultimately show ?thesis by (simp add: moves_left_def)
qed

lemma exec_trans_moves:
  assumes "exec_trans g s t" and inv: "run_inv g s"
  shows "moves_left g t < moves_left g s"
  using assms(1)
proof (cases rule: exec_trans.cases)
  case interrupt
  then show ?thesis by (simp add: moves_left_def)
next
  case (begins n)
  then show ?thesis using inv
    by (auto simp: begin_step_def split: option.splits
        intro: moves_left_begin moves_left_return [OF inv, of _ n] simp: return_err_def)
next
  case (ref_fails n e)
  then show ?thesis
    by (intro moves_left_return [OF inv, of _ n]) (auto simp: ref_failed_def return_err_def)
next
  case (finishes n rep e out)
  then show ?thesis
    by (intro moves_left_return [OF inv, of _ n])
      (auto simp: finish_step_def return_err_def Let_def split: option.splits prod.splits)
qed

section \<open>Properties\<close>

text \<open>The order on the steps of a deploy: resource dependencies and barriers.\<close>

definition step_order :: "Step list \<Rightarrow> (nat \<times> nat) set" where
  "step_order steps =
     ({(i, j). resource_dep steps i j} \<union> {(i, j). full_barrier_dep (barrier steps) (length steps) i j})\<^sup>+"

lemma step_order_edges:
  assumes "map_iteration iter"
  shows "step_order steps = (edges (buildStepGraph iter steps))\<^sup>+"
proof -
  have eq: "edges (buildStepGraph iter steps) = {(i, j). resource_dep steps i j}
      \<union> {(i, j). fence_dep (barrier steps) (length steps) i j}" (is "?E = ?R \<union> ?F")
    using buildStepGraph_edges [OF assms] by auto
  let ?B = "{(i, j). full_barrier_dep (barrier steps) (length steps) i j}"
  have "?B \<subseteq> ?F\<^sup>+" using fence_trancl_eq [of "barrier steps" "length steps"] by auto
  also have "\<dots> \<subseteq> ?E\<^sup>+" unfolding eq by (rule trancl_mono_subset) simp
  finally have "?R \<union> ?B \<subseteq> ?E\<^sup>+" unfolding eq by auto
  from trancl_mono_subset [OF this] have "step_order steps \<subseteq> ?E\<^sup>+"
    by (simp add: step_order_def trancl_id [OF trans_trancl])
  moreover have "?E \<subseteq> ?R \<union> ?B" unfolding eq by (auto simp: fence_dep_def full_barrier_dep_def)
  then have "?E\<^sup>+ \<subseteq> step_order steps" unfolding step_order_def by (rule trancl_mono_subset)
  ultimately show ?thesis by blast
qed

text \<open>C5: at any moment of an apply run, whatever the interleaving, a step has been launched only
  if every step before it in the order of resources and barriers has completed without error.\<close>

theorem launched_after_predecessors:
  assumes "map_iteration iter" and "exec_reach (buildStepGraph iter steps) s"
    and "n \<in> set (launched s)" and "(d, n) \<in> step_order steps"
  shows "d \<in> set (completed s)"
  using run_inv_predecessors exec_reach_inv buildStepGraph_ok step_order_edges assms by metis

definition two_dirs :: "Step list" where
  "two_dirs = [dir_step ''/a'', dir_step ''/a/b'']"

definition two_dirs_graph :: "stepNode list" where
  "two_dirs_graph = buildStepGraph (\<lambda>_ ps. ps) two_dirs"

definition run_first :: "nat run_state" where
  "run_first = finish_step two_dirs_graph 0 zero_report None (\<lambda>_. None) (begin_step 0 (init_run two_dirs_graph))"

lemma two_dirs_graph_code: "map sn_requires two_dirs_graph = [[], [0]]"
    "map sn_requiredBy two_dirs_graph = [[1], []]" "length two_dirs_graph = 2"
  by code_simp+

lemma two_dirs_order: "(0, 1) \<in> step_order two_dirs"
proof -
  have "(0, 1) \<in> edges two_dirs_graph"
    using two_dirs_graph_code by (simp add: edges_def)
      (metis One_nat_def length_map lessI list.set_intros(1) nth_Cons_0 nth_Cons_Suc nth_map numeral_2_eq_2)
  then show ?thesis
    unfolding step_order_edges [OF map_iteration_id] two_dirs_graph_def by (rule r_into_trancl)
qed

lemma two_dirs_started: "launched (init_run two_dirs_graph) = [0]"
  by code_simp

lemma run_first_reached: "exec_reach two_dirs_graph run_first"
proof -
  let ?s0 = "init_run two_dirs_graph :: nat run_state"
  have "exec_trans two_dirs_graph ?s0 (begin_step 0 ?s0)"
    by (rule exec_trans.begins) (simp_all add: two_dirs_started, simp_all add: init_run_def)
  then have r1: "exec_reach two_dirs_graph (begin_step 0 ?s0)"
    by (rule exec_reach.step [OF exec_reach.start])
  have "0 \<in> active (begin_step 0 ?s0)" by (simp add: begin_step_def gctx_err_def init_run_def)
  then show ?thesis
    unfolding run_first_def by (rule exec_reach.step [OF r1 exec_trans.finishes])
qed

lemma run_first_state: "launched run_first = [0, 1]" "completed run_first = [0]"
  by code_simp+

lemma launched_after_predecessors_witness: "0 \<in> set (completed run_first) \<and> 1 \<in> set (launched run_first)"
  using launched_after_predecessors [OF map_iteration_id, of two_dirs run_first 1 0]
    run_first_reached two_dirs_order run_first_state
  by (simp add: two_dirs_graph_def)

text \<open>C6: when no step failed and the step graph has no cycle, a finished apply run has completed
  every step exactly once, in an order that respects every edge, and reports no error.\<close>

theorem clean_run_completes_all:
  assumes "map_iteration iter" and "exec_reach (buildStepGraph iter steps) s"
    and "all_returned s" and "group_err s = None" and "acyclic (edges (buildStepGraph iter steps))"
  shows "set (completed s) = {..<length steps} \<and> distinct (completed s)
    \<and> topological (\<lambda>n. sn_requires (buildStepGraph iter steps ! n)) (completed s)
    \<and> snd (wait_result s) = None"
  using run_inv_all_done [OF exec_reach_inv [OF assms(2)]] assms
  by (simp add: wait_result_def)

definition run_both :: "nat run_state" where
  "run_both = finish_step two_dirs_graph 1 zero_report None (\<lambda>_. None) (begin_step 1 run_first)"

lemma run_both_reached: "exec_reach two_dirs_graph run_both"
proof -
  have "1 \<in> set (launched run_first)" "1 \<notin> active run_first" "1 \<notin> returned run_first" by code_simp+
  then have "exec_trans two_dirs_graph run_first (begin_step 1 run_first)" by (rule exec_trans.begins)
  then have r1: "exec_reach two_dirs_graph (begin_step 1 run_first)"
    by (rule exec_reach.step [OF run_first_reached])
  have "1 \<in> active (begin_step 1 run_first)" by code_simp
  then show ?thesis
    unfolding run_both_def by (rule exec_reach.step [OF r1 exec_trans.finishes])
qed

lemma two_dirs_acyclic: "acyclic (edges two_dirs_graph)"
proof -
  have "edges two_dirs_graph \<subseteq> {(i, j). i < j}"
  proof (clarsimp simp: edges_def)
    fix i j assume j: "j < length two_dirs_graph" and i: "i \<in> set (sn_requires (two_dirs_graph ! j))"
    have "sn_requires (two_dirs_graph ! j) = map sn_requires two_dirs_graph ! j" using j by simp
    with i j show "i < j" unfolding two_dirs_graph_code
      by (cases j) (auto simp: two_dirs_graph_code less_Suc_eq numeral_2_eq_2)
  qed
  moreover have "acyclic {(i :: nat, j). i < j}" using wf_less by (simp add: wf_acyclic less_than_def)
  ultimately show ?thesis by (rule acyclic_subset [rotated])
qed

lemma clean_run_completes_all_witness: "set (completed run_both) = {..<2} \<and> snd (wait_result run_both) = None"
proof -
  have "all_returned run_both" "group_err run_both = None" by code_simp+
  moreover have "length two_dirs = 2" by (simp add: two_dirs_def)
  ultimately show ?thesis
    using clean_run_completes_all [OF map_iteration_id, of two_dirs run_both]
      run_both_reached two_dirs_acyclic
    by (simp add: two_dirs_graph_def)
qed

text \<open>C7: every transition of an apply run uses up one of finitely many moves, and as long as a
  launched step has not returned some transition is possible: the run always ends, also when the
  step graph has a cycle.\<close>

theorem step_run_terminates:
  assumes "map_iteration iter" and "exec_reach (buildStepGraph iter steps) s"
  shows "(\<forall>t. exec_trans (buildStepGraph iter steps) s t \<longrightarrow>
        moves_left (buildStepGraph iter steps) t < moves_left (buildStepGraph iter steps) s)
    \<and> (\<not> all_returned s \<longrightarrow> (\<exists>t. exec_trans (buildStepGraph iter steps) s t))"
  using exec_trans_moves exec_progress exec_reach_inv [OF assms(2)] buildStepGraph_ok [OF assms(1)]
  by blast

lemma step_run_terminates_witness: "\<exists>t. exec_trans two_dirs_graph run_first t"
proof -
  have "\<not> all_returned run_first" by code_simp
  then show ?thesis
    using step_run_terminates [OF map_iteration_id, of two_dirs run_first] run_first_reached
    unfolding two_dirs_graph_def by blast
qed

text \<open>C8: a step that returned without completing, because it failed or the run was cancelled,
  keeps everything after it from being launched: those steps have an empty report and the run an error.\<close>

theorem failure_stops_dependents:
  assumes "map_iteration iter" and "exec_reach (buildStepGraph iter steps) s"
    and "d \<in> returned s" and "d \<notin> set (completed s)" and "(d, n) \<in> step_order steps" and "n < length steps"
  shows "n \<notin> set (launched s) \<and> n \<notin> returned s \<and> reports s ! n = zero_report
    \<and> snd (wait_result s) \<noteq> None"
proof -
  let ?g = "buildStepGraph iter steps"
  have inv: "run_inv ?g s" and ok: "graph_ok ?g"
    using exec_reach_inv [OF assms(2)] buildStepGraph_ok [OF assms(1)] by auto
  have n: "n \<notin> set (launched s)"
    using run_inv_failed_not_before [OF inv ok assms(3,4)] assms(5) step_order_edges [OF assms(1)] by simp
  moreover have "n \<notin> returned s" using inv n by (auto simp: run_inv_def)
  moreover from this have "reports s ! n = zero_report"
    using inv assms(1,6) by (simp add: run_inv_def)
  moreover have "group_err s \<noteq> None" using inv assms(3,4) by (auto simp: run_inv_def)
  ultimately show ?thesis by (simp add: wait_result_def)
qed

definition run_failed :: "nat run_state" where
  "run_failed = finish_step two_dirs_graph 0 zero_report (Some (AbortError [])) (\<lambda>_. None)
     (begin_step 0 (init_run two_dirs_graph))"

lemma run_failed_reached: "exec_reach two_dirs_graph run_failed"
proof -
  let ?s0 = "init_run two_dirs_graph :: nat run_state"
  have "exec_trans two_dirs_graph ?s0 (begin_step 0 ?s0)"
    by (rule exec_trans.begins) (simp_all add: two_dirs_started, simp_all add: init_run_def)
  then have r1: "exec_reach two_dirs_graph (begin_step 0 ?s0)"
    by (rule exec_reach.step [OF exec_reach.start])
  have "0 \<in> active (begin_step 0 ?s0)" by (simp add: begin_step_def gctx_err_def init_run_def)
  then show ?thesis
    unfolding run_failed_def by (rule exec_reach.step [OF r1 exec_trans.finishes])
qed

lemma failure_stops_dependents_witness: "1 \<notin> set (launched run_failed) \<and> snd (wait_result run_failed) \<noteq> None"
proof -
  have "0 \<in> returned run_failed" "0 \<notin> set (completed run_failed)" by code_simp+
  then show ?thesis
    using failure_stops_dependents [OF map_iteration_id, of two_dirs run_failed 0 1]
      run_failed_reached two_dirs_order
    by (simp add: two_dirs_graph_def two_dirs_def)
qed

text \<open>A step on a dependency cycle is never launched, so it has an empty report when the run
  ends; the scheduler itself raises no error for it, which is why cycles are rejected at planning.\<close>

theorem cyclic_steps_never_launched:
  assumes "map_iteration iter" and "exec_reach (buildStepGraph iter steps) s"
    and "(n, n) \<in> step_order steps" and "n < length steps"
  shows "n \<notin> set (launched s) \<and> reports s ! n = zero_report"
proof -
  let ?g = "buildStepGraph iter steps"
  have ok: "graph_ok ?g" and cyc: "(n, n) \<in> (edges ?g)\<^sup>+"
    using assms step_order_edges [OF assms(1)] by simp_all
  have inv: "run_inv ?g s" by (rule exec_reach_inv [OF assms(2) ok])
  have "(n, n) \<in> {(d, m). d \<in> set (sn_requires (?g ! m))}\<^sup>+"
    by (rule trancl_mono [OF cyc]) (auto simp: edges_def)
  then have "n \<notin> set (completed s)"
    using sg.cyclic_never_completes inv by (auto simp: run_inv_def)
  then have "n \<notin> set (launched s)" using run_inv_predecessors [OF inv ok _ cyc] by blast
  with inv assms(1,4) show ?thesis by (auto simp: run_inv_def)
qed

definition user_step :: "Resource \<Rightarrow> Resource \<Rightarrow> Step" where
  "user_step req prov = bare_step\<lparr>step_requires := Some [req], step_provides := Some [prov]\<rparr>"

definition knotted :: "Step list" where
  "knotted = [user_step (UserResource ''a'') (UserResource ''b''),
     user_step (UserResource ''b'') (UserResource ''a'')]"

lemma cyclic_steps_never_launched_witness:
  "0 \<notin> set (launched (init_run (buildStepGraph (\<lambda>_ ps. ps) knotted) :: nat run_state))
   \<and> all_returned (init_run (buildStepGraph (\<lambda>_ ps. ps) knotted) :: nat run_state)"
proof -
  have "resource_dep knotted 0 1" "resource_dep knotted 1 0"
    by (auto simp: resource_dep_def knotted_def user_step_def bare_step_def Requires_def Provides_def
        is_producer_def less_Suc_eq UserResource_def)
  then have "(0, 0) \<in> step_order knotted"
    unfolding step_order_def by (blast intro: trancl_into_trancl)
  moreover have "0 < length knotted" by (simp add: knotted_def)
  ultimately have "0 \<notin> set (launched (init_run (buildStepGraph (\<lambda>_ ps. ps) knotted) :: nat run_state))"
    by (rule cyclic_steps_never_launched [OF map_iteration_id exec_reach.start, THEN conjunct1])
  moreover have "all_returned (init_run (buildStepGraph (\<lambda>_ ps. ps) knotted) :: nat run_state)" by code_simp
  ultimately show ?thesis by blast
qed

end
