(* ===== verification/Check_Scheduler.thy ===== *)
theory Check_Scheduler
  imports Step_Scheduler
begin

text \<open>
  checkPlan (internal/engine/exec.go): a loop of its own beside executePlan, with the set of
  resources that steps found to change will provide. A step gets a copy of that set when it
  is scheduled, and its op checks may be deferred on it (isDeferred). The two loops are shown
  to simulate each other, so everything proved of the scheduler in Step_Scheduler holds here.
\<close>

section \<open>Deferring a failed check\<close>

definition isDeferred :: "Resource set \<Rightarrow> err \<Rightarrow> bool" where
  "isDeferred prov e =
     (if prov = {} then False
      else
        (case as_Deferrable e of
           None \<Rightarrow> False
         | Some deferred \<Rightarrow>
             deferred \<in> prov
             \<or> (res_kind deferred = ResourcePath
                \<and> (\<exists>pp \<in> prov. res_kind pp = ResourcePath
                      \<and> HasPrefix (res_name pp) (res_name deferred @ ''/'')))))"

lemma isDeferred_empty [simp]: "\<not> isDeferred {} e"
  by (simp add: isDeferred_def)

lemma isDeferred_mono: "isDeferred P e \<Longrightarrow> P \<subseteq> Q \<Longrightarrow> isDeferred Q e"
  by (auto simp: isDeferred_def split: option.splits if_splits)

section \<open>State and handlers\<close>

record 'o check_state = "'o run_state" +
  provided :: "Resource set"
  snap :: "nat \<Rightarrow> Resource set"

text \<open>The goroutine of a step gets a clone of the set as it is when the step is scheduled.\<close>

definition schedule_check :: "nat \<Rightarrow> 'o check_state \<Rightarrow> 'o check_state" where
  "schedule_check n s = s\<lparr>launched := launched s @ [n], snap := (snap s)(n := provided s)\<rparr>"

text \<open>The loop over the nodes that starts a check run, and the loop over a finished step's waiters.\<close>

fun start_check :: "nat list \<Rightarrow> 'o check_state \<Rightarrow> 'o check_state" where
  "start_check [] s = s"
| "start_check (n # ns) s = start_check ns (if pending s n = 0 then schedule_check n s else s)"

fun unblock_check :: "nat list \<Rightarrow> 'o check_state \<Rightarrow> 'o check_state" where
  "unblock_check [] s = s"
| "unblock_check (waiter # ws) s =
     (let s1 = s\<lparr>pending := (pending s)(waiter := pending s waiter - 1)\<rparr>
      in unblock_check ws (if pending s1 waiter = 0 then schedule_check waiter s1 else s1))"

definition init_check :: "stepNode list \<Rightarrow> 'o check_state" where
  "init_check g = start_check [0..<length g]
     \<lparr>pending = initStepPending g, launched = [], active = {}, returned = {}, completed = [],
      reports = replicate (length g) zero_report,
      exec_err = None, group_err = None, parent_err = None, outputs = (\<lambda>_. None),
      provided = {}, snap = (\<lambda>_. {})\<rparr>"

definition begin_check :: "nat \<Rightarrow> 'o check_state \<Rightarrow> 'o check_state" where
  "begin_check n s =
     (case gctx_err s of
        Some e \<Rightarrow> return_err n e s
      | None \<Rightarrow> s\<lparr>active := insert n (active s)\<rparr>)"

definition check_ref_failed :: "nat \<Rightarrow> err \<Rightarrow> 'o check_state \<Rightarrow> 'o check_state" where
  "check_ref_failed n e s =
     (let abortErr = AbortError [e] in return_err n abortErr (s\<lparr>exec_err := Some abortErr\<rparr>))"

text \<open>\<open>for _, key := range p.Provides() { provided[key] = true }\<close>, for a step that would change.\<close>

definition provide_check :: "Step \<Rightarrow> StepReport \<Rightarrow> 'o check_state \<Rightarrow> 'o check_state" where
  "provide_check act rep s =
     (if sum_WouldChange (sr_summary rep) > 0
      then s\<lparr>provided := fold insert (Provides act) (provided s)\<rparr> else s)"

text \<open>A step that would change something adds what it provides before its waiters are unblocked.\<close>

definition finish_check ::
  "stepNode list \<Rightarrow> nat \<Rightarrow> StepReport \<Rightarrow> err option \<Rightarrow> (Op \<Rightarrow> 'o option)
     \<Rightarrow> 'o check_state \<Rightarrow> 'o check_state" where
  "finish_check g n rep e out s =
     (let s1 = s\<lparr>reports := (reports s)[n := rep]\<rparr>;
          s2 = s1\<lparr>outputs := captureStepOutput out (sn_step (g ! n)) rep (outputs s1)\<rparr>
      in case e of
           Some e' \<Rightarrow> return_err n e' (s2\<lparr>exec_err := Some e'\<rparr>)
         | None \<Rightarrow>
             (let s3 = unblock_check (sn_requiredBy (g ! n)) (provide_check (sn_step (g ! n)) rep s2)
              in s3\<lparr>active := active s3 - {n}, returned := insert n (returned s3),
                    completed := completed s3 @ [n]\<rparr>))"

text \<open>What checkPlan returns once every goroutine has: the report, the provided set and the error.\<close>

definition check_result :: "'o check_state \<Rightarrow> Execution \<times> Resource set \<times> err option" where
  "check_result s =
     (let err = group_err s
      in (\<lparr>ex_steps = reports s, ex_err = (if err \<noteq> None then err else exec_err s)\<rparr>, provided s, err))"

inductive check_trans :: "stepNode list \<Rightarrow> 'o check_state \<Rightarrow> 'o check_state \<Rightarrow> bool" for g where
  c_interrupt: "parent_err s = None \<Longrightarrow> check_trans g s (s\<lparr>parent_err := Some ContextCanceled\<rparr>)"
| c_begins: "n \<in> set (launched s) \<Longrightarrow> n \<notin> active s \<Longrightarrow> n \<notin> returned s \<Longrightarrow>
     check_trans g s (begin_check n s)"
| c_ref_fails: "n \<in> active s \<Longrightarrow> check_trans g s (check_ref_failed n e s)"
| c_finishes: "n \<in> active s \<Longrightarrow> check_trans g s (finish_check g n rep e out s)"

inductive check_reach :: "stepNode list \<Rightarrow> 'o check_state \<Rightarrow> bool" for g where
  c_start: "check_reach g (init_check g)"
| c_step: "check_reach g s \<Longrightarrow> check_trans g s t \<Longrightarrow> check_reach g t"

section \<open>What the two loops of checkPlan compute\<close>

lemma schedule_check_simps [simp]:
  "pending (schedule_check n s) = pending s" "launched (schedule_check n s) = launched s @ [n]"
  "active (schedule_check n s) = active s" "returned (schedule_check n s) = returned s"
  "completed (schedule_check n s) = completed s" "reports (schedule_check n s) = reports s"
  "exec_err (schedule_check n s) = exec_err s" "group_err (schedule_check n s) = group_err s"
  "parent_err (schedule_check n s) = parent_err s" "outputs (schedule_check n s) = outputs s"
  "provided (schedule_check n s) = provided s"
  "snap (schedule_check n s) = (snap s)(n := provided s)"
  by (simp_all add: schedule_check_def)

lemma start_check_spec:
  "start_check ns s =
     s\<lparr>launched := launched s @ filter (\<lambda>n. pending s n = 0) ns,
       snap := (\<lambda>k. if k \<in> set ns \<and> pending s k = 0 then provided s else snap s k)\<rparr>"
  by (induction ns arbitrary: s) (auto simp: schedule_check_def fun_eq_iff)

lemma unblock_check_rest:
  "active (unblock_check ws s) = active s \<and> returned (unblock_check ws s) = returned s
   \<and> completed (unblock_check ws s) = completed s \<and> reports (unblock_check ws s) = reports s
   \<and> exec_err (unblock_check ws s) = exec_err s \<and> group_err (unblock_check ws s) = group_err s
   \<and> parent_err (unblock_check ws s) = parent_err s \<and> outputs (unblock_check ws s) = outputs s
   \<and> provided (unblock_check ws s) = provided s"
  by (induction ws arbitrary: s) (simp_all add: Let_def)

lemma unblock_check_counters:
  "unblock ws (pending s) (launched s) = (pending (unblock_check ws s), launched (unblock_check ws s))"
proof (induction ws arbitrary: s)
  case (Cons w ws)
  let ?s1 = "s\<lparr>pending := (pending s)(w := pending s w - 1)\<rparr>"
  let ?s2 = "if pending ?s1 w = 0 then schedule_check w ?s1 else ?s1"
  have p: "pending ?s2 = (pending s)(w := pending s w - 1)"
    and q: "launched ?s2 = (if ((pending s)(w := pending s w - 1)) w = 0 then launched s @ [w] else launched s)"
    by simp_all
  have eq: "unblock_check (w # ws) s = unblock_check ws ?s2" by (simp only: unblock_check.simps Let_def)
  show ?case using Cons.IH [of ?s2] unfolding eq p q by (simp only: unblock.simps Let_def)
qed simp

lemma unblock_check_snap:
  "(snap (unblock_check ws s) k = snap s k \<or> snap (unblock_check ws s) k = provided s)
   \<and> (k \<notin> set (launched s) \<longrightarrow> k \<in> set (launched (unblock_check ws s))
        \<longrightarrow> snap (unblock_check ws s) k = provided s)"
proof (induction ws arbitrary: s)
  case (Cons w ws)
  define s1 where "s1 = s\<lparr>pending := (pending s)(w := pending s w - 1)\<rparr>"
  define s2 where "s2 = (if pending s1 w = 0 then schedule_check w s1 else s1)"
  have s2: "provided s2 = provided s" "snap s2 k = snap s k \<or> snap s2 k = provided s"
      "k \<in> set (launched s2) \<Longrightarrow> k \<notin> set (launched s) \<Longrightarrow> snap s2 k = provided s"
    unfolding s2_def s1_def by (cases "pending s w = 1"; simp split: if_splits)+
  have eq: "unblock_check (w # ws) s = unblock_check ws s2" by (simp add: s2_def s1_def)
  show ?case unfolding eq using Cons.IH [of s2] s2 by metis
qed simp

text \<open>A node that has been scheduled is not scheduled again by a counter that is below zero after it.\<close>

lemma unblock_check_keeps:
  "pending s k \<le> 0 \<Longrightarrow> snap (unblock_check ws s) k = snap s k"
  by (induction ws arbitrary: s) (auto simp: Let_def)

section \<open>Simulation\<close>

abbreviation forget :: "'o check_state \<Rightarrow> 'o run_state" where
  "forget \<equiv> run_state.truncate"

lemma forget_simps [simp]:
  "pending (forget s) = pending s" "launched (forget s) = launched s"
  "active (forget s) = active s" "returned (forget s) = returned s"
  "completed (forget s) = completed s" "reports (forget s) = reports s"
  "exec_err (forget s) = exec_err s" "group_err (forget s) = group_err s"
  "parent_err (forget s) = parent_err s" "outputs (forget s) = outputs s"
  by (simp_all add: run_state.truncate_def)

lemma forget_return_err: "forget (return_err n e s) = return_err n e (forget s)"
  by (simp add: return_err_def run_state.truncate_def)

lemma forget_gctx [simp]: "gctx_err (forget s) = gctx_err s"
  by (simp add: gctx_err_def split: option.split)

lemma forget_begin: "forget (begin_check n s) = begin_step n (forget s)"
proof (cases "gctx_err s")
  case None
  then have "gctx_err (forget s) = None" by simp
  with None have "forget (begin_check n s) = forget (s\<lparr>active := insert n (active s)\<rparr>)"
    "begin_step n (forget s) = (forget s)\<lparr>active := insert n (active (forget s))\<rparr>"
    by (simp_all only: begin_step_def begin_check_def option.case)
  then show ?thesis by (simp add: run_state.truncate_def)
next
  case (Some e)
  then show ?thesis by (simp add: begin_step_def begin_check_def forget_return_err)
qed

lemma forget_ref_failed: "forget (check_ref_failed n e s) = ref_failed n e (forget s)"
  by (simp add: ref_failed_def check_ref_failed_def Let_def forget_return_err) (simp add: run_state.truncate_def)

lemma provide_check_simps [simp]:
  "pending (provide_check act rep s) = pending s" "launched (provide_check act rep s) = launched s"
  "active (provide_check act rep s) = active s" "returned (provide_check act rep s) = returned s"
  "completed (provide_check act rep s) = completed s" "reports (provide_check act rep s) = reports s"
  "exec_err (provide_check act rep s) = exec_err s" "group_err (provide_check act rep s) = group_err s"
  "parent_err (provide_check act rep s) = parent_err s" "outputs (provide_check act rep s) = outputs s"
  "snap (provide_check act rep s) = snap s"
  "provided (provide_check act rep s) = provided s
     \<union> (if sum_WouldChange (sr_summary rep) > 0 then set (Provides act) else {})"
  by (simp_all add: provide_check_def union_set_fold [symmetric] Un_commute)

text \<open>The end of a step: checkPlan's loop counts down and launches as executePlan's does.\<close>

lemma forget_finish: "forget (finish_check g n rep e out s) = finish_step g n rep e out (forget s)"
proof (cases e)
  case (Some e')
  then show ?thesis by (simp add: finish_check_def finish_step_def Let_def return_err_def run_state.truncate_def)
next
  case None
  let ?s2 = "s\<lparr>reports := (reports s)[n := rep],
      outputs := captureStepOutput out (sn_step (g ! n)) rep (outputs s)\<rparr>"
  let ?ws = "sn_requiredBy (g ! n)"
  let ?s3 = "unblock_check ?ws (provide_check (sn_step (g ! n)) rep ?s2)"
  have un: "unblock ?ws (pending s) (launched s) = (pending ?s3, launched ?s3)"
    using unblock_check_counters [of ?ws "provide_check (sn_step (g ! n)) rep ?s2"] by simp
  have rest: "active ?s3 = active s \<and> returned ?s3 = returned s \<and> completed ?s3 = completed s
      \<and> reports ?s3 = reports ?s2 \<and> exec_err ?s3 = exec_err s \<and> group_err ?s3 = group_err s
      \<and> parent_err ?s3 = parent_err s \<and> outputs ?s3 = outputs ?s2"
    using unblock_check_rest [of ?ws "provide_check (sn_step (g ! n)) rep ?s2"] by simp
  from None have "finish_check g n rep e out s = ?s3\<lparr>active := active ?s3 - {n},
      returned := insert n (returned ?s3), completed := completed ?s3 @ [n]\<rparr>"
    by (simp add: finish_check_def Let_def)
  moreover from None un have "finish_step g n rep e out (forget s) = (forget ?s2)\<lparr>pending := pending ?s3,
      launched := launched ?s3, active := active s - {n}, returned := insert n (returned s),
      completed := completed s @ [n]\<rparr>"
    by (simp add: finish_step_def Let_def run_state.truncate_def)
  ultimately show ?thesis using rest by (simp add: run_state.truncate_def)
qed

lemma check_trans_sim: "check_trans g s t \<Longrightarrow> exec_trans g (forget s) (forget t)"
proof (induction rule: check_trans.induct)
  case (c_interrupt s)
  then have "exec_trans g (forget s) ((forget s)\<lparr>parent_err := Some ContextCanceled\<rparr>)"
    by (intro exec_trans.interrupt) simp
  then show ?case by (simp add: run_state.truncate_def)
next
  case (c_begins n s)
  then show ?case unfolding forget_begin by (intro exec_trans.begins) auto
next
  case (c_ref_fails n s e)
  then show ?case unfolding forget_ref_failed by (intro exec_trans.ref_fails) auto
next
  case (c_finishes n s rep e out)
  then show ?case unfolding forget_finish by (intro exec_trans.finishes) auto
qed

lemma forget_init: "forget (init_check g) = init_run g"
  by (simp add: init_check_def init_run_def start_check_spec run_state.truncate_def)

lemma check_reach_sim: "check_reach g s \<Longrightarrow> exec_reach g (forget s)"
proof (induction rule: check_reach.induct)
  case c_start
  then show ?case by (simp add: forget_init exec_reach.start)
next
  case (c_step s t)
  then show ?case by (blast intro: exec_reach.step check_trans_sim)
qed

text \<open>Conversely, every move of executePlan is one checkPlan can make.\<close>

lemma exec_trans_sim:
  assumes "exec_trans g (forget s) r"
  shows "\<exists>t. check_trans g s t \<and> forget t = r"
  using assms
proof (cases rule: exec_trans.cases)
  case interrupt
  then have "check_trans g s (s\<lparr>parent_err := Some ContextCanceled\<rparr>)"
    by (intro check_trans.c_interrupt) simp
  then show ?thesis using interrupt by (auto simp: run_state.truncate_def)
next
  case (begins n)
  then have "check_trans g s (begin_check n s)" by (intro check_trans.c_begins) simp_all
  then show ?thesis using begins forget_begin by blast
next
  case (ref_fails n e)
  then have "check_trans g s (check_ref_failed n e s)" by (intro check_trans.c_ref_fails) simp
  then show ?thesis using ref_fails forget_ref_failed by blast
next
  case (finishes n rep e out)
  then have "check_trans g s (finish_check g n rep e out s)" by (intro check_trans.c_finishes) simp
  then show ?thesis using finishes forget_finish by blast
qed

lemma exec_reach_sim: "exec_reach g r \<Longrightarrow> \<exists>s. check_reach g s \<and> forget s = r"
proof (induction rule: exec_reach.induct)
  case start
  then show ?case using check_reach.c_start forget_init by blast
next
  case (step r r')
  then show ?case using exec_trans_sim check_reach.c_step by metis
qed

lemma run_inv_forget: "run_inv g (forget s) = run_inv g s"
  by (simp add: run_inv_def)

lemma check_reach_inv: "check_reach g s \<Longrightarrow> graph_ok g \<Longrightarrow> run_inv g s"
  using check_reach_sim exec_reach_inv run_inv_forget by metis

section \<open>What a step sees as provided\<close>

definition will_provide :: "stepNode list \<Rightarrow> ('o, 'z) run_state_scheme \<Rightarrow> nat \<Rightarrow> Resource set" where
  "will_provide g s d =
     (if sum_WouldChange (sr_summary (reports s ! d)) > 0 then set (Provides (sn_step (g ! d))) else {})"

text \<open>
  The shared set is what completed steps will provide. A launched step's copy holds at least what
  its predecessors will provide, and only what completed steps will that do not come after it.
\<close>

definition provided_inv :: "stepNode list \<Rightarrow> 'o check_state \<Rightarrow> bool" where
  "provided_inv g s \<longleftrightarrow>
     provided s = (\<Union>d \<in> set (completed s). will_provide g s d)
     \<and> (\<forall>n \<in> set (launched s).
          snap s n \<subseteq> (\<Union>d \<in> {d \<in> set (completed s). d \<noteq> n \<and> (n, d) \<notin> (edges g)\<^sup>+}. will_provide g s d)
        \<and> (\<forall>d. (d, n) \<in> (edges g)\<^sup>+ \<longrightarrow> will_provide g s d \<subseteq> snap s n))"

lemma provided_inv_cong:
  assumes "provided t = provided s" "snap t = snap s" "launched t = launched s"
    "completed t = completed s"
    and "\<And>d. d \<in> set (completed s) \<Longrightarrow> reports t ! d = reports s ! d"
    and "run_inv g s" "graph_ok g"
  shows "provided_inv g s \<Longrightarrow> provided_inv g t"
proof -
  assume p: "provided_inv g s"
  have same: "will_provide g t d = will_provide g s d" if "d \<in> set (completed s)" for d
    using assms(5) [OF that] by (simp add: will_provide_def)
  then have un: "(\<Union>d \<in> {d \<in> set (completed t). P d}. will_provide g t d)
      = (\<Union>d \<in> {d \<in> set (completed s). P d}. will_provide g s d)" for P
    using assms(4) by auto
  have pre: "will_provide g t d = will_provide g s d"
    if "n \<in> set (launched s)" "(d, n) \<in> (edges g)\<^sup>+" for n d
    using run_inv_predecessors [OF assms(6,7) that] by (rule same)
  show "provided_inv g t"
    unfolding provided_inv_def assms(1-3) un
  proof (intro conjI ballI allI impI)
    show "provided s = (\<Union>d \<in> set (completed t). will_provide g t d)"
      using un [of "\<lambda>_. True"] p by (simp add: provided_inv_def)
  next
    fix n assume "n \<in> set (launched s)"
    with p [unfolded provided_inv_def, THEN conjunct2]
    show "snap s n \<subseteq> (\<Union>d \<in> {d \<in> set (completed s). d \<noteq> n \<and> (n, d) \<notin> (edges g)\<^sup>+}. will_provide g s d)"
      by - (drule (1) bspec, erule conjunct1)
  next
    fix n d assume n: "n \<in> set (launched s)" "(d, n) \<in> (edges g)\<^sup>+"
    from p [unfolded provided_inv_def, THEN conjunct2] n(1)
    have "\<forall>d. (d, n) \<in> (edges g)\<^sup>+ \<longrightarrow> will_provide g s d \<subseteq> snap s n"
      by - (drule (1) bspec, erule conjunct2)
    with n(2) show "will_provide g t d \<subseteq> snap s n" unfolding pre [OF n] by simp
  qed
qed

lemma run_inv_not_after:
  assumes inv: "run_inv g s" and ok: "graph_ok g" and d: "d \<in> set (launched s)" and k: "k \<notin> set (launched s)"
  shows "d \<noteq> k \<and> (k, d) \<notin> (edges g)\<^sup>+"
proof
  show "d \<noteq> k" using d k by blast
  show "(k, d) \<notin> (edges g)\<^sup>+"
  proof
    assume "(k, d) \<in> (edges g)\<^sup>+"
    then have "k \<in> set (completed s)" by (rule run_inv_predecessors [OF inv ok d])
    then show False using inv k by (auto simp: run_inv_def)
  qed
qed

lemma provided_inv_finish:
  assumes p: "provided_inv g s" and inv: "run_inv g s" and ok: "graph_ok g" and n: "n \<in> active s"
  shows "provided_inv g (finish_check g n rep None out s)"
proof -
  define t where "t = finish_check g n rep None out s"
  let ?s2 = "s\<lparr>reports := (reports s)[n := rep],
      outputs := captureStepOutput out (sn_step (g ! n)) rep (outputs s)\<rparr>"
  define s3 where "s3 = provide_check (sn_step (g ! n)) rep ?s2"
  have s3: "launched s3 = launched s" "pending s3 = pending s" "snap s3 = snap s" "completed s3 = completed s"
    "reports s3 = (reports s)[n := rep]"
    "provided s3 = provided s \<union> (if sum_WouldChange (sr_summary rep) > 0 then set (Provides (sn_step (g ! n))) else {})"
    unfolding s3_def by simp_all
  define s4 where "s4 = unblock_check (sn_requiredBy (g ! n)) s3"
  have s4: "completed s4 = completed s" "reports s4 = (reports s)[n := rep]" "provided s4 = provided s3"
    using unblock_check_rest [of "sn_requiredBy (g ! n)" s3] unfolding s4_def s3 by blast+
  have t: "t = s4\<lparr>active := active s4 - {n}, returned := insert n (returned s4), completed := completed s4 @ [n]\<rparr>"
    unfolding t_def s4_def s3_def by (simp add: finish_check_def Let_def)
  have n': "n < length (reports s)" "n \<notin> set (completed s)" "n \<in> set (launched s)"
    using inv n run_inv_bounded(2) [OF inv] by (auto simp: run_inv_def)
  have inv': "run_inv g t"
    using run_inv_finish [of g "forget s" n rep None out] inv n
    unfolding t_def by (metis forget_finish forget_simps(3) run_inv_forget)
  have ts: "completed t = completed s @ [n]" "launched t = launched s4" "reports t = (reports s)[n := rep]"
    "provided t = provided s \<union> will_provide g t n" "snap t = snap s4"
    using n' s3(6) s4 by (simp_all add: t will_provide_def)
  have same: "will_provide g t d = will_provide g s d" if "d \<in> set (completed s)" for d
    using that n'(2) by (cases "d = n") (simp_all add: will_provide_def ts(3))
  have prov: "provided t = (\<Union>d \<in> set (completed t). will_provide g t d)"
    using p same ts(1,4) by (auto simp: provided_inv_def)
  have copies: "snap t k \<subseteq> (\<Union>d \<in> {d \<in> set (completed t). d \<noteq> k \<and> (k, d) \<notin> (edges g)\<^sup>+}. will_provide g t d)
      \<and> (\<forall>d. (d, k) \<in> (edges g)\<^sup>+ \<longrightarrow> will_provide g t d \<subseteq> snap t k)"
    if k: "k \<in> set (launched t)" for k
  proof (cases "k \<in> set (launched s)")
    case True
    have wp: "will_provide g t d = will_provide g s d" if "(d, k) \<in> (edges g)\<^sup>+" for d
      using run_inv_predecessors [OF inv ok True that] by (rule same)
    have "pending s3 k \<le> 0" using True inv by (simp add: s3(2) run_inv_def sg.counters_ok_def)
    then have "snap t k = snap s k" unfolding ts(5) s4_def by (simp add: unblock_check_keeps s3(3))
    moreover have "snap s k \<subseteq> (\<Union>d \<in> {d \<in> set (completed s). d \<noteq> k \<and> (k, d) \<notin> (edges g)\<^sup>+}. will_provide g s d)"
      "\<forall>d. (d, k) \<in> (edges g)\<^sup>+ \<longrightarrow> will_provide g s d \<subseteq> snap s k"
      using p [unfolded provided_inv_def, THEN conjunct2] True by blast+
    moreover have "(\<Union>d \<in> {d \<in> set (completed s). d \<noteq> k \<and> (k, d) \<notin> (edges g)\<^sup>+}. will_provide g s d)
        \<subseteq> (\<Union>d \<in> {d \<in> set (completed t). d \<noteq> k \<and> (k, d) \<notin> (edges g)\<^sup>+}. will_provide g t d)"
      using same ts(1) by auto
    ultimately show ?thesis using wp by (metis (no_types, lifting) subset_trans)
  next
    case False
    then have "snap t k = provided t"
      using unblock_check_snap [of "sn_requiredBy (g ! n)" s3 k] k s3(1) s4(3) ts(2,5)
      unfolding s4_def [symmetric] by (simp add: t)
    moreover have "d \<in> set (completed t)" if "(d, k) \<in> (edges g)\<^sup>+" for d
      using run_inv_predecessors [OF inv' ok k that] .
    moreover have "d \<noteq> k \<and> (k, d) \<notin> (edges g)\<^sup>+" if "d \<in> set (completed t)" for d
    proof (rule run_inv_not_after [OF inv ok _ False])
      show "d \<in> set (launched s)" using that n'(3) inv ts(1) by (auto simp: run_inv_def)
    qed
    ultimately show ?thesis using prov by auto
  qed
  with prov have "provided_inv g t" unfolding provided_inv_def by blast
  then show ?thesis unfolding t_def .
qed

lemma provided_inv_setters [simp]:
  "provided_inv g (s\<lparr>exec_err := x\<rparr>) = provided_inv g s"
  "provided_inv g (s\<lparr>parent_err := x\<rparr>) = provided_inv g s"
  "provided_inv g (s\<lparr>active := A\<rparr>) = provided_inv g s"
  by (simp_all add: provided_inv_def will_provide_def)

lemma provided_inv_trans:
  assumes "check_trans g s t" and inv: "run_inv g s" and ok: "graph_ok g" and p: "provided_inv g s"
  shows "provided_inv g t"
proof -
  have ret: "provided_inv g (return_err n e s')"
    if "provided_inv g s'" "run_inv g s'" for n e and s' :: "'a check_state"
    by (rule provided_inv_cong [OF _ _ _ _ _ that(2) ok that(1)]) (simp_all add: return_err_def)
  note setters = provided_inv_setters p
  from assms(1) show ?thesis
  proof (cases rule: check_trans.cases)
    case c_interrupt
    then show ?thesis using setters by simp
  next
    case (c_begins n)
    then show ?thesis using setters ret [OF p inv] by (auto simp: begin_check_def split: option.splits)
  next
    case (c_ref_fails n e)
    then show ?thesis using ret setters inv by (simp add: check_ref_failed_def Let_def)
  next
    case (c_finishes n rep e out)
    show ?thesis
    proof (cases e)
      case None
      with c_finishes provided_inv_finish [OF p inv ok] show ?thesis by simp
    next
      case (Some e')
      have "n \<notin> set (completed s)" using inv c_finishes by (auto simp: run_inv_def)
      then have nc: "(reports s)[n := rep] ! d = reports s ! d" if "d \<in> set (completed s)" for d
        using that by (metis nth_list_update_neq)
      show ?thesis unfolding c_finishes(1)
        by (rule provided_inv_cong [where s = s, OF _ _ _ _ _ inv ok p])
          (use Some nc in \<open>auto simp: finish_check_def Let_def return_err_def\<close>)
    qed
  qed
qed

lemma init_check_simps:
  "launched (init_check g) = launched (init_run g)" "completed (init_check g) = []"
  "provided (init_check g) = {}" "snap (init_check g) n = {}"
  by (simp_all add: init_check_def start_check_spec init_run_def)

lemma init_run_completed: "completed (init_run g) = []"
  by (simp add: init_run_def)

lemma provided_inv_init:
  assumes "graph_ok g"
  shows "provided_inv g (init_check g :: 'o check_state)"
proof -
  let ?s = "init_check g :: 'o check_state" and ?r = "init_run g :: 'o run_state"
  have "(d, n) \<notin> (edges g)\<^sup>+" if "n \<in> set (launched ?s)" for d n
    using run_inv_predecessors [OF run_inv_init [OF assms] assms, of n d] that
    by (auto simp: init_check_simps(1) [where ?'b = 'o] init_run_def)
  then show ?thesis unfolding provided_inv_def by (simp add: init_check_simps(2-4))
qed

lemma check_reach_provided: "check_reach g s \<Longrightarrow> graph_ok g \<Longrightarrow> provided_inv g s"
proof (induction rule: check_reach.induct)
  case c_start
  then show ?case by (rule provided_inv_init)
next
  case (c_step s t)
  then show ?case using provided_inv_trans check_reach_inv by blast
qed

section \<open>Properties\<close>

text \<open>C9: checkPlan and executePlan, two separate loops of the source, schedule steps alike. Forgetting
  the provided resources turns every state a check run can reach into one an apply run can reach with
  the same launches, counters, reports and errors, what checkPlan returns is what executePlan would
  together with the provided set, and every state of an apply run comes from a check run in this way.
  What the steps themselves report is left open in both.\<close>

theorem check_refines_exec:
  "(check_reach g s \<longrightarrow> exec_reach g (forget s)
      \<and> check_result s = (fst (wait_result (forget s)), provided s, snd (wait_result (forget s))))
   \<and> (exec_reach g r \<longrightarrow> (\<exists>s'. check_reach g s' \<and> forget s' = r))"
  using check_reach_sim exec_reach_sim [of g r]
  by (auto simp: wait_result_def check_result_def Let_def split: option.split)

definition would_change :: StepReport where
  "would_change = zero_report\<lparr>sr_summary := zero_summary\<lparr>sum_Total := 1, sum_WouldChange := 1\<rparr>\<rparr>"

definition check_first :: "nat check_state" where
  "check_first = finish_check two_dirs_graph 0 would_change None (\<lambda>_. None)
     (begin_check 0 (init_check two_dirs_graph))"

lemma check_first_reached: "check_reach two_dirs_graph check_first"
proof -
  let ?s0 = "init_check two_dirs_graph :: nat check_state"
  have "0 \<in> set (launched ?s0)" "0 \<notin> active ?s0" "0 \<notin> returned ?s0" by code_simp+
  then have "check_trans two_dirs_graph ?s0 (begin_check 0 ?s0)" by (rule check_trans.c_begins)
  then have r1: "check_reach two_dirs_graph (begin_check 0 ?s0)"
    by (rule check_reach.c_step [OF check_reach.c_start])
  have "0 \<in> active (begin_check 0 ?s0)" by code_simp
  then show ?thesis
    unfolding check_first_def by (rule check_reach.c_step [OF r1 check_trans.c_finishes])
qed

lemma check_refines_exec_witness:
  "exec_reach two_dirs_graph (forget check_first) \<and> launched (forget check_first) = [0, 1]
   \<and> completed (forget check_first) = [0] \<and> fst (snd (check_result check_first)) = {PathResource ''/a''}
   \<and> (\<exists>s' :: nat check_state. check_reach two_dirs_graph s' \<and> forget s' = run_both)"
proof (intro conjI)
  show "exec_reach two_dirs_graph (forget check_first)"
    using check_refines_exec [of two_dirs_graph check_first] check_first_reached by blast
  show "\<exists>s' :: nat check_state. check_reach two_dirs_graph s' \<and> forget s' = run_both"
    using check_refines_exec [of two_dirs_graph _ run_both] run_both_reached by blast
qed code_simp+

text \<open>A provided resource makes another one available: itself, or a directory above a provided path.\<close>

definition makes_available :: "Resource \<Rightarrow> Resource \<Rightarrow> bool" where
  "makes_available r m \<longleftrightarrow> r = m
     \<or> (res_kind r = ResourcePath \<and> res_kind m = ResourcePath
        \<and> (\<exists>below. res_name r = res_name m @ ''/'' @ below))"

lemma isDeferred_iff:
  "isDeferred prov e \<longleftrightarrow> (\<exists>m. as_Deferrable e = Some m \<and> (\<exists>r \<in> prov. makes_available r m))"
  by (auto simp: isDeferred_def makes_available_def HasPrefix_iff split: option.split)

text \<open>C10: when a check of a launched step fails, the failure is excused (isDeferred) if it names a
  missing resource that a step ordered before it, found to change, provides or implies by providing a
  path below it. Conversely an excused failure names a resource that some completed step, found to
  change, provides or implies; that step need not be ordered before the one that is checked, as long
  as it is not that step and does not come after it.\<close>

theorem deferral_is_exact:
  assumes "map_iteration iter" and "check_reach (buildStepGraph iter steps) s" and "n \<in> set (launched s)"
  shows "(as_Deferrable e = Some m \<and> (d, n) \<in> step_order steps
        \<and> sum_WouldChange (sr_summary (reports s ! d)) > 0
        \<and> (\<exists>r \<in> set (Provides (steps ! d)). makes_available r m) \<longrightarrow> isDeferred (snap s n) e)
    \<and> (isDeferred (snap s n) e \<longrightarrow> (\<exists>m d r. as_Deferrable e = Some m \<and> d \<in> set (completed s)
        \<and> d \<noteq> n \<and> (n, d) \<notin> step_order steps
        \<and> sum_WouldChange (sr_summary (reports s ! d)) > 0
        \<and> r \<in> set (Provides (steps ! d)) \<and> makes_available r m))"
proof -
  let ?g = "buildStepGraph iter steps"
  have ok: "graph_ok ?g" using buildStepGraph_ok [OF assms(1)] .
  have inv: "run_inv ?g s" by (rule check_reach_inv [OF assms(2) ok])
  have p: "provided_inv ?g s" by (rule check_reach_provided [OF assms(2) ok])
  have ord: "step_order steps = (edges ?g)\<^sup>+" by (rule step_order_edges [OF assms(1)])
  have step: "sn_step (?g ! d) = steps ! d" if "d < length steps" for d
    using buildStepGraph_steps [OF assms(1), of steps] that assms(1)
    by (metis length_buildStepGraph nth_map)
  have dn: "d < length steps" if "d \<in> set (completed s)" for d
    using run_inv_bounded(1) [OF inv] inv that assms(1) by (auto simp: run_inv_def)
  note copy = p [unfolded provided_inv_def, THEN conjunct2, rule_format, OF assms(3)]
  have 1: "set (Provides (steps ! d)) \<subseteq> snap s n"
    if d: "(d, n) \<in> step_order steps" "sum_WouldChange (sr_summary (reports s ! d)) > 0"
  proof -
    have e: "(d, n) \<in> (edges ?g)\<^sup>+" using d(1) ord by simp
    then have "will_provide ?g s d \<subseteq> snap s n" using copy by simp
    moreover have "d < length steps" using dn run_inv_predecessors [OF inv ok assms(3) e] by blast
    ultimately show ?thesis using d(2) step by (simp add: will_provide_def)
  qed
  have 2: "\<exists>d \<in> set (completed s). d \<noteq> n \<and> (n, d) \<notin> step_order steps
      \<and> sum_WouldChange (sr_summary (reports s ! d)) > 0 \<and> r \<in> set (Provides (steps ! d))"
    if "r \<in> snap s n" for r
  proof -
    from that copy obtain d where d: "d \<in> set (completed s)" "d \<noteq> n" "(n, d) \<notin> (edges ?g)\<^sup>+"
      "r \<in> will_provide ?g s d" by blast
    with step [OF dn [OF d(1)]] ord show ?thesis by (auto simp: will_provide_def split: if_splits)
  qed
  from 1 2 show ?thesis unfolding isDeferred_iff by blast
qed

definition no_such_resource :: "Resource \<Rightarrow> err" where
  "no_such_resource r = WrappedErr ''stat'' (Diag (EvError ImpactAbort
     \<lparr>tmpl_ID = ''step.Missing'', tmpl_Text = res_name r, tmpl_Hint = [], tmpl_Help = [], tmpl_Data = [], tmpl_Span = None\<rparr>) (Some r) None)"

lemma deferral_is_exact_witness:
  "isDeferred (snap check_first 1) (no_such_resource (PathResource ''/a''))
   \<and> \<not> isDeferred (snap check_first 1) (no_such_resource (PathResource ''/b''))"
proof (rule conjI)
  have l: "1 \<in> set (launched check_first)" by code_simp
  have w: "sum_WouldChange (sr_summary (reports check_first ! 0)) > 0" by code_simp
  have p: "PathResource ''/a'' \<in> set (Provides (two_dirs ! 0))" by code_simp
  have m: "as_Deferrable (no_such_resource (PathResource ''/a'')) = Some (PathResource ''/a'')" by (simp add: no_such_resource_def)
  show "isDeferred (snap check_first 1) (no_such_resource (PathResource ''/a''))"
    using deferral_is_exact [OF map_iteration_id _ l, of two_dirs "no_such_resource (PathResource ''/a'')"]
      check_first_reached two_dirs_order w p m
    unfolding two_dirs_graph_def makes_available_def by blast
qed code_simp

end
