(* ===== verification/Op_Scheduler.thy ===== *)
theory Op_Scheduler
  imports Op_Plan Check_Scheduler
begin

text \<open>
  How one step runs (internal/engine/exec.go): runChecks asks every op whether it is
  satisfied, runStep then executes the unsatisfied ops in dependency order, runCheckStep
  only predicts; both close the step with a report in which every op has an outcome. What an
  op's Check and Execute answer, and the order in which goroutines finish, are left open.
\<close>

section \<open>The scheduler of a step\<close>

record scheduler =
  sc_deploy :: DeployRef
  sc_actIdx :: nat
  sc_actKind :: string
  sc_actDesc :: string
  sc_hookID :: string
  sc_checkOnly :: bool
  sc_provided :: "Resource set"

definition sc_stepRef :: "scheduler \<Rightarrow> StepRef" where
  "sc_stepRef s = \<lparr>ref_Deploy = sc_deploy s, ref_Index = sc_actIdx s, ref_Kind = sc_actKind s,
     ref_Desc = sc_actDesc s\<rparr>"

definition sc_cause :: "scheduler \<Rightarrow> Cause" where
  "sc_cause s =
     (if sc_hookID s \<noteq> [] then \<lparr>cause_kind = CauseHook, cause_ref = sc_hookID s\<rparr>
      else \<lparr>cause_kind = CauseNone, cause_ref = []\<rparr>)"

definition emitChanges :: "scheduler \<Rightarrow> string \<Rightarrow> ChangePhase \<Rightarrow> DriftDetail list \<Rightarrow> Event list" where
  "emitChanges s displayID phase drift =
     map (\<lambda>d. EvChange phase (sc_stepRef s) displayID d (sc_cause s)) drift"

definition emitExecuted :: "scheduler \<Rightarrow> string \<Rightarrow> Event list" where
  "emitExecuted s displayID =
     [EvChange ChangeExecuted (sc_stepRef s) displayID
        \<lparr>drift_field = [], drift_current = [], drift_desired = []\<rparr> (sc_cause s)]"

definition emitBegin :: "scheduler \<Rightarrow> Event list" where
  "emitBegin s = [EvBegin (sc_stepRef s) (sc_cause s)]"

definition step_outcome :: "bool \<Rightarrow> StepSummary \<Rightarrow> StepOutcome" where
  "step_outcome checkOnly sm =
     (if sum_Failed sm + sum_Aborted sm > 0 then StepFailed
      else if checkOnly \<and> sum_WouldChange sm > 0 then StepChanged
      else if \<not> checkOnly \<and> sum_Changed sm > 0 then StepChanged
      else StepUnchanged)"

definition emitResult :: "scheduler \<Rightarrow> StepSummary \<Rightarrow> string list \<Rightarrow> Event list" where
  "emitResult s sm ops =
     [EvResult (sc_stepRef s) (step_outcome (sc_checkOnly s) sm) sm ops (sc_cause s)]"

definition opDisplayIDs :: "StepReport \<Rightarrow> string list" where
  "opDisplayIDs rep = map (\<lambda>r. op_display (or_op r)) (sr_ops rep)"

section \<open>Checks\<close>

text \<open>One goroutine of runChecks: the node it leaves, its events, the error it returns.\<close>

type_synonym check_answer = "CheckResult \<times> DriftDetail list \<times> err option"

definition settle_check :: "scheduler \<Rightarrow> opNode \<Rightarrow> CheckResult \<Rightarrow> DriftDetail list \<Rightarrow> opNode \<times> Event list" where
  "settle_check s n res drift0 =
     (let drift = (if sc_checkOnly s then drift0 else []);
          evs = (if sc_checkOnly s \<and> res = CheckUnsatisfied
                 then emitChanges s (op_display (n_op n)) ChangePlanned drift else [])
      in (if res = CheckSatisfied then n\<lparr>n_satisfied := True, n_outcome := OpSkipped\<rparr>
          else n\<lparr>n_satisfied := False\<rparr>, evs))"

definition check_one :: "scheduler \<Rightarrow> opNode \<Rightarrow> check_answer \<Rightarrow> opNode \<times> Event list \<times> err option" where
  "check_one s n ans =
     (case ans of (res, drift, e) \<Rightarrow>
       (case e of
          None \<Rightarrow> (case settle_check s n res drift of (n', evs) \<Rightarrow> (n', evs, None))
        | Some e' \<Rightarrow>
            if isDeferred (sc_provided s) e' then (n\<lparr>n_outcome := OpWouldChange\<rparr>, [], None)
            else
              (case emitOpDiagnostic (sc_actIdx s) (sc_actKind s) (sc_actDesc s)
                      (op_display (n_op n)) (Some e') of
                 (evs, impact, consumed) \<Rightarrow>
                   if ShouldAbort impact
                   then (n\<lparr>n_outcome := OpAborted, n_err := Some e'\<rparr>, evs, Some (AbortError [e']))
                   else if \<not> consumed then (n, evs, Some e')
                   else (case settle_check s n res drift of (n', evs') \<Rightarrow> (n', evs @ evs', None)))))"

text \<open>
  \<open>order\<close> is the order in which the goroutines finish; each touches only its own node,
  and the group keeps the first error.
\<close>

fun runChecks ::
  "scheduler \<Rightarrow> (nat \<Rightarrow> check_answer) \<Rightarrow> nat list \<Rightarrow> opNode list \<times> Event list \<times> err option
     \<Rightarrow> opNode list \<times> Event list \<times> err option" where
  "runChecks s answers [] st = st"
| "runChecks s answers (i # order) (ns, evs, e) =
     (case check_one s (ns ! i) (answers i) of (n', evs', e') \<Rightarrow>
        runChecks s answers order
          (ns[i := n'], evs @ evs', case e of None \<Rightarrow> e' | Some _ \<Rightarrow> e))"

section \<open>Execution\<close>

fun bump_dependents :: "nat list \<Rightarrow> opNode list \<Rightarrow> opNode list" where
  "bump_dependents [] ns = ns"
| "bump_dependents (d # ds) ns =
     bump_dependents ds
       (if n_satisfied (ns ! d) then ns else ns[d := (ns ! d)\<lparr>n_pending := n_pending (ns ! d) + 1\<rparr>])"

definition initPending :: "opNode list \<Rightarrow> opNode list" where
  "initPending ns =
     fold (\<lambda>i ns. if n_satisfied (ns ! i) then ns else bump_dependents (n_dependents (ns ! i)) ns)
       [0..<length ns] (map (\<lambda>n. n\<lparr>n_pending := 0\<rparr>) ns)"

definition schedule :: "opNode list \<Rightarrow> nat \<Rightarrow> nat list \<Rightarrow> nat list" where
  "schedule ns i q = (if n_satisfied (ns ! i) then q else q @ [i])"

fun unblock_ops :: "nat list \<Rightarrow> opNode list \<Rightarrow> nat list \<Rightarrow> opNode list \<times> nat list" where
  "unblock_ops [] ns q = (ns, q)"
| "unblock_ops (d # ds) ns q =
     (if n_satisfied (ns ! d) then unblock_ops ds ns q
      else
        (let ns' = ns[d := (ns ! d)\<lparr>n_pending := n_pending (ns ! d) - 1\<rparr>]
         in unblock_ops ds ns' (if n_pending (ns' ! d) = 0 then schedule ns' d q else q)))"

text \<open>
  The state of a step's execution: the nodes, the goroutines started (in order), what
  Execute answered for those that have called it, those that have returned, and those that
  returned without error in that order.
\<close>

record op_run =
  r_nodes :: "opNode list"
  r_launched :: "nat list"
  r_answer :: "nat \<Rightarrow> (Result \<times> err option) option"
  r_returned :: "nat set"
  r_succeeded :: "nat list"
  r_results :: "Result list"
  r_grp_err :: "err option"
  r_events :: "Event list"

definition start_ops :: "opNode list \<Rightarrow> op_run" where
  "start_ops ns0 =
     (let ns = initPending ns0
      in \<lparr>r_nodes = ns,
          r_launched = fold (\<lambda>i q. if \<not> n_satisfied (ns ! i) \<and> n_pending (ns ! i) = 0
                                   then schedule ns i q else q) [0..<length ns] [],
          r_answer = (\<lambda>_. None), r_returned = {}, r_succeeded = [], r_results = [],
          r_grp_err = None, r_events = []\<rparr>)"

text \<open>The two halves of the goroutine schedule starts: the call, and what follows the lock.\<close>

definition op_executes :: "scheduler \<Rightarrow> nat \<Rightarrow> Result \<Rightarrow> err option \<Rightarrow> op_run \<Rightarrow> op_run" where
  "op_executes s i res e r =
     r\<lparr>r_answer := (r_answer r)(i \<mapsto> (res, e)),
       r_events := r_events r @ (if e = None \<and> res_changed res
         then emitExecuted s (op_display (n_op (r_nodes r ! i))) else [])\<rparr>"

definition op_settles :: "nat \<Rightarrow> Result \<Rightarrow> err option \<Rightarrow> op_run \<Rightarrow> op_run" where
  "op_settles i res e r =
     (case e of
        Some e' \<Rightarrow>
          r\<lparr>r_nodes := (r_nodes r)[i := (r_nodes r ! i)\<lparr>n_outcome := OpFailed, n_err := Some e',
                                                       n_result := None\<rparr>],
            r_returned := insert i (r_returned r),
            r_grp_err := (case r_grp_err r of None \<Rightarrow> Some e' | Some e0 \<Rightarrow> Some e0)\<rparr>
      | None \<Rightarrow>
          (let ns = (r_nodes r)[i := (r_nodes r ! i)\<lparr>n_outcome := OpSucceeded, n_err := None,
                                                     n_result := Some res\<rparr>];
               (ns', q) = unblock_ops (n_dependents (ns ! i)) ns (r_launched r)
           in r\<lparr>r_nodes := ns', r_launched := q, r_returned := insert i (r_returned r),
                r_succeeded := r_succeeded r @ [i], r_results := r_results r @ [res]\<rparr>))"

inductive op_trans :: "scheduler \<Rightarrow> op_run \<Rightarrow> op_run \<Rightarrow> bool" for s where
  executes: "i \<in> set (r_launched r) \<Longrightarrow> r_answer r i = None \<Longrightarrow> op_trans s r (op_executes s i res e r)"
| settles: "i \<in> set (r_launched r) \<Longrightarrow> r_answer r i = Some (res, e) \<Longrightarrow> i \<notin> r_returned r \<Longrightarrow>
     op_trans s r (op_settles i res e r)"

inductive op_reach :: "scheduler \<Rightarrow> opNode list \<Rightarrow> op_run \<Rightarrow> bool" for s ns where
  op_start: "op_reach s ns (start_ops ns)"
| op_step: "op_reach s ns r \<Longrightarrow> op_trans s r r' \<Longrightarrow> op_reach s ns r'"

definition op_wait_done :: "op_run \<Rightarrow> bool" where
  "op_wait_done r \<longleftrightarrow> set (r_launched r) \<subseteq> r_returned r"

section \<open>Closing the step\<close>

fun report_ops :: "opNode list \<Rightarrow> StepReport \<Rightarrow> go_panic + StepReport" where
  "report_ops [] rep = Inr rep"
| "report_ops (n # ns) rep =
     (let r = \<lparr>or_op = n_op n, or_outcome = n_outcome n, or_result = n_result n, or_err = n_err n\<rparr>
      in case validateOpReport r of
           Some p \<Rightarrow> Inl p
         | None \<Rightarrow> report_ops ns
             (rep\<lparr>sr_ops := sr_ops rep @ [r],
                  sr_summary := count_outcome (sr_summary rep) (n_outcome n) (n_result n)\<rparr>))"

definition buildStepReport :: "Step \<Rightarrow> opNode list \<Rightarrow> go_panic + StepReport" where
  "buildStepReport act ns = report_ops ns \<lparr>sr_step = Some act, sr_ops = [], sr_summary = zero_summary\<rparr>"

text \<open>The error of a step, from the error that stopped it, and the diagnostic it emits.\<close>

definition step_error :: "scheduler \<Rightarrow> err \<Rightarrow> Event list \<times> err" where
  "step_error s e =
     (case emitStepDiagnostic (sc_actIdx s) (sc_actKind s) (sc_actDesc s) (Some e) of
        (evs, impact, consumed) \<Rightarrow>
          (evs, if ShouldAbort impact then AbortError [e]
                else if consumed then StepAbortedError (Some e) else e))"

definition close_step ::
  "scheduler \<Rightarrow> Step \<Rightarrow> opNode list \<Rightarrow> err option \<Rightarrow> go_panic + StepReport \<times> err option \<times> Event list" where
  "close_step s act ns e =
     (if list_ex (\<lambda>n. n_outcome n = opOutcomeUnknown) ns then Inl ''BUG: op left without outcome''
      else
        (let (evs, e') = (case e of None \<Rightarrow> ([], None)
               | Some e0 \<Rightarrow> (case step_error s e0 of (evs, e1) \<Rightarrow> (evs, Some e1)))
         in case buildStepReport act ns of
              Inl p \<Rightarrow> Inl p
            | Inr rep \<Rightarrow> Inr (rep, e', evs @ emitResult s (sr_summary rep) (opDisplayIDs rep))))"

definition mark_checked :: "err option \<Rightarrow> opNode \<Rightarrow> opNode" where
  "mark_checked checkErr n =
     (if n_outcome n = opOutcomeUnknown
      then (case checkErr of
              Some e \<Rightarrow> n\<lparr>n_outcome := OpAborted, n_err := Some e\<rparr>
            | None \<Rightarrow> if \<not> n_satisfied n then n\<lparr>n_outcome := OpWouldChange\<rparr> else n)
      else n)"

definition mark_aborted :: "err option \<Rightarrow> opNode \<Rightarrow> opNode" where
  "mark_aborted e n =
     (case e of None \<Rightarrow> n
      | Some e' \<Rightarrow> if n_outcome n = opOutcomeUnknown then n\<lparr>n_outcome := OpAborted, n_err := Some e'\<rparr>
                  else n)"

text \<open>
  runCheckStep and runStep, as relations to what they return: a panic, or the report, the
  error and the events. \<open>order\<close> is any order of the step's check goroutines.
\<close>

type_synonym step_result = "go_panic + StepReport \<times> err option \<times> Event list"

fun prefix_events :: "Event list \<Rightarrow> step_result \<Rightarrow> step_result" where
  "prefix_events evs (Inl p) = Inl p"
| "prefix_events evs (Inr (rep, e, evs')) = Inr (rep, e, evs @ evs')"

definition new_scheduler :: "DeployRef \<Rightarrow> nat \<Rightarrow> Step \<Rightarrow> string \<Rightarrow> bool \<Rightarrow> Resource set \<Rightarrow> scheduler" where
  "new_scheduler deploy idx act hookID checkOnly upstream =
     \<lparr>sc_deploy = deploy, sc_actIdx = idx, sc_actKind = step_kind act, sc_actDesc = step_desc act,
      sc_hookID = hookID, sc_checkOnly = checkOnly, sc_provided = upstream\<rparr>"

definition runCheckStep ::
  "DeployRef \<Rightarrow> nat \<Rightarrow> Step \<Rightarrow> Resource set \<Rightarrow> string \<Rightarrow> (nat \<Rightarrow> check_answer) \<Rightarrow> nat list \<Rightarrow> step_result" where
  "runCheckStep deploy idx act upstream hookID answers order =
     (case buildPlan (step_ops act) of
        Inl p \<Rightarrow> Inl p
      | Inr ns \<Rightarrow>
          (let s = new_scheduler deploy idx act hookID True upstream in
           case runChecks s answers order (ns, emitBegin s, None) of (ns', evs, checkErr) \<Rightarrow>
             prefix_events evs (close_step s act (map (mark_checked checkErr) ns') checkErr)))"

inductive runStep :: "DeployRef \<Rightarrow> nat \<Rightarrow> Step \<Rightarrow> string \<Rightarrow> step_result \<Rightarrow> bool"
  for deploy idx act hookID where
  plan_panics: "buildPlan (step_ops act) = Inl p \<Longrightarrow> runStep deploy idx act hookID (Inl p)"
| checks_fail: "buildPlan (step_ops act) = Inr ns \<Longrightarrow>
     s = new_scheduler deploy idx act hookID False {} \<Longrightarrow> mset order = mset [0..<length ns] \<Longrightarrow>
     runChecks s answers order (ns, emitBegin s, None) = (ns', evs, Some e) \<Longrightarrow>
     runStep deploy idx act hookID
       (prefix_events evs (close_step s act (map (mark_aborted (Some e)) ns') (Some e)))"
| executed: "buildPlan (step_ops act) = Inr ns \<Longrightarrow>
     s = new_scheduler deploy idx act hookID False {} \<Longrightarrow> mset order = mset [0..<length ns] \<Longrightarrow>
     runChecks s answers order (ns, emitBegin s, None) = (ns', evs, None) \<Longrightarrow>
     op_reach s ns' r \<Longrightarrow> op_wait_done r \<Longrightarrow>
     runStep deploy idx act hookID (prefix_events (evs @ r_events r)
       (close_step s act (map (mark_aborted (r_grp_err r)) (r_nodes r)) (r_grp_err r)))"

section \<open>The check phase\<close>

definition same_plan :: "opNode \<Rightarrow> opNode \<Rightarrow> bool" where
  "same_plan n n' \<longleftrightarrow> n_op n' = n_op n \<and> n_deps n' = n_deps n \<and> n_dependents n' = n_dependents n
     \<and> n_indegree n' = n_indegree n"

lemma same_plan_simps [simp]:
  "same_plan n n"
  "same_plan n (n'\<lparr>n_pending := p\<rparr>) = same_plan n n'"
  "same_plan n (n'\<lparr>n_satisfied := b\<rparr>) = same_plan n n'"
  "same_plan n (n'\<lparr>n_outcome := oc\<rparr>) = same_plan n n'"
  "same_plan n (n'\<lparr>n_result := r\<rparr>) = same_plan n n'"
  "same_plan n (n'\<lparr>n_err := e\<rparr>) = same_plan n n'"
  by (simp_all add: same_plan_def)

text \<open>What a checked op looks like; \<open>failed\<close> says whether the phase returned an error.\<close>

definition node_checked :: "scheduler \<Rightarrow> bool \<Rightarrow> opNode \<Rightarrow> bool" where
  "node_checked s failed n \<longleftrightarrow> n_result n = None \<and>
     (case n_outcome n of
        opOutcomeUnknown \<Rightarrow> \<not> n_satisfied n \<and> n_err n = None
      | OpSkipped \<Rightarrow> n_satisfied n \<and> n_err n = None
      | OpWouldChange \<Rightarrow> \<not> n_satisfied n \<and> n_err n = None \<and> sc_provided s \<noteq> {}
      | OpAborted \<Rightarrow> failed \<and> n_err n \<noteq> None
      | _ \<Rightarrow> False)"

lemma settle_check_ok:
  assumes "settle_check s n res drift = (n', evs)" and "fresh n"
  shows "same_plan n n' \<and> node_checked s False n'"
  using assms by (auto simp: settle_check_def fresh_def node_checked_def Let_def split: if_splits)

lemma node_checked_mono: "node_checked s False n \<Longrightarrow> node_checked s b n"
  by (cases b) (auto simp: node_checked_def split: OpOutcome.splits)

lemma check_one_ok:
  assumes "check_one s n ans = (n', evs, e)" and f: "fresh n"
  shows "same_plan n n' \<and> node_checked s (e \<noteq> None) n'"
proof -
  obtain res drift e0 where ans: "ans = (res, drift, e0)" by (cases ans)
  obtain m mevs where m: "settle_check s n res drift = (m, mevs)" by fastforce
  note ok = settle_check_ok [OF m f]
  show ?thesis
  proof (cases e0)
    case None
    with assms(1) ans m ok show ?thesis by (auto simp: check_one_def intro: node_checked_mono)
  next
    case (Some e')
    obtain evs' imp cons where em: "emitOpDiagnostic (sc_actIdx s) (sc_actKind s) (sc_actDesc s)
        (op_display (n_op n)) (Some e') = (evs', imp, cons)" by (metis prod_cases3)
    have ne: "isDeferred (sc_provided s) e' \<Longrightarrow> sc_provided s \<noteq> {}" by auto
    show ?thesis
    proof (cases "isDeferred (sc_provided s) e'")
      case True
      with assms(1) ans Some ne f show ?thesis
        by (auto simp: check_one_def node_checked_def fresh_def)
    next
      case False
      with assms ans Some em m ok show ?thesis
        by (auto simp: check_one_def fresh_def node_checked_def split: if_splits OpOutcome.splits)
    qed
  qed
qed

text \<open>The order of the goroutines decides which error is first and nothing else.\<close>

lemma runChecks_spec:
  assumes "runChecks s answers order (ns, evs, e) = (ns', evs', e')"
    and "distinct order" and "set order \<subseteq> {..<length ns}"
  shows "length ns' = length ns
     \<and> (\<forall>i < length ns. ns' ! i = (if i \<in> set order then fst (check_one s (ns ! i) (answers i)) else ns ! i))
     \<and> (e' = None \<longleftrightarrow> e = None \<and> (\<forall>i \<in> set order. snd (snd (check_one s (ns ! i) (answers i))) = None))"
  using assms
proof (induction order arbitrary: ns evs e)
  case Nil
  then show ?case by simp
next
  case (Cons i order)
  obtain n1 evs1 e1 where c: "check_one s (ns ! i) (answers i) = (n1, evs1, e1)" by (metis prod_cases3)
  let ?ns = "ns[i := n1]"
  let ?e = "case e of None \<Rightarrow> e1 | Some _ \<Rightarrow> e"
  have i: "i < length ns" "i \<notin> set order" using Cons.prems by auto
  have at: "?ns ! k = ns ! k" if "k \<in> set order" for k using that i(2) by (metis nth_list_update_neq)
  have "runChecks s answers order (?ns, evs @ evs1, ?e) = (ns', evs', e')"
    using Cons.prems(1) c by simp
  from Cons.IH [OF this] Cons.prems(2,3)
  have len: "length ns' = length ns"
    and nodes: "\<forall>k < length ns. ns' ! k =
        (if k \<in> set order then fst (check_one s (?ns ! k) (answers k)) else ?ns ! k)"
    and err: "e' = None \<longleftrightarrow> ?e = None
        \<and> (\<forall>k \<in> set order. snd (snd (check_one s (?ns ! k) (answers k))) = None)" by auto
  have "ns' ! k = (if k \<in> set (i # order) then fst (check_one s (ns ! k) (answers k)) else ns ! k)"
    if "k < length ns" for k
    using nodes [rule_format, OF that] at i c by (cases "k = i") auto
  moreover have "e' = None \<longleftrightarrow> e = None
      \<and> (\<forall>k \<in> set (i # order). snd (snd (check_one s (ns ! k) (answers k))) = None)"
    using err at c by (cases e) auto
  ultimately show ?case using len by blast
qed

lemma runChecks_nodes:
  assumes "runChecks s answers order (ns, evs, None) = (ns', evs', e')"
    and "mset order = mset [0..<length ns]" and fresh: "list_all fresh ns"
  shows "length ns' = length ns
     \<and> (\<forall>i < length ns. same_plan (ns ! i) (ns' ! i) \<and> node_checked s (e' \<noteq> None) (ns' ! i))"
proof -
  have "distinct order" "set order = {..<length ns}"
    using assms(2) by (metis distinct_upt mset_eq_imp_distinct_iff,
        metis atLeast_upt mset_eq_setD)
  with runChecks_spec [OF assms(1)] have len: "length ns' = length ns"
    and nodes: "\<And>i. i < length ns \<Longrightarrow> ns' ! i = fst (check_one s (ns ! i) (answers i))"
    and err: "e' = None \<longleftrightarrow> (\<forall>i < length ns. snd (snd (check_one s (ns ! i) (answers i))) = None)" by auto
  have "same_plan (ns ! i) (ns' ! i) \<and> node_checked s (e' \<noteq> None) (ns' ! i)" if i: "i < length ns" for i
  proof -
    obtain n1 evs1 e1 where c: "check_one s (ns ! i) (answers i) = (n1, evs1, e1)" by (metis prod_cases3)
    have ok: "same_plan (ns ! i) n1 \<and> node_checked s (e1 \<noteq> None) n1"
      using check_one_ok [OF c] fresh i by (simp add: list_all_length)
    have "e1 \<noteq> None \<longrightarrow> e' \<noteq> None" using err i c by force
    then have "node_checked s (e' \<noteq> None) n1"
      using ok node_checked_mono [of s n1] by (cases "e1 = None") auto
    then show ?thesis using ok nodes [OF i] c by simp
  qed
  with len show ?thesis by blast
qed

section \<open>Counting pending ops\<close>

definition unsat :: "opNode list \<Rightarrow> nat \<Rightarrow> bool" where
  "unsat ns i \<longleftrightarrow> \<not> n_satisfied (ns ! i)"

text \<open>Two node lists that differ only in their counters.\<close>

definition recounted :: "opNode list \<Rightarrow> opNode list \<Rightarrow> bool" where
  "recounted ns ns' \<longleftrightarrow> length ns' = length ns
     \<and> (\<forall>k < length ns. ns' ! k = (ns ! k)\<lparr>n_pending := n_pending (ns' ! k)\<rparr>)"

lemma recounted_trans: "recounted a b \<Longrightarrow> recounted b c \<Longrightarrow> recounted a c"
  unfolding recounted_def by (metis opNode.surjective opNode.update_convs(5))

lemma recounted_fields:
  assumes "recounted ns ns'" "k < length ns"
  shows "n_satisfied (ns' ! k) = n_satisfied (ns ! k)" "n_dependents (ns' ! k) = n_dependents (ns ! k)"
    "n_deps (ns' ! k) = n_deps (ns ! k)" "n_outcome (ns' ! k) = n_outcome (ns ! k)"
    "n_err (ns' ! k) = n_err (ns ! k)" "n_result (ns' ! k) = n_result (ns ! k)"
    "n_op (ns' ! k) = n_op (ns ! k)" "n_indegree (ns' ! k) = n_indegree (ns ! k)"
proof -
  have eq: "ns' ! k = (ns ! k)\<lparr>n_pending := n_pending (ns' ! k)\<rparr>"
    using assms by (simp add: recounted_def)
  show "n_satisfied (ns' ! k) = n_satisfied (ns ! k)" "n_dependents (ns' ! k) = n_dependents (ns ! k)"
    "n_deps (ns' ! k) = n_deps (ns ! k)" "n_outcome (ns' ! k) = n_outcome (ns ! k)"
    "n_err (ns' ! k) = n_err (ns ! k)" "n_result (ns' ! k) = n_result (ns ! k)"
    "n_op (ns' ! k) = n_op (ns ! k)" "n_indegree (ns' ! k) = n_indegree (ns ! k)"
    by (subst eq, simp)+
qed

lemma n_pending_id [simp]: "n\<lparr>n_pending := n_pending n\<rparr> = (n :: opNode)"
  by (cases n) simp

lemma recounted_update: "recounted ns (ns[d := (ns ! d)\<lparr>n_pending := p\<rparr>])"
  unfolding recounted_def
proof (intro conjI allI impI)
  fix k assume k: "k < length ns"
  show "ns[d := (ns ! d)\<lparr>n_pending := p\<rparr>] ! k =
      (ns ! k)\<lparr>n_pending := n_pending (ns[d := (ns ! d)\<lparr>n_pending := p\<rparr>] ! k)\<rparr>"
    using k by (cases "k = d") simp_all
qed simp

lemma bump_spec:
  "set ds \<subseteq> {..<length ns} \<Longrightarrow> recounted ns (bump_dependents ds ns)
     \<and> (\<forall>k < length ns. n_pending (bump_dependents ds ns ! k) =
          n_pending (ns ! k) + (if n_satisfied (ns ! k) then 0 else int (count_list ds k)))"
proof (induction ds arbitrary: ns)
  case Nil
  then show ?case by (simp add: recounted_def)
next
  case (Cons d ds)
  let ?ns = "if n_satisfied (ns ! d) then ns else ns[d := (ns ! d)\<lparr>n_pending := n_pending (ns ! d) + 1\<rparr>]"
  have re: "recounted ns ?ns" using recounted_update by (simp add: recounted_def)
  have len: "length ?ns = length ns" by simp
  from Cons.IH [of ?ns] Cons.prems len
  have IH: "recounted ?ns (bump_dependents ds ?ns)"
    "\<forall>k < length ns. n_pending (bump_dependents ds ?ns ! k) =
       n_pending (?ns ! k) + (if n_satisfied (?ns ! k) then 0 else int (count_list ds k))"
    by (metis insert_subset list.simps(15))+
  have "n_pending (bump_dependents ds ?ns ! k) =
      n_pending (ns ! k) + (if n_satisfied (ns ! k) then 0 else int (count_list (d # ds) k))"
    if "k < length ns" for k
    using IH(2) that recounted_fields(1) [OF re that] Cons.prems by (auto simp: nth_list_update)
  with recounted_trans [OF re IH(1)] show ?case by simp
qed

lemma initPending_loop:
  assumes "\<forall>k < length ns. set (n_dependents (ns ! k)) \<subseteq> {..<length ns}" and "set xs \<subseteq> {..<length ns}"
  shows "recounted ns (fold (\<lambda>i ns. if n_satisfied (ns ! i) then ns
            else bump_dependents (n_dependents (ns ! i)) ns) xs ns)
     \<and> (\<forall>k < length ns. n_pending (fold (\<lambda>i ns. if n_satisfied (ns ! i) then ns
            else bump_dependents (n_dependents (ns ! i)) ns) xs ns ! k) =
          n_pending (ns ! k) + (if n_satisfied (ns ! k) then 0 else
            (\<Sum>i \<leftarrow> filter (unsat ns) xs. int (count_list (n_dependents (ns ! i)) k))))"
  using assms
proof (induction xs arbitrary: ns)
  case Nil
  then show ?case by (simp add: recounted_def)
next
  case (Cons x xs)
  let ?f = "\<lambda>i ns. if n_satisfied (ns ! i) then ns else bump_dependents (n_dependents (ns ! i)) ns"
  let ?ns = "?f x ns"
  have x: "x < length ns" using Cons.prems by simp
  then have b: "recounted ns (bump_dependents (n_dependents (ns ! x)) ns)"
    "\<forall>k < length ns. n_pending (bump_dependents (n_dependents (ns ! x)) ns ! k) =
      n_pending (ns ! k) + (if n_satisfied (ns ! k) then 0 else int (count_list (n_dependents (ns ! x)) k))"
    using bump_spec [of "n_dependents (ns ! x)" ns] Cons.prems(1) by blast+
  have re: "recounted ns ?ns" using b(1) by (simp add: recounted_def)
  then have len: "length ?ns = length ns" by (simp add: recounted_def)
  have same: "n_dependents (?ns ! k) = n_dependents (ns ! k)" "unsat ?ns k = unsat ns k" if "k < length ns" for k
    using recounted_fields [OF re that] by (simp_all add: unsat_def)
  have "\<forall>k < length ?ns. set (n_dependents (?ns ! k)) \<subseteq> {..<length ?ns}" "set xs \<subseteq> {..<length ?ns}"
    unfolding len using same Cons.prems by auto
  note IH = Cons.IH [OF this]
  have sums: "(\<Sum>i \<leftarrow> filter (unsat ?ns) xs. int (count_list (n_dependents (?ns ! i)) k))
      = (\<Sum>i \<leftarrow> filter (unsat ns) xs. int (count_list (n_dependents (ns ! i)) k))" for k
  proof -
    have "filter (unsat ?ns) xs = filter (unsat ns) xs"
      using same Cons.prems(2) by (intro filter_cong) auto
    moreover have "map (\<lambda>i. int (count_list (n_dependents (?ns ! i)) k)) (filter (unsat ns) xs)
        = map (\<lambda>i. int (count_list (n_dependents (ns ! i)) k)) (filter (unsat ns) xs)"
      using same Cons.prems(2) by (intro map_cong) auto
    ultimately show ?thesis by (simp only:)
  qed
  have pend: "n_pending (?ns ! k) = n_pending (ns ! k) + (if n_satisfied (ns ! k) \<or> \<not> unsat ns x then 0
      else int (count_list (n_dependents (ns ! x)) k))" if "k < length ns" for k
    using b(2) that by (simp add: unsat_def)
  have "n_pending (fold ?f xs ?ns ! k) = n_pending (ns ! k) + (if n_satisfied (ns ! k) then 0
      else (\<Sum>i \<leftarrow> filter (unsat ns) (x # xs). int (count_list (n_dependents (ns ! i)) k)))"
    if k: "k < length ns" for k
    using IH [THEN conjunct2, rule_format, of k] k len pend [OF k] same(2) [OF k] sums [of k]
    by (simp add: unsat_def)
  moreover have "recounted ns (fold ?f xs ?ns)"
    using recounted_trans [OF re] IH by blast
  ultimately show ?case by simp
qed

lemma set_filter_upt: "set (filter P [0..<n]) = {i. i < n \<and> P i}"
  by auto

lemma sum_filter_counts:
  assumes "set ds \<subseteq> {..<n}"
  shows "(\<Sum>i \<leftarrow> filter P [0..<n]. int (count_list ds i)) = int (length (filter P ds))"
proof -
  have "(\<Sum>i \<leftarrow> filter P [0..<n]. int (count_list ds i)) = (\<Sum>i \<in> {i. i < n \<and> P i}. int (count_list ds i))"
    by (subst sum_list_distinct_conv_sum_set) (simp_all add: set_filter_upt)
  also have "\<dots> = (\<Sum>i \<in> {i. i < n \<and> P i}. int (count_list (filter P ds) i))"
    by (intro sum.cong) (auto simp: count_list_filter_if)
  also have "\<dots> = int (length (filter P ds))"
  proof -
    have "set (filter P ds) \<subseteq> {i. i < n \<and> P i}" using assms by auto
    from sum_count_set [OF this] show ?thesis by (simp flip: of_nat_sum)
  qed
  finally show ?thesis .
qed

lemma initPending_spec:
  assumes ok: "linked_ok ns"
  shows "recounted ns (initPending ns)
     \<and> (\<forall>k < length ns. unsat ns k \<longrightarrow>
          n_pending (initPending ns ! k) = int (length (filter (unsat ns) (n_deps (ns ! k)))))"
proof -
  let ?ns = "map (\<lambda>n. n\<lparr>n_pending := 0\<rparr>) ns"
  have re: "recounted ns ?ns" by (simp add: recounted_def)
  have un: "unsat ?ns k = unsat ns k" if "k < length ns" for k using that by (simp add: unsat_def)
  have deps: "\<forall>k < length ?ns. set (n_dependents (?ns ! k)) \<subseteq> {..<length ?ns}"
    using ok by (auto simp: linked_ok_def)
  have "set [0..<length ns] \<subseteq> {..<length ?ns}" by auto
  note loop = initPending_loop [OF deps this]
  have "n_pending (initPending ns ! k) = int (length (filter (unsat ns) (n_deps (ns ! k))))"
    if k: "k < length ns" "unsat ns k" for k
  proof -
    have "n_pending (initPending ns ! k) =
        (\<Sum>i \<leftarrow> filter (unsat ?ns) [0..<length ns]. int (count_list (n_dependents (?ns ! i)) k))"
    proof -
      have "k < length ?ns" "\<not> n_satisfied (?ns ! k)" "n_pending (?ns ! k) = 0"
        using k by (auto simp: unsat_def)
      with loop [THEN conjunct2, rule_format, of k] show ?thesis
        unfolding initPending_def by (simp only: if_False add_0)
    qed
    also have "\<dots> = (\<Sum>i \<leftarrow> filter (unsat ns) [0..<length ns]. int (count_list (n_deps (ns ! k)) i))"
    proof -
      have "filter (unsat ?ns) [0..<length ns] = filter (unsat ns) [0..<length ns]"
        using un by (intro filter_cong) auto
      moreover have "count_list (n_dependents (?ns ! i)) k = count_list (n_deps (ns ! k)) i"
        if "i \<in> set [0..<length ns]" for i
        using ok that k by (simp add: linked_ok_def)
      ultimately show ?thesis by (auto intro!: arg_cong [where f = sum_list])
    qed
    also have "\<dots> = int (length (filter (unsat ns) (n_deps (ns ! k))))"
      using ok k by (intro sum_filter_counts) (auto simp: linked_ok_def)
    finally show ?thesis .
  qed
  moreover have "recounted ns (initPending ns)"
    using recounted_trans [OF re] loop by (auto simp: initPending_def)
  ultimately show ?thesis by blast
qed

lemma unblock_ops_spec:
  assumes "set ds \<subseteq> {..<length ns}" and "unblock_ops ds ns q = (ns', q')"
  shows "recounted ns ns' \<and> unblock (filter (unsat ns) ds) (\<lambda>k. n_pending (ns ! k)) q
     = (\<lambda>k. n_pending (ns' ! k), q')"
  using assms
proof (induction ds arbitrary: ns q)
  case Nil
  then show ?case by (simp add: recounted_def)
next
  case (Cons d ds)
  have d: "d < length ns" using Cons.prems by simp
  show ?case
  proof (cases "n_satisfied (ns ! d)")
    case True
    with Cons show ?thesis by (simp add: unsat_def)
  next
    case False
    let ?ns = "ns[d := (ns ! d)\<lparr>n_pending := n_pending (ns ! d) - 1\<rparr>]"
    let ?q = "if n_pending (?ns ! d) = 0 then schedule ?ns d q else q"
    have "unblock_ops ds ?ns ?q = (ns', q')" using Cons.prems False by (simp add: Let_def)
    with Cons.IH [of ?ns ?q] Cons.prems have IH: "recounted ?ns ns'"
      "unblock (filter (unsat ?ns) ds) (\<lambda>k. n_pending (?ns ! k)) ?q = (\<lambda>k. n_pending (ns' ! k), q')"
      by auto
    have "unsat ?ns = unsat ns" using d by (auto simp: unsat_def nth_list_update fun_eq_iff)
    moreover have "(\<lambda>k. n_pending (?ns ! k)) = (\<lambda>k. n_pending (ns ! k))(d := n_pending (ns ! d) - 1)"
      using d by (auto simp: nth_list_update fun_eq_iff)
    moreover have "?q = (if n_pending (ns ! d) - 1 = 0 then q @ [d] else q)"
      using d False by (simp add: schedule_def)
    ultimately have "unblock (filter (unsat ns) (d # ds)) (\<lambda>k. n_pending (ns ! k)) q
        = (\<lambda>k. n_pending (ns' ! k), q')"
      using IH(2) False by (simp add: unsat_def Let_def)
    with recounted_trans [OF recounted_update IH(1)] show ?thesis by blast
  qed
qed

section \<open>The unsatisfied ops as a dependency graph\<close>

definition unsat_nodes :: "opNode list \<Rightarrow> nat set" where
  "unsat_nodes ns = (if linked_ok ns then {i. i < length ns \<and> unsat ns i} else {})"

interpretation ug: dependency_graph "unsat_nodes ns"
  "\<lambda>i. filter (unsat ns) (n_deps (ns ! i))" "\<lambda>i. filter (unsat ns) (n_dependents (ns ! i))"
  for ns :: "opNode list"
  by unfold_locales
    (auto simp: unsat_nodes_def linked_ok_def count_list_filter_if split: if_splits)

lemma ug_launched:
  assumes "ug.counters_ok ns p q c"
  shows "set q \<subseteq> {i. i < length ns \<and> unsat ns i}" "distinct q" "set c \<subseteq> set q" "distinct c"
  using assms unfolding ug.counters_ok_def by (auto simp: unsat_nodes_def split: if_splits)

text \<open>What a node of the run holds, from the node after the checks and what Execute answered.\<close>

definition ran_node :: "op_run \<Rightarrow> opNode \<Rightarrow> nat \<Rightarrow> bool" where
  "ran_node r n0 k \<longleftrightarrow>
     (let n = r_nodes r ! k in
      if k \<notin> r_returned r then
        n_outcome n = n_outcome n0 \<and> n_result n = n_result n0 \<and> n_err n = n_err n0
      else if k \<in> set (r_succeeded r) then
        (\<exists>res. r_answer r k = Some (res, None) \<and> n_outcome n = OpSucceeded
           \<and> n_result n = Some res \<and> n_err n = None)
      else
        (\<exists>res e. r_answer r k = Some (res, Some e) \<and> n_outcome n = OpFailed
           \<and> n_result n = None \<and> n_err n = Some e))"

definition op_inv :: "opNode list \<Rightarrow> op_run \<Rightarrow> bool" where
  "op_inv ns r \<longleftrightarrow>
     length (r_nodes r) = length ns
     \<and> (\<forall>k < length ns. n_op (r_nodes r ! k) = n_op (ns ! k)
          \<and> n_dependents (r_nodes r ! k) = n_dependents (ns ! k)
          \<and> n_satisfied (r_nodes r ! k) = n_satisfied (ns ! k) \<and> ran_node r (ns ! k) k)
     \<and> ug.counters_ok ns (\<lambda>k. n_pending (r_nodes r ! k)) (r_launched r) (r_succeeded r)
     \<and> r_returned r \<subseteq> set (r_launched r) \<and> set (r_succeeded r) \<subseteq> r_returned r
     \<and> (r_grp_err r = None \<longleftrightarrow> r_returned r = set (r_succeeded r))
     \<and> r_returned r \<subseteq> dom (r_answer r) \<and> dom (r_answer r) \<subseteq> set (r_launched r)"

lemma fold_schedule:
  "fold (\<lambda>i q. if \<not> n_satisfied (ns ! i) \<and> n_pending (ns ! i) = 0 then schedule ns i q else q) xs q
     = q @ filter (\<lambda>i. unsat ns i \<and> n_pending (ns ! i) = 0) xs"
  by (induction xs arbitrary: q) (auto simp: schedule_def unsat_def)

lemma op_inv_start:
  assumes ok: "linked_ok ns"
  shows "op_inv ns (start_ops ns)"
proof -
  note ip = initPending_spec [OF ok]
  have len: "length (initPending ns) = length ns" using ip by (simp add: recounted_def)
  have re: "recounted ns (initPending ns)" using ip by blast
  have un: "unsat (initPending ns) k = unsat ns k" if "k < length ns" for k
    using recounted_fields(1) [OF re that] by (simp add: unsat_def)
  let ?q = "filter (\<lambda>i. unsat (initPending ns) i \<and> n_pending (initPending ns ! i) = 0) [0..<length ns]"
  have "ug.counters_ok ns (\<lambda>k. n_pending (initPending ns ! k)) ?q []"
    using ip ok un by (intro ug.counters_start) (auto simp: unsat_nodes_def)
  then show ?thesis
    using re len recounted_fields [OF re]
    by (simp add: op_inv_def start_ops_def Let_def ran_node_def fold_schedule)
qed

lemma op_inv_executes:
  assumes inv: "op_inv ns r" and i: "i \<in> set (r_launched r)" "r_answer r i = None"
  shows "op_inv ns (op_executes s i res e r)"
proof -
  have "i \<notin> r_returned r" using inv i by (auto simp: op_inv_def)
  with inv i show ?thesis by (auto simp: op_inv_def op_executes_def ran_node_def Let_def)
qed

lemma op_inv_settles:
  assumes inv: "op_inv ns r" and ok: "linked_ok ns" and i: "i \<in> set (r_launched r)"
    "r_answer r i = Some (res, e)" "i \<notin> r_returned r"
  shows "op_inv ns (op_settles i res e r)"
proof -
  have c: "ug.counters_ok ns (\<lambda>k. n_pending (r_nodes r ! k)) (r_launched r) (r_succeeded r)"
    and len: "length (r_nodes r) = length ns" using inv by (auto simp: op_inv_def)
  have il: "i < length ns" using ug_launched(1) [OF c] i(1) by auto
  have isucc: "i \<notin> set (r_succeeded r)" using inv i(3) by (auto simp: op_inv_def)
  show ?thesis
  proof (cases e)
    case (Some e')
    let ?ns = "(r_nodes r)[i := (r_nodes r ! i)\<lparr>n_outcome := OpFailed, n_err := Some e', n_result := None\<rparr>]"
    have "(\<lambda>k. n_pending (?ns ! k)) = (\<lambda>k. n_pending (r_nodes r ! k))"
      using il len by (auto simp: nth_list_update fun_eq_iff)
    moreover have "insert i (r_returned r) \<noteq> set (r_succeeded r)" using isucc by auto
    ultimately show ?thesis using Some inv i il isucc
      by (auto simp: op_inv_def op_settles_def ran_node_def Let_def nth_list_update split: option.split)
  next
    case None
    let ?ns = "(r_nodes r)[i := (r_nodes r ! i)\<lparr>n_outcome := OpSucceeded, n_err := None, n_result := Some res\<rparr>]"
    obtain ns' q where u: "unblock_ops (n_dependents (?ns ! i)) ?ns (r_launched r) = (ns', q)" by fastforce
    have deps: "n_dependents (?ns ! i) = n_dependents (ns ! i)"
      using inv il len by (simp add: op_inv_def)
    then have sub: "set (n_dependents (?ns ! i)) \<subseteq> {..<length ?ns}"
      using ok il len by (auto simp: linked_ok_def)
    have un: "unsat ?ns k = unsat ns k" if "k < length ns" for k
      using inv that len il by (auto simp: unsat_def op_inv_def nth_list_update)
    have fil: "filter (unsat ?ns) (n_dependents (?ns ! i)) = filter (unsat ns) (n_dependents (ns ! i))"
      unfolding deps using un ok il by (intro filter_cong) (auto simp: linked_ok_def)
    have pend: "(\<lambda>k. n_pending (?ns ! k)) = (\<lambda>k. n_pending (r_nodes r ! k))"
      using il len by (auto simp: nth_list_update fun_eq_iff)
    from unblock_ops_spec [OF sub u] fil pend
    have re: "recounted ?ns ns'" and ub: "unblock (filter (unsat ns) (n_dependents (ns ! i)))
        (\<lambda>k. n_pending (r_nodes r ! k)) (r_launched r) = (\<lambda>k. n_pending (ns' ! k), q)"
      by simp_all
    from ug.counters_complete [OF c i(1) isucc ub]
    have c': "ug.counters_ok ns (\<lambda>k. n_pending (ns' ! k)) q (r_succeeded r @ [i])"
      and q: "set (r_launched r) \<subseteq> set q" by auto
    have len': "length ns' = length ns" using re len by (simp add: recounted_def)
    define t where "t = op_settles i res e r"
    have r': "r_nodes t = ns'" "r_launched t = q" "r_answer t = r_answer r"
      "r_returned t = insert i (r_returned r)" "r_succeeded t = r_succeeded r @ [i]"
      "r_grp_err t = r_grp_err r"
      using None u by (simp_all add: t_def op_settles_def Let_def)
    have nodes: "n_op (ns' ! k) = n_op (ns ! k) \<and> n_dependents (ns' ! k) = n_dependents (ns ! k)
        \<and> n_satisfied (ns' ! k) = n_satisfied (ns ! k) \<and> ran_node t (ns ! k) k" if k: "k < length ns" for k
    proof -
      have "k < length ?ns" using k len by simp
      note f = recounted_fields [OF re this]
      have old: "n_op (r_nodes r ! k) = n_op (ns ! k)" "n_dependents (r_nodes r ! k) = n_dependents (ns ! k)"
        "n_satisfied (r_nodes r ! k) = n_satisfied (ns ! k)" "ran_node r (ns ! k) k"
        using inv k by (auto simp: op_inv_def)
      show ?thesis
      proof (cases "k = i")
        case True
        then show ?thesis using old il len i(2) None f by (simp add: ran_node_def r' Let_def)
      next
        case False
        then have "?ns ! k = r_nodes r ! k" by simp
        with False old f show ?thesis by (simp add: ran_node_def r' Let_def)
      qed
    qed
    have "r_grp_err r = None \<longleftrightarrow> insert i (r_returned r) = set (r_succeeded r @ [i])"
      using inv isucc i(3) by (simp add: op_inv_def insert_ident)
    moreover have "insert i (r_returned r) \<subseteq> set q" "set (r_succeeded r @ [i]) \<subseteq> insert i (r_returned r)"
      "insert i (r_returned r) \<subseteq> dom (r_answer r)" "dom (r_answer r) \<subseteq> set q"
      using inv i q by (auto simp: op_inv_def)
    ultimately show ?thesis
      unfolding t_def [symmetric] op_inv_def r' using nodes c' len' by blast
  qed
qed

lemma op_trans_inv: "op_trans s r r' \<Longrightarrow> op_inv ns r \<Longrightarrow> linked_ok ns \<Longrightarrow> op_inv ns r'"
  by (induction rule: op_trans.induct) (auto intro: op_inv_executes op_inv_settles)

lemma op_reach_inv: "op_reach s ns r \<Longrightarrow> linked_ok ns \<Longrightarrow> op_inv ns r"
  by (induction rule: op_reach.induct) (auto intro: op_inv_start op_trans_inv)

end
