(* ===== verification/Op_Reports.thy ===== *)
theory Op_Reports
  imports Op_Scheduler
begin

text \<open>
  What a step's run ends in: it always ends, every op then has an outcome, the report is
  valid and its counters add up, and the step has an error exactly when an op failed or was
  aborted.
\<close>

section \<open>Reports\<close>

definition op_report :: "opNode \<Rightarrow> OpReport" where
  "op_report n = \<lparr>or_op = n_op n, or_outcome = n_outcome n, or_result = n_result n, or_err = n_err n\<rparr>"

definition with_outcome :: "OpOutcome \<Rightarrow> opNode list \<Rightarrow> nat" where
  "with_outcome oc ns = length (filter (\<lambda>n. n_outcome n = oc) ns)"

definition changed_ops :: "opNode list \<Rightarrow> nat" where
  "changed_ops ns = length (filter (\<lambda>n. n_outcome n = OpSucceeded
     \<and> (case n_result n of Some r \<Rightarrow> res_changed r | None \<Rightarrow> False)) ns)"

definition summary_of :: "opNode list \<Rightarrow> StepSummary" where
  "summary_of ns =
     \<lparr>sum_Total = length ns, sum_Succeeded = with_outcome OpSucceeded ns,
      sum_Failed = with_outcome OpFailed ns, sum_Aborted = with_outcome OpAborted ns,
      sum_Skipped = with_outcome OpSkipped ns, sum_Changed = changed_ops ns,
      sum_WouldChange = with_outcome OpWouldChange ns\<rparr>"

definition closed_node :: "opNode \<Rightarrow> bool" where
  "closed_node n \<longleftrightarrow> n_outcome n \<noteq> opOutcomeUnknown \<and> validateOpReport (op_report n) = None"

lemma summary_of_snoc:
  "count_outcome (summary_of ns) (n_outcome n) (n_result n) = summary_of (ns @ [n])"
  by (cases "n_outcome n"; cases "n_result n")
    (auto simp: count_outcome_def summary_of_def with_outcome_def changed_ops_def Let_def)

lemma report_ops_ok:
  assumes "list_all closed_node ns" and "sr_summary rep = summary_of ms" and "sr_ops rep = map op_report ms"
  shows "\<exists>rep'. report_ops ns rep = Inr rep' \<and> sr_step rep' = sr_step rep
     \<and> sr_ops rep' = map op_report (ms @ ns) \<and> sr_summary rep' = summary_of (ms @ ns)"
  using assms
proof (induction ns arbitrary: rep ms)
  case Nil
  then show ?case by simp
next
  case (Cons n ns)
  let ?rep = "rep\<lparr>sr_ops := sr_ops rep @ [op_report n],
      sr_summary := count_outcome (sr_summary rep) (n_outcome n) (n_result n)\<rparr>"
  have "sr_summary ?rep = summary_of (ms @ [n])" "sr_ops ?rep = map op_report (ms @ [n])"
    using Cons.prems by (simp_all add: summary_of_snoc)
  from Cons.IH [OF _ this] Cons.prems show ?case
    by (auto simp: closed_node_def op_report_def)
qed

lemma buildStepReport_ok:
  assumes "list_all closed_node ns"
  shows "buildStepReport act ns =
     Inr \<lparr>sr_step = Some act, sr_ops = map op_report ns, sr_summary = summary_of ns\<rparr>"
proof -
  have "zero_summary = summary_of []"
    by (simp add: zero_summary_def summary_of_def with_outcome_def changed_ops_def)
  then obtain rep where "buildStepReport act ns = Inr rep" "sr_step rep = Some act"
    "sr_ops rep = map op_report ns" "sr_summary rep = summary_of ns"
    using report_ops_ok [OF assms, of "\<lparr>sr_step = Some act, sr_ops = [], sr_summary = zero_summary\<rparr>" "[]"]
    by (auto simp: buildStepReport_def)
  then show ?thesis by (cases rep) simp
qed

text \<open>The report, the error and the summary a step closes with.\<close>

definition closed_ok :: "opNode list \<Rightarrow> Step \<Rightarrow> err option \<Rightarrow> step_result \<Rightarrow> bool" where
  "closed_ok ns act e R \<longleftrightarrow>
     (\<exists>rep e' evs. R = Inr (rep, e', evs) \<and> sr_step rep = Some act \<and> sr_ops rep = map op_report ns
        \<and> sr_summary rep = summary_of ns \<and> (e' = None \<longleftrightarrow> e = None))"

lemma close_step_ok:
  assumes "list_all closed_node ns"
  shows "closed_ok ns act e (close_step s act ns e)"
proof -
  have "\<not> list_ex (\<lambda>n. n_outcome n = opOutcomeUnknown) ns"
    using assms by (auto simp: list_ex_iff list_all_iff closed_node_def)
  then show ?thesis
    using buildStepReport_ok [OF assms]
    by (auto simp: closed_ok_def close_step_def step_error_def Let_def split: option.split prod.split)
qed

lemma closed_ok_prefix [simp]: "closed_ok ns act e (prefix_events evs R) = closed_ok ns act e R"
  by (cases R) (auto simp: closed_ok_def)

section \<open>Closing the nodes\<close>

lemma closed_checked:
  assumes "node_checked s (e \<noteq> None) n"
  shows "closed_node (mark_checked e n)"
  using assms
  by (cases "n_outcome n"; cases e)
    (auto simp: node_checked_def mark_checked_def closed_node_def validateOpReport_def op_report_def)

lemma closed_checked_all:
  assumes "\<And>i. i < length ns \<Longrightarrow> node_checked s (e \<noteq> None) (ns ! i)"
  shows "list_all closed_node (map (mark_checked e) ns)"
  unfolding list_all_length
proof (intro allI impI)
  fix i assume "i < length (map (mark_checked e) ns)"
  then show "closed_node (map (mark_checked e) ns ! i)" using closed_checked [OF assms] by simp
qed

lemma closed_aborted_check:
  assumes "node_checked s True n" and "sc_provided s = {}"
  shows "closed_node (mark_aborted (Some e) n)"
  using assms
  by (cases "n_outcome n")
    (auto simp: node_checked_def mark_aborted_def closed_node_def validateOpReport_def op_report_def)

lemma mark_op [simp]: "n_op (mark_checked e n) = n_op n" "n_op (mark_aborted e n) = n_op n"
  by (auto simp: mark_checked_def mark_aborted_def split: option.split)

text \<open>A check that fails leaves its op aborted or without an outcome.\<close>

lemma check_one_failed:
  assumes "check_one s n ans = (n', evs, Some e)" and "fresh n"
  shows "n_outcome n' \<in> {OpAborted, opOutcomeUnknown}"
  using assms
  by (cases ans) (auto simp: check_one_def fresh_def split: option.splits prod.splits if_splits)

lemma map_n_op_eq:
  "length ns' = length ns \<Longrightarrow> (\<And>i. i < length ns \<Longrightarrow> n_op (ns' ! i) = n_op (ns ! i)) \<Longrightarrow>
     map n_op ns' = map n_op ns"
  by (simp add: list_eq_iff_nth_eq)

lemma with_outcome_0: "with_outcome oc ns = 0 \<longleftrightarrow> (\<forall>n \<in> set ns. n_outcome n \<noteq> oc)"
  by (auto simp: with_outcome_def filter_empty_conv)

lemma outcomes_add_up:
  "list_all closed_node ns \<Longrightarrow> length ns = with_outcome OpSucceeded ns + with_outcome OpFailed ns
     + with_outcome OpAborted ns + with_outcome OpSkipped ns + with_outcome OpWouldChange ns"
proof (induction ns)
  case (Cons n ns)
  then show ?case by (cases "n_outcome n") (auto simp: with_outcome_def closed_node_def)
qed (simp add: with_outcome_def)

lemma permutation_upt:
  assumes "mset order = mset [0..<n]"
  shows "distinct order" "set order = {..<n}"
  using assms by (metis distinct_upt mset_eq_imp_distinct_iff, metis atLeast_upt mset_eq_setD)

text \<open>The check phase returned an error exactly when some op will count as aborted.\<close>

lemma runChecks_error:
  assumes run: "runChecks s answers order (ns, evs, None) = (ns', evs', e)"
    and perm: "mset order = mset [0..<length ns]" and fresh: "list_all fresh ns"
  shows "e \<noteq> None \<longleftrightarrow> with_outcome OpAborted (map (mark_checked e) ns') > 0"
proof -
  note p = permutation_upt [OF perm]
  from runChecks_spec [OF run p(1)] p(2) have len: "length ns' = length ns"
    and nodes: "\<And>i. i < length ns \<Longrightarrow> ns' ! i = fst (check_one s (ns ! i) (answers i))"
    and err: "e = None \<longleftrightarrow> (\<forall>i < length ns. snd (snd (check_one s (ns ! i) (answers i))) = None)" by auto
  show ?thesis
  proof
    assume "e \<noteq> None"
    then obtain i e' where i: "i < length ns" "snd (snd (check_one s (ns ! i) (answers i))) = Some e'"
      using err by auto
    have "n_outcome (ns' ! i) \<in> {OpAborted, opOutcomeUnknown}"
      using check_one_failed [of s "ns ! i" "answers i" "ns' ! i" _ e'] i nodes fresh
      by (metis list_all_length prod.collapse)
    then have "n_outcome (mark_checked e (ns' ! i)) = OpAborted"
      using \<open>e \<noteq> None\<close> by (auto simp: mark_checked_def)
    moreover have "mark_checked e (ns' ! i) \<in> set (map (mark_checked e) ns')" using i(1) len by simp
    ultimately show "with_outcome OpAborted (map (mark_checked e) ns') > 0"
      using with_outcome_0 by (metis neq0_conv)
  next
    assume "with_outcome OpAborted (map (mark_checked e) ns') > 0"
    then obtain i where i: "i < length ns'" "n_outcome (mark_checked e (ns' ! i)) = OpAborted"
      using with_outcome_0 [of OpAborted "map (mark_checked e) ns'"] by (auto simp: in_set_conv_nth)
    have "node_checked s (e \<noteq> None) (ns' ! i)"
      using runChecks_nodes [OF run perm fresh] i(1) by auto
    with i(2) show "e \<noteq> None"
      by (cases e) (auto simp: mark_checked_def node_checked_def split: if_splits OpOutcome.splits)
  qed
qed

section \<open>A predicted step\<close>

lemma plan_fresh: "plan_ok ops ns \<Longrightarrow> list_all fresh ns" "plan_ok ops ns \<Longrightarrow> linked_ok ns"
  "plan_ok ops ns \<Longrightarrow> map n_op ns = ops" "plan_ok ops ns \<Longrightarrow> length ns = length ops"
  by (auto simp: plan_ok_def)

lemma buildPlan_Inr: "ops_ok ops \<Longrightarrow> \<exists>ns. buildPlan ops = Inr ns \<and> plan_ok ops ns"
  using buildPlan_spec [of ops] by (auto split: sum.splits)

lemma checked_plan:
  assumes plan: "plan_ok ops ns" and run: "runChecks s answers order (ns, evs, None) = (ns', evs', e)"
    and perm: "mset order = mset [0..<length ns]"
  shows "linked_ok ns'" "map n_op ns' = ops" "op_edges ns' = op_edges ns" "length ns' = length ns"
    "\<And>i. i < length ns \<Longrightarrow> node_checked s (e \<noteq> None) (ns' ! i)"
proof -
  note c = runChecks_nodes [OF run perm plan_fresh(1) [OF plan]]
  then show len: "length ns' = length ns" and "\<And>i. i < length ns \<Longrightarrow> node_checked s (e \<noteq> None) (ns' ! i)"
    by auto
  have same: "n_op (ns' ! i) = n_op (ns ! i)" "n_deps (ns' ! i) = n_deps (ns ! i)"
    "n_dependents (ns' ! i) = n_dependents (ns ! i)" "n_indegree (ns' ! i) = n_indegree (ns ! i)"
    if "i < length ns" for i
    using c that by (auto simp: same_plan_def)
  show "map n_op ns' = ops"
    using map_n_op_eq [OF len same(1)] plan_fresh(3) [OF plan] by simp
  show "op_edges ns' = op_edges ns" using same(2) len by (auto simp: op_edges_def)
  show "linked_ok ns'"
    using plan_fresh(2) [OF plan] unfolding linked_ok_def len by (simp add: same)
qed

definition step_report_ok :: "Step \<Rightarrow> step_result \<Rightarrow> bool" where
  "step_report_ok act R \<longleftrightarrow>
     (\<exists>rep e evs. R = Inr (rep, e, evs) \<and> sr_step rep = Some act
        \<and> map or_op (sr_ops rep) = step_ops act
        \<and> list_all (\<lambda>r. validateOpReport r = None) (sr_ops rep)
        \<and> sum_Total (sr_summary rep) = length (step_ops act)
        \<and> sum_Total (sr_summary rep) = sum_Succeeded (sr_summary rep) + sum_Failed (sr_summary rep)
            + sum_Aborted (sr_summary rep) + sum_Skipped (sr_summary rep) + sum_WouldChange (sr_summary rep)
        \<and> (e = None \<longleftrightarrow> sum_Failed (sr_summary rep) + sum_Aborted (sr_summary rep) = 0))"

lemma closed_ok_report:
  assumes "closed_ok ns act e R" and "list_all closed_node ns" and "map n_op ns = step_ops act"
    and "e = None \<longleftrightarrow> with_outcome OpFailed ns + with_outcome OpAborted ns = 0"
  shows "step_report_ok act R"
proof -
  from assms(1) obtain rep e' evs where R: "R = Inr (rep, e', evs)" "sr_step rep = Some act"
    "sr_ops rep = map op_report ns" "sr_summary rep = summary_of ns" "e' = None \<longleftrightarrow> e = None"
    by (auto simp: closed_ok_def)
  have "length ns = length (step_ops act)" using assms(3) by (metis length_map)
  moreover have "map or_op (map op_report ns) = step_ops act"
    using assms(3) by (simp add: op_report_def comp_def)
  moreover have "list_all (\<lambda>r. validateOpReport r = None) (map op_report ns)"
    using assms(2) by (auto simp: list_all_iff closed_node_def)
  ultimately show ?thesis
    unfolding step_report_ok_def using R assms(4) outcomes_add_up [OF assms(2)]
    by (intro exI [of _ rep] exI [of _ e'] exI [of _ evs]) (simp add: summary_of_def)
qed

lemma runCheckStep_report:
  assumes ok: "ops_ok (step_ops act)" and perm: "mset order = mset [0..<length (step_ops act)]"
  shows "step_report_ok act (runCheckStep deploy idx act up hookID answers order)"
proof -
  obtain ns where b: "buildPlan (step_ops act) = Inr ns" and plan: "plan_ok (step_ops act) ns"
    using buildPlan_Inr [OF ok] by blast
  let ?s = "new_scheduler deploy idx act hookID True up"
  have perm': "mset order = mset [0..<length ns]" using perm plan_fresh(4) [OF plan] by simp
  obtain ns' evs e where r: "runChecks ?s answers order (ns, emitBegin ?s, None) = (ns', evs, e)"
    by (metis prod_cases3)
  note c = checked_plan [OF plan r perm']
  let ?ns = "map (mark_checked e) ns'"
  have closed: "list_all closed_node ?ns"
    by (rule closed_checked_all) (use c(4,5) in simp)
  have "n_outcome (ns' ! i) \<noteq> OpFailed" if "i < length ns'" for i
    using c(5) [of i] that c(4) by (auto simp: node_checked_def)
  then have "with_outcome OpFailed ?ns = 0"
    unfolding with_outcome_0
    by (auto simp: in_set_conv_nth mark_checked_def split: option.splits if_splits)
  moreover note runChecks_error [OF r perm' plan_fresh(1) [OF plan]]
  ultimately have err: "e = None \<longleftrightarrow> with_outcome OpFailed ?ns + with_outcome OpAborted ?ns = 0" by auto
  have "runCheckStep deploy idx act up hookID answers order =
      prefix_events evs (close_step ?s act ?ns e)"
    using b r by (simp add: runCheckStep_def Let_def)
  moreover have "map n_op ?ns = step_ops act" using c(2) by (simp add: comp_def)
  ultimately show ?thesis
    using closed_ok_report [OF _ closed _ err] close_step_ok [OF closed] by simp
qed

section \<open>An executed step\<close>

lemma op_reach_done:
  assumes inv: "op_inv ns r" and ok: "linked_ok ns" and acy: "acyclic (op_edges ns)"
    and w: "op_wait_done r" and none: "r_grp_err r = None"
  shows "set (r_succeeded r) = {i. i < length ns \<and> unsat ns i}"
proof -
  have c: "ug.counters_ok ns (\<lambda>k. n_pending (r_nodes r ! k)) (r_launched r) (r_succeeded r)"
    and "set (r_launched r) \<subseteq> set (r_succeeded r)"
    using inv w none by (auto simp: op_inv_def op_wait_done_def)
  moreover have "acyclic {(d, n). n \<in> unsat_nodes ns \<and> d \<in> set (filter (unsat ns) (n_deps (ns ! n)))}"
    by (rule acyclic_subset [OF acy]) (auto simp: op_edges_def unsat_nodes_def split: if_splits)
  ultimately show ?thesis using ug.all_complete [OF c] ok by (simp add: unsat_nodes_def)
qed

lemma runStep_report_executed:
  assumes plan: "plan_ok (step_ops act) ns" and perm: "mset order = mset [0..<length ns]"
    and s: "sc_provided s = {}"
    and run: "runChecks s answers order (ns, evs0, None) = (ns', evs, None)"
    and reach: "op_reach s ns' r" and w: "op_wait_done r"
  shows "step_report_ok act (prefix_events evs'
     (close_step s act (map (mark_aborted (r_grp_err r)) (r_nodes r)) (r_grp_err r)))"
proof -
  note c = checked_plan [OF plan run perm]
  have inv: "op_inv ns' r" by (rule op_reach_inv [OF reach c(1)])
  then have len: "length (r_nodes r) = length ns'" by (simp add: op_inv_def)
  have node: "ran_node r (ns' ! i) i" "n_op (r_nodes r ! i) = n_op (ns' ! i)"
    if "i < length ns'" for i using inv that by (auto simp: op_inv_def)
  have chk: "n_result (ns' ! i) = None \<and> n_err (ns' ! i) = None
      \<and> n_outcome (ns' ! i) = (if unsat ns' i then opOutcomeUnknown else OpSkipped)" if "i < length ns'" for i
    using c(5) [of i] that c(4) s by (auto simp: node_checked_def unsat_def split: OpOutcome.splits)
  let ?e = "r_grp_err r"
  let ?ns = "map (mark_aborted ?e) (r_nodes r)"
  have succ: "i \<in> set (r_succeeded r) \<Longrightarrow> i \<in> r_returned r" for i using inv by (auto simp: op_inv_def)
  have fin: "unsat ns' i \<Longrightarrow> i \<in> set (r_succeeded r)" if "?e = None" "i < length ns'" for i
    using op_reach_done [OF inv c(1) _ w that(1)] that(2) plan c(3) by (auto simp: plan_ok_def)
  have only: "?e = None \<Longrightarrow> i \<in> r_returned r \<Longrightarrow> i \<in> set (r_succeeded r)" for i
    using inv by (simp add: op_inv_def)
  have kinds: "closed_node (mark_aborted ?e (r_nodes r ! i))
      \<and> (?e = None \<longrightarrow> n_outcome (mark_aborted ?e (r_nodes r ! i)) \<notin> {OpFailed, OpAborted})"
    if i: "i < length ns'" for i
  proof -
    note defs = mark_aborted_def closed_node_def validateOpReport_def op_report_def
    consider (ok) "i \<in> r_returned r" "i \<in> set (r_succeeded r)"
      | (failed) "i \<in> r_returned r" "i \<notin> set (r_succeeded r)"
      | (untouched) "i \<notin> r_returned r" "i \<notin> set (r_succeeded r)" using succ by blast
    then show ?thesis
    proof cases
      case ok
      with node(1) [OF i] show ?thesis by (cases ?e) (auto simp: ran_node_def Let_def defs)
    next
      case failed
      with only have "?e \<noteq> None" by blast
      with node(1) [OF i] failed show ?thesis by (auto simp: ran_node_def Let_def defs)
    next
      case untouched
      with node(1) [OF i] chk [OF i] have n: "n_result (r_nodes r ! i) = None" "n_err (r_nodes r ! i) = None"
        "n_outcome (r_nodes r ! i) = (if unsat ns' i then opOutcomeUnknown else OpSkipped)"
        by (auto simp: ran_node_def Let_def)
      show ?thesis
      proof (cases "unsat ns' i")
        case True
        with fin [OF _ i] untouched have "?e \<noteq> None" by blast
        with n True show ?thesis by (auto simp: defs)
      qed (use n in \<open>cases ?e; simp add: defs\<close>)
    qed
  qed
  then have closed: "list_all closed_node ?ns" using len by (simp add: list_all_length)
  have err: "?e = None \<longleftrightarrow> with_outcome OpFailed ?ns + with_outcome OpAborted ?ns = 0"
  proof
    assume "?e = None"
    then have "\<forall>n \<in> set ?ns. n_outcome n \<noteq> OpFailed \<and> n_outcome n \<noteq> OpAborted"
      using kinds len by (fastforce simp: in_set_conv_nth)
    then have "with_outcome OpFailed ?ns = 0" "with_outcome OpAborted ?ns = 0"
      unfolding with_outcome_0 by blast+
    then show "with_outcome OpFailed ?ns + with_outcome OpAborted ?ns = 0" by simp
  next
    assume z: "with_outcome OpFailed ?ns + with_outcome OpAborted ?ns = 0"
    show "?e = None"
    proof (rule ccontr)
      assume "?e \<noteq> None"
      then have "r_returned r \<noteq> set (r_succeeded r)" using inv by (auto simp: op_inv_def)
      then obtain i where i: "i \<in> r_returned r" "i \<notin> set (r_succeeded r)" using succ by blast
      have "i < length ns'"
      proof -
        have "ug.counters_ok ns' (\<lambda>k. n_pending (r_nodes r ! k)) (r_launched r) (r_succeeded r)"
          "i \<in> set (r_launched r)" using inv i(1) unfolding op_inv_def by blast+
        with ug_launched(1) show ?thesis by blast
      qed
      with node(1) [of i] have "n_outcome (r_nodes r ! i) = OpFailed"
        using i by (auto simp: ran_node_def Let_def)
      then have "n_outcome (mark_aborted ?e (r_nodes r ! i)) = OpFailed"
        by (simp add: mark_aborted_def split: option.split)
      moreover have "mark_aborted ?e (r_nodes r ! i) \<in> set ?ns" using \<open>i < length ns'\<close> len by simp
      ultimately have "with_outcome OpFailed ?ns \<noteq> 0" unfolding with_outcome_0 by blast
      with z show False by simp
    qed
  qed
  have "map n_op (r_nodes r) = map n_op ns'" by (rule map_n_op_eq [OF len]) (use node in simp)
  then have "map n_op ?ns = step_ops act" using c(2) by (simp add: comp_def)
  then show ?thesis
    using closed_ok_report [OF _ closed _ err] close_step_ok [OF closed] by simp
qed

lemma runStep_report:
  assumes run: "runStep deploy idx act hookID R" and ok: "ops_ok (step_ops act)"
  shows "step_report_ok act R"
  using run
proof cases
  case (plan_panics p)
  with buildPlan_Inr [OF ok] show ?thesis by auto
next
  case (checks_fail ns s order answers ns' evs e)
  have plan: "plan_ok (step_ops act) ns" using buildPlan_Inr [OF ok] checks_fail(2) by auto
  have s: "sc_provided s = {}" using checks_fail(3) by (simp add: new_scheduler_def)
  note c = checked_plan [OF plan checks_fail(5,4)]
  let ?ns = "map (mark_aborted (Some e)) ns'"
  have same: "?ns = map (mark_checked (Some e)) ns'" by (simp add: mark_aborted_def mark_checked_def)
  have closed: "list_all closed_node ?ns"
    unfolding same by (rule closed_checked_all) (use c(4,5) in simp)
  have "with_outcome OpAborted ?ns > 0"
    unfolding same using runChecks_error [OF checks_fail(5,4) plan_fresh(1) [OF plan]] by simp
  then show ?thesis
    using closed_ok_report [of ?ns act "Some e"] close_step_ok [OF closed] closed c(2) checks_fail(1)
    by (simp add: comp_def)
next
  case (executed ns s order answers ns' evs r)
  have plan: "plan_ok (step_ops act) ns" using buildPlan_Inr [OF ok] executed(2) by auto
  have s: "sc_provided s = {}" using executed(3) by (simp add: new_scheduler_def)
  show ?thesis unfolding executed(1)
    by (rule runStep_report_executed [OF plan executed(4) s executed(5,6,7)])
qed

section \<open>Order, termination\<close>

text \<open>An op is only executed once its unsatisfied dependencies have succeeded.\<close>

lemma op_launched_deps:
  assumes "op_inv ns r" and "linked_ok ns" and "r_answer r i \<noteq> None" and "d \<in> set (n_deps (ns ! i))"
  shows "unsat ns i" "unsat ns d \<Longrightarrow> d \<in> set (r_succeeded r)"
proof -
  have c: "ug.counters_ok ns (\<lambda>k. n_pending (r_nodes r ! k)) (r_launched r) (r_succeeded r)"
    and i: "i \<in> set (r_launched r)" using assms(1,3) by (auto simp: op_inv_def)
  show "unsat ns i" using ug_launched(1) [OF c] i by auto
  show "d \<in> set (r_succeeded r)" if "unsat ns d"
    using ug.launched_deps [OF c i] assms(4) that by auto
qed

definition op_moves :: "opNode list \<Rightarrow> op_run \<Rightarrow> nat" where
  "op_moves ns r = card ({..<length ns} - dom (r_answer r)) + card ({..<length ns} - r_returned r)"

lemma card_Diff_insert_less:
  "i < n \<Longrightarrow> i \<notin> A \<Longrightarrow> card ({..<n} - insert i A) < card ({..<n} - (A :: nat set))"
  by (intro psubset_card_mono) auto

lemma op_trans_moves:
  assumes "op_trans s r r'" and inv: "op_inv ns r"
  shows "op_moves ns r' < op_moves ns r"
proof -
  have il: "i < length ns" if "i \<in> set (r_launched r)" for i
    using inv that ug_launched(1) [of ns _ "r_launched r"] by (auto simp: op_inv_def)
  from assms(1) show ?thesis
  proof cases
    case (executes i res e)
    then have "dom (r_answer r') = insert i (dom (r_answer r))" "r_returned r' = r_returned r"
      "i \<notin> dom (r_answer r)" by (auto simp: op_executes_def)
    then show ?thesis using card_Diff_insert_less [OF il] executes by (simp add: op_moves_def)
  next
    case (settles i res e)
    then have "dom (r_answer r') = dom (r_answer r)" "r_returned r' = insert i (r_returned r)"
      by (auto simp: op_settles_def Let_def split: option.split prod.split)
    then show ?thesis using card_Diff_insert_less [OF il] settles by (simp add: op_moves_def)
  qed
qed

lemma op_progress:
  assumes "\<not> op_wait_done r"
  shows "\<exists>r'. op_trans s r r'"
proof -
  from assms obtain i where i: "i \<in> set (r_launched r)" "i \<notin> r_returned r"
    by (auto simp: op_wait_done_def)
  show ?thesis
  proof (cases "r_answer r i")
    case None
    with i show ?thesis by (blast intro: op_trans.executes)
  next
    case (Some a)
    then obtain res e where "r_answer r i = Some (res, e)" by (cases a) auto
    with i show ?thesis by (blast intro: op_trans.settles)
  qed
qed

lemma op_run_ends:
  assumes "op_reach s ns r" and ok: "linked_ok ns"
  shows "\<exists>r'. op_reach s ns r' \<and> op_wait_done r'"
  using assms(1)
proof (induction "op_moves ns r" arbitrary: r rule: less_induct)
  case less
  show ?case
  proof (cases "op_wait_done r")
    case False
    then obtain r' where t: "op_trans s r r'" using op_progress by blast
    with less.prems have "op_reach s ns r'" using op_reach.op_step by blast
    moreover have "op_moves ns r' < op_moves ns r"
      using op_trans_moves [OF t] op_reach_inv [OF less.prems ok] by blast
    ultimately show ?thesis using less.hyps by blast
  qed (use less.prems in blast)
qed

lemma runStep_returns: "\<exists>R. runStep deploy idx act hookID R"
proof (cases "buildPlan (step_ops act)")
  case (Inl p)
  then show ?thesis by (blast intro: runStep.plan_panics)
next
  case (Inr ns)
  let ?s = "new_scheduler deploy idx act hookID False {}"
  have plan: "plan_ok (step_ops act) ns" using buildPlan_spec [of "step_ops act"] Inr by simp
  obtain ns' evs e where r: "runChecks ?s (\<lambda>_. (CheckUnsatisfied, [], None)) [0..<length ns]
      (ns, emitBegin ?s, None) = (ns', evs, e)" by (metis prod_cases3)
  show ?thesis
  proof (cases e)
    case None
    obtain t where "op_reach ?s ns' t" "op_wait_done t"
      using op_run_ends [OF op_reach.op_start] checked_plan(1) [OF plan r refl] by blast
    with Inr r None show ?thesis by (blast intro: runStep.executed)
  next
    case (Some e')
    with Inr r show ?thesis by (blast intro: runStep.checks_fail)
  qed
qed

section \<open>Properties\<close>

definition two_ops :: "Step" where
  "two_ops = bare_step\<lparr>step_ops := [
     \<lparr>op_id = 7, op_display = ''mode'', op_deps = [9], op_caps = FileMode\<rparr>,
     \<lparr>op_id = 9, op_display = ''write'', op_deps = [], op_caps = Filesystem\<rparr>]\<rparr>"

lemma two_ops_ok: "ops_ok (step_ops two_ops)"
proof -
  have "\<not> isl (buildPlan (step_ops two_ops))" by code_simp
  then show ?thesis using buildPlan_spec [of "step_ops two_ops"] by (auto split: sum.splits)
qed

text \<open>C12: while a step executes, Execute is only called for ops whose check found them unsatisfied,
  and only when each op they depend on was satisfied or has succeeded.\<close>

theorem op_runs_after_dependencies:
  assumes "buildPlan (step_ops act) = Inr ns" and "mset order = mset [0..<length ns]"
    and "runChecks s answers order (ns, evs0, None) = (ns', evs, None)"
    and "op_reach s ns' r" and "r_answer r i \<noteq> None"
  shows "\<not> n_satisfied (ns' ! i)
    \<and> (\<forall>d \<in> set (n_deps (ns' ! i)). n_satisfied (ns' ! d) \<or> d \<in> set (r_succeeded r))"
proof -
  have plan: "plan_ok (step_ops act) ns" using buildPlan_spec [of "step_ops act"] assms(1) by simp
  note lk = checked_plan(1) [OF plan assms(3,2)]
  have inv: "op_inv ns' r" by (rule op_reach_inv [OF assms(4) lk])
  then have c: "ug.counters_ok ns' (\<lambda>k. n_pending (r_nodes r ! k)) (r_launched r) (r_succeeded r)"
    and i: "i \<in> set (r_launched r)" using assms(5) by (auto simp: op_inv_def)
  then have "unsat ns' i" using ug_launched(1) by blast
  moreover have "d \<in> set (r_succeeded r)" if "d \<in> set (n_deps (ns' ! i))" "unsat ns' d" for d
    using op_launched_deps(2) [OF inv lk assms(5) that] .
  ultimately show ?thesis by (auto simp: unsat_def)
qed

definition apply_sched :: scheduler where
  "apply_sched = new_scheduler \<lparr>dr_Name = [], dr_Ordinal = 0, dr_MaxNameWidth = 0, dr_RunTotalSteps = 1\<rparr>
     0 two_ops [] False {}"

definition checked_two :: "opNode list" where
  "checked_two = (case buildPlan (step_ops two_ops) of Inl _ \<Rightarrow> []
     | Inr ns \<Rightarrow> fst (runChecks apply_sched (\<lambda>_. (CheckUnsatisfied, [], None)) [1, 0] (ns, [], None)))"

lemma checked_two_code:
  "map n_satisfied checked_two = [False, False]" "map n_deps checked_two = [[1], []]"
  "map n_dependents checked_two = [[], [0]]"
  by code_simp+

lemma op_runs_after_dependencies_witness:
  "\<exists>r. op_reach apply_sched checked_two r \<and> r_answer r 1 = Some (\<lparr>res_changed = True\<rparr>, None)
     \<and> \<not> n_satisfied (checked_two ! 1)"
proof -
  obtain ns where b: "buildPlan (step_ops two_ops) = Inr ns" and p: "plan_ok (step_ops two_ops) ns"
    using buildPlan_Inr [OF two_ops_ok] by blast
  have len: "length ns = 2" using plan_fresh(4) [OF p] by (simp add: two_ops_def)
  let ?run = "runChecks apply_sched (\<lambda>_. (CheckUnsatisfied, [], None)) [1, 0] (ns, [], None)"
  have "snd (snd ?run) = None"
    by (simp add: check_one_def settle_check_def Let_def split: prod.split)
  moreover have "fst ?run = checked_two" by (simp add: checked_two_def b)
  ultimately have run: "?run = (checked_two, fst (snd ?run), None)" by (metis prod.collapse)
  let ?r = "start_ops checked_two"
  have "1 \<in> set (r_launched ?r)" by code_simp
  moreover have "r_answer ?r 1 = None" by (simp add: start_ops_def Let_def)
  ultimately have t: "op_trans apply_sched ?r (op_executes apply_sched 1 \<lparr>res_changed = True\<rparr> None ?r)"
    by (rule op_trans.executes)
  let ?r1 = "op_executes apply_sched 1 \<lparr>res_changed = True\<rparr> None ?r"
  have reach: "op_reach apply_sched checked_two ?r1" by (rule op_reach.op_step [OF op_reach.op_start t])
  have ans: "r_answer ?r1 1 = Some (\<lparr>res_changed = True\<rparr>, None)" by (simp add: op_executes_def)
  have "\<not> n_satisfied (checked_two ! 1)"
    using op_runs_after_dependencies [OF b _ run reach, of 1] ans len by (simp add: upt_rec)
  with reach ans show ?thesis by blast
qed

text \<open>Executing a step whose ops are well formed never ends in a panic: every run that returns
  has a valid report with an outcome for every op, counters that add up, and an error exactly when
  some op failed or was aborted; and some run returns.\<close>

theorem runStep_never_panics:
  assumes "ops_ok (step_ops act)"
  shows "(\<exists>R. runStep deploy idx act hookID R)
    \<and> (\<forall>R. runStep deploy idx act hookID R \<longrightarrow> step_report_ok act R)"
  using runStep_returns runStep_report [OF _ assms] by blast

lemma runStep_never_panics_witness:
  "\<exists>R. runStep (sc_deploy apply_sched) 0 two_ops [] R \<and> step_report_ok two_ops R"
  using runStep_never_panics [OF two_ops_ok] by blast

text \<open>Predicting a step whose ops are well formed never panics either, whatever the checks answer
  and in whatever order they finish.\<close>

theorem runCheckStep_never_panics:
  assumes "ops_ok (step_ops act)" and "mset order = mset [0..<length (step_ops act)]"
  shows "step_report_ok act (runCheckStep deploy idx act up hookID answers order)"
  using runCheckStep_report [OF assms] .

lemma runCheckStep_never_panics_witness:
  "step_report_ok two_ops (runCheckStep (sc_deploy apply_sched) 0 two_ops {} []
     (\<lambda>i. if i = 0 then (CheckSatisfied, [], None) else (CheckUnknown, [], Some (PlainErr ''io''))) [1, 0])"
proof (rule runCheckStep_never_panics [OF two_ops_ok])
  have "length (step_ops two_ops) = 2" by (simp add: two_ops_def)
  then show "mset [1, 0] = mset [0..<length (step_ops two_ops)]" by (simp add: upt_rec)
qed

text \<open>The op scheduler always makes progress until every started op has returned, and every
  transition uses up one of at most twice as many moves as the step has ops.\<close>

theorem op_run_terminates:
  assumes "op_reach s ns r" and "linked_ok ns"
  shows "(\<forall>r'. op_trans s r r' \<longrightarrow> op_moves ns r' < op_moves ns r)
    \<and> (\<not> op_wait_done r \<longrightarrow> (\<exists>r'. op_trans s r r')) \<and> op_moves ns r \<le> 2 * length ns"
proof -
  have "card ({..<length ns} - A) \<le> length ns" for A :: "nat set"
    by (metis Diff_subset card_lessThan card_mono finite_lessThan)
  then have "op_moves ns r \<le> 2 * length ns"
    unfolding op_moves_def by (metis add_mono mult_2)
  then show ?thesis using op_trans_moves op_progress op_reach_inv [OF assms] by blast
qed

lemma op_run_terminates_witness:
  "\<exists>r. op_trans apply_sched (start_ops checked_two) r \<and> op_moves checked_two r < 4"
proof -
  have len: "length checked_two = 2" by code_simp
  have ok: "linked_ok checked_two"
  proof -
    obtain ns where b: "buildPlan (step_ops two_ops) = Inr ns" and p: "plan_ok (step_ops two_ops) ns"
      using buildPlan_Inr [OF two_ops_ok] by blast
    have "length ns = 2" using plan_fresh(4) [OF p] by (simp add: two_ops_def)
    then have m: "mset [1, 0] = mset [0..<length ns]" by (simp add: upt_rec)
    obtain evs e where "runChecks apply_sched (\<lambda>_. (CheckUnsatisfied, [], None)) [1, 0] (ns, [], None)
        = (checked_two, evs, e)" unfolding checked_two_def b sum.case by (metis prod.collapse)
    from checked_plan(1) [OF p this m] show ?thesis .
  qed
  have "\<not> op_wait_done (start_ops checked_two)" by code_simp
  moreover have "op_moves checked_two (start_ops checked_two) \<le> 4"
    using op_run_terminates [OF op_reach.op_start ok] len by simp
  ultimately show ?thesis
    using op_run_terminates [OF op_reach.op_start ok, of apply_sched] by (meson less_le_trans)
qed

end
