(* ===== verification/Declared.thy ===== *)
theory Declared
  imports Engine_Model
begin

text \<open>
  The configuration as the linker hands it to the engine (internal/spec/declared.go), the
  errors of internal/engine that carry a diagnostic, and the selection of (deploy, target)
  pairs in internal/engine/config.go.

  A declared step stands for what the engine can ask of it: the resources its kind declares
  for its config, its user labels, its hooks and its source spans. Its config value and what
  its kind plans from it are parameters of the planner.
\<close>

section \<open>Declared steps, targets and deploys\<close>

text \<open>
  The optional interfaces are \<open>None\<close> when the kind or the config does not implement them:
  StepKindResources and ConfigResources of a step, TargetKindResources of a target.
\<close>

record DeclaredStep =
  ds_ID :: nat
  ds_Desc :: string
  ds_Kind :: string
  ds_ProvidesFor :: "Resource list option"
  ds_Resources :: "(string list \<times> string list) option"
  ds_OnChange :: "string list"
  ds_Span :: Span
  ds_Fields :: "string \<rightharpoonup> FieldSpan"

record DeclaredTarget =
  dt_Kind :: string
  dt_RequiresFor :: "Resource list option"
  dt_Span :: Span

text \<open>Hooks are a Go map: an association list in the order one particular iteration gives.\<close>

type_synonym hooks = "(string \<times> DeclaredStep list) list"

record DeclaredDeploy =
  dd_Name :: string
  dd_Targets :: "string list"
  dd_Steps :: "DeclaredStep list"
  dd_Hooks :: hooks
  dd_Span :: Span

record DeclaredConfig =
  dc_Path :: string
  dc_Targets :: "string \<rightharpoonup> DeclaredTarget"
  dc_Deploy :: "DeclaredDeploy list"

record Config =
  cf_Path :: string
  cf_DeployName :: string
  cf_TargetName :: string
  cf_Target :: DeclaredTarget
  cf_Steps :: "DeclaredStep list"
  cf_Hooks :: hooks

record ResolveOptions =
  ro_DeployNames :: "string list"
  ro_TargetNames :: "string list"

fun find_deploy :: "string \<Rightarrow> DeclaredDeploy list \<Rightarrow> DeclaredDeploy option" where
  "find_deploy name [] = None"
| "find_deploy name (b # bs) = (if dd_Name b = name then Some b else find_deploy name bs)"

definition DeployByName :: "DeclaredConfig \<Rightarrow> string \<Rightarrow> DeclaredDeploy option" where
  "DeployByName c name = find_deploy name (dc_Deploy c)"

lemma find_deploy_Some: "find_deploy name bs = Some b \<Longrightarrow> b \<in> set bs \<and> dd_Name b = name"
  by (induction bs) (auto split: if_splits)


section \<open>Errors with a diagnostic\<close>

datatype engine_error =
    UnknownDeployBlockError string Span
  | NoDeployBlocksError Span
  | NoTargetsInDeployError string Span
  | UnknownTargetError string string Span
  | TargetNotInDeployError string string Span
  | UnknownHookError string string string Span
  | HookCycleError "string list" Span
  | MultipleProvidersError Resource "string list"
  | DeployCycleError "string list"
  | CyclicDependencyError "string list"
  | StepCyclicDependencyError "string list"
  | CapabilityMismatchError int string Capability Capability Capability Span
  | DuplicateResourceError Resource string string string string Span string string Span string
  | RefError string string "Span option"

fun error_code :: "engine_error \<Rightarrow> string" where
  "error_code (UnknownDeployBlockError _ _) = ''config.UnknownDeployBlock''"
| "error_code (NoDeployBlocksError _) = ''config.NoDeployBlocks''"
| "error_code (NoTargetsInDeployError _ _) = ''config.NoTargetsInDeploy''"
| "error_code (UnknownTargetError _ _ _) = ''config.UnknownTarget''"
| "error_code (TargetNotInDeployError _ _ _) = ''config.TargetNotInDeploy''"
| "error_code (UnknownHookError _ _ _ _) = ''engine.UnknownHook''"
| "error_code (HookCycleError _ _) = ''engine.HookCycle''"
| "error_code (MultipleProvidersError _ _) = ''engine.MultipleProviders''"
| "error_code (DeployCycleError _) = ''engine.DeployCycle''"
| "error_code (CyclicDependencyError _) = ''engine.CyclicDependency''"
| "error_code (StepCyclicDependencyError _) = ''engine.StepCyclicDependency''"
| "error_code (CapabilityMismatchError _ _ _ _ _ _) = ''engine.CapabilityMismatch''"
| "error_code (DuplicateResourceError _ _ _ _ _ _ _ _ _ _) = ''engine.DuplicateResource''"
| "error_code (RefError _ _ _) = ''engine.RefError''"

text \<open>The Go templates of the message and of the hint, before the renderer fills them in.\<close>

fun error_text :: "engine_error \<Rightarrow> string" where
  "error_text (UnknownDeployBlockError _ _) = ''unknown deploy block \"{{.Name}}\"''"
| "error_text (NoDeployBlocksError _) = ''no deploy blocks defined''"
| "error_text (NoTargetsInDeployError _ _) = ''deploy block \"{{.Deploy}}\" has no targets''"
| "error_text (UnknownTargetError _ _ _) =
     ''unknown target \"{{.Name}}\" referenced in deploy block \"{{.Deploy}}\"''"
| "error_text (TargetNotInDeployError _ _ _) =
     ''target \"{{.Target}}\" is not in deploy block \"{{.Deploy}}\"'' @ [CHR 0x27] @ ''s target list''"
| "error_text (UnknownHookError _ _ _ _) = ''on_change references unknown hook \"{{.HookID}}\"''"
| "error_text (HookCycleError _ _) = ''hook cycle detected''"
| "error_text (MultipleProvidersError _ _) =
     ''resource {{.Resource}} is provided by multiple deploy blocks: '' @
     ''{{range $i, $d := .Deploys}}{{if $i}}, {{end}}{{$d}}{{end}}''"
| "error_text (DeployCycleError _) =
     ''circular dependency between deploy blocks: '' @
     ''{{range $i, $d := .Deploys}}{{if $i}} -> {{end}}{{$d}}{{end}}''"
| "error_text (CyclicDependencyError _) = ''cyclic dependency detected''"
| "error_text (StepCyclicDependencyError _) = ''cyclic step dependency detected''"
| "error_text (CapabilityMismatchError _ _ _ _ _ _) =
     ''step \"{{.StepKind}}\" requires capabilities not provided by target''"
| "error_text (DuplicateResourceError _ _ _ _ _ _ _ _ _ _) =
     ''duplicate {{.KindLabel}} \"{{.Resource.Name}}\"'' @
     '' - already declared by {{.OtherKind}} at {{.OtherLocText}}''"
| "error_text (RefError _ _ _) = ''ref({{.Expr}}) failed''"

fun error_hint :: "engine_error \<Rightarrow> string" where
  "error_hint (UnknownDeployBlockError _ _) = ''check that the deploy block name is spelled correctly''"
| "error_hint (NoDeployBlocksError _) = ''add at least one deploy block to the configuration''"
| "error_hint (NoTargetsInDeployError _ _) =
     ''add at least one target to the deploy block'' @ [CHR 0x27] @ ''s targets list''"
| "error_hint (UnknownTargetError _ _ _) = ''check that the target is defined in the targets map''"
| "error_hint (TargetNotInDeployError _ _ _) =
     ''add the target to the deploy block'' @ [CHR 0x27] @ ''s targets list or select a different target''"
| "error_hint (UnknownHookError _ _ _ _) =
     ''add hooks = {\"{{.HookID}}\": service(name=\"...\", state=\"restarted\")} to the deploy block''"
| "error_hint (HookCycleError _ _) = ''{{join \" -> \" .Chain}}''"
| "error_hint (MultipleProvidersError _ _) = ''ensure only one deploy block creates this resource''"
| "error_hint (DeployCycleError _) = ''break the cycle by splitting or merging deploy blocks''"
| "error_hint (CyclicDependencyError _) = ''{{join \" -> \" .Cycle}}''"
| "error_hint (StepCyclicDependencyError _) = ''{{join \" -> \" .Cycle}}''"
| "error_hint (CapabilityMismatchError _ _ _ _ _ _) = ''use a different target or remove incompatible steps''"
| "error_hint (DuplicateResourceError _ _ _ _ _ _ _ _ _ _) = ''{{.HintText}}''"
| "error_hint (RefError _ _ _) = ''{{.Detail}}''"

fun error_help :: "engine_error \<Rightarrow> string" where
  "error_help (CapabilityMismatchError _ _ _ _ _ _) =
     ''missing:  {{.MissingCaps}}'' @ [CHR 0x0A] @ ''required: {{.RequiredCaps}}'' @ [CHR 0x0A] @
     ''provided: {{.ProvidedCaps}}''"
| "error_help _ = []"

text \<open>The fields of the error the template may show, as text (a resource as its kind and its name).\<close>

fun error_data :: "engine_error \<Rightarrow> string list" where
  "error_data (UnknownDeployBlockError n _) = [n]"
| "error_data (NoDeployBlocksError _) = []"
| "error_data (NoTargetsInDeployError d _) = [d]"
| "error_data (UnknownTargetError n d _) = [n, d]"
| "error_data (TargetNotInDeployError t d _) = [t, d]"
| "error_data (UnknownHookError h k d _) = [h, k, d]"
| "error_data (HookCycleError c _) = c"
| "error_data (MultipleProvidersError r ds) = [resourceKindName (res_kind r), res_name r] @ ds"
| "error_data (DeployCycleError ds) = ds"
| "error_data (CyclicDependencyError ids) = ids"
| "error_data (StepCyclicDependencyError ids) = ids"
| "error_data (CapabilityMismatchError _ k req mis prov _) =
     [k, Capability_String req, Capability_String mis, Capability_String prov]"
| "error_data (DuplicateResourceError r label hint k d _ k' d' _ loc) =
     [resourceKindName (res_kind r), res_name r, label, hint, k, d, k', d', loc]"
| "error_data (RefError x d _) = [x, d]"

fun error_span :: "engine_error \<Rightarrow> Span option" where
  "error_span (UnknownDeployBlockError _ s) = Some s"
| "error_span (NoDeployBlocksError s) = Some s"
| "error_span (NoTargetsInDeployError _ s) = Some s"
| "error_span (UnknownTargetError _ _ s) = Some s"
| "error_span (TargetNotInDeployError _ _ s) = Some s"
| "error_span (UnknownHookError _ _ _ s) = Some s"
| "error_span (HookCycleError _ s) = Some s"
| "error_span (CapabilityMismatchError _ _ _ _ _ s) = Some s"
| "error_span (DuplicateResourceError _ _ _ _ _ s _ _ _ _) = Some s"
| "error_span (RefError _ _ s) = s"
| "error_span _ = None"

text \<open>Every one of them asks for an abort.\<close>

definition Diagnostic :: "engine_error \<Rightarrow> Event" where
  "Diagnostic e = EvError ImpactAbort
     \<lparr>tmpl_ID = error_code e, tmpl_Text = error_text e, tmpl_Hint = error_hint e,
      tmpl_Help = error_help e, tmpl_Data = error_data e, tmpl_Span = error_span e\<rparr>"

definition raised :: "engine_error \<Rightarrow> err" where
  "raised e = Diag (Diagnostic e) None None"

lemma emit_raised [simp]: "emitScopedDiagnostic (Some (raised e)) = ([Diagnostic e], ImpactAbort, True)"
  by (simp add: emitScopedDiagnostic_def raised_def Diagnostic_def ShouldAbort_def)

lemma as_AbortError_raised [simp]: "as_AbortError (raised e) = None"
  by (simp add: raised_def)

section \<open>Selecting deploys and targets\<close>

fun select_blocks :: "DeclaredConfig \<Rightarrow> string list \<Rightarrow> engine_error + DeclaredDeploy list" where
  "select_blocks cfg [] = Inr []"
| "select_blocks cfg (name # names) =
     (case DeployByName cfg name of
        None \<Rightarrow> Inl (UnknownDeployBlockError name (zero_span\<lparr>sp_Filename := dc_Path cfg\<rparr>))
      | Some b \<Rightarrow> (case select_blocks cfg names of Inl e \<Rightarrow> Inl e | Inr bs \<Rightarrow> Inr (b # bs)))"

definition resolved_config :: "DeclaredConfig \<Rightarrow> DeclaredDeploy \<Rightarrow> string \<Rightarrow> DeclaredTarget \<Rightarrow> Config" where
  "resolved_config cfg block targetName tgt =
     \<lparr>cf_Path = dc_Path cfg, cf_DeployName = dd_Name block, cf_TargetName = targetName, cf_Target = tgt,
      cf_Steps = dd_Steps block, cf_Hooks = dd_Hooks block\<rparr>"

fun resolve_targets :: "DeclaredConfig \<Rightarrow> DeclaredDeploy \<Rightarrow> string list \<Rightarrow> engine_error + Config list" where
  "resolve_targets cfg block [] = Inr []"
| "resolve_targets cfg block (t # ts) =
     (case dc_Targets cfg t of
        None \<Rightarrow> Inl (UnknownTargetError t (dd_Name block) (dd_Span block))
      | Some tgt \<Rightarrow>
          (case resolve_targets cfg block ts of
             Inl e \<Rightarrow> Inl e
           | Inr rs \<Rightarrow> Inr (resolved_config cfg block t tgt # rs)))"

fun resolve_blocks :: "DeclaredConfig \<Rightarrow> string list \<Rightarrow> DeclaredDeploy list \<Rightarrow> engine_error + Config list" where
  "resolve_blocks cfg tnames [] = Inr []"
| "resolve_blocks cfg tnames (block # blocks) =
     (let matched = filter (\<lambda>t. t \<in> set (dd_Targets block)) tnames;
          targetNames = (if length tnames > 0 then matched else dd_Targets block)
      in if length tnames > 0 \<and> length matched = 0 then resolve_blocks cfg tnames blocks
         else if length targetNames = 0 then Inl (NoTargetsInDeployError (dd_Name block) (dd_Span block))
         else
           (case resolve_targets cfg block targetNames of
              Inl e \<Rightarrow> Inl e
            | Inr rs \<Rightarrow>
                (case resolve_blocks cfg tnames blocks of
                   Inl e \<Rightarrow> Inl e
                 | Inr rs' \<Rightarrow> Inr (rs @ rs'))))"

definition ResolveMultiple :: "DeclaredConfig \<Rightarrow> ResolveOptions \<Rightarrow> engine_error + Config list" where
  "ResolveMultiple cfg opts =
     (case (if length (ro_DeployNames opts) > 0 then select_blocks cfg (ro_DeployNames opts)
            else Inr (dc_Deploy cfg)) of
        Inl e \<Rightarrow> Inl e
      | Inr blocks \<Rightarrow>
          if length blocks = 0 then Inl (NoDeployBlocksError (zero_span\<lparr>sp_Filename := dc_Path cfg\<rparr>))
          else
            (case resolve_blocks cfg (ro_TargetNames opts) blocks of
               Inl e \<Rightarrow> Inl e
             | Inr results \<Rightarrow>
                 if length results = 0 then Inl (NoDeployBlocksError zero_span) else Inr results))"

definition Resolve :: "DeclaredConfig \<Rightarrow> string \<Rightarrow> string \<Rightarrow> engine_error + Config" where
  "Resolve cfg deployName0 targetName0 =
     (case (if deployName0 \<noteq> [] then
              (case DeployByName cfg deployName0 of
                 None \<Rightarrow> Inl (UnknownDeployBlockError deployName0 zero_span)
               | Some b \<Rightarrow> Inr (b, deployName0))
            else
              (case dc_Deploy cfg of
                 [] \<Rightarrow> Inl (NoDeployBlocksError zero_span)
               | b # _ \<Rightarrow> Inr (b, dd_Name b))) of
        Inl e \<Rightarrow> Inl e
      | Inr (block, deployName) \<Rightarrow>
          (case (if targetName0 = [] then
                   (case dd_Targets block of
                      [] \<Rightarrow> Inl (NoTargetsInDeployError deployName (dd_Span block))
                    | t # _ \<Rightarrow> Inr t)
                 else Inr targetName0) of
             Inl e \<Rightarrow> Inl e
           | Inr targetName \<Rightarrow>
               (case dc_Targets cfg targetName of
                  None \<Rightarrow> Inl (UnknownTargetError targetName deployName (dd_Span block))
                | Some tgt \<Rightarrow>
                    if targetName \<notin> set (dd_Targets block)
                    then Inl (TargetNotInDeployError targetName deployName (dd_Span block))
                    else Inr \<lparr>cf_Path = dc_Path cfg, cf_DeployName = deployName,
                              cf_TargetName = targetName, cf_Target = tgt,
                              cf_Steps = dd_Steps block, cf_Hooks = dd_Hooks block\<rparr>)))"

section \<open>What is selected\<close>







section \<open>Properties\<close>



definition host :: DeclaredTarget where
  "host = \<lparr>dt_Kind = ''local'', dt_RequiresFor = None, dt_Span = zero_span\<rparr>"

definition web_block :: DeclaredDeploy where
  "web_block = \<lparr>dd_Name = ''web'', dd_Targets = [''a'', ''b''], dd_Steps = [], dd_Hooks = [], dd_Span = zero_span\<rparr>"

definition web_config :: DeclaredConfig where
  "web_config = \<lparr>dc_Path = ''main'', dc_Targets = [''a'' \<mapsto> host, ''b'' \<mapsto> host], dc_Deploy = [web_block]\<rparr>"


text \<open>For explicit names, Resolve and ResolveMultiple accept the same configurations and select
  the same pair.\<close>

theorem resolve_agrees_with_multiple:
  assumes "deployName \<noteq> []" and "targetName \<noteq> []"
  shows "Resolve cfg deployName targetName = Inr c \<longleftrightarrow>
    ResolveMultiple cfg \<lparr>ro_DeployNames = [deployName], ro_TargetNames = [targetName]\<rparr> = Inr [c]"
  using assms
  by (auto simp: Resolve_def ResolveMultiple_def resolved_config_def DeployByName_def Let_def
      split: option.split dest: find_deploy_Some)

lemma resolve_agrees_with_multiple_witness:
  "Resolve web_config ''web'' ''a'' = Inr (resolved_config web_config web_block ''a'' host)"
  by (subst resolve_agrees_with_multiple)
    (simp_all add: ResolveMultiple_def web_config_def web_block_def DeployByName_def resolved_config_def)

end
