(* ===== verification/Deploy_Graph.thy ===== *)
theory Deploy_Graph
  imports Declared Cycles
begin

text \<open>
  The order of whole deploys (internal/engine/deploy_graph.go): who provides and who requires
  a resource, the search for a cycle with its three colours, and the levels in which deploys
  may run at the same time. A node is known by its position, which stands for its pointer.
\<close>

record deployNode =
  dn_idx :: nat
  dn_res :: Config
  dn_provides :: "Resource list"
  dn_requires :: "Resource list"
  dn_deps :: "nat list"

fun collectProvides_steps :: "DeclaredStep list \<Rightarrow> Resource list" where
  "collectProvides_steps [] = []"
| "collectProvides_steps (s # ss) =
     (case ds_ProvidesFor s of None \<Rightarrow> [] | Some rs \<Rightarrow> rs)
     @ (case ds_Resources s of None \<Rightarrow> [] | Some (provides, requires) \<Rightarrow> map LabelResource provides)
     @ collectProvides_steps ss"

definition collectProvides :: "Config \<Rightarrow> Resource list" where
  "collectProvides r = collectProvides_steps (cf_Steps r)"

fun collectRequires_steps :: "DeclaredStep list \<Rightarrow> Resource list" where
  "collectRequires_steps [] = []"
| "collectRequires_steps (s # ss) =
     (case ds_Resources s of None \<Rightarrow> [] | Some (provides, requires) \<Rightarrow> map LabelResource requires)
     @ collectRequires_steps ss"

definition collectRequires :: "Config \<Rightarrow> Resource list" where
  "collectRequires r =
     (case dt_RequiresFor (cf_Target r) of None \<Rightarrow> [] | Some rs \<Rightarrow> rs) @ collectRequires_steps (cf_Steps r)"

definition new_deployNodes :: "Config list \<Rightarrow> deployNode list" where
  "new_deployNodes resolved =
     map (\<lambda>i. \<lparr>dn_idx = i, dn_res = resolved ! i, dn_provides = collectProvides (resolved ! i),
               dn_requires = collectRequires (resolved ! i), dn_deps = []\<rparr>) [0..<length resolved]"

definition deployNamesOf :: "deployNode list \<Rightarrow> nat list \<Rightarrow> string list" where
  "deployNamesOf nodes is =
     map (\<lambda>i. cf_DeployName (dn_res (nodes ! i)) @ ''/'' @ cf_TargetName (dn_res (nodes ! i))) is"

type_synonym deploy_producers = "(Resource \<times> nat list) list"

definition add_producer :: "nat \<Rightarrow> Resource \<Rightarrow> deploy_producers \<Rightarrow> deploy_producers" where
  "add_producer n p ps = AList.update p ((case map_of ps p of None \<Rightarrow> [] | Some ns \<Rightarrow> ns) @ [n]) ps"

definition deploy_producers_of :: "deployNode list \<Rightarrow> deploy_producers" where
  "deploy_producers_of nodes =
     fold (\<lambda>i ps. fold (add_producer i) (dn_provides (nodes ! i)) ps) [0..<length nodes] []"

definition wire_deps :: "deploy_producers \<Rightarrow> deployNode \<Rightarrow> deployNode" where
  "wire_deps ps n =
     n\<lparr>dn_deps := dn_deps n @ concat (map (\<lambda>r. case map_of ps r of
         Some (p # _) \<Rightarrow> [p] | _ \<Rightarrow> []) (dn_requires n))\<rparr>"

section \<open>findCycle\<close>

datatype colour = White | Gray | Black

record visit_state =
  vs_colour :: "nat \<Rightarrow> colour"
  vs_stack :: "nat list"

fun first_index :: "nat \<Rightarrow> nat list \<Rightarrow> nat \<Rightarrow> nat" where
  "first_index dep [] i = 0"
| "first_index dep (s # ss) i = (if s = dep then i else first_index dep ss (Suc i))"

text \<open>
  \<open>visit\<close> returns the state and, if it found one, the cycle; the loop over a node's
  dependencies stops at the first. Fuel bounds the nesting of calls; \<open>None\<close> is running out.
\<close>

fun visit_deps ::
  "(nat \<Rightarrow> visit_state \<Rightarrow> (visit_state \<times> nat list option) option) \<Rightarrow> nat list \<Rightarrow> visit_state
     \<Rightarrow> (visit_state \<times> nat list option) option" where
  "visit_deps rec [] s = Some (s, None)"
| "visit_deps rec (dep # ds) s =
     (case vs_colour s dep of
        White \<Rightarrow>
          (case rec dep s of
             None \<Rightarrow> None
           | Some (t, Some c) \<Rightarrow> Some (t, Some c)
           | Some (t, None) \<Rightarrow> visit_deps rec ds t)
      | Gray \<Rightarrow> Some (s, Some (drop (first_index dep (vs_stack s) 0) (vs_stack s)))
      | Black \<Rightarrow> visit_deps rec ds s)"

primrec visit :: "nat \<Rightarrow> (nat \<Rightarrow> nat list) \<Rightarrow> nat \<Rightarrow> visit_state \<Rightarrow> (visit_state \<times> nat list option) option" where
  "visit 0 deps n s = None"
| "visit (Suc fuel) deps n s =
     (case visit_deps (visit fuel deps) (deps n)
             (s\<lparr>vs_colour := (vs_colour s)(n := Gray), vs_stack := vs_stack s @ [n]\<rparr>) of
        None \<Rightarrow> None
      | Some (t, Some c) \<Rightarrow> Some (t, Some c)
      | Some (t, None) \<Rightarrow>
          Some (t\<lparr>vs_colour := (vs_colour t)(n := Black), vs_stack := butlast (vs_stack t)\<rparr>, None))"

fun visit_roots ::
  "nat \<Rightarrow> (nat \<Rightarrow> nat list) \<Rightarrow> nat list \<Rightarrow> visit_state \<Rightarrow> nat list option option" where
  "visit_roots fuel deps [] s = Some None"
| "visit_roots fuel deps (n # ns) s =
     (if vs_colour s n \<noteq> White then visit_roots fuel deps ns s
      else
        (case visit fuel deps n s of
           None \<Rightarrow> None
         | Some (t, Some c) \<Rightarrow> Some (Some c)
         | Some (t, None) \<Rightarrow> visit_roots fuel deps ns t))"

definition findCycle :: "nat \<Rightarrow> (nat \<Rightarrow> nat list) \<Rightarrow> nat list \<Rightarrow> nat list option option" where
  "findCycle fuel deps nodes = visit_roots fuel deps nodes \<lparr>vs_colour = (\<lambda>_. White), vs_stack = []\<rparr>"

section \<open>kahnLevels\<close>

fun max_depth_of ::
  "(nat \<Rightarrow> (nat \<rightharpoonup> nat) \<Rightarrow> (nat \<times> (nat \<rightharpoonup> nat)) option) \<Rightarrow> nat list \<Rightarrow> nat \<Rightarrow> (nat \<rightharpoonup> nat)
     \<Rightarrow> (nat \<times> (nat \<rightharpoonup> nat)) option" where
  "max_depth_of rec [] d memo = Some (d, memo)"
| "max_depth_of rec (dep # ds) d memo =
     (case rec dep memo of
        None \<Rightarrow> None
      | Some (c, memo') \<Rightarrow> max_depth_of rec ds (if c + 1 > d then c + 1 else d) memo')"

primrec depthOf :: "nat \<Rightarrow> (nat \<Rightarrow> nat list) \<Rightarrow> nat \<Rightarrow> (nat \<rightharpoonup> nat) \<Rightarrow> (nat \<times> (nat \<rightharpoonup> nat)) option" where
  "depthOf 0 deps n memo = None"
| "depthOf (Suc fuel) deps n memo =
     (case memo n of
        Some d \<Rightarrow> Some (d, memo)
      | None \<Rightarrow>
          (case max_depth_of (depthOf fuel deps) (deps n) 0 memo of
             None \<Rightarrow> None
           | Some (d, memo') \<Rightarrow> Some (d, memo'(n \<mapsto> d))))"

fun all_depths ::
  "nat \<Rightarrow> (nat \<Rightarrow> nat list) \<Rightarrow> nat list \<Rightarrow> nat \<Rightarrow> (nat \<rightharpoonup> nat) \<Rightarrow> (nat \<times> (nat \<rightharpoonup> nat)) option" where
  "all_depths fuel deps [] maxDepth memo = Some (maxDepth, memo)"
| "all_depths fuel deps (n # ns) maxDepth memo =
     (case depthOf fuel deps n memo of
        None \<Rightarrow> None
      | Some (d, memo') \<Rightarrow> all_depths fuel deps ns (if d > maxDepth then d else maxDepth) memo')"

definition kahnLevels :: "nat \<Rightarrow> (nat \<Rightarrow> nat list) \<Rightarrow> nat list \<Rightarrow> nat list list option" where
  "kahnLevels fuel deps nodes =
     (case all_depths fuel deps nodes 0 Map.empty of
        None \<Rightarrow> None
      | Some (maxDepth, memo) \<Rightarrow>
          Some (fold (\<lambda>n levels. let d = (case memo n of Some d \<Rightarrow> d | None \<Rightarrow> 0)
                                 in levels[d := levels ! d @ [n]])
                  nodes (replicate (maxDepth + 1) [])))"

text \<open>
  The graph of a run: its nodes, with their dependencies, and its levels. The fuel given to
  the two searches is enough: \<open>DeployStuck\<close> is never the result (\<open>buildDeployGraph_spec\<close>).
\<close>

datatype deploy_result =
    DeployError engine_error
  | DeployGraph "deployNode list" "nat list list"
  | DeployStuck

definition buildDeployGraph ::
  "(nat \<Rightarrow> deploy_producers \<Rightarrow> deploy_producers) \<Rightarrow> Config list \<Rightarrow> deploy_result" where
  "buildDeployGraph iter resolved =
     (let nodes = new_deployNodes resolved;
          producer = deploy_producers_of nodes
      in case find (\<lambda>(r, prods). length prods > 1) (iter 0 producer) of
           Some (r, prods) \<Rightarrow> DeployError (MultipleProvidersError r (deployNamesOf nodes prods))
         | None \<Rightarrow>
             (let wired = map (wire_deps producer) nodes;
                  deps = (\<lambda>i. if i < length wired then dn_deps (wired ! i) else []);
                  order = [0..<length wired]
              in case findCycle (length wired + 1) deps order of
                   None \<Rightarrow> DeployStuck
                 | Some (Some cyc) \<Rightarrow> DeployError (DeployCycleError (deployNamesOf wired cyc))
                 | Some None \<Rightarrow>
                     (case kahnLevels (length wired) deps order of
                        None \<Rightarrow> DeployStuck
                      | Some levels \<Rightarrow> DeployGraph wired levels)))"

section \<open>Edge labels (internal/engine/deploy_builders.go)\<close>

definition depNames :: "deployNode list \<Rightarrow> deployNode \<Rightarrow> string list" where
  "depNames nodes n =
     (if length (dn_deps n) = 0 then [] else map (\<lambda>d. cf_DeployName (dn_res (nodes ! d))) (dn_deps n))"

definition driverResources :: "deployNode \<Rightarrow> string list" where
  "driverResources n =
     (if length (dn_deps n) = 0 \<or> length (dn_requires n) = 0 then [] else map displayResource (dn_requires n))"

end
