(* ===== verification/Deploy_Order.thy ===== *)
theory Deploy_Order
  imports Deploy_Graph
begin

text \<open>
  Correctness of the deploy graph: findCycle reports the first cycle the general detector of
  cycles.go would, the levels respect every dependency and are as early as possible, and the
  graph fails exactly on an ambiguous provider or a cycle.
\<close>

section \<open>findCycle against detectCycles\<close>

definition same_search :: "(nat \<Rightarrow> nat list) \<Rightarrow> visit_state \<Rightarrow> nat dfs_state \<Rightarrow> bool" where
  "same_search nb s d \<longleftrightarrow> vs_stack s = stack d \<and> cycles d = [] \<and> stack_ok nb d
     \<and> (\<forall>n. vs_colour s n = (if onStack d n then Gray else if visited d n then Black else White))"

definition same_answer ::
  "(nat \<Rightarrow> nat list) \<Rightarrow> (visit_state \<times> nat list option) option \<Rightarrow> nat dfs_state \<Rightarrow> bool" where
  "same_answer nb r d \<longleftrightarrow>
     (case r of
        None \<Rightarrow> False
      | Some (t, None) \<Rightarrow> same_search nb t d
      | Some (t, Some c) \<Rightarrow> c \<noteq> [] \<and> (\<exists>cs. cycles d = (c @ [hd c]) # cs))"

lemma first_index_at:
  "distinct ss \<Longrightarrow> i < length ss \<Longrightarrow> ss ! i = dep \<Longrightarrow> first_index dep ss k = k + i"
proof (induction ss arbitrary: i k)
  case (Cons s ss)
  show ?case
  proof (cases i)
    case 0
    with Cons.prems show ?thesis by simp
  next
    case (Suc j)
    then have "s \<noteq> dep" using Cons.prems by (metis distinct.simps(2) length_Cons not_less_eq nth_Cons_Suc nth_mem)
    with Suc Cons show ?thesis by simp
  qed
qed simp

lemma gray_answer:
  assumes rel: "same_search nb s d" and g: "vs_colour s dep = Gray"
    and run: "dfs fuel nb dep d = Some d'"
  shows "\<exists>c. c \<noteq> [] \<and> drop (first_index dep (vs_stack s) 0) (vs_stack s) = c \<and> cycles d' = [c @ [hd c]]"
proof -
  from run obtain f where f: "fuel = Suc f" by (cases fuel) auto
  have on: "onStack d dep" using rel g by (auto simp: same_search_def split: if_splits)
  then have mem: "dep \<in> set (stack d)" and dist: "distinct (stack d)"
    using rel by (auto simp: same_search_def stack_ok_def)
  then obtain i where i: "backward_index (stack d) (length (stack d)) dep = Some i"
    using backward_index_None [of "stack d" "length (stack d)" dep]
    by (cases "backward_index (stack d) (length (stack d)) dep") auto
  from backward_index_Some [OF i] have il: "i < length (stack d)" "stack d ! i = dep" by auto
  have "drop (first_index dep (vs_stack s) 0) (vs_stack s) = drop i (stack d)"
    using first_index_at [OF dist il, of 0] rel by (simp add: same_search_def)
  moreover have "hd (drop i (stack d)) = dep" using il by (simp add: hd_drop_conv_nth)
  moreover have "cycles d' = [drop i (stack d) @ [dep]]"
    using run f on i rel by (auto simp: same_search_def)
  moreover have "drop i (stack d) \<noteq> []" using il by simp
  ultimately show ?thesis by auto
qed

lemma visit_deps_sim:
  assumes run: "foldo (dfs fuel nb) ds d = Some d'" and rel: "same_search nb s d"
    and ne: "stack d \<noteq> []" and ds: "\<forall>m \<in> set ds. edge nb (last (stack d)) m"
    and rec: "\<And>n s d d'. dfs fuel nb n d = Some d' \<Longrightarrow> same_search nb s d \<Longrightarrow> vs_colour s n = White \<Longrightarrow>
       (stack d \<noteq> [] \<Longrightarrow> edge nb (last (stack d)) n) \<Longrightarrow> same_answer nb (visit fuel nb n s) d'"
  shows "same_answer nb (visit_deps (visit fuel nb) ds s) d'"
  using run rel ne ds
proof (induction ds arbitrary: s d)
  case Nil
  then show ?case by (simp add: same_answer_def)
next
  case (Cons dep ds)
  from Cons.prems(1) obtain u where u: "dfs fuel nb dep d = Some u" and rest: "foldo (dfs fuel nb) ds u = Some d'"
    by (auto split: option.splits)
  have e: "edge nb (last (stack d)) dep" using Cons.prems(4) by simp
  have post: "dfs_post nb dep d u"
    using dfs_call [OF u] Cons.prems(2) e by (auto simp: same_search_def)
  then have su: "stack u = stack d" "stack_ok nb u" by (auto simp: dfs_post_def grows_def)
  have ds: "\<forall>m \<in> set ds. edge nb (last (stack u)) m" using Cons.prems(4) su by simp
  have grow: "\<exists>cs. cycles d' = cycles u @ cs"
    using dfs_children [OF rest su(2) _ ds dfs_call] Cons.prems(3) su(1) by (auto simp: grows_def)
  show ?case
  proof (cases "vs_colour s dep")
    case White
    note ans = rec [OF u Cons.prems(2) White e]
    then obtain t r where v: "visit fuel nb dep s = Some (t, r)"
      by (auto simp: same_answer_def split: option.splits)
    show ?thesis
    proof (cases r)
      case None
      with ans v have "same_search nb t u" by (simp add: same_answer_def)
      with Cons.IH [OF rest this] ds Cons.prems(3) su White v None show ?thesis by simp
    next
      case (Some c)
      with ans v grow White show ?thesis by (auto simp: same_answer_def)
    qed
  next
    case Gray
    from gray_answer [OF Cons.prems(2) Gray u] grow Gray show ?thesis by (auto simp: same_answer_def)
  next
    case Black
    then have "visited d dep" "\<not> onStack d dep"
      using Cons.prems(2) by (auto simp: same_search_def split: if_splits)
    with u have "u = d" by (cases fuel) auto
    with Cons.IH [OF rest] Cons.prems Black show ?thesis by simp
  qed
qed

lemma visit_sim:
  assumes "dfs fuel nb n d = Some d'" and "same_search nb s d" and "vs_colour s n = White"
    and "stack d \<noteq> [] \<Longrightarrow> edge nb (last (stack d)) n"
  shows "same_answer nb (visit fuel nb n s) d'"
  using assms
proof (induction fuel arbitrary: n s d d')
  case 0
  then show ?case by simp
next
  case (Suc fuel)
  let ?d0 = "d\<lparr>visited := (visited d)(n := True), onStack := (onStack d)(n := True), stack := stack d @ [n]\<rparr>"
  let ?s0 = "s\<lparr>vs_colour := (vs_colour s)(n := Gray), vs_stack := vs_stack s @ [n]\<rparr>"
  have new: "\<not> onStack d n" "\<not> visited d n"
    using Suc.prems(2,3) by (auto simp: same_search_def split: if_splits)
  with Suc.prems(1) obtain t where t: "foldo (dfs fuel nb) (nb n) ?d0 = Some t"
    and d': "d' = t\<lparr>stack := butlast (stack t), onStack := (onStack t)(n := False)\<rparr>"
    by (auto split: option.splits)
  have ok: "stack_ok nb ?d0" using stack_ok_push [of nb d n] Suc.prems(2,4) new by (simp add: same_search_def)
  have rel0: "same_search nb ?s0 ?d0"
    using Suc.prems(2) ok by (auto simp: same_search_def)
  have ds: "\<forall>m \<in> set (nb n). edge nb (last (stack ?d0)) m" by (simp add: edge_def)
  have ans: "same_answer nb (visit_deps (visit fuel nb) (nb n) ?s0) t"
    by (rule visit_deps_sim [OF t rel0 _ ds Suc.IH]) simp_all
  have st: "stack t = stack d @ [n]" "stack_ok nb t"
    using dfs_children [OF t ok _ ds dfs_call] by (auto simp: grows_def)
  from ans obtain v r where v: "visit_deps (visit fuel nb) (nb n) ?s0 = Some (v, r)"
    by (auto simp: same_answer_def split: option.splits)
  show ?case
  proof (cases r)
    case None
    with ans v have rel: "same_search nb v t" by (simp add: same_answer_def)
    let ?v = "v\<lparr>vs_colour := (vs_colour v)(n := Black), vs_stack := butlast (vs_stack v)\<rparr>"
    have "visited t n" using st by (simp add: stack_ok_def)
    then have "same_search nb ?v d'"
      using rel stack_ok_pop [OF st(2,1)] unfolding d' by (auto simp: same_search_def)
    with v None show ?thesis by (simp add: same_answer_def)
  next
    case (Some c)
    with ans v d' show ?thesis by (auto simp: same_answer_def)
  qed
qed

lemma visit_roots_sim:
  assumes "foldo (root_step fuel nb) roots d = Some d'" and "same_search nb s d" and "stack d = []"
  shows "visit_roots fuel nb roots s =
     Some (case cycles d' of [] \<Rightarrow> None | c # _ \<Rightarrow> Some (butlast c))"
  using assms
proof (induction roots arbitrary: s d)
  case Nil
  then show ?case by (simp add: same_search_def)
next
  case (Cons r roots)
  show ?case
  proof (cases "visited d r")
    case True
    then have "vs_colour s r \<noteq> White" using Cons.prems(2) by (auto simp: same_search_def)
    with True Cons show ?thesis by simp
  next
    case False
    with Cons.prems(1) obtain u where u: "dfs fuel nb r d = Some u"
      and rest: "foldo (root_step fuel nb) roots u = Some d'" by (auto split: option.splits)
    have w: "vs_colour s r = White"
      using Cons.prems(2,3) False by (auto simp: same_search_def stack_ok_def)
    have post: "dfs_post nb r d u"
      using dfs_call [OF u] Cons.prems(2,3) by (auto simp: same_search_def)
    have ans: "same_answer nb (visit fuel nb r s) u"
      using visit_sim [OF u Cons.prems(2) w] Cons.prems(3) by simp
    then obtain t x where v: "visit fuel nb r s = Some (t, x)"
      by (auto simp: same_answer_def split: option.splits)
    show ?thesis
    proof (cases x)
      case None
      with ans v have "same_search nb t u" by (simp add: same_answer_def)
      moreover have "stack u = []" using post Cons.prems(3) by (simp add: dfs_post_def grows_def)
      ultimately show ?thesis using Cons.IH [OF rest] w v None by simp
    next
      case (Some c)
      with ans v obtain cs where c: "c \<noteq> []" "cycles u = (c @ [hd c]) # cs" by (auto simp: same_answer_def)
      have "stack_ok nb u \<and> stack u = []" using post Cons.prems(3) by (simp add: dfs_post_def grows_def)
      then have "\<exists>cs. cycles d' = cycles u @ cs"
        using foldo_inv [OF rest, where I = "\<lambda>x. stack_ok nb x \<and> stack x = [] \<and> (\<exists>cs. cycles x = cycles u @ cs)"]
        by (force simp: dfs_post_def grows_def split: if_splits dest!: dfs_call)
      with c w v Some show ?thesis by auto
    qed
  qed
qed

lemma findCycle_first:
  assumes "detectCycles fuel roots nb = Some cs"
  shows "findCycle fuel nb roots = Some (case cs of [] \<Rightarrow> None | c # _ \<Rightarrow> Some (butlast c))"
proof -
  from assms obtain d where d: "foldo (root_step fuel nb) roots dfs_start = Some d" and cs: "cs = cycles d"
    by (auto simp: detectCycles_def)
  have "same_search nb \<lparr>vs_colour = (\<lambda>_. White), vs_stack = []\<rparr> dfs_start"
    by (simp add: same_search_def dfs_start_def stack_ok_def)
  from visit_roots_sim [OF d this] cs show ?thesis by (simp add: findCycle_def dfs_start_def)
qed

section \<open>Levels\<close>

definition dep_rel :: "(nat \<Rightarrow> nat list) \<Rightarrow> nat set \<Rightarrow> (nat \<times> nat) set" where
  "dep_rel deps V = {(d, n). n \<in> V \<and> d \<in> set (deps n)}"

text \<open>A memo that holds, with each node, the length of its longest chain of dependencies.\<close>

definition memo_ok :: "(nat \<Rightarrow> nat list) \<Rightarrow> (nat \<rightharpoonup> nat) \<Rightarrow> bool" where
  "memo_ok deps memo \<longleftrightarrow>
     (\<forall>n d. memo n = Some d \<longrightarrow>
        (\<forall>m \<in> set (deps n). \<exists>e. memo m = Some e \<and> e < d)
        \<and> (0 < d \<longrightarrow> (\<exists>m \<in> set (deps n). memo m = Some (d - 1))))"

definition deeper :: "(nat \<rightharpoonup> nat) \<Rightarrow> (nat \<rightharpoonup> nat) \<Rightarrow> bool" where
  "deeper m m' \<longleftrightarrow> (\<forall>n d. m n = Some d \<longrightarrow> m' n = Some d)"

lemma deeper_refl [simp]: "deeper m m"
  by (simp add: deeper_def)

lemma deeper_trans: "deeper a b \<Longrightarrow> deeper b c \<Longrightarrow> deeper a c"
  by (simp add: deeper_def)

lemma max_depth_spec:
  assumes "max_depth_of rec ds d memo = Some (d', memo')" and "memo_ok deps memo"
    and "\<And>n m e m'. rec n m = Some (e, m') \<Longrightarrow> memo_ok deps m \<Longrightarrow>
       memo_ok deps m' \<and> deeper m m' \<and> m' n = Some e"
  shows "memo_ok deps memo' \<and> deeper memo memo' \<and> d \<le> d'
    \<and> (\<forall>n \<in> set ds. \<exists>e. memo' n = Some e \<and> e < d')
    \<and> (d' = d \<or> (0 < d' \<and> (\<exists>n \<in> set ds. memo' n = Some (d' - 1))))"
  using assms(1,2)
proof (induction ds arbitrary: d memo)
  case Nil
  then show ?case by simp
next
  case (Cons n ds)
  from Cons.prems(1) obtain c m1 where c: "rec n memo = Some (c, m1)"
    and rest: "max_depth_of rec ds (if c + 1 > d then c + 1 else d) m1 = Some (d', memo')"
    by (auto split: option.splits)
  have m1: "memo_ok deps m1" "deeper memo m1" "m1 n = Some c" using assms(3) [OF c Cons.prems(2)] by auto
  let ?d = "if c + 1 > d then c + 1 else d"
  from Cons.IH [OF rest m1(1)] have IH: "memo_ok deps memo'" "deeper m1 memo'" "?d \<le> d'"
    "\<forall>n \<in> set ds. \<exists>e. memo' n = Some e \<and> e < d'"
    "d' = ?d \<or> (0 < d' \<and> (\<exists>n \<in> set ds. memo' n = Some (d' - 1)))" by auto
  have n: "memo' n = Some c" using IH(2) m1(3) by (simp add: deeper_def)
  have "d \<le> d'" "c < d'" using IH(3) by (auto split: if_splits)
  moreover have "d' = d \<or> (0 < d' \<and> (\<exists>k \<in> set (n # ds). memo' k = Some (d' - 1)))"
    using IH(5) n by (auto split: if_splits)
  ultimately show ?case using IH(1,4) n deeper_trans [OF m1(2) IH(2)] by auto
qed

lemma depthOf_spec:
  "depthOf fuel deps n memo = Some (d, memo') \<Longrightarrow> memo_ok deps memo \<Longrightarrow>
     memo_ok deps memo' \<and> deeper memo memo' \<and> memo' n = Some d"
proof (induction fuel arbitrary: n memo d memo')
  case 0
  then show ?case by simp
next
  case (Suc fuel)
  show ?case
  proof (cases "memo n")
    case (Some e)
    with Suc.prems show ?thesis by simp
  next
    case None
    with Suc.prems(1) obtain m1 where m1: "max_depth_of (depthOf fuel deps) (deps n) 0 memo = Some (d, m1)"
      and memo': "memo' = m1(n \<mapsto> d)" by (auto split: option.splits)
    from max_depth_spec [OF m1 Suc.prems(2) Suc.IH]
    have s: "memo_ok deps m1" "deeper memo m1" "\<forall>k \<in> set (deps n). \<exists>e. m1 k = Some e \<and> e < d"
      "0 < d \<longrightarrow> (\<exists>k \<in> set (deps n). m1 k = Some (d - 1))" by auto
    show ?thesis
    proof (cases "m1 n")
      case None
      with s memo' show ?thesis
        unfolding memo_ok_def deeper_def by (auto split: if_splits) (metis option.distinct(1))+
    next
      case (Some e)
      text \<open>The node was reached again below itself and has its final depth already.\<close>
      have "e = d"
      proof (rule linorder_cases [of e d])
        assume "e < d"
        then obtain k where k: "k \<in> set (deps n)" "m1 k = Some (d - 1)" using s(4) by auto
        with s(1) Some have "d - 1 < e" by (fastforce simp: memo_ok_def)
        with \<open>e < d\<close> show ?thesis by simp
      next
        assume "d < e"
        then have "0 < e" by simp
        then obtain k where k: "k \<in> set (deps n)" "m1 k = Some (e - 1)"
          using s(1) Some by (fastforce simp: memo_ok_def)
        with s(3) \<open>d < e\<close> show ?thesis by fastforce
      qed
      then have "memo' = m1" using memo' Some by (auto simp: fun_eq_iff)
      with s Some \<open>e = d\<close> show ?thesis by simp
    qed
  qed
qed

text \<open>Fuel: the number of nodes below a node bounds the nesting.\<close>

definition below :: "(nat \<Rightarrow> nat list) \<Rightarrow> nat \<Rightarrow> nat set" where
  "below deps n = {m. (m, n) \<in> {(d, k). d \<in> set (deps k)}\<^sup>+}"

lemma below_dep:
  assumes "d \<in> set (deps n)" and "finite (below deps n)" and "(d, d) \<notin> {(a, k). a \<in> set (deps k)}\<^sup>+"
  shows "card (below deps d) < card (below deps n)"
proof (rule psubset_card_mono [OF assms(2)])
  have "(d, n) \<in> {(a, k). a \<in> set (deps k)}\<^sup>+" using assms(1) by auto
  then have "d \<in> below deps n" "below deps d \<subseteq> below deps n" unfolding below_def by (auto intro: trancl_trans)
  moreover have "d \<notin> below deps d" using assms(3) by (simp add: below_def)
  ultimately show "below deps d \<subset> below deps n" by blast
qed

lemma max_depth_total:
  assumes "\<And>n m. n \<in> set ds \<Longrightarrow> \<exists>r. rec n m = Some r"
  shows "\<exists>r. max_depth_of rec ds d memo = Some r"
  using assms
proof (induction ds arbitrary: d memo)
  case (Cons n ds)
  then obtain c m where "rec n memo = Some (c, m)" by (metis list.set_intros(1) surj_pair)
  with Cons show ?case by simp
qed simp

lemma depthOf_total:
  assumes "acyclic {(d, k). d \<in> set (deps k)}" and "\<And>n. finite (below deps n)"
  shows "card (below deps n) < fuel \<Longrightarrow> \<exists>r. depthOf fuel deps n memo = Some r"
proof (induction fuel arbitrary: n memo)
  case 0
  then show ?case by simp
next
  case (Suc fuel)
  have "\<exists>r. depthOf fuel deps d m = Some r" if "d \<in> set (deps n)" for d m
  proof (rule Suc.IH)
    show "card (below deps d) < fuel"
      using below_dep [OF that assms(2)] assms(1) Suc.prems by (fastforce simp: acyclic_def)
  qed
  then have "\<exists>r. max_depth_of (depthOf fuel deps) (deps n) 0 memo = Some r"
    by (rule max_depth_total)
  then show ?case by (auto split: option.split)
qed

lemma all_depths_spec:
  assumes "\<And>n m. n \<in> set ns \<Longrightarrow> \<exists>r. depthOf fuel deps n m = Some r" and "memo_ok deps memo"
  shows "\<exists>md memo'. all_depths fuel deps ns maxDepth memo = Some (md, memo') \<and> memo_ok deps memo'
    \<and> deeper memo memo' \<and> maxDepth \<le> md \<and> (\<forall>n \<in> set ns. \<exists>d \<le> md. memo' n = Some d)"
  using assms
proof (induction ns arbitrary: maxDepth memo)
  case Nil
  then show ?case by simp
next
  case (Cons n ns)
  obtain d m1 where d: "depthOf fuel deps n memo = Some (d, m1)"
    using Cons.prems(1) by (metis list.set_intros(1) surj_pair)
  from depthOf_spec [OF this Cons.prems(2)] have m1: "memo_ok deps m1" "deeper memo m1" "m1 n = Some d" by auto
  obtain md m2 where r: "all_depths fuel deps ns (if d > maxDepth then d else maxDepth) m1 = Some (md, m2)"
    "memo_ok deps m2" "deeper m1 m2" "(if d > maxDepth then d else maxDepth) \<le> md"
    "\<forall>n \<in> set ns. \<exists>d \<le> md. m2 n = Some d"
    using Cons.IH [OF _ m1(1)] Cons.prems(1) by (meson list.set_intros(2))
  have "m2 n = Some d" using r(3) m1(3) by (simp add: deeper_def)
  moreover have "d \<le> md" "maxDepth \<le> md" using r(4) by (auto split: if_splits)
  ultimately show ?case using d r deeper_trans [OF m1(2) r(3)] by auto
qed

lemma place_spec:
  assumes "\<And>n. n \<in> set ns \<Longrightarrow> f n < length levels"
  shows "length (fold (\<lambda>n levels. levels[f n := levels ! f n @ [n]]) ns levels) = length levels
    \<and> (\<forall>k < length levels. fold (\<lambda>n levels. levels[f n := levels ! f n @ [n]]) ns levels ! k
         = levels ! k @ filter (\<lambda>n. f n = k) ns)"
  using assms
proof (induction ns arbitrary: levels)
  case (Cons n ns)
  let ?l = "levels[f n := levels ! f n @ [n]]"
  have "f n < length levels" "\<And>m. m \<in> set ns \<Longrightarrow> f m < length ?l" using Cons.prems by auto
  with Cons.IH [OF this(2)] show ?case by (auto simp: nth_list_update)
qed simp

definition levels_ok :: "(nat \<Rightarrow> nat list) \<Rightarrow> nat list \<Rightarrow> nat list list \<Rightarrow> bool" where
  "levels_ok deps ns levels \<longleftrightarrow>
     (\<forall>k < length levels. \<exists>P. levels ! k = filter P ns)
     \<and> (\<forall>n \<in> set ns. \<exists>!k. k < length levels \<and> n \<in> set (levels ! k))
     \<and> (\<forall>k < length levels. \<forall>n \<in> set (levels ! k). \<forall>d \<in> set (deps n). \<exists>j < k. d \<in> set (levels ! j))
     \<and> (\<forall>k < length levels. \<forall>n \<in> set (levels ! k). 0 < k \<longrightarrow> (\<exists>d \<in> set (deps n). d \<in> set (levels ! (k - 1))))"

lemma kahnLevels_spec:
  assumes acy: "acyclic {(d, k). d \<in> set (deps k)}" and V: "\<And>n. set (deps n) \<subseteq> set ns" and dist: "distinct ns"
  shows "\<exists>levels. kahnLevels (length ns) deps ns = Some levels \<and> levels_ok deps ns levels"
proof -
  have sub: "below deps n \<subseteq> set ns" for n
  proof
    fix m assume "m \<in> below deps n"
    then obtain k where "m \<in> set (deps k)" unfolding below_def by (auto elim: converse_tranclE)
    with V show "m \<in> set ns" by blast
  qed
  then have fin: "finite (below deps n)" for n by (rule finite_subset) simp
  have card: "card (below deps n) < length ns" if "n \<in> set ns" for n
  proof -
    have "n \<notin> below deps n" using acy by (simp add: below_def acyclic_def)
    with sub that have "below deps n \<subset> set ns" by blast
    then have "card (below deps n) < card (set ns)" by (intro psubset_card_mono) auto
    also have "\<dots> \<le> length ns" by (rule card_length)
    finally show ?thesis .
  qed
  have "\<exists>r. depthOf (length ns) deps n m = Some r" if "n \<in> set ns" for n m
    using depthOf_total [OF acy fin card [OF that]] .
  from all_depths_spec [where fuel = "length ns" and ns = ns and deps = deps and maxDepth = 0 and memo = Map.empty, OF this]
  obtain md memo where r: "all_depths (length ns) deps ns 0 Map.empty = Some (md, memo)" "memo_ok deps memo"
    "\<forall>n \<in> set ns. \<exists>d \<le> md. memo n = Some d" by (auto simp: memo_ok_def)
  let ?f = "\<lambda>n. case memo n of Some d \<Rightarrow> d | None \<Rightarrow> 0"
  have f: "memo n = Some (?f n)" "?f n \<le> md" if "n \<in> set ns" for n
    using r(3) that by (auto split: option.splits)
  let ?L = "fold (\<lambda>n levels. levels[?f n := levels ! ?f n @ [n]]) ns (replicate (md + 1) [])"
  have place: "length ?L = md + 1" "\<And>k. k < md + 1 \<Longrightarrow> ?L ! k = filter (\<lambda>n. ?f n = k) ns"
  proof -
    have lt: "?f n < length (replicate (md + 1) [])" if "n \<in> set ns" for n
      using f(2) [OF that] by simp
    note p = place_spec [of ns ?f "replicate (md + 1) []", OF lt]
    show "length ?L = md + 1" using p by simp
    show "?L ! k = filter (\<lambda>n. ?f n = k) ns" if "k < md + 1" for k
      using p [THEN conjunct2, rule_format, of k] that by (simp only: length_replicate nth_replicate append_Nil)
  qed
  have run: "kahnLevels (length ns) deps ns = Some ?L" using r(1) by (simp add: kahnLevels_def Let_def)
  have at: "n \<in> set (?L ! k) \<longleftrightarrow> n \<in> set ns \<and> ?f n = k" if "k < length ?L" for n k
    using place that by auto
  have early: "\<exists>j < k. d \<in> set (?L ! j)" if p: "k < length ?L" "n \<in> set (?L ! k)" "d \<in> set (deps n)" for k n d
  proof -
    have n: "n \<in> set ns" "?f n = k" using p at by auto
    then obtain e where e: "memo d = Some e" "e < k" using r(2) f(1) [OF n(1)] p(3)
      by (fastforce simp: memo_ok_def)
    moreover have "d \<in> set ns" using V p(3) by auto
    ultimately show ?thesis using at [of e d] p(1) by auto
  qed
  have late: "\<exists>d \<in> set (deps n). d \<in> set (?L ! (k - 1))" if p: "k < length ?L" "n \<in> set (?L ! k)" "0 < k" for k n
  proof -
    have n: "n \<in> set ns" "?f n = k" using p at by auto
    then obtain d where d: "d \<in> set (deps n)" "memo d = Some (k - 1)"
      using r(2) f(1) [OF n(1)] p(3) by (fastforce simp: memo_ok_def)
    moreover have "d \<in> set ns" using V d(1) by auto
    moreover have lt: "k - 1 < length ?L" using p(1) by linarith
    ultimately have "d \<in> set (?L ! (k - 1))" using at [OF lt, of d] by simp
    then show ?thesis using d(1) by blast
  qed
  have unique: "\<exists>!k. k < length ?L \<and> n \<in> set (?L ! k)" if "n \<in> set ns" for n
    using at f(2) [OF that] that place(1) by (intro ex1I [of _ "?f n"]) auto
  have "\<exists>P. ?L ! k = filter P ns" if "k < length ?L" for k using place that by auto
  with early late unique have "levels_ok deps ns ?L" unfolding levels_ok_def by blast
  with run show ?thesis by blast
qed

section \<open>The whole graph\<close>

lemma new_deployNodes_simps [simp]:
  "length (new_deployNodes rs) = length rs"
  "i < length rs \<Longrightarrow> dn_deps (new_deployNodes rs ! i) = []"
  "i < length rs \<Longrightarrow> dn_res (new_deployNodes rs ! i) = rs ! i"
  "i < length rs \<Longrightarrow> dn_provides (new_deployNodes rs ! i) = collectProvides (rs ! i)"
  "i < length rs \<Longrightarrow> dn_requires (new_deployNodes rs ! i) = collectRequires (rs ! i)"
  by (simp_all add: new_deployNodes_def)

text \<open>The producers of a resource, in order and with repetition.\<close>

definition producers_in :: "Config list \<Rightarrow> Resource \<Rightarrow> nat list" where
  "producers_in rs r =
     concat (map (\<lambda>i. replicate (count_list (collectProvides (rs ! i)) r) i) [0..<length rs])"

definition deploy_deps :: "Config list \<Rightarrow> nat \<Rightarrow> nat list" where
  "deploy_deps rs i =
     (if i < length rs
      then concat (map (\<lambda>r. case producers_in rs r of p # _ \<Rightarrow> [p] | [] \<Rightarrow> []) (collectRequires (rs ! i)))
      else [])"

lemma add_producers_spec:
  "map_of (fold (add_producer i) ps acc) r =
     (if count_list ps r = 0 then map_of acc r
      else Some ((case map_of acc r of None \<Rightarrow> [] | Some ns \<Rightarrow> ns) @ replicate (count_list ps r) i))"
proof (induction ps arbitrary: acc)
  case (Cons p ps)
  show ?case
    using Cons.IH [of "add_producer i p acc"]
    by (auto simp: add_producer_def update_conv' replicate_append_same [symmetric] split: option.split)
qed simp

lemma deploy_producers_spec:
  "map_of (deploy_producers_of (new_deployNodes rs)) r =
     (if producers_in rs r = [] then None else Some (producers_in rs r))"
proof -
  let ?nodes = "new_deployNodes rs"
  have "k \<le> length rs \<Longrightarrow> map_of (fold (\<lambda>i ps. fold (add_producer i) (dn_provides (?nodes ! i)) ps) [0..<k] []) r =
      (let l = concat (map (\<lambda>i. replicate (count_list (collectProvides (rs ! i)) r) i) [0..<k])
       in if l = [] then None else Some l)" for k
  proof (induction k)
    case (Suc k)
    then have "dn_provides (?nodes ! k) = collectProvides (rs ! k)" by simp
    with Suc show ?case by (auto simp: add_producers_spec Let_def split: if_splits)
  qed simp
  from this [of "length rs"] show ?thesis
    by (simp add: deploy_producers_of_def producers_in_def Let_def)
qed

lemma distinct_deploy_producers: "distinct (map fst (deploy_producers_of nodes))"
proof -
  have inner: "distinct (map fst ps) \<Longrightarrow> distinct (map fst (fold (add_producer i) rs ps))" for i rs ps
    by (induction rs arbitrary: ps) (auto simp: distinct_update add_producer_def)
  have "distinct (map fst ps) \<Longrightarrow>
      distinct (map fst (fold (\<lambda>i ps. fold (add_producer i) (dn_provides (nodes ! i)) ps) is ps))" for "is" ps
    by (induction "is" arbitrary: ps) (auto simp: inner)
  then show ?thesis by (simp add: deploy_producers_of_def)
qed

lemma in_deploy_producers:
  "(r, ns) \<in> set (deploy_producers_of (new_deployNodes rs)) \<longleftrightarrow> ns = producers_in rs r \<and> ns \<noteq> []"
  using deploy_producers_spec [of rs r] map_of_eq_Some_iff [OF distinct_deploy_producers, of "new_deployNodes rs" r ns]
  by (auto split: if_splits)

lemma producers_in_bound: "p \<in> set (producers_in rs r) \<Longrightarrow> p < length rs"
  by (auto simp: producers_in_def)

lemma deploy_deps_bound: "set (deploy_deps rs i) \<subseteq> {..<length rs}"
  by (auto simp: deploy_deps_def dest!: producers_in_bound split: list.splits if_splits)
    (metis lessThan_iff list.set_intros(1) producers_in_bound)

definition wired_nodes :: "Config list \<Rightarrow> deployNode list" where
  "wired_nodes rs = map (wire_deps (deploy_producers_of (new_deployNodes rs))) (new_deployNodes rs)"

lemma wired_nodes_spec:
  "length (wired_nodes rs) = length rs"
  "i < length rs \<Longrightarrow> dn_deps (wired_nodes rs ! i) = deploy_deps rs i"
  "i < length rs \<Longrightarrow> dn_res (wired_nodes rs ! i) = rs ! i"
proof -
  show "length (wired_nodes rs) = length rs" by (simp add: wired_nodes_def)
  assume i: "i < length rs"
  show "dn_res (wired_nodes rs ! i) = rs ! i" using i by (simp add: wired_nodes_def wire_deps_def)
  have "(case map_of (deploy_producers_of (new_deployNodes rs)) r of Some (p # _) \<Rightarrow> [p] | _ \<Rightarrow> [])
      = (case producers_in rs r of p # _ \<Rightarrow> [p] | [] \<Rightarrow> [])" for r
    by (simp add: deploy_producers_spec split: list.split)
  then show "dn_deps (wired_nodes rs ! i) = deploy_deps rs i"
    using i by (simp add: wired_nodes_def wire_deps_def deploy_deps_def)
qed

lemma buildDeployGraph_spec:
  assumes "map_iteration iter"
  shows "case buildDeployGraph iter rs of
      DeployStuck \<Rightarrow> False
    | DeployError e \<Rightarrow>
        (\<exists>r. length (producers_in rs r) > 1
           \<and> e = MultipleProvidersError r (deployNamesOf (new_deployNodes rs) (producers_in rs r)))
        \<or> ((\<forall>r. length (producers_in rs r) \<le> 1)
           \<and> (\<exists>c. closed_cycle (deploy_deps rs) c \<and> e = DeployCycleError (deployNamesOf (wired_nodes rs) (butlast c))))
    | DeployGraph nodes levels \<Rightarrow>
        (\<forall>r. length (producers_in rs r) \<le> 1) \<and> acyclic {(d, n). d \<in> set (deploy_deps rs n)}
        \<and> nodes = wired_nodes rs \<and> levels_ok (deploy_deps rs) [0..<length rs] levels"
proof -
  let ?ps = "deploy_producers_of (new_deployNodes rs)"
  have ent: "set (iter 0 ?ps) = set ?ps" by (rule map_iteration_set [OF assms])
  show ?thesis
  proof (cases "find (\<lambda>(r, prods). length prods > 1) (iter 0 ?ps)")
    case (Some e)
    then obtain r prods where e: "e = (r, prods)" "(r, prods) \<in> set ?ps" "length prods > 1"
      using ent by (auto simp: find_Some_iff) (metis nth_mem)
    then have "prods = producers_in rs r" by (simp add: in_deploy_producers)
    with Some e show ?thesis by (auto simp: buildDeployGraph_def Let_def)
  next
    case None
    then have none: "\<not> length prods > 1" if "(r, prods) \<in> set ?ps" for r prods
      using that ent by (auto simp: find_None_iff)
    have single: "length (producers_in rs r) \<le> 1" for r
      using none [of r "producers_in rs r"] by (cases "producers_in rs r") (auto simp: in_deploy_producers)
    let ?n = "length rs"
    let ?order = "[0..<?n]"
    have deps: "(\<lambda>i. if i < ?n then dn_deps (wired_nodes rs ! i) else []) = deploy_deps rs"
      using wired_nodes_spec by (auto simp: fun_eq_iff deploy_deps_def)
    have clos: "set (deploy_deps rs m) \<subseteq> set ?order" for m using deploy_deps_bound [of rs m] by auto
    obtain cs where cs: "detectCycles (?n + 1) ?order (deploy_deps rs) = Some cs"
      using detectCycles_enough [where V = "set ?order" and roots = ?order and nb = "deploy_deps rs"
          and fuel = "?n + 1"] clos by auto
    note f = findCycle_first [OF cs]
    have run: "buildDeployGraph iter rs =
        (case findCycle (?n + 1) (deploy_deps rs) ?order of
           None \<Rightarrow> DeployStuck
         | Some (Some cyc) \<Rightarrow> DeployError (DeployCycleError (deployNamesOf (wired_nodes rs) cyc))
         | Some None \<Rightarrow>
             (case kahnLevels ?n (deploy_deps rs) ?order of
                None \<Rightarrow> DeployStuck
              | Some levels \<Rightarrow> DeployGraph (wired_nodes rs) levels))"
      unfolding buildDeployGraph_def Let_def wired_nodes_def [symmetric] wired_nodes_spec(1) deps None
      by simp
    show ?thesis
    proof (cases cs)
      case (Cons c cs')
      then have "closed_cycle (deploy_deps rs) c" using detectCycles_sound [OF cs] by auto
      with run f Cons single show ?thesis by auto
    next
      case Nil
      then have "acyclic (reach_edges (deploy_deps rs) ?order)" using detectCycles_Nil_iff [OF cs] by simp
      then have "acyclic {(a, b). a \<in> set ?order \<and> edge (deploy_deps rs) a b}"
        using reach_edges_all [of ?order "deploy_deps rs"] clos by simp
      moreover have "{(a, b). a \<in> set ?order \<and> edge (deploy_deps rs) a b} = {(d, n). d \<in> set (deploy_deps rs n)}\<inverse>"
        by (auto simp: edge_def deploy_deps_def split: if_splits)
      ultimately have acy: "acyclic {(d, n). d \<in> set (deploy_deps rs n)}" by (simp only: acyclic_converse)
      obtain levels where "kahnLevels ?n (deploy_deps rs) ?order = Some levels"
        "levels_ok (deploy_deps rs) ?order levels"
        using kahnLevels_spec [OF acy clos] by auto
      with run f Nil single acy show ?thesis by simp
    qed
  qed
qed

section \<open>Properties\<close>

text \<open>C13: buildDeployGraph always answers: it reports an ambiguous provider exactly when some resource
  has two, otherwise a cycle of deploys when there is one, and otherwise levels that hold every deploy
  once and in declaration order, each after all deploys it needs and as early as that allows.\<close>

theorem buildDeployGraph_correct:
  assumes "map_iteration iter"
  shows "case buildDeployGraph iter rs of
      DeployStuck \<Rightarrow> False
    | DeployError e \<Rightarrow>
        (\<exists>r. length (producers_in rs r) > 1
           \<and> e = MultipleProvidersError r (deployNamesOf (new_deployNodes rs) (producers_in rs r)))
        \<or> ((\<forall>r. length (producers_in rs r) \<le> 1)
           \<and> (\<exists>c. closed_cycle (deploy_deps rs) c \<and> e = DeployCycleError (deployNamesOf (wired_nodes rs) (butlast c))))
    | DeployGraph nodes levels \<Rightarrow>
        (\<forall>r. length (producers_in rs r) \<le> 1) \<and> acyclic {(d, n). d \<in> set (deploy_deps rs n)}
        \<and> nodes = wired_nodes rs \<and> levels_ok (deploy_deps rs) [0..<length rs] levels"
  by (rule buildDeployGraph_spec [OF assms])

definition labelled_step :: "string list \<Rightarrow> string list \<Rightarrow> DeclaredStep" where
  "labelled_step provs reqs = \<lparr>ds_ID = 0, ds_Desc = [], ds_Kind = ''run'', ds_ProvidesFor = None,
     ds_Resources = Some (provs, reqs), ds_OnChange = [], ds_Span = zero_span, ds_Fields = Map.empty\<rparr>"

definition labelled_config :: "string \<Rightarrow> string list \<Rightarrow> string list \<Rightarrow> Config" where
  "labelled_config name provs reqs = \<lparr>cf_Path = [], cf_DeployName = name, cf_TargetName = ''t'',
     cf_Target = host, cf_Steps = [labelled_step provs reqs], cf_Hooks = []\<rparr>"

fun levels_of :: "deploy_result \<Rightarrow> nat list list" where
  "levels_of (DeployGraph _ ls) = ls"
| "levels_of _ = []"

lemma buildDeployGraph_correct_witness:
  "levels_of (buildDeployGraph (\<lambda>_ ps. ps)
      [labelled_config ''app'' [] [''db''], labelled_config ''db'' [''db''] [], labelled_config ''web'' [] []])
     = [[1, 2], [0]]
   \<and> levels_ok (deploy_deps [labelled_config ''app'' [] [''db''], labelled_config ''db'' [''db''] [],
        labelled_config ''web'' [] []]) [0, 1, 2] [[1, 2], [0]]"
proof -
  let ?rs = "[labelled_config ''app'' [] [''db''], labelled_config ''db'' [''db''] [], labelled_config ''web'' [] []]"
  have run: "levels_of (buildDeployGraph (\<lambda>_ ps. ps) ?rs) = [[1, 2], [0]]" by code_simp
  then obtain ns where "buildDeployGraph (\<lambda>_ ps. ps) ?rs = DeployGraph ns [[1, 2], [0]]"
    by (cases "buildDeployGraph (\<lambda>_ ps. ps) ?rs") auto
  with buildDeployGraph_correct [OF map_iteration_id, of ?rs]
  have "levels_ok (deploy_deps ?rs) [0..<length ?rs] [[1, 2], [0]]" by (simp only: deploy_result.case)
  moreover have "[0..<length ?rs] = [0, 1, 2]" by code_simp
  ultimately have "levels_ok (deploy_deps ?rs) [0, 1, 2] [[1, 2], [0]]" by (simp only:)
  with run show ?thesis by (rule conjI)
qed

text \<open>A deploy block that requires a resource which it alone provides is rejected as a cycle of
  deploys, although nothing else would have to run before it.\<close>

theorem self_requirement_rejected:
  assumes "map_iteration iter" and "i < length rs" and "r \<in> set (collectRequires (rs ! i))"
    and "producers_in rs r = [i]" and "\<forall>r. length (producers_in rs r) \<le> 1"
  shows "\<exists>names. buildDeployGraph iter rs = DeployError (DeployCycleError names)"
proof -
  have "i \<in> set (deploy_deps rs i)" using assms(2,3,4) by (force simp: deploy_deps_def)
  then have "(i, i) \<in> {(d, n). d \<in> set (deploy_deps rs n)}\<^sup>+" by auto
  then have "\<not> acyclic {(d, n). d \<in> set (deploy_deps rs n)}" unfolding acyclic_def by blast
  moreover have "\<not> length (producers_in rs r) > 1" for r
    using assms(5) by (simp add: not_less)
  ultimately show ?thesis
    using buildDeployGraph_spec [OF assms(1), of rs]
    by (cases "buildDeployGraph iter rs") auto
qed

lemma self_requirement_rejected_witness:
  "\<exists>names. buildDeployGraph (\<lambda>_ ps. ps) [labelled_config ''app'' [''ready''] [''ready'']]
     = DeployError (DeployCycleError names)"
proof (rule self_requirement_rejected [OF map_iteration_id, of 0 _ "LabelResource ''ready''"])
  show "\<forall>r. length (producers_in [labelled_config ''app'' [''ready''] [''ready'']] r) \<le> 1"
    by (simp add: producers_in_def collectProvides_def labelled_config_def labelled_step_def)
qed (simp_all add: producers_in_def collectProvides_def collectRequires_def labelled_config_def
    labelled_step_def host_def)

text \<open>A deploy block that provides a resource and runs on two targets is rejected as if two blocks
  provided it.\<close>

theorem fanned_out_provider_rejected:
  assumes "map_iteration iter" and "i < j" and "j < length rs" and "cf_Steps (rs ! i) = cf_Steps (rs ! j)"
    and "r \<in> set (collectProvides (rs ! i))"
  shows "\<exists>r' names. buildDeployGraph iter rs = DeployError (MultipleProvidersError r' names)"
proof -
  let ?m = "\<lambda>i. replicate (count_list (collectProvides (rs ! i)) r) i"
  have same: "collectProvides (rs ! j) = collectProvides (rs ! i)" using assms(4) by (simp add: collectProvides_def)
  have pos: "0 < count_list (collectProvides (rs ! i)) r" using assms(5) by (metis count_list_0_iff neq0_conv)
  have "[0..<length rs] = [0..<j] @ j # [Suc j..<length rs]"
    using assms(3) by (metis less_imp_le_nat upt_add_eq_append upt_conv_Cons zero_le le_add_diff_inverse plus_nat.add_0)
  then have "producers_in rs r = concat (map ?m [0..<j]) @ ?m j @ concat (map ?m [Suc j..<length rs])"
    by (simp add: producers_in_def)
  moreover have "length (concat (map ?m [0..<j])) \<ge> 1"
  proof -
    have "i \<in> set (concat (map ?m [0..<j]))" using assms(2) pos by (auto simp: set_replicate_conv_if)
    then show ?thesis by (cases "concat (map ?m [0..<j])") auto
  qed
  ultimately have "length (producers_in rs r) > 1" using pos same by simp
  then have "\<not> (\<forall>r. length (producers_in rs r) \<le> 1)" by (metis not_le)
  then show ?thesis
    using buildDeployGraph_spec [OF assms(1), of rs] by (cases "buildDeployGraph iter rs") auto
qed

lemma fanned_out_provider_rejected_witness:
  "\<exists>r' names. buildDeployGraph (\<lambda>_ ps. ps)
     [labelled_config ''app'' [''ready''] [], (labelled_config ''app'' [''ready''] [])\<lparr>cf_TargetName := ''u''\<rparr>]
     = DeployError (MultipleProvidersError r' names)"
  by (rule fanned_out_provider_rejected [OF map_iteration_id, of 0 1 _ "LabelResource ''ready''"])
    (simp_all add: collectProvides_def labelled_config_def labelled_step_def)

end
