(* ===== verification/Multi_Deploy.thy ===== *)
theory Multi_Deploy
  imports Deploy_Order
begin

text \<open>
  Running several deploys (internal/engine/engine.go): runPlansConcurrent goes through the
  levels of the deploy graph, runLevel runs one level, and the command line turns the error
  it returns into an exit or a panic (cmd/scampi/main.go). What a deploy's own run answers is
  a parameter; so is the order in which the deploys of a level finish.
\<close>

section \<open>Lanes\<close>

text \<open>Ordinals are assigned level by level, within a level by declaration order.\<close>

definition lane_order :: "deployNode list \<Rightarrow> nat list list \<Rightarrow> nat list" where
  "lane_order nodes levels = concat (map (sort_key (\<lambda>n. dn_idx (nodes ! n))) levels)"

definition total_steps :: "deployNode list \<Rightarrow> nat list \<Rightarrow> nat" where
  "total_steps nodes lanes = sum_list (map (\<lambda>n. length (cf_Steps (dn_res (nodes ! n)))) lanes)"

definition widest_name :: "(string \<Rightarrow> nat) \<Rightarrow> deployNode list \<Rightarrow> nat list \<Rightarrow> nat" where
  "widest_name width nodes lanes =
     fold (\<lambda>n w. let k = width (cf_DeployName (dn_res (nodes ! n))) in if k > w then k else w) lanes 0"

fun index_in :: "nat list \<Rightarrow> nat \<Rightarrow> nat" where
  "index_in [] n = 0"
| "index_in (m # ms) n = (if m = n then 0 else Suc (index_in ms n))"

definition lane_ref :: "(string \<Rightarrow> nat) \<Rightarrow> deployNode list \<Rightarrow> nat list \<Rightarrow> nat \<Rightarrow> DeployRef" where
  "lane_ref width nodes lanes n =
     \<lparr>dr_Name = cf_DeployName (dn_res (nodes ! n)), dr_Ordinal = int (index_in lanes n),
      dr_MaxNameWidth = int (widest_name width nodes lanes),
      dr_RunTotalSteps = int (total_steps nodes lanes)\<rparr>"

section \<open>Levels\<close>

text \<open>\<open>order\<close> permutes a level into the order in which its deploys finish.\<close>

definition runLevel ::
  "(nat list \<Rightarrow> nat list) \<Rightarrow> (nat \<Rightarrow> err option) \<Rightarrow> nat list \<Rightarrow> err list" where
  "runLevel order work level = List.map_filter work (order level)"

text \<open>The loop over the levels: the deploys that were run, and the errors collected.\<close>

fun run_levels ::
  "(nat list \<Rightarrow> nat list) \<Rightarrow> (nat \<Rightarrow> err option) \<Rightarrow> nat list list \<Rightarrow> nat list list \<times> err list
     \<Rightarrow> nat list list \<times> err list" where
  "run_levels order work [] (done_levels, causes) = (done_levels, causes)"
| "run_levels order work (level # levels) (done_levels, causes) =
     (if length causes > 0 then (done_levels, causes)
      else run_levels order work levels (done_levels @ [level], causes @ runLevel order work level))"

definition combine_causes :: "err list \<Rightarrow> err option" where
  "combine_causes causes =
     (if length causes = 1 then Some (causes ! 0)
      else if length causes > 0 then Some (AbortError causes) else None)"

definition runPlansConcurrent ::
  "(nat \<Rightarrow> deploy_producers \<Rightarrow> deploy_producers) \<Rightarrow> (string \<Rightarrow> nat) \<Rightarrow> (nat list \<Rightarrow> nat list)
     \<Rightarrow> (DeployRef \<Rightarrow> Config \<Rightarrow> err option) \<Rightarrow> Config list \<Rightarrow> err option" where
  "runPlansConcurrent iter width order work resolved =
     (if length resolved = 1
      then work \<lparr>dr_Name = [], dr_Ordinal = 0, dr_MaxNameWidth = 0,
                 dr_RunTotalSteps = int (length (cf_Steps (resolved ! 0)))\<rparr> (resolved ! 0)
      else
        (case buildDeployGraph iter resolved of
           DeployError e \<Rightarrow> Some (raised e)
         | DeployStuck \<Rightarrow> Some (PlainErr [])
         | DeployGraph nodes levels \<Rightarrow>
             (let lanes = lane_order nodes levels
              in combine_causes (snd (run_levels order
                   (\<lambda>n. work (lane_ref width nodes lanes n) (dn_res (nodes ! n))) levels ([], []))))))"

text \<open>The reports of the lanes that ended without error, in lane order (runConverge).\<close>

definition aggregate :: "(nat \<rightharpoonup> Execution) \<Rightarrow> nat list \<Rightarrow> StepReport list" where
  "aggregate reps ords =
     concat (map (\<lambda>o'. case reps o' of Some rep \<Rightarrow> ex_steps rep | None \<Rightarrow> []) (sort ords))"

section \<open>The command line\<close>

fun as_CancelledError :: "err \<Rightarrow> bool" where
  "as_CancelledError CancelledError = True"
| "as_CancelledError (StepAbortedError (Some e)) = as_CancelledError e"
| "as_CancelledError (Diag _ _ (Some e)) = as_CancelledError e"
| "as_CancelledError (WrappedErr _ e) = as_CancelledError e"
| "as_CancelledError (StagingError _ e) = as_CancelledError e"
| "as_CancelledError _ = False"



section \<open>What the loop over the levels does\<close>

lemma set_map_filter: "set (List.map_filter f xs) = {y. \<exists>x \<in> set xs. f x = Some y}"
  by (induction xs) (auto split: option.split)

lemma runLevel_Nil:
  assumes "set (order level) = set level"
  shows "runLevel order work level = [] \<longleftrightarrow> (\<forall>n \<in> set level. work n = None)"
proof -
  have "runLevel order work level = [] \<longleftrightarrow> set (runLevel order work level) = {}" by simp
  also have "\<dots> \<longleftrightarrow> (\<forall>n \<in> set level. work n = None)"
    unfolding runLevel_def set_map_filter assms by (auto, metis option.exhaust)
  finally show ?thesis .
qed

lemma run_levels_spec:
  assumes "\<And>l. set (order l) = set l"
    and "run_levels order work levels (done_levels, causes) = (ds, cs)"
    and "causes = [] \<longrightarrow> (\<forall>l \<in> set done_levels. \<forall>n \<in> set l. work n = None)"
  shows "(\<exists>k \<le> length levels. ds = done_levels @ take k levels
        \<and> (cs = [] \<longrightarrow> k = length levels)
        \<and> (0 < k \<longrightarrow> causes = [] \<and> (\<forall>l \<in> set (take (k - 1) levels). \<forall>n \<in> set l. work n = None)))
    \<and> (cs = [] \<longleftrightarrow> causes = [] \<and> (\<forall>l \<in> set levels. \<forall>n \<in> set l. work n = None))"
  using assms(2,3)
proof (induction levels arbitrary: done_levels causes)
  case Nil
  then show ?case by auto
next
  case (Cons l levels)
  show ?case
  proof (cases "causes = []")
    case False
    with Cons.prems(1) have "ds = done_levels" "cs = causes" by auto
    with False show ?thesis by (intro conjI exI [of _ 0]) auto
  next
    case True
    let ?c = "runLevel order work l"
    from True Cons.prems(1) have r: "run_levels order work levels (done_levels @ [l], ?c) = (ds, cs)" by simp
    have nil: "?c = [] \<longleftrightarrow> (\<forall>n \<in> set l. work n = None)" by (rule runLevel_Nil [OF assms(1)])
    have pre: "?c = [] \<longrightarrow> (\<forall>l' \<in> set (done_levels @ [l]). \<forall>n \<in> set l'. work n = None)"
      using Cons.prems(2) True nil by auto
    from Cons.IH [OF r pre] obtain k where k: "k \<le> length levels" "ds = (done_levels @ [l]) @ take k levels"
      "cs = [] \<longrightarrow> k = length levels"
      "0 < k \<longrightarrow> ?c = [] \<and> (\<forall>l \<in> set (take (k - 1) levels). \<forall>n \<in> set l. work n = None)"
      and iff: "cs = [] \<longleftrightarrow> ?c = [] \<and> (\<forall>l \<in> set levels. \<forall>n \<in> set l. work n = None)" by blast
    have before: "\<forall>l' \<in> set (take k (l # levels)). \<forall>n \<in> set l'. work n = None"
    proof (cases k)
      case (Suc j)
      with k(4) nil show ?thesis by (auto simp: take_Cons')
    qed simp
    show ?thesis
    proof (intro conjI exI [of _ "Suc k"])
      show "cs = [] \<longleftrightarrow> causes = [] \<and> (\<forall>l \<in> set (l # levels). \<forall>n \<in> set l. work n = None)"
        using iff nil True by auto
    qed (use k before True in auto)
  qed
qed

lemma in_take_levels: "l \<in> set (take k ls) \<longleftrightarrow> (\<exists>i < k. i < length ls \<and> l = ls ! i)"
  by (auto simp: in_set_conv_nth)

lemma in_concat_take:
  "n \<in> set (concat (take k ls)) \<longleftrightarrow> (\<exists>i < k. i < length ls \<and> n \<in> set (ls ! i))"
  by (simp only: set_concat UN_iff Bex_def in_take_levels) blast

lemma levels_early:
  assumes "levels_ok deps ns levels" and "k < length levels" and "n \<in> set (levels ! k)" and "d \<in> set (deps n)"
  shows "\<exists>j < k. d \<in> set (levels ! j)"
  using assms(1) [unfolded levels_ok_def, THEN conjunct2, THEN conjunct2, THEN conjunct1] assms(2-4) by blast

lemma levels_home:
  assumes "levels_ok deps ns levels" and "n \<in> set ns"
  shows "\<exists>!k. k < length levels \<and> n \<in> set (levels ! k)"
  using assms(1) [unfolded levels_ok_def, THEN conjunct2, THEN conjunct1] assms(2) by blast

lemma levels_dep_before:
  assumes ok: "levels_ok deps ns levels" and "(d, n) \<in> {(a, b). b \<in> set ns \<and> a \<in> set (deps b)}\<^sup>+"
    and "k < length levels" and "n \<in> set (levels ! k)"
  shows "\<exists>j < k. d \<in> set (levels ! j)"
  using assms(2-4)
proof (induction arbitrary: k rule: trancl_induct)
  case (base n)
  then show ?case using levels_early [OF ok] by blast
next
  case (step m n)
  then have "m \<in> set (deps n)" by simp
  from levels_early [OF ok step.prems this] obtain j where j: "j < k" "m \<in> set (levels ! j)" by blast
  moreover have "j < length levels" using j(1) step.prems(1) by simp
  ultimately obtain i where "i < j" "d \<in> set (levels ! i)" using step.IH by blast
  with j(1) show ?case by (meson less_trans)
qed

lemma levels_cover:
  assumes "levels_ok deps ns levels"
  shows "set (concat levels) = set ns"
proof -
  have "set (levels ! k) \<subseteq> set ns" if "k < length levels" for k
  proof -
    from assms that obtain P where "levels ! k = filter P ns" unfolding levels_ok_def by blast
    then show ?thesis by auto
  qed
  then have "set (concat levels) \<subseteq> set ns"
    unfolding set_concat by (metis UN_least in_set_conv_nth)
  moreover have "n \<in> set (concat levels)" if "n \<in> set ns" for n
    using levels_home [OF assms that] nth_mem by fastforce
  ultimately show ?thesis by blast
qed

lemma levels_distinct:
  assumes ok: "levels_ok deps ns levels" and dist: "distinct ns"
  shows "distinct (concat levels)"
proof -
  have lv: "distinct (levels ! k)" if "k < length levels" for k
  proof -
    from ok that obtain P where "levels ! k = filter P ns" unfolding levels_ok_def by blast
    then show ?thesis using dist by simp
  qed
  have disj: "set (levels ! i) \<inter> set (levels ! j) = {}" if "i < length levels" "j < length levels" "i \<noteq> j" for i j
  proof (rule ccontr)
    assume "set (levels ! i) \<inter> set (levels ! j) \<noteq> {}"
    then obtain n where n: "n \<in> set (levels ! i)" "n \<in> set (levels ! j)" by blast
    then have "n \<in> set ns" using levels_cover [OF ok] that(1) by auto
    from levels_home [OF ok this] n that show False by blast
  qed
  have "k \<le> length levels \<Longrightarrow> distinct (concat (take k levels))" for k
  proof (induction k)
    case (Suc k)
    have "set (concat (take k levels)) \<inter> set (levels ! k) = {}"
    proof (rule ccontr)
      assume "set (concat (take k levels)) \<inter> set (levels ! k) \<noteq> {}"
      then obtain n where "n \<in> set (concat (take k levels))" "n \<in> set (levels ! k)" by blast
      then obtain i where "i < k" "n \<in> set (levels ! i)" "n \<in> set (levels ! k)"
        unfolding in_concat_take by blast
      with disj [of i k] Suc.prems show False by auto
    qed
    with Suc lv [of k] show ?case by (simp add: take_Suc_conv_app_nth)
  qed simp
  from this [of "length levels"] show ?thesis by simp
qed

definition after :: "Config list \<Rightarrow> (nat \<times> nat) set" where
  "after rs = {(d, n). d \<in> set (deploy_deps rs n)}\<^sup>+"

lemma after_bound: "(d, n) \<in> after rs \<Longrightarrow> d < length rs \<and> n < length rs"
  unfolding after_def
proof (induction rule: trancl_induct)
  case (base n)
  then show ?case using deploy_deps_bound [of rs n] by (auto simp: deploy_deps_def split: if_splits)
next
  case (step m n)
  then show ?case using deploy_deps_bound [of rs n] by (auto simp: deploy_deps_def split: if_splits)
qed

lemma after_before:
  assumes g: "levels_ok (deploy_deps rs) [0..<length rs] levels" and "(d, n) \<in> after rs"
    and "k < length levels" and "n \<in> set (levels ! k)"
  shows "\<exists>j < k. d \<in> set (levels ! j)"
proof (rule levels_dep_before [OF g _ assms(3,4)])
  show "(d, n) \<in> {(a, b). b \<in> set [0..<length rs] \<and> a \<in> set (deploy_deps rs b)}\<^sup>+"
    using assms(2) unfolding after_def
    by (rule trancl_mono) (auto simp: deploy_deps_def split: if_splits)
qed

section \<open>Properties\<close>

text \<open>C14: with several deploys, a deploy is run only when every deploy it comes after has been run and
  ended without error; the run as a whole reports no error exactly when all deploys would end without
  one, and then all of them were run.\<close>

theorem deploys_gated_by_levels:
  assumes "map_iteration iter" and "buildDeployGraph iter rs = DeployGraph nodes levels"
    and "\<forall>l. set (order l) = set l" and "length rs \<noteq> 1"
    and "w = (\<lambda>n. work (lane_ref width nodes (lane_order nodes levels) n) (dn_res (nodes ! n)))"
    and "run_levels order w levels ([], []) = (started, causes)"
  shows "(\<forall>n \<in> set (concat started). \<forall>d. (d, n) \<in> after rs \<longrightarrow> d \<in> set (concat started) \<and> w d = None)
    \<and> (runPlansConcurrent iter width order work rs = None \<longleftrightarrow> (\<forall>n < length rs. w n = None))
    \<and> (runPlansConcurrent iter width order work rs = None \<longrightarrow> set (concat started) = {..<length rs})"
proof -
  have g: "levels_ok (deploy_deps rs) [0..<length rs] levels"
    using buildDeployGraph_spec [OF assms(1), of rs] assms(2) by simp
  have cover: "set (concat levels) = {..<length rs}" using levels_cover [OF g] by auto
  have rl: "(\<exists>k \<le> length levels. started = [] @ take k levels \<and> (causes = [] \<longrightarrow> k = length levels)
        \<and> (0 < k \<longrightarrow> ([] :: err list) = [] \<and> (\<forall>l \<in> set (take (k - 1) levels). \<forall>n \<in> set l. w n = None)))
    \<and> (causes = [] \<longleftrightarrow> ([] :: err list) = [] \<and> (\<forall>l \<in> set levels. \<forall>n \<in> set l. w n = None))"
    by (rule run_levels_spec [OF _ assms(6)]) (use assms(3) in auto)
  then obtain k where k: "k \<le> length levels" "started = take k levels" "causes = [] \<longrightarrow> k = length levels"
    "0 < k \<longrightarrow> (\<forall>l \<in> set (take (k - 1) levels). \<forall>n \<in> set l. w n = None)"
    and nil: "causes = [] \<longleftrightarrow> (\<forall>l \<in> set levels. \<forall>n \<in> set l. w n = None)" by auto
  have res: "runPlansConcurrent iter width order work rs = combine_causes causes"
    using assms(2,4,5,6) by (simp add: runPlansConcurrent_def Let_def)
  have none: "combine_causes causes = None \<longleftrightarrow> causes = []"
    by (cases causes) (auto simp: combine_causes_def)
  have gate: "d \<in> set (concat started) \<and> w d = None" if n: "n \<in> set (concat started)" and d: "(d, n) \<in> after rs" for n d
  proof -
    from n obtain i where i: "i < k" "n \<in> set (levels ! i)"
      unfolding k(2) in_concat_take by blast
    have il: "i < length levels" using i(1) k(1) by simp
    obtain j where j: "j < i" "d \<in> set (levels ! j)" using after_before [OF g d il i(2)] by blast
    have "levels ! j \<in> set (take k levels)" "levels ! j \<in> set (take (k - 1) levels)"
      unfolding in_take_levels using i(1) j(1) k(1) by (auto intro!: exI [of _ j])
    moreover have "0 < k" using i(1) by simp
    ultimately show ?thesis using k(2,4) j(2) by auto
  qed
  moreover have "(causes = []) = (\<forall>n < length rs. w n = None)"
    unfolding nil using cover by (metis UN_iff lessThan_iff set_concat)
  moreover have "causes = [] \<longrightarrow> set (concat started) = {..<length rs}" using k(2,3) cover by simp
  ultimately show ?thesis unfolding res none by blast
qed

lemma deploys_gated_by_levels_witness:
  "runPlansConcurrent (\<lambda>_ ps. ps) length (\<lambda>l. l) (\<lambda>_ _. None)
     [labelled_config ''app'' [] [''db''], labelled_config ''db'' [''db''] []] = None"
proof -
  let ?rs = "[labelled_config ''app'' [] [''db''], labelled_config ''db'' [''db''] []]"
  let ?ls = "levels_of (buildDeployGraph (\<lambda>_ ps. ps) ?rs)"
  have "?ls \<noteq> []" by code_simp
  then obtain nodes where g: "buildDeployGraph (\<lambda>_ ps. ps) ?rs = DeployGraph nodes ?ls"
    by (cases "buildDeployGraph (\<lambda>_ ps. ps) ?rs") auto
  obtain started causes where r: "run_levels (\<lambda>l. l) (\<lambda>n. None) ?ls ([], []) = (started, causes)" by fastforce
  show ?thesis
    using deploys_gated_by_levels [OF map_iteration_id g _ _ refl r] by simp
qed

text \<open>Lane ordinals number the deploys of a run without repetition, and a deploy that comes after
  another has the larger ordinal.\<close>

theorem lanes_number_deploys:
  assumes "map_iteration iter" and "buildDeployGraph iter rs = DeployGraph nodes levels"
  shows "distinct (lane_order nodes levels) \<and> set (lane_order nodes levels) = {..<length rs}
    \<and> (\<forall>d n. (d, n) \<in> after rs \<longrightarrow>
         index_in (lane_order nodes levels) d < index_in (lane_order nodes levels) n)"
proof -
  have g: "levels_ok (deploy_deps rs) [0..<length rs] levels" and nodes: "nodes = wired_nodes rs"
    using buildDeployGraph_spec [OF assms(1), of rs] assms(2) by simp_all
  have idx: "dn_idx (nodes ! n) = n" if "n < length rs" for n
    using that by (simp add: nodes wired_nodes_def wire_deps_def new_deployNodes_def)
  have "sort_key (\<lambda>n. dn_idx (nodes ! n)) (levels ! k) = levels ! k" if "k < length levels" for k
  proof -
    from g that obtain P where P: "levels ! k = filter P [0..<length rs]" unfolding levels_ok_def by blast
    have "sorted (filter P [0..<length rs])" by (simp add: sorted_wrt_filter)
    moreover have "map (\<lambda>n. dn_idx (nodes ! n)) (filter P [0..<length rs]) = filter P [0..<length rs]"
      using idx by (intro map_idI) auto
    ultimately show ?thesis unfolding P by (intro sort_key_id_if_sorted) simp
  qed
  then have lanes: "lane_order nodes levels = concat levels"
    unfolding lane_order_def by (intro arg_cong [where f = concat] map_idI) (auto simp: in_set_conv_nth)
  have before: "index_in (xs @ ys) d < index_in (xs @ ys) n" if "d \<in> set xs" "n \<notin> set xs" "n \<in> set ys" for xs ys d n
    using that by (induction xs) auto
  have "index_in (concat levels) d < index_in (concat levels) n" if d: "(d, n) \<in> after rs" for d n
  proof -
    have "n \<in> set (concat (take (length levels) levels))" using levels_cover [OF g] after_bound [OF d] by auto
    then obtain k where k: "k < length levels" "n \<in> set (levels ! k)" unfolding in_concat_take by blast
    obtain j where j: "j < k" "d \<in> set (levels ! j)" using after_before [OF g d k] by blast
    have split: "concat levels = concat (take k levels) @ concat (drop k levels)"
      by (metis append_take_drop_id concat_append)
    have "d \<in> set (concat (take k levels))" unfolding in_concat_take using j k(1) by (auto intro!: exI [of _ j])
    moreover have "n \<in> set (concat (drop k levels))" using k by (auto simp: Cons_nth_drop_Suc [symmetric])
    moreover have "n \<notin> set (concat (take k levels))"
      using levels_distinct [OF g] \<open>n \<in> set (concat (drop k levels))\<close> unfolding split by auto
    ultimately show ?thesis unfolding split by (intro before)
  qed
  with levels_cover [OF g] levels_distinct [OF g] show ?thesis unfolding lanes by auto
qed

lemma lanes_number_deploys_witness:
  "distinct (lane_order (wired_nodes [labelled_config ''app'' [] [''db''], labelled_config ''db'' [''db''] []]) [[1], [0]])"
proof -
  let ?rs = "[labelled_config ''app'' [] [''db''], labelled_config ''db'' [''db''] []]"
  have "levels_of (buildDeployGraph (\<lambda>_ ps. ps) ?rs) = [[1], [0]]" by code_simp
  then obtain nodes where g: "buildDeployGraph (\<lambda>_ ps. ps) ?rs = DeployGraph nodes [[1], [0]]"
    by (cases "buildDeployGraph (\<lambda>_ ps. ps) ?rs") auto
  moreover from this have "nodes = wired_nodes ?rs" using buildDeployGraph_spec [OF map_iteration_id, of ?rs] by simp
  ultimately show ?thesis using lanes_number_deploys [OF map_iteration_id g] by simp
qed


definition known_to_cli :: "err \<Rightarrow> bool" where
  "known_to_cli e \<longleftrightarrow> as_AbortError e \<noteq> None \<or> as_CancelledError e"



text \<open>A step that failed with a diagnostic that is no abort is such an error.\<close>

lemma step_aborted_unknown:
  "\<not> known_to_cli e \<Longrightarrow> \<not> known_to_cli (StepAbortedError (Some e))"
  by (simp add: known_to_cli_def)

lemma warning_unknown: "\<not> known_to_cli (Diag (EvWarning t) r None)"
  by (simp add: known_to_cli_def)



end
