(* ===== verification/Planning.thy ===== *)
theory Planning
  imports Declared Step_Graph Cycle_Dedup
begin

text \<open>
  Planning one deploy on one target (internal/engine/plan.go, plan_cycles.go and
  duplicate_provides.go): every declared step and hook step is planned by its kind and
  checked against the target's capabilities, then the plan as a whole is checked: hook
  references, hook cycles, resources provided twice, op cycles and step cycles.

  A function that emits diagnostics returns their list first. The summand \<open>Inl\<close> of a result
  is a panic; the inner \<open>Some\<close> or \<open>Inl\<close> is the error the function returns.
\<close>

section \<open>What the planner is given\<close>

text \<open>
  Of the planner's surroundings: \<open>pe_Plan\<close> is StepKind.Plan, whose answer is a step that may
  be nil and an error that may be nil; \<open>pe_Heap\<close> holds the ops the pointers in DependsOn
  refer to; the keys and texts are what fmt prints for a pointer or Describe for an op; the
  ranges are the orders in which a Go map is gone through, one for every loop.
\<close>

record plan_env =
  pe_Plan :: "DeclaredStep \<Rightarrow> Step option \<times> err option"
  pe_Heap :: "Op list"
  pe_OpKey :: "nat \<Rightarrow> string"
  pe_opID :: "nat \<Rightarrow> string"
  pe_NodeKey :: "nat \<Rightarrow> string"
  pe_StepPtr :: "Step \<Rightarrow> string"
  pe_range_producers :: "nat \<times> Resource \<Rightarrow> producers \<Rightarrow> producers"
  pe_range_hooks :: "nat \<Rightarrow> hooks \<Rightarrow> hooks"

definition nil_dereference :: go_panic where
  "nil_dereference = ''runtime error: invalid memory address or nil pointer dereference''"

definition stack_overflow :: go_panic where
  "stack_overflow = ''fatal error: stack overflow''"

section \<open>Planning steps\<close>

definition collectRequiredCaps :: "Step \<Rightarrow> Capability" where
  "collectRequiredCaps act = fold (\<lambda>op caps. caps OR op_caps op) (step_ops act) 0"

definition planOneStep ::
  "plan_env \<Rightarrow> DeclaredStep \<Rightarrow> int \<Rightarrow> Capability \<Rightarrow> go_panic + Step option \<times> err option" where
  "planOneStep env step stepIdx tgtCaps =
     (case pe_Plan env step of
        (None, None) \<Rightarrow> Inl nil_dereference
      | (None, Some e) \<Rightarrow> Inr (None, Some e)
      | (Some act, e) \<Rightarrow>
          (let reqCaps = collectRequiredCaps act;
               misCaps = and_not reqCaps tgtCaps
           in if misCaps \<noteq> 0
              then Inr (None, Some (raised (CapabilityMismatchError stepIdx (step_kind act)
                     reqCaps misCaps tgtCaps (ds_Span step))))
              else Inr (Some act, e)))"

record planned_steps =
  ps_steps :: "Step list"
  ps_declaredIdx :: "nat list"
  ps_onChange :: "nat \<rightharpoonup> string list"
  ps_causes :: "err list"
  ps_impacts :: "Impact list"
  ps_events :: "Event list"

definition no_steps :: planned_steps where
  "no_steps = \<lparr>ps_steps = [], ps_declaredIdx = [], ps_onChange = Map.empty, ps_causes = [],
     ps_impacts = [], ps_events = []\<rparr>"

definition keep_step :: "nat \<Rightarrow> DeclaredStep \<Rightarrow> Step \<Rightarrow> planned_steps \<Rightarrow> planned_steps" where
  "keep_step i decl act st =
     st\<lparr>ps_steps := ps_steps st @ [act],
        ps_declaredIdx := ps_declaredIdx st @ [i],
        ps_onChange := (if length (ds_OnChange decl) > 0
                        then (ps_onChange st)(length (ps_steps st) \<mapsto> ds_OnChange decl)
                        else ps_onChange st)\<rparr>"

text \<open>The body of the loop; a nil step with a nil error, which planOneStep never answers, would be dereferenced.\<close>

definition plan_decl ::
  "nat \<Rightarrow> DeclaredStep \<Rightarrow> Step option \<times> err option \<Rightarrow> planned_steps \<Rightarrow> go_panic + planned_steps" where
  "plan_decl i decl answer st =
     (case answer of
        (planned, Some e) \<Rightarrow>
          (case emitPlanDiagnostic (int i) (ds_Kind decl) (ds_Desc decl) (Some e) of
             (evs, impact, _) \<Rightarrow>
               (let st1 = st\<lparr>ps_impacts := ps_impacts st @ [impact], ps_events := ps_events st @ evs\<rparr>
                in (case planned of
                      None \<Rightarrow> Inr (st1\<lparr>ps_causes := ps_causes st1 @ [e]\<rparr>)
                    | Some act \<Rightarrow>
                        if ShouldAbort impact then Inr (st1\<lparr>ps_causes := ps_causes st1 @ [e]\<rparr>)
                        else Inr (keep_step i decl act st1))))
      | (Some act, None) \<Rightarrow> Inr (keep_step i decl act st)
      | (None, None) \<Rightarrow> Inl nil_dereference)"

fun planSteps_loop ::
  "plan_env \<Rightarrow> Capability \<Rightarrow> nat \<Rightarrow> DeclaredStep list \<Rightarrow> planned_steps \<Rightarrow> go_panic + planned_steps" where
  "planSteps_loop env caps i [] st = Inr st"
| "planSteps_loop env caps i (decl # decls) st =
     (case planOneStep env decl (int i) caps of
        Inl p \<Rightarrow> Inl p
      | Inr answer \<Rightarrow>
          (case plan_decl i decl answer st of
             Inl p \<Rightarrow> Inl p
           | Inr st' \<Rightarrow> planSteps_loop env caps (Suc i) decls st'))"

definition planSteps :: "plan_env \<Rightarrow> DeclaredStep list \<Rightarrow> Capability \<Rightarrow> go_panic + planned_steps" where
  "planSteps env declared caps = planSteps_loop env caps 0 declared no_steps"

section \<open>Planning hooks\<close>

record planned_hooks =
  ph_planned :: "string \<rightharpoonup> Step list"
  ph_causes :: "err list"
  ph_impacts :: "Impact list"
  ph_events :: "Event list"

definition no_hooks :: planned_hooks where
  "no_hooks = \<lparr>ph_planned = Map.empty, ph_causes = [], ph_impacts = [], ph_events = []\<rparr>"

text \<open>One hook: its steps until the first error, of whatever impact, which drops the hook.\<close>

fun plan_hook ::
  "plan_env \<Rightarrow> Capability \<Rightarrow> string \<Rightarrow> DeclaredStep list \<Rightarrow> Step list \<Rightarrow> planned_hooks
     \<Rightarrow> go_panic + planned_hooks" where
  "plan_hook env caps hid [] hookSteps st = Inr (st\<lparr>ph_planned := (ph_planned st)(hid \<mapsto> hookSteps)\<rparr>)"
| "plan_hook env caps hid (decl # decls) hookSteps st =
     (case planOneStep env decl (- 1) caps of
        Inl p \<Rightarrow> Inl p
      | Inr (step, err) \<Rightarrow>
          (case err of
             Some e \<Rightarrow>
               (case emitPlanDiagnostic (- 1) (ds_Kind decl) (ds_Desc decl) (Some e) of
                  (evs, impact, _) \<Rightarrow>
                    Inr (st\<lparr>ph_impacts := ph_impacts st @ [impact], ph_events := ph_events st @ evs,
                            ph_causes := ph_causes st @ [e]\<rparr>))
           | None \<Rightarrow>
               (case step of
                  Some act \<Rightarrow> plan_hook env caps hid decls (hookSteps @ [act]) st
                | None \<Rightarrow> Inl nil_dereference)))"

fun planHooks_loop :: "plan_env \<Rightarrow> Capability \<Rightarrow> hooks \<Rightarrow> planned_hooks \<Rightarrow> go_panic + planned_hooks" where
  "planHooks_loop env caps [] st = Inr st"
| "planHooks_loop env caps ((hid, declared) # hooks) st =
     (case plan_hook env caps hid declared [] st of
        Inl p \<Rightarrow> Inl p
      | Inr st' \<Rightarrow> planHooks_loop env caps hooks st')"

definition planHooks :: "plan_env \<Rightarrow> hooks \<Rightarrow> Capability \<Rightarrow> go_panic + planned_hooks" where
  "planHooks env hooks caps = planHooks_loop env caps (pe_range_hooks env 0 hooks) no_hooks"

section \<open>Checking hooks\<close>

definition on_change_span :: "DeclaredStep \<Rightarrow> Span" where
  "on_change_span step = (case ds_Fields step ''on_change'' of Some fs \<Rightarrow> fs_Value fs | None \<Rightarrow> ds_Span step)"

text \<open>The inner loop over a step's on_change: the events emitted, and the error that ends it.\<close>

fun check_refs ::
  "(string \<rightharpoonup> Step list) \<Rightarrow> int \<Rightarrow> string \<Rightarrow> DeclaredStep \<Rightarrow> string list \<Rightarrow> Event list \<times> err option" where
  "check_refs planned i desc step [] = ([], None)"
| "check_refs planned i desc step (hookID # refs) =
     (case planned hookID of
        Some _ \<Rightarrow> check_refs planned i desc step refs
      | None \<Rightarrow>
          (let e = raised (UnknownHookError hookID (ds_Kind step) (ds_Desc step) (on_change_span step)) in
           case emitPlanDiagnostic i (ds_Kind step) desc (Some e) of
             (evs, impact, _) \<Rightarrow>
               if ShouldAbort impact then (evs, Some (AbortError [e]))
               else (case check_refs planned i desc step refs of (evs', r) \<Rightarrow> (evs @ evs', r))))"

fun check_step_refs ::
  "(string \<rightharpoonup> Step list) \<Rightarrow> nat \<Rightarrow> DeclaredStep list \<Rightarrow> Event list \<times> err option" where
  "check_step_refs planned i [] = ([], None)"
| "check_step_refs planned i (step # steps) =
     (case check_refs planned (int i) (ds_Desc step) step (ds_OnChange step) of
        (evs, Some e) \<Rightarrow> (evs, Some e)
      | (evs, None) \<Rightarrow>
          (case check_step_refs planned (Suc i) steps of (evs', r) \<Rightarrow> (evs @ evs', r)))"

fun check_chain_refs ::
  "(string \<rightharpoonup> Step list) \<Rightarrow> string \<Rightarrow> DeclaredStep list \<Rightarrow> Event list \<times> err option" where
  "check_chain_refs planned hid [] = ([], None)"
| "check_chain_refs planned hid (step # steps) =
     (case check_refs planned (- 1) (''hook:'' @ hid) step (ds_OnChange step) of
        (evs, Some e) \<Rightarrow> (evs, Some e)
      | (evs, None) \<Rightarrow>
          (case check_chain_refs planned hid steps of (evs', r) \<Rightarrow> (evs @ evs', r)))"

fun check_hook_refs :: "(string \<rightharpoonup> Step list) \<Rightarrow> hooks \<Rightarrow> Event list \<times> err option" where
  "check_hook_refs planned [] = ([], None)"
| "check_hook_refs planned ((hid, steps) # hooks) =
     (case check_chain_refs planned hid steps of
        (evs, Some e) \<Rightarrow> (evs, Some e)
      | (evs, None) \<Rightarrow>
          (case check_hook_refs planned hooks of (evs', r) \<Rightarrow> (evs @ evs', r)))"

text \<open>Looking a key up in a hooks map; an absent key reads as no steps.\<close>

definition hook_steps :: "hooks \<Rightarrow> string \<Rightarrow> DeclaredStep list" where
  "hook_steps hooks hid = (case map_of hooks hid of Some steps \<Rightarrow> steps | None \<Rightarrow> [])"

definition hook_adj :: "hooks \<Rightarrow> string \<Rightarrow> string list" where
  "hook_adj hooks hid = concat (map ds_OnChange (hook_steps hooks hid))"

fun edge_source :: "string \<Rightarrow> DeclaredStep list \<Rightarrow> Span" where
  "edge_source to [] = zero_span"
| "edge_source to (step # steps) =
     (if to \<in> set (ds_OnChange step) then on_change_span step else edge_source to steps)"

definition findCycleEdgeSource :: "hooks \<Rightarrow> string list \<Rightarrow> Span" where
  "findCycleEdgeSource hooks cycle =
     edge_source (cycle ! (length cycle - 1)) (hook_steps hooks (cycle ! (length cycle - 2)))"

text \<open>
  Fuel: the depth-first search enters every hook and every name referred to at most once, so
  one more than their number is enough.
\<close>

definition hook_fuel :: "hooks \<Rightarrow> nat" where
  "hook_fuel hooks = Suc (length (concat (map (\<lambda>(hid, steps). hid # concat (map ds_OnChange steps)) hooks)))"

definition detectHookCycles :: "hooks \<Rightarrow> go_panic + Event list \<times> err option" where
  "detectHookCycles hooks =
     (if length hooks = 0 then Inr ([], None)
      else
        (case detectCycles (hook_fuel hooks) (map fst hooks) (hook_adj hooks) of
           None \<Rightarrow> Inl stack_overflow
         | Some [] \<Rightarrow> Inr ([], None)
         | Some (cycle # _) \<Rightarrow>
             (let e = HookCycleError cycle (findCycleEdgeSource hooks cycle)
              in Inr ([Diagnostic e], Some (AbortError [raised e])))))"

definition validateHooks ::
  "plan_env \<Rightarrow> Config \<Rightarrow> (string \<rightharpoonup> Step list) \<Rightarrow> go_panic + Event list \<times> err option" where
  "validateHooks env cfg planned =
     (case check_step_refs planned 0 (cf_Steps cfg) of
        (evs, Some e) \<Rightarrow> Inr (evs, Some e)
      | (evs, None) \<Rightarrow>
          (case check_hook_refs planned (pe_range_hooks env 1 (cf_Hooks cfg)) of
             (evs', Some e) \<Rightarrow> Inr (evs @ evs', Some e)
           | (evs', None) \<Rightarrow>
               (case detectHookCycles (pe_range_hooks env 2 (cf_Hooks cfg)) of
                  Inl p \<Rightarrow> Inl p
                | Inr (evs'', r) \<Rightarrow> Inr (evs @ evs' @ evs'', r))))"

section \<open>Resources provided twice\<close>

fun resourceKindLabel :: "ResourceKind \<Rightarrow> string" where
  "resourceKindLabel ResourcePath = ''path''"
| "resourceKindLabel ResourceUser = ''user''"
| "resourceKindLabel ResourceGroup = ''group''"
| "resourceKindLabel ResourceRef = ''ref''"
| "resourceKindLabel _ = ''resource''"

fun resourceKindHint :: "ResourceKind \<Rightarrow> string" where
  "resourceKindHint ResourceUser = ''merge into a single posix.user step or use distinct names''"
| "resourceKindHint ResourceGroup = ''merge into a single posix.group step or use distinct names''"
| "resourceKindHint ResourcePath =
     ''two steps cannot manage the same path - merge them or pick distinct destinations''"
| "resourceKindHint _ = ''two steps cannot provide the same resource - remove or rename one''"

text \<open>The verb %d of fmt.\<close>

definition fmt_d :: "int \<Rightarrow> string" where
  "fmt_d n = (if n < 0 then ''-'' @ Itoa (nat (- n)) else Itoa (nat n))"

definition formatSpan :: "Span \<Rightarrow> string" where
  "formatSpan s =
     (if sp_Filename s = [] then ''(unknown location)''
      else if sp_StartLine s = 0 then sp_Filename s
      else sp_Filename s @ '':'' @ fmt_d (sp_StartLine s))"

definition duplicate_error :: "Resource \<Rightarrow> DeclaredStep \<Rightarrow> DeclaredStep \<Rightarrow> engine_error" where
  "duplicate_error r cur prev =
     DuplicateResourceError r (resourceKindLabel (res_kind r)) (resourceKindHint (res_kind r))
       (ds_Kind cur) (ds_Desc cur) (ds_Span cur)
       (ds_Kind prev) (ds_Desc prev) (ds_Span prev) (formatSpan (ds_Span prev))"

record dup_state =
  du_winners :: "Resource \<rightharpoonup> nat"
  du_causes :: "err list"
  du_events :: "Event list"

fun dup_resources ::
  "(nat \<Rightarrow> DeclaredStep) \<Rightarrow> (nat \<Rightarrow> nat) \<Rightarrow> nat \<Rightarrow> Resource list \<Rightarrow> dup_state \<Rightarrow> dup_state" where
  "dup_resources decl didx i [] st = st"
| "dup_resources decl didx i (r # rs) st =
     (case du_winners st r of
        None \<Rightarrow> dup_resources decl didx i rs (st\<lparr>du_winners := (du_winners st)(r \<mapsto> i)\<rparr>)
      | Some prevIdx \<Rightarrow>
          (let cur = decl (didx i);
               e = raised (duplicate_error r cur (decl (didx prevIdx)))
           in case emitPlanDiagnostic (int (didx i)) (ds_Kind cur) (ds_Desc cur) (Some e) of
                (evs, _, _) \<Rightarrow>
                  dup_resources decl didx i rs
                    (st\<lparr>du_causes := du_causes st @ [e], du_events := du_events st @ evs\<rparr>)))"

definition detectDuplicateProvides ::
  "Step list \<Rightarrow> nat list \<Rightarrow> DeclaredStep list \<Rightarrow> Event list \<times> err option" where
  "detectDuplicateProvides steps declaredIdx declared =
     (let st = fold (\<lambda>i st. case step_provides (steps ! i) of
                               None \<Rightarrow> st
                             | Some rs \<Rightarrow> dup_resources ((!) declared) ((!) declaredIdx) i rs st)
                    [0..<length steps] \<lparr>du_winners = Map.empty, du_causes = [], du_events = []\<rparr>
      in if length (du_causes st) > 0 then (du_events st, Some (AbortError (du_causes st)))
         else (du_events st, None))"

section \<open>Cycles\<close>

text \<open>
  What DependsOn answers for an op pointer. The search enters every op and every op it
  depends on at most once, which bounds the fuel.
\<close>

definition op_neighbors :: "Op list \<Rightarrow> nat \<Rightarrow> nat list" where
  "op_neighbors heap p = (case List.find (\<lambda>op. op_id op = p) heap of Some op \<Rightarrow> op_deps op | None \<Rightarrow> [])"

definition plan_ops :: "Step list \<Rightarrow> Op list" where
  "plan_ops steps = concat (map step_ops steps)"

definition op_fuel :: "Op list \<Rightarrow> nat" where
  "op_fuel heap = Suc (length (concat (map (\<lambda>op. op_id op # op_deps op) heap)))"

definition DetectPlanCycles :: "plan_env \<Rightarrow> Step list \<Rightarrow> go_panic + Event list \<times> err option" where
  "DetectPlanCycles env steps =
     (let heap = plan_ops steps @ pe_Heap env in
      case detectCycles (op_fuel heap) (map op_id (plan_ops steps)) (op_neighbors heap) of
        None \<Rightarrow> Inl stack_overflow
      | Some raw \<Rightarrow>
          (let errors = map (\<lambda>cycle. CyclicDependencyError (map (pe_opID env) cycle))
                            (dedupCycles (pe_OpKey env) raw)
           in if length errors > 0 then Inr (map Diagnostic errors, Some (AbortError (map raised errors)))
              else Inr ([], None)))"

definition stepID :: "(Step \<Rightarrow> string) \<Rightarrow> Step \<Rightarrow> string" where
  "stepID ptr act = (if step_desc act \<noteq> [] then step_desc act else step_kind act @ ''@'' @ ptr act)"

definition DetectStepCycles :: "plan_env \<Rightarrow> stepNode list \<Rightarrow> go_panic + Event list \<times> err option" where
  "DetectStepCycles env nodes =
     (case detectCycles (Suc (length nodes)) [0..<length nodes] (\<lambda>n. sn_requires (nodes ! n)) of
        None \<Rightarrow> Inl stack_overflow
      | Some raw \<Rightarrow>
          (let errors = map (\<lambda>cycle. StepCyclicDependencyError
                                       (map (\<lambda>n. stepID (pe_StepPtr env) (sn_step (nodes ! n))) cycle))
                            (dedupCycles (pe_NodeKey env) raw)
           in if length errors > 0 then Inr (map Diagnostic errors, Some (AbortError (map raised errors)))
              else Inr ([], None)))"

section \<open>The plan\<close>

record Plan =
  pl_ID :: string
  pl_TargetName :: string
  pl_Steps :: "Step list"

record hookPlan =
  hp_steps :: "string \<rightharpoonup> Step list"
  hp_onChange :: "nat \<rightharpoonup> string list"

type_synonym plan_answer = "go_panic + Event list \<times> (err + Plan \<times> nat list list \<times> hookPlan)"

text \<open>One check of the chain: its events come after those so far, its error ends the function.\<close>

definition then_check ::
  "Event list \<Rightarrow> go_panic + Event list \<times> err option \<Rightarrow> (Event list \<Rightarrow> plan_answer) \<Rightarrow> plan_answer" where
  "then_check evs r k =
     (case r of
        Inl p \<Rightarrow> Inl p
      | Inr (evs', Some e) \<Rightarrow> Inr (evs @ evs', Inl e)
      | Inr (evs', None) \<Rightarrow> k (evs @ evs'))"

definition plan :: "plan_env \<Rightarrow> Config \<Rightarrow> Capability \<Rightarrow> plan_answer" where
  "plan env cfg tgtCaps =
     (case planSteps env (cf_Steps cfg) tgtCaps of
        Inl p \<Rightarrow> Inl p
      | Inr ps \<Rightarrow>
          (case planHooks env (cf_Hooks cfg) tgtCaps of
             Inl p \<Rightarrow> Inl p
           | Inr ph \<Rightarrow>
               (let causes = ps_causes ps @ ph_causes ph;
                    impacts = ps_impacts ps @ ph_impacts ph;
                    evs = ps_events ps @ ph_events ph;
                    steps = ps_steps ps;
                    p = \<lparr>pl_ID = cf_DeployName cfg, pl_TargetName = cf_TargetName cfg, pl_Steps = steps\<rparr>;
                    hp = \<lparr>hp_steps = ph_planned ph, hp_onChange = ps_onChange ps\<rparr>;
                    nodes = buildStepGraph (pe_range_producers env) steps
                in if list_ex ShouldAbort impacts then Inr (evs, Inl (AbortError causes))
                   else then_check evs (validateHooks env cfg (ph_planned ph)) (\<lambda>evs.
                        then_check evs (Inr (detectDuplicateProvides steps (ps_declaredIdx ps) (cf_Steps cfg))) (\<lambda>evs.
                        then_check evs (DetectPlanCycles env steps) (\<lambda>evs.
                        then_check evs (DetectStepCycles env nodes) (\<lambda>evs.
                        Inr (evs, Inr (p, extractStepDeps nodes, hp)))))))))"

section \<open>The renderable detail of a plan\<close>

record PlannedOp =
  po_Index :: nat
  po_DisplayID :: string
  po_DependsOn :: "nat list"
  po_Description :: "string option"

record PlannedStep =
  pt_Index :: nat
  pt_Desc :: string
  pt_Kind :: string
  pt_DependsOn :: "nat list"
  pt_Ops :: "PlannedOp list"

record PlanDetail =
  pd_DeployID :: string
  pd_TargetName :: string
  pd_Steps :: "PlannedStep list"

text \<open>
  What Describe answers for an op that has a description is the parameter \<open>describe\<close>. The op
  index maps a pointer to the last position it was listed at; a pointer it does not
  hold reads as 0.
\<close>

definition opIndex :: "Op list \<Rightarrow> nat \<Rightarrow> nat" where
  "opIndex allOps p =
     (case fold (\<lambda>i m. m(op_id (allOps ! i) \<mapsto> i)) [0..<length allOps] Map.empty p of
        Some i \<Rightarrow> i | None \<Rightarrow> 0)"

definition plannedOps :: "(Op \<Rightarrow> string option) \<Rightarrow> Op list \<Rightarrow> PlannedOp list" where
  "plannedOps describe allOps =
     map (\<lambda>i. \<lparr>po_Index = i, po_DisplayID = op_display (allOps ! i),
                po_DependsOn = map (opIndex allOps) (op_deps (allOps ! i)),
                po_Description = describe (allOps ! i)\<rparr>) [0..<length allOps]"

definition stepOpBase :: "Step list \<Rightarrow> nat \<Rightarrow> nat" where
  "stepOpBase steps i = length (plan_ops (take i steps))"

definition planDetail :: "(Op \<Rightarrow> string option) \<Rightarrow> Plan \<Rightarrow> nat list list \<Rightarrow> PlanDetail" where
  "planDetail describe p stepDeps =
     (let steps = pl_Steps p; allOps = plan_ops steps; planned = plannedOps describe allOps
      in \<lparr>pd_DeployID = pl_ID p, pd_TargetName = pl_TargetName p,
          pd_Steps = map (\<lambda>i.
            \<lparr>pt_Index = i, pt_Desc = step_desc (steps ! i), pt_Kind = step_kind (steps ! i),
             pt_DependsOn = (if i < length stepDeps then stepDeps ! i else []),
             pt_Ops = take (length (step_ops (steps ! i))) (drop (stepOpBase steps i) planned)\<rparr>)
            [0..<length steps]\<rparr>)"

fun resolvedIndex :: "Config list \<Rightarrow> Config \<Rightarrow> int" where
  "resolvedIndex [] res = - 1"
| "resolvedIndex (r # rs) res =
     (if cf_DeployName r = cf_DeployName res \<and> cf_TargetName r = cf_TargetName res then 0
      else (let i = resolvedIndex rs res in if i < 0 then - 1 else i + 1))"

end
