(* ===== verification/Hooks.thy ===== *)
theory Hooks
  imports Planning Op_Scheduler
begin

text \<open>
  Running hooks (internal/engine/hooks.go) and converging one deploy (converge.go). The hooks
  notified by changed steps are put in a queue; a hook whose steps change something notifies
  the hooks of its own on_change. What running one step answers is the parameter \<open>run\<close>, called
  with the step's index, the step and the hook: runCheckStep or runStep of the op scheduler.
\<close>

section \<open>The queue\<close>

record hook_queue =
  hq_queue :: "string list"
  hq_notified :: "string set"
  hq_triggerBy :: "string \<rightharpoonup> string"

definition notify_one :: "string \<Rightarrow> string \<Rightarrow> hook_queue \<Rightarrow> hook_queue" where
  "notify_one trigger hookID q =
     (if hookID \<notin> hq_notified q
      then \<lparr>hq_queue = hq_queue q @ [hookID], hq_notified = insert hookID (hq_notified q),
            hq_triggerBy = (hq_triggerBy q)(hookID \<mapsto> trigger)\<rparr>
      else q)"

definition notify :: "string \<Rightarrow> string list \<Rightarrow> hook_queue \<Rightarrow> hook_queue" where
  "notify trigger ids q = fold (notify_one trigger) ids q"

definition report_desc :: "StepReport \<Rightarrow> string" where
  "report_desc ar = (case sr_step ar of Some act \<Rightarrow> step_desc act | None \<Rightarrow> [])"

definition collect_notified :: "hookPlan \<Rightarrow> bool \<Rightarrow> StepReport list \<Rightarrow> hook_queue" where
  "collect_notified hp checkOnly steps =
     fold (\<lambda>i q. case hp_onChange hp i of
                   None \<Rightarrow> q
                 | Some onChange \<Rightarrow>
                     if stepChanged (steps ! i) checkOnly
                     then notify (report_desc (steps ! i)) onChange q else q)
          [0..<length steps] \<lparr>hq_queue = [], hq_notified = {}, hq_triggerBy = Map.empty\<rparr>"

section \<open>Running hooks\<close>

text \<open>
  \<open>hx_log\<close> holds the hooks whose steps were run, in that order, with their reports; the report
  slice of the code is their concatenation.
\<close>

record hook_run =
  hx_queue :: hook_queue
  hx_executed :: "string set"
  hx_log :: "(string \<times> StepReport list) list"
  hx_events :: "Event list"

definition hookReports :: "hook_run \<Rightarrow> StepReport list" where
  "hookReports s = concat (map snd (hx_log s))"

type_synonym run_step = "nat \<Rightarrow> Step \<Rightarrow> string \<Rightarrow> step_result"

text \<open>The steps of one hook until the first error: their reports, the error, the events.\<close>

fun run_hook_steps :: "run_step \<Rightarrow> string \<Rightarrow> nat \<Rightarrow> Step list \<Rightarrow> go_panic + StepReport list \<times> err option \<times> Event list" where
  "run_hook_steps run hookID hookIdx [] = Inr ([], None, [])"
| "run_hook_steps run hookID hookIdx (act # acts) =
     (case run hookIdx act hookID of
        Inl p \<Rightarrow> Inl p
      | Inr (ar, Some e, evs) \<Rightarrow> Inr ([ar], Some e, evs)
      | Inr (ar, None, evs) \<Rightarrow>
          (case run_hook_steps run hookID (Suc hookIdx) acts of
             Inl p \<Rightarrow> Inl p
           | Inr (ars, e, evs') \<Rightarrow> Inr (ar # ars, e, evs @ evs')))"

text \<open>
  The loop over the queue, from position \<open>i\<close>. A name enters the queue at most once, so the
  names referred to bound the fuel (\<open>hook_loop_fuel\<close>); \<open>None\<close> is running out of it.
\<close>

primrec hook_loop ::
  "nat \<Rightarrow> run_step \<Rightarrow> hooks \<Rightarrow> (string \<rightharpoonup> Step list) \<Rightarrow> bool \<Rightarrow> nat \<Rightarrow> nat \<Rightarrow> hook_run
     \<Rightarrow> (go_panic + hook_run \<times> err option) option" where
  "hook_loop 0 run hooks planned checkOnly base i s = None"
| "hook_loop (Suc fuel) run hooks planned checkOnly base i s =
     (if i < length (hq_queue (hx_queue s)) then
        (let hookID = hq_queue (hx_queue s) ! i in
         if hookID \<in> hx_executed s then hook_loop fuel run hooks planned checkOnly base (Suc i) s
         else
           (let s1 = s\<lparr>hx_executed := insert hookID (hx_executed s)\<rparr> in
            case planned hookID of
              None \<Rightarrow> hook_loop fuel run hooks planned checkOnly base (Suc i) s1
            | Some steps \<Rightarrow>
                (case run_hook_steps run hookID (base + length (hookReports s1)) steps of
                   Inl p \<Rightarrow> Some (Inl p)
                 | Inr (ars, hookErr, evs) \<Rightarrow>
                     (let s2 = s1\<lparr>hx_log := hx_log s1 @ [(hookID, ars)], hx_events := hx_events s1 @ evs\<rparr>;
                          anyChanged = list_ex (\<lambda>ar. stepChanged ar checkOnly) ars
                      in (case hookErr of
                            Some e \<Rightarrow> Some (Inr (s2, Some e))
                          | None \<Rightarrow>
                              (let s3 = (if anyChanged
                                         then s2\<lparr>hx_queue := notify (''hook:'' @ hookID) (hook_adj hooks hookID) (hx_queue s2)\<rparr>
                                         else s2)
                               in hook_loop fuel run hooks planned checkOnly base (Suc i) s3))))))
      else Some (Inr (s, None)))"

definition hook_names :: "hookPlan \<Rightarrow> nat \<Rightarrow> hooks \<Rightarrow> string list" where
  "hook_names hp n hooks =
     concat (map (\<lambda>i. case hp_onChange hp i of Some ids \<Rightarrow> ids | None \<Rightarrow> []) [0..<n])
     @ concat (map (\<lambda>(hid, ds). concat (map ds_OnChange ds)) hooks)"

definition hook_loop_fuel :: "hookPlan \<Rightarrow> nat \<Rightarrow> hooks \<Rightarrow> nat" where
  "hook_loop_fuel hp n hooks = Suc (length (hook_names hp n hooks))"

text \<open>A planned hook is a hook of the configuration, which is how the empty map is recognised.\<close>

definition no_planned_hooks :: "hooks \<Rightarrow> (string \<rightharpoonup> Step list) \<Rightarrow> bool" where
  "no_planned_hooks hooks planned \<longleftrightarrow> list_all (\<lambda>(hid, ds). planned hid = None) hooks"

definition executeHooks ::
  "run_step \<Rightarrow> hooks \<Rightarrow> StepReport list \<Rightarrow> hookPlan \<Rightarrow> bool \<Rightarrow> (go_panic + hook_run \<times> err option) option" where
  "executeHooks run hooks steps hp checkOnly =
     (let q0 = \<lparr>hx_queue = \<lparr>hq_queue = [], hq_notified = {}, hq_triggerBy = Map.empty\<rparr>,
                hx_executed = {}, hx_log = [], hx_events = []\<rparr>
      in if no_planned_hooks hooks (hp_steps hp) then Some (Inr (q0, None))
         else hook_loop (hook_loop_fuel hp (length steps) hooks) run hooks (hp_steps hp) checkOnly
                (length steps) 0 (q0\<lparr>hx_queue := collect_notified hp checkOnly steps\<rparr>))"

section \<open>Converging\<close>

text \<open>
  What ExecutePlan or CheckPlan answers for a plan is a parameter: its report, the resources
  check found to be provided, its error; the run of a hook step may depend on those resources.
\<close>

definition converge ::
  "plan_env \<Rightarrow> Config \<Rightarrow> Capability \<Rightarrow> bool \<Rightarrow> (Plan \<Rightarrow> Execution \<times> Resource set \<times> err option)
     \<Rightarrow> (Resource set \<Rightarrow> run_step) \<Rightarrow> (go_panic + Execution \<times> err option) option" where
  "converge env cfg caps checkOnly runPlan run =
     (case plan env cfg caps of
        Inl p \<Rightarrow> Some (Inl p)
      | Inr (_, Inl e) \<Rightarrow> Some (Inr (\<lparr>ex_steps = [], ex_err = None\<rparr>, Some e))
      | Inr (_, Inr (p, _, hp)) \<Rightarrow>
          (case runPlan p of
             (rep, _, Some e) \<Rightarrow> Some (Inr (rep, Some e))
           | (rep, providedPaths, None) \<Rightarrow>
               (case executeHooks (run providedPaths) (cf_Hooks cfg) (ex_steps rep) hp checkOnly of
                  None \<Rightarrow> None
                | Some (Inl pn) \<Rightarrow> Some (Inl pn)
                | Some (Inr (s, Some e)) \<Rightarrow> Some (Inr (rep, Some e))
                | Some (Inr (s, None)) \<Rightarrow> Some (Inr (rep\<lparr>ex_steps := ex_steps rep @ hookReports s\<rparr>, None)))))"

section \<open>The loop's invariant\<close>

text \<open>A hook was notified by a changed step, or by a changed hook that was run before it.\<close>

definition step_notifies :: "hookPlan \<Rightarrow> bool \<Rightarrow> StepReport list \<Rightarrow> string set" where
  "step_notifies hp checkOnly steps =
     {h. \<exists>i ids. i < length steps \<and> hp_onChange hp i = Some ids \<and> stepChanged (steps ! i) checkOnly \<and> h \<in> set ids}"

definition hook_notifies :: "hooks \<Rightarrow> bool \<Rightarrow> (string \<times> StepReport list) list \<Rightarrow> string set" where
  "hook_notifies hooks checkOnly log =
     {h. \<exists>(h', ars) \<in> set log. list_ex (\<lambda>ar. stepChanged ar checkOnly) ars \<and> h \<in> set (hook_adj hooks h')}"

definition queue_ok :: "hook_queue \<Rightarrow> bool" where
  "queue_ok q \<longleftrightarrow> distinct (hq_queue q) \<and> hq_notified q = set (hq_queue q)"

lemma notify_one_ok:
  "queue_ok q \<Longrightarrow> queue_ok (notify_one t h q) \<and> set (hq_queue (notify_one t h q)) = insert h (set (hq_queue q))
     \<and> (\<exists>ys. hq_queue (notify_one t h q) = hq_queue q @ ys)"
  by (auto simp: queue_ok_def notify_one_def)

lemma notify_ok:
  "queue_ok q \<Longrightarrow> queue_ok (notify t ids q) \<and> set (hq_queue (notify t ids q)) = set (hq_queue q) \<union> set ids
     \<and> (\<exists>ys. hq_queue (notify t ids q) = hq_queue q @ ys)"
  unfolding notify_def
proof (induction ids arbitrary: q)
  case (Cons h ids)
  from notify_one_ok [OF Cons.prems, of t h] Cons.IH [of "notify_one t h q"] show ?case by auto
qed simp

lemma collect_notified_ok:
  "queue_ok (collect_notified hp checkOnly steps)
   \<and> set (hq_queue (collect_notified hp checkOnly steps)) = step_notifies hp checkOnly steps"
proof -
  have "queue_ok (fold (\<lambda>i q. case hp_onChange hp i of None \<Rightarrow> q
      | Some ids \<Rightarrow> if stepChanged (steps ! i) checkOnly then notify (report_desc (steps ! i)) ids q else q) is q)
    \<and> set (hq_queue (fold (\<lambda>i q. case hp_onChange hp i of None \<Rightarrow> q
      | Some ids \<Rightarrow> if stepChanged (steps ! i) checkOnly then notify (report_desc (steps ! i)) ids q else q) is q))
      = set (hq_queue q) \<union> {h. \<exists>i ids. i \<in> set is \<and> hp_onChange hp i = Some ids
          \<and> stepChanged (steps ! i) checkOnly \<and> h \<in> set ids}" if "queue_ok q" for "is" q
    using that
  proof (induction "is" arbitrary: q)
    case (Cons i "is")
    let ?q = "case hp_onChange hp i of None \<Rightarrow> q
      | Some ids \<Rightarrow> if stepChanged (steps ! i) checkOnly then notify (report_desc (steps ! i)) ids q else q"
    have "queue_ok ?q \<and> set (hq_queue ?q) = set (hq_queue q) \<union>
        {h. \<exists>ids. hp_onChange hp i = Some ids \<and> stepChanged (steps ! i) checkOnly \<and> h \<in> set ids}"
      using notify_ok [OF Cons.prems] Cons.prems by (auto split: option.split)
    with Cons.IH [of ?q] show ?case by auto
  qed simp
  from this [of "\<lparr>hq_queue = [], hq_notified = {}, hq_triggerBy = Map.empty\<rparr>" "[0..<length steps]"]
  show ?thesis by (simp add: collect_notified_def step_notifies_def queue_ok_def)
qed

definition hooks_run_ok ::
  "hookPlan \<Rightarrow> hooks \<Rightarrow> bool \<Rightarrow> StepReport list \<Rightarrow> nat \<Rightarrow> hook_run \<Rightarrow> bool" where
  "hooks_run_ok hp hooks checkOnly steps i s \<longleftrightarrow>
     queue_ok (hx_queue s) \<and> i \<le> length (hq_queue (hx_queue s))
   \<and> set (hq_queue (hx_queue s)) = step_notifies hp checkOnly steps \<union> hook_notifies hooks checkOnly (hx_log s)
   \<and> hx_executed s = set (take i (hq_queue (hx_queue s)))
   \<and> map fst (hx_log s) = filter (\<lambda>h. hp_steps hp h \<noteq> None) (take i (hq_queue (hx_queue s)))"

end
