(* ===== verification/Plan_Steps.thy ===== *)
theory Plan_Steps
  imports Planning
begin

text \<open>
  What planSteps and planHooks keep of what was declared (Planning): which steps survive,
  that the target offers every capability of theirs, and which errors are kept.
\<close>

section \<open>Capabilities\<close>

lemma fold_caps: "HasAll c (fold (\<lambda>op caps. caps OR op_caps op) ops a)
    \<longleftrightarrow> HasAll c a \<and> (\<forall>op \<in> set ops. HasAll c (op_caps op))"
  by (induction ops arbitrary: a) (auto simp: HasAll_OR)

lemma collectRequiredCaps_iff:
  "HasAll c (collectRequiredCaps act) \<longleftrightarrow> (\<forall>op \<in> set (step_ops act). HasAll c (op_caps op))"
  by (simp add: collectRequiredCaps_def fold_caps)

section \<open>One step\<close>

text \<open>An error asks for an abort when the diagnostic raised for it does.\<close>

definition err_aborts :: "err \<Rightarrow> bool" where
  "err_aborts e \<longleftrightarrow> (case as_Raisable e of Some ev \<Rightarrow> aborts ev | None \<Rightarrow> False)"

lemma emitPlanDiagnostic_cases:
  "\<exists>evs c. emitPlanDiagnostic i k d (Some e) = (evs, if err_aborts e then ImpactAbort else ImpactNone, c)
     \<and> (err_aborts e \<longrightarrow> list_ex aborts evs)"
  by (auto simp: emit_defs emitScopedDiagnostic_def err_aborts_def split: option.split)

lemma err_aborts_raised [simp]: "err_aborts (raised e)"
  by (simp add: err_aborts_def raised_def Diagnostic_def ShouldAbort_def)

lemma ShouldAbort_simps [simp]: "ShouldAbort ImpactAbort" "\<not> ShouldAbort ImpactNone"
  by (simp_all add: ShouldAbort_def)

text \<open>The step a declaration ends up as, when it is kept.\<close>

definition survives :: "plan_env \<Rightarrow> Capability \<Rightarrow> DeclaredStep \<Rightarrow> Step option" where
  "survives env caps d =
     (case pe_Plan env d of
        (Some act, e) \<Rightarrow>
          if HasAll caps (collectRequiredCaps act) \<and> (case e of None \<Rightarrow> True | Some e' \<Rightarrow> \<not> err_aborts e')
          then Some act else None
      | (None, _) \<Rightarrow> None)"

text \<open>Planning the declaration ends the whole plan.\<close>

definition plan_fatal :: "plan_env \<Rightarrow> Capability \<Rightarrow> DeclaredStep \<Rightarrow> bool" where
  "plan_fatal env caps d =
     (case pe_Plan env d of
        (Some act, e) \<Rightarrow> \<not> HasAll caps (collectRequiredCaps act) \<or> (case e of None \<Rightarrow> False | Some e' \<Rightarrow> err_aborts e')
      | (None, Some e) \<Rightarrow> err_aborts e
      | (None, None) \<Rightarrow> False)"

definition plan_clean :: "plan_env \<Rightarrow> Capability \<Rightarrow> DeclaredStep \<Rightarrow> bool" where
  "plan_clean env caps d =
     (case pe_Plan env d of (Some act, None) \<Rightarrow> HasAll caps (collectRequiredCaps act) | _ \<Rightarrow> False)"

definition kind_ok :: "plan_env \<Rightarrow> DeclaredStep \<Rightarrow> bool" where
  "kind_ok env d \<longleftrightarrow> pe_Plan env d \<noteq> (None, None)"

lemma planOneStep_panics: "kind_ok env d \<Longrightarrow> \<exists>a. planOneStep env d i caps = Inr a \<and> a \<noteq> (None, None)"
  by (cases "pe_Plan env d") (auto simp: kind_ok_def planOneStep_def Let_def split: option.split)

text \<open>The four ways one step of the loop over declared steps can go.\<close>

lemma plan_decl_cases:
  assumes "planOneStep env d (int i) caps = Inr a" and "plan_decl i d a st = Inr st'"
  obtains (kept) act where "survives env caps d = Some act" "\<not> plan_fatal env caps d" "plan_clean env caps d"
      "st' = keep_step i d act st"
  | (warned) act evs where "survives env caps d = Some act" "\<not> plan_fatal env caps d" "\<not> plan_clean env caps d"
      "st' = keep_step i d act (st\<lparr>ps_impacts := ps_impacts st @ [ImpactNone], ps_events := ps_events st @ evs\<rparr>)"
  | (dropped) e evs where "survives env caps d = None" "\<not> plan_fatal env caps d" "\<not> plan_clean env caps d"
      "pe_Plan env d = (None, Some e)"
      "st' = st\<lparr>ps_impacts := ps_impacts st @ [ImpactNone], ps_events := ps_events st @ evs,
                 ps_causes := ps_causes st @ [e]\<rparr>"
  | (fatal) e evs where "survives env caps d = None" "plan_fatal env caps d" "\<not> plan_clean env caps d"
      "list_ex aborts evs"
      "st' = st\<lparr>ps_impacts := ps_impacts st @ [ImpactAbort], ps_events := ps_events st @ evs,
                 ps_causes := ps_causes st @ [e]\<rparr>"
proof -
  obtain planned e where p: "pe_Plan env d = (planned, e)" by fastforce
  show thesis
  proof (cases planned)
    case None
    with assms p obtain e' where e: "e = Some e'" "a = (None, Some e')"
      by (auto simp: planOneStep_def split: option.splits)
    from emitPlanDiagnostic_cases [of "int i" "ds_Kind d" "ds_Desc d" e'] obtain evs c where
      em: "emitPlanDiagnostic (int i) (ds_Kind d) (ds_Desc d) (Some e') =
        (evs, if err_aborts e' then ImpactAbort else ImpactNone, c)" "err_aborts e' \<longrightarrow> list_ex aborts evs" by blast
    show thesis
      using dropped [of e' evs] fatal [of evs e'] assms(2) p None e em
      by (cases "err_aborts e'") (auto simp: plan_decl_def survives_def plan_fatal_def plan_clean_def)
  next
    case (Some act)
    show thesis
    proof (cases "HasAll caps (collectRequiredCaps act)")
      case False
      then have "and_not (collectRequiredCaps act) caps \<noteq> 0" by (simp add: and_not_eq_0_iff)
      with assms p Some obtain e' where a: "a = (None, Some (raised e'))"
        by (auto simp: planOneStep_def Let_def)
      from emitPlanDiagnostic_cases [of "int i" "ds_Kind d" "ds_Desc d" "raised e'"] obtain evs c where
        em: "emitPlanDiagnostic (int i) (ds_Kind d) (ds_Desc d) (Some (raised e')) = (evs, ImpactAbort, c)"
          "list_ex aborts evs" by auto
      show thesis
        using fatal [of evs "raised e'"] assms(2) p Some a em False
        by (auto simp: plan_decl_def survives_def plan_fatal_def plan_clean_def split: option.split)
    next
      case True
      then have "and_not (collectRequiredCaps act) caps = 0" by (simp add: and_not_eq_0_iff)
      with assms p Some have a: "a = (Some act, e)" by (auto simp: planOneStep_def Let_def)
      show thesis
      proof (cases e)
        case None
        then show thesis using kept [of act] assms(2) p Some a True
          by (auto simp: plan_decl_def survives_def plan_fatal_def plan_clean_def)
      next
        case e: (Some e')
        from emitPlanDiagnostic_cases [of "int i" "ds_Kind d" "ds_Desc d" e'] obtain evs c where
          em: "emitPlanDiagnostic (int i) (ds_Kind d) (ds_Desc d) (Some e') =
            (evs, if err_aborts e' then ImpactAbort else ImpactNone, c)" "err_aborts e' \<longrightarrow> list_ex aborts evs" by blast
        show thesis
          using warned [of act evs] fatal [of evs e'] assms(2) p Some a e em True
          by (cases "err_aborts e'") (auto simp: plan_decl_def survives_def plan_fatal_def plan_clean_def Let_def)
      qed
    qed
  qed
qed

section \<open>The declared steps\<close>

definition on_change_of :: "DeclaredStep list \<Rightarrow> nat list \<Rightarrow> nat \<Rightarrow> string list option" where
  "on_change_of xs idx k =
     (if k < length idx \<and> ds_OnChange (xs ! (idx ! k)) \<noteq> [] then Some (ds_OnChange (xs ! (idx ! k))) else None)"

text \<open>What holds after the first \<open>i\<close> declarations \<open>xs\<close>.\<close>

definition steps_inv :: "plan_env \<Rightarrow> Capability \<Rightarrow> DeclaredStep list \<Rightarrow> nat \<Rightarrow> planned_steps \<Rightarrow> bool" where
  "steps_inv env caps xs i st \<longleftrightarrow>
     ps_declaredIdx st = filter (\<lambda>k. survives env caps (xs ! k) \<noteq> None) [0..<i]
   \<and> ps_steps st = map (\<lambda>k. the (survives env caps (xs ! k))) (ps_declaredIdx st)
   \<and> ps_onChange st = on_change_of xs (ps_declaredIdx st)
   \<and> (list_ex ShouldAbort (ps_impacts st) \<longleftrightarrow> list_ex (plan_fatal env caps) (take i xs))
   \<and> (list_ex ShouldAbort (ps_impacts st) \<longrightarrow> ps_causes st \<noteq> [] \<and> list_ex aborts (ps_events st))
   \<and> (list_all (plan_clean env caps) (take i xs) \<longrightarrow>
        ps_impacts st = [] \<and> ps_causes st = [] \<and> ps_events st = [])"

lemma on_change_of_snoc:
  "on_change_of xs (idx @ [i]) =
     (if length (ds_OnChange (xs ! i)) > 0
      then (on_change_of xs idx)(length idx \<mapsto> ds_OnChange (xs ! i)) else on_change_of xs idx)"
  by (rule ext) (auto simp: on_change_of_def nth_append less_Suc_eq)

lemma steps_inv_keep:
  assumes "steps_inv env caps xs i st" and "i < length xs" and "survives env caps (xs ! i) = Some act"
    and "\<not> plan_fatal env caps (xs ! i)"
    and "st1 = st\<lparr>ps_impacts := ps_impacts st @ imps, ps_events := ps_events st @ evs\<rparr>"
    and "imps = [] \<and> evs = [] \<or> imps = [ImpactNone] \<and> \<not> plan_clean env caps (xs ! i)"
  shows "steps_inv env caps xs (Suc i) (keep_step i (xs ! i) act st1)"
  using assms on_change_of_snoc [of xs "ps_declaredIdx st" i]
  by (auto simp: steps_inv_def keep_step_def take_Suc_conv_app_nth)

lemma steps_inv_drop:
  assumes "steps_inv env caps xs i st" and "i < length xs" and "survives env caps (xs ! i) = None"
    and "\<not> plan_clean env caps (xs ! i)"
    and "imp = ImpactAbort \<and> plan_fatal env caps (xs ! i) \<and> list_ex aborts evs
         \<or> imp = ImpactNone \<and> \<not> plan_fatal env caps (xs ! i)"
  shows "steps_inv env caps xs (Suc i)
    (st\<lparr>ps_impacts := ps_impacts st @ [imp], ps_events := ps_events st @ evs, ps_causes := ps_causes st @ [e]\<rparr>)"
  using assms by (auto simp: steps_inv_def take_Suc_conv_app_nth)

lemma planSteps_loop_inv:
  assumes "planSteps_loop env caps i ds st = Inr st'" and "steps_inv env caps xs i st" and "ds = drop i xs"
    and "i \<le> length xs"
  shows "steps_inv env caps xs (length xs) st'"
  using assms
proof (induction ds arbitrary: i st)
  case Nil
  then show ?case by simp
next
  case (Cons d ds)
  from Cons.prems(3,4) have i: "i < length xs" and d: "d = xs ! i" and ds: "ds = drop (Suc i) xs"
    by (metis drop_eq_Nil le_neq_implies_less list.distinct(1) drop_all,
        metis Cons_nth_drop_Suc drop_eq_Nil linorder_not_le list.distinct(1) list.inject,
        metis Cons_nth_drop_Suc drop_eq_Nil linorder_not_le list.distinct(1) list.inject)
  from Cons.prems(1) obtain a st1 where a: "planOneStep env d (int i) caps = Inr a"
    and st1: "plan_decl i d a st = Inr st1" and run: "planSteps_loop env caps (Suc i) ds st1 = Inr st'"
    by (auto split: sum.splits)
  from a st1 have "steps_inv env caps xs (Suc i) st1"
  proof (cases rule: plan_decl_cases)
    case (kept act)
    with steps_inv_keep [OF Cons.prems(2) i, where imps = "[]" and evs = "[]"] d show ?thesis by simp
  next
    case (warned act evs)
    with steps_inv_keep [OF Cons.prems(2) i, where imps = "[ImpactNone]"] d show ?thesis by simp
  next
    case (dropped e evs)
    with steps_inv_drop [OF Cons.prems(2) i, where imp = ImpactNone] d show ?thesis by simp
  next
    case (fatal e evs)
    with steps_inv_drop [OF Cons.prems(2) i, where imp = ImpactAbort] d show ?thesis by simp
  qed
  with Cons.IH [OF run _ ds] i show ?case by simp
qed

lemma planSteps_loop_returns:
  "(\<And>d. d \<in> set ds \<Longrightarrow> kind_ok env d) \<Longrightarrow> \<exists>st'. planSteps_loop env caps i ds st = Inr st'"
proof (induction ds arbitrary: i st)
  case (Cons d ds)
  from planOneStep_panics [of env d "int i" caps] Cons.prems obtain a where
    a: "planOneStep env d (int i) caps = Inr a" "a \<noteq> (None, None)" by auto
  have "\<exists>st1. plan_decl i d a st = Inr st1"
    using a(2) by (auto simp: plan_decl_def Let_def split: prod.split option.split)
  then obtain st1 where "plan_decl i d a st = Inr st1" ..
  with a Cons show ?case by simp
qed simp

text \<open>The result of planSteps.\<close>

lemma planSteps_spec:
  assumes "planSteps env xs caps = Inr st"
  shows "steps_inv env caps xs (length xs) st"
  using planSteps_loop_inv [of env caps 0 xs no_steps st xs] assms
  by (simp add: planSteps_def steps_inv_def no_steps_def on_change_of_def fun_eq_iff)

lemma planSteps_returns: "(\<And>d. d \<in> set xs \<Longrightarrow> kind_ok env d) \<Longrightarrow> \<exists>st. planSteps env xs caps = Inr st"
  unfolding planSteps_def by (rule planSteps_loop_returns)

lemma map_filter_indices:
  "map (\<lambda>k. the (f (xs ! k))) (filter (\<lambda>k. f (xs ! k) \<noteq> None) [0..<length xs]) = List.map_filter f xs"
proof -
  have "List.map_filter f (map ((!) xs) [0..<length xs])
      = map (\<lambda>k. the (f (xs ! k))) (filter (\<lambda>k. f (xs ! k) \<noteq> None) [0..<length xs])"
    by (simp add: List.map_filter_def filter_map o_def)
  then show ?thesis by (simp add: map_nth)
qed

lemma planSteps_steps:
  "planSteps env xs caps = Inr st \<Longrightarrow> ps_steps st = List.map_filter (survives env caps) xs"
  using planSteps_spec [of env xs caps st] map_filter_indices [of "survives env caps" xs]
  by (simp add: steps_inv_def)

section \<open>The hooks\<close>

lemma planOneStep_clean:
  "planOneStep env d i caps = Inr (Some act, None) \<longleftrightarrow> plan_clean env caps d \<and> survives env caps d = Some act"
proof -
  obtain p e where "pe_Plan env d = (p, e)" by fastforce
  then show ?thesis
    by (cases p; cases e) (auto simp: planOneStep_def plan_clean_def survives_def Let_def and_not_eq_0_iff split: if_splits)
qed

lemma planOneStep_error:
  "planOneStep env d i caps = Inr (planned, Some e) \<Longrightarrow>
     \<not> plan_clean env caps d \<and> plan_fatal env caps d = err_aborts e"
proof -
  obtain p e' where "pe_Plan env d = (p, e')" by fastforce
  then show "planOneStep env d i caps = Inr (planned, Some e) \<Longrightarrow>
      \<not> plan_clean env caps d \<and> plan_fatal env caps d = err_aborts e"
    by (cases p; cases e')
      (auto simp: planOneStep_def plan_clean_def plan_fatal_def Let_def and_not_eq_0_iff split: if_splits)
qed

text \<open>Planning the hook ends the whole plan: its first step that is not clean is fatal.\<close>

fun hook_fatal :: "plan_env \<Rightarrow> Capability \<Rightarrow> DeclaredStep list \<Rightarrow> bool" where
  "hook_fatal env caps [] = False"
| "hook_fatal env caps (d # ds) = (if plan_clean env caps d then hook_fatal env caps ds else plan_fatal env caps d)"

lemma hook_fatal_clean: "list_all (plan_clean env caps) ds \<Longrightarrow> \<not> hook_fatal env caps ds"
  by (induction ds) auto

definition failed_hook :: "bool \<Rightarrow> planned_hooks \<Rightarrow> planned_hooks \<Rightarrow> bool" where
  "failed_hook ab st st' \<longleftrightarrow> (\<exists>imp evs e. ShouldAbort imp = ab \<and> (ab \<longrightarrow> list_ex aborts evs) \<and>
     st' = st\<lparr>ph_impacts := ph_impacts st @ [imp], ph_events := ph_events st @ evs,
             ph_causes := ph_causes st @ [e]\<rparr>)"

lemma plan_hook_spec:
  assumes "plan_hook env caps hid ds hs st = Inr st'"
  shows "if list_all (plan_clean env caps) ds
    then st' = st\<lparr>ph_planned := (ph_planned st)(hid \<mapsto> hs @ map (\<lambda>d. the (survives env caps d)) ds)\<rparr>
    else failed_hook (hook_fatal env caps ds) st st'"
  using assms
proof (induction ds arbitrary: hs)
  case Nil
  then show ?case by simp
next
  case (Cons d ds)
  from Cons.prems obtain a where a: "planOneStep env d (- 1) caps = Inr a" by (auto split: sum.splits)
  obtain planned e where pe: "a = (planned, e)" by fastforce
  show ?case
  proof (cases e)
    case e: (Some e')
    have "\<not> plan_clean env caps d" "plan_fatal env caps d = err_aborts e'"
      using planOneStep_error [of env d "- 1" caps planned e'] a pe e by auto
    moreover from emitPlanDiagnostic_cases [of "- 1" "ds_Kind d" "ds_Desc d" e'] obtain evs c where
      em: "emitPlanDiagnostic (- 1) (ds_Kind d) (ds_Desc d) (Some e') =
        (evs, if err_aborts e' then ImpactAbort else ImpactNone, c)" "err_aborts e' \<longrightarrow> list_ex aborts evs" by blast
    moreover have "failed_hook (err_aborts e') st st'"
      unfolding failed_hook_def using Cons.prems a pe e em
      by (intro exI [of _ "if err_aborts e' then ImpactAbort else ImpactNone"] exI [of _ evs] exI [of _ e']) simp
    ultimately show ?thesis by simp
  next
    case None
    with Cons.prems a pe obtain act where act: "planned = Some act" by (cases planned) auto
    with planOneStep_clean [of env d "- 1" caps] a pe None have
      "plan_clean env caps d" "survives env caps d = Some act" by auto
    moreover have "plan_hook env caps hid ds (hs @ [act]) st = Inr st'" using Cons.prems a pe None act by simp
    from Cons.IH [OF this] have "if list_all (plan_clean env caps) ds
      then st' = st\<lparr>ph_planned := (ph_planned st)(hid \<mapsto> (hs @ [act]) @ map (\<lambda>d. the (survives env caps d)) ds)\<rparr>
      else failed_hook (hook_fatal env caps ds) st st'" .
    ultimately show ?thesis by (simp add: fun_upd_def)
  qed
qed

text \<open>What holds after the hooks \<open>hs\<close>, in the order gone through.\<close>

definition planned_hook :: "plan_env \<Rightarrow> Capability \<Rightarrow> DeclaredStep list \<Rightarrow> Step list option" where
  "planned_hook env caps ds =
     (if list_all (plan_clean env caps) ds then Some (map (\<lambda>d. the (survives env caps d)) ds) else None)"

definition hooks_inv :: "plan_env \<Rightarrow> Capability \<Rightarrow> hooks \<Rightarrow> planned_hooks \<Rightarrow> bool" where
  "hooks_inv env caps hs st \<longleftrightarrow>
     ph_planned st = (\<lambda>hid. case map_of hs hid of None \<Rightarrow> None | Some ds \<Rightarrow> planned_hook env caps ds)
   \<and> (list_ex ShouldAbort (ph_impacts st) \<longleftrightarrow> list_ex (\<lambda>(hid, ds). hook_fatal env caps ds) hs)
   \<and> (list_ex ShouldAbort (ph_impacts st) \<longrightarrow> ph_causes st \<noteq> [] \<and> list_ex aborts (ph_events st))
   \<and> (list_all (\<lambda>(hid, ds). list_all (plan_clean env caps) ds) hs \<longleftrightarrow> ph_impacts st = [])
   \<and> (ph_impacts st = [] \<longrightarrow> ph_causes st = [] \<and> ph_events st = [])"

lemma map_of_snoc:
  "k \<notin> fst ` set hs \<Longrightarrow> map_of (hs @ [(k, v)]) = (map_of hs)(k \<mapsto> v)"
  by (induction hs) (auto simp: fun_eq_iff)

lemma hooks_inv_step:
  assumes "hooks_inv env caps hs st" and "plan_hook env caps hid ds [] st = Inr st'" and "hid \<notin> fst ` set hs"
  shows "hooks_inv env caps (hs @ [(hid, ds)]) st'"
proof -
  have none: "map_of hs hid = None" using assms(3) by (simp add: map_of_eq_None_iff)
  note snoc = map_of_snoc [OF assms(3), of ds]
  show ?thesis
  proof (cases "list_all (plan_clean env caps) ds")
    case True
    with plan_hook_spec [OF assms(2)] have
      "st' = st\<lparr>ph_planned := (ph_planned st)(hid \<mapsto> map (\<lambda>d. the (survives env caps d)) ds)\<rparr>" by simp
    with assms(1) True none hook_fatal_clean [OF True] show ?thesis
      unfolding hooks_inv_def snoc by (auto simp: planned_hook_def fun_eq_iff)
  next
    case False
    with plan_hook_spec [OF assms(2)] have "failed_hook (hook_fatal env caps ds) st st'" by simp
    with assms(1) False none show ?thesis
      unfolding hooks_inv_def failed_hook_def snoc by (auto simp: planned_hook_def fun_eq_iff)
  qed
qed

lemma planHooks_loop_inv:
  assumes "planHooks_loop env caps hs st = Inr st'" and "hooks_inv env caps gone st"
    and "distinct (map fst (gone @ hs))"
  shows "hooks_inv env caps (gone @ hs) st'"
  using assms
proof (induction hs arbitrary: gone st)
  case Nil
  then show ?case by simp
next
  case (Cons h hs)
  obtain hid ds where h: "h = (hid, ds)" by fastforce
  with Cons.prems(1) obtain st1 where st1: "plan_hook env caps hid ds [] st = Inr st1"
    and run: "planHooks_loop env caps hs st1 = Inr st'" by (auto split: sum.splits)
  have "hooks_inv env caps (gone @ [h]) st1"
    using hooks_inv_step [OF Cons.prems(2) st1] Cons.prems(3) h by auto
  from Cons.IH [OF run this] Cons.prems(3) show ?case by simp
qed

lemma plan_hook_returns: "(\<And>d. d \<in> set ds \<Longrightarrow> kind_ok env d) \<Longrightarrow> \<exists>st'. plan_hook env caps hid ds hs st = Inr st'"
proof (induction ds arbitrary: hs)
  case (Cons d ds)
  from planOneStep_panics [of env d "- 1" caps] Cons.prems obtain a where
    a: "planOneStep env d (- 1) caps = Inr a" "a \<noteq> (None, None)" by auto
  from Cons show ?case using a
    by (cases a; cases "fst a"; cases "snd a") (auto split: prod.split)
qed simp

lemma planHooks_loop_returns:
  "(\<And>hid ds d. (hid, ds) \<in> set hs \<Longrightarrow> d \<in> set ds \<Longrightarrow> kind_ok env d) \<Longrightarrow> \<exists>st'. planHooks_loop env caps hs st = Inr st'"
proof (induction hs arbitrary: st)
  case (Cons h hs)
  obtain hid ds where h: "h = (hid, ds)" by fastforce
  obtain st1 where "plan_hook env caps hid ds [] st = Inr st1"
    using plan_hook_returns [of ds env caps hid "[]" st] Cons.prems h by auto
  moreover have "\<exists>st'. planHooks_loop env caps hs st1 = Inr st'"
    using Cons.prems by (intro Cons.IH) auto
  ultimately show ?case using h by simp
qed simp

text \<open>A Go map has one value for every key.\<close>

definition hooks_ok :: "hooks \<Rightarrow> bool" where
  "hooks_ok hs \<longleftrightarrow> distinct (map fst hs)"

lemma map_of_range:
  assumes "map_iteration iter" and "hooks_ok hs"
  shows "map_of (iter l hs) = map_of hs" and "hooks_ok (iter l hs)"
proof -
  have m: "mset (iter l hs) = mset hs" using assms(1) by (simp add: map_iteration_def)
  then have "distinct (map fst (iter l hs))"
    using assms(2) unfolding hooks_ok_def by (metis mset_eq_imp_distinct_iff mset_map)
  then show "hooks_ok (iter l hs)" by (simp add: hooks_ok_def)
  with m assms(2) show "map_of (iter l hs) = map_of hs"
    unfolding hooks_ok_def by (metis map_of_inject_set mset_eq_setD)
qed

lemma planHooks_spec:
  assumes "planHooks env hs caps = Inr st" and "map_iteration (pe_range_hooks env)" and "hooks_ok hs"
  shows "hooks_inv env caps hs st"
proof -
  note it = map_of_range [OF assms(2,3)] map_iteration_set [OF assms(2)]
  have "hooks_inv env caps (pe_range_hooks env 0 hs) st"
    using planHooks_loop_inv [of env caps "pe_range_hooks env 0 hs" no_hooks st "[]"] assms(1) it(2)
    by (simp add: planHooks_def hooks_ok_def hooks_inv_def no_hooks_def)
  then show ?thesis by (simp add: hooks_inv_def it list_all_iff list_ex_iff)
qed

lemma planHooks_returns:
  assumes "map_iteration (pe_range_hooks env)"
    and "\<And>hid ds d. (hid, ds) \<in> set hs \<Longrightarrow> d \<in> set ds \<Longrightarrow> kind_ok env d"
  shows "\<exists>st. planHooks env hs caps = Inr st"
  unfolding planHooks_def using assms map_iteration_set [OF assms(1)] by (intro planHooks_loop_returns) auto

end
