(* ===== verification/Plan_Checks.thy ===== *)
theory Plan_Checks
  imports Plan_Steps
begin

text \<open>
  The checks planning ends with (Planning), each reduced to the condition it decides, and
  plan as a whole: it always returns, accepts exactly the valid configurations, and reports
  the others as an abort with a cause and a diagnostic.
\<close>

section \<open>What a check answers\<close>

definition rejects :: "Event list \<Rightarrow> err \<Rightarrow> bool" where
  "rejects evs e \<longleftrightarrow> (\<exists>cs. e = AbortError cs \<and> cs \<noteq> []) \<and> list_ex aborts evs"

definition decides :: "bool \<Rightarrow> Event list \<times> err option \<Rightarrow> bool" where
  "decides P x \<longleftrightarrow> (case snd x of None \<Rightarrow> P \<and> fst x = [] | Some e \<Rightarrow> \<not> P \<and> rejects (fst x) e)"

lemma aborts_Diagnostic [simp]: "aborts (Diagnostic e)"
  by (simp add: Diagnostic_def)

lemma decides_abort: "es \<noteq> [] \<Longrightarrow> \<not> P \<Longrightarrow> decides P (map Diagnostic es, Some (AbortError (map raised es)))"
  by (cases es) (auto simp: decides_def rejects_def)

lemma decides_one: "\<not> P \<Longrightarrow> decides P ([Diagnostic e], Some (AbortError [raised e]))"
  using decides_abort [of "[e]"] by simp

section \<open>Hook references\<close>

lemma check_refs_decides: "decides (set refs \<subseteq> dom planned) (check_refs planned i desc step refs)"
  by (induction refs) (auto simp: decides_def rejects_def emit_defs dom_def split: option.split)

lemma decides_seq:
  assumes "decides P (check x)" and "decides Q (rest)"
  shows "decides (P \<and> Q) (case check x of (evs, Some e) \<Rightarrow> (evs, Some e)
    | (evs, None) \<Rightarrow> (case rest of (evs', r) \<Rightarrow> (evs @ evs', r)))"
  using assms by (auto simp: decides_def rejects_def split: prod.splits option.splits)

lemma check_step_refs_decides:
  "decides (\<forall>d \<in> set steps. set (ds_OnChange d) \<subseteq> dom planned) (check_step_refs planned i steps)"
proof (induction steps arbitrary: i)
  case Nil
  then show ?case by (simp add: decides_def)
next
  case (Cons d steps)
  from decides_seq [where check = "\<lambda>d. check_refs planned (int i) (ds_Desc d) d (ds_OnChange d)", OF check_refs_decides Cons.IH]
  show ?case by simp
qed

lemma check_chain_refs_decides:
  "decides (\<forall>d \<in> set steps. set (ds_OnChange d) \<subseteq> dom planned) (check_chain_refs planned hid steps)"
proof (induction steps)
  case Nil
  then show ?case by (simp add: decides_def)
next
  case (Cons d steps)
  from decides_seq [where check = "\<lambda>d. check_refs planned (- 1) (''hook:'' @ hid) d (ds_OnChange d)", OF check_refs_decides Cons.IH]
  show ?case by simp
qed

lemma check_hook_refs_decides:
  "decides (\<forall>(hid, ds) \<in> set hs. \<forall>d \<in> set ds. set (ds_OnChange d) \<subseteq> dom planned) (check_hook_refs planned hs)"
proof (induction hs)
  case Nil
  then show ?case by (simp add: decides_def)
next
  case (Cons h hs)
  obtain hid ds where h: "h = (hid, ds)" by fastforce
  from decides_seq [where check = "check_chain_refs planned hid", OF check_chain_refs_decides Cons.IH]
  show ?case using h by simp
qed

section \<open>Hook cycles\<close>

definition hook_edges :: "hooks \<Rightarrow> (string \<times> string) set" where
  "hook_edges hs = {(a, b). b \<in> set (hook_adj hs a)}"

lemma hook_adj_key: "b \<in> set (hook_adj hs a) \<Longrightarrow> a \<in> fst ` set hs"
  by (cases "map_of hs a") (auto simp: hook_adj_def hook_steps_def dest!: map_of_SomeD intro: rev_image_eqI)

lemma hook_reach: "reach_edges (hook_adj hs) (map fst hs) = hook_edges hs"
  using hook_adj_key by (fastforce simp: reach_edges_def hook_edges_def edge_def)

lemma detectHookCycles_decides:
  "\<exists>x. detectHookCycles hs = Inr x \<and> decides (acyclic (hook_edges hs)) x"
proof (cases "hs = []")
  case True
  then show ?thesis by (simp add: detectHookCycles_def decides_def hook_edges_def hook_adj_def hook_steps_def acyclic_def)
next
  case False
  let ?V = "set (concat (map (\<lambda>(hid, steps). hid # concat (map ds_OnChange steps)) hs))"
  have "card ?V < hook_fuel hs" unfolding hook_fuel_def by (rule le_imp_less_Suc, rule card_length)
  moreover have "set (map fst hs) \<subseteq> ?V" by fastforce
  moreover have "set (hook_adj hs m) \<subseteq> ?V" for m
    by (cases "map_of hs m") (auto simp: hook_adj_def hook_steps_def dest!: map_of_SomeD intro!: bexI)
  ultimately obtain cs where cs: "detectCycles (hook_fuel hs) (map fst hs) (hook_adj hs) = Some cs"
    using detectCycles_enough [of ?V] by blast
  have "cs = [] \<longleftrightarrow> acyclic (hook_edges hs)" using detectCycles_Nil_iff [OF cs] by (simp add: hook_reach)
  with cs False show ?thesis
    by (cases cs) (auto simp: detectHookCycles_def Let_def intro!: decides_one simp: decides_def [of True])
qed

text \<open>The chain a hook cycle error shows is a cycle of the references.\<close>

lemma detectHookCycles_chain:
  assumes "detectHookCycles hs = Inr (evs, Some e)"
  shows "\<exists>c. closed_cycle (hook_adj hs) c \<and> e = AbortError [raised (HookCycleError c (findCycleEdgeSource hs c))]"
  using assms detectCycles_sound [of "hook_fuel hs" "map fst hs" "hook_adj hs"]
  by (fastforce simp: detectHookCycles_def Let_def split: if_splits option.splits list.splits)

lemma hook_edges_range:
  assumes "map_iteration iter" and "hooks_ok hs"
  shows "hook_edges (iter l hs) = hook_edges hs"
  by (simp add: hook_edges_def hook_adj_def hook_steps_def map_of_range [OF assms])

definition refs_known :: "Config \<Rightarrow> (string \<rightharpoonup> Step list) \<Rightarrow> bool" where
  "refs_known cfg planned \<longleftrightarrow>
     (\<forall>d \<in> set (cf_Steps cfg). set (ds_OnChange d) \<subseteq> dom planned)
   \<and> (\<forall>(hid, ds) \<in> set (cf_Hooks cfg). \<forall>d \<in> set ds. set (ds_OnChange d) \<subseteq> dom planned)"

lemma validateHooks_decides:
  assumes "map_iteration (pe_range_hooks env)" and "hooks_ok (cf_Hooks cfg)"
  shows "\<exists>x. validateHooks env cfg planned = Inr x
    \<and> decides (refs_known cfg planned \<and> acyclic (hook_edges (cf_Hooks cfg))) x"
proof -
  obtain evs r where s: "check_step_refs planned 0 (cf_Steps cfg) = (evs, r)" by fastforce
  obtain evs' r' where h: "check_hook_refs planned (pe_range_hooks env 1 (cf_Hooks cfg)) = (evs', r')" by fastforce
  obtain evs'' r'' where c: "detectHookCycles (pe_range_hooks env 2 (cf_Hooks cfg)) = Inr (evs'', r'')"
    "decides (acyclic (hook_edges (cf_Hooks cfg))) (evs'', r'')"
    using detectHookCycles_decides [of "pe_range_hooks env 2 (cf_Hooks cfg)"] hook_edges_range [OF assms] by auto
  have "decides (\<forall>(hid, ds) \<in> set (cf_Hooks cfg). \<forall>d \<in> set ds. set (ds_OnChange d) \<subseteq> dom planned) (evs', r')"
    using check_hook_refs_decides [of "pe_range_hooks env 1 (cf_Hooks cfg)" planned] h
    by (simp add: map_iteration_set [OF assms(1)])
  with check_step_refs_decides [of "cf_Steps cfg" planned 0] s h c show ?thesis
    by (auto simp: validateHooks_def refs_known_def decides_def rejects_def split: option.splits)
qed

section \<open>Resources provided twice\<close>

text \<open>All provided resources with the step that provides them, in plan order.\<close>

definition provided_pairs :: "Step list \<Rightarrow> (nat \<times> Resource) list" where
  "provided_pairs steps = concat (map (\<lambda>i. map (Pair i) (Provides (steps ! i))) [0..<length steps])"

definition first_provider :: "(nat \<times> Resource) list \<Rightarrow> Resource \<Rightarrow> nat option" where
  "first_provider ps r = map_option fst (List.find (\<lambda>(i, r'). r' = r) ps)"

definition repeated :: "(nat \<times> Resource) list \<Rightarrow> nat list" where
  "repeated ps = filter (\<lambda>k. snd (ps ! k) \<in> snd ` set (take k ps)) [0..<length ps]"

lemma find_snoc: "List.find P (xs @ [x]) = (case List.find P xs of None \<Rightarrow> if P x then Some x else None | y \<Rightarrow> y)"
  by (induction xs) auto

lemma first_provider_snoc:
  "first_provider (ps @ [(i, r)]) =
     (if first_provider ps r = None then (first_provider ps)(r \<mapsto> i) else first_provider ps)"
  by (rule ext) (auto simp: first_provider_def find_snoc split: option.split)

lemma first_provider_None: "first_provider ps r = None \<longleftrightarrow> r \<notin> snd ` set ps"
  by (force simp: first_provider_def find_None_iff)

definition dup_errors :: "(nat \<Rightarrow> DeclaredStep) \<Rightarrow> (nat \<times> Resource) list \<Rightarrow> engine_error list" where
  "dup_errors decl ps =
     map (\<lambda>k. duplicate_error (snd (ps ! k)) (decl (fst (ps ! k))) (decl (the (first_provider ps (snd (ps ! k))))))
         (repeated ps)"

definition dup_inv :: "(nat \<Rightarrow> DeclaredStep) \<Rightarrow> (nat \<times> Resource) list \<Rightarrow> dup_state \<Rightarrow> bool" where
  "dup_inv decl ps st \<longleftrightarrow> du_winners st = first_provider ps
     \<and> du_causes st = map raised (dup_errors decl ps) \<and> du_events st = map Diagnostic (dup_errors decl ps)"

lemma repeated_snoc:
  "repeated (ps @ [(i, r)]) = repeated ps @ (if first_provider ps r = None then [] else [length ps])"
  by (auto simp: repeated_def first_provider_None nth_append intro: filter_cong)

lemma first_provider_append: "first_provider ps r \<noteq> None \<Longrightarrow> first_provider (ps @ qs) r = first_provider ps r"
  by (induction ps) (auto simp: first_provider_def)

lemma dup_errors_snoc:
  "dup_errors decl (ps @ [(i, r)]) = dup_errors decl ps @
     (case first_provider ps r of None \<Rightarrow> [] | Some p \<Rightarrow> [duplicate_error r (decl i) (decl p)])"
proof -
  have "first_provider (ps @ [(i, r)]) (snd (ps ! k)) = first_provider ps (snd (ps ! k))" if "k \<in> set (repeated ps)" for k
    using that by (intro first_provider_append) (auto simp: first_provider_None repeated_def)
  then have "map (\<lambda>k. duplicate_error (snd ((ps @ [(i, r)]) ! k)) (decl (fst ((ps @ [(i, r)]) ! k)))
        (decl (the (first_provider (ps @ [(i, r)]) (snd ((ps @ [(i, r)]) ! k)))))) (repeated ps) = dup_errors decl ps"
    unfolding dup_errors_def by (intro map_cong) (auto simp: repeated_def nth_append)
  then show ?thesis
    by (auto simp: dup_errors_def [of decl "ps @ [(i, r)]"] repeated_snoc first_provider_append split: option.split)
qed

lemma dup_resources_inv:
  "dup_inv (\<lambda>i. decl (didx i)) ps st \<Longrightarrow>
     dup_inv (\<lambda>i. decl (didx i)) (ps @ map (Pair i) rs) (dup_resources decl didx i rs st)"
proof (induction rs arbitrary: ps st)
  case Nil
  then show ?case by simp
next
  case (Cons r rs)
  let ?st = "case first_provider ps r of None \<Rightarrow> st\<lparr>du_winners := (du_winners st)(r \<mapsto> i)\<rparr>
    | Some p \<Rightarrow> (let e = duplicate_error r (decl (didx i)) (decl (didx p))
        in st\<lparr>du_causes := du_causes st @ [raised e], du_events := du_events st @ [Diagnostic e]\<rparr>)"
  have "dup_inv (\<lambda>i. decl (didx i)) (ps @ [(i, r)]) ?st"
    using Cons.prems by (auto simp: dup_inv_def dup_errors_snoc first_provider_snoc Let_def split: option.split)
  from Cons.IH [OF this] Cons.prems show ?case
    by (auto simp: dup_inv_def Let_def emit_defs split: option.splits)
qed

lemma dup_fold_inv:
  "dup_inv (\<lambda>i. decl (didx i)) ps st \<Longrightarrow>
   dup_inv (\<lambda>i. decl (didx i)) (ps @ concat (map (\<lambda>i. map (Pair i) (Provides (steps ! i))) is))
     (fold (\<lambda>i st. case step_provides (steps ! i) of None \<Rightarrow> st | Some rs \<Rightarrow> dup_resources decl didx i rs st) is st)"
proof (induction "is" arbitrary: ps st)
  case (Cons i "is")
  let ?st = "case step_provides (steps ! i) of None \<Rightarrow> st | Some rs \<Rightarrow> dup_resources decl didx i rs st"
  have "dup_inv (\<lambda>i. decl (didx i)) (ps @ map (Pair i) (Provides (steps ! i))) ?st"
    using Cons.prems dup_resources_inv by (auto simp: Provides_def split: option.split)
  from Cons.IH [OF this] show ?case by simp
qed simp

text \<open>Every provider of a resource but the first is reported, naming the first.\<close>

lemma detectDuplicateProvides_spec:
  "detectDuplicateProvides steps didx declared =
     (let es = dup_errors (\<lambda>i. declared ! (didx ! i)) (provided_pairs steps)
      in (map Diagnostic es, if es = [] then None else Some (AbortError (map raised es))))"
proof -
  have "dup_inv (\<lambda>i. declared ! (didx ! i)) [] \<lparr>du_winners = Map.empty, du_causes = [], du_events = []\<rparr>"
    by (simp add: dup_inv_def dup_errors_def repeated_def first_provider_def fun_eq_iff)
  from dup_fold_inv [where decl = "(!) declared" and didx = "(!) didx", OF this, of steps "[0..<length steps]"]
  show ?thesis
    by (simp add: detectDuplicateProvides_def dup_inv_def provided_pairs_def Let_def)
qed

lemma repeated_Nil: "repeated ps = [] \<longleftrightarrow> distinct (map snd ps)"
proof (induction ps rule: rev_induct)
  case (snoc p ps)
  then show ?case by (cases p) (auto simp: repeated_snoc first_provider_None)
qed (simp add: repeated_def)

lemma map_snd_provided_pairs: "map snd (provided_pairs steps) = concat (map Provides steps)"
proof -
  have "map snd (provided_pairs steps) = concat (map (\<lambda>i. Provides (steps ! i)) [0..<length steps])"
    by (simp add: provided_pairs_def map_concat o_def)
  also have "map (\<lambda>i. Provides (steps ! i)) [0..<length steps] = map Provides steps"
    by (rule nth_equalityI) simp_all
  finally show ?thesis .
qed

lemma detectDuplicateProvides_decides:
  "decides (distinct (concat (map Provides steps))) (detectDuplicateProvides steps didx declared)"
  using decides_abort [of "dup_errors (\<lambda>i. declared ! (didx ! i)) (provided_pairs steps)"]
  by (auto simp: detectDuplicateProvides_spec Let_def dup_errors_def repeated_Nil map_snd_provided_pairs decides_def [of True])

section \<open>Cycles of ops and of steps\<close>

abbreviation op_reach :: "plan_env \<Rightarrow> Step list \<Rightarrow> (nat \<times> nat) set" where
  "op_reach env steps \<equiv> reach_edges (op_neighbors (plan_ops steps @ pe_Heap env)) (map op_id (plan_ops steps))"

lemma op_neighbors_closed:
  "set (op_neighbors heap m) \<subseteq> set (concat (map (\<lambda>op. op_id op # op_deps op) heap))"
proof (cases "List.find (\<lambda>op. op_id op = m) heap")
  case (Some op)
  then have "op \<in> set heap" unfolding find_Some_iff by (metis nth_mem)
  then show ?thesis by (auto simp: op_neighbors_def Some)
qed (simp add: op_neighbors_def)

lemma DetectPlanCycles_decides:
  "\<exists>x. DetectPlanCycles env steps = Inr x \<and> decides (acyclic (op_reach env steps)) x"
proof -
  let ?heap = "plan_ops steps @ pe_Heap env"
  let ?V = "set (concat (map (\<lambda>op. op_id op # op_deps op) ?heap))"
  have "card ?V < op_fuel ?heap" unfolding op_fuel_def by (rule le_imp_less_Suc, rule card_length)
  moreover have "set (map op_id (plan_ops steps)) \<subseteq> ?V" by auto
  moreover have "set (op_neighbors ?heap m) \<subseteq> ?V" for m by (rule op_neighbors_closed)
  ultimately obtain cs where cs: "detectCycles (op_fuel ?heap) (map op_id (plan_ops steps)) (op_neighbors ?heap) = Some cs"
    using detectCycles_enough [of ?V] by blast
  from detectCycles_Nil_iff [OF cs] cs show ?thesis
    using decides_abort [of "map (\<lambda>cycle. CyclicDependencyError (map (pe_opID env) cycle)) (dedupCycles (pe_OpKey env) cs)"]
    by (auto simp: DetectPlanCycles_def Let_def decides_def [of True])
qed

lemma step_reach:
  assumes "graph_ok g"
  shows "acyclic (reach_edges (\<lambda>n. sn_requires (g ! n)) [0..<length g]) \<longleftrightarrow> acyclic (edges g)"
proof -
  have in_range: "d < length g" if "n < length g" "d \<in> set (sn_requires (g ! n))" for n d
    using assms that by (auto simp: graph_ok_def)
  have "n < length g" if "(r, n) \<in> {(x, y). edge (\<lambda>n. sn_requires (g ! n)) x y}\<^sup>*" "r < length g" for r n
    using that by (induction rule: rtrancl_induct) (auto simp: edge_def in_range)
  moreover have "reach_edges nb rs = {(a, b). edge nb a b \<and> a < length g}"
    if "\<And>r n. (r, n) \<in> {(x, y). edge nb x y}\<^sup>* \<Longrightarrow> r < length g \<Longrightarrow> n < length g" "set rs = {..<length g}" for nb rs
    using that unfolding reach_edges_def by blast
  ultimately have "reach_edges (\<lambda>n. sn_requires (g ! n)) [0..<length g]
      = {(a, b). edge (\<lambda>n. sn_requires (g ! n)) a b \<and> a < length g}" by (simp add: atLeast0LessThan)
  also have "\<dots> = (edges g)\<inverse>" by (auto simp: edges_def edge_def)
  finally have "reach_edges (\<lambda>n. sn_requires (g ! n)) [0..<length g] = (edges g)\<inverse>" .
  then show ?thesis by simp
qed

lemma DetectStepCycles_decides:
  assumes "graph_ok g"
  shows "\<exists>x. DetectStepCycles env g = Inr x \<and> decides (acyclic (edges g)) x"
proof -
  have "set (sn_requires (g ! n)) \<subseteq> {..<length g}" if "n < length g" for n
    using assms that by (auto simp: graph_ok_def)
  then obtain cs where cs: "detectCycles (Suc (length g)) [0..<length g] (\<lambda>n. sn_requires (g ! n)) = Some cs"
    using detectCycles_enough [where V = "{..<length g}" and roots = "[0..<length g]" and nb = "\<lambda>n. sn_requires (g ! n)"
        and fuel = "Suc (length g)"] by (auto simp: atLeast0LessThan)
  from detectCycles_Nil_iff [OF cs] cs show ?thesis
    using decides_abort [of "map (\<lambda>cycle. StepCyclicDependencyError
        (map (\<lambda>n. stepID (pe_StepPtr env) (sn_step (g ! n))) cycle)) (dedupCycles (pe_NodeKey env) cs)"]
    by (auto simp: DetectStepCycles_def Let_def decides_def [of True] step_reach [OF assms])
qed

section \<open>The plan\<close>

definition env_ok :: "plan_env \<Rightarrow> bool" where
  "env_ok env \<longleftrightarrow> map_iteration (pe_range_producers env) \<and> map_iteration (pe_range_hooks env)"

text \<open>No kind answers a nil step with a nil error.\<close>

definition kinds_ok :: "plan_env \<Rightarrow> Config \<Rightarrow> bool" where
  "kinds_ok env cfg \<longleftrightarrow> (\<forall>d \<in> set (cf_Steps cfg). kind_ok env d)
     \<and> (\<forall>(hid, ds) \<in> set (cf_Hooks cfg). \<forall>d \<in> set ds. kind_ok env d)"

definition live_steps :: "plan_env \<Rightarrow> Config \<Rightarrow> Capability \<Rightarrow> Step list" where
  "live_steps env cfg caps = List.map_filter (survives env caps) (cf_Steps cfg)"

definition live_hooks :: "plan_env \<Rightarrow> Config \<Rightarrow> Capability \<Rightarrow> (string \<rightharpoonup> Step list)" where
  "live_hooks env cfg caps hid =
     (case map_of (cf_Hooks cfg) hid of None \<Rightarrow> None | Some ds \<Rightarrow> planned_hook env caps ds)"

text \<open>The configurations the planner is to accept.\<close>

definition plan_valid :: "plan_env \<Rightarrow> Config \<Rightarrow> Capability \<Rightarrow> bool" where
  "plan_valid env cfg caps \<longleftrightarrow>
     (\<forall>d \<in> set (cf_Steps cfg). \<not> plan_fatal env caps d)
   \<and> (\<forall>(hid, ds) \<in> set (cf_Hooks cfg). \<not> hook_fatal env caps ds)
   \<and> refs_known cfg (live_hooks env cfg caps)
   \<and> acyclic (hook_edges (cf_Hooks cfg))
   \<and> distinct (concat (map Provides (live_steps env cfg caps)))
   \<and> acyclic (op_reach env (live_steps env cfg caps))
   \<and> acyclic (edges (buildStepGraph (pe_range_producers env) (live_steps env cfg caps)))"

lemma then_check_decides:
  assumes "r = Inr x" and "decides P x"
    and "P \<Longrightarrow> Q (k evs)" and "\<And>evs' e. \<not> P \<Longrightarrow> rejects evs' e \<Longrightarrow> Q (Inr (evs @ evs', Inl e))"
  shows "Q (then_check evs r k)"
  using assms by (cases x) (auto simp: then_check_def decides_def split: option.splits)

lemma rejects_append: "rejects evs' e \<Longrightarrow> rejects (evs @ evs') e"
  by (auto simp: rejects_def)

definition plan_ok_answer :: "plan_env \<Rightarrow> Config \<Rightarrow> Capability \<Rightarrow> plan_answer \<Rightarrow> bool" where
  "plan_ok_answer env cfg caps r \<longleftrightarrow>
     (case r of
        Inl _ \<Rightarrow> False
      | Inr (evs, Inl e) \<Rightarrow> \<not> plan_valid env cfg caps \<and> rejects evs e
      | Inr (evs, Inr (p, deps, hp)) \<Rightarrow>
          plan_valid env cfg caps
        \<and> p = \<lparr>pl_ID = cf_DeployName cfg, pl_TargetName = cf_TargetName cfg, pl_Steps = live_steps env cfg caps\<rparr>
        \<and> deps = map sn_requires (buildStepGraph (pe_range_producers env) (live_steps env cfg caps))
        \<and> hp_steps hp = live_hooks env cfg caps
        \<and> hp_onChange hp = on_change_of (cf_Steps cfg)
            (filter (\<lambda>k. survives env caps (cf_Steps cfg ! k) \<noteq> None) [0..<length (cf_Steps cfg)]))"

lemma plan_spec:
  assumes env: "env_ok env" and hooks: "hooks_ok (cf_Hooks cfg)" and kinds: "kinds_ok env cfg"
  shows "plan_ok_answer env cfg caps (plan env cfg caps)"
proof -
  have it: "map_iteration (pe_range_producers env)" "map_iteration (pe_range_hooks env)"
    using env by (simp_all add: env_ok_def)
  obtain ps where ps: "planSteps env (cf_Steps cfg) caps = Inr ps"
    using planSteps_returns [of "cf_Steps cfg" env caps] kinds by (auto simp: kinds_ok_def)
  obtain ph where ph: "planHooks env (cf_Hooks cfg) caps = Inr ph"
    using planHooks_returns [OF it(2), of "cf_Hooks cfg" caps] kinds by (fastforce simp: kinds_ok_def)
  note S = planSteps_spec [OF ps, unfolded steps_inv_def] and H = planHooks_spec [OF ph it(2) hooks, unfolded hooks_inv_def]
  let ?steps = "live_steps env cfg caps"
  have steps: "ps_steps ps = ?steps" using planSteps_steps [OF ps] by (simp add: live_steps_def)
  have planned: "ph_planned ph = live_hooks env cfg caps" using H by (simp add: live_hooks_def fun_eq_iff)
  have ok: "graph_ok (buildStepGraph (pe_range_producers env) ?steps)" using it(1) by simp
  obtain xv xp xs where v: "validateHooks env cfg (live_hooks env cfg caps) = Inr xv"
      "decides (refs_known cfg (live_hooks env cfg caps) \<and> acyclic (hook_edges (cf_Hooks cfg))) xv"
    and p: "DetectPlanCycles env ?steps = Inr xp" "decides (acyclic (op_reach env ?steps)) xp"
    and s: "DetectStepCycles env (buildStepGraph (pe_range_producers env) ?steps) = Inr xs"
      "decides (acyclic (edges (buildStepGraph (pe_range_producers env) ?steps))) xs"
    using validateHooks_decides [OF it(2) hooks] DetectPlanCycles_decides [of env ?steps] DetectStepCycles_decides [OF ok]
    by metis
  show ?thesis
  proof (cases "list_ex ShouldAbort (ps_impacts ps @ ph_impacts ph)")
    case True
    then have "\<not> plan_valid env cfg caps"
      using S H by (auto simp: plan_valid_def list_ex_iff)
    moreover have "rejects (ps_events ps @ ph_events ph) (AbortError (ps_causes ps @ ph_causes ph))"
      using True S H by (auto simp: rejects_def)
    ultimately show ?thesis using True by (simp add: plan_def ps ph Let_def plan_ok_answer_def)
  next
    case False
    then have nf: "(\<forall>d \<in> set (cf_Steps cfg). \<not> plan_fatal env caps d)
        \<and> (\<forall>(hid, ds) \<in> set (cf_Hooks cfg). \<not> hook_fatal env caps ds)"
      using S H by (auto simp: list_ex_iff)
    show ?thesis
      unfolding plan_def ps ph sum.case Let_def if_not_P [OF False] steps planned
      by (rule then_check_decides [OF v], rule then_check_decides [OF refl detectDuplicateProvides_decides],
          rule then_check_decides [OF p], rule then_check_decides [OF s])
        (use nf S in \<open>auto simp: plan_ok_answer_def plan_valid_def extractStepDeps_def planned rejects_append\<close>)
  qed
qed

end
