(* ===== verification/Hook_Runs.thy ===== *)
theory Hook_Runs
  imports Hooks Plan_Checks
begin

text \<open>
  The runs of executeHooks (Hooks): which hooks are run, in which order, with which reports, and
  that the queue is worked off.
\<close>

section \<open>One iteration\<close>

text \<open>What is true of the log at any time: entry \<open>k\<close> is a planned hook that a changed step or an
  earlier entry notified, its reports are those of its steps, and only the last one can have failed.\<close>

definition entry_run :: "run_step \<Rightarrow> hookPlan \<Rightarrow> nat \<Rightarrow> (string \<times> StepReport list) list \<Rightarrow> nat \<Rightarrow> err option \<Rightarrow> bool" where
  "entry_run run hp base log k e \<longleftrightarrow>
     (\<exists>acts evs. hp_steps hp (fst (log ! k)) = Some acts
       \<and> run_hook_steps run (fst (log ! k)) (base + length (concat (map snd (take k log)))) acts
           = Inr (snd (log ! k), e, evs))"

definition log_ok ::
  "run_step \<Rightarrow> hookPlan \<Rightarrow> hooks \<Rightarrow> bool \<Rightarrow> StepReport list \<Rightarrow> (string \<times> StepReport list) list \<Rightarrow> err option \<Rightarrow> bool" where
  "log_ok run hp hooks checkOnly steps log e \<longleftrightarrow>
     distinct (map fst log)
   \<and> (\<forall>k < length log. fst (log ! k) \<in> step_notifies hp checkOnly steps \<union> hook_notifies hooks checkOnly (take k log))
   \<and> (\<forall>k < length log. entry_run run hp (length steps) log k (if Suc k = length log then e else None))"

definition loop_ok :: "run_step \<Rightarrow> hookPlan \<Rightarrow> hooks \<Rightarrow> bool \<Rightarrow> StepReport list \<Rightarrow> nat \<Rightarrow> hook_run \<Rightarrow> bool" where
  "loop_ok run hp hooks checkOnly steps i s \<longleftrightarrow>
     hooks_run_ok hp hooks checkOnly steps i s \<and> log_ok run hp hooks checkOnly steps (hx_log s) None"

lemma hook_notifies_snoc:
  "hook_notifies hooks checkOnly (log @ [(h, ars)]) =
     hook_notifies hooks checkOnly log
     \<union> (if list_ex (\<lambda>ar. stepChanged ar checkOnly) ars then set (hook_adj hooks h) else {})"
  by (auto simp: hook_notifies_def)

lemma log_ok_snoc:
  assumes log: "log_ok run hp hooks checkOnly steps log None" and h: "h \<notin> fst ` set log"
    and n: "h \<in> step_notifies hp checkOnly steps \<union> hook_notifies hooks checkOnly log"
    and r: "hp_steps hp h = Some acts"
      "run_hook_steps run h (length steps + length (concat (map snd log))) acts = Inr (ars, e, evs)"
  shows "log_ok run hp hooks checkOnly steps (log @ [(h, ars)]) e"
proof -
  have "entry_run run hp (length steps) (log @ [(h, ars)]) k (if Suc k = length (log @ [(h, ars)]) then e else None)"
    if k: "k < length (log @ [(h, ars)])" for k
  proof (cases "k = length log")
    case True
    with r show ?thesis by (auto simp: entry_run_def)
  next
    case False
    with k log have "entry_run run hp (length steps) log k None" by (auto simp: log_ok_def split: if_splits)
    with k False show ?thesis by (auto simp: entry_run_def nth_append)
  qed
  moreover have "fst ((log @ [(h, ars)]) ! k) \<in> step_notifies hp checkOnly steps
      \<union> hook_notifies hooks checkOnly (take k (log @ [(h, ars)]))" if "k < length (log @ [(h, ars)])" for k
    using that log n by (cases "k = length log") (auto simp: log_ok_def nth_append)
  ultimately show ?thesis using log h by (auto simp: log_ok_def)
qed

text \<open>The position has not been worked off, and the hook at it is known and was notified.\<close>

lemma at_position:
  assumes "hooks_run_ok hp hooks checkOnly steps i s" and "i < length (hq_queue (hx_queue s))"
  shows "hq_queue (hx_queue s) ! i \<notin> hx_executed s" and "hq_queue (hx_queue s) ! i \<notin> fst ` set (hx_log s)"
    and "hq_queue (hx_queue s) ! i \<in> step_notifies hp checkOnly steps \<union> hook_notifies hooks checkOnly (hx_log s)"
proof -
  let ?q = "hq_queue (hx_queue s)"
  have d: "distinct ?q" using assms(1) by (simp add: hooks_run_ok_def queue_ok_def)
  have "?q ! i \<notin> set (take i ?q)"
    using d assms(2) by (auto simp: in_set_conv_nth nth_eq_iff_index_eq)
  moreover have "fst ` set (hx_log s) \<subseteq> set (take i ?q)" "hx_executed s = set (take i ?q)"
    using assms(1) by (auto simp: hooks_run_ok_def simp flip: set_map)
  ultimately show "?q ! i \<notin> hx_executed s" "?q ! i \<notin> fst ` set (hx_log s)" by auto
  show "?q ! i \<in> step_notifies hp checkOnly steps \<union> hook_notifies hooks checkOnly (hx_log s)"
    using assms by (metis hooks_run_ok_def nth_mem)
qed

lemma loop_ok_skip:
  assumes "loop_ok run hp hooks checkOnly steps i s" and i: "i < length (hq_queue (hx_queue s))"
    and "hp_steps hp (hq_queue (hx_queue s) ! i) = None"
  shows "loop_ok run hp hooks checkOnly steps (Suc i)
    (s\<lparr>hx_executed := insert (hq_queue (hx_queue s) ! i) (hx_executed s)\<rparr>)"
  using assms by (auto simp: loop_ok_def hooks_run_ok_def take_Suc_conv_app_nth)

lemma loop_ok_ran:
  assumes ok: "loop_ok run hp hooks checkOnly steps i s" and i: "i < length (hq_queue (hx_queue s))"
    and h: "h = hq_queue (hx_queue s) ! i" and acts: "hp_steps hp h = Some acts"
    and r: "run_hook_steps run h (length steps + length (hookReports s)) acts = Inr (ars, None, evs)"
  shows "loop_ok run hp hooks checkOnly steps (Suc i)
    (s\<lparr>hx_executed := insert h (hx_executed s), hx_log := hx_log s @ [(h, ars)], hx_events := hx_events s @ evs,
       hx_queue := (if list_ex (\<lambda>ar. stepChanged ar checkOnly) ars
                    then notify t (hook_adj hooks h) (hx_queue s) else hx_queue s)\<rparr>)"
proof -
  note at = at_position [of hp hooks checkOnly steps i s, folded h]
  have run_ok: "hooks_run_ok hp hooks checkOnly steps i s" and log: "log_ok run hp hooks checkOnly steps (hx_log s) None"
    using ok by (simp_all add: loop_ok_def)
  have q: "queue_ok (hx_queue s)" using run_ok by (simp add: hooks_run_ok_def)
  obtain ys where n: "queue_ok (notify t (hook_adj hooks h) (hx_queue s))"
      "set (hq_queue (notify t (hook_adj hooks h) (hx_queue s))) = set (hq_queue (hx_queue s)) \<union> set (hook_adj hooks h)"
      "hq_queue (notify t (hook_adj hooks h) (hx_queue s)) = hq_queue (hx_queue s) @ ys"
    using notify_ok [OF q, of t "hook_adj hooks h"] by blast
  have "log_ok run hp hooks checkOnly steps (hx_log s @ [(h, ars)]) None"
    using log_ok_snoc [OF log at(2,3) acts] run_ok i r by (simp add: hookReports_def)
  moreover have "hooks_run_ok hp hooks checkOnly steps (Suc i)
    (s\<lparr>hx_executed := insert h (hx_executed s), hx_log := hx_log s @ [(h, ars)], hx_events := hx_events s @ evs,
       hx_queue := (if list_ex (\<lambda>ar. stepChanged ar checkOnly) ars
                    then notify t (hook_adj hooks h) (hx_queue s) else hx_queue s)\<rparr>)"
    using run_ok i acts h n
    by (auto simp: hooks_run_ok_def take_Suc_conv_app_nth hook_notifies_snoc nth_append)
  ultimately show ?thesis by (simp add: loop_ok_def)
qed

section \<open>The whole loop\<close>

lemma hook_loop_sound:
  assumes "hook_loop fuel run hooks (hp_steps hp) checkOnly (length steps) i s = Some (Inr (s', r))"
    and "loop_ok run hp hooks checkOnly steps i s"
  shows "log_ok run hp hooks checkOnly steps (hx_log s') r
    \<and> (r = None \<longrightarrow> loop_ok run hp hooks checkOnly steps (length (hq_queue (hx_queue s'))) s')
    \<and> (r \<noteq> None \<longrightarrow> hx_log s' \<noteq> [])"
  using assms
proof (induction fuel arbitrary: i s)
  case 0
  then show ?case by simp
next
  case (Suc fuel)
  let ?q = "hq_queue (hx_queue s)" and ?h = "hq_queue (hx_queue s) ! i"
  have ok: "hooks_run_ok hp hooks checkOnly steps i s" using Suc.prems(2) by (simp add: loop_ok_def)
  show ?case
  proof (cases "i < length ?q")
    case False
    with ok have "i = length ?q" by (simp add: hooks_run_ok_def)
    with Suc.prems False show ?thesis by (simp add: loop_ok_def)
  next
    case i: True
    note at = at_position [OF ok i]
    show ?thesis
    proof (cases "hp_steps hp ?h")
      case None
      with Suc.prems(1) i at have
        "hook_loop fuel run hooks (hp_steps hp) checkOnly (length steps) (Suc i)
           (s\<lparr>hx_executed := insert ?h (hx_executed s)\<rparr>) = Some (Inr (s', r))" by (simp add: Let_def)
      from Suc.IH [OF this loop_ok_skip [OF Suc.prems(2) i None]] show ?thesis .
    next
      case (Some acts)
      with Suc.prems(1) i at obtain ars e evs where
        run: "run_hook_steps run ?h (length steps + length (hookReports s)) acts = Inr (ars, e, evs)"
        by (auto simp: Let_def hookReports_def split: sum.splits)
      show ?thesis
      proof (cases e)
        case None
        with Suc.prems(1) i at Some run have
          "hook_loop fuel run hooks (hp_steps hp) checkOnly (length steps) (Suc i)
           (s\<lparr>hx_executed := insert ?h (hx_executed s), hx_log := hx_log s @ [(?h, ars)], hx_events := hx_events s @ evs,
              hx_queue := (if list_ex (\<lambda>ar. stepChanged ar checkOnly) ars
                then notify (''hook:'' @ ?h) (hook_adj hooks ?h) (hx_queue s) else hx_queue s)\<rparr>) = Some (Inr (s', r))"
          by (simp add: Let_def hookReports_def split: if_splits)
        from Suc.IH [OF this loop_ok_ran [OF Suc.prems(2) i refl Some]] run None show ?thesis by simp
      next
        case e: (Some e')
        with Suc.prems(1) i at Some run have r: "r = Some e'" "hx_log s' = hx_log s @ [(?h, ars)]"
          by (auto simp: Let_def hookReports_def)
        have "log_ok run hp hooks checkOnly steps (hx_log s) None" using Suc.prems(2) by (simp add: loop_ok_def)
        from log_ok_snoc [OF this at(2,3) Some] run e r show ?thesis by (simp add: hookReports_def)
      qed
    qed
  qed
qed

section \<open>The queue is worked off\<close>

lemma hook_names_cover:
  "step_notifies hp checkOnly steps \<union> hook_notifies hooks checkOnly log \<subseteq> set (hook_names hp (length steps) hooks)"
proof -
  have "set (hook_adj hooks h) \<subseteq> set (hook_names hp n hooks)" for h n
  proof (cases "map_of hooks h")
    case (Some ds)
    from map_of_SomeD [OF this] show ?thesis by (force simp: hook_adj_def hook_steps_def hook_names_def Some)
  qed (simp add: hook_adj_def hook_steps_def)
  then have "hook_notifies hooks checkOnly log \<subseteq> set (hook_names hp (length steps) hooks)"
    unfolding hook_notifies_def by blast
  moreover have "step_notifies hp checkOnly steps \<subseteq> set (hook_names hp (length steps) hooks)"
    by (force simp: step_notifies_def hook_names_def)
  ultimately show ?thesis by simp
qed

lemma hook_loop_returns:
  assumes "loop_ok run hp hooks checkOnly steps i s"
    and "length (hook_names hp (length steps) hooks) < fuel + i"
  shows "hook_loop fuel run hooks (hp_steps hp) checkOnly (length steps) i s \<noteq> None"
  using assms
proof (induction fuel arbitrary: i s)
  case 0
  let ?q = "hq_queue (hx_queue s)"
  have ok: "hooks_run_ok hp hooks checkOnly steps i s" using "0.prems"(1) by (simp add: loop_ok_def)
  then have "distinct ?q" by (simp add: hooks_run_ok_def queue_ok_def)
  then have "length ?q = card (set ?q)" by (rule distinct_card [symmetric])
  also have "\<dots> \<le> card (set (hook_names hp (length steps) hooks))"
    using ok hook_names_cover [of hp checkOnly steps hooks "hx_log s"]
    by (intro card_mono) (auto simp: hooks_run_ok_def)
  also have "\<dots> \<le> length (hook_names hp (length steps) hooks)" by (rule card_length)
  finally have "length ?q < i" using "0.prems"(2) by simp
  with ok show ?case by (simp add: hooks_run_ok_def)
next
  case (Suc fuel)
  let ?h = "hq_queue (hx_queue s) ! i"
  have ok: "hooks_run_ok hp hooks checkOnly steps i s" using Suc.prems(1) by (simp add: loop_ok_def)
  show ?case
  proof (cases "i < length (hq_queue (hx_queue s))")
    case i: True
    note at = at_position [OF ok i]
    have fuel: "length (hook_names hp (length steps) hooks) < fuel + Suc i" using Suc.prems(2) by simp
    show ?thesis
    proof (cases "hp_steps hp ?h")
      case None
      from Suc.IH [OF loop_ok_skip [OF Suc.prems(1) i None] fuel] show ?thesis
        using i at None by (simp add: Let_def)
    next
      case (Some acts)
      have IH: "hook_loop fuel run hooks (hp_steps hp) checkOnly (length steps) (Suc i)
           (s\<lparr>hx_executed := insert ?h (hx_executed s), hx_log := hx_log s @ [(?h, ars)], hx_events := hx_events s @ evs,
              hx_queue := (if list_ex (\<lambda>ar. stepChanged ar checkOnly) ars
                then notify t (hook_adj hooks ?h) (hx_queue s) else hx_queue s)\<rparr>) \<noteq> None"
        if "run_hook_steps run ?h (length steps + length (hookReports s)) acts = Inr (ars, None, evs)" for ars evs t
        by (rule Suc.IH [OF loop_ok_ran [OF Suc.prems(1) i refl Some that] fuel])
      show ?thesis
      proof (cases "run_hook_steps run ?h (length steps + length (hookReports s)) acts")
        case (Inl p)
        then show ?thesis using i at Some by (simp add: Let_def hookReports_def)
      next
        case (Inr x)
        obtain ars e evs where x: "x = (ars, e, evs)" by (cases x)
        show ?thesis
        proof (cases e)
          case None
          with IH [of ars evs "''hook:'' @ ?h"] Inr x show ?thesis
            using i at Some by (cases "list_ex (\<lambda>ar. stepChanged ar checkOnly) ars") (simp_all add: Let_def hookReports_def)
        next
          case (Some e')
          with Inr x show ?thesis using i at \<open>hp_steps hp ?h = Some acts\<close> by (simp add: Let_def hookReports_def)
        qed
      qed
    qed
  qed simp
qed

text \<open>The first state of the loop.\<close>

definition first_run :: "hookPlan \<Rightarrow> bool \<Rightarrow> StepReport list \<Rightarrow> hook_run" where
  "first_run hp checkOnly steps =
     \<lparr>hx_queue = collect_notified hp checkOnly steps, hx_executed = {}, hx_log = [], hx_events = []\<rparr>"

lemma loop_ok_start: "loop_ok run hp hooks checkOnly steps 0 (first_run hp checkOnly steps)"
  using collect_notified_ok [of hp checkOnly steps]
  by (auto simp: loop_ok_def hooks_run_ok_def first_run_def log_ok_def hook_notifies_def)

text \<open>The planned hooks are hooks of the configuration.\<close>

definition planned_known :: "hooks \<Rightarrow> hookPlan \<Rightarrow> bool" where
  "planned_known hooks hp \<longleftrightarrow> dom (hp_steps hp) \<subseteq> fst ` set hooks"

lemma executeHooks_spec:
  assumes known: "planned_known hooks hp"
  shows "\<exists>x. executeHooks run hooks steps hp checkOnly = Some x
    \<and> (\<forall>s r. x = Inr (s, r) \<longrightarrow> log_ok run hp hooks checkOnly steps (hx_log s) r \<and> (r \<noteq> None \<longrightarrow> hx_log s \<noteq> [])
        \<and> (r = None \<longrightarrow> fst ` set (hx_log s) = dom (hp_steps hp)
             \<inter> (step_notifies hp checkOnly steps \<union> hook_notifies hooks checkOnly (hx_log s))))"
proof (cases "no_planned_hooks hooks (hp_steps hp)")
  case True
  then have "dom (hp_steps hp) = {}"
    using known by (fastforce simp: no_planned_hooks_def list_all_iff planned_known_def dom_def image_iff)
  with True show ?thesis by (simp add: executeHooks_def Let_def log_ok_def)
next
  case False
  have start: "executeHooks run hooks steps hp checkOnly
      = hook_loop (hook_loop_fuel hp (length steps) hooks) run hooks (hp_steps hp) checkOnly (length steps) 0
          (first_run hp checkOnly steps)"
    using False by (simp add: executeHooks_def Let_def first_run_def)
  have "hook_loop (hook_loop_fuel hp (length steps) hooks) run hooks (hp_steps hp) checkOnly (length steps) 0
      (first_run hp checkOnly steps) \<noteq> None"
    by (rule hook_loop_returns [OF loop_ok_start]) (simp add: hook_loop_fuel_def)
  then obtain x where x: "executeHooks run hooks steps hp checkOnly = Some x" using start by auto
  have "log_ok run hp hooks checkOnly steps (hx_log s) r \<and> (r \<noteq> None \<longrightarrow> hx_log s \<noteq> [])
        \<and> (r = None \<longrightarrow> fst ` set (hx_log s) = dom (hp_steps hp)
             \<inter> (step_notifies hp checkOnly steps \<union> hook_notifies hooks checkOnly (hx_log s)))" if "x = Inr (s, r)" for s r
  proof -
    have S: "log_ok run hp hooks checkOnly steps (hx_log s) r
      \<and> (r = None \<longrightarrow> loop_ok run hp hooks checkOnly steps (length (hq_queue (hx_queue s))) s)
      \<and> (r \<noteq> None \<longrightarrow> hx_log s \<noteq> [])"
      by (rule hook_loop_sound [OF _ loop_ok_start]) (use x start that in simp)
    have "fst ` set (hx_log s) = dom (hp_steps hp)
             \<inter> (step_notifies hp checkOnly steps \<union> hook_notifies hooks checkOnly (hx_log s))" if "r = None"
    proof -
      from S that have l: "hooks_run_ok hp hooks checkOnly steps (length (hq_queue (hx_queue s))) s" by (simp add: loop_ok_def)
      then have "fst ` set (hx_log s) = set (filter (\<lambda>h. hp_steps hp h \<noteq> None) (hq_queue (hx_queue s)))"
        unfolding hooks_run_ok_def by (metis list.set_map take_all order_refl)
      with l show ?thesis by (auto simp: hooks_run_ok_def)
    qed
    with S show ?thesis by simp
  qed
  with x show ?thesis by blast
qed

end
