(* ===== verification/Plan_Properties.thy ===== *)
theory Plan_Properties
  imports Plan_Checks Op_Plan
begin

text \<open>
  The properties of planning, with concrete configurations that show their hypotheses can hold.
\<close>

section \<open>Concrete declarations\<close>

definition decl_step :: "string \<Rightarrow> string \<Rightarrow> string list \<Rightarrow> DeclaredStep" where
  "decl_step kind desc refs =
     \<lparr>ds_ID = 1, ds_Desc = desc, ds_Kind = kind, ds_ProvidesFor = None, ds_Resources = None,
      ds_OnChange = refs, ds_Span = zero_span, ds_Fields = Map.empty\<rparr>"

text \<open>A kind that plans one op on a path, and one whose Plan fails with a plain error.\<close>

definition write_op :: "nat \<Rightarrow> nat list \<Rightarrow> Op" where
  "write_op p ds = \<lparr>op_id = p, op_display = ''write'', op_deps = ds, op_caps = Filesystem\<rparr>"

definition dir_env :: plan_env where
  "dir_env =
     \<lparr>pe_Plan = (\<lambda>d. if ds_Kind d = ''dir''
                    then (Some ((dir_step (ds_Desc d))\<lparr>step_ops := [write_op (length (ds_Desc d)) []]\<rparr>), None)
                    else (None, Some (PlainErr ''stat failed''))),
      pe_Heap = [], pe_OpKey = Itoa, pe_opID = Itoa, pe_NodeKey = Itoa, pe_StepPtr = (\<lambda>_. ''0xc0''),
      pe_range_producers = (\<lambda>_ ps. ps), pe_range_hooks = (\<lambda>_ hs. hs)\<rparr>"

definition steps_config :: "DeclaredStep list \<Rightarrow> hooks \<Rightarrow> Config" where
  "steps_config ds hs =
     \<lparr>cf_Path = ''site.scampi'', cf_DeployName = ''web'', cf_TargetName = ''host'', cf_Target = host,
      cf_Steps = ds, cf_Hooks = hs\<rparr>"

lemma dir_env_ok [simp]: "env_ok dir_env" "kinds_ok dir_env cfg"
  by (simp_all add: env_ok_def dir_env_def map_iteration_id kinds_ok_def kind_ok_def)

definition reload_hook :: hooks where
  "reload_hook = [(''reload'', [decl_step ''dir'' ''/var/reload'' []])]"

definition two_dirs_config :: Config where
  "two_dirs_config = steps_config [decl_step ''dir'' ''/srv'' [''reload''], decl_step ''dir'' ''/srv/www'' []] reload_hook"

definition accepted :: "plan_answer \<Rightarrow> bool" where
  "accepted r = (case r of Inr (_, Inr _) \<Rightarrow> True | _ \<Rightarrow> False)"

lemma accepted_iff: "accepted r \<longleftrightarrow> (\<exists>evs p deps hp. r = Inr (evs, Inr (p, deps, hp)))"
  by (auto simp: accepted_def split: sum.splits)

lemma two_dirs_accepted: "accepted (plan dir_env two_dirs_config POSIX)"
  by code_simp

section \<open>Properties\<close>

text \<open>C17: as long as no step kind answers neither a step nor an error (kinds_ok), planning always
  returns, without a panic or an endless search. It accepts exactly the configurations in which no
  declared step and no hook fails fatally, every hook referred to has been planned, the hooks have no
  cycle, no resource is provided twice by the steps planned, and neither the ops nor the steps planned
  depend on themselves. A failure is fatal when it raises a diagnostic that aborts or when the target
  lacks a capability of the step; a step whose kind answers no step and an error that aborts nothing is
  left out, and the rest accepted. The plan holds the steps planned and not left out, in order, and the
  hooks all of whose steps were planned without an error. Every other configuration is refused with an
  abort that has a cause and a diagnostic asking for it.\<close>

theorem plan_exact:
  assumes "env_ok env" and "hooks_ok (cf_Hooks cfg)" and "kinds_ok env cfg"
  shows "\<exists>evs r. plan env cfg caps = Inr (evs, r)
    \<and> (if plan_valid env cfg caps
       then (\<exists>p deps hp. r = Inr (p, deps, hp) \<and> pl_Steps p = live_steps env cfg caps
              \<and> deps = extractStepDeps (buildStepGraph (pe_range_producers env) (pl_Steps p))
              \<and> hp_steps hp = live_hooks env cfg caps)
       else (\<exists>cs. r = Inl (AbortError cs) \<and> cs \<noteq> [] \<and> list_ex aborts evs))"
proof -
  from plan_spec [OF assms, of caps] obtain evs r where pl: "plan env cfg caps = Inr (evs, r)"
    and ok: "plan_ok_answer env cfg caps (Inr (evs, r))"
    by (auto simp: plan_ok_answer_def split: sum.splits prod.splits)
  show ?thesis
  proof (cases r)
    case (Inl e)
    with ok show ?thesis by (auto simp: pl plan_ok_answer_def rejects_def)
  next
    case (Inr x)
    obtain p deps hp where "x = (p, deps, hp)" by (cases x)
    with ok Inr show ?thesis by (auto simp: pl plan_ok_answer_def extractStepDeps_def)
  qed
qed

lemma plan_exact_witness:
  "plan_valid dir_env two_dirs_config POSIX
   \<and> \<not> plan_valid dir_env (steps_config [decl_step ''dir'' ''/srv'' [], decl_step ''dir'' ''/srv'' []] []) POSIX"
proof (rule conjI)
  have "hooks_ok (cf_Hooks two_dirs_config)" by code_simp
  from plan_exact [where caps = POSIX, OF dir_env_ok(1) this dir_env_ok(2)] two_dirs_accepted
  show "plan_valid dir_env two_dirs_config POSIX" by (auto simp: accepted_def split: if_splits)
next
  let ?c = "steps_config [decl_step ''dir'' ''/srv'' [], decl_step ''dir'' ''/srv'' []] []"
  have "hooks_ok (cf_Hooks ?c)" by code_simp
  moreover have "\<not> accepted (plan dir_env ?c POSIX)" by code_simp
  ultimately show "\<not> plan_valid dir_env ?c POSIX"
    using plan_exact [where caps = POSIX, OF dir_env_ok(1) _ dir_env_ok(2), of ?c]
    by (auto simp: accepted_def split: if_splits)
qed

text \<open>C19: in an accepted plan the target offers every capability that an op of a step or of a hook
  asks for.\<close>

theorem accepted_ops_supported:
  assumes "env_ok env" and "hooks_ok (cf_Hooks cfg)" and "kinds_ok env cfg"
    and "plan env cfg caps = Inr (evs, Inr (p, deps, hp))"
    and "act \<in> set (pl_Steps p) \<or> (\<exists>hid steps. hp_steps hp hid = Some steps \<and> act \<in> set steps)"
  shows "\<forall>op \<in> set (step_ops act). HasAll caps (op_caps op)"
proof -
  from plan_spec [OF assms(1-3), of caps] assms(4)
  have p: "pl_Steps p = live_steps env cfg caps" "hp_steps hp = live_hooks env cfg caps"
    by (simp_all add: plan_ok_answer_def)
  have "HasAll caps (collectRequiredCaps act)" if "survives env caps d = Some act" for d
    using that by (auto simp: survives_def split: option.splits prod.splits if_splits)
  moreover have "HasAll caps (collectRequiredCaps (the (survives env caps d)))" if "plan_clean env caps d" for d
    using that by (auto simp: survives_def plan_clean_def split: option.splits prod.splits if_splits)
  ultimately have "HasAll caps (collectRequiredCaps act)"
    using assms(5) unfolding p
    by (auto simp: live_steps_def live_hooks_def planned_hook_def List.map_filter_def list_all_iff
        split: option.splits if_splits)
  then show ?thesis by (simp add: collectRequiredCaps_iff)
qed

lemma accepted_ops_supported_witness:
  "\<exists>evs p deps hp. plan dir_env two_dirs_config POSIX = Inr (evs, Inr (p, deps, hp))
     \<and> (\<forall>act \<in> set (pl_Steps p). \<forall>op \<in> set (step_ops act). HasAll POSIX (op_caps op))"
proof -
  obtain evs p deps hp where a: "plan dir_env two_dirs_config POSIX = Inr (evs, Inr (p, deps, hp))"
    using two_dirs_accepted accepted_iff by metis
  have "hooks_ok (cf_Hooks two_dirs_config)" by code_simp
  from accepted_ops_supported [OF dir_env_ok(1) this dir_env_ok(2) a] a show ?thesis by blast
qed

text \<open>The ops of every step of an accepted plan can be scheduled: when they are distinct and
  depend on each other only, buildPlan finds no cycle and does not panic.\<close>

theorem accepted_steps_build:
  assumes "env_ok env" and "hooks_ok (cf_Hooks cfg)" and "kinds_ok env cfg"
    and "plan env cfg caps = Inr (evs, Inr (p, deps, hp))" and "act \<in> set (pl_Steps p)"
    and "distinct (map op_id (step_ops act))"
    and "\<forall>op \<in> set (step_ops act). set (op_deps op) \<subseteq> op_id ` set (step_ops act)"
    and "inj_on op_id (set (plan_ops (pl_Steps p) @ pe_Heap env))"
  shows "\<exists>ns. buildPlan (step_ops act) = Inr ns \<and> plan_ok (step_ops act) ns"
proof -
  let ?heap = "plan_ops (pl_Steps p) @ pe_Heap env"
  from plan_spec [OF assms(1-3), of caps] assms(4)
  have acy: "acyclic (op_reach env (pl_Steps p))" by (auto simp: plan_ok_answer_def plan_valid_def)
  have sub: "set (step_ops act) \<subseteq> set (plan_ops (pl_Steps p))" using assms(5) by (auto simp: plan_ops_def)
  have "op_neighbors ?heap (op_id op) = op_deps op" if op: "op \<in> set (step_ops act)" for op
  proof -
    have "List.find (\<lambda>o'. op_id o' = op_id op) ?heap = Some op"
    proof (cases "List.find (\<lambda>o'. op_id o' = op_id op) ?heap")
      case None
      then show ?thesis using op sub by (auto simp: find_None_iff)
    next
      case (Some o')
      then have "o' \<in> set ?heap" "op_id o' = op_id op" unfolding find_Some_iff by (metis nth_mem)+
      moreover have "op \<in> set ?heap" using op sub by auto
      ultimately have "o' = op" by (intro inj_onD [OF assms(8)])
      with Some show ?thesis by simp
    qed
    then show ?thesis by (simp add: op_neighbors_def)
  qed
  then have "(dep_edges (step_ops act))\<inverse> \<subseteq> op_reach env (pl_Steps p)"
    using sub by (fastforce simp: dep_edges_def reach_edges_def edge_def)
  then have "acyclic (dep_edges (step_ops act))" using acy acyclic_subset acyclic_converse by metis
  with assms(6,7) have "ops_ok (step_ops act)" by (simp add: ops_ok_def)
  with buildPlan_spec [of "step_ops act"] show ?thesis by (cases "buildPlan (step_ops act)") auto
qed

lemma accepted_steps_build_witness:
  "\<exists>evs p deps hp ns. plan dir_env two_dirs_config POSIX = Inr (evs, Inr (p, deps, hp))
     \<and> buildPlan (step_ops (hd (pl_Steps p))) = Inr ns"
proof -
  obtain evs p deps hp where a: "plan dir_env two_dirs_config POSIX = Inr (evs, Inr (p, deps, hp))"
    using two_dirs_accepted accepted_iff by metis
  have h: "hooks_ok (cf_Hooks two_dirs_config)" by code_simp
  from plan_spec [OF dir_env_ok(1) h dir_env_ok(2), of POSIX] a
  have p: "pl_Steps p = live_steps dir_env two_dirs_config POSIX" by (simp add: plan_ok_answer_def)
  let ?l = "live_steps dir_env two_dirs_config POSIX"
  have l: "?l \<noteq> []" "distinct (map op_id (step_ops (hd ?l)))"
    "list_all (\<lambda>op. op_deps op = []) (step_ops (hd ?l))" "distinct (map op_id (plan_ops ?l @ pe_Heap dir_env))"
    by code_simp+
  have act: "hd ?l \<in> set (pl_Steps p)" unfolding p using l(1) by (rule list.set_sel(1))
  have dep: "\<forall>op \<in> set (step_ops (hd ?l)). set (op_deps op) \<subseteq> op_id ` set (step_ops (hd ?l))"
    using l(3) by (simp add: list_all_iff)
  have inj: "inj_on op_id (set (plan_ops (pl_Steps p) @ pe_Heap dir_env))"
    unfolding p using l(4) distinct_map by blast
  from accepted_steps_build [OF dir_env_ok(1) h dir_env_ok(2) a act l(2) dep inj]
  have "\<exists>ns. buildPlan (step_ops (hd (pl_Steps p))) = Inr ns" by (auto simp: p)
  with a show ?thesis by blast
qed

text \<open>A step whose kind fails with an error that is no diagnostic and that plans no step is left
  out of the plan without a word: the configuration is accepted, and planned as if the step were not
  there, exactly when its other steps are.\<close>

theorem plain_error_drops_step:
  assumes "pe_Plan env d = (None, Some e)" and "as_Raisable e = None"
  shows "live_steps env (cfg\<lparr>cf_Steps := xs @ d # ys\<rparr>) caps = live_steps env (cfg\<lparr>cf_Steps := xs @ ys\<rparr>) caps
    \<and> \<not> plan_fatal env caps d
    \<and> (set (ds_OnChange d) \<subseteq> dom (live_hooks env cfg caps) \<longrightarrow>
        plan_valid env (cfg\<lparr>cf_Steps := xs @ d # ys\<rparr>) caps = plan_valid env (cfg\<lparr>cf_Steps := xs @ ys\<rparr>) caps)"
proof -
  have "survives env caps d = None" and nf: "\<not> plan_fatal env caps d"
    using assms by (simp_all add: survives_def plan_fatal_def err_aborts_def)
  then have l: "live_steps env (cfg\<lparr>cf_Steps := xs @ d # ys\<rparr>) caps = live_steps env (cfg\<lparr>cf_Steps := xs @ ys\<rparr>) caps"
    by (simp add: live_steps_def List.map_filter_def)
  have h: "live_hooks env (cfg\<lparr>cf_Steps := zs\<rparr>) caps = live_hooks env cfg caps" for zs
    by (simp add: live_hooks_def fun_eq_iff)
  show ?thesis using l nf by (auto simp: plan_valid_def refs_known_def h)
qed

lemma plain_error_drops_step_witness:
  "live_steps dir_env (steps_config [decl_step ''template'' ''/etc/motd'' []] []) POSIX = []
   \<and> accepted (plan dir_env (steps_config [decl_step ''template'' ''/etc/motd'' []] []) POSIX)"
proof (rule conjI)
  have "pe_Plan dir_env (decl_step ''template'' ''/etc/motd'' []) = (None, Some (PlainErr ''stat failed''))" by code_simp
  from plain_error_drops_step [OF this, where cfg = "steps_config [] []" and xs = "[]" and ys = "[]" and caps = POSIX]
  show "live_steps dir_env (steps_config [decl_step ''template'' ''/etc/motd'' []] []) POSIX = []"
    by (simp add: steps_config_def live_steps_def List.map_filter_def)
qed code_simp

text \<open>Of the steps that provide one resource every one but the first is reported, with an error
  that names the first, and nothing else is; the plan is refused exactly when there is one.\<close>

theorem duplicates_reported:
  "(let pairs = provided_pairs steps;
        decl = (\<lambda>i. declared ! (didx ! i));
        es = map (\<lambda>k. duplicate_error (snd (pairs ! k)) (decl (fst (pairs ! k)))
                        (decl (the (first_provider pairs (snd (pairs ! k))))))
                 (filter (\<lambda>k. snd (pairs ! k) \<in> snd ` set (take k pairs)) [0..<length pairs])
    in detectDuplicateProvides steps didx declared
         = (map Diagnostic es, if es = [] then None else Some (AbortError (map raised es)))
     \<and> (es = [] \<longleftrightarrow> distinct (concat (map Provides steps))))"
  using repeated_Nil [of "provided_pairs steps"]
  by (simp add: detectDuplicateProvides_spec dup_errors_def Let_def map_snd_provided_pairs repeated_def [symmetric])

end
