(* ===== verification/Converge.thy ===== *)
theory Converge
  imports Hook_Runs Plan_Properties
begin

text \<open>
  The properties of running hooks and of converging one deploy (internal/engine/hooks.go and
  converge.go).
\<close>

section \<open>Hooks\<close>

text \<open>C20: running hooks always ends. A hook is run at most once, and only when a changed step or a hook
  that was run before it and changed something refers to it; unless a step of a hook fails, the hooks
  run are all the planned ones that are so notified. Each runs its steps in order, numbered on from the
  deploy's steps, and a failure ends the hooks.\<close>

theorem hooks_run_when_notified:
  assumes "planned_known hooks hp"
  shows "\<exists>x. executeHooks run hooks steps hp checkOnly = Some x
    \<and> (\<forall>s r. x = Inr (s, r) \<longrightarrow>
          distinct (map fst (hx_log s))
        \<and> (\<forall>k < length (hx_log s). fst (hx_log s ! k) \<in> step_notifies hp checkOnly steps
              \<union> hook_notifies hooks checkOnly (take k (hx_log s)))
        \<and> (\<forall>k < length (hx_log s). entry_run run hp (length steps) (hx_log s) k
              (if Suc k = length (hx_log s) then r else None))
        \<and> (r \<noteq> None \<longrightarrow> hx_log s \<noteq> [])
        \<and> (r = None \<longrightarrow> fst ` set (hx_log s) = dom (hp_steps hp)
              \<inter> (step_notifies hp checkOnly steps \<union> hook_notifies hooks checkOnly (hx_log s))))"
  using executeHooks_spec [OF assms, where run = run and steps = steps and checkOnly = checkOnly] by (simp only: log_ok_def conj_assoc)

definition changed_report :: "Step \<Rightarrow> StepReport" where
  "changed_report act = \<lparr>sr_step = Some act, sr_ops = [], sr_summary = zero_summary\<lparr>sum_Changed := 1\<rparr>\<rparr>"

definition chained_hooks :: hooks where
  "chained_hooks = [(''reload'', [decl_step ''dir'' ''/a'' [''notify'']]), (''notify'', [decl_step ''dir'' ''/b'' []]),
     (''idle'', [decl_step ''dir'' ''/c'' []])]"

definition chained_plan :: hookPlan where
  "chained_plan = \<lparr>hp_steps = [''reload'' \<mapsto> [dir_step ''/a''], ''notify'' \<mapsto> [dir_step ''/b''], ''idle'' \<mapsto> [dir_step ''/c'']],
     hp_onChange = [0 \<mapsto> [''reload'']]\<rparr>"

definition logged :: "(go_panic + hook_run \<times> err option) option \<Rightarrow> string list" where
  "logged x = (case x of Some (Inr (s, None)) \<Rightarrow> map fst (hx_log s) | _ \<Rightarrow> [])"

lemma hooks_run_when_notified_witness:
  "logged (executeHooks (\<lambda>_ act _. Inr (changed_report act, None, [])) chained_hooks [changed_report bare_step]
      chained_plan False) = [''reload'', ''notify'']
   \<and> executeHooks (\<lambda>_ act _. Inr (changed_report act, None, [])) chained_hooks [changed_report bare_step]
      chained_plan False \<noteq> None"
proof (rule conjI)
  have "planned_known chained_hooks chained_plan"
    by (auto simp: planned_known_def chained_plan_def chained_hooks_def)
  from hooks_run_when_notified [OF this]
  show "executeHooks (\<lambda>_ act _. Inr (changed_report act, None, [])) chained_hooks [changed_report bare_step]
      chained_plan False \<noteq> None" by (metis option.distinct(1))
qed code_simp

section \<open>Converging a deploy\<close>

lemma live_hooks_known: "dom (live_hooks env cfg caps) \<subseteq> fst ` set (cf_Hooks cfg)"
  by (auto simp: live_hooks_def dom_def split: option.splits dest!: map_of_SomeD intro: rev_image_eqI)

text \<open>A deploy whose configuration is not valid runs nothing: its error is the planner's, an abort.\<close>

lemma converge_refuses:
  assumes "env_ok env" and "hooks_ok (cf_Hooks cfg)" and "kinds_ok env cfg" and "\<not> plan_valid env cfg caps"
  shows "\<exists>cs. converge env cfg caps checkOnly runPlan run = Some (Inr (\<lparr>ex_steps = [], ex_err = None\<rparr>, Some (AbortError cs)))
    \<and> cs \<noteq> []"
proof -
  from plan_spec [OF assms(1-3), of caps] obtain evs r where pl: "plan env cfg caps = Inr (evs, r)"
    and ok: "plan_ok_answer env cfg caps (Inr (evs, r))"
    by (auto simp: plan_ok_answer_def split: sum.splits prod.splits)
  with assms(4) obtain e where "r = Inl e" "rejects evs e"
    by (cases r) (auto simp: plan_ok_answer_def)
  with pl show ?thesis by (auto simp: converge_def rejects_def)
qed

text \<open>In an accepted plan every hook is one of the configuration, as running the hooks requires.\<close>

lemma accepted_hooks_known:
  assumes "env_ok env" and "hooks_ok (cf_Hooks cfg)" and "kinds_ok env cfg"
    and "plan env cfg caps = Inr (evs, Inr (p, deps, hp))"
  shows "planned_known (cf_Hooks cfg) hp"
  using plan_spec [OF assms(1-3), of caps] assms(4) by (simp add: planned_known_def live_hooks_known plan_ok_answer_def)

end
