(* ===== verification/Step_Run.thy ===== *)
theory Step_Run
  imports Op_Reports
begin

text \<open>
  A step run on a target: the schedulers of \<open>Op_Scheduler\<close> leave open what an op's Check and
  Execute answer; here they are the code of the ops, reading and changing the state of a
  target. The contract under which a run leaves every op satisfied is the locale
  \<open>step_contract\<close>, which each step kind instantiates.
\<close>

section \<open>Ops with their code\<close>

text \<open>
  What an op's Check and Execute do to the target. A check that does not return is \<open>None\<close>;
  a panic of Execute ends the process.
\<close>

type_synonym exec_answer = "go_panic + Result \<times> err option"

record 's OpImpl =
  impl_Check :: "'s \<Rightarrow> ('s \<times> check_answer) option"
  impl_Execute :: "'s \<Rightarrow> 's \<times> exec_answer"

definition op_satisfied :: "'s OpImpl \<Rightarrow> 's \<Rightarrow> bool" where
  "op_satisfied impl s \<longleftrightarrow>
     (case impl_Check impl s of Some (_, CheckSatisfied, _, None) \<Rightarrow> True | _ \<Rightarrow> False)"

lemma op_satisfied_iff:
  "op_satisfied impl s \<longleftrightarrow> (\<exists>s' d. impl_Check impl s = Some (s', CheckSatisfied, d, None))"
  by (auto simp: op_satisfied_def split: option.splits CheckResult.splits prod.splits)

text \<open>The checks of a step, in the order in which their goroutines get to the target.\<close>

fun check_ops :: "(nat \<Rightarrow> 's OpImpl) \<Rightarrow> nat list \<Rightarrow> 's \<Rightarrow> ('s \<times> (nat \<Rightarrow> check_answer)) option" where
  "check_ops impl [] s = Some (s, \<lambda>_. (CheckUnknown, [], None))"
| "check_ops impl (i # is) s =
     (case impl_Check (impl i) s of
        None \<Rightarrow> None
      | Some (s', a) \<Rightarrow>
          (case check_ops impl is s' of None \<Rightarrow> None | Some (s'', f) \<Rightarrow> Some (s'', f(i := a))))"

text \<open>
  The execution phase with the target: a started op that calls Execute moves the target as
  its code does. One call of Execute is one transition.
\<close>

inductive target_run ::
  "scheduler \<Rightarrow> (nat \<Rightarrow> 's OpImpl) \<Rightarrow> opNode list \<Rightarrow> 's \<Rightarrow> op_run \<Rightarrow> 's \<Rightarrow> bool"
  for sc impl ns s0 where
  tr_start: "target_run sc impl ns s0 (start_ops ns) s0"
| tr_execute: "target_run sc impl ns s0 r s \<Longrightarrow> i \<in> set (r_launched r) \<Longrightarrow> r_answer r i = None \<Longrightarrow>
     impl_Execute (impl i) s = (s', Inr (res, e)) \<Longrightarrow> target_run sc impl ns s0 (op_executes sc i res e r) s'"
| tr_settle: "target_run sc impl ns s0 r s \<Longrightarrow> i \<in> set (r_launched r) \<Longrightarrow> r_answer r i = Some (res, e) \<Longrightarrow>
     i \<notin> r_returned r \<Longrightarrow> target_run sc impl ns s0 (op_settles i res e r) s"

text \<open>A step up to some point of its execution phase: its checks raised no error.\<close>

inductive step_reaches ::
  "scheduler \<Rightarrow> (nat \<Rightarrow> 's OpImpl) \<Rightarrow> opNode list \<Rightarrow> 's \<Rightarrow> opNode list \<Rightarrow> op_run \<Rightarrow> 's \<Rightarrow> bool"
  for sc impl ns s0 where
  step_reaches: "mset order = mset [0..<length ns] \<Longrightarrow> check_ops impl order s0 = Some (s1, answers) \<Longrightarrow>
     runChecks sc answers order (ns, evs, None) = (ns', evs', None) \<Longrightarrow> target_run sc impl ns' s1 r s \<Longrightarrow>
     step_reaches sc impl ns s0 ns' r s"

inductive_cases step_reachesE: "step_reaches sc impl ns s0 ns' r s"

lemma target_run_reach: "target_run sc impl ns s0 r s \<Longrightarrow> op_reach sc ns r"
  by (induction rule: target_run.induct)
    (auto intro: op_reach.op_start op_reach.op_step op_trans.executes op_trans.settles)

lemma permutation_distinct:
  assumes "mset order = mset [0..<n]"
  shows "distinct order" "set order = {..<n}"
  using assms by (metis distinct_upt mset_eq_imp_distinct_iff, metis atLeast_upt mset_eq_setD)

lemma check_ops_read_only:
  assumes "check_ops impl xs t = Some (s', f)"
    and ro: "\<And>i s s' a. i \<in> set xs \<Longrightarrow> impl_Check (impl i) s = Some (s', a) \<Longrightarrow> s' = s" and "distinct xs"
  shows "s' = t" "\<forall>i \<in> set xs. impl_Check (impl i) t = Some (t, f i)"
proof -
  have "s' = t \<and> (\<forall>i \<in> set xs. impl_Check (impl i) t = Some (t, f i))"
    using assms
  proof (induction xs arbitrary: t f)
    case (Cons i xs)
    from Cons.prems(1) obtain t1 a g where a: "impl_Check (impl i) t = Some (t1, a)"
      "check_ops impl xs t1 = Some (s', g)" "f = g(i := a)"
      by (auto split: option.splits prod.splits)
    have "t1 = t" using Cons.prems(2) [OF _ a(1)] by simp
    moreover have "s' = t1 \<and> (\<forall>i \<in> set xs. impl_Check (impl i) t1 = Some (t1, g i))"
      by (rule Cons.IH [OF a(2)]) (use Cons.prems in \<open>auto intro: Cons.prems(2)\<close>)
    ultimately show ?case using a Cons.prems(3) by auto
  qed simp
  then show "s' = t" "\<forall>i \<in> set xs. impl_Check (impl i) t = Some (t, f i)" by blast+
qed

text \<open>A run in which no op was started has not touched the target.\<close>

lemma unblock_keeps: "unblock_ops ds ns q = (ns', []) \<Longrightarrow> q = []"
  by (induction ds ns q rule: unblock_ops.induct) (auto simp: schedule_def Let_def split: if_splits)

lemma idle_run: "target_run sc impl ns s0 r s \<Longrightarrow> r_launched r = [] \<Longrightarrow> s = s0"
proof (induction rule: target_run.induct)
  case (tr_settle r s i res e)
  then have "r_launched (op_settles i res e r) = [] \<Longrightarrow> r_launched r = []"
    by (auto simp: op_settles_def Let_def split: option.splits prod.splits dest: unblock_keeps)
  with tr_settle show ?case by simp
qed (simp_all add: op_executes_def)

lemma idle_reaches:
  assumes "step_reaches sc impl ns s0 ns' r s" and "r_launched r = []"
    and ro: "\<And>i s s' a. i \<in> {..<length ns} \<Longrightarrow> impl_Check (impl i) s = Some (s', a) \<Longrightarrow> s' = s"
  shows "s = s0"
proof -
  from assms(1) obtain order s1 answers where
    run: "mset order = mset [0..<length ns]" "check_ops impl order s0 = Some (s1, answers)"
      "target_run sc impl ns' s1 r s" by (auto elim: step_reachesE)
  note p = permutation_distinct [OF run(1)]
  have "s1 = s0" by (rule check_ops_read_only(1) [OF run(2) ro p(1)]) (simp_all add: p(2))
  with idle_run [OF run(3) assms(2)] show ?thesis by simp
qed

section \<open>What the checks record\<close>

lemma check_one_satisfied:
  "fst (check_one sc n a) = n' \<Longrightarrow> fresh n \<Longrightarrow> n_satisfied n' \<Longrightarrow> fst a = CheckSatisfied"
  by (auto simp: check_one_def settle_check_def fresh_def Let_def
      split: prod.splits option.splits if_splits)

lemma check_one_satisfies:
  "a = (CheckSatisfied, d, None) \<Longrightarrow> n_satisfied (fst (check_one sc n a))"
  by (simp add: check_one_def settle_check_def)

lemma check_one_clean: "snd (snd a) = None \<Longrightarrow> snd (snd (check_one sc n a)) = None"
  by (cases a) (simp add: check_one_def split: prod.split)

lemma runChecks_clean:
  assumes "runChecks sc answers [0..<length ns] (ns, evs, None) = (ns', evs', e)"
    and "\<And>i. i < length ns \<Longrightarrow> snd (snd (answers i)) = None"
  shows "e = None"
  using runChecks_spec [OF assms(1)] check_one_clean [OF assms(2)] by (auto simp: atLeast0LessThan)

lemma runChecks_satisfied:
  assumes "runChecks sc answers order (ns, evs, None) = (ns', evs', None)"
    and "mset order = mset [0..<length ns]" and "list_all fresh ns" and i: "i < length ns"
  shows "n_satisfied (ns' ! i) \<Longrightarrow> fst (answers i) = CheckSatisfied"
    and "answers i = (CheckSatisfied, d, None) \<Longrightarrow> n_satisfied (ns' ! i)"
proof -
  note p = permutation_distinct [OF assms(2)]
  have n': "ns' ! i = fst (check_one sc (ns ! i) (answers i))"
    using runChecks_spec [OF assms(1) p(1)] p(2) i by simp
  have "fresh (ns ! i)" using assms(3) i by (simp add: list_all_length)
  then show "n_satisfied (ns' ! i) \<Longrightarrow> fst (answers i) = CheckSatisfied"
    using check_one_satisfied n' by metis
  show "answers i = (CheckSatisfied, d, None) \<Longrightarrow> n_satisfied (ns' ! i)"
    using check_one_satisfies n' by metis
qed

text \<open>When the checks leave one op to execute, a finished run is one call of it.\<close>

lemma single_op_run:
  assumes "target_run sc impl ns s1 r s" and ok: "linked_ok ns"
    and only: "\<And>i. i < length ns \<Longrightarrow> i \<noteq> k \<Longrightarrow> n_satisfied (ns ! i)"
  shows "(r_answer r = (\<lambda>_. None) \<and> s = s1)
    \<or> (\<exists>res e. impl_Execute (impl k) s1 = (s, Inr (res, e)) \<and> r_answer r = [k \<mapsto> (res, e)])"
  using assms(1)
proof (induction rule: target_run.induct)
  case tr_start
  then show ?case by (simp add: start_ops_def Let_def)
next
  case (tr_execute r s i s' res e)
  have inv: "op_inv ns r" by (rule op_reach_inv [OF target_run_reach [OF tr_execute.hyps(1)] ok])
  then have "i < length ns" "unsat ns i"
    using ug_launched(1) [of ns _ "r_launched r"] tr_execute.hyps(2) by (auto simp: op_inv_def)
  with only have ik: "i = k" by (auto simp: unsat_def)
  have "r_answer r = (\<lambda>_. None) \<and> s = s1" using tr_execute.IH tr_execute.hyps(3) ik by auto
  with tr_execute.hyps(4) ik show ?case by (simp add: op_executes_def)
next
  case (tr_settle r s i res e)
  have "r_answer (op_settles i res e r) = r_answer r"
    by (auto simp: op_settles_def Let_def split: option.split prod.split)
  with tr_settle.IH show ?case by simp
qed

lemma single_op_reaches:
  assumes reach: "step_reaches sc impl ns s0 ns' r s" and plan: "plan_ok ops ns" and fin: "op_wait_done r"
    and ro: "\<And>i s s' a. i \<in> {..<length ns} \<Longrightarrow> impl_Check (impl i) s = Some (s', a) \<Longrightarrow> s' = s"
    and k: "k < length ns" "\<not> op_satisfied (impl k) s0"
    and only: "\<And>i. i < length ns \<Longrightarrow> i \<noteq> k \<Longrightarrow> op_satisfied (impl i) s0"
    and clean: "\<And>i d e. i < length ns \<Longrightarrow> impl_Check (impl i) s0 = Some (s0, CheckSatisfied, d, e) \<Longrightarrow> e = None"
  shows "\<exists>res e. impl_Execute (impl k) s0 = (s, Inr (res, e)) \<and> (r_grp_err r = None \<longleftrightarrow> e = None)"
proof -
  from reach obtain order s1 answers evs evs' where
    run: "mset order = mset [0..<length ns]" "check_ops impl order s0 = Some (s1, answers)"
      "runChecks sc answers order (ns, evs, None) = (ns', evs', None)"
      "target_run sc impl ns' s1 r s" by (auto elim: step_reachesE)
  note c = checked_plan [OF plan run(3,1)]
  note p = permutation_distinct [OF run(1)]
  have ro': "s' = s" if "i \<in> set order" "impl_Check (impl i) s = Some (s', a)" for i s s' a
    using ro that p(2) by blast
  have s1: "s1 = s0" by (rule check_ops_read_only(1) [OF run(2) ro' p(1)])
  have "\<forall>i \<in> set order. impl_Check (impl i) s0 = Some (s0, answers i)"
    by (rule check_ops_read_only(2) [OF run(2) ro' p(1)])
  then have ans: "impl_Check (impl i) s0 = Some (s0, answers i)" if "i < length ns" for i
    using p(2) that by simp
  have sat: "n_satisfied (ns' ! i)" if i: "i < length ns'" "i \<noteq> k" for i
  proof -
    have "i < length ns" using i c(4) by simp
    moreover have "\<exists>d. answers i = (CheckSatisfied, d, None)"
      using only [OF calculation i(2)] ans [OF calculation] by (auto simp: op_satisfied_iff)
    ultimately show ?thesis using runChecks_satisfied(2) [OF run(3,1) plan_fresh(1) [OF plan]] by blast
  qed
  have uk: "unsat ns' k"
  proof -
    have "fst (answers k) \<noteq> CheckSatisfied"
      using k ans [OF k(1)] clean [OF k(1)] by (cases "answers k") (auto simp: op_satisfied_iff)
    then show ?thesis
      using runChecks_satisfied(1) [OF run(3,1) plan_fresh(1) [OF plan] k(1)] by (auto simp: unsat_def)
  qed
  have inv: "op_inv ns' r" by (rule op_reach_inv [OF target_run_reach [OF run(4)] c(1)])
  have acy: "acyclic (op_edges ns')" using plan c(3) by (simp add: plan_ok_def)
  have "r_answer r \<noteq> (\<lambda>_. None)"
  proof
    assume "r_answer r = (\<lambda>_. None)"
    then have "dom (r_answer r) = {}" by simp
    then have ret: "r_returned r = {}" "r_succeeded r = []" using inv by (auto simp: op_inv_def)
    then have "r_grp_err r = None" using inv by (simp add: op_inv_def)
    from op_reach_done [OF inv c(1) acy fin this] ret uk k(1) c(4) show False by auto
  qed
  moreover have "(r_answer r = (\<lambda>_. None) \<and> s = s1)
      \<or> (\<exists>res e. impl_Execute (impl k) s1 = (s, Inr (res, e)) \<and> r_answer r = [k \<mapsto> (res, e)])"
    by (rule single_op_run [OF run(4) c(1) sat])
  ultimately obtain res e where
    e: "impl_Execute (impl k) s0 = (s, Inr (res, e))" "r_answer r = [k \<mapsto> (res, e)]" using s1 by blast
  have node: "ran_node r (ns' ! k) k" using inv k(1) c(4) by (simp add: op_inv_def)
  have ret: "k \<in> r_returned r" "r_returned r \<subseteq> {k}" "set (r_succeeded r) \<subseteq> {k}"
  proof -
    have dom: "r_returned r \<subseteq> dom (r_answer r)" "dom (r_answer r) \<subseteq> set (r_launched r)"
      "set (r_launched r) \<subseteq> r_returned r" "set (r_succeeded r) \<subseteq> r_returned r"
      using inv fin unfolding op_inv_def op_wait_done_def by blast+
    then show "k \<in> r_returned r" "r_returned r \<subseteq> {k}" "set (r_succeeded r) \<subseteq> {k}" using e(2) by auto
  qed
  have "r_grp_err r = None \<longleftrightarrow> k \<in> set (r_succeeded r)"
    using inv ret by (auto simp: op_inv_def)
  also have "\<dots> \<longleftrightarrow> e = None"
    using node ret(1) e(2) by (auto simp: ran_node_def Let_def split: if_splits)
  finally have "r_grp_err r = None \<longleftrightarrow> e = None" .
  with e(1) show ?thesis by (intro exI [of _ res] exI [of _ e] conjI)
qed

text \<open>Checks that only read and raise nothing can be run in list order.\<close>

lemma check_ops_pure:
  assumes checks: "\<And>i. i < length ns \<Longrightarrow> \<exists>res d. impl_Check (impl i) s0 = Some (s0, res, d, None)"
  shows "\<exists>answers ns' evs'. check_ops impl [0..<length ns] s0 = Some (s0, answers)
    \<and> (\<forall>i < length ns. impl_Check (impl i) s0 = Some (s0, answers i) \<and> snd (snd (answers i)) = None)
    \<and> runChecks sc answers [0..<length ns] (ns, [], None) = (ns', evs', None)"
proof -
  have "\<exists>answers. check_ops impl xs s0 = Some (s0, answers)
      \<and> (\<forall>i \<in> set xs. impl_Check (impl i) s0 = Some (s0, answers i))" if "set xs \<subseteq> {..<length ns}" for xs
    using that
  proof (induction xs)
    case (Cons i xs)
    then obtain answers where a: "check_ops impl xs s0 = Some (s0, answers)"
      "\<forall>i \<in> set xs. impl_Check (impl i) s0 = Some (s0, answers i)" by auto
    obtain a where "impl_Check (impl i) s0 = Some (s0, a)" using checks [of i] Cons.prems by auto
    with a show ?case by (intro exI [of _ "answers(i := a)"]) auto
  qed simp
  from this [of "[0..<length ns]"] obtain answers where
    co: "check_ops impl [0..<length ns] s0 = Some (s0, answers)"
    and an: "\<And>i. i < length ns \<Longrightarrow> impl_Check (impl i) s0 = Some (s0, answers i)" by fastforce
  obtain ns' evs' e0 where rc: "runChecks sc answers [0..<length ns] (ns, [], None) = (ns', evs', e0)"
    by (metis prod_cases3)
  have ok: "snd (snd (answers i)) = None" if "i < length ns" for i
    using checks [OF that] an [OF that] by auto
  have "e0 = None" by (rule runChecks_clean [OF rc ok])
  with rc have "runChecks sc answers [0..<length ns] (ns, [], None) = (ns', evs', None)" by simp
  with co an ok show ?thesis by blast
qed

text \<open>When every op is satisfied the run is over as it starts.\<close>

lemma satisfied_run_exists:
  assumes plan: "plan_ok ops ns"
    and sat: "\<And>i. i < length ns \<Longrightarrow> \<exists>d. impl_Check (impl i) s0 = Some (s0, CheckSatisfied, d, None)"
  shows "\<exists>ns' r. step_reaches sc impl ns s0 ns' r s0 \<and> op_wait_done r \<and> r_grp_err r = None"
proof -
  have checks: "\<exists>res d. impl_Check (impl i) s0 = Some (s0, res, d, None)" if "i < length ns" for i
    using sat [OF that] by blast
  obtain answers ns' evs' where co: "check_ops impl [0..<length ns] s0 = Some (s0, answers)"
    and an: "\<And>i. i < length ns \<Longrightarrow> impl_Check (impl i) s0 = Some (s0, answers i)"
    and "\<And>i. i < length ns \<Longrightarrow> snd (snd (answers i)) = None"
    and rc: "runChecks sc answers [0..<length ns] (ns, [], None) = (ns', evs', None)"
    using check_ops_pure [where impl = impl and ns = ns and ?s0.0 = s0 and sc = sc, OF checks] by blast
  note c = checked_plan [OF plan rc refl]
  have "n_satisfied (ns' ! i)" if i: "i < length ns" for i
    using sat [OF i] an [OF i] runChecks_satisfied(2) [OF rc refl plan_fresh(1) [OF plan] i] by auto
  moreover have "ug.counters_ok ns' (\<lambda>k. n_pending (r_nodes (start_ops ns') ! k)) (r_launched (start_ops ns'))
      (r_succeeded (start_ops ns'))" using op_inv_start [OF c(1)] by (simp add: op_inv_def)
  then have "set (r_launched (start_ops ns')) \<subseteq> {i. i < length ns' \<and> unsat ns' i}"
    by (rule ug_launched(1))
  moreover have "r_grp_err (start_ops ns') = None" by (simp add: start_ops_def Let_def)
  ultimately have "op_wait_done (start_ops ns')" "r_grp_err (start_ops ns') = None"
    using c(4) unfolding op_wait_done_def by (auto simp: unsat_def)
  with step_reaches.intros [OF refl co rc target_run.tr_start] show ?thesis by blast
qed

text \<open>And there is such a run, when that call does not panic.\<close>

lemma single_op_completes:
  assumes plan: "plan_ok ops ns" and k: "k < length ns" "\<not> op_satisfied (impl k) s0"
    and only: "\<And>i. i < length ns \<Longrightarrow> i \<noteq> k \<Longrightarrow> op_satisfied (impl i) s0"
    and checks: "\<And>i. i < length ns \<Longrightarrow> \<exists>res d. impl_Check (impl i) s0 = Some (s0, res, d, None)"
    and x: "impl_Execute (impl k) s0 = (s, Inr (res, e))"
  shows "\<exists>ns' r. step_reaches sc impl ns s0 ns' r s \<and> op_wait_done r \<and> (r_grp_err r = None \<longleftrightarrow> e = None)"
proof -
  obtain answers ns' evs' where co: "check_ops impl [0..<length ns] s0 = Some (s0, answers)"
    and an: "\<And>i. i < length ns \<Longrightarrow> impl_Check (impl i) s0 = Some (s0, answers i)"
    and ok: "\<And>i. i < length ns \<Longrightarrow> snd (snd (answers i)) = None"
    and rc: "runChecks sc answers [0..<length ns] (ns, [], None) = (ns', evs', None)"
    using check_ops_pure [where impl = impl and ns = ns and ?s0.0 = s0 and sc = sc, OF checks] by blast
  note c = checked_plan [OF plan rc refl]
  have sat: "n_satisfied (ns' ! i)" if i: "i < length ns" "i \<noteq> k" for i
    using only [OF i] an [OF i(1)] runChecks_satisfied(2) [OF rc refl plan_fresh(1) [OF plan] i(1)]
    by (auto simp: op_satisfied_iff)
  let ?r0 = "start_ops ns'" and ?r1 = "op_executes sc k res e (start_ops ns')"
  let ?r2 = "op_settles k res e ?r1"
  have inv0: "op_inv ns' ?r0" by (rule op_inv_start [OF c(1)])
  have sub: "set (r_launched r) \<subseteq> {k}" if inv: "op_inv ns' r" for r
  proof -
    have "ug.counters_ok ns' (\<lambda>i. n_pending (r_nodes r ! i)) (r_launched r) (r_succeeded r)"
      using inv by (simp add: op_inv_def)
    from ug_launched(1) [OF this] sat c(4) show ?thesis by (auto simp: unsat_def)
  qed
  have uk: "unsat ns' k"
    using runChecks_satisfied(1) [OF rc refl plan_fresh(1) [OF plan] k(1)] ok [OF k(1)] an [OF k(1)] k(2)
    by (cases "answers k") (auto simp: unsat_def op_satisfied_iff)
  have "acyclic (op_edges ns')" using plan c(3) by (simp add: plan_ok_def)
  note fin0 = op_reach_done [OF inv0 c(1) this]
  have "r_launched ?r0 \<noteq> []"
  proof
    assume "r_launched ?r0 = []"
    then have "op_wait_done ?r0" by (simp add: op_wait_done_def)
    from fin0 [OF this] uk k(1) c(4) show False by (auto simp: start_ops_def Let_def)
  qed
  with sub [OF inv0] have kl: "k \<in> set (r_launched ?r0)" by (cases "r_launched ?r0") auto
  have none: "r_answer ?r0 = (\<lambda>_. None)" "r_returned ?r0 = {}" by (simp_all add: start_ops_def Let_def)
  have t1: "target_run sc impl ns' s0 ?r1 s"
    by (rule target_run.tr_execute [where i = k and r = "start_ops ns'" and s = s0])
      (simp_all add: target_run.tr_start kl none x)
  have t2: "target_run sc impl ns' s0 ?r2 s"
    by (rule target_run.tr_settle [OF t1]) (use kl none in \<open>auto simp: op_executes_def\<close>)
  have "op_inv ns' ?r2" by (rule op_reach_inv [OF target_run_reach [OF t2] c(1)])
  moreover have "k \<in> r_returned ?r2" by (auto simp: op_settles_def Let_def split: option.split prod.split)
  ultimately have "op_wait_done ?r2" using sub unfolding op_wait_done_def by blast
  moreover have "r_grp_err ?r2 = None \<longleftrightarrow> e = None"
    by (auto simp: op_settles_def op_executes_def start_ops_def Let_def split: option.split prod.split)
  ultimately show ?thesis using step_reaches.intros [OF refl co rc t2] by (intro exI conjI)
qed

section \<open>The contract\<close>

text \<open>
  \<open>n\<close> ops with code \<open>impl\<close> and dependencies \<open>deps\<close>, in the states where \<open>I\<close> holds: checks
  return and disturb nothing; an execution, failed or not, keeps \<open>I\<close> and what the other ops
  have established, does not panic when the ops it depends on are satisfied, and leaves its
  own op satisfied when it reports no error.
\<close>

locale step_contract =
  fixes n :: nat and deps :: "nat \<Rightarrow> nat list" and impl :: "nat \<Rightarrow> 's OpImpl" and I :: "'s \<Rightarrow> bool"
  assumes check_returns: "i < n \<Longrightarrow> I s \<Longrightarrow> impl_Check (impl i) s \<noteq> None"
    and check_keeps: "i < n \<Longrightarrow> I s \<Longrightarrow> impl_Check (impl i) s = Some (s', a) \<Longrightarrow>
        I s' \<and> (fst a = CheckSatisfied \<longrightarrow> op_satisfied (impl i) s')
        \<and> (\<forall>k < n. op_satisfied (impl k) s \<longrightarrow> op_satisfied (impl k) s')"
    and exec_keeps: "i < n \<Longrightarrow> I s \<Longrightarrow> impl_Execute (impl i) s = (s', Inr (res, e)) \<Longrightarrow>
        I s' \<and> (\<forall>k < n. k \<noteq> i \<longrightarrow> op_satisfied (impl k) s \<longrightarrow> op_satisfied (impl k) s')"
    and exec_establishes: "i < n \<Longrightarrow> I s \<Longrightarrow> impl_Execute (impl i) s = (s', Inr (res, None)) \<Longrightarrow>
        op_satisfied (impl i) s'"
    and exec_no_panic: "i < n \<Longrightarrow> I s \<Longrightarrow> (\<forall>d \<in> set (deps i). op_satisfied (impl d) s) \<Longrightarrow>
        impl_Execute (impl i) s = (s', Inl p) \<Longrightarrow> False"
begin

lemma check_ops_keeps:
  assumes "check_ops impl order s = Some (s', answers)" and "I s" and "set order \<subseteq> {..<n}" and "distinct order"
  shows "I s' \<and> (\<forall>k < n. op_satisfied (impl k) s \<longrightarrow> op_satisfied (impl k) s')
     \<and> (\<forall>i \<in> set order. fst (answers i) = CheckSatisfied \<longrightarrow> op_satisfied (impl i) s')"
  using assms
proof (induction order arbitrary: s answers)
  case Nil
  then show ?case by simp
next
  case (Cons i order)
  from Cons.prems(1) obtain s1 a f where c: "impl_Check (impl i) s = Some (s1, a)"
    "check_ops impl order s1 = Some (s', f)" "answers = f(i := a)"
    by (auto split: option.splits prod.splits)
  have i: "i < n" using Cons.prems(3) by simp
  note k = check_keeps [OF i Cons.prems(2) c(1)]
  from Cons.IH [OF c(2)] k Cons.prems(3,4) have
    ih: "I s'" "\<forall>k < n. op_satisfied (impl k) s1 \<longrightarrow> op_satisfied (impl k) s'"
      "\<forall>i \<in> set order. fst (f i) = CheckSatisfied \<longrightarrow> op_satisfied (impl i) s'" by auto
  have "fst (answers j) = CheckSatisfied \<longrightarrow> op_satisfied (impl j) s'" if "j \<in> set (i # order)" for j
    using that ih k i c(3) Cons.prems(4) by (cases "j = i") auto
  with ih k show ?case by blast
qed

lemma check_ops_returns:
  assumes "I s" and "set order \<subseteq> {..<n}"
  shows "\<exists>s' answers. check_ops impl order s = Some (s', answers)"
  using assms
proof (induction order arbitrary: s)
  case (Cons i order)
  then obtain s1 a where c: "impl_Check (impl i) s = Some (s1, a)"
    using check_returns [of i s] by auto
  with check_keeps [of i s s1 a] Cons.prems have "I s1" by auto
  with Cons obtain s' f where "check_ops impl order s1 = Some (s', f)" by fastforce
  with c show ?case by simp
qed simp

text \<open>While a step executes, what was found satisfied or has been executed without error is satisfied.\<close>

lemma run_keeps:
  assumes "target_run sc impl ns s1 r s" and ok: "linked_ok ns" and n: "length ns = n" and "I s1"
    and start: "\<forall>i < n. n_satisfied (ns ! i) \<longrightarrow> op_satisfied (impl i) s1"
  shows "I s \<and> (\<forall>i < n. n_satisfied (ns ! i) \<or> (\<exists>res. r_answer r i = Some (res, None))
            \<longrightarrow> op_satisfied (impl i) s)"
  using assms(1)
proof (induction rule: target_run.induct)
  case tr_start
  then show ?case using assms(4) start by (simp add: start_ops_def Let_def)
next
  case (tr_execute r s i s' res e)
  have inv: "op_inv ns r" by (rule op_reach_inv [OF target_run_reach [OF tr_execute.hyps(1)] ok])
  then have i: "i < n" using ug_launched(1) [of ns _ "r_launched r"] tr_execute.hyps(2) n
    by (auto simp: op_inv_def)
  note keep = exec_keeps [OF i _ tr_execute.hyps(4)]
  have unsat: "\<not> n_satisfied (ns ! i)"
    using ug_launched(1) [of ns _ "r_launched r"] inv tr_execute.hyps(2)
    by (auto simp: op_inv_def unsat_def)
  have "op_satisfied (impl k) s'" if k: "k < n" "n_satisfied (ns ! k) \<or>
      (\<exists>res'. r_answer (op_executes sc i res e r) k = Some (res', None))" for k
  proof (cases "k = i")
    case True
    with k unsat have "e = None" by (auto simp: op_executes_def)
    with True tr_execute exec_establishes [OF i] show ?thesis by blast
  next
    case False
    with k tr_execute.IH have "op_satisfied (impl k) s" by (auto simp: op_executes_def)
    with keep tr_execute.IH k(1) False show ?thesis by blast
  qed
  with keep tr_execute.IH show ?case by blast
next
  case (tr_settle r s i res e)
  have "r_answer (op_settles i res e r) = r_answer r"
    by (auto simp: op_settles_def Let_def split: option.split prod.split)
  with tr_settle.IH show ?case by simp
qed

lemma reaches_keeps:
  assumes "step_reaches sc impl ns s0 ns' r s" and plan: "plan_ok ops ns" and n: "length ns = n" and I: "I s0"
  shows "I s \<and> (\<forall>i < n. n_satisfied (ns' ! i) \<or> (\<exists>res. r_answer r i = Some (res, None))
            \<longrightarrow> op_satisfied (impl i) s)"
proof -
  from assms(1) obtain order s1 answers evs evs' where
    run: "mset order = mset [0..<length ns]" "check_ops impl order s0 = Some (s1, answers)"
      "runChecks sc answers order (ns, evs, None) = (ns', evs', None)"
      "target_run sc impl ns' s1 r s" by (auto elim: step_reachesE)
  note c = checked_plan [OF plan run(3,1)]
  note p = permutation_distinct [OF run(1)]
  note keep = check_ops_keeps [OF run(2) I]
  have "op_satisfied (impl i) s1" if "i < n" "n_satisfied (ns' ! i)" for i
    using runChecks_satisfied(1) [OF run(3,1) plan_fresh(1) [OF plan]] keep p n that by auto
  with keep p n show ?thesis using run_keeps [OF run(4) c(1)] c(4) by auto
qed

text \<open>An op is started once the ops it depends on are satisfied, so the panics of Execute are not reached.\<close>

lemma launched_deps_satisfied:
  assumes reach: "step_reaches sc impl ns s0 ns' r s" and plan: "plan_ok ops ns" and n: "length ns = n"
    and I: "I s0" and deps: "\<forall>i < n. n_deps (ns ! i) = deps i \<and> set (deps i) \<subseteq> {..<n}"
    and i: "i \<in> set (r_launched r)"
  shows "i < n \<and> (\<forall>d \<in> set (deps i). op_satisfied (impl d) s)"
proof -
  note keep = reaches_keeps [OF reach plan n I]
  from reach obtain order s1 answers evs evs' where
    run: "mset order = mset [0..<length ns]" "runChecks sc answers order (ns, evs, None) = (ns', evs', None)"
      "target_run sc impl ns' s1 r s" by (auto elim: step_reachesE)
  note c = checked_plan [OF plan run(2,1)]
  have inv: "op_inv ns' r" by (rule op_reach_inv [OF target_run_reach [OF run(3)] c(1)])
  then have cnt: "ug.counters_ok ns' (\<lambda>k. n_pending (r_nodes r ! k)) (r_launched r) (r_succeeded r)"
    by (simp add: op_inv_def)
  have il: "i < n" using ug_launched(1) [OF cnt] i c(4) n by auto
  have nd: "n_deps (ns' ! i) = deps i"
    using runChecks_nodes [OF run(2,1) plan_fresh(1) [OF plan]] deps il n by (auto simp: same_plan_def)
  have "op_satisfied (impl d) s" if d: "d \<in> set (deps i)" for d
  proof -
    have dn: "d < n" using deps il d by blast
    show ?thesis
    proof (cases "unsat ns' d")
      case True
      then have "d \<in> set (r_succeeded r)" using ug.launched_deps [OF cnt i] d nd by auto
      moreover have "ran_node r (ns' ! d) d" using inv dn c(4) n by (simp add: op_inv_def)
      moreover have "d \<in> r_returned r" using inv calculation(1) by (auto simp: op_inv_def)
      ultimately show ?thesis using keep dn by (auto simp: ran_node_def Let_def)
    qed (use keep dn in \<open>auto simp: unsat_def\<close>)
  qed
  with il show ?thesis by blast
qed

lemma reaches_no_panic:
  assumes reach: "step_reaches sc impl ns s0 ns' r s" and plan: "plan_ok ops ns" and n: "length ns = n"
    and I: "I s0" and deps: "\<forall>i < n. n_deps (ns ! i) = deps i \<and> set (deps i) \<subseteq> {..<n}"
    and i: "i \<in> set (r_launched r)"
  shows "\<exists>s' res e. impl_Execute (impl i) s = (s', Inr (res, e))"
  using launched_deps_satisfied [OF assms] reaches_keeps [OF reach plan n I] exec_no_panic
  by (metis obj_sumE surj_pair)

lemma run_converges:
  assumes reach: "step_reaches sc impl ns s0 ns' r s" and plan: "plan_ok ops ns" and n: "length ns = n"
    and I: "I s0" and fin: "op_wait_done r" "r_grp_err r = None"
  shows "I s \<and> (\<forall>i < n. op_satisfied (impl i) s)"
proof -
  note keep = reaches_keeps [OF reach plan n I]
  from reach obtain order s1 answers evs evs' where
    run: "mset order = mset [0..<length ns]" "runChecks sc answers order (ns, evs, None) = (ns', evs', None)"
      "target_run sc impl ns' s1 r s" by (auto elim: step_reachesE)
  note c = checked_plan [OF plan run(2,1)]
  have inv: "op_inv ns' r" by (rule op_reach_inv [OF target_run_reach [OF run(3)] c(1)])
  have acy: "acyclic (op_edges ns')" using plan c(3) by (simp add: plan_ok_def)
  note suc = op_reach_done [OF inv c(1) acy fin]
  have "n_satisfied (ns' ! i) \<or> (\<exists>res. r_answer r i = Some (res, None))" if i: "i < n" for i
  proof (cases "unsat ns' i")
    case True
    then have "i \<in> set (r_succeeded r)" using suc i c(4) n by simp
    moreover have "ran_node r (ns' ! i) i" using inv i c(4) n by (simp add: op_inv_def)
    moreover have "i \<in> r_returned r" using inv calculation(1) by (auto simp: op_inv_def)
    ultimately show ?thesis by (auto simp: ran_node_def Let_def)
  qed (simp add: unsat_def)
  with keep show ?thesis by blast
qed

text \<open>On a state where every op is satisfied, the next run executes nothing.\<close>

lemma satisfied_run_idle:
  assumes reach: "step_reaches sc impl ns s0 ns' r s" and plan: "plan_ok ops ns" and n: "length ns = n"
    and I: "I s0" and sat: "\<forall>i < n. op_satisfied (impl i) s0"
    and ro: "\<And>i s s' a. i < n \<Longrightarrow> impl_Check (impl i) s = Some (s', a) \<Longrightarrow> s' = s"
  shows "r_launched r = [] \<and> s = s0"
proof -
  from reach obtain order s1 answers evs evs' where
    run: "mset order = mset [0..<length ns]" "check_ops impl order s0 = Some (s1, answers)"
      "runChecks sc answers order (ns, evs, None) = (ns', evs', None)"
      "target_run sc impl ns' s1 r s" by (auto elim: step_reachesE)
  note c = checked_plan [OF plan run(3,1)]
  note p = permutation_distinct [OF run(1)]
  have ans: "s1 = s0" "\<forall>i < n. impl_Check (impl i) s0 = Some (s0, answers i)"
    using check_ops_read_only [OF run(2) _ p(1)] ro p(2) n by (metis lessThan_iff)+
  have all: "n_satisfied (ns' ! i)" if i: "i < n" for i
  proof -
    have "\<exists>d. answers i = (CheckSatisfied, d, None)"
      using sat i ans(2) by (auto simp: op_satisfied_iff)
    then show ?thesis using runChecks_satisfied(2) [OF run(3,1) plan_fresh(1) [OF plan]] i n by blast
  qed
  from run(4) show ?thesis
  proof (induction rule: target_run.induct)
    case tr_start
    have "ug.counters_ok ns' (\<lambda>k. n_pending (r_nodes (start_ops ns') ! k)) (r_launched (start_ops ns'))
        (r_succeeded (start_ops ns'))" using op_inv_start [OF c(1)] by (simp add: op_inv_def)
    then have "set (r_launched (start_ops ns')) \<subseteq> {i. i < length ns' \<and> unsat ns' i}"
      by (rule ug_launched(1))
    moreover have "{i. i < length ns' \<and> unsat ns' i} = {}" using all c(4) n by (auto simp: unsat_def)
    ultimately have "r_launched (start_ops ns') = []" by simp
    with ans(1) show ?case by simp
  qed simp_all
qed

end

text \<open>A step whose ops are some of those of a contract, each at most once, meets it too.\<close>

lemma step_contract_sub:
  assumes c: "step_contract N D full I" and role: "\<And>i. i < n \<Longrightarrow> role i < N" "inj_on role {..<n}"
    and deps: "\<And>i. i < n \<Longrightarrow> set (D (role i)) \<subseteq> role ` set (deps i)"
    and dn: "\<And>i. i < n \<Longrightarrow> set (deps i) \<subseteq> {..<n}"
    and impl: "\<And>i. i < n \<Longrightarrow> impl i = full (role i)"
  shows "step_contract n deps impl I"
proof (rule step_contract.intro)
  note check_returns = step_contract.check_returns [OF c] and check_keeps = step_contract.check_keeps [OF c]
    and exec_keeps = step_contract.exec_keeps [OF c] and exec_establishes = step_contract.exec_establishes [OF c]
    and exec_no_panic = step_contract.exec_no_panic [OF c]
  fix i s s' a assume i: "i < n" "I s"
  show "impl_Check (impl i) s \<noteq> None" using check_returns role(1) i impl by metis
  assume "impl_Check (impl i) s = Some (s', a)"
  with check_keeps [OF role(1) [OF i(1)] i(2)] role(1) impl i(1)
  show "I s' \<and> (fst a = CheckSatisfied \<longrightarrow> op_satisfied (impl i) s')
      \<and> (\<forall>k < n. op_satisfied (impl k) s \<longrightarrow> op_satisfied (impl k) s')" by metis
next
  fix i s s' res e assume i: "i < n" "I s" "impl_Execute (impl i) s = (s', Inr (res, e))"
  have "role k \<noteq> role i" if "k < n" "k \<noteq> i" for k
    using role(2) that i(1) by (auto simp: inj_on_def)
  with step_contract.exec_keeps [OF c role(1) [OF i(1)] i(2)] i(3) role(1) impl i(1)
  show "I s' \<and> (\<forall>k < n. k \<noteq> i \<longrightarrow> op_satisfied (impl k) s \<longrightarrow> op_satisfied (impl k) s')"
    by metis
next
  fix i s s' res assume "i < n" "I s" "impl_Execute (impl i) s = (s', Inr (res, None))"
  then show "op_satisfied (impl i) s'"
    using step_contract.exec_establishes [OF c] role(1) impl by metis
next
  fix i s s' p assume i: "i < n" "I s" "\<forall>d \<in> set (deps i). op_satisfied (impl d) s"
    "impl_Execute (impl i) s = (s', Inl p)"
  have "op_satisfied (full d) s" if "d \<in> set (D (role i))" for d
  proof -
    from that deps [OF i(1)] obtain d' where d': "d' \<in> set (deps i)" "d = role d'" by blast
    then have "impl d' = full d" using impl dn [OF i(1)] by auto
    with i(3) d' show ?thesis by metis
  qed
  moreover have "impl_Execute (full (role i)) s = (s', Inl p)" using i(4) impl [OF i(1)] by simp
  ultimately show False using step_contract.exec_no_panic [OF c role(1) [OF i(1)] i(2)] by blast
qed

lemma plan_deps:
  assumes plan: "plan_ok ops ns" and dist: "distinct (map op_id ops)" and i: "i < length ns"
    and deps: "op_deps (ops ! i) = map (\<lambda>d. op_id (ops ! d)) ds" "set ds \<subseteq> {..<length ns}"
  shows "n_deps (ns ! i) = ds"
proof -
  have len: "length ns = length ops" using plan by (rule plan_fresh(4))
  have nd: "set (n_deps (ns ! i)) \<subseteq> {..<length ns}"
    using plan i by (auto simp: plan_ok_def linked_ok_def)
  have "inj_on (\<lambda>d. op_id (ops ! d)) {..<length ns}"
    using dist len by (auto simp: inj_on_def distinct_conv_nth)
  moreover have "map (\<lambda>d. op_id (ops ! d)) (n_deps (ns ! i)) = map (\<lambda>d. op_id (ops ! d)) ds"
    using plan i deps(1) by (simp add: plan_ok_def)
  ultimately show ?thesis using nd deps(2) by (metis inj_on_map_eq_map inj_on_subset le_sup_iff)
qed

section \<open>Targets on which nothing fails\<close>

text \<open>
  The stronger contract of a step on a target that carries out what it is asked: checks raise
  no error, and an op whose dependencies are satisfied succeeds. Such a step runs to its end
  and leaves every op satisfied.
\<close>

locale total_contract = step_contract +
  assumes check_clean: "i < n \<Longrightarrow> I s \<Longrightarrow> impl_Check (impl i) s = Some (s', a) \<Longrightarrow> snd (snd a) = None"
    and exec_succeeds: "i < n \<Longrightarrow> I s \<Longrightarrow> (\<forall>d \<in> set (deps i). op_satisfied (impl d) s) \<Longrightarrow>
        impl_Execute (impl i) s = (s', Inr (res, e)) \<Longrightarrow> e = None"
begin

lemma check_ops_clean:
  assumes "check_ops impl order s = Some (s', answers)" and "I s" and "set order \<subseteq> {..<n}"
  shows "\<forall>i \<in> set order. snd (snd (answers i)) = None"
  using assms
proof (induction order arbitrary: s answers)
  case (Cons i order)
  from Cons.prems(1) obtain s1 a f where c: "impl_Check (impl i) s = Some (s1, a)"
    "check_ops impl order s1 = Some (s', f)" "answers = f(i := a)"
    by (auto split: option.splits prod.splits)
  have i: "i < n" using Cons.prems(3) by simp
  from check_keeps [OF i Cons.prems(2) c(1)] Cons.IH [OF c(2)] Cons.prems(3)
  have "\<forall>j \<in> set order. snd (snd (f j)) = None" by simp
  with check_clean [OF i Cons.prems(2) c(1)] c(3) show ?case by simp
qed simp

lemma checks_pass:
  assumes plan: "plan_ok ops ns" and n: "length ns = n" and I: "I s0"
  shows "\<exists>s1 answers ns' evs'. check_ops impl [0..<n] s0 = Some (s1, answers)
    \<and> runChecks sc answers [0..<n] (ns, evs, None) = (ns', evs', None)"
proof -
  have sub: "set [0..<n] \<subseteq> {..<n}" by auto
  obtain s1 answers where c: "check_ops impl [0..<n] s0 = Some (s1, answers)"
    using check_ops_returns [where order = "[0..<n]", OF I sub] by blast
  obtain ns' evs' e where r: "runChecks sc answers [0..<n] (ns, evs, None) = (ns', evs', e)"
    by (metis prod_cases3)
  have "e = None"
    by (rule runChecks_clean [OF r [folded n]]) (use check_ops_clean [OF c I sub] n in auto)
  with c r show ?thesis by blast
qed

lemma answered_clean:
  assumes reach: "step_reaches sc impl ns s0 ns' r s" and plan: "plan_ok ops ns" and n: "length ns = n"
    and I: "I s0" and deps: "\<forall>i < n. n_deps (ns ! i) = deps i \<and> set (deps i) \<subseteq> {..<n}"
  shows "\<forall>i res e. r_answer r i = Some (res, e) \<longrightarrow> e = None"
proof -
  from reach obtain order s1 answers evs evs' where
    run: "mset order = mset [0..<length ns]" "check_ops impl order s0 = Some (s1, answers)"
      "runChecks sc answers order (ns, evs, None) = (ns', evs', None)"
      "target_run sc impl ns' s1 r s" by (auto elim: step_reachesE)
  note c = checked_plan [OF plan run(3,1)]
  from run(4) show ?thesis
  proof (induction rule: target_run.induct)
    case tr_start
    then show ?case by (simp add: start_ops_def Let_def)
  next
    case (tr_execute r s i s' res e)
    have reach': "step_reaches sc impl ns s0 ns' r s"
      by (rule step_reaches.intros [OF run(1,2,3) tr_execute.hyps(1)])
    have il: "i < n" and sat: "\<forall>d \<in> set (deps i). op_satisfied (impl d) s"
      using launched_deps_satisfied [OF reach' plan n I deps tr_execute.hyps(2)] by auto
    have "e = None"
      using exec_succeeds [OF il _ sat tr_execute.hyps(4)] reaches_keeps [OF reach' plan n I] by blast
    then show ?case using tr_execute.IH by (simp add: op_executes_def)
  next
    case (tr_settle r s i res e)
    have "r_answer (op_settles i res e r) = r_answer r"
      by (auto simp: op_settles_def Let_def split: option.split prod.split)
    with tr_settle.IH show ?case by simp
  qed
qed

lemma run_error_free:
  assumes reach: "step_reaches sc impl ns s0 ns' r s" and plan: "plan_ok ops ns" and n: "length ns = n"
    and I: "I s0" and deps: "\<forall>i < n. n_deps (ns ! i) = deps i \<and> set (deps i) \<subseteq> {..<n}"
  shows "r_grp_err r = None"
proof -
  from reach obtain order s1 answers evs evs' where
    run: "mset order = mset [0..<length ns]" "runChecks sc answers order (ns, evs, None) = (ns', evs', None)"
      "target_run sc impl ns' s1 r s" by (auto elim: step_reachesE)
  note c = checked_plan [OF plan run(2,1)]
  have inv: "op_inv ns' r" by (rule op_reach_inv [OF target_run_reach [OF run(3)] c(1)])
  have "i \<in> set (r_succeeded r)" if i: "i \<in> r_returned r" for i
  proof -
    have cnt: "ug.counters_ok ns' (\<lambda>k. n_pending (r_nodes r ! k)) (r_launched r) (r_succeeded r)"
      and il: "i \<in> set (r_launched r)" using inv i by (auto simp: op_inv_def)
    then have "i < length ns'" using ug_launched(1) by blast
    then have "ran_node r (ns' ! i) i" using inv by (simp add: op_inv_def)
    with i answered_clean [OF assms] show ?thesis by (auto simp: ran_node_def Let_def split: if_splits)
  qed
  with inv show ?thesis unfolding op_inv_def by blast
qed

lemma target_run_ends:
  assumes "step_reaches sc impl ns s0 ns' r s" and plan: "plan_ok ops ns" and n: "length ns = n"
    and I: "I s0" and deps: "\<forall>i < n. n_deps (ns ! i) = deps i \<and> set (deps i) \<subseteq> {..<n}"
  shows "\<exists>r' s'. step_reaches sc impl ns s0 ns' r' s' \<and> op_wait_done r'"
  using assms(1)
proof (induction "op_moves ns' r" arbitrary: r s rule: less_induct)
  case less
  from less.prems obtain order s1 answers evs evs' where
    run: "mset order = mset [0..<length ns]" "check_ops impl order s0 = Some (s1, answers)"
      "runChecks sc answers order (ns, evs, None) = (ns', evs', None)"
      "target_run sc impl ns' s1 r s" by (auto elim: step_reachesE)
  note c = checked_plan [OF plan run(3,1)]
  have inv: "op_inv ns' r" by (rule op_reach_inv [OF target_run_reach [OF run(4)] c(1)])
  show ?case
  proof (cases "op_wait_done r")
    case False
    then obtain i where i: "i \<in> set (r_launched r)" "i \<notin> r_returned r" by (auto simp: op_wait_done_def)
    have "\<exists>r' s'. op_trans sc r r' \<and> target_run sc impl ns' s1 r' s'"
    proof (cases "r_answer r i")
      case None
      obtain s' res e where "impl_Execute (impl i) s = (s', Inr (res, e))"
        using reaches_no_panic [OF less.prems plan n I deps i(1)] by blast
      with None i run(4) show ?thesis by (blast intro: target_run.tr_execute op_trans.executes)
    next
      case (Some a)
      then obtain res e where "r_answer r i = Some (res, e)" by (cases a) auto
      with i run(4) show ?thesis by (blast intro: target_run.tr_settle op_trans.settles)
    qed
    then obtain r' s' where t: "op_trans sc r r'" "target_run sc impl ns' s1 r' s'" by blast
    have "step_reaches sc impl ns s0 ns' r' s'" by (rule step_reaches.intros [OF run(1,2,3) t(2)])
    with less.hyps op_trans_moves [OF t(1) inv] show ?thesis by blast
  qed (use less.prems in blast)
qed

text \<open>The step can be run to its end, and however it is run, at its end every op is satisfied.\<close>

lemma step_completes:
  assumes plan: "plan_ok ops ns" and n: "length ns = n" and I: "I s0"
    and deps: "\<forall>i < n. n_deps (ns ! i) = deps i \<and> set (deps i) \<subseteq> {..<n}"
  shows "\<exists>ns' r s. step_reaches sc impl ns s0 ns' r s \<and> op_wait_done r"
    and "step_reaches sc impl ns s0 ns' r s \<Longrightarrow> op_wait_done r \<Longrightarrow>
      r_grp_err r = None \<and> I s \<and> (\<forall>i < n. op_satisfied (impl i) s)"
proof -
  obtain s1 answers ns' evs' where c: "check_ops impl [0..<n] s0 = Some (s1, answers)"
    "runChecks sc answers [0..<n] (ns, [], None) = (ns', evs', None)"
    using checks_pass [OF plan n I, of sc "[]"] by blast
  have "step_reaches sc impl ns s0 ns' (start_ops ns') s1"
    by (rule step_reaches.intros [of "[0..<n]"]) (use c n target_run.tr_start in auto)
  from target_run_ends [OF this plan n I deps]
  show "\<exists>ns' r s. step_reaches sc impl ns s0 ns' r s \<and> op_wait_done r" by blast
next
  assume reach: "step_reaches sc impl ns s0 ns' r s" and fin: "op_wait_done r"
  have none: "r_grp_err r = None" by (rule run_error_free [OF reach plan n I deps])
  with run_converges [OF reach plan n I fin none]
  show "r_grp_err r = None \<and> I s \<and> (\<forall>i < n. op_satisfied (impl i) s)" by blast
qed

end

lemma total_contract_sub:
  assumes c: "total_contract N D full I" and role: "\<And>i. i < n \<Longrightarrow> role i < N" "inj_on role {..<n}"
    and deps: "\<And>i. i < n \<Longrightarrow> set (D (role i)) \<subseteq> role ` set (deps i)"
    and dn: "\<And>i. i < n \<Longrightarrow> set (deps i) \<subseteq> {..<n}"
    and impl: "\<And>i. i < n \<Longrightarrow> impl i = full (role i)"
  shows "total_contract n deps impl I"
proof (rule total_contract.intro [OF step_contract_sub total_contract_axioms.intro])
  show "step_contract N D full I" by (rule total_contract.axioms(1) [OF c])
  fix i s s' a assume "i < n" "I s" "impl_Check (impl i) s = Some (s', a)"
  then show "snd (snd a) = None" using total_contract.check_clean [OF c] role(1) impl by metis
next
  fix i s s' res e assume i: "i < n" "I s" "\<forall>d \<in> set (deps i). op_satisfied (impl d) s"
    "impl_Execute (impl i) s = (s', Inr (res, e))"
  have "op_satisfied (full d) s" if "d \<in> set (D (role i))" for d
  proof -
    from that deps [OF i(1)] obtain d' where d': "d' \<in> set (deps i)" "d = role d'" by blast
    then have "impl d' = full d" using impl dn [OF i(1)] by auto
    with i(3) d' show ?thesis by metis
  qed
  moreover have "impl_Execute (full (role i)) s = (s', Inr (res, e))" using i(4) impl [OF i(1)] by simp
  ultimately show "e = None" using total_contract.exec_succeeds [OF c role(1) [OF i(1)] i(2)] by blast
qed (use role deps dn impl in blast)+

text \<open>A step of one op, from what its Check and Execute do where \<open>I\<close> holds.\<close>

lemma one_op_contract:
  assumes check: "\<And>s. I s \<Longrightarrow> \<exists>a. impl_Check x s = Some (s, a) \<and> (fst a = CheckSatisfied \<longrightarrow> snd (snd a) = None)"
    and exec: "\<And>s s' res e. I s \<Longrightarrow> impl_Execute x s = (s', Inr (res, e)) \<Longrightarrow> I s' \<and> (e = None \<longrightarrow> op_satisfied x s')"
    and panic: "\<And>s s' p. I s \<Longrightarrow> impl_Execute x s = (s', Inl p) \<Longrightarrow> False"
  shows "step_contract 1 (\<lambda>_. []) (\<lambda>_. x) I"
proof (rule step_contract.intro)
  fix i :: nat and s s' a assume "I s"
  then show "impl_Check x s \<noteq> None" using check by fastforce
  assume "impl_Check x s = Some (s', a)"
  with check [OF \<open>I s\<close>] have "s' = s" "fst a = CheckSatisfied \<longrightarrow> op_satisfied x s"
    by (cases a; auto simp: op_satisfied_iff)+
  with \<open>I s\<close> show "I s' \<and> (fst a = CheckSatisfied \<longrightarrow> op_satisfied x s')
      \<and> (\<forall>k < 1. op_satisfied x s \<longrightarrow> op_satisfied x s')" by simp
qed (use exec panic in \<open>auto\<close>)

lemma one_op_total:
  assumes c: "step_contract 1 (\<lambda>_. []) (\<lambda>_. x) I"
    and clean: "\<And>s s' a. I s \<Longrightarrow> impl_Check x s = Some (s', a) \<Longrightarrow> snd (snd a) = None"
    and exec: "\<And>s s' res e. I s \<Longrightarrow> impl_Execute x s = (s', Inr (res, e)) \<Longrightarrow> e = None"
  shows "total_contract 1 (\<lambda>_. []) (\<lambda>_. x) I"
  by (rule total_contract.intro [OF c total_contract_axioms.intro]) (use clean exec in blast)+

lemma one_op_plan:
  assumes "op_deps op = []"
  shows "\<exists>ns. buildPlan [op] = Inr ns \<and> plan_ok [op] ns \<and> length ns = 1 \<and> n_deps (ns ! 0) = []"
proof -
  have "ops_ok [op]" using assms by (simp add: ops_ok_def dep_edges_def acyclic_def)
  then obtain ns where ns: "buildPlan [op] = Inr ns" "plan_ok [op] ns"
    using buildPlan_spec [of "[op]"] by (auto split: sum.splits)
  moreover have "length ns = 1" using plan_fresh(4) [OF ns(2)] by simp
  ultimately show ?thesis using plan_deps [OF ns(2), of 0 "[]"] assms by auto
qed

lemma one_op_run:
  assumes "op_deps op = []" and c: "impl_Check (impl 0) s0 = Some (s0, CheckUnsatisfied, d, None)"
    and x: "impl_Execute (impl 0) s0 = (s, Inr (res, None))"
  shows "\<exists>ns ns' r. buildPlan [op] = Inr ns \<and> step_reaches sc impl ns s0 ns' r s \<and> op_wait_done r \<and> r_grp_err r = None"
proof -
  obtain ns where ns: "buildPlan [op] = Inr ns" "plan_ok [op] ns" "length ns = 1"
    using one_op_plan [OF assms(1)] by blast
  have un: "\<not> op_satisfied (impl 0) s0" using c by (simp add: op_satisfied_iff)
  have "\<exists>ns' r. step_reaches sc impl ns s0 ns' r s \<and> op_wait_done r \<and> (r_grp_err r = None \<longleftrightarrow> None = (None :: err option))"
  proof (rule single_op_completes [where k = 0, OF ns(2)])
    show "impl_Execute (impl 0) s0 = (s, Inr (res, None))" by (rule x)
    show "\<exists>res d. impl_Check (impl i) s0 = Some (s0, res, d, None)" if "i < length ns" for i
      using c that ns(3) by simp
  qed (use ns(3) un in auto)
  with ns(1) show ?thesis by blast
qed

end
