(* ===== verification/Target_Model.thy ===== *)
theory Target_Model
  imports Engine_Model
begin

text \<open>
  What steps see of the system they converge: the interfaces and data of
  internal/target/target.go, as a record of operations on a state, the file modes of Go's
  io/fs, and the target errors with the diagnostics internal/step/sharedop makes of them.
\<close>

section \<open>File modes (io/fs)\<close>

type_synonym FileMode = u32

definition ModeDir :: FileMode where "ModeDir = push_bit 31 1"
definition ModeSymlink :: FileMode where "ModeSymlink = push_bit 27 1"
definition ModePerm :: FileMode where "ModePerm = 511"

text \<open>Directory, symbolic link, device, named pipe, socket, character device, irregular.\<close>

definition ModeType :: FileMode where
  "ModeType = push_bit 31 1 OR push_bit 27 1 OR push_bit 26 1 OR push_bit 25 1 OR push_bit 24 1
     OR push_bit 21 1 OR push_bit 19 1"

definition Perm :: "FileMode \<Rightarrow> FileMode" where
  "Perm m = m AND ModePerm"

definition IsRegular :: "FileMode \<Rightarrow> bool" where
  "IsRegular m \<longleftrightarrow> m AND ModeType = 0"

lemma ModePerm_mask: "ModePerm = mask 9"
  by (simp add: ModePerm_def mask_eq_exp_minus_1)

definition FileMode_String :: "FileMode \<Rightarrow> string" where
  "FileMode_String m =
     (let kind = map snd (filter (\<lambda>(i, c). bit m (31 - i)) (zip [0..<13] ''dalTLDpSugct?''))
      in (if kind = [] then ''-'' else kind)
         @ map (\<lambda>(i, c). if bit m (8 - i) then c else CHR ''-'') (zip [0..<9] ''rwxrwxrwx''))"

section \<open>Data (target.go)\<close>

record Owner =
  ow_User :: string
  ow_Group :: string

record FileInfo =
  fi_Name :: string
  fi_Size :: nat
  fi_Mode :: FileMode
  fi_ModTime :: int
  fi_IsDir :: bool
  fi_Sys :: "string option"

record DirEntry =
  de_Name :: string
  de_IsDir :: bool

record CommandResult =
  cr_Stdout :: string
  cr_Stderr :: string
  cr_ExitCode :: int

text \<open>A nil slice of groups, which a step may leave unset, is \<open>None\<close>.\<close>

record UserInfo =
  ui_Name :: string
  ui_UID :: int
  ui_GID :: int
  ui_Home :: string
  ui_Shell :: string
  ui_Groups :: "string list option"
  ui_System :: bool
  ui_Password :: string

record GroupInfo =
  gi_Name :: string
  gi_GID :: int
  gi_System :: bool
  gi_Members :: "string list"

datatype PortProto = ProtoTCP | ProtoUDP

record Port =
  port_HostIP :: string
  port_HostPort :: string
  port_ContainerPort :: string
  port_Proto :: PortProto

record Mount =
  mount_Source :: string
  mount_Target :: string
  mount_ReadOnly :: bool

record Healthcheck =
  hc_Cmd :: string
  hc_Interval :: int
  hc_Timeout :: int
  hc_Retries :: int
  hc_StartPeriod :: int

record ContainerInfo =
  ci_Name :: string
  ci_Image :: string
  ci_Running :: bool
  ci_Restart :: string
  ci_Ports :: "Port list"
  ci_Env :: "(string \<times> string) list"
  ci_Mounts :: "Mount list"
  ci_Args :: "string list"
  ci_Labels :: "(string \<times> string) list"
  ci_Healthcheck :: "Healthcheck option"
  ci_HealthStatus :: string

record RepoConfig =
  rc_Name :: string
  rc_URL :: string
  rc_KeyData :: string
  rc_KeyPath :: string
  rc_ConfigPath :: string
  rc_Suite :: string
  rc_Components :: "string list"

definition Mount_String :: "Mount \<Rightarrow> string" where
  "Mount_String m = mount_Source m @ '':'' @ mount_Target m @ (if mount_ReadOnly m then '':ro'' else [])"

definition ParsePortProto :: "string \<Rightarrow> PortProto" where
  "ParsePortProto s = (if s = ''udp'' then ProtoUDP else ProtoTCP)"

definition PortProto_String :: "PortProto \<Rightarrow> string" where
  "PortProto_String p = (if p = ProtoUDP then ''udp'' else ''tcp'')"

definition Port_String :: "Port \<Rightarrow> string" where
  "Port_String p =
     (if port_HostIP p \<noteq> [] then port_HostIP p @ '':'' else [])
     @ port_HostPort p @ '':'' @ port_ContainerPort p
     @ (if port_Proto p \<noteq> ProtoTCP then ''/'' @ PortProto_String (port_Proto p) else [])"

section \<open>Target errors\<close>

definition ErrNotExist :: err where "ErrNotExist = SentinelErr ''path does not exist''"
definition ErrPermission :: err where "ErrPermission = SentinelErr ''permission denied''"
definition ErrUnknownUser :: err where "ErrUnknownUser = SentinelErr ''unknown user''"
definition ErrUnknownGroup :: err where "ErrUnknownGroup = SentinelErr ''unknown group''"
definition ErrCommandNotFound :: err where "ErrCommandNotFound = SentinelErr ''command not found on target''"
definition ErrNoCacheInfo :: err where "ErrNoCacheInfo = SentinelErr ''package cache age not available''"

text \<open>errors.Is on a sentinel: the error itself or one it wraps.\<close>

fun errors_Is :: "string \<Rightarrow> err \<Rightarrow> bool" where
  "errors_Is s (SentinelErr t) \<longleftrightarrow> t = s"
| "errors_Is s (WrappedErr _ e) \<longleftrightarrow> errors_Is s e"
| "errors_Is s (StagingError _ e) \<longleftrightarrow> errors_Is s e"
| "errors_Is s (Diag _ _ (Some e)) \<longleftrightarrow> errors_Is s e"
| "errors_Is s (StepAbortedError (Some e)) \<longleftrightarrow> errors_Is s e"
| "errors_Is s _ \<longleftrightarrow> False"

definition IsNotExist :: "err \<Rightarrow> bool" where "IsNotExist e = errors_Is ''path does not exist'' e"
definition IsPermission :: "err \<Rightarrow> bool" where "IsPermission e = errors_Is ''permission denied'' e"
definition IsUnknownUser :: "err \<Rightarrow> bool" where "IsUnknownUser e = errors_Is ''unknown user'' e"
definition IsUnknownGroup :: "err \<Rightarrow> bool" where "IsUnknownGroup e = errors_Is ''unknown group'' e"

section \<open>The target interface\<close>

text \<open>
  One field for every operation of the interfaces a target may implement. Reading leaves the
  state alone; an operation that fails may still have changed it. \<open>tg_files\<close> is whether the
  target implements Filesystem and Ownership, which one step asks at run time.
\<close>

record 's Target =
  tg_Capabilities :: Capability
  tg_files :: bool
  tg_Stat :: "'s \<Rightarrow> string \<Rightarrow> err + FileInfo"
  tg_ReadDir :: "'s \<Rightarrow> string \<Rightarrow> err + DirEntry list"
  tg_ReadFile :: "'s \<Rightarrow> string \<Rightarrow> err + string"
  tg_WriteFile :: "'s \<Rightarrow> string \<Rightarrow> string \<Rightarrow> 's \<times> err option"
  tg_Remove :: "'s \<Rightarrow> string \<Rightarrow> 's \<times> err option"
  tg_Mkdir :: "'s \<Rightarrow> string \<Rightarrow> FileMode \<Rightarrow> 's \<times> err option"
  tg_Chmod :: "'s \<Rightarrow> string \<Rightarrow> FileMode \<Rightarrow> 's \<times> err option"
  tg_ChmodRecursive :: "'s \<Rightarrow> string \<Rightarrow> FileMode \<Rightarrow> 's \<times> err option"
  tg_Lstat :: "'s \<Rightarrow> string \<Rightarrow> err + FileInfo"
  tg_Readlink :: "'s \<Rightarrow> string \<Rightarrow> err + string"
  tg_Symlink :: "'s \<Rightarrow> string \<Rightarrow> string \<Rightarrow> 's \<times> err option"
  tg_HasUser :: "'s \<Rightarrow> string \<Rightarrow> bool"
  tg_HasGroup :: "'s \<Rightarrow> string \<Rightarrow> bool"
  tg_GetOwner :: "'s \<Rightarrow> string \<Rightarrow> err + Owner"
  tg_Chown :: "'s \<Rightarrow> string \<Rightarrow> Owner \<Rightarrow> 's \<times> err option"
  tg_ChownRecursive :: "'s \<Rightarrow> string \<Rightarrow> Owner \<Rightarrow> 's \<times> err option"
  tg_IsActive :: "'s \<Rightarrow> string \<Rightarrow> err + bool"
  tg_IsEnabled :: "'s \<Rightarrow> string \<Rightarrow> err + bool"
  tg_Start :: "'s \<Rightarrow> string \<Rightarrow> 's \<times> err option"
  tg_Stop :: "'s \<Rightarrow> string \<Rightarrow> 's \<times> err option"
  tg_Enable :: "'s \<Rightarrow> string \<Rightarrow> 's \<times> err option"
  tg_Disable :: "'s \<Rightarrow> string \<Rightarrow> 's \<times> err option"
  tg_DaemonReload :: "'s \<Rightarrow> 's \<times> err option"
  tg_Restart :: "'s \<Rightarrow> string \<Rightarrow> 's \<times> err option"
  tg_Reload :: "'s \<Rightarrow> string \<Rightarrow> 's \<times> err option"
  tg_SupportsReload :: "'s \<Rightarrow> bool"
  tg_UserExists :: "'s \<Rightarrow> string \<Rightarrow> err + bool"
  tg_GetUser :: "'s \<Rightarrow> string \<Rightarrow> err + UserInfo"
  tg_CreateUser :: "'s \<Rightarrow> UserInfo \<Rightarrow> 's \<times> err option"
  tg_ModifyUser :: "'s \<Rightarrow> UserInfo \<Rightarrow> 's \<times> err option"
  tg_DeleteUser :: "'s \<Rightarrow> string \<Rightarrow> 's \<times> err option"
  tg_GroupExists :: "'s \<Rightarrow> string \<Rightarrow> err + bool"
  tg_GetGroup :: "'s \<Rightarrow> string \<Rightarrow> err + GroupInfo"
  tg_CreateGroup :: "'s \<Rightarrow> GroupInfo \<Rightarrow> 's \<times> err option"
  tg_DeleteGroup :: "'s \<Rightarrow> string \<Rightarrow> 's \<times> err option"
  tg_RunCommand :: "'s \<Rightarrow> string \<Rightarrow> 's \<times> (err + CommandResult)"

section \<open>Diagnostics of steps (internal/step/sharedop/errors.go)\<close>

text \<open>An error of a step: a template, where it points, the resource it may wait for, what it wraps.\<close>

definition step_diag ::
  "string \<Rightarrow> string \<Rightarrow> string \<Rightarrow> string \<Rightarrow> string list \<Rightarrow> Span option \<Rightarrow> Resource option \<Rightarrow> err option \<Rightarrow> err" where
  "step_diag tid txt hint help data span deferred inner =
     Diag (EvError ImpactAbort \<lparr>tmpl_ID = tid, tmpl_Text = txt, tmpl_Hint = hint, tmpl_Help = help,
       tmpl_Data = data, tmpl_Span = span\<rparr>) deferred inner"

definition UnknownUserError :: "string \<Rightarrow> Span \<Rightarrow> err option \<Rightarrow> err" where
  "UnknownUserError user span e =
     step_diag ''step.UnknownUser'' ''unknown user \"{{.User}}\"''
       ''create user \"{{.User}}\" with useradd or adduser before setting file owner'' [] [user] (Some span)
       (Some (UserResource user)) e"

definition UnknownGroupError :: "string \<Rightarrow> Span \<Rightarrow> err option \<Rightarrow> err" where
  "UnknownGroupError grp span e =
     step_diag ''step.UnknownGroup'' ''unknown group \"{{.Group}}\"''
       ''create group \"{{.Group}}\" with groupadd or addgroup before setting file owner'' [] [grp] (Some span)
       (Some (GroupResource grp)) e"

definition PermissionDeniedError :: "string \<Rightarrow> Span \<Rightarrow> err \<Rightarrow> err" where
  "PermissionDeniedError operation span e =
     step_diag ''step.PermissionDenied'' ''permission denied for operation \"{{.Operation}}\"''
       ''run as root, or configure passwordless sudo/doas for the target user'' [] [operation] (Some span) None (Some e)"

definition EscalationFailedError :: "string \<Rightarrow> string \<Rightarrow> string \<Rightarrow> string \<Rightarrow> int \<Rightarrow> err" where
  "EscalationFailedError tool op path stderr code =
     step_diag ''target.EscalationFailed'' ''{{.Tool}} {{.Op}} {{.Path}}: exit {{.ExitCode}}''
       ''the target user may lack passwordless sudo/doas'' ''{{.Stderr}}'' [tool, op, path, stderr] None None None"

definition EscalationMissingError :: "string \<Rightarrow> string \<Rightarrow> EscalateReason \<Rightarrow> err" where
  "EscalationMissingError op path reason =
     step_diag ''target.EscalationMissing'' ''{{.Op}} {{.Path}}: no escalation tool found''
       ''install sudo or doas on the target, or run as root'' [] [op, path] None None None"

definition StagingFailedError :: "string \<Rightarrow> err \<Rightarrow> err" where
  "StagingFailedError path e =
     step_diag ''target.StagingFailed'' ''failed to stage temp file for \"{{.Path}}\"''
       ''ensure /tmp is writable on the target'' [] [path] None None (Some e)"

text \<open>errors.As for the three errors of the target layer.\<close>

fun as_target_error :: "(err \<Rightarrow> err option) \<Rightarrow> err \<Rightarrow> err option" where
  "as_target_error f (StagingError p e) = (case f (StagingError p e) of Some r \<Rightarrow> Some r | None \<Rightarrow> as_target_error f e)"
| "as_target_error f (WrappedErr _ e) = as_target_error f e"
| "as_target_error f (Diag _ _ (Some e)) = as_target_error f e"
| "as_target_error f (StepAbortedError (Some e)) = as_target_error f e"
| "as_target_error f e = f e"

definition DiagnoseTargetError :: "err \<Rightarrow> err" where
  "DiagnoseTargetError e =
     (case as_target_error (\<lambda>x. case x of NoEscalationError op path reason \<Rightarrow> Some (EscalationMissingError op path reason) | _ \<Rightarrow> None) e of
        Some r \<Rightarrow> r
      | None \<Rightarrow>
          (case as_target_error (\<lambda>x. case x of EscalationError tool op path stderr code \<Rightarrow>
                   Some (EscalationFailedError tool op path stderr code) | _ \<Rightarrow> None) e of
             Some r \<Rightarrow> r
           | None \<Rightarrow>
               (case as_target_error (\<lambda>x. case x of StagingError path e' \<Rightarrow> Some (StagingFailedError path e') | _ \<Rightarrow> None) e of
                  Some r \<Rightarrow> r
                | None \<Rightarrow> e)))"

end
