(* ===== verification/Mem_Target.thy ===== *)
theory Mem_Target
  imports Target_Model
begin

text \<open>
  The in-memory target of internal/target/mem.go, on which the step ops are exercised: its
  state, every operation, and the \<open>Target\<close> record that offers them. The mutex makes each
  operation atomic. A map is an association list; the two parameters are what the code
  leaves open: what time.Now answers in a state, and the order in which ReadDir ranges.
\<close>

section \<open>State\<close>

record MemTarget =
  m_Files :: "(string \<times> string) list"
  m_Dirs :: "(string \<times> FileMode) list"
  m_Modes :: "(string \<times> FileMode) list"
  m_Owners :: "(string \<times> Owner) list"
  m_ModTimes :: "(string \<times> int) list"
  m_Symlinks :: "(string \<times> string) list"
  m_Pkgs :: "(string \<times> bool) list"
  m_Upgradable :: "(string \<times> bool) list"
  m_CacheStale :: bool
  m_Services :: "(string \<times> bool) list"
  m_EnabledServices :: "(string \<times> bool) list"
  m_Restarts :: "(string \<times> int) list"
  m_Reloads :: "(string \<times> int) list"
  m_ReloadUnsupported :: bool
  m_Users :: "(string \<times> UserInfo) list"
  m_Groups :: "(string \<times> GroupInfo) list"
  m_Repos :: "(string \<times> RepoConfig) list"
  m_RepoKeys :: "(string \<times> bool) list"
  m_Codename :: string
  m_Containers :: "(string \<times> ContainerInfo) list"
  m_Commands :: "string list"
  m_CommandFunc :: "(string list \<Rightarrow> string \<Rightarrow> err + CommandResult) option"

definition NewMemTarget :: MemTarget where
  "NewMemTarget = \<lparr>m_Files = [], m_Dirs = [], m_Modes = [], m_Owners = [], m_ModTimes = [], m_Symlinks = [],
     m_Pkgs = [], m_Upgradable = [], m_CacheStale = False, m_Services = [], m_EnabledServices = [],
     m_Restarts = [], m_Reloads = [], m_ReloadUnsupported = False, m_Users = [], m_Groups = [],
     m_Repos = [], m_RepoKeys = [], m_Codename = [], m_Containers = [], m_Commands = [],
     m_CommandFunc = None\<rparr>"

text \<open>Reading a Go map: the zero value where the key is absent.\<close>

definition map_get :: "'v \<Rightarrow> ('k \<times> 'v) list \<Rightarrow> 'k \<Rightarrow> 'v" where
  "map_get zero m k = (case map_of m k of None \<Rightarrow> zero | Some v \<Rightarrow> v)"

definition map_has :: "('k \<times> 'v) list \<Rightarrow> 'k \<Rightarrow> bool" where
  "map_has m k \<longleftrightarrow> map_of m k \<noteq> None"

definition map_add_new :: "'k \<Rightarrow> 'v \<Rightarrow> ('k \<times> 'v) list \<Rightarrow> ('k \<times> 'v) list" where
  "map_add_new k v m = (if map_has m k then m else AList.update k v m)"

lemma map_get_update [simp]: "map_get z (AList.update k v m) k' = (if k = k' then v else map_get z m k')"
  by (simp add: map_get_def update_conv')

lemma map_has_update [simp]: "map_has (AList.update k v m) k' \<longleftrightarrow> k = k' \<or> map_has m k'"
  by (simp add: map_has_def update_conv')

lemma map_has_delete [simp]: "map_has (AList.delete k m) k' \<longleftrightarrow> k \<noteq> k' \<and> map_has m k'"
  by (simp add: map_has_def delete_conv')

lemma map_of_update [simp]: "map_of (AList.update k v m) k' = (if k = k' then Some v else map_of m k')"
  by (simp add: update_conv')

lemma map_of_delete [simp]: "map_of (AList.delete k m) k' = (if k = k' then None else map_of m k')"
  by (simp add: delete_conv')

section \<open>Files and directories\<close>

text \<open>A wrapped error keeps the argument of its message.\<close>

definition notExist :: "string \<Rightarrow> err" where
  "notExist p = WrappedErr p ErrNotExist"

definition testOwner :: Owner where
  "testOwner = \<lparr>ow_User = ''testuser'', ow_Group = ''testgroup''\<rparr>"

definition no_owner :: Owner where
  "no_owner = \<lparr>ow_User = [], ow_Group = []\<rparr>"

definition mem_ReadFile :: "MemTarget \<Rightarrow> string \<Rightarrow> err + string" where
  "mem_ReadFile m p = (case map_of (m_Files m) p of None \<Rightarrow> Inl (notExist p) | Some d \<Rightarrow> Inr d)"

definition directChild :: "string \<Rightarrow> string \<Rightarrow> string option" where
  "directChild p prefix =
     (if length p \<le> length prefix \<or> \<not> HasPrefix p prefix then None
      else
        (let rest = drop (length prefix) p
         in if CHR ''/'' \<in> set rest then None else Some rest))"

fun add_children :: "string \<Rightarrow> bool \<Rightarrow> string list \<Rightarrow> DirEntry list \<Rightarrow> DirEntry list" where
  "add_children prefix d [] entries = entries"
| "add_children prefix d (p # ps) entries =
     (case directChild p prefix of
        Some nm \<Rightarrow>
          if nm \<notin> de_Name ` set entries
          then add_children prefix d ps (entries @ [\<lparr>de_Name = nm, de_IsDir = d\<rparr>])
          else add_children prefix d ps entries
      | None \<Rightarrow> add_children prefix d ps entries)"

definition mem_ReadDir :: "(string list \<Rightarrow> string list) \<Rightarrow> MemTarget \<Rightarrow> string \<Rightarrow> err + DirEntry list" where
  "mem_ReadDir iter m p =
     (if \<not> map_has (m_Dirs m) p \<and> \<not> map_has (m_Files m) p then Inl (notExist p)
      else
        (let prefix = p @ ''/''
         in Inr (add_children prefix True (iter (map fst (m_Dirs m)))
              (add_children prefix False (iter (map fst (m_Files m))) []))))"

definition mem_WriteFile :: "(MemTarget \<Rightarrow> int) \<Rightarrow> MemTarget \<Rightarrow> string \<Rightarrow> string \<Rightarrow> MemTarget \<times> err option" where
  "mem_WriteFile now m p data =
     (m\<lparr>m_Files := AList.update p data (m_Files m),
        m_Modes := map_add_new p 420 (m_Modes m),
        m_ModTimes := AList.update p (now m) (m_ModTimes m),
        m_Owners := map_add_new p testOwner (m_Owners m)\<rparr>, None)"

definition isImplicitDir :: "MemTarget \<Rightarrow> string \<Rightarrow> bool" where
  "isImplicitDir m p =
     (let dirPrefix = p @ ''/''
      in list_ex (\<lambda>q. length q > length dirPrefix \<and> HasPrefix q dirPrefix) (map fst (m_Files m))
         \<or> list_ex (\<lambda>q. length q > length dirPrefix \<and> HasPrefix q dirPrefix) (map fst (m_Symlinks m)))"

definition dirInfo :: "string \<Rightarrow> FileMode \<Rightarrow> FileInfo" where
  "dirInfo p mode = \<lparr>fi_Name = p, fi_Size = 0, fi_Mode = ModeDir OR mode, fi_ModTime = 0, fi_IsDir = True,
     fi_Sys = None\<rparr>"

definition fileInfo :: "MemTarget \<Rightarrow> string \<Rightarrow> string \<Rightarrow> FileInfo" where
  "fileInfo m p data = \<lparr>fi_Name = p, fi_Size = length data, fi_Mode = map_get 0 (m_Modes m) p,
     fi_ModTime = map_get 0 (m_ModTimes m) p, fi_IsDir = False, fi_Sys = None\<rparr>"

definition mem_Stat :: "MemTarget \<Rightarrow> string \<Rightarrow> err + FileInfo" where
  "mem_Stat m p =
     (if p = ''/'' then Inr (dirInfo ''/'' 493)
      else
        (case map_of (m_Files m) p of
           Some data \<Rightarrow> Inr (fileInfo m p data)
         | None \<Rightarrow>
             (case map_of (m_Dirs m) p of
                Some dirMode \<Rightarrow> Inr (dirInfo p dirMode)
              | None \<Rightarrow>
                  if isImplicitDir m p then Inr (dirInfo p 493) else Inl (notExist p))))"

definition mem_Mkdir :: "MemTarget \<Rightarrow> string \<Rightarrow> FileMode \<Rightarrow> MemTarget \<times> err option" where
  "mem_Mkdir m p mode =
     (m\<lparr>m_Dirs := AList.update p mode (m_Dirs m), m_Modes := AList.update p mode (m_Modes m),
        m_Owners := map_add_new p testOwner (m_Owners m)\<rparr>, None)"

definition mem_exists :: "MemTarget \<Rightarrow> string \<Rightarrow> bool" where
  "mem_exists m p \<longleftrightarrow> map_has (m_Files m) p \<or> map_has (m_Dirs m) p"

definition mem_Chmod :: "(MemTarget \<Rightarrow> int) \<Rightarrow> MemTarget \<Rightarrow> string \<Rightarrow> FileMode \<Rightarrow> MemTarget \<times> err option" where
  "mem_Chmod now m p mode =
     (if \<not> mem_exists m p then (m, Some (notExist p))
      else
        (m\<lparr>m_Modes := AList.update p mode (m_Modes m),
           m_ModTimes := AList.update p (now m) (m_ModTimes m),
           m_Dirs := (if map_has (m_Dirs m) p then AList.update p mode (m_Dirs m) else m_Dirs m)\<rparr>, None))"

text \<open>A path lies in the tree of another: itself or below it.\<close>

definition in_tree :: "string \<Rightarrow> string \<Rightarrow> bool" where
  "in_tree root q \<longleftrightarrow> q = root \<or> length q > length (root @ ''/'') \<and> HasPrefix q (root @ ''/'')"

definition mem_ChmodRecursive ::
  "(MemTarget \<Rightarrow> int) \<Rightarrow> MemTarget \<Rightarrow> string \<Rightarrow> FileMode \<Rightarrow> MemTarget \<times> err option" where
  "mem_ChmodRecursive now m p mode =
     (let m1 = fold (\<lambda>q m. if in_tree p q
                 then m\<lparr>m_Modes := AList.update q mode (m_Modes m),
                        m_ModTimes := AList.update q (now m) (m_ModTimes m)\<rparr> else m) (map fst (m_Files m)) m
      in (fold (\<lambda>q m. if in_tree p q
                 then m\<lparr>m_Modes := AList.update q mode (m_Modes m),
                        m_Dirs := AList.update q mode (m_Dirs m)\<rparr> else m) (map fst (m_Dirs m1)) m1, None))"

definition mem_Chown :: "MemTarget \<Rightarrow> string \<Rightarrow> Owner \<Rightarrow> MemTarget \<times> err option" where
  "mem_Chown m p owner =
     (if \<not> mem_exists m p then (m, Some (notExist p))
      else (m\<lparr>m_Owners := AList.update p owner (m_Owners m)\<rparr>, None))"

definition mem_ChownRecursive :: "MemTarget \<Rightarrow> string \<Rightarrow> Owner \<Rightarrow> MemTarget \<times> err option" where
  "mem_ChownRecursive m p owner =
     (m\<lparr>m_Owners := fold (\<lambda>q ow. if in_tree p q then AList.update q owner ow else ow)
          (map fst (m_Files m) @ map fst (m_Dirs m)) (m_Owners m)\<rparr>, None)"

definition mem_HasUser :: "MemTarget \<Rightarrow> string \<Rightarrow> bool" where
  "mem_HasUser m u = True"

definition mem_HasGroup :: "MemTarget \<Rightarrow> string \<Rightarrow> bool" where
  "mem_HasGroup m g = True"

definition mem_GetOwner :: "MemTarget \<Rightarrow> string \<Rightarrow> err + Owner" where
  "mem_GetOwner m p =
     (if \<not> mem_exists m p then Inl (notExist p) else Inr (map_get no_owner (m_Owners m) p))"

definition mem_Lstat :: "MemTarget \<Rightarrow> string \<Rightarrow> err + FileInfo" where
  "mem_Lstat m p =
     (if p = ''/'' then Inr (dirInfo ''/'' 493)
      else
        (case map_of (m_Symlinks m) p of
           Some t \<Rightarrow> Inr \<lparr>fi_Name = p, fi_Size = 0, fi_Mode = ModeSymlink OR 511, fi_ModTime = 0,
                         fi_IsDir = False, fi_Sys = Some t\<rparr>
         | None \<Rightarrow>
             (case map_of (m_Files m) p of
                Some data \<Rightarrow> Inr (fileInfo m p data)
              | None \<Rightarrow>
                  if isImplicitDir m p then Inr (dirInfo p 493) else Inl (notExist p))))"

definition mem_Readlink :: "MemTarget \<Rightarrow> string \<Rightarrow> err + string" where
  "mem_Readlink m p = (case map_of (m_Symlinks m) p of None \<Rightarrow> Inl (notExist p) | Some t \<Rightarrow> Inr t)"

definition mem_Symlink :: "MemTarget \<Rightarrow> string \<Rightarrow> string \<Rightarrow> MemTarget \<times> err option" where
  "mem_Symlink m t link = (m\<lparr>m_Symlinks := AList.update link t (m_Symlinks m)\<rparr>, None)"

definition mem_Remove :: "MemTarget \<Rightarrow> string \<Rightarrow> MemTarget \<times> err option" where
  "mem_Remove m p =
     (if map_has (m_Symlinks m) p then (m\<lparr>m_Symlinks := AList.delete p (m_Symlinks m)\<rparr>, None)
      else if map_has (m_Dirs m) p then (m\<lparr>m_Dirs := AList.delete p (m_Dirs m)\<rparr>, None)
      else if map_has (m_Files m) p
      then (m\<lparr>m_Files := AList.delete p (m_Files m), m_Modes := AList.delete p (m_Modes m),
              m_Owners := AList.delete p (m_Owners m), m_ModTimes := AList.delete p (m_ModTimes m)\<rparr>, None)
      else (m, Some (notExist p)))"

section \<open>Packages and services\<close>

definition mem_Capabilities :: Capability where
  "mem_Capabilities = POSIX OR Pkg OR PkgUpdate OR PkgRepo OR Service OR ContainerCap OR UserCap OR GroupCap"

definition mem_IsInstalled :: "MemTarget \<Rightarrow> string \<Rightarrow> err + bool" where
  "mem_IsInstalled m pkg = Inr (map_get False (m_Pkgs m) pkg)"

text \<open>
  Installing from a stale cache fails with the name of the first package, which is not there
  to be read when the list is empty.
\<close>

definition mem_InstallPkgs :: "MemTarget \<Rightarrow> string list \<Rightarrow> go_panic + MemTarget \<times> err option" where
  "mem_InstallPkgs m pkgs =
     (if m_CacheStale m
      then (case pkgs of [] \<Rightarrow> Inl ''index out of range''
            | p # _ \<Rightarrow> Inr (m, Some (PlainErr (''unable to locate package '' @ p))))
      else Inr (m\<lparr>m_Pkgs := fold (\<lambda>p. AList.update p True) pkgs (m_Pkgs m)\<rparr>, None))"

definition mem_RemovePkgs :: "MemTarget \<Rightarrow> string list \<Rightarrow> MemTarget \<times> err option" where
  "mem_RemovePkgs m pkgs = (m\<lparr>m_Pkgs := fold AList.delete pkgs (m_Pkgs m)\<rparr>, None)"

definition mem_UpdateCache :: "MemTarget \<Rightarrow> MemTarget \<times> err option" where
  "mem_UpdateCache m = (m\<lparr>m_CacheStale := False\<rparr>, None)"

definition mem_CacheAge :: "MemTarget \<Rightarrow> err + int" where
  "mem_CacheAge m = Inl ErrNoCacheInfo"

definition mem_IsUpgradable :: "MemTarget \<Rightarrow> string \<Rightarrow> err + bool" where
  "mem_IsUpgradable m pkg = Inr (map_get False (m_Upgradable m) pkg)"

definition mem_IsActive :: "MemTarget \<Rightarrow> string \<Rightarrow> err + bool" where
  "mem_IsActive m n = Inr (map_get False (m_Services m) n)"

definition mem_IsEnabled :: "MemTarget \<Rightarrow> string \<Rightarrow> err + bool" where
  "mem_IsEnabled m n = Inr (map_get False (m_EnabledServices m) n)"

definition mem_Start :: "MemTarget \<Rightarrow> string \<Rightarrow> MemTarget \<times> err option" where
  "mem_Start m n = (m\<lparr>m_Services := AList.update n True (m_Services m)\<rparr>, None)"

definition mem_Stop :: "MemTarget \<Rightarrow> string \<Rightarrow> MemTarget \<times> err option" where
  "mem_Stop m n = (m\<lparr>m_Services := AList.update n False (m_Services m)\<rparr>, None)"

definition mem_Enable :: "MemTarget \<Rightarrow> string \<Rightarrow> MemTarget \<times> err option" where
  "mem_Enable m n = (m\<lparr>m_EnabledServices := AList.update n True (m_EnabledServices m)\<rparr>, None)"

definition mem_Disable :: "MemTarget \<Rightarrow> string \<Rightarrow> MemTarget \<times> err option" where
  "mem_Disable m n = (m\<lparr>m_EnabledServices := AList.update n False (m_EnabledServices m)\<rparr>, None)"

definition mem_Restart :: "MemTarget \<Rightarrow> string \<Rightarrow> MemTarget \<times> err option" where
  "mem_Restart m n = (m\<lparr>m_Restarts := AList.update n (map_get 0 (m_Restarts m) n + 1) (m_Restarts m)\<rparr>, None)"

definition mem_Reload :: "MemTarget \<Rightarrow> string \<Rightarrow> MemTarget \<times> err option" where
  "mem_Reload m n = (m\<lparr>m_Reloads := AList.update n (map_get 0 (m_Reloads m) n + 1) (m_Reloads m)\<rparr>, None)"

definition mem_SupportsReload :: "MemTarget \<Rightarrow> bool" where
  "mem_SupportsReload m \<longleftrightarrow> \<not> m_ReloadUnsupported m"

definition mem_DaemonReload :: "MemTarget \<Rightarrow> MemTarget \<times> err option" where
  "mem_DaemonReload m = (m, None)"

section \<open>Containers and commands\<close>

definition zero_container :: ContainerInfo where
  "zero_container = \<lparr>ci_Name = [], ci_Image = [], ci_Running = False, ci_Restart = [], ci_Ports = [],
     ci_Env = [], ci_Mounts = [], ci_Args = [], ci_Labels = [], ci_Healthcheck = None, ci_HealthStatus = []\<rparr>"

definition mem_InspectContainer :: "MemTarget \<Rightarrow> string \<Rightarrow> err + (ContainerInfo \<times> bool)" where
  "mem_InspectContainer m n =
     (case map_of (m_Containers m) n of None \<Rightarrow> Inr (zero_container, False) | Some i \<Rightarrow> Inr (i, True))"

definition mem_CreateContainer :: "MemTarget \<Rightarrow> ContainerInfo \<Rightarrow> MemTarget \<times> err option" where
  "mem_CreateContainer m opts =
     (m\<lparr>m_Containers := AList.update (ci_Name opts) (opts\<lparr>ci_Running := False, ci_HealthStatus := []\<rparr>)
          (m_Containers m)\<rparr>, None)"

definition mem_StartContainer :: "MemTarget \<Rightarrow> string \<Rightarrow> MemTarget \<times> err option" where
  "mem_StartContainer m n =
     (case map_of (m_Containers m) n of
        None \<Rightarrow> (m, Some (notExist n))
      | Some i \<Rightarrow>
          (let i1 = i\<lparr>ci_Running := True\<rparr>;
               i2 = (if ci_Healthcheck i1 \<noteq> None then i1\<lparr>ci_HealthStatus := ''healthy''\<rparr> else i1)
           in (m\<lparr>m_Containers := AList.update n i2 (m_Containers m)\<rparr>, None)))"

definition mem_StopContainer :: "MemTarget \<Rightarrow> string \<Rightarrow> MemTarget \<times> err option" where
  "mem_StopContainer m n =
     (case map_of (m_Containers m) n of
        None \<Rightarrow> (m, None)
      | Some i \<Rightarrow> (m\<lparr>m_Containers := AList.update n (i\<lparr>ci_Running := False\<rparr>) (m_Containers m)\<rparr>, None))"

definition mem_RemoveContainer :: "MemTarget \<Rightarrow> string \<Rightarrow> MemTarget \<times> err option" where
  "mem_RemoveContainer m n = (m\<lparr>m_Containers := AList.delete n (m_Containers m)\<rparr>, None)"

text \<open>
  CommandFunc is a function value of the test that uses the target: a closure, whose answer may
  depend on the calls made before. It is given those, the commands run so far.
\<close>

definition mem_RunCommand :: "MemTarget \<Rightarrow> string \<Rightarrow> MemTarget \<times> (err + CommandResult)" where
  "mem_RunCommand m cmd =
     (m\<lparr>m_Commands := m_Commands m @ [cmd]\<rparr>,
      case m_CommandFunc m of
        Some fn \<Rightarrow> fn (m_Commands m) cmd
      | None \<Rightarrow> Inr \<lparr>cr_Stdout = [], cr_Stderr = ''command not found'', cr_ExitCode = 127\<rparr>)"

definition mem_RunPrivileged :: "MemTarget \<Rightarrow> string \<Rightarrow> MemTarget \<times> (err + CommandResult)" where
  "mem_RunPrivileged m cmd = mem_RunCommand m cmd"

definition mem_CommandStrings :: "MemTarget \<Rightarrow> string list" where
  "mem_CommandStrings m = map (\<lambda>i. m_Commands m ! i) [0..<length (m_Commands m)]"

section \<open>Users, groups, repositories\<close>

definition mem_UserExists :: "MemTarget \<Rightarrow> string \<Rightarrow> err + bool" where
  "mem_UserExists m n = Inr (map_has (m_Users m) n)"

definition mem_GetUser :: "MemTarget \<Rightarrow> string \<Rightarrow> err + UserInfo" where
  "mem_GetUser m n =
     (case map_of (m_Users m) n of None \<Rightarrow> Inl (WrappedErr n ErrUnknownUser) | Some u \<Rightarrow> Inr u)"

definition mem_CreateUser :: "MemTarget \<Rightarrow> UserInfo \<Rightarrow> MemTarget \<times> err option" where
  "mem_CreateUser m info = (m\<lparr>m_Users := AList.update (ui_Name info) info (m_Users m)\<rparr>, None)"

definition mem_ModifyUser :: "MemTarget \<Rightarrow> UserInfo \<Rightarrow> MemTarget \<times> err option" where
  "mem_ModifyUser m info =
     (if \<not> map_has (m_Users m) (ui_Name info) then (m, Some (WrappedErr (ui_Name info) ErrUnknownUser))
      else (m\<lparr>m_Users := AList.update (ui_Name info) info (m_Users m)\<rparr>, None))"

definition mem_DeleteUser :: "MemTarget \<Rightarrow> string \<Rightarrow> MemTarget \<times> err option" where
  "mem_DeleteUser m n = (m\<lparr>m_Users := AList.delete n (m_Users m)\<rparr>, None)"

definition mem_GroupExists :: "MemTarget \<Rightarrow> string \<Rightarrow> err + bool" where
  "mem_GroupExists m n = Inr (map_has (m_Groups m) n)"

definition mem_GetGroup :: "MemTarget \<Rightarrow> string \<Rightarrow> err + GroupInfo" where
  "mem_GetGroup m n =
     (case map_of (m_Groups m) n of None \<Rightarrow> Inl (WrappedErr n ErrUnknownGroup) | Some g \<Rightarrow> Inr g)"

definition mem_CreateGroup :: "MemTarget \<Rightarrow> GroupInfo \<Rightarrow> MemTarget \<times> err option" where
  "mem_CreateGroup m info = (m\<lparr>m_Groups := AList.update (gi_Name info) info (m_Groups m)\<rparr>, None)"

definition mem_DeleteGroup :: "MemTarget \<Rightarrow> string \<Rightarrow> MemTarget \<times> err option" where
  "mem_DeleteGroup m n = (m\<lparr>m_Groups := AList.delete n (m_Groups m)\<rparr>, None)"

definition mem_HasRepo :: "MemTarget \<Rightarrow> string \<Rightarrow> err + bool" where
  "mem_HasRepo m n = Inr (map_has (m_Repos m) n)"

definition mem_HasRepoKey :: "MemTarget \<Rightarrow> string \<Rightarrow> err + bool" where
  "mem_HasRepoKey m n = Inr (map_get False (m_RepoKeys m) n)"

definition mem_InstallRepoKey :: "MemTarget \<Rightarrow> RepoConfig \<Rightarrow> MemTarget \<times> err option" where
  "mem_InstallRepoKey m cfg = (m\<lparr>m_RepoKeys := AList.update (rc_Name cfg) True (m_RepoKeys m)\<rparr>, None)"

definition mem_WriteRepoConfig :: "MemTarget \<Rightarrow> RepoConfig \<Rightarrow> MemTarget \<times> err option" where
  "mem_WriteRepoConfig m cfg = (m\<lparr>m_Repos := AList.update (rc_Name cfg) cfg (m_Repos m)\<rparr>, None)"

definition mem_RemoveRepo :: "MemTarget \<Rightarrow> string \<Rightarrow> MemTarget \<times> err option" where
  "mem_RemoveRepo m n =
     (m\<lparr>m_Repos := AList.delete n (m_Repos m), m_RepoKeys := AList.delete n (m_RepoKeys m)\<rparr>, None)"

definition mem_RepoKeyPath :: "string \<Rightarrow> string" where
  "mem_RepoKeyPath n = ''/usr/share/keyrings/'' @ n @ ''.gpg''"

definition mem_RepoConfigPath :: "string \<Rightarrow> string" where
  "mem_RepoConfigPath n = ''/etc/apt/sources.list.d/scampi-'' @ n @ ''.sources''"

definition mem_VersionCodename :: "MemTarget \<Rightarrow> string" where
  "mem_VersionCodename m = m_Codename m"

section \<open>The target\<close>

definition mem_target ::
  "(MemTarget \<Rightarrow> int) \<Rightarrow> (string list \<Rightarrow> string list) \<Rightarrow> MemTarget Target" where
  "mem_target now iter =
     \<lparr>tg_Capabilities = mem_Capabilities, tg_files = True,
      tg_Stat = mem_Stat, tg_ReadDir = mem_ReadDir iter, tg_ReadFile = mem_ReadFile,
      tg_WriteFile = mem_WriteFile now, tg_Remove = mem_Remove, tg_Mkdir = mem_Mkdir,
      tg_Chmod = mem_Chmod now, tg_ChmodRecursive = mem_ChmodRecursive now,
      tg_Lstat = mem_Lstat, tg_Readlink = mem_Readlink, tg_Symlink = mem_Symlink,
      tg_HasUser = mem_HasUser, tg_HasGroup = mem_HasGroup, tg_GetOwner = mem_GetOwner,
      tg_Chown = mem_Chown, tg_ChownRecursive = mem_ChownRecursive,
      tg_IsActive = mem_IsActive, tg_IsEnabled = mem_IsEnabled, tg_Start = mem_Start,
      tg_Stop = mem_Stop, tg_Enable = mem_Enable, tg_Disable = mem_Disable,
      tg_DaemonReload = mem_DaemonReload, tg_Restart = mem_Restart, tg_Reload = mem_Reload,
      tg_SupportsReload = mem_SupportsReload,
      tg_UserExists = mem_UserExists, tg_GetUser = mem_GetUser, tg_CreateUser = mem_CreateUser,
      tg_ModifyUser = mem_ModifyUser, tg_DeleteUser = mem_DeleteUser,
      tg_GroupExists = mem_GroupExists, tg_GetGroup = mem_GetGroup, tg_CreateGroup = mem_CreateGroup,
      tg_DeleteGroup = mem_DeleteGroup, tg_RunCommand = mem_RunCommand\<rparr>"

lemma mem_target_simps [simp]:
  "tg_files (mem_target now iter) = True"
  "tg_Stat (mem_target now iter) = mem_Stat"
  "tg_ReadDir (mem_target now iter) = mem_ReadDir iter"
  "tg_ReadFile (mem_target now iter) = mem_ReadFile"
  "tg_WriteFile (mem_target now iter) = mem_WriteFile now"
  "tg_Remove (mem_target now iter) = mem_Remove"
  "tg_Mkdir (mem_target now iter) = mem_Mkdir"
  "tg_Chmod (mem_target now iter) = mem_Chmod now"
  "tg_ChmodRecursive (mem_target now iter) = mem_ChmodRecursive now"
  "tg_Lstat (mem_target now iter) = mem_Lstat"
  "tg_Readlink (mem_target now iter) = mem_Readlink"
  "tg_Symlink (mem_target now iter) = mem_Symlink"
  "tg_HasUser (mem_target now iter) = mem_HasUser"
  "tg_HasGroup (mem_target now iter) = mem_HasGroup"
  "tg_GetOwner (mem_target now iter) = mem_GetOwner"
  "tg_Chown (mem_target now iter) = mem_Chown"
  "tg_ChownRecursive (mem_target now iter) = mem_ChownRecursive"
  "tg_IsActive (mem_target now iter) = mem_IsActive"
  "tg_IsEnabled (mem_target now iter) = mem_IsEnabled"
  "tg_Start (mem_target now iter) = mem_Start"
  "tg_Stop (mem_target now iter) = mem_Stop"
  "tg_Enable (mem_target now iter) = mem_Enable"
  "tg_Disable (mem_target now iter) = mem_Disable"
  "tg_DaemonReload (mem_target now iter) = mem_DaemonReload"
  "tg_Restart (mem_target now iter) = mem_Restart"
  "tg_Reload (mem_target now iter) = mem_Reload"
  "tg_SupportsReload (mem_target now iter) = mem_SupportsReload"
  "tg_UserExists (mem_target now iter) = mem_UserExists"
  "tg_GetUser (mem_target now iter) = mem_GetUser"
  "tg_CreateUser (mem_target now iter) = mem_CreateUser"
  "tg_ModifyUser (mem_target now iter) = mem_ModifyUser"
  "tg_DeleteUser (mem_target now iter) = mem_DeleteUser"
  "tg_GroupExists (mem_target now iter) = mem_GroupExists"
  "tg_GetGroup (mem_target now iter) = mem_GetGroup"
  "tg_CreateGroup (mem_target now iter) = mem_CreateGroup"
  "tg_DeleteGroup (mem_target now iter) = mem_DeleteGroup"
  "tg_RunCommand (mem_target now iter) = mem_RunCommand"
  by (simp_all add: mem_target_def)

end
