(* ===== verification/File_Ops.thy ===== *)
theory File_Ops
  imports Step_Run Mem_Target Declared
begin

text \<open>
  The shared file ops of internal/step/sharedop/fileop (mode and ownership) and the op of
  the dir step, against any target; the laws of a file system they rely on are the locale
  \<open>posix_files\<close>, interpreted on the in-memory target.
\<close>

text \<open>Indexing the Fields map: the zero span where the field was not written.\<close>

definition field_value :: "DeclaredStep \<Rightarrow> string \<Rightarrow> Span" where
  "field_value step k = (case ds_Fields step k of None \<Rightarrow> zero_span | Some fs \<Rightarrow> fs_Value fs)"

section \<open>Checks that only read\<close>

definition unsatisfied :: "DriftDetail list \<Rightarrow> check_answer" where
  "unsatisfied drift = (CheckUnsatisfied, drift, None)"

definition check_failed :: "err \<Rightarrow> check_answer" where
  "check_failed e = (CheckUnsatisfied, [], Some e)"

definition satisfied :: check_answer where
  "satisfied = (CheckSatisfied, [], None)"

lemmas answers_def = unsatisfied_def check_failed_def satisfied_def

definition drift1 :: "string \<Rightarrow> string \<Rightarrow> string \<Rightarrow> DriftDetail list" where
  "drift1 field current desired = [\<lparr>drift_field = field, drift_current = current, drift_desired = desired\<rparr>]"

text \<open>What Execute returns: a result without error, an error with the zero result.\<close>

definition did :: "bool \<Rightarrow> exec_answer" where
  "did changed = Inr (\<lparr>res_changed = changed\<rparr>, None)"

definition exec_failed :: "err \<Rightarrow> exec_answer" where
  "exec_failed e = Inr (\<lparr>res_changed = False\<rparr>, Some e)"

text \<open>An op whose Check reads the target and always returns.\<close>

definition op_impl :: "('s \<Rightarrow> check_answer) \<Rightarrow> ('s \<Rightarrow> 's \<times> exec_answer) \<Rightarrow> 's OpImpl" where
  "op_impl check execute = \<lparr>impl_Check = (\<lambda>s. Some (s, check s)), impl_Execute = execute\<rparr>"

lemma op_impl_simps [simp]:
  "impl_Check (op_impl c x) s = Some (s, c s)" "impl_Execute (op_impl c x) = x"
  by (simp_all add: op_impl_def)

lemma op_satisfied_impl [simp]:
  "op_satisfied (op_impl c x) s \<longleftrightarrow> fst (c s) = CheckSatisfied \<and> snd (snd (c s)) = None"
  by (cases "c s") (auto simp: op_satisfied_iff)

text \<open>
  The ops a step's Ops() returns: what the engine sees of each, and its code. A step allocates
  its ops one after the other, from a pointer on.
\<close>

type_synonym 's step_code = "(Op \<times> 's OpImpl) list"

definition mk_op :: "nat \<Rightarrow> string \<Rightarrow> nat list \<Rightarrow> Capability \<Rightarrow> Op" where
  "mk_op p display ds caps = \<lparr>op_id = p, op_display = display, op_deps = ds, op_caps = caps\<rparr>"

definition code_impl :: "'s step_code \<Rightarrow> nat \<Rightarrow> 's OpImpl" where
  "code_impl ops i = snd (ops ! i)"

section \<open>ensure_mode_op.go\<close>

record EnsureModeOp =
  em_Path :: string
  em_Mode :: FileMode
  em_Recursive :: bool
  em_DestSpan :: Span

definition modeReadError :: "string \<Rightarrow> Span \<Rightarrow> err \<Rightarrow> err" where
  "modeReadError p span e =
     step_diag ''step.ModeRead'' ''cannot read mode of \"{{.Path}}\"''
       ''check file permissions and ensure the path is accessible'' [] [p] (Some span) None (Some e)"

definition em_checkPath :: "'s Target \<Rightarrow> EnsureModeOp \<Rightarrow> 's \<Rightarrow> string \<Rightarrow> check_answer" where
  "em_checkPath tgt op s p =
     (case tg_Stat tgt s p of
        Inl e \<Rightarrow>
          (if IsNotExist e then unsatisfied (drift1 ''perm'' [] (FileMode_String (Perm (em_Mode op))))
           else check_failed (modeReadError p (em_DestSpan op) e))
      | Inr info \<Rightarrow>
          (if Perm (fi_Mode info) \<noteq> Perm (em_Mode op)
           then unsatisfied (drift1 ''perm'' (FileMode_String (Perm (fi_Mode info)))
                  (FileMode_String (Perm (em_Mode op))))
           else satisfied))"

text \<open>Whether a loop over the answers of Check goes on: an unsatisfied one is returned at once.\<close>

definition goes_on :: "check_answer \<Rightarrow> bool" where
  "goes_on a \<longleftrightarrow> fst a = CheckSatisfied \<and> snd (snd a) = None"

fun scan :: "('a \<Rightarrow> check_answer option) \<Rightarrow> 'a list \<Rightarrow> check_answer option" where
  "scan f [] = Some satisfied"
| "scan f (x # xs) = Option.bind (f x) (\<lambda>a. if goes_on a then scan f xs else Some a)"

lemma scan_mono [partial_function_mono]:
  assumes "\<And>x. mono_option (\<lambda>f. B f x)"
  shows "mono_option (\<lambda>f. scan (B f) xs)"
proof (induction xs)
  case Nil
  then show ?case by (simp add: option.const_mono)
next
  case (Cons x xs)
  show ?case unfolding scan.simps
    by (intro bind_mono if_mono option.const_mono assms Cons.IH)
qed

text \<open>
  The recursion of both checkTree methods: the children of a directory in the order ReadDir
  gives, each checked and then entered when it is a directory. \<open>None\<close> is not returning, on
  a target whose directories never end.
\<close>

partial_function (option) check_tree ::
  "'s Target \<Rightarrow> (string \<Rightarrow> check_answer) \<Rightarrow> (string \<Rightarrow> err \<Rightarrow> err) \<Rightarrow> 's \<Rightarrow> string \<Rightarrow> check_answer option" where
  "check_tree tgt check read_error s dir =
     (case tg_ReadDir tgt s dir of
        Inl e \<Rightarrow> Some (check_failed (read_error dir e))
      | Inr entries \<Rightarrow>
          scan (\<lambda>entry.
            (let child = dir @ ''/'' @ de_Name entry; a = check child
             in if \<not> goes_on a then Some a
                else if de_IsDir entry then check_tree tgt check read_error s child
                else Some satisfied)) entries)"

definition em_checkTree :: "'s Target \<Rightarrow> EnsureModeOp \<Rightarrow> 's \<Rightarrow> string \<Rightarrow> check_answer option" where
  "em_checkTree tgt op s dir =
     check_tree tgt (em_checkPath tgt op s) (\<lambda>p e. modeReadError p (em_DestSpan op) e) s dir"

definition em_Check :: "'s Target \<Rightarrow> EnsureModeOp \<Rightarrow> 's \<Rightarrow> check_answer option" where
  "em_Check tgt op s =
     (let a = em_checkPath tgt op s (em_Path op)
      in if \<not> goes_on a then Some a
         else if em_Recursive op then em_checkTree tgt op s (em_Path op)
         else Some satisfied)"

definition em_executeRecursive :: "'s Target \<Rightarrow> EnsureModeOp \<Rightarrow> 's \<Rightarrow> 's \<times> exec_answer" where
  "em_executeRecursive tgt op s =
     (case tg_ChmodRecursive tgt s (em_Path op) (em_Mode op) of
        (s', Some e) \<Rightarrow>
          (s', if IsPermission e
               then exec_failed (PermissionDeniedError (''chmod -R '' @ FileMode_String (em_Mode op) @ '' '' @ em_Path op)
                      (em_DestSpan op) e)
               else exec_failed (DiagnoseTargetError e))
      | (s', None) \<Rightarrow> (s', did True))"

definition em_Execute :: "'s Target \<Rightarrow> EnsureModeOp \<Rightarrow> 's \<Rightarrow> 's \<times> exec_answer" where
  "em_Execute tgt op s =
     (if em_Recursive op then em_executeRecursive tgt op s
      else
        (case tg_Stat tgt s (em_Path op) of
           Inl e \<Rightarrow>
             (s, if IsNotExist e then Inl ''BUG: ensureModeOp.Execute: file does not exist after copyFileOp''
                 else exec_failed (modeReadError (em_Path op) (em_DestSpan op) e))
         | Inr info \<Rightarrow>
             (let changed = Perm (fi_Mode info) \<noteq> Perm (em_Mode op)
              in case tg_Chmod tgt s (em_Path op) (em_Mode op) of
                   (s', Some e) \<Rightarrow>
                     (s', if IsPermission e
                          then exec_failed (PermissionDeniedError (''chmod '' @ FileMode_String (em_Mode op) @ '' '' @ em_Path op)
                                 (em_DestSpan op) e)
                          else exec_failed (DiagnoseTargetError e))
                 | (s', None) \<Rightarrow> (s', did changed))))"

definition em_RequiredCapabilities :: Capability where
  "em_RequiredCapabilities = Filesystem OR FileMode"

definition em_impl :: "'s Target \<Rightarrow> EnsureModeOp \<Rightarrow> 's OpImpl" where
  "em_impl tgt op = \<lparr>impl_Check = (\<lambda>s. map_option (Pair s) (em_Check tgt op s)),
     impl_Execute = em_Execute tgt op\<rparr>"

section \<open>ensure_owner_op.go\<close>

record EnsureOwnerOp =
  eo_Path :: string
  eo_Owner :: string
  eo_Group :: string
  eo_Recursive :: bool
  eo_DestSpan :: Span
  eo_OwnerSpan :: Span
  eo_GroupSpan :: Span

definition ownerReadError :: "string \<Rightarrow> Span \<Rightarrow> err \<Rightarrow> err" where
  "ownerReadError p span e =
     step_diag ''step.OwnerRead'' ''cannot read ownership of \"{{.Path}}\"''
       ''check file permissions and ensure the path is accessible'' [] [p] (Some span) None (Some e)"

definition eo_checkPath :: "'s Target \<Rightarrow> EnsureOwnerOp \<Rightarrow> 's \<Rightarrow> string \<Rightarrow> string \<Rightarrow> check_answer" where
  "eo_checkPath tgt op s desired p =
     (case tg_GetOwner tgt s p of
        Inl e \<Rightarrow>
          (if IsNotExist e then unsatisfied (drift1 ''owner:group'' [] desired)
           else check_failed (ownerReadError p (eo_DestSpan op) e))
      | Inr have_ow \<Rightarrow>
          (if ow_User have_ow \<noteq> eo_Owner op \<or> ow_Group have_ow \<noteq> eo_Group op
           then unsatisfied (drift1 ''owner:group'' (ow_User have_ow @ '':'' @ ow_Group have_ow) desired)
           else satisfied))"

definition eo_checkTree :: "'s Target \<Rightarrow> EnsureOwnerOp \<Rightarrow> 's \<Rightarrow> string \<Rightarrow> string \<Rightarrow> check_answer option" where
  "eo_checkTree tgt op s dir desired =
     check_tree tgt (eo_checkPath tgt op s desired) (\<lambda>p e. ownerReadError p (eo_DestSpan op) e) s dir"

definition eo_Check :: "'s Target \<Rightarrow> EnsureOwnerOp \<Rightarrow> 's \<Rightarrow> check_answer option" where
  "eo_Check tgt op s =
     (let desired = eo_Owner op @ '':'' @ eo_Group op
      in if \<not> tg_HasUser tgt s (eo_Owner op)
         then Some (check_failed (UnknownUserError (eo_Owner op) (eo_OwnerSpan op) None))
         else if \<not> tg_HasGroup tgt s (eo_Group op)
         then Some (check_failed (UnknownGroupError (eo_Group op) (eo_GroupSpan op) None))
         else
           (let a = eo_checkPath tgt op s desired (eo_Path op)
            in if \<not> goes_on a then Some a
               else if eo_Recursive op then eo_checkTree tgt op s (eo_Path op) desired
               else Some satisfied))"

text \<open>The error both ways of changing the owner report; \<open>cmd\<close> is the command that stands for it.\<close>

definition eo_error :: "EnsureOwnerOp \<Rightarrow> string \<Rightarrow> err \<Rightarrow> exec_answer" where
  "eo_error op cmd e =
     exec_failed
       (if IsUnknownUser e then UnknownUserError (eo_Owner op) (eo_OwnerSpan op) (Some e)
        else if IsUnknownGroup e then UnknownGroupError (eo_Group op) (eo_GroupSpan op) (Some e)
        else if IsPermission e
        then PermissionDeniedError (cmd @ eo_Owner op @ '':'' @ eo_Group op @ '' '' @ eo_Path op) (eo_OwnerSpan op) e
        else DiagnoseTargetError e)"

definition eo_desired :: "EnsureOwnerOp \<Rightarrow> Owner" where
  "eo_desired op = \<lparr>ow_User = eo_Owner op, ow_Group = eo_Group op\<rparr>"

definition eo_executeRecursive :: "'s Target \<Rightarrow> EnsureOwnerOp \<Rightarrow> 's \<Rightarrow> 's \<times> exec_answer" where
  "eo_executeRecursive tgt op s =
     (case tg_ChownRecursive tgt s (eo_Path op) (eo_desired op) of
        (s', Some e) \<Rightarrow> (s', eo_error op ''chown -R '' e)
      | (s', None) \<Rightarrow> (s', did True))"

definition eo_Execute :: "'s Target \<Rightarrow> EnsureOwnerOp \<Rightarrow> 's \<Rightarrow> 's \<times> exec_answer" where
  "eo_Execute tgt op s =
     (if eo_Recursive op then eo_executeRecursive tgt op s
      else
        (case tg_GetOwner tgt s (eo_Path op) of
           Inl e \<Rightarrow>
             (s, if IsNotExist e then Inl ''BUG: ensureOwnerOp.Execute: file does not exist after copyFileOp''
                 else exec_failed (ownerReadError (eo_Path op) (eo_DestSpan op) e))
         | Inr have_ow \<Rightarrow>
             (let changed = ow_User have_ow \<noteq> eo_Owner op \<or> ow_Group have_ow \<noteq> eo_Group op
              in case tg_Chown tgt s (eo_Path op) (eo_desired op) of
                   (s', Some e) \<Rightarrow> (s', eo_error op ''chown '' e)
                 | (s', None) \<Rightarrow> (s', did changed))))"

definition eo_RequiredCapabilities :: Capability where
  "eo_RequiredCapabilities = Ownership"

definition eo_impl :: "'s Target \<Rightarrow> EnsureOwnerOp \<Rightarrow> 's OpImpl" where
  "eo_impl tgt op = \<lparr>impl_Check = (\<lambda>s. map_option (Pair s) (eo_Check tgt op s)),
     impl_Execute = eo_Execute tgt op\<rparr>"

lemma file_impl_simps [simp]:
  "impl_Check (em_impl tgt op) s = map_option (Pair s) (em_Check tgt op s)"
  "impl_Execute (em_impl tgt op) = em_Execute tgt op"
  "impl_Check (eo_impl tgt op') s = map_option (Pair s) (eo_Check tgt op' s)"
  "impl_Execute (eo_impl tgt op') = eo_Execute tgt op'"
  by (simp_all add: em_impl_def eo_impl_def)

lemma em_Check_returns: "\<not> em_Recursive op \<Longrightarrow> em_Check tgt op s \<noteq> None"
  by (simp add: em_Check_def Let_def del: not_None_eq)

lemma eo_Check_returns: "\<not> eo_Recursive op \<Longrightarrow> eo_Check tgt op s \<noteq> None"
  by (simp add: eo_Check_def Let_def del: not_None_eq)

lemma checks_clean:
  "em_Check tgt op s = Some (CheckSatisfied, d, e) \<Longrightarrow> \<not> em_Recursive op \<Longrightarrow> e = None"
  "eo_Check tgt op' s = Some (CheckSatisfied, d, e) \<Longrightarrow> \<not> eo_Recursive op' \<Longrightarrow> e = None"
  by (auto simp: em_Check_def eo_Check_def em_checkPath_def eo_checkPath_def goes_on_def answers_def Let_def
      split: sum.splits if_splits)

section \<open>The laws of a file system\<close>

text \<open>
  What is at a path, to a step: nothing (or nothing that can be read), something else than a
  directory, or a directory.
\<close>

definition entry :: "'s Target \<Rightarrow> 's \<Rightarrow> string \<Rightarrow> bool option" where
  "entry tgt s p = (case tg_Stat tgt s p of Inl _ \<Rightarrow> None | Inr info \<Rightarrow> Some (fi_IsDir info))"

definition owned :: "'s Target \<Rightarrow> 's \<Rightarrow> string \<Rightarrow> bool" where
  "owned tgt s p \<longleftrightarrow> \<not> isl (tg_GetOwner tgt s p)"

definition same_accounts :: "'s Target \<Rightarrow> 's \<Rightarrow> 's \<Rightarrow> bool" where
  "same_accounts tgt s s' \<longleftrightarrow> tg_HasUser tgt s' = tg_HasUser tgt s \<and> tg_HasGroup tgt s' = tg_HasGroup tgt s"

lemma em_satisfied:
  "\<not> em_Recursive op \<Longrightarrow> op_satisfied (em_impl tgt op) s \<longleftrightarrow>
     (\<exists>info. tg_Stat tgt s (em_Path op) = Inr info \<and> Perm (fi_Mode info) = Perm (em_Mode op))"
  by (auto simp: op_satisfied_iff em_impl_def em_Check_def em_checkPath_def goes_on_def answers_def Let_def
      split: sum.splits if_splits)

lemma eo_satisfied:
  "\<not> eo_Recursive op \<Longrightarrow> op_satisfied (eo_impl tgt op) s \<longleftrightarrow>
     tg_HasUser tgt s (eo_Owner op) \<and> tg_HasGroup tgt s (eo_Group op)
     \<and> tg_GetOwner tgt s (eo_Path op) = Inr (eo_desired op)"
  by (auto simp: op_satisfied_iff eo_impl_def eo_Check_def eo_checkPath_def goes_on_def answers_def Let_def
      eo_desired_def split: sum.splits if_splits)

text \<open>
  Changing the mode or the owner of a path, on the paths where the target keeps modes:
  success shows when the path is read again, and neither disturbs the other, what is at the
  path, or the accounts. Making a directory where nothing is leaves a directory with an owner,
  or nothing.
\<close>

locale posix_files =
  fixes tgt :: "'s Target" and plain :: "string \<Rightarrow> bool"
  assumes chmod_done: "plain p \<Longrightarrow> tg_Chmod tgt s p m = (s', None) \<Longrightarrow>
        \<exists>info. tg_Stat tgt s' p = Inr info \<and> Perm (fi_Mode info) = Perm m"
    and chmod_keeps: "plain p \<Longrightarrow> tg_Chmod tgt s p m = (s', e) \<Longrightarrow>
        entry tgt s' p = entry tgt s p \<and> tg_GetOwner tgt s' p = tg_GetOwner tgt s p \<and> same_accounts tgt s s'"
    and chown_done: "plain p \<Longrightarrow> tg_Chown tgt s p w = (s', None) \<Longrightarrow>
        tg_GetOwner tgt s' p = Inr w \<and> tg_HasUser tgt s' (ow_User w) \<and> tg_HasGroup tgt s' (ow_Group w)"
    and chown_keeps: "plain p \<Longrightarrow> tg_Chown tgt s p w = (s', e) \<Longrightarrow>
        tg_Stat tgt s' p = tg_Stat tgt s p \<and> owned tgt s' p = owned tgt s p \<and> same_accounts tgt s s'"
    and mkdir_keeps: "plain p \<Longrightarrow> entry tgt s p = None \<Longrightarrow> tg_Mkdir tgt s p m = (s', e) \<Longrightarrow>
        entry tgt s' p \<noteq> Some False \<and> (entry tgt s' p = Some True \<longrightarrow> owned tgt s' p) \<and> same_accounts tgt s s'"
    and mkdir_done: "plain p \<Longrightarrow> entry tgt s p = None \<Longrightarrow> tg_Mkdir tgt s p m = (s', None) \<Longrightarrow>
        entry tgt s' p = Some True"
    and owned_exists: "plain p \<Longrightarrow> owned tgt s p \<Longrightarrow> entry tgt s p \<noteq> None"
begin

text \<open>What a call of Execute did to the target, whether it failed or not.\<close>

lemma em_Execute_chmods:
  assumes "em_Execute tgt op s = (s', Inr (res, e))" and "\<not> em_Recursive op"
  shows "s' = s \<and> e \<noteq> None
     \<or> (\<exists>e'. tg_Chmod tgt s (em_Path op) (em_Mode op) = (s', e') \<and> (e = None \<longleftrightarrow> e' = None))"
  using assms by (auto simp: em_Execute_def exec_failed_def did_def Let_def
      split: sum.splits if_splits prod.splits option.splits)

lemma em_Execute_panics:
  "em_Execute tgt op s = (s', Inl m) \<Longrightarrow> \<not> em_Recursive op \<Longrightarrow> entry tgt s (em_Path op) = None"
  by (auto simp: em_Execute_def exec_failed_def did_def Let_def entry_def
      split: sum.splits if_splits prod.splits option.splits)

lemma eo_Execute_chowns:
  assumes "eo_Execute tgt op s = (s', Inr (res, e))" and "\<not> eo_Recursive op"
  shows "s' = s \<and> e \<noteq> None
     \<or> (\<exists>e'. tg_Chown tgt s (eo_Path op) (eo_desired op) = (s', e') \<and> (e = None \<longleftrightarrow> e' = None))"
  using assms by (auto simp: eo_Execute_def eo_error_def exec_failed_def did_def Let_def
      split: sum.splits if_splits prod.splits option.splits)

lemma eo_Execute_panics:
  "eo_Execute tgt op s = (s', Inl m) \<Longrightarrow> \<not> eo_Recursive op \<Longrightarrow> \<not> owned tgt s (eo_Path op)"
  by (auto simp: eo_Execute_def eo_error_def exec_failed_def did_def Let_def owned_def
      split: sum.splits if_splits prod.splits option.splits)

end

section \<open>The in-memory target obeys them\<close>

lemma mem_Stat_entry:
  "p \<noteq> ''/'' \<Longrightarrow> entry (mem_target now iter) m p =
     (if map_has (m_Files m) p then Some False
      else if map_has (m_Dirs m) p \<or> isImplicitDir m p then Some True else None)"
  by (auto simp: entry_def mem_Stat_def map_has_def dirInfo_def fileInfo_def split: option.splits)

lemma mem_Stat_error: "mem_Stat m p = Inl e \<Longrightarrow> IsNotExist e"
  by (auto simp: mem_Stat_def IsNotExist_def notExist_def ErrNotExist_def split: if_splits option.splits)

lemma mem_GetOwner_error: "mem_GetOwner m p = Inl e \<Longrightarrow> IsNotExist e"
  by (auto simp: mem_GetOwner_def IsNotExist_def notExist_def ErrNotExist_def split: if_splits)

lemma mem_owned: "owned (mem_target now iter) m p \<longleftrightarrow> mem_exists m p"
  by (simp add: owned_def mem_GetOwner_def)

lemma Perm_dir: "Perm (ModeDir OR m) = Perm m"
proof (rule bit_word_eqI)
  fix k assume k: "k < LENGTH(32)"
  have "bit (ModeDir :: FileMode) k \<longleftrightarrow> k = 31"
    using k unfolding ModeDir_def bit_push_bit_iff bit_1_iff by (auto simp: possible_bit_def)
  moreover have "bit ModePerm k \<longleftrightarrow> k < 9"
    using k unfolding ModePerm_mask bit_mask_iff by (auto simp: possible_bit_def)
  ultimately show "bit (Perm (ModeDir OR m)) k = bit (Perm m) k"
    by (auto simp: Perm_def bit_simps)
qed

lemma mem_accounts: "same_accounts (mem_target now iter) s s'"
  by (simp add: same_accounts_def mem_HasUser_def mem_HasGroup_def fun_eq_iff)

interpretation mem: posix_files "mem_target now iter" "\<lambda>p. p \<noteq> ''/''" for now iter
proof (rule posix_files.intro)
  fix p s s' and m :: FileMode and e
  assume p: "p \<noteq> ''/''"
  {
    assume "tg_Chmod (mem_target now iter) s p m = (s', None)"
    then show "\<exists>info. tg_Stat (mem_target now iter) s' p = Inr info \<and> Perm (fi_Mode info) = Perm m"
      using p by (auto simp: mem_Chmod_def mem_Stat_def mem_exists_def map_has_def fileInfo_def dirInfo_def
          Perm_dir split: if_splits option.splits)
  next
    assume "tg_Chmod (mem_target now iter) s p m = (s', e)"
    then show "entry (mem_target now iter) s' p = entry (mem_target now iter) s p
        \<and> tg_GetOwner (mem_target now iter) s' p = tg_GetOwner (mem_target now iter) s p
        \<and> same_accounts (mem_target now iter) s s'"
      using p by (auto simp: mem_Chmod_def mem_Stat_entry mem_exists_def isImplicitDir_def mem_GetOwner_def
          mem_accounts split: if_splits)
  next
    assume "entry (mem_target now iter) s p = None" "tg_Mkdir (mem_target now iter) s p m = (s', e)"
    then show "entry (mem_target now iter) s' p \<noteq> Some False
        \<and> (entry (mem_target now iter) s' p = Some True \<longrightarrow> owned (mem_target now iter) s' p)
        \<and> same_accounts (mem_target now iter) s s'"
      using p by (auto simp: mem_Mkdir_def mem_Stat_entry mem_owned mem_exists_def mem_accounts
          split: if_splits)
  next
    assume "entry (mem_target now iter) s p = None" "tg_Mkdir (mem_target now iter) s p m = (s', None)"
    then show "entry (mem_target now iter) s' p = Some True"
      using p by (auto simp: mem_Mkdir_def mem_Stat_entry split: if_splits)
  next
    assume "owned (mem_target now iter) s p"
    then show "entry (mem_target now iter) s p \<noteq> None"
      using p by (auto simp: mem_owned mem_exists_def mem_Stat_entry)
  }
next
  fix p s s' w assume "p \<noteq> ''/''" "tg_Chown (mem_target now iter) s p w = (s', None)"
  then show "tg_GetOwner (mem_target now iter) s' p = Inr w
      \<and> tg_HasUser (mem_target now iter) s' (ow_User w) \<and> tg_HasGroup (mem_target now iter) s' (ow_Group w)"
    by (auto simp: mem_Chown_def mem_GetOwner_def mem_exists_def mem_HasUser_def mem_HasGroup_def split: if_splits)
next
  fix p s s' w e assume "p \<noteq> ''/''" "tg_Chown (mem_target now iter) s p w = (s', e)"
  then show "tg_Stat (mem_target now iter) s' p = tg_Stat (mem_target now iter) s p
      \<and> owned (mem_target now iter) s' p = owned (mem_target now iter) s p
      \<and> same_accounts (mem_target now iter) s s'"
    by (auto simp: mem_Chown_def mem_Stat_def isImplicitDir_def mem_owned mem_exists_def fileInfo_def
        mem_accounts split: if_splits option.splits)
qed

end
