(* ===== verification/Go_Paths.thy ===== *)
theory Go_Paths
  imports Prelude
begin

text \<open>
  What the program uses of Go's \<open>strings\<close> and \<open>path/filepath\<close> packages (on Unix): splitting,
  trimming, and the lexical functions on slash-separated paths, over the list of segments of a
  path. The theorem of this part is that the relative path Rel computes leads from the one
  directory to the other.
\<close>

section \<open>strings.Split, strings.TrimSpace, strings.ReplaceAll\<close>

fun split_at :: "char \<Rightarrow> string \<Rightarrow> string list" where
  "split_at sep [] = [[]]"
| "split_at sep (c # s) =
     (if c = sep then [] # split_at sep s
      else (case split_at sep s of [] \<Rightarrow> [[c]] | p # ps \<Rightarrow> (c # p) # ps))"

lemma split_at_nonempty [simp]: "split_at sep s \<noteq> []"
  by (induction s) (auto split: list.splits)

lemma split_at_single: "sep \<notin> set s \<Longrightarrow> split_at sep s = [s]"
  by (induction s) auto

lemma split_at_append: "sep \<notin> set s \<Longrightarrow> split_at sep (s @ sep # t) = s # split_at sep t"
  by (induction s) auto

lemma split_at_append_sep: "split_at sep (s @ sep # t) = split_at sep s @ split_at sep t"
  by (induction s) (auto split: list.splits)

lemma split_at_no_sep: "p \<in> set (split_at sep s) \<Longrightarrow> sep \<notin> set p"
  by (induction s arbitrary: p) (auto split: list.splits if_splits)

text \<open>The ASCII characters unicode.IsSpace accepts: tab to carriage return, and space.\<close>

definition is_space :: "char \<Rightarrow> bool" where
  "is_space c \<longleftrightarrow> (let n = of_char c :: nat in (9 \<le> n \<and> n \<le> 13) \<or> n = 32)"

definition TrimSpace :: "string \<Rightarrow> string" where
  "TrimSpace s = rev (dropWhile is_space (rev (dropWhile is_space s)))"

lemma TrimSpace_idem: "TrimSpace (TrimSpace s) = TrimSpace s"
proof (cases "TrimSpace s = []")
  case False
  define u where "u = dropWhile is_space s"
  define v where "v = dropWhile is_space (rev u)"
  have t: "TrimSpace s = rev v" by (simp add: TrimSpace_def u_def v_def)
  with False have v: "v \<noteq> []" by simp
  then have hv: "\<not> is_space (hd v)" unfolding v_def by (rule hd_dropWhile)
  have "rev u = takeWhile is_space (rev u) @ v" by (simp add: v_def)
  then have u: "u = rev v @ rev (takeWhile is_space (rev u))" by (metis rev_append rev_rev_ident)
  with v have "u \<noteq> []" by auto
  then have "\<not> is_space (hd u)" unfolding u_def by (rule hd_dropWhile)
  moreover have "hd u = hd (rev v)" using u v by (metis hd_append2 rev_is_Nil_conv)
  ultimately have "dropWhile is_space (rev v) = rev v" using v by (simp add: dropWhile_eq_self_iff)
  moreover have "dropWhile is_space v = v" using hv by (simp add: dropWhile_eq_self_iff)
  ultimately have "TrimSpace (rev v) = rev v" by (simp add: TrimSpace_def)
  with t show ?thesis by simp
next
  case True
  have "TrimSpace [] = []" by (simp add: TrimSpace_def)
  with True show ?thesis by simp
qed

definition replace_char :: "char \<Rightarrow> string \<Rightarrow> string \<Rightarrow> string" where
  "replace_char c new s = concat (map (\<lambda>d. if d = c then new else [d]) s)"

section \<open>path/filepath\<close>

definition IsAbs :: "path \<Rightarrow> bool" where
  "IsAbs p \<longleftrightarrow> HasPrefix p ''/''"

definition segments :: "path \<Rightarrow> string list" where
  "segments p = filter (\<lambda>s. s \<noteq> []) (split_at (CHR ''/'') p)"

text \<open>One segment on the output of Clean, which is kept in reverse.\<close>

definition clean_segment :: "bool \<Rightarrow> string \<Rightarrow> string list \<Rightarrow> string list" where
  "clean_segment rooted seg out =
     (if seg = ''.'' then out
      else if seg = ''..''
      then (if out \<noteq> [] \<and> hd out \<noteq> ''..'' then tl out else if rooted then out else seg # out)
      else seg # out)"

definition clean_segments :: "bool \<Rightarrow> string list \<Rightarrow> string list" where
  "clean_segments rooted segs = rev (fold (clean_segment rooted) segs [])"

definition Clean :: "path \<Rightarrow> path" where
  "Clean p =
     (let out = clean_segments (IsAbs p) (segments p)
      in if IsAbs p then CHR ''/'' # strings_Join ''/'' out
         else if out = [] then ''.'' else strings_Join ''/'' out)"

definition Dir :: "path \<Rightarrow> path" where
  "Dir p = Clean (rev (dropWhile (\<lambda>c. c \<noteq> CHR ''/'') (rev p)))"

definition Join2 :: "path \<Rightarrow> path \<Rightarrow> path" where
  "Join2 a b = (if a \<noteq> [] then Clean (a @ ''/'' @ b) else if b \<noteq> [] then Clean b else [])"

text \<open>\<open>cwd\<close> is what os.Getwd answers.\<close>

definition Abs :: "'e + path \<Rightarrow> path \<Rightarrow> 'e + path" where
  "Abs cwd p = (if IsAbs p then Inr (Clean p) else (case cwd of Inl e \<Rightarrow> Inl e | Inr wd \<Rightarrow> Inr (Join2 wd p)))"

fun strip_common :: "string list \<Rightarrow> string list \<Rightarrow> string list \<times> string list" where
  "strip_common (x # xs) (y # ys) = (if x = y then strip_common xs ys else (x # xs, y # ys))"
| "strip_common xs ys = (xs, ys)"

text \<open>Rel of two absolute paths, where it has no error.\<close>

definition Rel_abs :: "path \<Rightarrow> path \<Rightarrow> path" where
  "Rel_abs base targ =
     (if Clean targ = Clean base then ''.''
      else
        (let (b, t) = strip_common (segments (Clean base)) (segments (Clean targ))
         in strings_Join ''/'' (replicate (length b) ''..'' @ t)))"

section \<open>Segments\<close>

definition normal_seg :: "string \<Rightarrow> bool" where
  "normal_seg s \<longleftrightarrow> s \<noteq> [] \<and> s \<noteq> ''.'' \<and> s \<noteq> ''..'' \<and> CHR ''/'' \<notin> set s"

lemma split_Join:
  assumes "xs \<noteq> []" and "\<forall>x \<in> set xs. sep \<notin> set x"
  shows "split_at sep (strings_Join [sep] xs) = xs"
  using assms by (induction "[sep]" xs rule: strings_Join.induct) (auto simp: split_at_single split_at_append)

lemma segments_Join: "\<forall>x \<in> set xs. x \<noteq> [] \<and> CHR ''/'' \<notin> set x \<Longrightarrow> segments (strings_Join ''/'' xs) = xs"
  by (cases "xs = []") (simp_all add: segments_def split_Join filter_id_conv)

lemma segments_slash: "segments (p @ CHR ''/'' # q) = segments p @ segments q"
  by (simp add: segments_def split_at_append_sep)

lemma segments_root [simp]: "segments (CHR ''/'' # q) = segments q"
  using segments_slash [of "[]" q] by (simp add: segments_def)

lemma segments_Nil [simp]: "segments [] = []"
  by (simp add: segments_def)

lemma segments_ok: "s \<in> set (segments p) \<Longrightarrow> s \<noteq> [] \<and> CHR ''/'' \<notin> set s"
  using split_at_no_sep by (auto simp: segments_def)

lemma IsAbs_Cons [simp]: "IsAbs (c # p) \<longleftrightarrow> c = CHR ''/''"
  by (auto simp: IsAbs_def HasPrefix_def)

lemma IsAbs_Nil [simp]: "\<not> IsAbs []"
  by (simp add: IsAbs_def HasPrefix_def)

lemma IsAbs_append: "IsAbs p \<Longrightarrow> IsAbs (p @ q)"
  by (cases p) auto

section \<open>Cleaned absolute paths\<close>

lemma clean_segment_normal:
  assumes "\<forall>s \<in> set out. normal_seg s" and "seg \<noteq> []" "CHR ''/'' \<notin> set seg"
  shows "\<forall>s \<in> set (clean_segment True seg out). normal_seg s"
  using assms by (cases out) (auto simp: clean_segment_def normal_seg_def)

lemma clean_segments_normal:
  assumes "\<forall>s \<in> set segs. s \<noteq> [] \<and> CHR ''/'' \<notin> set s"
  shows "\<forall>s \<in> set (clean_segments True segs). normal_seg s"
proof -
  have "\<forall>s \<in> set (fold (clean_segment True) segs out). normal_seg s"
    if "\<forall>s \<in> set out. normal_seg s" for out
    using assms that by (induction segs arbitrary: out) (auto dest: clean_segment_normal)
  from this [of "[]"] show ?thesis by (simp add: clean_segments_def)
qed

lemma fold_clean_normal: "\<forall>s \<in> set segs. normal_seg s \<Longrightarrow> fold (clean_segment r) segs out = rev segs @ out"
  by (induction segs arbitrary: out) (auto simp: clean_segment_def normal_seg_def)

lemma clean_segments_id: "\<forall>s \<in> set segs. normal_seg s \<Longrightarrow> clean_segments r segs = segs"
  by (simp add: clean_segments_def fold_clean_normal)

lemma Clean_abs: "IsAbs p \<Longrightarrow> Clean p = CHR ''/'' # strings_Join ''/'' (clean_segments True (segments p))"
  by (simp add: Clean_def Let_def)

lemma segments_Clean:
  assumes "IsAbs p"
  shows "segments (Clean p) = clean_segments True (segments p)"
    and "\<forall>s \<in> set (segments (Clean p)). normal_seg s"
proof -
  have n: "\<forall>s \<in> set (clean_segments True (segments p)). normal_seg s"
    by (rule clean_segments_normal) (use segments_ok in blast)
  then show "segments (Clean p) = clean_segments True (segments p)"
    by (simp add: Clean_abs [OF assms] segments_Join normal_seg_def)
  with n show "\<forall>s \<in> set (segments (Clean p)). normal_seg s" by simp
qed

lemma Clean_IsAbs: "IsAbs p \<Longrightarrow> IsAbs (Clean p)"
  by (simp add: Clean_abs)

lemma Clean_idem: "IsAbs p \<Longrightarrow> Clean (Clean p) = Clean p"
  using segments_Clean [of p] by (simp add: Clean_abs [OF Clean_IsAbs] Clean_abs clean_segments_id)

text \<open>A cleaned absolute path is its segments.\<close>

lemma Clean_eqI: "IsAbs p \<Longrightarrow> IsAbs q \<Longrightarrow> segments (Clean p) = segments (Clean q) \<Longrightarrow> Clean p = Clean q"
  using segments_Clean(1) [of p] segments_Clean(1) [of q] by (simp add: Clean_abs)

lemma strip_common_spec:
  "strip_common xs ys = (b, t) \<Longrightarrow> \<exists>c. xs = c @ b \<and> ys = c @ t"
proof (induction xs ys arbitrary: b t rule: strip_common.induct)
  case (1 x xs y ys)
  show ?case
  proof (cases "x = y")
    case True
    with 1 obtain c where "xs = c @ b" "ys = c @ t" by auto
    with True show ?thesis by (intro exI [of _ "x # c"]) simp
  qed (use 1 in auto)
qed auto

lemma clean_dotdot: "normal_seg s \<Longrightarrow> clean_segment True ''..'' (s # out) = out"
  by (simp add: clean_segment_def normal_seg_def)

lemma fold_dotdot:
  "\<forall>s \<in> set b. normal_seg s \<Longrightarrow> fold (clean_segment True) (replicate (length b) ''..'') (rev b @ out) = out"
  by (induction b rule: rev_induct) (simp_all add: clean_dotdot)

text \<open>From the one directory, the relative path leads to the other.\<close>

lemma Rel_leads:
  assumes "IsAbs base" and "IsAbs targ"
  shows "Clean (Clean base @ ''/'' @ Rel_abs base targ) = Clean targ"
proof -
  let ?bs = "segments (Clean base)" and ?ts = "segments (Clean targ)"
  obtain b t where bt: "strip_common ?bs ?ts = (b, t)" by force
  then obtain c where c: "?bs = c @ b" "?ts = c @ t" using strip_common_spec by blast
  have n: "\<forall>s \<in> set ?bs. normal_seg s" "\<forall>s \<in> set ?ts. normal_seg s"
    using segments_Clean(2) assms by blast+
  then have nt: "\<forall>s \<in> set b. normal_seg s" "\<forall>s \<in> set c. normal_seg s" "\<forall>s \<in> set t. normal_seg s"
    unfolding c by simp_all
  have abs: "IsAbs (Clean base @ ''/'' @ Rel_abs base targ)" using assms(1) by (simp add: Clean_IsAbs IsAbs_append)
  have "clean_segments True (?bs @ segments (Rel_abs base targ)) = ?ts"
  proof (cases "Clean targ = Clean base")
    case True
    then have "segments (Rel_abs base targ) = [''.'']" by (simp add: Rel_abs_def segments_def)
    with True show ?thesis
      using fold_clean_normal [OF n(2)] by (simp add: clean_segments_def) (simp add: clean_segment_def)
  next
    case False
    then have "Rel_abs base targ = strings_Join ''/'' (replicate (length b) ''..'' @ t)"
      by (simp add: Rel_abs_def bt)
    moreover have "\<forall>x \<in> set (replicate (length b) ''..''). x \<noteq> [] \<and> CHR ''/'' \<notin> set x"
      by (simp add: set_replicate_conv_if)
    moreover have "\<forall>x \<in> set t. x \<noteq> [] \<and> CHR ''/'' \<notin> set x" using nt(3) by (simp add: normal_seg_def)
    ultimately have "segments (Rel_abs base targ) = replicate (length b) ''..'' @ t"
      by (simp only: segments_Join set_append ball_Un)
    then have "clean_segments True (?bs @ segments (Rel_abs base targ))
        = rev (fold (clean_segment True) t (fold (clean_segment True) (replicate (length b) ''..'') (rev b @ rev c)))"
      using nt(1,2) by (simp add: c(1) clean_segments_def fold_clean_normal)
    also have "\<dots> = ?ts" using nt(3) fold_dotdot [OF nt(1)] by (simp add: c(2) fold_clean_normal)
    finally show ?thesis .
  qed
  then have "segments (Clean (Clean base @ ''/'' @ Rel_abs base targ)) = ?ts"
    using segments_Clean(1) [OF abs] segments_slash [of "Clean base" "Rel_abs base targ"] by simp
  with Clean_eqI [OF abs assms(2)] show ?thesis by simp
qed

section \<open>The parent directory\<close>

lemma Join_snoc: "xs \<noteq> [] \<Longrightarrow> strings_Join sep (xs @ [x]) = strings_Join sep xs @ sep @ x"
  by (induction sep xs rule: strings_Join.induct) auto

text \<open>A cleaned absolute path other than the root is an entry of its parent directory.\<close>

lemma Clean_parent:
  assumes "IsAbs p" and "Clean p = p" and "p \<noteq> ''/''"
  shows "\<exists>name. name \<noteq> [] \<and> p = (if Dir p = ''/'' then ''/'' @ name else Dir p @ ''/'' @ name)"
proof -
  let ?s = "segments p"
  have n: "\<forall>s \<in> set ?s. normal_seg s" using segments_Clean(2) [OF assms(1)] assms(2) by simp
  have p: "p = CHR ''/'' # strings_Join ''/'' ?s"
    using Clean_abs [OF assms(1)] assms(2) n by (simp add: clean_segments_id)
  have "?s \<noteq> []" using p assms(3) by auto
  then obtain ss name where s: "?s = ss @ [name]" by (metis rev_exhaust)
  have name: "name \<noteq> []" "CHR ''/'' \<notin> set name" using n s by (auto simp: normal_seg_def)
  have drop: "dropWhile (\<lambda>c. c \<noteq> CHR ''/'') (rev (q @ CHR ''/'' # name)) = CHR ''/'' # rev q" for q
    using name(2) by (auto simp: dropWhile_append)
  show ?thesis
  proof (cases "ss = []")
    case True
    then have "p = ''/'' @ name" using p s by simp
    moreover from this have "Dir p = Clean ''/''" using drop [of "[]"] by (simp add: Dir_def)
    moreover have "Clean ''/'' = ''/''" by (simp add: Clean_abs clean_segments_def)
    ultimately show ?thesis using name(1) by auto
  next
    case False
    let ?d = "CHR ''/'' # strings_Join ''/'' ss"
    have pd: "p = ?d @ ''/'' @ name" using p s False by (simp add: Join_snoc)
    have "Dir p = Clean (?d @ ''/'')" using drop [of ?d] by (simp add: Dir_def pd)
    also have "\<dots> = ?d"
    proof -
      have "segments (?d @ ''/'') = ss"
        using segments_slash [of ?d "[]"] n s by (simp add: segments_Join normal_seg_def)
      then show ?thesis using n s by (simp add: Clean_abs clean_segments_id)
    qed
    finally have "Dir p = ?d" .
    moreover have "strings_Join ''/'' ss \<noteq> []"
      using False n s by (cases ss rule: list.exhaust [case_names N C]; cases "tl ss") (auto simp: normal_seg_def neq_Nil_conv)
    ultimately show ?thesis using pd name(1) by auto
  qed
qed

section \<open>Numbers and parts of strings\<close>

text \<open>fmt's decimal rendering of a number.\<close>

definition fmt_int :: "int \<Rightarrow> string" where
  "fmt_int i = (if i < 0 then ''-'' @ Itoa (nat (- i)) else Itoa (nat i))"

definition HasSuffix :: "string \<Rightarrow> string \<Rightarrow> bool" where
  "HasSuffix s p \<longleftrightarrow> HasPrefix (rev s) (rev p)"

definition TrimPrefix :: "string \<Rightarrow> string \<Rightarrow> string" where
  "TrimPrefix s p = (if HasPrefix s p then drop (length p) s else s)"

definition TrimSuffix :: "string \<Rightarrow> string \<Rightarrow> string" where
  "TrimSuffix s p = (if HasSuffix s p then take (length s - length p) s else s)"

lemma HasSuffix_append [simp]: "HasSuffix (s @ p) p"
  by (simp add: HasSuffix_def)

lemma TrimPrefix_append [simp]: "TrimPrefix (p @ s) p = s"
  by (simp add: TrimPrefix_def)

lemma TrimSuffix_append [simp]: "TrimSuffix (s @ p) p = s"
  by (simp add: TrimSuffix_def)

text \<open>strings.Cut at one byte: what is before and after its first occurrence, if there is one.\<close>

definition Cut :: "char \<Rightarrow> string \<Rightarrow> (string \<times> string) option" where
  "Cut c s = (if c \<in> set s then Some (takeWhile (\<lambda>x. x \<noteq> c) s, drop 1 (dropWhile (\<lambda>x. x \<noteq> c) s)) else None)"

lemma Cut_append: "c \<notin> set a \<Longrightarrow> Cut c (a @ c # b) = Some (a, b)"
proof -
  assume a: "c \<notin> set a"
  have "takeWhile (\<lambda>x. x \<noteq> c) (a @ c # b) = a" "dropWhile (\<lambda>x. x \<noteq> c) (a @ c # b) = c # b"
    using a by (induction a) auto
  then show ?thesis by (simp add: Cut_def)
qed

section \<open>strconv.ParseInt\<close>

datatype num_error = NumSyntax | NumRange

definition digit_value :: "char \<Rightarrow> nat option" where
  "digit_value c =
     (let n = of_char c :: nat
      in if 48 \<le> n \<and> n \<le> 57 then Some (n - 48)
         else if 97 \<le> n \<and> n \<le> 122 then Some (n - 87)
         else if 65 \<le> n \<and> n \<le> 90 then Some (n - 55)
         else None)"

text \<open>ParseUint with 64 bits in a fixed base: the number so far, or the first error in reading order.\<close>

fun uint_loop :: "nat \<Rightarrow> nat \<Rightarrow> string \<Rightarrow> num_error + nat" where
  "uint_loop base n [] = Inr n"
| "uint_loop base n (c # s) =
     (case digit_value c of
        None \<Rightarrow> Inl NumSyntax
      | Some d \<Rightarrow>
          if base \<le> d then Inl NumSyntax
          else if 2 ^ 64 \<le> n * base + d then Inl NumRange
          else uint_loop base (n * base + d) s)"

definition ParseUint :: "nat \<Rightarrow> string \<Rightarrow> num_error + nat" where
  "ParseUint base s = (if s = [] then Inl NumSyntax else uint_loop base 0 s)"

text \<open>The value is meaningful with a range error too: the nearest one.\<close>

definition strconv_ParseInt :: "nat \<Rightarrow> string \<Rightarrow> 64 word \<times> num_error option" where
  "strconv_ParseInt base s =
     (if s = [] then (0, Some NumSyntax)
      else
        (let neg = hd s = CHR ''-'';
             digits = (if hd s = CHR ''+'' \<or> hd s = CHR ''-'' then tl s else s)
         in case ParseUint base digits of
              Inl NumSyntax \<Rightarrow> (0, Some NumSyntax)
            | Inl NumRange \<Rightarrow> (if neg then - (2 ^ 63) else 2 ^ 63 - 1, Some NumRange)
            | Inr un \<Rightarrow>
                if \<not> neg \<and> 2 ^ 63 \<le> un then (2 ^ 63 - 1, Some NumRange)
                else if neg \<and> 2 ^ 63 < un then (- (2 ^ 63), Some NumRange)
                else (if neg then - of_nat un else of_nat un, None)))"

lemma digit_value_char: "d < 10 \<Longrightarrow> digit_value (char_of (48 + d)) = Some d"
  by (simp add: digit_value_def of_char_of)

lemma uint_loop_append: "uint_loop b n (s @ t) = (case uint_loop b n s of Inl e \<Rightarrow> Inl e | Inr m \<Rightarrow> uint_loop b m t)"
  by (induction b n s rule: uint_loop.induct) (auto split: option.splits)

lemma uint_loop_Itoa: "n < 2 ^ 64 \<Longrightarrow> uint_loop 10 0 (Itoa n) = Inr n"
proof (induction n rule: Itoa.induct)
  case (1 n)
  show ?case
  proof (cases "n < 10")
    case True
    then show ?thesis using 1(2) by (simp add: Itoa.simps [of n] digit_value_char)
  next
    case False
    have "n mod 10 < 10" by simp
    moreover have "n div 10 * 10 + n mod 10 = n" by (rule div_mult_mod_eq)
    ultimately show ?thesis
      using 1 False by (simp add: Itoa.simps [of n] uint_loop_append digit_value_char)
  qed
qed

lemma Itoa_head: "Itoa n \<noteq> [] \<and> hd (Itoa n) \<noteq> CHR ''-'' \<and> hd (Itoa n) \<noteq> CHR ''+''"
proof (induction n rule: Itoa.induct)
  case (1 n)
  show ?case
  proof (cases "n < 10")
    case True
    have c: "of_char (char_of (48 + n) :: char) = 48 + n" using True by (simp add: of_char_of)
    have "char_of (48 + n) \<noteq> (CHR ''-'')" "char_of (48 + n) \<noteq> (CHR ''+'')"
      using c by (auto simp del: of_char_of dest!: arg_cong [where f = "of_char :: char \<Rightarrow> nat"])
    then show ?thesis using True by (simp add: Itoa.simps [of n])
  next
    case False
    then show ?thesis using 1 by (simp add: Itoa.simps [of n])
  qed
qed

text \<open>A number in the range of 64 bits is read back from its decimal text.\<close>

lemma ParseInt_fmt_int:
  assumes "- (2 ^ 63) \<le> i" and "i < 2 ^ 63"
  shows "strconv_ParseInt 10 (fmt_int i) = (word_of_int i, None)"
proof (cases "i < 0")
  case True
  then have "nat (- i) \<le> 2 ^ 63" using assms by simp
  moreover from this have "uint_loop 10 0 (Itoa (nat (- i))) = Inr (nat (- i))" by (intro uint_loop_Itoa) simp
  ultimately show ?thesis
    using True Itoa_head [of "nat (- i)"]
    by (simp add: strconv_ParseInt_def fmt_int_def ParseUint_def Let_def)
next
  case False
  then have "nat i < 2 ^ 63" using assms by simp
  moreover from this have "uint_loop 10 0 (Itoa (nat i)) = Inr (nat i)" by (intro uint_loop_Itoa) simp
  ultimately show ?thesis
    using False Itoa_head [of "nat i"]
    by (simp add: strconv_ParseInt_def fmt_int_def ParseUint_def Let_def)
qed

end
