(* ===== verification/Perm.thy ===== *)
theory Perm
  imports Target_Model Go_Paths
begin

text \<open>
  File permission literals (internal/perm/perm.go): the octal, ls and posix forms, the mode
  each denotes, and the renderings they read back.
\<close>

section \<open>The three parsers\<close>

definition InvalidPermissionError :: "string \<Rightarrow> Span \<Rightarrow> err" where
  "InvalidPermissionError s span =
     step_diag ''step.InvalidPermission''
       (''invalid file permission '' @ [CHR 0x27] @ ''{{.Value}}'' @ [CHR 0x27])
       ''expected octal, ls-style, or posix permissions''
       (''supported formats:'' @ [CHR 0x0A] @ ''  - octal:        0600, 0644, 0755'' @ [CHR 0x0A]
        @ ''  - ls-style:     rw-r--r--'' @ [CHR 0x0A] @ ''  - posix style:  u=rw,g=r,o=r'')
       [s] (Some span) None None"

text \<open>The regular expressions, as the functions that match them.\<close>

definition octalRe :: "string \<Rightarrow> bool" where
  "octalRe s \<longleftrightarrow> length s = 4 \<and> s ! 0 = CHR ''0'' \<and> list_all (\<lambda>c. c \<in> set ''01234567'') (drop 1 s)"

definition lsRe :: "string \<Rightarrow> bool" where
  "lsRe s \<longleftrightarrow> length s = 9 \<and> list_all2 (\<lambda>c d. c = d \<or> c = CHR ''-'') s ''rwxrwxrwx''"

fun posix_clause :: "string \<Rightarrow> bool" and posix_perms :: "string \<Rightarrow> bool" where
  "posix_clause (c # d # s) \<longleftrightarrow> c \<in> set ''ugo'' \<and> d = CHR ''='' \<and> posix_perms s"
| "posix_clause _ \<longleftrightarrow> False"
| "posix_perms [] \<longleftrightarrow> True"
| "posix_perms (c # s) \<longleftrightarrow> (if c \<in> set ''rwx'' then posix_perms s else c = CHR '','' \<and> posix_clause s)"

definition posixRe :: "string \<Rightarrow> bool" where
  "posixRe s = posix_clause s"

text \<open>strconv.ParseUint in base 8 and 32 bits, and strings.SplitSeq at a byte.\<close>

definition parse_octal :: "string \<Rightarrow> nat option" where
  "parse_octal s =
     (if s = [] \<or> \<not> list_all (\<lambda>c. c \<in> set ''01234567'') s then None
      else
        (let v = foldl (\<lambda>v c. 8 * v + (of_char c - 48)) 0 s
         in if v \<ge> 2 ^ 32 then None else Some v))"

definition tryOctal :: "string \<Rightarrow> FileMode option" where
  "tryOctal s =
     (if \<not> octalRe s then None
      else (case parse_octal s of None \<Rightarrow> None | Some v \<Rightarrow> Some (of_nat v AND ModePerm)))"

definition ls_bits :: "string \<Rightarrow> nat \<Rightarrow> FileMode" where
  "ls_bits s k =
     (if s ! k = CHR ''r'' then 4 else 0) OR (if s ! (k + 1) = CHR ''w'' then 2 else 0)
       OR (if s ! (k + 2) = CHR ''x'' then 1 else 0)"

definition tryLs :: "string \<Rightarrow> FileMode option" where
  "tryLs s =
     (if \<not> lsRe s then None
      else Some (fold (\<lambda>(k, sh) mode. mode OR push_bit sh (ls_bits s k)) [(0, 6), (3, 3), (6, 0)] 0
                   AND ModePerm))"

fun posix_bits :: "string \<Rightarrow> FileMode \<Rightarrow> FileMode option" where
  "posix_bits [] b = Some b"
| "posix_bits (r # rs) b =
     (if r = CHR ''r'' then posix_bits rs (b OR 4)
      else if r = CHR ''w'' then posix_bits rs (b OR 2)
      else if r = CHR ''x'' then posix_bits rs (b OR 1)
      else None)"

definition who_shift :: "char \<Rightarrow> nat" where
  "who_shift c = (if c = CHR ''u'' then 6 else if c = CHR ''g'' then 3 else 0)"

text \<open>
  The loop over the clauses, with the permissions of which classes it has seen. A clause has
  its two first bytes once the expression has matched.
\<close>

fun posix_clauses :: "string list \<Rightarrow> char list \<Rightarrow> FileMode \<Rightarrow> (char list \<times> FileMode) option" where
  "posix_clauses [] seen mode = Some (seen, mode)"
| "posix_clauses (c # cs) seen mode =
     (let who = c ! 0
      in if who \<in> set seen then None
         else (case posix_bits (drop 2 c) 0 of
                 None \<Rightarrow> None
               | Some b \<Rightarrow> posix_clauses cs (who # seen) (mode OR push_bit (who_shift who) b)))"

definition tryPosix :: "string \<Rightarrow> FileMode option" where
  "tryPosix s =
     (if \<not> posixRe s then None
      else (case posix_clauses (split_at (CHR '','') s) [] 0 of
              None \<Rightarrow> None
            | Some (seen, mode) \<Rightarrow> if length seen \<noteq> 3 then None else Some (mode AND ModePerm)))"

definition ParsePerm :: "string \<Rightarrow> Span \<Rightarrow> err + FileMode" where
  "ParsePerm s src =
     (case tryOctal s of Some m \<Rightarrow> Inr m
      | None \<Rightarrow> (case tryLs s of Some m \<Rightarrow> Inr m
         | None \<Rightarrow> (case tryPosix s of Some m \<Rightarrow> Inr m
            | None \<Rightarrow> Inl (InvalidPermissionError s src))))"

section \<open>Bounds\<close>

lemma mode_take_bit:
  assumes "m \<le> ModePerm"
  shows "take_bit 9 m = m"
proof -
  have "unat m < 2 ^ 9" using assms by (simp add: ModePerm_def word_le_nat_alt)
  then have "m < 2 ^ 9" by (simp add: word_less_nat_alt)
  then show ?thesis unfolding take_bit_eq_mask by (rule less_mask_eq)
qed

lemma masked_le: "m AND ModePerm \<le> ModePerm"
  by (simp add: word_and_le1)

lemma try_le:
  "tryOctal s = Some m \<Longrightarrow> m \<le> ModePerm" "tryLs s = Some m \<Longrightarrow> m \<le> ModePerm"
  "tryPosix s = Some m \<Longrightarrow> m \<le> ModePerm"
  by (auto simp: tryOctal_def tryLs_def tryPosix_def masked_le simp del: fold_simps
      split: if_splits option.splits)

text \<open>A mode is its nine bits.\<close>

definition triple :: "FileMode \<Rightarrow> nat \<Rightarrow> FileMode" where
  "triple m sh = (if bit m (sh + 2) then 4 else 0) OR (if bit m (sh + 1) then 2 else 0)
     OR (if bit m sh then 1 else 0)"

lemma triple_bit: "bit (triple m sh) k \<longleftrightarrow> k < 3 \<and> bit m (sh + k)"
proof -
  have "bit (4 :: FileMode) k \<longleftrightarrow> k = 2" "bit (2 :: FileMode) k \<longleftrightarrow> k = 1" "bit (1 :: FileMode) k \<longleftrightarrow> k = 0"
    using bit_exp_iff [of 2 k, where 'a = FileMode] bit_exp_iff [of 1 k, where 'a = FileMode]
    by (auto simp: possible_bit_def bit_1_iff)
  then show ?thesis
    by (cases "k = 0"; cases "k = 1"; cases "k = 2") (auto simp: triple_def bit_simps)
qed

lemma mode_triples:
  assumes "m \<le> ModePerm"
  shows "(push_bit 6 (triple m 6) OR push_bit 3 (triple m 3)) OR triple m 0 = m"
proof (rule bit_word_eqI)
  fix k assume k: "k < LENGTH(32)"
  have hi: "9 \<le> k \<Longrightarrow> \<not> bit m k" using mode_take_bit [OF assms] by (metis bit_take_bit_iff not_le)
  show "bit ((push_bit 6 (triple m 6) OR push_bit 3 (triple m 3)) OR triple m 0) k = bit m k"
    using k hi by (cases "k < 3"; cases "k < 6"; cases "k < 9") (auto simp: bit_simps triple_bit)
qed

section \<open>Renderings\<close>

text \<open>
  The three ways to write a mode: four octal digits, the nine letters of \<open>FileMode_String\<close>,
  and one posix clause for each class.
\<close>

definition octal_digit :: "nat \<Rightarrow> char" where
  "octal_digit d = ''01234567'' ! (d mod 8)"

definition show_octal :: "FileMode \<Rightarrow> string" where
  "show_octal m =
     (let v = unat m in [CHR ''0'', octal_digit (v div 64), octal_digit (v div 8), octal_digit v])"

definition show_ls :: "FileMode \<Rightarrow> string" where
  "show_ls m = map (\<lambda>(i, c). if bit m (8 - i) then c else CHR ''-'') (zip [0..<9] ''rwxrwxrwx'')"

definition show_rwx :: "FileMode \<Rightarrow> nat \<Rightarrow> string" where
  "show_rwx m sh = (if bit m (sh + 2) then ''r'' else []) @ (if bit m (sh + 1) then ''w'' else [])
     @ (if bit m sh then ''x'' else [])"

definition show_posix :: "FileMode \<Rightarrow> string" where
  "show_posix m = ''u='' @ show_rwx m 6 @ '',g='' @ show_rwx m 3 @ '',o='' @ show_rwx m 0"

lemma bit_high:
  assumes "m \<le> ModePerm" and "9 \<le> k"
  shows "\<not> bit m k"
proof -
  note mode_take_bit [OF assms(1)]
  then show ?thesis using assms(2) by (metis bit_take_bit_iff not_le)
qed

lemma masked_id: "m \<le> ModePerm \<Longrightarrow> m AND ModePerm = m"
  unfolding ModePerm_mask by (metis ModePerm_mask mode_take_bit take_bit_eq_mask)

lemma FileMode_String_ls: "m \<le> ModePerm \<Longrightarrow> FileMode_String m = CHR ''-'' # show_ls m"
  by (simp add: FileMode_String_def show_ls_def bit_high upt_rec)

lemma tryLs_show: "m \<le> ModePerm \<Longrightarrow> tryLs (show_ls m) = Some m"
proof -
  assume m: "m \<le> ModePerm"
  have l: "show_ls m = [if bit m 8 then CHR ''r'' else CHR ''-'', if bit m 7 then CHR ''w'' else CHR ''-'',
      if bit m 6 then CHR ''x'' else CHR ''-'', if bit m 5 then CHR ''r'' else CHR ''-'',
      if bit m 4 then CHR ''w'' else CHR ''-'', if bit m 3 then CHR ''x'' else CHR ''-'',
      if bit m 2 then CHR ''r'' else CHR ''-'', if bit m 1 then CHR ''w'' else CHR ''-'',
      if bit m 0 then CHR ''x'' else CHR ''-'']"
    by (simp add: show_ls_def upt_rec)
  have re: "lsRe (show_ls m)" unfolding l lsRe_def by simp
  have "ls_bits (show_ls m) 0 = triple m 6" "ls_bits (show_ls m) 3 = triple m 3" "ls_bits (show_ls m) 6 = triple m 0"
    unfolding l ls_bits_def triple_def by (auto simp: numeral_eq_Suc)
  then show ?thesis using re mode_triples [OF m] masked_id [OF m] by (simp add: tryLs_def)
qed

lemma posix_perms_rwx: "set s \<subseteq> set ''rwx'' \<Longrightarrow> posix_perms (s @ t) = posix_perms t"
  by (induction s) auto

lemma show_rwx_set: "set (show_rwx m sh) \<subseteq> set ''rwx''"
  by (auto simp: show_rwx_def)

lemma posix_bits_show: "posix_bits (show_rwx m sh) 0 = Some (triple m sh)"
  by (simp add: show_rwx_def triple_def)

lemma tryPosix_show: "m \<le> ModePerm \<Longrightarrow> tryPosix (show_posix m) = Some m"
proof -
  assume m: "m \<le> ModePerm"
  have nc: "CHR '','' \<notin> set (show_rwx m sh)" for sh using show_rwx_set by fastforce
  have re: "posixRe (show_posix m)"
    by (simp add: posixRe_def show_posix_def posix_perms_rwx [OF show_rwx_set]
        posix_perms_rwx [OF show_rwx_set, where t = "[]", simplified])
  have "split_at (CHR '','') (show_posix m) = [''u='' @ show_rwx m 6, ''g='' @ show_rwx m 3, ''o='' @ show_rwx m 0]"
    using split_at_append [of "CHR '',''" "''u='' @ show_rwx m 6" "''g='' @ show_rwx m 3 @ '',o='' @ show_rwx m 0"]
      split_at_append [of "CHR '',''" "''g='' @ show_rwx m 3" "''o='' @ show_rwx m 0"]
      split_at_single [of "CHR '',''" "''o='' @ show_rwx m 0"] nc
    by (simp add: show_posix_def)
  then show ?thesis
    using re mode_triples [OF m] masked_id [OF m]
    by (simp add: tryPosix_def posix_bits_show who_shift_def)
qed

lemma octal_digit_code: "of_char (octal_digit d) = (48 :: nat) + d mod 8"
  "octal_digit d \<in> set ''01234567''"
proof -
  have "d mod 8 \<in> {0, 1, 2, 3, 4, 5, 6, 7}" by auto
  then show "of_char (octal_digit d) = (48 :: nat) + d mod 8" "octal_digit d \<in> set ''01234567''"
    by (auto simp: octal_digit_def)
qed

lemma tryOctal_show: "m \<le> ModePerm \<Longrightarrow> tryOctal (show_octal m) = Some m"
proof -
  assume m: "m \<le> ModePerm"
  let ?v = "unat m"
  have v: "?v \<le> 511" using m by (simp add: ModePerm_def word_le_nat_alt)
  have "?v div 64 mod 8 = ?v div 64" using v by simp
  moreover have "?v mod 64 = 8 * (?v div 8 mod 8) + ?v mod 8" using mod_mult2_eq [of ?v 8 8] by simp
  ultimately have split: "64 * (?v div 64 mod 8) + (8 * (?v div 8 mod 8) + ?v mod 8) = ?v"
    using mult_div_mod_eq [of 64 ?v] by linarith
  have re: "octalRe (show_octal m)" by (simp add: octalRe_def show_octal_def Let_def octal_digit_code [simplified])
  have "parse_octal (show_octal m) = Some ?v"
    using v split by (simp add: parse_octal_def show_octal_def Let_def octal_digit_code [simplified])
  then show ?thesis using re masked_id [OF m] by (simp add: tryOctal_def)
qed

lemma show_not_earlier:
  "tryOctal (show_ls m) = None" "tryOctal (show_posix m) = None" "tryLs (show_posix m) = None"
  by (simp_all add: tryOctal_def octalRe_def tryLs_def lsRe_def show_ls_def show_posix_def upt_rec)

section \<open>Reading back what was written\<close>

lemma ls_bits_bit:
  "bit (ls_bits s j) k \<longleftrightarrow> k = 2 \<and> s ! j = CHR ''r'' \<or> k = 1 \<and> s ! (j + 1) = CHR ''w''
     \<or> k = 0 \<and> s ! (j + 2) = CHR ''x''"
proof -
  have "bit (4 :: FileMode) k \<longleftrightarrow> k = 2" "bit (2 :: FileMode) k \<longleftrightarrow> k = 1" "bit (1 :: FileMode) k \<longleftrightarrow> k = 0"
    using bit_exp_iff [of 2 k, where 'a = FileMode] bit_exp_iff [of 1 k, where 'a = FileMode]
    by (auto simp: possible_bit_def bit_1_iff)
  then show ?thesis by (auto simp: ls_bits_def bit_simps)
qed

lemma tryLs_inverse:
  assumes "tryLs s = Some m"
  shows "s = show_ls m"
proof -
  from assms have re: "lsRe s" and
    m: "m = ((push_bit 6 (ls_bits s 0) OR push_bit 3 (ls_bits s 3)) OR ls_bits s 6) AND mask 9"
    by (auto simp: tryLs_def ModePerm_mask split: if_splits)
  have len: "length s = 9" using re by (simp add: lsRe_def)
  have ch: "s ! i = ''rwxrwxrwx'' ! i \<or> s ! i = CHR ''-''" if "i < 9" for i
    using re that len by (auto simp: lsRe_def list_all2_conv_all_nth)
  have mb: "bit m k \<longleftrightarrow> k < 9 \<and> (6 \<le> k \<and> bit (ls_bits s 0) (k - 6) \<or> 3 \<le> k \<and> bit (ls_bits s 3) (k - 3)
      \<or> bit (ls_bits s 6) k)" for k
    unfolding m by (auto simp: bit_simps)
  have b: "bit m (8 - i) \<longleftrightarrow> s ! i \<noteq> CHR ''-''" if "i < 9" for i
  proof -
    have "i = 0 \<or> i = 1 \<or> i = 2 \<or> i = 3 \<or> i = 4 \<or> i = 5 \<or> i = 6 \<or> i = 7 \<or> i = 8" using that by auto
    then show ?thesis
      using ch [OF that] by (elim disjE) (simp_all add: mb ls_bits_bit numeral_2_eq_2)
  qed
  have l: "show_ls m ! i = s ! i" if "i < 9" for i
  proof -
    have "show_ls m ! i = (if bit m (8 - i) then ''rwxrwxrwx'' ! i else CHR ''-'')"
      using that by (simp add: show_ls_def)
    with b [OF that] ch [OF that] show ?thesis by auto
  qed
  have "length (show_ls m) = 9" by (simp add: show_ls_def)
  with l len show ?thesis by (simp add: list_eq_iff_nth_eq)
qed

lemma octal_char:
  assumes "c \<in> set ''01234567''"
  shows "octal_digit (of_char c - 48) = c \<and> of_char c - 48 < (8 :: nat)"
  using assms by (auto simp: octal_digit_def)

lemma unat_of_small: "n < 512 \<Longrightarrow> unat (of_nat n :: FileMode) = n"
  by (simp add: unsigned_of_nat take_bit_nat_eq_self)

lemma tryOctal_inverse:
  assumes "tryOctal s = Some m"
  shows "s = show_octal m"
proof -
  from assms have re: "octalRe s" by (auto simp: tryOctal_def split: if_splits)
  then obtain a b c where s: "s = [CHR ''0'', a, b, c]"
    by (auto simp: octalRe_def numeral_eq_Suc length_Suc_conv)
  have abc: "a \<in> set ''01234567''" "b \<in> set ''01234567''" "c \<in> set ''01234567''"
    using re s by (auto simp: octalRe_def)
  define x y z where "x = of_char a - (48 :: nat)" and "y = of_char b - (48 :: nat)" and "z = of_char c - (48 :: nat)"
  have xyz: "x < 8" "y < 8" "z < 8" "octal_digit x = a" "octal_digit y = b" "octal_digit z = c"
    using abc [THEN octal_char] by (simp_all add: x_def y_def z_def)
  let ?v = "64 * x + 8 * y + z"
  have v: "?v < 512" using xyz by simp
  have digits: "list_all (\<lambda>c. c \<in> set ''01234567'') s"
    unfolding s list.pred_inject using abc by (intro conjI TrueI) simp_all
  have "parse_octal s = (let v = foldl (\<lambda>v c. 8 * v + (of_char c - 48)) 0 s in if v \<ge> 2 ^ 32 then None else Some v)"
    unfolding parse_octal_def using digits by (simp only: s list.distinct simp_thms if_False)
  also have "\<dots> = Some ?v" using v unfolding s by (simp flip: x_def y_def z_def)
  finally have "parse_octal s = Some ?v" .
  then have m: "m = of_nat ?v AND ModePerm" using assms re by (simp add: tryOctal_def)
  have u: "unat (of_nat ?v :: FileMode) = ?v" by (rule unat_of_small [OF v])
  then have "(of_nat ?v :: FileMode) \<le> ModePerm" using v by (simp add: word_le_nat_alt ModePerm_def)
  then have "unat m = ?v" using m u masked_id by simp
  moreover have v8: "?v = 8 * (8 * x + y) + z" by simp
  moreover have "?v div 8 = 8 * x + y" unfolding v8 using xyz(3) by simp
  moreover have "?v div 64 = x"
  proof -
    have "?v div 64 = ?v div 8 div 8" using div_mult2_eq [of ?v 8 8] by simp
    also have "\<dots> = (8 * x + y) div 8" using \<open>?v div 8 = 8 * x + y\<close> by (simp only:)
    also have "\<dots> = x" using xyz(2) by simp
    finally show ?thesis .
  qed
  moreover have "(8 * x + y) mod 8 = y mod 8" "?v mod 8 = z mod 8" unfolding v8 by (simp_all only: mod_mult_self4)
  then have "octal_digit (8 * x + y) = octal_digit y" "octal_digit ?v = octal_digit z"
    by (simp_all only: octal_digit_def)
  ultimately have "show_octal m = [CHR ''0'', octal_digit x, octal_digit y, octal_digit z]"
    by (simp only: show_octal_def Let_def)
  then show ?thesis using s xyz by simp
qed

section \<open>Properties\<close>

text \<open>C21: every permission literal the parser accepts denotes a mode within 0777, and is the octal or the
  ls rendering of that mode unless it is written in posix clauses; so neither of those forms has a second spelling.\<close>

theorem perm_literals_bounded:
  assumes "ParsePerm s src = Inr m"
  shows "m \<le> ModePerm \<and> (s = show_octal m \<or> s = show_ls m \<or> posixRe s)"
proof -
  from assms consider "tryOctal s = Some m" | "tryLs s = Some m" | "tryPosix s = Some m"
    by (auto simp: ParsePerm_def split: option.splits)
  then show ?thesis
  proof cases
    case 1
    then show ?thesis using try_le(1) tryOctal_inverse by blast
  next
    case 2
    then show ?thesis using try_le(2) tryLs_inverse by blast
  next
    case 3
    then have "posixRe s" by (auto simp: tryPosix_def split: if_splits)
    with 3 show ?thesis using try_le(3) by blast
  qed
qed

lemma perm_literals_bounded_witness:
  "ParsePerm ''0644'' zero_span = Inr 420 \<and> (420 :: FileMode) \<le> ModePerm"
proof -
  have "show_octal 420 = ''0644''" by (simp add: show_octal_def octal_digit_def)
  moreover have "(420 :: FileMode) \<le> ModePerm" by (simp add: ModePerm_def)
  ultimately have p: "ParsePerm ''0644'' zero_span = Inr 420"
    using tryOctal_show [of 420] by (simp add: ParsePerm_def)
  from perm_literals_bounded [OF p] p show ?thesis by simp
qed

text \<open>C22: each mode up to 0777 is read back from its octal digits, from the nine letters that Go prints
  for it and from its posix clauses: the three notations agree.\<close>

theorem perm_roundtrip:
  assumes "m \<le> ModePerm"
  shows "ParsePerm (show_octal m) src = Inr m \<and> ParsePerm (tl (FileMode_String m)) src = Inr m
    \<and> ParsePerm (show_posix m) src = Inr m"
  using tryOctal_show [OF assms] tryLs_show [OF assms] tryPosix_show [OF assms]
    FileMode_String_ls [OF assms] show_not_earlier [of m]
  by (simp add: ParsePerm_def)

lemma perm_roundtrip_witness: "ParsePerm ''u=rw,g=r,o='' zero_span = Inr 416"
proof -
  have "show_posix 416 = ''u=rw,g=r,o=''" by code_simp
  moreover have "(416 :: FileMode) \<le> ModePerm" by (simp add: ModePerm_def)
  ultimately show ?thesis using perm_roundtrip [of 416 zero_span] by simp
qed

end
