(* ===== verification/Dir_Step.thy ===== *)
theory Dir_Step
  imports File_Ops Perm
begin

text \<open>
  The dir step (internal/step/dir/dir.go): planning, its ops, and what running it does to a
  file system that obeys the laws of \<open>posix_files\<close>.
\<close>

section \<open>The step\<close>

record DirConfig =
  dc_Desc :: string
  dirc_Path :: string
  dirc_Perm :: string
  dirc_Owner :: string
  dirc_Group :: string
  dirc_Provides :: "string list"
  dirc_Requires :: "string list"

record dirStep =
  dst_desc :: string
  dst_kind :: string
  dst_path :: string
  dst_step :: DeclaredStep
  dst_cfg :: DirConfig

definition PartialOwnershipError :: "string \<Rightarrow> string \<Rightarrow> Span \<Rightarrow> err" where
  "PartialOwnershipError set_field missing span =
     step_diag ''step.dir.PartialOwnership'' ''{{.Set}} is set but {{.Missing}} is empty''
       ''add {{.Missing}}=\"<value>\" or remove {{.Set}}'' [] [set_field, missing] (Some span) None None"

definition dir_Plan :: "DeclaredStep \<Rightarrow> DirConfig \<Rightarrow> err + dirStep" where
  "dir_Plan step cfg =
     (if dirc_Owner cfg \<noteq> [] \<and> dirc_Group cfg = []
      then Inl (PartialOwnershipError ''owner'' ''group'' (field_value step ''owner''))
      else if dirc_Group cfg \<noteq> [] \<and> dirc_Owner cfg = []
      then Inl (PartialOwnershipError ''group'' ''owner'' (field_value step ''group''))
      else Inr \<lparr>dst_desc = dc_Desc cfg, dst_kind = ''dir'', dst_path = dirc_Path cfg, dst_step = step,
                dst_cfg = cfg\<rparr>)"

definition dir_Requires :: "dirStep \<Rightarrow> Resource list" where
  "dir_Requires a =
     (if dirc_Owner (dst_cfg a) \<noteq> [] then [UserResource (dirc_Owner (dst_cfg a))] else [])
     @ (if dirc_Group (dst_cfg a) \<noteq> [] then [GroupResource (dirc_Group (dst_cfg a))] else [])"

definition dir_Provides :: "dirStep \<Rightarrow> Resource list" where
  "dir_Provides a = [PathResource (dst_path a)]"

section \<open>ensureDirOp\<close>

record ensureDirOp =
  ed_path :: string
  ed_pathSpan :: Span

definition describeNonDir :: "FileInfo \<Rightarrow> string" where
  "describeNonDir info =
     (if fi_Mode info AND ModeSymlink \<noteq> 0 then ''symlink''
      else if IsRegular (fi_Mode info) then ''regular file''
      else FileMode_String (fi_Mode info))"

definition ed_Check :: "'s Target \<Rightarrow> ensureDirOp \<Rightarrow> 's \<Rightarrow> check_answer" where
  "ed_Check tgt op s =
     (case tg_Stat tgt s (ed_path op) of
        Inl e \<Rightarrow>
          (if IsNotExist e then unsatisfied (drift1 ''state'' [] ''directory'')
           else check_failed e)
      | Inr info \<Rightarrow>
          (if \<not> fi_IsDir info then unsatisfied (drift1 ''state'' (describeNonDir info) ''directory'')
           else satisfied))"

definition ed_mkdir :: "'s Target \<Rightarrow> ensureDirOp \<Rightarrow> 's \<Rightarrow> 's \<times> exec_answer" where
  "ed_mkdir tgt op s =
     (case tg_Mkdir tgt s (ed_path op) 493 of
        (s', Some e) \<Rightarrow>
          (s', exec_failed (if IsPermission e then PermissionDeniedError (''mkdir '' @ ed_path op) (ed_pathSpan op) e
                            else DiagnoseTargetError e))
      | (s', None) \<Rightarrow> (s', did True))"

definition ed_Execute :: "'s Target \<Rightarrow> ensureDirOp \<Rightarrow> 's \<Rightarrow> 's \<times> exec_answer" where
  "ed_Execute tgt op s =
     (case tg_Stat tgt s (ed_path op) of
        Inr info \<Rightarrow>
          (if fi_IsDir info then (s, did False)
           else
             (case tg_Remove tgt s (ed_path op) of
                (s', Some e) \<Rightarrow>
                  (s', exec_failed (if IsPermission e
                         then PermissionDeniedError (''remove '' @ ed_path op) (ed_pathSpan op) e
                         else DiagnoseTargetError e))
              | (s', None) \<Rightarrow> ed_mkdir tgt op s'))
      | Inl e \<Rightarrow> (if \<not> IsNotExist e then (s, exec_failed e) else ed_mkdir tgt op s))"

section \<open>The ops of the step\<close>

text \<open>
  Ops() allocates the ops; \<open>p\<close> is the pointer of the first, the others follow. Parsing the
  permission cannot fail here as far as the code cares: its error is dropped, and the mode
  is then the zero mode the parser returns with it.
\<close>

definition dir_ensureDir :: "dirStep \<Rightarrow> ensureDirOp" where
  "dir_ensureDir a = \<lparr>ed_path = dst_path a, ed_pathSpan = field_value (dst_step a) ''path''\<rparr>"

definition dir_mode :: "dirStep \<Rightarrow> FileMode" where
  "dir_mode a =
     (case ParsePerm (dirc_Perm (dst_cfg a)) (field_value (dst_step a) ''perm'') of Inr m \<Rightarrow> m | Inl _ \<Rightarrow> 0)"

definition dir_chmod :: "dirStep \<Rightarrow> EnsureModeOp" where
  "dir_chmod a = \<lparr>em_Path = dst_path a, em_Mode = dir_mode a, em_Recursive = False,
     em_DestSpan = field_value (dst_step a) ''path''\<rparr>"

definition dir_chown :: "dirStep \<Rightarrow> EnsureOwnerOp" where
  "dir_chown a = \<lparr>eo_Path = dst_path a, eo_Owner = dirc_Owner (dst_cfg a), eo_Group = dirc_Group (dst_cfg a),
     eo_Recursive = False, eo_DestSpan = field_value (dst_step a) ''path'',
     eo_OwnerSpan = field_value (dst_step a) ''owner'', eo_GroupSpan = field_value (dst_step a) ''group''\<rparr>"

definition dir_Ops :: "'s Target \<Rightarrow> nat \<Rightarrow> dirStep \<Rightarrow> 's step_code" where
  "dir_Ops tgt p a =
     [(mk_op p ''dir'' [] Filesystem, op_impl (ed_Check tgt (dir_ensureDir a)) (ed_Execute tgt (dir_ensureDir a)))]
     @ (if dirc_Perm (dst_cfg a) \<noteq> []
        then [(mk_op (p + 1) ''ensure_mode'' [p] em_RequiredCapabilities, em_impl tgt (dir_chmod a))] else [])
     @ (if dirc_Owner (dst_cfg a) \<noteq> [] \<and> dirc_Group (dst_cfg a) \<noteq> []
        then [(mk_op (p + 2) ''ensure_owner'' [p] eo_RequiredCapabilities, eo_impl tgt (dir_chown a))] else [])"

text \<open>What the engine is handed.\<close>

definition dir_Step :: "'s Target \<Rightarrow> nat \<Rightarrow> dirStep \<Rightarrow> Step" where
  "dir_Step tgt p a = \<lparr>step_kind = dst_kind a, step_desc = dst_desc a, step_ops = map fst (dir_Ops tgt p a),
     step_provides = Some (dir_Provides a), step_requires = Some (dir_Requires a),
     step_id = Some (ds_ID (dst_step a))\<rparr>"

section \<open>The contract of the step\<close>

text \<open>All three ops, of which a step has the first and those its config asks for.\<close>

definition dir_full :: "'s Target \<Rightarrow> dirStep \<Rightarrow> nat \<Rightarrow> 's OpImpl" where
  "dir_full tgt a i =
     (if i = 0 then op_impl (ed_Check tgt (dir_ensureDir a)) (ed_Execute tgt (dir_ensureDir a))
      else if i = 1 then em_impl tgt (dir_chmod a) else eo_impl tgt (dir_chown a))"

definition dir_roles :: "dirStep \<Rightarrow> nat list" where
  "dir_roles a = [0] @ (if dirc_Perm (dst_cfg a) \<noteq> [] then [1] else [])
     @ (if dirc_Owner (dst_cfg a) \<noteq> [] \<and> dirc_Group (dst_cfg a) \<noteq> [] then [2] else [])"

lemma dir_Ops_roles:
  "length (dir_Ops tgt p a) = length (dir_roles a)"
  "i < length (dir_Ops tgt p a) \<Longrightarrow> code_impl (dir_Ops tgt p a) i = dir_full tgt a (dir_roles a ! i)"
  by (auto simp: dir_Ops_def dir_roles_def dir_full_def code_impl_def less_Suc_eq nth_append)

text \<open>The path is nothing or a directory, and one whose owner can be read.\<close>

definition dir_start :: "'s Target \<Rightarrow> (string \<Rightarrow> bool) \<Rightarrow> dirStep \<Rightarrow> 's \<Rightarrow> bool" where
  "dir_start tgt plain a s \<longleftrightarrow> plain (dst_path a) \<and> entry tgt s (dst_path a) \<noteq> Some False
     \<and> (entry tgt s (dst_path a) = Some True \<longrightarrow> owned tgt s (dst_path a))"

lemma ed_satisfied:
  "op_satisfied (op_impl (ed_Check tgt op) x) s \<longleftrightarrow> entry tgt s (ed_path op) = Some True"
  by (auto simp: ed_Check_def entry_def answers_def split: sum.splits)

lemma ed_Execute_mkdirs:
  assumes "ed_Execute tgt op s = (s', Inr (res, e))" and "entry tgt s (ed_path op) \<noteq> Some False"
  shows "s' = s \<and> (e = None \<longrightarrow> entry tgt s (ed_path op) = Some True)
     \<or> entry tgt s (ed_path op) = None
        \<and> (\<exists>e'. tg_Mkdir tgt s (ed_path op) 493 = (s', e') \<and> (e = None \<longleftrightarrow> e' = None))"
  using assms by (auto simp: ed_Execute_def ed_mkdir_def exec_failed_def did_def entry_def
      split: sum.splits if_splits prod.splits option.splits)

lemma ed_Execute_no_panic: "ed_Execute tgt op s \<noteq> (s', Inl m)"
  by (auto simp: ed_Execute_def ed_mkdir_def exec_failed_def did_def
      split: sum.splits if_splits prod.splits option.splits)

lemma read_only_checks:
  "impl_Check (dir_full tgt a i) s = Some (s', ans) \<Longrightarrow> s' = s"
  by (auto simp: dir_full_def split: if_splits)

lemma checks_return: "impl_Check (dir_full tgt a i) s \<noteq> None"
  using em_Check_returns [of "dir_chmod a" tgt s] eo_Check_returns [of "dir_chown a" tgt s]
  by (simp add: dir_full_def dir_chmod_def dir_chown_def del: not_None_eq)

lemma dir_full_satisfied:
  "op_satisfied (dir_full tgt a i) s \<longleftrightarrow>
    (if i = 0 then entry tgt s (dst_path a) = Some True
     else if i = 1 then \<exists>info. tg_Stat tgt s (dst_path a) = Inr info \<and> Perm (fi_Mode info) = Perm (dir_mode a)
     else tg_HasUser tgt s (dirc_Owner (dst_cfg a)) \<and> tg_HasGroup tgt s (dirc_Group (dst_cfg a))
       \<and> tg_GetOwner tgt s (dst_path a) = Inr (eo_desired (dir_chown a)))"
  using ed_satisfied [of tgt "dir_ensureDir a" _ s]
    em_satisfied [of "dir_chmod a" tgt s]
    eo_satisfied [of "dir_chown a" tgt s]
  by (simp add: dir_full_def dir_ensureDir_def dir_chmod_def dir_chown_def)


lemma dir_check_clean:
  "impl_Check (dir_full tgt a i) s = Some (s', CheckSatisfied, d, e) \<Longrightarrow> e = None"
  using checks_clean(1) [of tgt "dir_chmod a" s d e] checks_clean(2) [of tgt "dir_chown a" s d e]
  by (auto simp: dir_full_def ed_Check_def answers_def dir_chmod_def dir_chown_def
      split: if_splits sum.splits)

text \<open>The dir op only writes where nothing is, and then no other op was satisfied.\<close>

lemma dir_exec_keeps:
  assumes files: "posix_files tgt plain" and i: "i < 3" and start: "dir_start tgt plain a s"
    and x: "impl_Execute (dir_full tgt a i) s = (s', Inr (res, e))"
  shows "dir_start tgt plain a s'
    \<and> (\<forall>k < 3. k \<noteq> i \<longrightarrow> op_satisfied (dir_full tgt a k) s \<longrightarrow> op_satisfied (dir_full tgt a k) s')"
    and "e = None \<Longrightarrow> op_satisfied (dir_full tgt a i) s'"
proof -
  note sat = dir_full_satisfied
  have plain: "plain (dst_path a)" using start by (simp add: dir_start_def)
  consider "i = 0" | "i = 1" | "i = 2" using i by linarith
  then have "(dir_start tgt plain a s'
    \<and> (\<forall>k < 3. k \<noteq> i \<longrightarrow> op_satisfied (dir_full tgt a k) s \<longrightarrow> op_satisfied (dir_full tgt a k) s'))
    \<and> (e = None \<longrightarrow> op_satisfied (dir_full tgt a i) s')"
  proof cases
    case 1
    then have x': "ed_Execute tgt (dir_ensureDir a) s = (s', Inr (res, e))" using x by (simp add: dir_full_def)
    have nf: "entry tgt s (ed_path (dir_ensureDir a)) \<noteq> Some False"
      using start by (simp add: dir_start_def dir_ensureDir_def)
    from ed_Execute_mkdirs [OF x' nf] consider
        "s' = s" "e = None \<longrightarrow> entry tgt s (dst_path a) = Some True"
      | e' where "entry tgt s (dst_path a) = None" "tg_Mkdir tgt s (dst_path a) 493 = (s', e')"
          "e = None \<longleftrightarrow> e' = None" by (auto simp: dir_ensureDir_def)
    then show ?thesis
    proof cases
      case 1
      with start \<open>i = 0\<close> show ?thesis by (simp add: sat)
    next
      case (2 e')
      note k = posix_files.mkdir_keeps [OF files plain 2(1,2)]
      have st: "dir_start tgt plain a s'" using k plain by (simp add: dir_start_def)
      have "\<not> owned tgt s (dst_path a)" using posix_files.owned_exists [OF files plain] 2(1) by blast
      then have none: "\<not> op_satisfied (dir_full tgt a k) s" if "k \<noteq> 0" for k
        using that 2(1) by (auto simp: sat entry_def owned_def split: sum.splits)
      have "e' = None \<Longrightarrow> entry tgt s' (dst_path a) = Some True"
        using posix_files.mkdir_done [OF files plain 2(1)] 2(2) by blast
      then show ?thesis using st none \<open>i = 0\<close> 2(3) by (auto simp: sat)
    qed
  next
    case 2
    then have "em_Execute tgt (dir_chmod a) s = (s', Inr (res, e))" using x by (simp add: dir_full_def)
    from posix_files.em_Execute_chmods [OF files this] consider "s' = s" "e \<noteq> None"
      | e' where "tg_Chmod tgt s (dst_path a) (dir_mode a) = (s', e')" "e = None \<longleftrightarrow> e' = None"
      by (auto simp: dir_chmod_def)
    then show ?thesis
    proof cases
      case 1
      with start show ?thesis by auto
    next
      case (2 e')
      note k = posix_files.chmod_keeps [OF files plain 2(1)]
      have st: "dir_start tgt plain a s'" using k start by (simp add: dir_start_def owned_def)
      have "op_satisfied (dir_full tgt a k) s'" if "op_satisfied (dir_full tgt a k) s" "k \<noteq> 1" for k
        using that k by (auto simp: sat same_accounts_def split: if_splits)
      moreover have "e = None \<Longrightarrow> op_satisfied (dir_full tgt a 1) s'"
        using posix_files.chmod_done [OF files plain] 2 by (simp add: sat)
      ultimately show ?thesis using st \<open>i = 1\<close> by blast
    qed
  next
    case 3
    then have "eo_Execute tgt (dir_chown a) s = (s', Inr (res, e))" using x by (simp add: dir_full_def)
    from posix_files.eo_Execute_chowns [OF files this] consider "s' = s" "e \<noteq> None"
      | e' where "tg_Chown tgt s (dst_path a) (eo_desired (dir_chown a)) = (s', e')" "e = None \<longleftrightarrow> e' = None"
      by (auto simp: dir_chown_def)
    then show ?thesis
    proof cases
      case 1
      with start show ?thesis by auto
    next
      case (2 e')
      note k = posix_files.chown_keeps [OF files plain 2(1)]
      then have en: "entry tgt s' (dst_path a) = entry tgt s (dst_path a)" by (simp add: entry_def)
      have st: "dir_start tgt plain a s'" using k en start by (simp add: dir_start_def)
      have "op_satisfied (dir_full tgt a k) s'" if "op_satisfied (dir_full tgt a k) s" "k < 3" "k \<noteq> 2" for k
        using that k en by (auto simp: sat split: if_splits)
      moreover have "e = None \<Longrightarrow> op_satisfied (dir_full tgt a 2) s'"
        using posix_files.chown_done [OF files plain, of s "eo_desired (dir_chown a)" s'] 2
        by (simp add: sat) (simp add: eo_desired_def dir_chown_def)
      ultimately show ?thesis using st \<open>i = 2\<close> by blast
    qed
  qed
  then show "dir_start tgt plain a s'
    \<and> (\<forall>k < 3. k \<noteq> i \<longrightarrow> op_satisfied (dir_full tgt a k) s \<longrightarrow> op_satisfied (dir_full tgt a k) s')"
    and "e = None \<Longrightarrow> op_satisfied (dir_full tgt a i) s'" by blast+
qed


lemma dir_contract:
  assumes files: "posix_files tgt plain"
  shows "step_contract 3 (\<lambda>i. if i = 0 then [] else [0]) (dir_full tgt a) (dir_start tgt plain a)"
proof (rule step_contract.intro)
  fix i :: nat and s s' ans assume i: "i < 3" "dir_start tgt plain a s"
  show "impl_Check (dir_full tgt a i) s \<noteq> None" by (rule checks_return)
  assume c: "impl_Check (dir_full tgt a i) s = Some (s', ans)"
  have "fst ans = CheckSatisfied \<longrightarrow> op_satisfied (dir_full tgt a i) s"
    using c dir_check_clean [of tgt a i s s'] by (cases ans) (auto simp: op_satisfied_iff)
  with read_only_checks [OF c] i
  show "dir_start tgt plain a s' \<and> (fst ans = CheckSatisfied \<longrightarrow> op_satisfied (dir_full tgt a i) s')
      \<and> (\<forall>k < 3. op_satisfied (dir_full tgt a k) s \<longrightarrow> op_satisfied (dir_full tgt a k) s')"
    by simp
next
  fix i :: nat and s s' res e assume "i < 3" "dir_start tgt plain a s" "impl_Execute (dir_full tgt a i) s = (s', Inr (res, e))"
  from dir_exec_keeps(1) [OF files this]
  show "dir_start tgt plain a s'
    \<and> (\<forall>k < 3. k \<noteq> i \<longrightarrow> op_satisfied (dir_full tgt a k) s \<longrightarrow> op_satisfied (dir_full tgt a k) s')" .
next
  fix i :: nat and s s' res assume "i < 3" "dir_start tgt plain a s" "impl_Execute (dir_full tgt a i) s = (s', Inr (res, None))"
  from dir_exec_keeps(2) [OF files this] show "op_satisfied (dir_full tgt a i) s'" by simp
next
  fix i :: nat and s s' p assume i: "i < 3" "dir_start tgt plain a s"
    and deps: "\<forall>d \<in> set (if i = 0 then [] else [0]). op_satisfied (dir_full tgt a d) s"
    and x: "impl_Execute (dir_full tgt a i) s = (s', Inl p)"
  show False
  proof (cases "i = 0")
    case True
    then show ?thesis using x ed_Execute_no_panic by (metis dir_full_def op_impl_simps(2))
  next
    case False
    then have "entry tgt s (dst_path a) = Some True" "owned tgt s (dst_path a)"
      using deps i(2) by (auto simp: dir_full_satisfied dir_start_def)
    then show ?thesis
      using False x posix_files.em_Execute_panics [OF files, of "dir_chmod a"]
        posix_files.eo_Execute_panics [OF files, of "dir_chown a"]
      by (auto simp: dir_full_def dir_chmod_def dir_chown_def split: if_splits)
  qed
qed

text \<open>The step itself, through the roles of its ops.\<close>

definition dir_deps :: "dirStep \<Rightarrow> nat \<Rightarrow> nat list" where
  "dir_deps a i = (if i = 0 then [] else [0])"

lemma dir_roles_facts:
  "0 < length (dir_roles a)" "dir_roles a ! 0 = 0" "i < length (dir_roles a) \<Longrightarrow> dir_roles a ! i < 3"
  "distinct (dir_roles a)"
  by (auto simp: dir_roles_def nth_append less_Suc_eq split: if_splits)

lemma dir_step_contract:
  assumes "posix_files tgt plain"
  shows "step_contract (length (dir_Ops tgt p a)) (dir_deps a) (code_impl (dir_Ops tgt p a))
    (dir_start tgt plain a)"
proof (rule step_contract_sub [OF dir_contract [OF assms], where role = "\<lambda>i. dir_roles a ! i"])
  show "inj_on (\<lambda>i. dir_roles a ! i) {..<length (dir_Ops tgt p a)}"
    using dir_roles_facts(4) by (simp add: inj_on_nth dir_Ops_roles(1))
qed (use dir_roles_facts in \<open>auto simp: dir_Ops_roles dir_deps_def split: if_splits\<close>)


section \<open>On the in-memory target\<close>

lemma mem_dir_check_clean:
  assumes "impl_Check (dir_full (mem_target now iter) a i) s = Some (s', ans)"
  shows "snd (snd ans) = None"
proof -
  consider "i = 0" | "i = 1" | "i \<noteq> 0" "i \<noteq> 1" by blast
  then show ?thesis
  proof cases
    case 1
    with assms show ?thesis
      by (auto simp: dir_full_def ed_Check_def answers_def dest!: mem_Stat_error split: sum.splits if_splits)
  next
    case 2
    with assms show ?thesis
      by (auto simp: dir_full_def em_Check_def em_checkPath_def answers_def dir_chmod_def Let_def
          dest!: mem_Stat_error split: sum.splits if_splits)
  next
    case 3
    with assms show ?thesis
      by (auto simp: dir_full_def eo_Check_def eo_checkPath_def answers_def dir_chown_def Let_def
          mem_HasUser_def mem_HasGroup_def dest!: mem_GetOwner_error split: sum.splits if_splits)
  qed
qed

lemma mem_dir_exec_succeeds:
  assumes start: "dir_start (mem_target now iter) (\<lambda>p. p \<noteq> ''/'') a s"
    and deps: "i \<noteq> 0 \<longrightarrow> op_satisfied (dir_full (mem_target now iter) a 0) s"
    and x: "impl_Execute (dir_full (mem_target now iter) a i) s = (s', Inr (res, e))"
  shows "e = None"
proof -
  have owned: "i \<noteq> 0 \<Longrightarrow> mem_exists s (dst_path a)"
    using start deps dir_full_satisfied [of "mem_target now iter" a 0 s]
    by (auto simp: dir_start_def mem_owned)
  consider "i = 0" | "i = 1" | "i \<noteq> 0" "i \<noteq> 1" by blast
  then show ?thesis
  proof cases
    case 1
    with x have "ed_Execute (mem_target now iter) (dir_ensureDir a) s = (s', Inr (res, e))"
      by (simp add: dir_full_def)
    then show ?thesis
      using start mem_Stat_error [of s "dst_path a"]
      by (auto simp: dir_start_def dir_ensureDir_def mem_Mkdir_def ed_Execute_def ed_mkdir_def did_def entry_def
          split: sum.splits if_splits)
  next
    case 2
    with x owned show ?thesis
      by (auto simp: dir_full_def em_Execute_def dir_chmod_def mem_Chmod_def did_def Let_def
          split: sum.splits if_splits dest!: mem_Stat_error)
  next
    case 3
    with x owned show ?thesis
      by (auto simp: dir_full_def eo_Execute_def dir_chown_def mem_Chown_def mem_GetOwner_def did_def Let_def
          split: sum.splits if_splits)
  qed
qed

lemma mem_dir_total:
  "total_contract 3 (\<lambda>i. if i = 0 then [] else [0]) (dir_full (mem_target now iter) a)
     (dir_start (mem_target now iter) (\<lambda>p. p \<noteq> ''/'') a)"
proof (rule total_contract.intro [OF dir_contract [OF mem.posix_files_axioms] total_contract_axioms.intro])
  fix i :: nat and s s' ans
  assume "impl_Check (dir_full (mem_target now iter) a i) s = Some (s', ans)"
  then show "snd (snd ans) = None" by (rule mem_dir_check_clean)
next
  fix i :: nat and s s' res e
  assume "dir_start (mem_target now iter) (\<lambda>p. p \<noteq> ''/'') a s"
    "\<forall>d \<in> set (if i = 0 then [] else [0]). op_satisfied (dir_full (mem_target now iter) a d) s"
    "impl_Execute (dir_full (mem_target now iter) a i) s = (s', Inr (res, e))"
  then show "e = None" using mem_dir_exec_succeeds [of now iter a s i] by (auto split: if_splits)
qed

interpretation mem_dir: total_contract "length (dir_Ops (mem_target now iter) p a)" "dir_deps a"
  "code_impl (dir_Ops (mem_target now iter) p a)"
  "dir_start (mem_target now iter) (\<lambda>p. p \<noteq> ''/'') a"
  for now iter p a
proof (rule total_contract_sub [OF mem_dir_total, where role = "\<lambda>i. dir_roles a ! i"])
  show "inj_on (\<lambda>i. dir_roles a ! i) {..<length (dir_Ops (mem_target now iter) p a)}"
    using dir_roles_facts(4) by (simp add: inj_on_nth dir_Ops_roles(1))
qed (use dir_roles_facts in \<open>auto simp: dir_Ops_roles dir_deps_def split: if_splits\<close>)

text \<open>The path is not the root, holds no file, and is no directory that only exists through its files.\<close>

definition mem_dir_start :: "MemTarget \<Rightarrow> string \<Rightarrow> bool" where
  "mem_dir_start m p \<longleftrightarrow> p \<noteq> ''/'' \<and> \<not> map_has (m_Files m) p \<and> (isImplicitDir m p \<longrightarrow> map_has (m_Dirs m) p)"

lemma mem_dir_start: "mem_dir_start m (dst_path a) \<Longrightarrow> dir_start (mem_target now iter) (\<lambda>p. p \<noteq> ''/'') a m"
  by (auto simp: mem_dir_start_def dir_start_def mem_Stat_entry mem_owned mem_exists_def)

text \<open>The ops of a dir step plan without a panic, with the dependencies of the contract.\<close>

lemma dir_ops_ids:
  "distinct (map op_id (map fst (dir_Ops tgt p a)))"
  "i < length (dir_Ops tgt p a) \<Longrightarrow>
     op_deps (map fst (dir_Ops tgt p a) ! i) = map (\<lambda>d. op_id (map fst (dir_Ops tgt p a) ! d)) (dir_deps a i)"
  by (auto simp: dir_Ops_def mk_op_def dir_deps_def less_Suc_eq nth_append split: if_splits)

lemma dir_plan:
  assumes "buildPlan (map fst (dir_Ops tgt p a)) = Inr ns"
  shows "plan_ok (map fst (dir_Ops tgt p a)) ns" "length ns = length (dir_Ops tgt p a)"
    "\<forall>i < length (dir_Ops tgt p a). n_deps (ns ! i) = dir_deps a i
       \<and> set (dir_deps a i) \<subseteq> {..<length (dir_Ops tgt p a)}"
proof -
  show plan: "plan_ok (map fst (dir_Ops tgt p a)) ns"
    using buildPlan_spec [of "map fst (dir_Ops tgt p a)"] assms by simp
  then show len: "length ns = length (dir_Ops tgt p a)" by (auto dest: plan_fresh(4))
  have sub: "set (dir_deps a i) \<subseteq> {..<length (dir_Ops tgt p a)}" for i
    using dir_roles_facts(1) [of a] by (auto simp: dir_deps_def dir_Ops_roles(1))
  show "\<forall>i < length (dir_Ops tgt p a). n_deps (ns ! i) = dir_deps a i
       \<and> set (dir_deps a i) \<subseteq> {..<length (dir_Ops tgt p a)}"
    using plan_deps [OF plan dir_ops_ids(1) _ dir_ops_ids(2)] sub len by auto
qed

section \<open>Properties\<close>

text \<open>What the config of the step asks for.\<close>

definition dir_done :: "'s Target \<Rightarrow> dirStep \<Rightarrow> 's \<Rightarrow> bool" where
  "dir_done tgt a s \<longleftrightarrow>
     (\<exists>info. tg_Stat tgt s (dst_path a) = Inr info \<and> fi_IsDir info
        \<and> (dirc_Perm (dst_cfg a) \<noteq> [] \<longrightarrow> Perm (fi_Mode info) = Perm (dir_mode a)))
     \<and> (dirc_Owner (dst_cfg a) \<noteq> [] \<and> dirc_Group (dst_cfg a) \<noteq> [] \<longrightarrow>
          tg_GetOwner tgt s (dst_path a)
            = Inr \<lparr>ow_User = dirc_Owner (dst_cfg a), ow_Group = dirc_Group (dst_cfg a)\<rparr>)"

lemma dir_satisfied_done:
  assumes "posix_files tgt plain"
    and sat: "\<forall>i < length (dir_Ops tgt p a). op_satisfied (code_impl (dir_Ops tgt p a) i) s"
  shows "dir_done tgt a s"
proof -
  note f = dir_full_satisfied
  have role: "op_satisfied (dir_full tgt a k) s" if k: "k \<in> set (dir_roles a)" for k
  proof -
    from k obtain i where "i < length (dir_roles a)" "k = dir_roles a ! i" by (auto simp: in_set_conv_nth)
    with sat dir_Ops_roles [where tgt = tgt and p = p and a = a] show ?thesis by auto
  qed
  have "op_satisfied (dir_full tgt a 0) s" by (rule role) (simp add: dir_roles_def)
  moreover have "dirc_Perm (dst_cfg a) \<noteq> [] \<Longrightarrow> op_satisfied (dir_full tgt a 1) s"
    by (rule role) (simp add: dir_roles_def)
  moreover have "dirc_Owner (dst_cfg a) \<noteq> [] \<Longrightarrow> dirc_Group (dst_cfg a) \<noteq> [] \<Longrightarrow> op_satisfied (dir_full tgt a 2) s"
    by (rule role) (simp add: dir_roles_def)
  ultimately show ?thesis
    by (auto simp: f dir_done_def entry_def eo_desired_def dir_chown_def split: sum.splits)
qed

text \<open>C23: on any target that obeys the laws of a file system, however the ops of a dir step are
  scheduled, once all have returned and none failed the path is a directory with the mode and the owner the
  config asks for - provided the path was nothing or a directory before.\<close>

theorem dir_step_converges:
  assumes "posix_files tgt plain" and "dir_start tgt plain a s0"
    and "buildPlan (step_ops (dir_Step tgt p a)) = Inr ns"
    and "step_reaches sc (code_impl (dir_Ops tgt p a)) ns s0 ns' r s"
    and "op_wait_done r" and "r_grp_err r = None"
  shows "dir_done tgt a s"
proof -
  have b: "buildPlan (map fst (dir_Ops tgt p a)) = Inr ns" using assms(3) by (simp add: dir_Step_def)
  note plan = dir_plan [OF b]
  from step_contract.run_converges [OF dir_step_contract [OF assms(1)] assms(4) plan(1,2) assms(2,5,6)]
  show ?thesis using dir_satisfied_done [OF assms(1)] by blast
qed

text \<open>No op of a dir step runs into the panics its code has for a path that does not exist: whenever an op
  has been started, on a target that obeys the laws, calling its Execute returns.\<close>

theorem dir_step_never_panics:
  assumes "posix_files tgt plain" and "dir_start tgt plain a s0"
    and "buildPlan (step_ops (dir_Step tgt p a)) = Inr ns"
    and "step_reaches sc (code_impl (dir_Ops tgt p a)) ns s0 ns' r s"
  shows "list_all (\<lambda>i. \<exists>s' res e. impl_Execute (code_impl (dir_Ops tgt p a) i) s = (s', Inr (res, e))) (r_launched r)"
proof -
  have b: "buildPlan (map fst (dir_Ops tgt p a)) = Inr ns" using assms(3) by (simp add: dir_Step_def)
  note plan = dir_plan [OF b]
  show ?thesis
    unfolding list_all_iff
    using step_contract.reaches_no_panic [OF dir_step_contract [OF assms(1)] assms(4) plan(1,2) assms(2) plan(3)]
    by (intro ballI)
qed

lemma dir_code_read_only:
  assumes "i < length (dir_Ops tgt p a)" and "impl_Check (code_impl (dir_Ops tgt p a) i) s = Some (s', ans)"
  shows "s' = s"
  using read_only_checks [of tgt a "dir_roles a ! i" s s' ans] assms dir_Ops_roles(2) [OF assms(1)] by simp

text \<open>On the in-memory target a dir step can be run to its end, every run that has ended is free of errors and
  has converged, and running the step again starts no op and changes nothing.\<close>

theorem mem_dir_step_idempotent:
  assumes "mem_dir_start m (dst_path a)"
    and "buildPlan (step_ops (dir_Step (mem_target now iter) p a)) = Inr ns"
  shows "(\<exists>ns' r m'. step_reaches sc (code_impl (dir_Ops (mem_target now iter) p a)) ns m ns' r m' \<and> op_wait_done r)
    \<and> (\<forall>ns' r m'. step_reaches sc (code_impl (dir_Ops (mem_target now iter) p a)) ns m ns' r m' \<and> op_wait_done r \<longrightarrow>
        r_grp_err r = None \<and> dir_done (mem_target now iter) a m'
        \<and> (\<forall>ns2 r2 m2. step_reaches sc (code_impl (dir_Ops (mem_target now iter) p a)) ns m' ns2 r2 m2
             \<longrightarrow> r_launched r2 = [] \<and> m2 = m'))"
proof -
  have b: "buildPlan (map fst (dir_Ops (mem_target now iter) p a)) = Inr ns" using assms(2) by (simp add: dir_Step_def)
  note plan = dir_plan [OF b]
  note I = mem_dir_start [OF assms(1), of now iter]
  note ends = mem_dir.step_completes [OF plan(1,2) I plan(3)]
  have "r_grp_err r = None \<and> dir_done (mem_target now iter) a m'
        \<and> (\<forall>ns2 r2 m2. step_reaches sc (code_impl (dir_Ops (mem_target now iter) p a)) ns m' ns2 r2 m2
             \<longrightarrow> r_launched r2 = [] \<and> m2 = m')"
    if reach: "step_reaches sc (code_impl (dir_Ops (mem_target now iter) p a)) ns m ns' r m'" "op_wait_done r" for ns' r m'
  proof -
    note e = ends(2) [OF reach]
    then have "dir_done (mem_target now iter) a m'" using dir_satisfied_done [OF mem.posix_files_axioms] by blast
    moreover have "r_launched r2 = [] \<and> m2 = m'"
      if "step_reaches sc (code_impl (dir_Ops (mem_target now iter) p a)) ns m' ns2 r2 m2" for ns2 r2 m2
    proof (rule mem_dir.satisfied_run_idle [OF that plan(1,2)])
      show "dir_start (mem_target now iter) (\<lambda>p. p \<noteq> ''/'') a m'" using e by (rule conjunct1 [OF conjunct2])
      show "\<forall>i < length (dir_Ops (mem_target now iter) p a).
          op_satisfied (code_impl (dir_Ops (mem_target now iter) p a) i) m'"
        using e by (rule conjunct2 [OF conjunct2])
    qed (rule dir_code_read_only)
    ultimately show ?thesis using e by blast
  qed
  with ends(1) show ?thesis by blast
qed

text \<open>A step for the witnesses: /srv with mode 0750, owned by app.\<close>

definition srv_step :: dirStep where
  "srv_step = \<lparr>dst_desc = ''srv'', dst_kind = ''dir'', dst_path = ''/srv'',
     dst_step = \<lparr>ds_ID = 1, ds_Desc = [], ds_Kind = ''dir'', ds_ProvidesFor = None, ds_Resources = None,
       ds_OnChange = [], ds_Span = zero_span, ds_Fields = Map.empty\<rparr>,
     dst_cfg = \<lparr>dc_Desc = ''srv'', dirc_Path = ''/srv'', dirc_Perm = ''0750'', dirc_Owner = ''app'',
       dirc_Group = ''app'', dirc_Provides = [], dirc_Requires = []\<rparr>\<rparr>"

definition mem0 :: "MemTarget Target" where
  "mem0 = mem_target (\<lambda>_. 0) (\<lambda>xs. xs)"

lemma srv_ops_ok: "ops_ok (step_ops (dir_Step tgt p srv_step))"
proof -
  have "acyclic (dep_edges (step_ops (dir_Step tgt p srv_step)))"
  proof (rule acyclic_subset)
    show "dep_edges (step_ops (dir_Step tgt p srv_step)) \<subseteq> {(x, y). x < y}"
      by (auto simp: dep_edges_def dir_Step_def dir_Ops_def mk_op_def srv_step_def)
    show "acyclic {(x, y). x < (y :: nat)}" using wf_less by (simp add: wf_acyclic)
  qed
  then show ?thesis by (auto simp: ops_ok_def dir_Step_def dir_Ops_def mk_op_def srv_step_def)
qed

lemma srv_plan: "\<exists>ns. buildPlan (step_ops (dir_Step tgt p srv_step)) = Inr ns"
  using buildPlan_spec [of "step_ops (dir_Step tgt p srv_step)"] srv_ops_ok by (auto split: sum.splits)

lemma srv_start: "mem_dir_start NewMemTarget ''/srv''"
  by (simp add: mem_dir_start_def NewMemTarget_def map_has_def isImplicitDir_def)

lemma mem_dir_step_idempotent_witness:
  "\<exists>ns ns' r m'. buildPlan (step_ops (dir_Step mem0 7 srv_step)) = Inr ns
     \<and> step_reaches apply_sched (code_impl (dir_Ops mem0 7 srv_step)) ns NewMemTarget ns' r m'
     \<and> op_wait_done r \<and> r_grp_err r = None \<and> dir_done mem0 srv_step m'"
proof -
  obtain ns where ns: "buildPlan (step_ops (dir_Step mem0 7 srv_step)) = Inr ns" using srv_plan by blast
  have start: "mem_dir_start NewMemTarget (dst_path srv_step)" using srv_start by (simp add: srv_step_def)
  note t = mem_dir_step_idempotent [OF start, of "\<lambda>_. 0" "\<lambda>xs. xs" 7 ns apply_sched, folded mem0_def, OF ns]
  from conjunct1 [OF t] obtain ns' r m' where
    r: "step_reaches apply_sched (code_impl (dir_Ops mem0 7 srv_step)) ns NewMemTarget ns' r m'" "op_wait_done r"
    by (elim exE conjE)
  from conjunct2 [OF t, rule_format, OF conjI [OF r]] have "r_grp_err r = None" "dir_done mem0 srv_step m'"
    by simp_all
  with ns r show ?thesis by (intro exI conjI)
qed

lemma mem0_files: "posix_files mem0 (\<lambda>p. p \<noteq> ''/'')"
  unfolding mem0_def by (rule mem.posix_files_axioms)

lemma srv_dir_start: "dir_start mem0 (\<lambda>p. p \<noteq> ''/'') srv_step NewMemTarget"
  using mem_dir_start [of NewMemTarget srv_step] srv_start by (simp add: mem0_def srv_step_def)

lemma srv_completes:
  "\<exists>ns ns' r m'. buildPlan (step_ops (dir_Step mem0 7 srv_step)) = Inr ns
     \<and> step_reaches apply_sched (code_impl (dir_Ops mem0 7 srv_step)) ns NewMemTarget ns' r m'
     \<and> op_wait_done r \<and> r_grp_err r = None \<and> r_launched r \<noteq> []"
proof -
  obtain ns where ns: "buildPlan (step_ops (dir_Step mem0 7 srv_step)) = Inr ns" using srv_plan by blast
  then have "buildPlan (map fst (dir_Ops mem0 7 srv_step)) = Inr ns" by (simp add: dir_Step_def)
  note plan = dir_plan [OF this]
  note ends = mem_dir.step_completes [of _ ns "\<lambda>_. 0" "\<lambda>xs. xs" 7 srv_step, folded mem0_def,
      OF plan(1,2) srv_dir_start plan(3), of apply_sched]
  from ends(1) obtain ns' r m' where
    r: "step_reaches apply_sched (code_impl (dir_Ops mem0 7 srv_step)) ns NewMemTarget ns' r m'" "op_wait_done r" by blast
  note e = ends(2) [OF r]
  have "r_launched r \<noteq> []"
  proof
    assume "r_launched r = []"
    moreover have "s' = s" if "i \<in> {..<length ns}" "impl_Check (code_impl (dir_Ops mem0 7 srv_step) i) s = Some (s', ans)"
      for i s s' ans using dir_code_read_only that plan(2) by (metis lessThan_iff)
    ultimately have "m' = NewMemTarget" by (rule idle_reaches [OF r(1)])
    moreover have "dir_done mem0 srv_step m'" using dir_satisfied_done [OF mem0_files] e by blast
    ultimately have "dir_done mem0 srv_step NewMemTarget" by simp
    then show False
      by (auto simp: dir_done_def mem0_def srv_step_def NewMemTarget_def mem_Stat_def isImplicitDir_def)
  qed
  with r e ns show ?thesis by (intro exI conjI) (auto)
qed

lemma dir_step_converges_witness: "\<exists>m'. dir_done mem0 srv_step m'"
proof -
  obtain ns ns' r m' where "buildPlan (step_ops (dir_Step mem0 7 srv_step)) = Inr ns"
    "step_reaches apply_sched (code_impl (dir_Ops mem0 7 srv_step)) ns NewMemTarget ns' r m'"
    "op_wait_done r" "r_grp_err r = None" "r_launched r \<noteq> []" using srv_completes by (elim exE conjE)
  from dir_step_converges [OF mem0_files srv_dir_start this(1-4)] show ?thesis by (rule exI)
qed


lemma dir_step_never_panics_witness:
  "\<exists>ns ns' r m'. step_reaches apply_sched (code_impl (dir_Ops mem0 7 srv_step)) ns NewMemTarget ns' r m'
     \<and> r_launched r \<noteq> []
     \<and> list_all (\<lambda>i. \<exists>s' res e. impl_Execute (code_impl (dir_Ops mem0 7 srv_step) i) m' = (s', Inr (res, e))) (r_launched r)"
proof -
  obtain ns ns' r m' where c: "buildPlan (step_ops (dir_Step mem0 7 srv_step)) = Inr ns"
    "step_reaches apply_sched (code_impl (dir_Ops mem0 7 srv_step)) ns NewMemTarget ns' r m'"
    "op_wait_done r" "r_grp_err r = None" "r_launched r \<noteq> []" using srv_completes by (elim exE conjE)
  note dir_step_never_panics [OF mem0_files srv_dir_start c(1,2)]
  with c(2,5) show ?thesis by (intro exI conjI)
qed

text \<open>C24: when a dir step finds at its path a regular file, or anything else that is no directory, whose
  mode is already the one the step asks for (and whose owner is, if the step asks for one), a finished
  run on any target does nothing but remove it and make a directory with the fixed mode 0755: the other
  ops were found satisfied by the file and are not run on the directory that replaces it. The run is free
  of errors exactly when these two calls are, so it succeeds whatever mode the step asked for.\<close>

theorem dir_over_file_skips_mode:
  fixes tgt :: "'s Target"
  assumes "tg_Stat tgt m (dst_path a) = Inr info" and "\<not> fi_IsDir info"
    and "dirc_Perm (dst_cfg a) \<noteq> [] \<longrightarrow> Perm (fi_Mode info) = Perm (dir_mode a)"
    and "dirc_Owner (dst_cfg a) \<noteq> [] \<and> dirc_Group (dst_cfg a) \<noteq> [] \<longrightarrow>
        tg_HasUser tgt m (dirc_Owner (dst_cfg a)) \<and> tg_HasGroup tgt m (dirc_Group (dst_cfg a))
        \<and> tg_GetOwner tgt m (dst_path a) = Inr (eo_desired (dir_chown a))"
    and "buildPlan (step_ops (dir_Step tgt p a)) = Inr ns"
    and "step_reaches sc (code_impl (dir_Ops tgt p a)) ns m ns' r m'" and "op_wait_done r"
  shows "case tg_Remove tgt m (dst_path a) of
      (m1, Some e) \<Rightarrow> m' = m1 \<and> r_grp_err r \<noteq> None
    | (m1, None) \<Rightarrow> (case tg_Mkdir tgt m1 (dst_path a) 493 of
          (m2, e) \<Rightarrow> m' = m2 \<and> (r_grp_err r = None \<longleftrightarrow> e = None))"
proof -
  have b: "buildPlan (map fst (dir_Ops tgt p a)) = Inr ns" using assms(5) by (simp add: dir_Step_def)
  note plan = dir_plan [OF b]
  have impl: "code_impl (dir_Ops tgt p a) i = dir_full tgt a (dir_roles a ! i)" if "i < length ns" for i
    using dir_Ops_roles(2) that plan(2) by metis
  have len: "0 < length ns" "dir_roles a ! 0 = 0" using plan(2) by (simp_all add: dir_Ops_roles(1) dir_roles_def)
  have unsat: "\<not> op_satisfied (code_impl (dir_Ops tgt p a) 0) m"
    using assms(1,2) len by (simp add: impl dir_full_satisfied entry_def)
  have other: "op_satisfied (code_impl (dir_Ops tgt p a) i) m" if i: "i < length ns" "i \<noteq> 0" for i
  proof -
    have "i < length (dir_roles a)" using i(1) plan(2) by (simp add: dir_Ops_roles(1))
    then have "dir_roles a ! i = 1 \<and> dirc_Perm (dst_cfg a) \<noteq> []
        \<or> dir_roles a ! i = 2 \<and> dirc_Owner (dst_cfg a) \<noteq> [] \<and> dirc_Group (dst_cfg a) \<noteq> []"
      using i(2) by (auto simp: dir_roles_def less_Suc_eq split: if_splits)
    then show ?thesis unfolding impl [OF i(1)] dir_full_satisfied using assms(1,3,4) by auto
  qed
  have "\<exists>res e. impl_Execute (code_impl (dir_Ops tgt p a) 0) m = (m', Inr (res, e)) \<and> (r_grp_err r = None \<longleftrightarrow> e = None)"
  proof (rule single_op_reaches [OF assms(6) plan(1) assms(7) _ len(1) unsat other])
    show "s' = s" if "i \<in> {..<length ns}" "impl_Check (code_impl (dir_Ops tgt p a) i) s = Some (s', ans)" for i s s' ans
      using dir_code_read_only that plan(2) by (metis lessThan_iff)
    show "e = None" if "i < length ns" "impl_Check (code_impl (dir_Ops tgt p a) i) m = Some (m, CheckSatisfied, d, e)" for i d e
      using that dir_check_clean impl by metis
  qed
  then obtain res e where "ed_Execute tgt (dir_ensureDir a) m = (m', Inr (res, e))" "r_grp_err r = None \<longleftrightarrow> e = None"
    using len by (auto simp: impl dir_full_def)
  with assms(1,2) show ?thesis
    by (auto simp: ed_Execute_def ed_mkdir_def dir_ensureDir_def did_def exec_failed_def split: prod.splits option.splits)
qed

text \<open>The step that asks for mode 0750 only, and a target with a file of that mode at its path.\<close>

definition srv_mode_step :: dirStep where
  "srv_mode_step = srv_step\<lparr>dst_cfg := (dst_cfg srv_step)\<lparr>dirc_Owner := [], dirc_Group := []\<rparr>\<rparr>"

definition file_at_srv :: MemTarget where
  "file_at_srv = NewMemTarget\<lparr>m_Files := [(''/srv'', ''old'')], m_Modes := [(''/srv'', 488)]\<rparr>"

lemma srv_mode: "dir_mode srv_mode_step = 488"
proof -
  have "show_octal 488 = ''0750''" by (simp add: show_octal_def octal_digit_def)
  moreover have "(488 :: FileMode) \<le> ModePerm" by (simp add: ModePerm_def)
  ultimately have "tryOctal ''0750'' = Some 488" using tryOctal_show [of 488] by simp
  then show ?thesis by (simp add: dir_mode_def srv_mode_step_def srv_step_def ParsePerm_def)
qed

lemma srv_mode_code:
  "dir_Ops tgt 7 srv_mode_step =
     [(mk_op 7 ''dir'' [] Filesystem, dir_full tgt srv_mode_step 0),
      (mk_op 8 ''ensure_mode'' [7] em_RequiredCapabilities, dir_full tgt srv_mode_step 1)]"
  by (simp add: dir_Ops_def dir_full_def) (simp add: srv_mode_step_def srv_step_def)

lemma srv_mode_plan: "\<exists>ns. buildPlan (map fst (dir_Ops tgt 7 srv_mode_step)) = Inr ns"
proof -
  have "acyclic (dep_edges (map fst (dir_Ops tgt 7 srv_mode_step)))"
  proof (rule acyclic_subset)
    show "dep_edges (map fst (dir_Ops tgt 7 srv_mode_step)) \<subseteq> {(x, y). x < y}"
      by (auto simp: dep_edges_def srv_mode_code mk_op_def)
    show "acyclic {(x, y). x < (y :: nat)}" using wf_less by (simp add: wf_acyclic)
  qed
  then have "ops_ok (map fst (dir_Ops tgt 7 srv_mode_step))" by (auto simp: ops_ok_def srv_mode_code mk_op_def)
  then show ?thesis
    using buildPlan_spec [of "map fst (dir_Ops tgt 7 srv_mode_step)"] by (auto split: sum.splits)
qed

lemma dir_over_file_skips_mode_witness:
  "\<exists>ns ns' r m'. buildPlan (step_ops (dir_Step mem0 7 srv_mode_step)) = Inr ns
     \<and> step_reaches apply_sched (code_impl (dir_Ops mem0 7 srv_mode_step)) ns file_at_srv ns' r m'
     \<and> op_wait_done r \<and> r_grp_err r = None \<and> \<not> dir_done mem0 srv_mode_step m'"
proof -
  let ?a = srv_mode_step and ?m = file_at_srv
  obtain ns where b: "buildPlan (map fst (dir_Ops mem0 7 ?a)) = Inr ns" using srv_mode_plan by blast
  note plan = dir_plan [OF b]
  have path: "dst_path ?a = ''/srv''" by (simp add: srv_mode_step_def srv_step_def)
  have stat: "mem_Stat ?m ''/srv'' = Inr (fileInfo ?m ''/srv'' ''old'')"
    by (simp add: mem_Stat_def file_at_srv_def)
  have mode: "fi_Mode (fileInfo ?m ''/srv'' ''old'') = 488"
    by (simp add: fileInfo_def file_at_srv_def map_get_def)
  have len: "length ns = 2" using plan(2) by (simp add: srv_mode_code)
  note sat = dir_full_satisfied
  have impl: "code_impl (dir_Ops mem0 7 ?a) 0 = dir_full mem0 ?a 0" "code_impl (dir_Ops mem0 7 ?a) 1 = dir_full mem0 ?a 1"
    by (simp_all add: code_impl_def srv_mode_code)
  have stat0: "tg_Stat mem0 ?m ''/srv'' = Inr (fileInfo ?m ''/srv'' ''old'')" using stat by (simp add: mem0_def)
  have unsat: "\<not> op_satisfied (code_impl (dir_Ops mem0 7 ?a) 0) ?m"
    unfolding impl by (simp add: sat path entry_def stat0 fileInfo_def)
  have sat1: "op_satisfied (code_impl (dir_Ops mem0 7 ?a) 1) ?m"
    unfolding impl by (simp add: sat path stat0 mode srv_mode)
  obtain m' res e where x: "impl_Execute (code_impl (dir_Ops mem0 7 ?a) 0) ?m = (m', Inr (res, e))"
    unfolding impl using ed_Execute_no_panic
    by (metis (no_types, lifting) dir_full_def obj_sumE op_impl_simps(2) surj_pair)
  have checks: "\<exists>res d. impl_Check (code_impl (dir_Ops mem0 7 ?a) i) ?m = Some (?m, res, d, None)" if "i < length ns" for i
  proof -
    have "i < length (dir_Ops mem0 7 ?a)" using that plan(2) by simp
    from dir_Ops_roles(2) [OF this] obtain k where k: "code_impl (dir_Ops mem0 7 ?a) i = dir_full mem0 ?a k" by blast
    obtain s' ans where "impl_Check (dir_full mem0 ?a k) ?m = Some (s', ans)" using checks_return by fast
    with read_only_checks [OF this] mem_dir_check_clean [of "\<lambda>_. 0" "\<lambda>xs. xs" ?a k ?m, folded mem0_def] k
    show ?thesis by (cases ans) auto
  qed
  have "\<exists>ns' r. step_reaches apply_sched (code_impl (dir_Ops mem0 7 ?a)) ns ?m ns' r m' \<and> op_wait_done r
      \<and> (r_grp_err r = None \<longleftrightarrow> e = None)"
  proof (rule single_op_completes [where k = 0, OF plan(1)])
    show "impl_Execute (code_impl (dir_Ops mem0 7 ?a) 0) ?m = (m', Inr (res, e))" by (rule x)
    show "\<not> op_satisfied (code_impl (dir_Ops mem0 7 ?a) 0) ?m" by (rule unsat)
    show "\<exists>res d. impl_Check (code_impl (dir_Ops mem0 7 ?a) i) ?m = Some (?m, res, d, None)" if "i < length ns" for i
      using that by (rule checks)
    show "op_satisfied (code_impl (dir_Ops mem0 7 ?a) i) ?m" if "i < length ns" "i \<noteq> 0" for i
      using sat1 that len by (cases "i = 1") auto
  qed (simp_all add: len)
  then obtain ns' r where r: "step_reaches apply_sched (code_impl (dir_Ops mem0 7 ?a)) ns ?m ns' r m'" "op_wait_done r"
    by blast
  have b': "buildPlan (step_ops (dir_Step mem0 7 ?a)) = Inr ns" using b by (simp add: dir_Step_def)
  note replaced = dir_over_file_skips_mode [OF stat0 [folded path] _ _ _ b' r]
  have rm: "tg_Remove mem0 ?m ''/srv'' = (?m\<lparr>m_Files := [], m_Modes := []\<rparr>, None)"
    by (simp add: mem0_def mem_Remove_def file_at_srv_def map_has_def NewMemTarget_def)
  obtain e' where mk: "mem_Mkdir (?m\<lparr>m_Files := [], m_Modes := []\<rparr>) ''/srv'' 493 = (m', e')"
      "r_grp_err r = None \<longleftrightarrow> e' = None"
    using replaced rm mode srv_mode by (auto simp: path fileInfo_def mem0_def srv_mode_step_def srv_step_def split: prod.splits)
  then have g: "r_grp_err r = None" and st: "mem_Stat m' ''/srv'' = Inr (dirInfo ''/srv'' 493)"
    by (auto simp: mem_Mkdir_def mem_Stat_def file_at_srv_def NewMemTarget_def map_get_def)
  have "Perm (fi_Mode (dirInfo ''/srv'' 493)) \<noteq> Perm (dir_mode ?a)"
    by (simp add: dirInfo_def Perm_dir srv_mode) (simp add: Perm_def ModePerm_def)
  then have "\<not> dir_done mem0 ?a m'"
    using st by (auto simp: dir_done_def path mem0_def) (simp_all add: srv_mode_step_def srv_step_def)
  with b' r g show ?thesis by (intro exI conjI)
qed

end
