(* ===== verification/Accounts.thy ===== *)
theory Accounts
  imports File_Ops
begin

text \<open>
  The user and group steps (internal/step/user, internal/step/group): ensuring and removing
  accounts, with the ownership of a user's home directory.
\<close>

section \<open>Configuration and planning\<close>

datatype AccountState = StatePresent | StateAbsent

definition AccountState_String :: "AccountState \<Rightarrow> string" where
  "AccountState_String s = (case s of StatePresent \<Rightarrow> ''present'' | StateAbsent \<Rightarrow> ''absent'')"

definition parseAccountState :: "string \<Rightarrow> go_panic + AccountState" where
  "parseAccountState s =
     (if s = ''present'' then Inr StatePresent
      else if s = ''absent'' then Inr StateAbsent
      else Inl ''BUG: invalid state - should have been caught by Validate'')"

record UserConfig =
  uc_Desc :: string
  uc_Name :: string
  uc_State :: string
  uc_Shell :: string
  uc_Home :: string
  uc_System :: bool
  uc_Password :: string
  uc_Groups :: "string list option"

record userStep =
  us_desc :: string
  us_name :: string
  us_state :: AccountState
  us_shell :: string
  us_home :: string
  us_system :: bool
  us_pass :: string
  us_groups :: "string list option"
  us_step :: DeclaredStep

definition user_Plan :: "DeclaredStep \<Rightarrow> UserConfig \<Rightarrow> go_panic + userStep" where
  "user_Plan step cfg =
     (case parseAccountState (uc_State cfg) of
        Inl p \<Rightarrow> Inl p
      | Inr st \<Rightarrow> Inr \<lparr>us_desc = uc_Desc cfg, us_name = uc_Name cfg, us_state = st, us_shell = uc_Shell cfg,
          us_home = uc_Home cfg, us_system = uc_System cfg, us_pass = uc_Password cfg,
          us_groups = uc_Groups cfg, us_step = step\<rparr>)"

text \<open>The elements of a slice, nil or not.\<close>

definition elems :: "'a list option \<Rightarrow> 'a list" where
  "elems g = (case g of None \<Rightarrow> [] | Some xs \<Rightarrow> xs)"

definition user_Requires :: "userStep \<Rightarrow> Resource list" where
  "user_Requires a = map GroupResource (elems (us_groups a))"

definition user_Provides :: "userStep \<Rightarrow> Resource list" where
  "user_Provides a = (if us_state a = StatePresent then [UserResource (us_name a)] else [])"

section \<open>ensure_user_op.go\<close>

record ensureUserOp =
  eu_name :: string
  eu_shell :: string
  eu_home :: string
  eu_system :: bool
  eu_password :: string
  eu_groups :: "string list option"
  eu_nameSpan :: Span

definition UserCreateError :: "string \<Rightarrow> err \<Rightarrow> Span \<Rightarrow> err" where
  "UserCreateError n e span =
     step_diag ''step.user.CreateFailed'' ''failed to create user \"{{.Name}}\"''
       ''verify \"{{.Name}}\" is a valid username and no conflicting user/uid already exists'' ''{{.Err}}''
       [n] (Some span) None (Some e)"

definition UserModifyError :: "string \<Rightarrow> err \<Rightarrow> Span \<Rightarrow> err" where
  "UserModifyError n e span =
     step_diag ''step.user.ModifyFailed'' ''failed to modify user \"{{.Name}}\"''
       ''confirm user \"{{.Name}}\" exists on the target and the requested groups/shell/home are valid'' ''{{.Err}}''
       [n] (Some span) None (Some e)"

definition UserDeleteError :: "string \<Rightarrow> err \<Rightarrow> Span \<Rightarrow> err" where
  "UserDeleteError n e span =
     step_diag ''step.user.DeleteFailed'' ''failed to delete user \"{{.Name}}\"''
       ''confirm no running processes belong to \"{{.Name}}\"; run: ps -u {{.Name}}'' ''{{.Err}}''
       [n] (Some span) None (Some e)"

definition sorted_strings :: "string list \<Rightarrow> string list" where
  "sorted_strings xs = sort xs"

definition groupsEqual :: "string list \<Rightarrow> string list \<Rightarrow> bool" where
  "groupsEqual a b \<longleftrightarrow>
     (if length a \<noteq> length b then False
      else
        (let sa = sorted_strings a; sb = sorted_strings b
         in list_all (\<lambda>i. sa ! i = sb ! i) [0..<length sa]))"

definition checkHomeOwnership :: "'s Target \<Rightarrow> ensureUserOp \<Rightarrow> 's \<Rightarrow> err + DriftDetail list" where
  "checkHomeOwnership tgt op s =
     (if \<not> tg_files tgt then Inr []
      else
        (case tg_Stat tgt s (eu_home op) of
           Inl e \<Rightarrow> (if IsNotExist e then Inr [] else Inl e)
         | Inr _ \<Rightarrow>
             (case tg_GetOwner tgt s (eu_home op) of
                Inl e \<Rightarrow> Inl e
              | Inr owner \<Rightarrow>
                  (if ow_User owner = eu_name op \<and> ow_Group owner = eu_name op then Inr []
                   else Inr (drift1 ''home_ownership'' (ow_User owner @ '':'' @ ow_Group owner)
                          (eu_name op @ '':'' @ eu_name op))))))"

definition eu_drift :: "ensureUserOp \<Rightarrow> UserInfo \<Rightarrow> DriftDetail list" where
  "eu_drift op info =
     (if eu_shell op \<noteq> [] \<and> ui_Shell info \<noteq> eu_shell op then drift1 ''shell'' (ui_Shell info) (eu_shell op) else [])
     @ (if eu_home op \<noteq> [] \<and> ui_Home info \<noteq> eu_home op then drift1 ''home'' (ui_Home info) (eu_home op) else [])
     @ (if eu_groups op \<noteq> None \<and> \<not> groupsEqual (elems (ui_Groups info)) (elems (eu_groups op))
        then drift1 ''groups'' (strings_Join '','' (sorted_strings (elems (ui_Groups info))))
               (strings_Join '','' (sorted_strings (elems (eu_groups op)))) else [])"

definition eu_Check :: "'s Target \<Rightarrow> ensureUserOp \<Rightarrow> 's \<Rightarrow> check_answer" where
  "eu_Check tgt op s =
     (case tg_UserExists tgt s (eu_name op) of
        Inl e \<Rightarrow> check_failed e
      | Inr exists \<Rightarrow>
          (if \<not> exists then unsatisfied (drift1 ''state'' [] ''present'')
           else
             (case tg_GetUser tgt s (eu_name op) of
                Inl e \<Rightarrow> check_failed e
              | Inr info \<Rightarrow>
                  (case (if eu_home op \<noteq> [] then checkHomeOwnership tgt op s else Inr []) of
                     Inl e \<Rightarrow> check_failed e
                   | Inr homeDrift \<Rightarrow>
                       (let drift = eu_drift op info @ homeDrift
                        in if length drift > 0 then unsatisfied drift else satisfied)))))"

definition eu_owner :: "ensureUserOp \<Rightarrow> Owner" where
  "eu_owner op = \<lparr>ow_User = eu_name op, ow_Group = eu_name op\<rparr>"

text \<open>Returns whether the owner was changed, or an error.\<close>

definition reconcileHomeOwnership :: "'s Target \<Rightarrow> ensureUserOp \<Rightarrow> 's \<Rightarrow> 's \<times> (err + bool)" where
  "reconcileHomeOwnership tgt op s =
     (if \<not> tg_files tgt then (s, Inr False)
      else
        (case tg_Stat tgt s (eu_home op) of
           Inl e \<Rightarrow> (s, if IsNotExist e then Inr False else Inl e)
         | Inr _ \<Rightarrow>
             (case tg_GetOwner tgt s (eu_home op) of
                Inl e \<Rightarrow> (s, Inl e)
              | Inr owner \<Rightarrow>
                  (if ow_User owner = ow_User (eu_owner op) \<and> ow_Group owner = ow_Group (eu_owner op)
                   then (s, Inr False)
                   else
                     (case tg_Chown tgt s (eu_home op) (eu_owner op) of
                        (s', Some e) \<Rightarrow> (s', Inl e)
                      | (s', None) \<Rightarrow> (s', Inr True))))))"

definition eu_info :: "ensureUserOp \<Rightarrow> UserInfo" where
  "eu_info op = \<lparr>ui_Name = eu_name op, ui_UID = 0, ui_GID = 0, ui_Home = eu_home op, ui_Shell = eu_shell op,
     ui_Groups = eu_groups op, ui_System = eu_system op, ui_Password = eu_password op\<rparr>"

definition needsModify :: "ensureUserOp \<Rightarrow> UserInfo \<Rightarrow> bool" where
  "needsModify op cur \<longleftrightarrow> (eu_shell op \<noteq> [] \<and> ui_Shell cur \<noteq> eu_shell op)
     \<or> (eu_home op \<noteq> [] \<and> ui_Home cur \<noteq> eu_home op)
     \<or> (eu_groups op \<noteq> None \<and> \<not> groupsEqual (elems (ui_Groups cur)) (elems (eu_groups op)))
     \<or> eu_password op \<noteq> []"

text \<open>The first half of Execute, up to the account itself, and what follows for the home directory.\<close>

definition eu_account :: "'s Target \<Rightarrow> ensureUserOp \<Rightarrow> 's \<Rightarrow> 's \<times> (err + bool)" where
  "eu_account tgt op s =
     (case tg_UserExists tgt s (eu_name op) of
        Inl e \<Rightarrow> (s, Inl e)
      | Inr exists \<Rightarrow>
          (if \<not> exists then
             (case tg_CreateUser tgt s (eu_info op) of
                (s', Some e) \<Rightarrow> (s', Inl (UserCreateError (eu_name op) e (eu_nameSpan op)))
              | (s', None) \<Rightarrow> (s', Inr True))
           else
             (case tg_GetUser tgt s (eu_name op) of
                Inl e \<Rightarrow> (s, Inl e)
              | Inr cur \<Rightarrow>
                  (if needsModify op cur then
                     (case tg_ModifyUser tgt s (eu_info op) of
                        (s', Some e) \<Rightarrow> (s', Inl (UserModifyError (eu_name op) e (eu_nameSpan op)))
                      | (s', None) \<Rightarrow> (s', Inr True))
                   else (s, Inr False)))))"

definition eu_Execute :: "'s Target \<Rightarrow> ensureUserOp \<Rightarrow> 's \<Rightarrow> 's \<times> exec_answer" where
  "eu_Execute tgt op s =
     (case eu_account tgt op s of
        (s1, Inl e) \<Rightarrow> (s1, exec_failed e)
      | (s1, Inr changed) \<Rightarrow>
          (if eu_home op \<noteq> [] then
             (case reconcileHomeOwnership tgt op s1 of
                (s2, Inl e) \<Rightarrow> (s2, Inr (\<lparr>res_changed = changed\<rparr>, Some e))
              | (s2, Inr homeChanged) \<Rightarrow> (s2, did (changed \<or> homeChanged)))
           else (s1, did changed)))"

section \<open>remove_user_op.go\<close>

record removeUserOp =
  ru_name :: string
  ru_nameSpan :: Span

definition ru_Check :: "'s Target \<Rightarrow> removeUserOp \<Rightarrow> 's \<Rightarrow> check_answer" where
  "ru_Check tgt op s =
     (case tg_UserExists tgt s (ru_name op) of
        Inl e \<Rightarrow> check_failed e
      | Inr exists \<Rightarrow> (if exists then unsatisfied (drift1 ''state'' ''present'' ''absent'') else satisfied))"

definition ru_Execute :: "'s Target \<Rightarrow> removeUserOp \<Rightarrow> 's \<Rightarrow> 's \<times> exec_answer" where
  "ru_Execute tgt op s =
     (case tg_UserExists tgt s (ru_name op) of
        Inl e \<Rightarrow> (s, exec_failed e)
      | Inr exists \<Rightarrow>
          (if \<not> exists then (s, did False)
           else
             (case tg_DeleteUser tgt s (ru_name op) of
                (s', Some e) \<Rightarrow> (s', exec_failed (UserDeleteError (ru_name op) e (ru_nameSpan op)))
              | (s', None) \<Rightarrow> (s', did True))))"

definition user_ensure :: "userStep \<Rightarrow> ensureUserOp" where
  "user_ensure a = \<lparr>eu_name = us_name a, eu_shell = us_shell a, eu_home = us_home a, eu_system = us_system a,
     eu_password = us_pass a, eu_groups = us_groups a, eu_nameSpan = field_value (us_step a) ''name''\<rparr>"

lemma user_ensure_simps [simp]:
  "eu_name (user_ensure a) = us_name a" "eu_shell (user_ensure a) = us_shell a"
  "eu_home (user_ensure a) = us_home a" "eu_password (user_ensure a) = us_pass a"
  "eu_groups (user_ensure a) = us_groups a"
  by (simp_all add: user_ensure_def)

definition user_remove :: "userStep \<Rightarrow> removeUserOp" where
  "user_remove a = \<lparr>ru_name = us_name a, ru_nameSpan = field_value (us_step a) ''name''\<rparr>"

definition user_Ops :: "'s Target \<Rightarrow> nat \<Rightarrow> userStep \<Rightarrow> 's step_code" where
  "user_Ops tgt p a =
     (case us_state a of
        StateAbsent \<Rightarrow>
          [(mk_op p ''remove_user'' [] UserCap, op_impl (ru_Check tgt (user_remove a)) (ru_Execute tgt (user_remove a)))]
      | _ \<Rightarrow>
          [(mk_op p ''ensure_user'' [] UserCap, op_impl (eu_Check tgt (user_ensure a)) (eu_Execute tgt (user_ensure a)))])"

section \<open>Groups\<close>

record GroupConfig =
  gc_Desc :: string
  gc_Name :: string
  gc_State :: string
  gc_GID :: int
  gc_System :: bool

record groupStep =
  gs_desc :: string
  gs_name :: string
  gs_state :: AccountState
  gs_gid :: int
  gs_system :: bool
  gs_step :: DeclaredStep

definition group_Plan :: "DeclaredStep \<Rightarrow> GroupConfig \<Rightarrow> go_panic + groupStep" where
  "group_Plan step cfg =
     (case parseAccountState (gc_State cfg) of
        Inl p \<Rightarrow> Inl p
      | Inr st \<Rightarrow> Inr \<lparr>gs_desc = gc_Desc cfg, gs_name = gc_Name cfg, gs_state = st, gs_gid = gc_GID cfg,
          gs_system = gc_System cfg, gs_step = step\<rparr>)"

definition group_Provides :: "groupStep \<Rightarrow> Resource list" where
  "group_Provides a = (if gs_state a = StatePresent then [GroupResource (gs_name a)] else [])"

record ensureGroupOp =
  eg_name :: string
  eg_gid :: int
  eg_system :: bool
  eg_nameSpan :: Span

record removeGroupOp =
  rg_name :: string
  rg_nameSpan :: Span

definition GroupCreateError :: "string \<Rightarrow> err \<Rightarrow> Span \<Rightarrow> err" where
  "GroupCreateError n e span =
     step_diag ''step.group.CreateFailed'' ''failed to create group \"{{.Name}}\"''
       ''verify \"{{.Name}}\" is a valid group name and no conflicting group exists on the target'' ''{{.Err}}''
       [n] (Some span) None (Some e)"

definition GroupDeleteError :: "string \<Rightarrow> err \<Rightarrow> Span \<Rightarrow> err" where
  "GroupDeleteError n e span =
     step_diag ''step.group.DeleteFailed'' ''failed to delete group \"{{.Name}}\"''
       (''confirm no users have \"{{.Name}}\" as their primary group (getent passwd | awk -F: ''
        @ [CHR 0x27] @ ''$4 == \"<gid>\"'' @ [CHR 0x27] @ '')'') ''{{.Err}}''
       [n] (Some span) None (Some e)"

definition eg_Check :: "'s Target \<Rightarrow> ensureGroupOp \<Rightarrow> 's \<Rightarrow> check_answer" where
  "eg_Check tgt op s =
     (case tg_GroupExists tgt s (eg_name op) of
        Inl e \<Rightarrow> check_failed e
      | Inr exists \<Rightarrow> (if \<not> exists then unsatisfied (drift1 ''state'' [] ''present'') else satisfied))"

definition eg_info :: "ensureGroupOp \<Rightarrow> GroupInfo" where
  "eg_info op = \<lparr>gi_Name = eg_name op, gi_GID = eg_gid op, gi_System = eg_system op, gi_Members = []\<rparr>"

definition eg_Execute :: "'s Target \<Rightarrow> ensureGroupOp \<Rightarrow> 's \<Rightarrow> 's \<times> exec_answer" where
  "eg_Execute tgt op s =
     (case tg_GroupExists tgt s (eg_name op) of
        Inl e \<Rightarrow> (s, exec_failed e)
      | Inr exists \<Rightarrow>
          (if exists then (s, did False)
           else
             (case tg_CreateGroup tgt s (eg_info op) of
                (s', Some e) \<Rightarrow> (s', exec_failed (GroupCreateError (eg_name op) e (eg_nameSpan op)))
              | (s', None) \<Rightarrow> (s', did True))))"

definition rg_Check :: "'s Target \<Rightarrow> removeGroupOp \<Rightarrow> 's \<Rightarrow> check_answer" where
  "rg_Check tgt op s =
     (case tg_GroupExists tgt s (rg_name op) of
        Inl e \<Rightarrow> check_failed e
      | Inr exists \<Rightarrow> (if exists then unsatisfied (drift1 ''state'' ''present'' ''absent'') else satisfied))"

definition rg_Execute :: "'s Target \<Rightarrow> removeGroupOp \<Rightarrow> 's \<Rightarrow> 's \<times> exec_answer" where
  "rg_Execute tgt op s =
     (case tg_GroupExists tgt s (rg_name op) of
        Inl e \<Rightarrow> (s, exec_failed e)
      | Inr exists \<Rightarrow>
          (if \<not> exists then (s, did False)
           else
             (case tg_DeleteGroup tgt s (rg_name op) of
                (s', Some e) \<Rightarrow> (s', exec_failed (GroupDeleteError (rg_name op) e (rg_nameSpan op)))
              | (s', None) \<Rightarrow> (s', did True))))"

definition group_ensure :: "groupStep \<Rightarrow> ensureGroupOp" where
  "group_ensure a = \<lparr>eg_name = gs_name a, eg_gid = gs_gid a, eg_system = gs_system a,
     eg_nameSpan = field_value (gs_step a) ''name''\<rparr>"

definition group_remove :: "groupStep \<Rightarrow> removeGroupOp" where
  "group_remove a = \<lparr>rg_name = gs_name a, rg_nameSpan = field_value (gs_step a) ''name''\<rparr>"

definition group_Ops :: "'s Target \<Rightarrow> nat \<Rightarrow> groupStep \<Rightarrow> 's step_code" where
  "group_Ops tgt p a =
     (case gs_state a of
        StateAbsent \<Rightarrow>
          [(mk_op p ''remove_group'' [] GroupCap, op_impl (rg_Check tgt (group_remove a)) (rg_Execute tgt (group_remove a)))]
      | _ \<Rightarrow>
          [(mk_op p ''ensure_group'' [] GroupCap, op_impl (eg_Check tgt (group_ensure a)) (eg_Execute tgt (group_ensure a)))])"

end
