(* ===== verification/Account_Runs.thy ===== *)
theory Account_Runs
  imports Accounts
begin

text \<open>
  What running a user or group step does: the laws of an account store, which extend those of
  a file system, the contracts of the four ops, and their properties on the in-memory target.
\<close>

section \<open>The laws of an account store\<close>

text \<open>The account read back has the fields that were asked for.\<close>

definition shows_user :: "'s Target \<Rightarrow> 's \<Rightarrow> UserInfo \<Rightarrow> bool" where
  "shows_user tgt s info \<longleftrightarrow> tg_UserExists tgt s (ui_Name info) = Inr True
     \<and> (\<exists>u. tg_GetUser tgt s (ui_Name info) = Inr u
          \<and> (ui_Shell info \<noteq> [] \<longrightarrow> ui_Shell u = ui_Shell info)
          \<and> (ui_Home info \<noteq> [] \<longrightarrow> ui_Home u = ui_Home info)
          \<and> (ui_Groups info \<noteq> None \<longrightarrow> mset (elems (ui_Groups u)) = mset (elems (ui_Groups info))))"

locale account_store = posix_files +
  assumes user_created: "tg_CreateUser tgt s info = (s', None) \<Longrightarrow> shows_user tgt s' info"
    and user_modified: "tg_ModifyUser tgt s info = (s', None) \<Longrightarrow> shows_user tgt s' info"
    and user_deleted: "tg_DeleteUser tgt s u = (s', None) \<Longrightarrow> tg_UserExists tgt s' u = Inr False"
    and chown_users: "tg_Chown tgt s q w = (s', e) \<Longrightarrow>
        tg_UserExists tgt s' = tg_UserExists tgt s \<and> tg_GetUser tgt s' = tg_GetUser tgt s"
    and group_created: "tg_CreateGroup tgt s ginfo = (s', None) \<Longrightarrow> tg_GroupExists tgt s' (gi_Name ginfo) = Inr True"
    and group_deleted: "tg_DeleteGroup tgt s g = (s', None) \<Longrightarrow> tg_GroupExists tgt s' g = Inr False"

lemma groupsEqual_mset: "groupsEqual a b \<longleftrightarrow> mset a = mset b"
proof -
  have "list_all (\<lambda>i. sort a ! i = sort b ! i) [0..<length a] \<longleftrightarrow> sort a = sort b" if "length a = length b"
    using that list_eq_iff_nth_eq [of "sort a" "sort b"] by (simp add: list_all_iff) auto
  moreover have "sort a = sort b \<longleftrightarrow> mset a = mset b"
  proof
    assume "sort a = sort b"
    then have "mset (sort a) = mset (sort b)" by (rule arg_cong)
    then show "mset a = mset b" by simp
  next
    assume "mset a = mset b"
    then have "mset (sort b) = mset a" by simp
    from properties_for_sort [OF this] show "sort a = sort b" by simp
  qed
  moreover have "mset a = mset b \<Longrightarrow> length a = length b" by (rule mset_eq_length)
  ultimately show ?thesis by (auto simp: groupsEqual_def sorted_strings_def Let_def)
qed

section \<open>Ensuring a user\<close>

text \<open>What the op's check asks: the account with its fields, and the home directory's owner.\<close>

definition user_shown :: "'s Target \<Rightarrow> ensureUserOp \<Rightarrow> 's \<Rightarrow> bool" where
  "user_shown tgt op s \<longleftrightarrow> tg_UserExists tgt s (eu_name op) = Inr True
     \<and> (\<exists>u. tg_GetUser tgt s (eu_name op) = Inr u \<and> eu_drift op u = [])"

lemma eu_drift_nil:
  "eu_drift op u = [] \<longleftrightarrow> (eu_shell op \<noteq> [] \<longrightarrow> ui_Shell u = eu_shell op)
     \<and> (eu_home op \<noteq> [] \<longrightarrow> ui_Home u = eu_home op)
     \<and> (eu_groups op \<noteq> None \<longrightarrow> mset (elems (ui_Groups u)) = mset (elems (eu_groups op)))"
  by (auto simp: eu_drift_def drift1_def groupsEqual_mset)

lemma shows_user_shown: "shows_user tgt s (eu_info op) \<Longrightarrow> user_shown tgt op s"
  by (auto simp: shows_user_def user_shown_def eu_info_def eu_drift_nil)

lemma eu_satisfied:
  "op_satisfied (op_impl (eu_Check tgt op) x) s \<longleftrightarrow> user_shown tgt op s
     \<and> (eu_home op \<noteq> [] \<longrightarrow> checkHomeOwnership tgt op s = Inr [])"
  by (auto simp: eu_Check_def user_shown_def answers_def Let_def split: sum.splits if_splits)

lemma eu_account_no_panic_shown:
  assumes store: "account_store tgt plain" and a: "eu_account tgt op s = (s1, Inr changed)"
  shows "user_shown tgt op s1"
proof -
  from a obtain ex where ex: "tg_UserExists tgt s (eu_name op) = Inr ex"
    by (auto simp: eu_account_def split: sum.splits)
  show ?thesis
  proof (cases ex)
    case False
    with a ex have "tg_CreateUser tgt s (eu_info op) = (s1, None)"
      by (auto simp: eu_account_def split: prod.splits option.splits)
    from account_store.user_created [OF store this] show ?thesis by (rule shows_user_shown)
  next
    case True
    with a ex obtain cur where cur: "tg_GetUser tgt s (eu_name op) = Inr cur"
      by (auto simp: eu_account_def split: sum.splits)
    show ?thesis
    proof (cases "needsModify op cur")
      case True
      with a ex \<open>ex\<close> cur have "tg_ModifyUser tgt s (eu_info op) = (s1, None)"
        by (auto simp: eu_account_def split: prod.splits option.splits)
      from account_store.user_modified [OF store this] show ?thesis by (rule shows_user_shown)
    next
      case False
      with a ex \<open>ex\<close> cur have "s1 = s" by (auto simp: eu_account_def)
      with ex \<open>ex\<close> cur False show ?thesis
        by (auto simp: user_shown_def needsModify_def eu_drift_nil groupsEqual_mset)
    qed
  qed
qed

lemma reconcile_home:
  assumes store: "account_store tgt plain" and plain: "plain (eu_home op)"
    and r: "reconcileHomeOwnership tgt op s = (s', Inr c)"
  shows "checkHomeOwnership tgt op s' = Inr [] \<and> (user_shown tgt op s \<longrightarrow> user_shown tgt op s')"
proof -
  note files = account_store.axioms(1) [OF store]
  consider "s' = s" "checkHomeOwnership tgt op s = Inr []"
    | i o1 where "tg_files tgt" "tg_Stat tgt s (eu_home op) = Inr i" "tg_GetOwner tgt s (eu_home op) = Inr o1"
      "tg_Chown tgt s (eu_home op) (eu_owner op) = (s', None)"
    using r by (auto simp: reconcileHomeOwnership_def checkHomeOwnership_def eu_owner_def
        split: if_splits sum.splits prod.splits option.splits)
  then show ?thesis
  proof cases
    case 1
    then show ?thesis by simp
  next
    case 2
    note k = posix_files.chown_keeps [OF files plain 2(4)]
    note w = posix_files.chown_done [OF files plain 2(4)]
    note u = account_store.chown_users [OF store 2(4)]
    have "checkHomeOwnership tgt op s' = Inr []"
      using k w 2(1,2) by (simp add: checkHomeOwnership_def eu_owner_def)
    moreover have "user_shown tgt op s' = user_shown tgt op s" using u by (simp add: user_shown_def)
    ultimately show ?thesis by simp
  qed
qed

lemma eu_contract:
  assumes store: "account_store tgt plain" and plain: "eu_home op \<noteq> [] \<longrightarrow> plain (eu_home op)"
  shows "step_contract 1 (\<lambda>_. []) (\<lambda>_. op_impl (eu_Check tgt op) (eu_Execute tgt op)) (\<lambda>_. True)"
proof (rule one_op_contract)
  fix s
  show "\<exists>a. impl_Check (op_impl (eu_Check tgt op) (eu_Execute tgt op)) s = Some (s, a)
      \<and> (fst a = CheckSatisfied \<longrightarrow> snd (snd a) = None)"
    by (auto simp: eu_Check_def answers_def Let_def split: sum.splits)
next
  fix s s' res e assume x: "impl_Execute (op_impl (eu_Check tgt op) (eu_Execute tgt op)) s = (s', Inr (res, e))"
  have "op_satisfied (op_impl (eu_Check tgt op) (eu_Execute tgt op)) s'" if "e = None"
  proof -
    obtain s1 r where acc: "eu_account tgt op s = (s1, r)" by (metis surj_pair)
    with x that obtain changed where c: "r = Inr changed"
      by (cases r) (auto simp: eu_Execute_def exec_failed_def)
    have shown: "user_shown tgt op s1" by (rule eu_account_no_panic_shown [OF store]) (use acc c in simp)
    show ?thesis
    proof (cases "eu_home op = []")
      case True
      with x acc c shown show ?thesis unfolding eu_satisfied by (simp add: eu_Execute_def did_def)
    next
      case False
      obtain s2 h where h: "reconcileHomeOwnership tgt op s1 = (s2, h)" by (metis surj_pair)
      with x acc c False that obtain hc where "h = Inr hc" "s' = s2"
        by (cases h) (auto simp: eu_Execute_def did_def)
      with reconcile_home [OF store _ h [unfolded \<open>h = Inr hc\<close>]] plain False shown
      show ?thesis unfolding eu_satisfied by simp
    qed
  qed
  then show "True \<and> (e = None \<longrightarrow> op_satisfied (op_impl (eu_Check tgt op) (eu_Execute tgt op)) s')" by simp
next
  fix s s' p assume "impl_Execute (op_impl (eu_Check tgt op) (eu_Execute tgt op)) s = (s', Inl p)"
  then show False by (auto simp: eu_Execute_def exec_failed_def did_def split: prod.splits sum.splits if_splits)
qed

section \<open>The other ops\<close>

lemma simple_checks:
  "op_satisfied (op_impl (ru_Check tgt rop) x) s \<longleftrightarrow> tg_UserExists tgt s (ru_name rop) = Inr False"
  "op_satisfied (op_impl (eg_Check tgt eop) x) s \<longleftrightarrow> tg_GroupExists tgt s (eg_name eop) = Inr True"
  "op_satisfied (op_impl (rg_Check tgt gop) x) s \<longleftrightarrow> tg_GroupExists tgt s (rg_name gop) = Inr False"
  by (auto simp: ru_Check_def eg_Check_def rg_Check_def answers_def split: sum.splits if_splits)

lemma ru_contract:
  assumes "account_store tgt plain"
  shows "step_contract 1 (\<lambda>_. []) (\<lambda>_. op_impl (ru_Check tgt op) (ru_Execute tgt op)) (\<lambda>_. True)"
  by (rule one_op_contract)
    (auto simp: simple_checks ru_Check_def ru_Execute_def answers_def exec_failed_def did_def
      split: sum.splits if_splits prod.splits option.splits simp del: op_satisfied_impl
      dest: account_store.user_deleted [OF assms])

lemma eg_contract:
  assumes "account_store tgt plain"
  shows "step_contract 1 (\<lambda>_. []) (\<lambda>_. op_impl (eg_Check tgt op) (eg_Execute tgt op)) (\<lambda>_. True)"
  by (rule one_op_contract)
    (auto simp: simple_checks eg_Check_def eg_Execute_def eg_info_def answers_def exec_failed_def did_def
      split: sum.splits if_splits prod.splits option.splits simp del: op_satisfied_impl
      dest: account_store.group_created [OF assms])

lemma rg_contract:
  assumes "account_store tgt plain"
  shows "step_contract 1 (\<lambda>_. []) (\<lambda>_. op_impl (rg_Check tgt op) (rg_Execute tgt op)) (\<lambda>_. True)"
  by (rule one_op_contract)
    (auto simp: simple_checks rg_Check_def rg_Execute_def answers_def exec_failed_def did_def
      split: sum.splits if_splits prod.splits option.splits simp del: op_satisfied_impl
      dest: account_store.group_deleted [OF assms])

section \<open>The in-memory target is an account store\<close>

interpretation mem_accounts: account_store "mem_target now iter" "\<lambda>p. p \<noteq> ''/''" for now iter
proof (rule account_store.intro [OF mem.posix_files_axioms account_store_axioms.intro])
  show "tg_CreateUser (mem_target now iter) s info = (s', None) \<Longrightarrow> shows_user (mem_target now iter) s' info"
    for s s' info
    by (auto simp: mem_CreateUser_def shows_user_def mem_UserExists_def mem_GetUser_def)
  show "tg_ModifyUser (mem_target now iter) s info = (s', None) \<Longrightarrow> shows_user (mem_target now iter) s' info"
    for s s' info
    by (auto simp: mem_ModifyUser_def shows_user_def mem_UserExists_def mem_GetUser_def split: if_splits)
  show "tg_DeleteUser (mem_target now iter) s u = (s', None) \<Longrightarrow> tg_UserExists (mem_target now iter) s' u = Inr False"
    for s s' u by (auto simp: mem_DeleteUser_def mem_UserExists_def)
  show "tg_Chown (mem_target now iter) s q w = (s', e) \<Longrightarrow>
      tg_UserExists (mem_target now iter) s' = tg_UserExists (mem_target now iter) s
      \<and> tg_GetUser (mem_target now iter) s' = tg_GetUser (mem_target now iter) s" for s q w s' e
    by (auto simp: mem_Chown_def mem_UserExists_def mem_GetUser_def fun_eq_iff split: if_splits)
  show "tg_CreateGroup (mem_target now iter) s g = (s', None) \<Longrightarrow>
      tg_GroupExists (mem_target now iter) s' (gi_Name g) = Inr True" for s s' g
    by (auto simp: mem_CreateGroup_def mem_GroupExists_def)
  show "tg_DeleteGroup (mem_target now iter) s g = (s', None) \<Longrightarrow>
      tg_GroupExists (mem_target now iter) s' g = Inr False" for s s' g
    by (auto simp: mem_DeleteGroup_def mem_GroupExists_def)
qed

section \<open>Properties\<close>

text \<open>What the configuration of a user step asks for, in terms of what can be read back.\<close>

definition user_done :: "'s Target \<Rightarrow> userStep \<Rightarrow> 's \<Rightarrow> bool" where
  "user_done tgt a s \<longleftrightarrow>
     (if us_state a = StateAbsent then tg_UserExists tgt s (us_name a) = Inr False
      else tg_UserExists tgt s (us_name a) = Inr True
        \<and> (\<exists>u. tg_GetUser tgt s (us_name a) = Inr u
             \<and> (us_shell a \<noteq> [] \<longrightarrow> ui_Shell u = us_shell a) \<and> (us_home a \<noteq> [] \<longrightarrow> ui_Home u = us_home a)
             \<and> (us_groups a \<noteq> None \<longrightarrow> mset (elems (ui_Groups u)) = mset (elems (us_groups a))))
        \<and> (us_home a \<noteq> [] \<and> tg_files tgt \<and> \<not> isl (tg_Stat tgt s (us_home a)) \<longrightarrow>
             tg_GetOwner tgt s (us_home a) = Inr \<lparr>ow_User = us_name a, ow_Group = us_name a\<rparr>))"

lemma user_contract:
  assumes "account_store tgt plain" and "us_home a \<noteq> [] \<longrightarrow> plain (us_home a)"
  shows "step_contract 1 (\<lambda>_. []) (code_impl (user_Ops tgt p a)) (\<lambda>_. True)"
proof (rule step_contract_sub [where role = "\<lambda>i. i"])
  show "step_contract 1 (\<lambda>_. []) (\<lambda>_. code_impl (user_Ops tgt p a) 0) (\<lambda>_. True)"
    using ru_contract [OF assms(1), of "user_remove a"] eu_contract [OF assms(1), of "user_ensure a"] assms(2)
    by (cases "us_state a") (simp_all add: user_Ops_def code_impl_def user_ensure_def)
qed simp_all

lemma user_satisfied_done:
  assumes "op_satisfied (code_impl (user_Ops tgt p a) 0) s"
  shows "user_done tgt a s"
proof (cases "us_state a")
  case StatePresent
  with assms have "op_satisfied (op_impl (eu_Check tgt (user_ensure a)) (eu_Execute tgt (user_ensure a))) s"
    by (simp add: user_Ops_def code_impl_def)
  then have "user_shown tgt (user_ensure a) s"
    and h: "us_home a \<noteq> [] \<longrightarrow> checkHomeOwnership tgt (user_ensure a) s = Inr []"
    unfolding eu_satisfied by (simp_all add: user_ensure_def)
  moreover have "tg_GetOwner tgt s (us_home a) = Inr \<lparr>ow_User = us_name a, ow_Group = us_name a\<rparr>"
    if "us_home a \<noteq> []" "tg_files tgt" "\<not> isl (tg_Stat tgt s (us_home a))"
    using h that by (auto simp: checkHomeOwnership_def user_ensure_def drift1_def
        split: sum.splits if_splits)
  ultimately show ?thesis
    using StatePresent by (auto simp: user_done_def user_shown_def eu_drift_nil user_ensure_def)
next
  case StateAbsent
  with assms simple_checks(1) [of tgt "user_remove a" "ru_Execute tgt (user_remove a)" s] show ?thesis
    by (simp add: user_Ops_def code_impl_def user_done_def user_remove_def)
qed

text \<open>C25: on any account store, once the op of a user step has returned without error the account is there
  with the shell, home, groups and home-directory owner the configuration gives, or is gone when the
  configuration says absent.\<close>

theorem user_step_converges:
  assumes "account_store tgt plain" and "us_home a \<noteq> [] \<longrightarrow> plain (us_home a)"
    and "buildPlan (map fst (user_Ops tgt p a)) = Inr ns"
    and "step_reaches sc (code_impl (user_Ops tgt p a)) ns s0 ns' r s"
    and "op_wait_done r" and "r_grp_err r = None"
  shows "user_done tgt a s"
proof -
  have "length (user_Ops tgt p a) = 1" by (cases "us_state a") (simp_all add: user_Ops_def)
  then have plan: "plan_ok (map fst (user_Ops tgt p a)) ns" "length ns = 1"
    using buildPlan_spec [of "map fst (user_Ops tgt p a)"] assms(3) by (auto dest: plan_fresh(4))
  from step_contract.run_converges [OF user_contract [OF assms(1,2)] assms(4) plan TrueI assms(5,6)]
  show ?thesis using user_satisfied_done by auto
qed

definition app_user :: userStep where
  "app_user = \<lparr>us_desc = ''app'', us_name = ''app'', us_state = StatePresent, us_shell = ''/bin/sh'',
     us_home = [], us_system = True, us_pass = [], us_groups = Some [''www''],
     us_step = \<lparr>ds_ID = 2, ds_Desc = [], ds_Kind = ''user'', ds_ProvidesFor = None, ds_Resources = None,
       ds_OnChange = [], ds_Span = zero_span, ds_Fields = Map.empty\<rparr>\<rparr>"

abbreviation mem_plain :: "MemTarget Target" where
  "mem_plain \<equiv> mem_target (\<lambda>_. 0) (\<lambda>xs. xs)"

lemma user_step_converges_witness: "\<exists>m. user_done mem_plain app_user m"
proof -
  let ?impl = "code_impl (user_Ops mem_plain 3 app_user)"
  have ops: "map fst (user_Ops mem_plain 3 app_user) = [mk_op 3 ''ensure_user'' [] UserCap]"
    by (simp add: user_Ops_def app_user_def)
  have c: "impl_Check (?impl 0) NewMemTarget = Some (NewMemTarget, CheckUnsatisfied, drift1 ''state'' [] ''present'', None)"
    by (simp add: code_impl_def user_Ops_def app_user_def eu_Check_def user_ensure_def mem_UserExists_def
        NewMemTarget_def map_has_def unsatisfied_def)
  obtain m where x: "impl_Execute (?impl 0) NewMemTarget = (m, Inr (\<lparr>res_changed = True\<rparr>, None))"
    by (simp add: code_impl_def user_Ops_def app_user_def eu_Execute_def eu_account_def user_ensure_def
        mem_UserExists_def NewMemTarget_def map_has_def mem_CreateUser_def did_def)
  have "op_deps (mk_op 3 ''ensure_user'' [] UserCap) = []" by (simp add: mk_op_def)
  from one_op_run [where impl = ?impl and sc = apply_sched, OF this c x]
  obtain ns ns' r where run: "buildPlan [mk_op 3 ''ensure_user'' [] UserCap] = Inr ns"
    "step_reaches apply_sched ?impl ns NewMemTarget ns' r m" "op_wait_done r" "r_grp_err r = None" by blast
  have home: "us_home app_user \<noteq> [] \<longrightarrow> us_home app_user \<noteq> ''/''" by (simp add: app_user_def)
  have "user_done mem_plain app_user m"
    by (rule user_step_converges [OF mem_accounts.account_store_axioms home run(1) [folded ops] run(2-4)])
  then show ?thesis by blast
qed

text \<open>A user step whose account is already as configured but for the password starts no op and changes
  nothing: the password of an existing user is never looked at, so a new one is not set.\<close>

theorem user_password_change_skipped:
  assumes "account_store tgt plain" and "us_home a \<noteq> [] \<longrightarrow> plain (us_home a)"
    and "us_state a = StatePresent" and "op_satisfied (code_impl (user_Ops tgt p a) 0) s0"
    and "buildPlan (map fst (user_Ops tgt p (a\<lparr>us_pass := pw\<rparr>))) = Inr ns"
    and "step_reaches sc (code_impl (user_Ops tgt p (a\<lparr>us_pass := pw\<rparr>))) ns s0 ns' r s"
  shows "r_launched r = [] \<and> s = s0"
proof -
  let ?b = "a\<lparr>us_pass := pw\<rparr>"
  have "length (user_Ops tgt p ?b) = 1" by (cases "us_state a") (simp_all add: user_Ops_def)
  then have plan: "plan_ok (map fst (user_Ops tgt p ?b)) ns" "length ns = 1"
    using buildPlan_spec [of "map fst (user_Ops tgt p ?b)"] assms(5) by (auto dest: plan_fresh(4))
  have "op_satisfied (op_impl (eu_Check tgt (user_ensure a)) (eu_Execute tgt (user_ensure a))) s0"
    using assms(3,4) by (simp add: user_Ops_def code_impl_def)
  moreover have "checkHomeOwnership tgt (user_ensure ?b) s0 = checkHomeOwnership tgt (user_ensure a) s0"
    "user_shown tgt (user_ensure ?b) s0 = user_shown tgt (user_ensure a) s0"
    by (simp_all add: checkHomeOwnership_def user_shown_def eu_drift_def split: sum.split)
  ultimately have "op_satisfied (op_impl (eu_Check tgt (user_ensure ?b)) (eu_Execute tgt (user_ensure ?b))) s0"
    unfolding eu_satisfied by (simp add: user_ensure_def)
  then have sat: "\<forall>i < 1. op_satisfied (code_impl (user_Ops tgt p ?b) i) s0"
    using assms(3) by (simp add: user_Ops_def code_impl_def)
  show ?thesis
  proof (rule step_contract.satisfied_run_idle [OF user_contract [OF assms(1)] assms(6) plan TrueI sat])
    show "us_home ?b \<noteq> [] \<longrightarrow> plain (us_home ?b)" using assms(2) by simp
    show "t' = t" if "i < 1" "impl_Check (code_impl (user_Ops tgt p ?b) i) t = Some (t', ans)" for i t t' ans
      using that assms(3) by (simp add: user_Ops_def code_impl_def)
  qed
qed

definition mem_with_app :: MemTarget where
  "mem_with_app = fst (mem_CreateUser NewMemTarget (eu_info (user_ensure app_user)))"

lemma user_password_change_skipped_witness:
  "\<exists>ns ns' r. step_reaches apply_sched (code_impl (user_Ops mem_plain 3 (app_user\<lparr>us_pass := ''new''\<rparr>)))
       ns mem_with_app ns' r mem_with_app
     \<and> ui_Password (the (map_of (m_Users mem_with_app) ''app'')) = [] \<and> op_wait_done r"
proof -
  let ?b = "app_user\<lparr>us_pass := ''new''\<rparr>"
  let ?impl = "code_impl (user_Ops mem_plain 3 ?b)"
  have shown: "user_shown mem_plain (user_ensure app_user) mem_with_app"
    by (rule shows_user_shown, rule mem_accounts.user_created [where s = NewMemTarget])
      (simp add: mem_with_app_def mem_CreateUser_def)
  have sat: "op_satisfied (code_impl (user_Ops mem_plain 3 app_user) 0) mem_with_app"
  proof -
    from shown have "op_satisfied (op_impl (eu_Check mem_plain (user_ensure app_user)) (eu_Execute mem_plain (user_ensure app_user))) mem_with_app"
      unfolding eu_satisfied by (simp add: user_ensure_def app_user_def)
    then show ?thesis by (simp add: user_Ops_def code_impl_def app_user_def)
  qed
  have ops: "map fst (user_Ops mem_plain 3 ?b) = [mk_op 3 ''ensure_user'' [] UserCap]"
    by (simp add: user_Ops_def app_user_def)
  obtain ns where ns: "buildPlan (map fst (user_Ops mem_plain 3 ?b)) = Inr ns" "plan_ok (map fst (user_Ops mem_plain 3 ?b)) ns"
    "length ns = 1" using one_op_plan [of "mk_op 3 ''ensure_user'' [] UserCap"] ops by (auto simp: mk_op_def)
  have home: "us_home app_user \<noteq> [] \<longrightarrow> us_home app_user \<noteq> ''/''" "us_state app_user = StatePresent"
    by (simp_all add: app_user_def)
  note skipped = user_password_change_skipped [OF mem_accounts.account_store_axioms home(1) home(2) sat ns(1)]
  have "user_shown mem_plain (user_ensure ?b) mem_with_app = user_shown mem_plain (user_ensure app_user) mem_with_app"
    by (simp add: user_shown_def eu_drift_def)
  then have "op_satisfied (op_impl (eu_Check mem_plain (user_ensure ?b)) (eu_Execute mem_plain (user_ensure ?b))) mem_with_app"
    unfolding eu_satisfied using shown by (simp add: app_user_def)
  then have "\<exists>d. impl_Check (?impl i) mem_with_app = Some (mem_with_app, CheckSatisfied, d, None)" if "i < length ns" for i
    using that ns(3) home(2) by (auto simp: user_Ops_def code_impl_def op_satisfied_iff simp del: op_satisfied_impl)
  from satisfied_run_exists [where impl = ?impl and sc = apply_sched, OF ns(2) this] obtain ns' r where
    r: "step_reaches apply_sched ?impl ns mem_with_app ns' r mem_with_app" "op_wait_done r" by blast
  from skipped [OF r(1)] have "r_launched r = []" ..
  with r show ?thesis
    by (intro exI conjI) (auto simp: mem_with_app_def mem_CreateUser_def eu_info_def user_ensure_def app_user_def)
qed

end
