(* ===== verification/Services.thy ===== *)
theory Services
  imports File_Ops
begin

text \<open>
  The service step (internal/step/service): whether a service runs, whether it is enabled at
  boot, restarts and reloads; and what running the step does to a service manager.
\<close>

section \<open>Configuration and planning\<close>

datatype ServiceState = StateRunning | StateStopped | StateRestarted | StateReloaded

definition ServiceState_String :: "ServiceState \<Rightarrow> string" where
  "ServiceState_String s = (case s of StateRunning \<Rightarrow> ''running'' | StateStopped \<Rightarrow> ''stopped''
     | StateRestarted \<Rightarrow> ''restarted'' | StateReloaded \<Rightarrow> ''reloaded'')"

definition parseServiceState :: "string \<Rightarrow> go_panic + ServiceState" where
  "parseServiceState s =
     (if s = ''running'' then Inr StateRunning
      else if s = ''stopped'' then Inr StateStopped
      else if s = ''restarted'' then Inr StateRestarted
      else if s = ''reloaded'' then Inr StateReloaded
      else Inl ''BUG: invalid service state - should have been caught by Validate'')"

record ServiceConfig =
  svc_Desc :: string
  svc_Name :: string
  svc_State :: string
  svc_Enabled :: bool

record serviceStep =
  ss_desc :: string
  ss_name :: string
  ss_state :: ServiceState
  ss_enabled :: bool
  ss_step :: DeclaredStep

definition service_Plan :: "DeclaredStep \<Rightarrow> ServiceConfig \<Rightarrow> go_panic + serviceStep" where
  "service_Plan step cfg =
     (case parseServiceState (svc_State cfg) of
        Inl p \<Rightarrow> Inl p
      | Inr st \<Rightarrow> Inr \<lparr>ss_desc = svc_Desc cfg, ss_name = svc_Name cfg, ss_state = st,
          ss_enabled = svc_Enabled cfg, ss_step = step\<rparr>)"

section \<open>The ops\<close>

text \<open>The text of a target's error is a parameter; the command errors carry it in place of the error.\<close>

definition ServiceCommandError :: "string \<Rightarrow> string \<Rightarrow> string \<Rightarrow> Span \<Rightarrow> err" where
  "ServiceCommandError op n stderr span =
     step_diag ''step.service.CommandFailed'' ''failed to {{.Op}} service {{.Name}}: {{.Stderr}}''
       ''check that the service name is correct and the init system is available''
       ''the service command exited with a non-zero status'' [op, n, stderr] (Some span) None None"

definition DaemonReloadError :: "string \<Rightarrow> string \<Rightarrow> Span \<Rightarrow> err" where
  "DaemonReloadError n stderr span =
     step_diag ''step.service.DaemonReloadFailed''
       ''daemon-reload failed before starting service {{.Name}}: {{.Stderr}}''
       ''check systemd configuration and permissions'' [] [n, stderr] (Some span) None None"

record ensureActiveOp =
  ea_name :: string
  ea_state :: ServiceState
  ea_nameSpan :: Span

definition ea_Check :: "'s Target \<Rightarrow> ensureActiveOp \<Rightarrow> 's \<Rightarrow> check_answer" where
  "ea_Check tgt op s =
     (case tg_IsActive tgt s (ea_name op) of
        Inl e \<Rightarrow> check_failed e
      | Inr is_on \<Rightarrow>
          (let wantRunning = (ea_state op = StateRunning)
           in if is_on = wantRunning then satisfied
              else unsatisfied (drift1 ''state'' (if is_on then ''running'' else ''stopped'')
                     (ServiceState_String (ea_state op)))))"

definition ea_Execute :: "(err \<Rightarrow> string) \<Rightarrow> 's Target \<Rightarrow> ensureActiveOp \<Rightarrow> 's \<Rightarrow> 's \<times> exec_answer" where
  "ea_Execute etext tgt op s =
     (case tg_IsActive tgt s (ea_name op) of
        Inl e \<Rightarrow> (s, exec_failed e)
      | Inr is_on \<Rightarrow>
          (let wantRunning = (ea_state op = StateRunning)
           in if is_on = wantRunning then (s, did False)
              else if wantRunning then
                (case tg_DaemonReload tgt s of
                   (s1, Some e) \<Rightarrow> (s1, exec_failed (DaemonReloadError (ea_name op) (etext e) (ea_nameSpan op)))
                 | (s1, None) \<Rightarrow>
                     (case tg_Start tgt s1 (ea_name op) of
                        (s2, Some e) \<Rightarrow> (s2, exec_failed (ServiceCommandError ''start'' (ea_name op) (etext e) (ea_nameSpan op)))
                      | (s2, None) \<Rightarrow> (s2, did True)))
              else
                (case tg_Stop tgt s (ea_name op) of
                   (s1, Some e) \<Rightarrow> (s1, exec_failed (ServiceCommandError ''stop'' (ea_name op) (etext e) (ea_nameSpan op)))
                 | (s1, None) \<Rightarrow> (s1, did True))))"

record ensureEnabledOp =
  ee_name :: string
  ee_enabled :: bool
  ee_nameSpan :: Span

definition enabled_text :: "bool \<Rightarrow> string" where
  "enabled_text b = (if b then ''enabled'' else ''disabled'')"

definition ee_Check :: "'s Target \<Rightarrow> ensureEnabledOp \<Rightarrow> 's \<Rightarrow> check_answer" where
  "ee_Check tgt op s =
     (case tg_IsEnabled tgt s (ee_name op) of
        Inl e \<Rightarrow> check_failed e
      | Inr enabled \<Rightarrow>
          (if enabled = ee_enabled op then satisfied
           else unsatisfied (drift1 ''enabled'' (enabled_text enabled) (enabled_text (ee_enabled op)))))"

definition ee_Execute :: "(err \<Rightarrow> string) \<Rightarrow> 's Target \<Rightarrow> ensureEnabledOp \<Rightarrow> 's \<Rightarrow> 's \<times> exec_answer" where
  "ee_Execute etext tgt op s =
     (case tg_IsEnabled tgt s (ee_name op) of
        Inl e \<Rightarrow> (s, exec_failed e)
      | Inr enabled \<Rightarrow>
          (if enabled = ee_enabled op then (s, did False)
           else if ee_enabled op then
             (case tg_Enable tgt s (ee_name op) of
                (s1, Some e) \<Rightarrow> (s1, exec_failed (ServiceCommandError ''enable'' (ee_name op) (etext e) (ee_nameSpan op)))
              | (s1, None) \<Rightarrow> (s1, did True))
           else
             (case tg_Disable tgt s (ee_name op) of
                (s1, Some e) \<Rightarrow> (s1, exec_failed (ServiceCommandError ''disable'' (ee_name op) (etext e) (ee_nameSpan op)))
              | (s1, None) \<Rightarrow> (s1, did True))))"

record cycleOp =
  cy_name :: string
  cy_nameSpan :: Span

definition restart_Check :: "'s \<Rightarrow> check_answer" where
  "restart_Check s = unsatisfied (drift1 ''state'' [] (ServiceState_String StateRestarted))"

definition restart_Execute :: "(err \<Rightarrow> string) \<Rightarrow> 's Target \<Rightarrow> cycleOp \<Rightarrow> 's \<Rightarrow> 's \<times> exec_answer" where
  "restart_Execute etext tgt op s =
     (case tg_DaemonReload tgt s of
        (s1, Some e) \<Rightarrow> (s1, exec_failed (DaemonReloadError (cy_name op) (etext e) (cy_nameSpan op)))
      | (s1, None) \<Rightarrow>
          (case tg_Restart tgt s1 (cy_name op) of
             (s2, Some e) \<Rightarrow> (s2, exec_failed (ServiceCommandError ''restart'' (cy_name op) (etext e) (cy_nameSpan op)))
           | (s2, None) \<Rightarrow> (s2, did True)))"

definition reload_Check :: "'s Target \<Rightarrow> 's \<Rightarrow> check_answer" where
  "reload_Check tgt s =
     unsatisfied (drift1 ''state'' []
       (if \<not> tg_SupportsReload tgt s then ''restarted (reload not supported)''
        else ServiceState_String StateReloaded))"

definition reload_Execute :: "(err \<Rightarrow> string) \<Rightarrow> 's Target \<Rightarrow> cycleOp \<Rightarrow> 's \<Rightarrow> 's \<times> exec_answer" where
  "reload_Execute etext tgt op s =
     (case tg_DaemonReload tgt s of
        (s1, Some e) \<Rightarrow> (s1, exec_failed (DaemonReloadError (cy_name op) (etext e) (cy_nameSpan op)))
      | (s1, None) \<Rightarrow>
          (if \<not> tg_SupportsReload tgt s1 then
             (case tg_Restart tgt s1 (cy_name op) of
                (s2, Some e) \<Rightarrow> (s2, exec_failed (ServiceCommandError ''restart'' (cy_name op) (etext e) (cy_nameSpan op)))
              | (s2, None) \<Rightarrow> (s2, did True))
           else
             (case tg_Reload tgt s1 (cy_name op) of
                (s2, Some e) \<Rightarrow> (s2, exec_failed (ServiceCommandError ''reload'' (cy_name op) (etext e) (cy_nameSpan op)))
              | (s2, None) \<Rightarrow> (s2, did True))))"

section \<open>The ops of the step\<close>

definition svc_cycle :: "serviceStep \<Rightarrow> cycleOp" where
  "svc_cycle a = \<lparr>cy_name = ss_name a, cy_nameSpan = field_value (ss_step a) ''name''\<rparr>"

definition svc_active :: "serviceStep \<Rightarrow> ensureActiveOp" where
  "svc_active a = \<lparr>ea_name = ss_name a, ea_state = ss_state a, ea_nameSpan = field_value (ss_step a) ''name''\<rparr>"

definition svc_enabled :: "serviceStep \<Rightarrow> ensureEnabledOp" where
  "svc_enabled a = \<lparr>ee_name = ss_name a, ee_enabled = ss_enabled a, ee_nameSpan = field_value (ss_step a) ''name''\<rparr>"

definition service_Ops :: "(err \<Rightarrow> string) \<Rightarrow> 's Target \<Rightarrow> nat \<Rightarrow> serviceStep \<Rightarrow> 's step_code" where
  "service_Ops etext tgt p a =
     (case ss_state a of
        StateRestarted \<Rightarrow>
          [(mk_op p ''restart_service'' [] Service, op_impl restart_Check (restart_Execute etext tgt (svc_cycle a)))]
      | StateReloaded \<Rightarrow>
          [(mk_op p ''reload_service'' [] Service, op_impl (reload_Check tgt) (reload_Execute etext tgt (svc_cycle a)))]
      | _ \<Rightarrow>
          [(mk_op p ''ensure_service_active'' [] Service,
              op_impl (ea_Check tgt (svc_active a)) (ea_Execute etext tgt (svc_active a))),
           (mk_op (p + 1) ''ensure_service_enabled'' [] Service,
              op_impl (ee_Check tgt (svc_enabled a)) (ee_Execute etext tgt (svc_enabled a)))])"

section \<open>The laws of a service manager\<close>

locale service_manager =
  fixes tgt :: "'s Target"
  assumes started: "tg_Start tgt s u = (s', None) \<Longrightarrow> tg_IsActive tgt s' u = Inr True"
    and stopped: "tg_Stop tgt s u = (s', None) \<Longrightarrow> tg_IsActive tgt s' u = Inr False"
    and enabled: "tg_Enable tgt s u = (s', None) \<Longrightarrow> tg_IsEnabled tgt s' u = Inr True"
    and disabled: "tg_Disable tgt s u = (s', None) \<Longrightarrow> tg_IsEnabled tgt s' u = Inr False"
    and running_keeps_boot: "tg_Start tgt s u = (s', e) \<or> tg_Stop tgt s u = (s', e) \<or> tg_DaemonReload tgt s = (s', e) \<Longrightarrow>
        tg_IsEnabled tgt s' = tg_IsEnabled tgt s"
    and boot_keeps_running: "tg_Enable tgt s u = (s', e) \<or> tg_Disable tgt s u = (s', e) \<Longrightarrow>
        tg_IsActive tgt s' = tg_IsActive tgt s"

lemma ea_satisfied:
  "op_satisfied (op_impl (ea_Check tgt op) x) s \<longleftrightarrow> tg_IsActive tgt s (ea_name op) = Inr (ea_state op = StateRunning)"
  by (auto simp: ea_Check_def answers_def Let_def split: sum.splits if_splits)

lemma ee_satisfied:
  "op_satisfied (op_impl (ee_Check tgt op) x) s \<longleftrightarrow> tg_IsEnabled tgt s (ee_name op) = Inr (ee_enabled op)"
  by (auto simp: ee_Check_def answers_def split: sum.splits if_splits)

lemma ea_Execute_spec:
  assumes m: "service_manager tgt" and x: "ea_Execute etext tgt op s = (s', a)"
  shows "\<exists>res e. a = Inr (res, e)" "tg_IsEnabled tgt s' = tg_IsEnabled tgt s"
    and "a = Inr (res, None) \<Longrightarrow> tg_IsActive tgt s' (ea_name op) = Inr (ea_state op = StateRunning)"
proof -
  note keep = service_manager.running_keeps_boot [OF m]
  show "\<exists>res e. a = Inr (res, e)"
    using x by (auto simp: ea_Execute_def did_def exec_failed_def Let_def
        split: sum.splits if_splits prod.splits option.splits)
  show "tg_IsEnabled tgt s' = tg_IsEnabled tgt s"
    using x by (auto simp: ea_Execute_def Let_def dest!: keep [OF disjI1] keep [OF disjI2 [OF disjI1]]
        keep [OF disjI2 [OF disjI2]] split: sum.splits if_splits prod.splits option.splits)
  assume "a = Inr (res, None)"
  with x show "tg_IsActive tgt s' (ea_name op) = Inr (ea_state op = StateRunning)"
    by (auto simp: ea_Execute_def did_def exec_failed_def Let_def
        dest: service_manager.started [OF m] service_manager.stopped [OF m]
        split: sum.splits if_splits prod.splits option.splits)
qed

lemma ee_Execute_spec:
  assumes m: "service_manager tgt" and x: "ee_Execute etext tgt op s = (s', a)"
  shows "\<exists>res e. a = Inr (res, e)" "tg_IsActive tgt s' = tg_IsActive tgt s"
    and "a = Inr (res, None) \<Longrightarrow> tg_IsEnabled tgt s' (ee_name op) = Inr (ee_enabled op)"
proof -
  note keep = service_manager.boot_keeps_running [OF m]
  show "\<exists>res e. a = Inr (res, e)"
    using x by (auto simp: ee_Execute_def did_def exec_failed_def
        split: sum.splits if_splits prod.splits option.splits)
  show "tg_IsActive tgt s' = tg_IsActive tgt s"
    using x by (auto simp: ee_Execute_def dest!: keep [OF disjI1] keep [OF disjI2]
        split: sum.splits if_splits prod.splits option.splits)
  assume "a = Inr (res, None)"
  with x show "tg_IsEnabled tgt s' (ee_name op) = Inr (ee_enabled op)"
    by (auto simp: ee_Execute_def did_def exec_failed_def
        dest: service_manager.enabled [OF m] service_manager.disabled [OF m]
        split: sum.splits if_splits prod.splits option.splits)
qed

text \<open>The two ops of a step that keeps a service running or stopped do not disturb each other.\<close>

definition svc_full :: "(err \<Rightarrow> string) \<Rightarrow> 's Target \<Rightarrow> serviceStep \<Rightarrow> nat \<Rightarrow> 's OpImpl" where
  "svc_full etext tgt a i =
     (if i = 0 then op_impl (ea_Check tgt (svc_active a)) (ea_Execute etext tgt (svc_active a))
      else op_impl (ee_Check tgt (svc_enabled a)) (ee_Execute etext tgt (svc_enabled a)))"

lemma svc_full_satisfied:
  "op_satisfied (svc_full etext tgt a i) s \<longleftrightarrow>
     (if i = 0 then tg_IsActive tgt s (ss_name a) = Inr (ss_state a = StateRunning)
      else tg_IsEnabled tgt s (ss_name a) = Inr (ss_enabled a))"
  using ea_satisfied [of tgt "svc_active a" _ s] ee_satisfied [of tgt "svc_enabled a" _ s]
  by (simp add: svc_full_def svc_active_def svc_enabled_def)

lemma svc_contract:
  assumes m: "service_manager tgt"
  shows "step_contract 2 (\<lambda>_. []) (svc_full etext tgt a) (\<lambda>_. True)"
proof (rule step_contract.intro)
  fix i :: nat and s s' ans assume "i < 2"
  show "impl_Check (svc_full etext tgt a i) s \<noteq> None" by (simp add: svc_full_def del: not_None_eq)
  assume "impl_Check (svc_full etext tgt a i) s = Some (s', ans)"
  then have "s' = s" "fst ans = CheckSatisfied \<longrightarrow> op_satisfied (svc_full etext tgt a i) s"
    by (auto simp: svc_full_def ea_Check_def ee_Check_def answers_def Let_def split: sum.splits if_splits)
  then show "True \<and> (fst ans = CheckSatisfied \<longrightarrow> op_satisfied (svc_full etext tgt a i) s')
      \<and> (\<forall>k < 2. op_satisfied (svc_full etext tgt a k) s \<longrightarrow> op_satisfied (svc_full etext tgt a k) s')" by simp
next
  fix i :: nat and s s' res e assume i: "i < 2" and x: "impl_Execute (svc_full etext tgt a i) s = (s', Inr (res, e))"
  show "True \<and> (\<forall>k < 2. k \<noteq> i \<longrightarrow> op_satisfied (svc_full etext tgt a k) s \<longrightarrow> op_satisfied (svc_full etext tgt a k) s')"
    unfolding svc_full_satisfied
    using i x ea_Execute_spec(2) [OF m, of etext "svc_active a" s s'] ee_Execute_spec(2) [OF m, of etext "svc_enabled a" s s']
    by (cases "i = 0") (auto simp: svc_full_def)
next
  fix i :: nat and s s' res assume x: "impl_Execute (svc_full etext tgt a i) s = (s', Inr (res, None))"
  show "op_satisfied (svc_full etext tgt a i) s'"
    unfolding svc_full_satisfied
    using x ea_Execute_spec(3) [OF m, of etext "svc_active a" s s'] ee_Execute_spec(3) [OF m, of etext "svc_enabled a" s s']
    by (cases "i = 0") (auto simp: svc_full_def svc_active_def svc_enabled_def)
next
  fix i :: nat and s s' p assume x: "impl_Execute (svc_full etext tgt a i) s = (s', Inl p)"
  then show False
    using ea_Execute_spec(1) [OF m, of etext "svc_active a" s s'] ee_Execute_spec(1) [OF m, of etext "svc_enabled a" s s']
    by (cases "i = 0") (auto simp: svc_full_def)
qed

section \<open>The in-memory target is a service manager\<close>

interpretation mem_services: service_manager "mem_target now iter" for now iter
  by (rule service_manager.intro)
    (auto simp: mem_Start_def mem_Stop_def mem_Enable_def mem_Disable_def mem_DaemonReload_def
      mem_IsActive_def mem_IsEnabled_def fun_eq_iff)

section \<open>Properties\<close>

lemma service_Ops_keep:
  assumes "ss_state a = StateRunning \<or> ss_state a = StateStopped"
  shows "length (service_Ops etext tgt p a) = 2"
    and "i < 2 \<Longrightarrow> code_impl (service_Ops etext tgt p a) i = svc_full etext tgt a i"
  using assms by (auto simp: service_Ops_def svc_full_def code_impl_def less_2_cases_iff)

lemma service_contract:
  assumes m: "service_manager tgt" and "ss_state a = StateRunning \<or> ss_state a = StateStopped"
  shows "step_contract 2 (\<lambda>_. []) (code_impl (service_Ops etext tgt p a)) (\<lambda>_. True)"
  by (rule step_contract_sub [OF svc_contract [OF m], where role = "\<lambda>i. i"])
    (use service_Ops_keep(2) [OF assms(2)] in simp_all)

text \<open>A service step that keeps a service running or stopped ends, if no op failed, with the service in that state
  and enabled at boot exactly when the configuration says so, whichever of its two ops runs first.\<close>

theorem service_step_converges:
  assumes "service_manager tgt" and "ss_state a = StateRunning \<or> ss_state a = StateStopped"
    and "buildPlan (map fst (service_Ops etext tgt p a)) = Inr ns"
    and "step_reaches sc (code_impl (service_Ops etext tgt p a)) ns s0 ns' r s"
    and "op_wait_done r" and "r_grp_err r = None"
  shows "tg_IsActive tgt s (ss_name a) = Inr (ss_state a = StateRunning)
    \<and> tg_IsEnabled tgt s (ss_name a) = Inr (ss_enabled a)"
proof -
  have plan: "plan_ok (map fst (service_Ops etext tgt p a)) ns" "length ns = 2"
    using buildPlan_spec [of "map fst (service_Ops etext tgt p a)"] assms(3) service_Ops_keep(1) [OF assms(2), of etext tgt p]
    by (auto dest: plan_fresh(4))
  have "\<forall>i < 2. op_satisfied (svc_full etext tgt a i) s"
    using step_contract.run_converges [OF service_contract [OF assms(1,2)] assms(4) plan TrueI assms(5,6)]
      service_Ops_keep(2) [OF assms(2)] by metis
  then have "op_satisfied (svc_full etext tgt a 0) s" "op_satisfied (svc_full etext tgt a 1) s" by auto
  then show ?thesis unfolding svc_full_satisfied by simp
qed

text \<open>A restart or reload step always has its one op to run; on the in-memory target a finished run has
  restarted the service exactly once, or reloaded it exactly once where reloading is asked for and supported, and has
  changed nothing else.\<close>

theorem mem_service_cycled_once:
  assumes "ss_state a = StateRestarted \<or> ss_state a = StateReloaded"
    and "buildPlan (map fst (service_Ops etext (mem_target now iter) p a)) = Inr ns"
    and "step_reaches sc (code_impl (service_Ops etext (mem_target now iter) p a)) ns m ns' r m'"
    and "op_wait_done r"
  shows "r_grp_err r = None
    \<and> m' = (if ss_state a = StateRestarted \<or> m_ReloadUnsupported m
            then m\<lparr>m_Restarts := AList.update (ss_name a) (map_get 0 (m_Restarts m) (ss_name a) + 1) (m_Restarts m)\<rparr>
            else m\<lparr>m_Reloads := AList.update (ss_name a) (map_get 0 (m_Reloads m) (ss_name a) + 1) (m_Reloads m)\<rparr>)"
proof -
  let ?ops = "service_Ops etext (mem_target now iter) p a"
  have "length ?ops = 1" using assms(1) by (auto simp: service_Ops_def)
  then have plan: "plan_ok (map fst ?ops) ns" "length ns = 1"
    using buildPlan_spec [of "map fst ?ops"] assms(2) by (auto dest: plan_fresh(4))
  obtain c x where i: "code_impl ?ops 0 = op_impl c x" and c: "\<And>t. fst (c t) = CheckUnsatisfied"
    and x: "x = (if ss_state a = StateRestarted then restart_Execute etext (mem_target now iter) (svc_cycle a)
                 else reload_Execute etext (mem_target now iter) (svc_cycle a))"
    using assms(1)
    by (auto simp: service_Ops_def code_impl_def restart_Check_def reload_Check_def unsatisfied_def)
  have "\<exists>res e. impl_Execute (code_impl ?ops 0) m = (m', Inr (res, e)) \<and> (r_grp_err r = None \<longleftrightarrow> e = None)"
  proof (rule single_op_reaches [where k = 0, OF assms(3) plan(1) assms(4)])
    show "t' = t" if "j \<in> {..<length ns}" "impl_Check (code_impl ?ops j) t = Some (t', ans)" for j t t' ans
      using that i plan(2) by simp
    show "\<not> op_satisfied (code_impl ?ops 0) m" using c by (simp add: i)
    show "e = None" if "j < length ns" "impl_Check (code_impl ?ops j) m = Some (m, CheckSatisfied, d, e)" for j d e
      using that i plan(2) c [of m] by auto
  qed (use plan(2) in auto)
  then obtain res e where e: "x m = (m', Inr (res, e))" "r_grp_err r = None \<longleftrightarrow> e = None" by (auto simp: i)
  show ?thesis
    using e assms(1) unfolding x
    by (auto simp: restart_Execute_def reload_Execute_def svc_cycle_def did_def mem_DaemonReload_def
        mem_SupportsReload_def mem_Restart_def mem_Reload_def split: if_splits)
qed

definition web_service :: "ServiceState \<Rightarrow> serviceStep" where
  "web_service st = \<lparr>ss_desc = ''web'', ss_name = ''web'', ss_state = st, ss_enabled = True,
     ss_step = \<lparr>ds_ID = 3, ds_Desc = [], ds_Kind = ''service'', ds_ProvidesFor = None, ds_Resources = None,
       ds_OnChange = [], ds_Span = zero_span, ds_Fields = Map.empty\<rparr>\<rparr>"

text \<open>The step on a target where the service runs already and only has to be enabled.\<close>

definition mem_web_running :: MemTarget where
  "mem_web_running = NewMemTarget\<lparr>m_Services := [(''web'', True)]\<rparr>"

lemma service_step_converges_witness:
  "\<exists>m. mem_IsActive m ''web'' = Inr True \<and> mem_IsEnabled m ''web'' = Inr True"
proof -
  let ?T = "mem_target (\<lambda>_. 0) (\<lambda>xs. xs) :: MemTarget Target" and ?a = "web_service StateRunning"
  let ?ops = "service_Ops (\<lambda>_. []) ?T 4 ?a"
  have st: "ss_state ?a = StateRunning \<or> ss_state ?a = StateStopped" by (simp add: web_service_def)
  have fst_ops: "map fst ?ops = [mk_op 4 ''ensure_service_active'' [] Service, mk_op 5 ''ensure_service_enabled'' [] Service]"
    by (simp add: service_Ops_def web_service_def)
  have "dep_edges (map fst ?ops) = {}" by (auto simp: fst_ops mk_op_def dep_edges_def)
  then have "ops_ok (map fst ?ops)" by (simp add: fst_ops ops_ok_def mk_op_def acyclic_def)
  then obtain ns where ns: "buildPlan (map fst ?ops) = Inr ns" "plan_ok (map fst ?ops) ns"
    using buildPlan_spec [of "map fst ?ops"] by (auto split: sum.splits)
  have len: "length ns = 2" using plan_fresh(4) [OF ns(2)] by (simp add: fst_ops)
  have impl: "code_impl ?ops i = svc_full (\<lambda>_. []) ?T ?a i" if "i < 2" for i using service_Ops_keep(2) [OF st that] .
  let ?m = mem_web_running
  obtain m where x: "impl_Execute (code_impl ?ops 1) ?m = (m, Inr (\<lparr>res_changed = True\<rparr>, None))"
    using impl [of 1]
    by (simp add: svc_full_def ee_Execute_def) (simp add: svc_enabled_def web_service_def mem_IsEnabled_def
        mem_web_running_def NewMemTarget_def map_get_def mem_Enable_def did_def)
  have en: "\<not> op_satisfied (svc_full (\<lambda>_. []) ?T ?a 1) ?m" and act: "op_satisfied (svc_full (\<lambda>_. []) ?T ?a 0) ?m"
    unfolding svc_full_satisfied
    by (simp_all add: web_service_def mem_IsEnabled_def mem_IsActive_def mem_web_running_def NewMemTarget_def map_get_def)
  have chk: "\<exists>res d. impl_Check (svc_full (\<lambda>_. []) ?T ?a i) ?m = Some (?m, res, d, None)" for i
    by (auto simp: svc_full_def ea_Check_def ee_Check_def mem_IsActive_def mem_IsEnabled_def answers_def Let_def)
  have "\<exists>ns' r. step_reaches apply_sched (code_impl ?ops) ns ?m ns' r m \<and> op_wait_done r
      \<and> (r_grp_err r = None \<longleftrightarrow> None = (None :: err option))"
  proof (rule single_op_completes [where k = 1, OF ns(2)])
    show "impl_Execute (code_impl ?ops 1) ?m = (m, Inr (\<lparr>res_changed = True\<rparr>, None))" by (rule x)
    show "\<not> op_satisfied (code_impl ?ops 1) ?m" using en impl [of 1] by simp
    show "op_satisfied (code_impl ?ops i) ?m" if "i < length ns" "i \<noteq> 1" for i
    proof -
      have "i = 0" using that len by linarith
      then show ?thesis using act impl [of 0] by simp
    qed
    show "\<exists>res d. impl_Check (code_impl ?ops i) ?m = Some (?m, res, d, None)" if "i < length ns" for i
      using that len chk [of i] impl [of i] by simp
  qed (simp add: len)
  then obtain ns' r where r: "step_reaches apply_sched (code_impl ?ops) ns ?m ns' r m" "op_wait_done r"
    "r_grp_err r = None" by blast
  from service_step_converges [OF mem_services.service_manager_axioms st ns(1) r]
  show ?thesis by (auto simp: web_service_def)
qed

lemma mem_service_cycled_once_witness:
  "\<exists>ns ns' r. step_reaches apply_sched (code_impl (service_Ops (\<lambda>_. []) (mem_target (\<lambda>_. 0) (\<lambda>xs. xs)) 4 (web_service StateRestarted)))
       ns NewMemTarget ns' r (NewMemTarget\<lparr>m_Restarts := [(''web'', 1)]\<rparr>)"
proof -
  let ?T = "mem_target (\<lambda>_. 0) (\<lambda>xs. xs) :: MemTarget Target" and ?a = "web_service StateRestarted"
  let ?ops = "service_Ops (\<lambda>_. []) ?T 4 ?a"
  have fst_ops: "map fst ?ops = [mk_op 4 ''restart_service'' [] Service]" by (simp add: service_Ops_def web_service_def)
  have c: "impl_Check (code_impl ?ops 0) NewMemTarget
      = Some (NewMemTarget, CheckUnsatisfied, drift1 ''state'' [] ''restarted'', None)"
    by (simp add: service_Ops_def web_service_def code_impl_def restart_Check_def unsatisfied_def ServiceState_String_def)
  obtain m where x: "impl_Execute (code_impl ?ops 0) NewMemTarget = (m, Inr (\<lparr>res_changed = True\<rparr>, None))"
    by (simp add: service_Ops_def web_service_def code_impl_def restart_Execute_def did_def mem_DaemonReload_def
        mem_Restart_def)
  have "op_deps (mk_op 4 ''restart_service'' [] Service) = []" by (simp add: mk_op_def)
  from one_op_run [where impl = "code_impl ?ops" and sc = apply_sched, OF this c x] obtain ns ns' r where
    r: "buildPlan (map fst ?ops) = Inr ns" "step_reaches apply_sched (code_impl ?ops) ns NewMemTarget ns' r m" "op_wait_done r"
    unfolding fst_ops by blast
  have st: "ss_state ?a = StateRestarted \<or> ss_state ?a = StateReloaded" by (simp add: web_service_def)
  from mem_service_cycled_once [OF st r]
  have "m = NewMemTarget\<lparr>m_Restarts := [(''web'', 1)]\<rparr>" by (simp add: web_service_def NewMemTarget_def map_get_def)
  with r(2) show ?thesis by blast
qed

end
