(* ===== verification/Symlink.thy ===== *)
theory Symlink
  imports Step_Run File_Ops Go_Paths
begin

text \<open>
  The step kind symlink (internal/step/symlink/symlink.go): its plan, the target of the link it
  computes, and its op. On any target that keeps links, a run without error leaves the link
  pointing at the configured target, also where that is given relative to the working directory.
\<close>

section \<open>Plan\<close>

record SymlinkConfig =
  slc_Desc :: string
  slc_Target :: string
  slc_Link :: string
  slc_Provides :: "string list"
  slc_Requires :: "string list"

record symlinkStep =
  sls_desc :: string
  sls_kind :: string
  sls_target :: path
  sls_link :: path
  sls_step :: DeclaredStep

definition symlink_Plan :: "SymlinkConfig \<Rightarrow> DeclaredStep \<Rightarrow> symlinkStep" where
  "symlink_Plan cfg st =
     \<lparr>sls_desc = slc_Desc cfg, sls_kind = ''symlink'', sls_target = slc_Target cfg, sls_link = slc_Link cfg,
      sls_step = st\<rparr>"

definition symlink_Requires :: "symlinkStep \<Rightarrow> Resource list" where
  "symlink_Requires a = [PathResource (sls_target a)]"

definition symlink_Provides :: "symlinkStep \<Rightarrow> Resource list" where
  "symlink_Provides a = [PathResource (sls_link a)]"

section \<open>Errors\<close>

definition LinkDirMissingError :: "string \<Rightarrow> Span \<Rightarrow> err" where
  "LinkDirMissingError p span =
     step_diag ''step.symlink.LinkDirMissing'' ''link directory \"{{.Path}}\" does not exist''
       ''add dir(path=\"{{.Path}}\") to your deploy steps before this symlink''
       ''the symlink step does not create directories automatically'' [p] (Some span)
       (Some (PathResource p)) None"

definition LinkReadError :: "string \<Rightarrow> Span \<Rightarrow> err \<Rightarrow> err" where
  "LinkReadError p span e =
     step_diag ''step.symlink.LinkRead'' ''cannot read link \"{{.Path}}\"''
       ''verify the parent directory of \"{{.Path}}\" exists and scampi has read permission on it'' ''{{.Err}}''
       [p] (Some span) None (Some e)"

section \<open>The op\<close>

record ensureSymlinkOp =
  es_target :: path
  es_link :: path
  es_DestSpan :: Span

text \<open>\<open>cwd\<close> is what os.Getwd answers on the machine scampi runs on: an absolute path, or an error.\<close>

definition resolveTarget :: "err + path \<Rightarrow> path \<Rightarrow> path \<Rightarrow> err + path" where
  "resolveTarget cwd target lnk =
     (if IsAbs target then Inr target
      else
        (case Abs cwd target of
           Inl e \<Rightarrow> Inl e
         | Inr absTarget \<Rightarrow>
             (case Abs cwd lnk of
                Inl e \<Rightarrow> Inl e
              | Inr absLink \<Rightarrow> Inr (Rel_abs (Dir absLink) absTarget))))"

definition is_symlink :: "FileInfo \<Rightarrow> bool" where
  "is_symlink info \<longleftrightarrow> fi_Mode info AND ModeSymlink \<noteq> 0"

definition describeNonSymlink :: "FileInfo \<Rightarrow> string" where
  "describeNonSymlink info =
     (if fi_IsDir info then ''directory''
      else if IsRegular (fi_Mode info) then ''regular file''
      else FileMode_String (fi_Mode info))"

definition es_Check :: "err + path \<Rightarrow> 's Target \<Rightarrow> ensureSymlinkOp \<Rightarrow> 's \<Rightarrow> check_answer" where
  "es_Check cwd tgt op s =
     (case tg_Stat tgt s (Dir (es_link op)) of
        Inl _ \<Rightarrow> check_failed (LinkDirMissingError (Dir (es_link op)) (es_DestSpan op))
      | Inr _ \<Rightarrow>
          (case resolveTarget cwd (es_target op) (es_link op) of
             Inl e \<Rightarrow> check_failed (LinkReadError (es_link op) (es_DestSpan op) e)
           | Inr relTarget \<Rightarrow>
               (case tg_Lstat tgt s (es_link op) of
                  Inl e \<Rightarrow>
                    (if IsNotExist e then unsatisfied (drift1 ''target'' [] relTarget)
                     else check_failed (LinkReadError (es_link op) (es_DestSpan op) e))
                | Inr info \<Rightarrow>
                    (if \<not> is_symlink info
                     then unsatisfied (drift1 ''target'' (describeNonSymlink info) relTarget)
                     else
                       (case tg_Readlink tgt s (es_link op) of
                          Inl e \<Rightarrow> check_failed (LinkReadError (es_link op) (es_DestSpan op) e)
                        | Inr current \<Rightarrow>
                            (if current \<noteq> relTarget then unsatisfied (drift1 ''target'' current relTarget)
                             else satisfied))))))"

text \<open>The error of a call that changes the target, and the end of Execute, which makes the link.\<close>

definition es_error :: "ensureSymlinkOp \<Rightarrow> string \<Rightarrow> err \<Rightarrow> exec_answer" where
  "es_error op what e =
     exec_failed (if IsPermission e then PermissionDeniedError (what @ '' '' @ es_link op) (es_DestSpan op) e
                  else DiagnoseTargetError e)"

definition es_create :: "'s Target \<Rightarrow> ensureSymlinkOp \<Rightarrow> path \<Rightarrow> 's \<Rightarrow> 's \<times> exec_answer" where
  "es_create tgt op relTarget s =
     (case tg_Symlink tgt s relTarget (es_link op) of
        (s', Some e) \<Rightarrow> (s', es_error op ''symlink'' e)
      | (s', None) \<Rightarrow> (s', did True))"

definition es_Execute :: "err + path \<Rightarrow> 's Target \<Rightarrow> ensureSymlinkOp \<Rightarrow> 's \<Rightarrow> 's \<times> exec_answer" where
  "es_Execute cwd tgt op s =
     (case resolveTarget cwd (es_target op) (es_link op) of
        Inl e \<Rightarrow> (s, exec_failed e)
      | Inr relTarget \<Rightarrow>
          (case tg_Lstat tgt s (es_link op) of
             Inr info \<Rightarrow>
               (if is_symlink info
                   \<and> (case tg_Readlink tgt s (es_link op) of Inl _ \<Rightarrow> [] | Inr current \<Rightarrow> current) = relTarget
                then (s, did False)
                else
                  (case tg_Remove tgt s (es_link op) of
                     (s', Some e) \<Rightarrow> (s', es_error op ''remove'' e)
                   | (s', None) \<Rightarrow> es_create tgt op relTarget s'))
           | Inl _ \<Rightarrow> es_create tgt op relTarget s))"

definition symlink_op :: "symlinkStep \<Rightarrow> ensureSymlinkOp" where
  "symlink_op a = \<lparr>es_target = sls_target a, es_link = sls_link a, es_DestSpan = field_value (sls_step a) ''link''\<rparr>"

definition symlink_Ops :: "err + path \<Rightarrow> 's Target \<Rightarrow> nat \<Rightarrow> symlinkStep \<Rightarrow> 's step_code" where
  "symlink_Ops cwd tgt p a =
     [(mk_op p ''symlink'' [] (Filesystem OR SymlinkCap),
       op_impl (es_Check cwd tgt (symlink_op a)) (es_Execute cwd tgt (symlink_op a)))]"

section \<open>Where the link leads\<close>

text \<open>The path a link's text denotes, read in the directory of the link.\<close>

definition link_leads :: "path \<Rightarrow> path \<Rightarrow> path" where
  "link_leads lnk txt = Clean (if IsAbs txt then txt else Dir (Clean lnk) @ ''/'' @ txt)"

lemma Abs_abs: "IsAbs wd \<Longrightarrow> \<exists>q. Abs (Inr wd) p = Inr (Clean q) \<and> IsAbs q \<and> (IsAbs p \<longrightarrow> q = p) \<and> (\<not> IsAbs p \<longrightarrow> q = wd @ ''/'' @ p)"
  by (cases "IsAbs p") (auto simp: Abs_def Join2_def IsAbs_append)

lemma Dir_abs:
  assumes "IsAbs p"
  shows "IsAbs (Dir p)" "Clean (Dir p) = Dir p"
proof -
  obtain q where p: "p = CHR ''/'' # q" using assms by (cases p) auto
  let ?d = "rev (dropWhile (\<lambda>c. c \<noteq> CHR ''/'') (rev p))"
  have "dropWhile (\<lambda>c. c \<noteq> CHR ''/'') (rev p) = dropWhile (\<lambda>c. c \<noteq> CHR ''/'') (rev q) @ [CHR ''/'']
      \<or> dropWhile (\<lambda>c. c \<noteq> CHR ''/'') (rev p) = [CHR ''/'']"
    unfolding p by (cases "CHR ''/'' \<in> set q") (auto simp: dropWhile_append)
  then have "IsAbs ?d" by auto
  then show "IsAbs (Dir p)" "Clean (Dir p) = Dir p" by (simp_all add: Dir_def Clean_IsAbs Clean_idem)
qed

lemma not_abs_Join: "\<forall>x \<in> set xs. x \<noteq> [] \<and> CHR ''/'' \<notin> set x \<Longrightarrow> \<not> IsAbs (strings_Join ''/'' xs)"
proof (cases xs)
  case (Cons x ys)
  assume "\<forall>x \<in> set xs. x \<noteq> [] \<and> CHR ''/'' \<notin> set x"
  with Cons obtain c cs where "x = c # cs" "c \<noteq> CHR ''/''" by (cases x) auto
  with Cons show ?thesis by (cases ys) auto
qed simp

lemma Join_Nil: "\<forall>x \<in> set xs. x \<noteq> [] \<Longrightarrow> xs \<noteq> [] \<Longrightarrow> strings_Join sep xs \<noteq> []"
  by (cases xs; cases "tl xs") auto

lemma Rel_abs_text:
  assumes "IsAbs p" and "IsAbs q"
  shows "\<not> IsAbs (Rel_abs p q)" "Rel_abs p q \<noteq> []"
proof -
  obtain b ts where bt: "strip_common (segments (Clean p)) (segments (Clean q)) = (b, ts)" by force
  then obtain c where c: "segments (Clean p) = c @ b" "segments (Clean q) = c @ ts" using strip_common_spec by blast
  have ts: "\<forall>x \<in> set ts. x \<noteq> [] \<and> CHR ''/'' \<notin> set x"
  proof
    fix x assume "x \<in> set ts"
    with c(2) have "x \<in> set (segments (Clean q))" by simp
    then show "x \<noteq> [] \<and> CHR ''/'' \<notin> set x" by (rule segments_ok)
  qed
  let ?xs = "replicate (length b) ''..'' @ ts"
  have "\<forall>x \<in> set (replicate (length b) ''..''). x \<noteq> [] \<and> CHR ''/'' \<notin> set x"
    by (simp add: set_replicate_conv_if)
  with ts have n: "\<forall>x \<in> set ?xs. x \<noteq> [] \<and> CHR ''/'' \<notin> set x" by (simp only: set_append ball_Un)
  have ne: "?xs \<noteq> []" if "Clean q \<noteq> Clean p" using Clean_eqI [OF assms] c that by auto
  show "\<not> IsAbs (Rel_abs p q)" using not_abs_Join [OF n] by (simp add: Rel_abs_def bt)
  show "Rel_abs p q \<noteq> []" using Join_Nil [of ?xs "''/''"] n ne by (simp add: Rel_abs_def bt)
qed

lemma resolveTarget_rel:
  assumes "IsAbs wd" and "IsAbs lnk" and "\<not> IsAbs target"
  shows "resolveTarget (Inr wd) target lnk = Inr (Rel_abs (Dir (Clean lnk)) (Clean (wd @ ''/'' @ target)))"
  using Abs_abs [OF assms(1), of target] assms by (auto simp: resolveTarget_def Abs_def)

lemma resolveTarget_leads:
  assumes "IsAbs wd" and "IsAbs lnk" and t: "resolveTarget (Inr wd) target lnk = Inr t"
  shows "link_leads lnk t = Clean (if IsAbs target then target else wd @ ''/'' @ target)" "t \<noteq> []"
proof -
  let ?d = "Dir (Clean lnk)" and ?q = "wd @ ''/'' @ target"
  have d: "IsAbs ?d" "Clean ?d = ?d" using Dir_abs [OF Clean_IsAbs [OF assms(2)]] by simp_all
  have q: "IsAbs ?q" using assms(1) by (simp add: IsAbs_append)
  have "link_leads lnk t = Clean (if IsAbs target then target else ?q) \<and> t \<noteq> []"
  proof (cases "IsAbs target")
    case True
    with t show ?thesis by (auto simp: resolveTarget_def link_leads_def)
  next
    case False
    then have tr: "t = Rel_abs ?d (Clean ?q)" using t resolveTarget_rel [OF assms(1,2)] by simp
    note r = Rel_abs_text [OF d(1) Clean_IsAbs [OF q], folded tr]
    have "link_leads lnk t = Clean (Clean ?d @ ''/'' @ Rel_abs ?d (Clean ?q))"
      using r(1) by (simp only: link_leads_def d(2) tr if_False)
    then show ?thesis using Rel_leads [OF d(1) Clean_IsAbs [OF q]] r(2) False Clean_idem [OF q] by simp
  qed
  then show "link_leads lnk t = Clean (if IsAbs target then target else ?q)" "t \<noteq> []" by blast+
qed

section \<open>The laws of a target with links\<close>

text \<open>What can be read without following links lies in a directory that can be read.\<close>

locale link_store =
  fixes tgt :: "'s Target" and plain :: "path \<Rightarrow> bool"
  assumes lstat_dir: "plain p \<Longrightarrow> tg_Lstat tgt s p = Inr info \<Longrightarrow> \<not> isl (tg_Stat tgt s (Dir p))"
    and linked: "plain p \<Longrightarrow> tg_Symlink tgt s t p = (s', None) \<Longrightarrow>
        (\<exists>info. tg_Lstat tgt s' p = Inr info \<and> is_symlink info) \<and> tg_Readlink tgt s' p = Inr t"

definition link_made :: "err + path \<Rightarrow> 's Target \<Rightarrow> ensureSymlinkOp \<Rightarrow> 's \<Rightarrow> bool" where
  "link_made cwd tgt op s \<longleftrightarrow>
     (\<exists>t. resolveTarget cwd (es_target op) (es_link op) = Inr t \<and> tg_Readlink tgt s (es_link op) = Inr t)
     \<and> (\<exists>info. tg_Lstat tgt s (es_link op) = Inr info \<and> is_symlink info)"

lemma es_satisfied:
  "op_satisfied (op_impl (es_Check cwd tgt op) x) s \<longleftrightarrow>
     \<not> isl (tg_Stat tgt s (Dir (es_link op))) \<and> link_made cwd tgt op s"
  by (auto simp: es_Check_def answers_def link_made_def split: sum.splits if_splits)

context link_store
begin

lemma es_satisfied_plain:
  "plain (es_link op) \<Longrightarrow> op_satisfied (op_impl (es_Check cwd tgt op) x) s \<longleftrightarrow> link_made cwd tgt op s"
  unfolding es_satisfied using lstat_dir by (auto simp: link_made_def)

lemma es_create_spec:
  assumes "plain (es_link op)" and "es_create tgt op t s = (s', Inr (res, e))"
    and "resolveTarget cwd (es_target op) (es_link op) = Inr t" and "e = None"
  shows "link_made cwd tgt op s'"
  using assms linked [of "es_link op" s t s']
  by (auto simp: es_create_def es_error_def exec_failed_def did_def link_made_def split: prod.splits option.splits)

lemma es_Execute_spec:
  assumes p: "plain (es_link op)" and x: "es_Execute cwd tgt op s = (s', a)"
    and nonempty: "\<And>t. resolveTarget cwd (es_target op) (es_link op) = Inr t \<Longrightarrow> t \<noteq> []"
  shows "\<exists>res e. a = Inr (res, e)" "a = Inr (res, None) \<Longrightarrow> link_made cwd tgt op s'"
proof -
  show "\<exists>res e. a = Inr (res, e)"
    using x by (auto simp: es_Execute_def es_create_def es_error_def did_def exec_failed_def
        split: sum.splits if_splits prod.splits option.splits)
  assume a: "a = Inr (res, None)"
  then obtain t where t: "resolveTarget cwd (es_target op) (es_link op) = Inr t"
    using x by (auto simp: es_Execute_def exec_failed_def split: sum.splits)
  note made = es_create_spec [OF p _ t refl]
  show "link_made cwd tgt op s'"
  proof (cases "tg_Lstat tgt s (es_link op)")
    case (Inl e)
    with x t a show ?thesis by (auto simp: es_Execute_def intro: made)
  next
    case (Inr info)
    show ?thesis
    proof (cases "is_symlink info \<and> (case tg_Readlink tgt s (es_link op) of Inl _ \<Rightarrow> [] | Inr current \<Rightarrow> current) = t")
      case True
      then have "s' = s" using x t Inr by (simp add: es_Execute_def)
      moreover have "tg_Readlink tgt s (es_link op) = Inr t"
        using True nonempty [OF t] by (auto split: sum.splits)
      ultimately show ?thesis using True t Inr by (auto simp: link_made_def)
    next
      case False
      with x t a Inr show ?thesis
        by (auto simp: es_Execute_def es_error_def exec_failed_def split: prod.splits option.splits intro: made)
    qed
  qed
qed

lemma es_contract:
  assumes p: "plain (es_link op)"
    and nonempty: "\<And>t. resolveTarget cwd (es_target op) (es_link op) = Inr t \<Longrightarrow> t \<noteq> []"
  shows "step_contract 1 (\<lambda>_. []) (\<lambda>_. op_impl (es_Check cwd tgt op) (es_Execute cwd tgt op)) (\<lambda>_. True)"
proof (rule one_op_contract)
  fix s
  show "\<exists>a. impl_Check (op_impl (es_Check cwd tgt op) (es_Execute cwd tgt op)) s = Some (s, a)
      \<and> (fst a = CheckSatisfied \<longrightarrow> snd (snd a) = None)"
    by (auto simp: es_Check_def answers_def split: sum.split)
next
  fix s s' res e
  assume x: "impl_Execute (op_impl (es_Check cwd tgt op) (es_Execute cwd tgt op)) s = (s', Inr (res, e))"
  show "True \<and> (e = None \<longrightarrow> op_satisfied (op_impl (es_Check cwd tgt op) (es_Execute cwd tgt op)) s')"
    using es_Execute_spec(2) [OF p _ nonempty] x unfolding es_satisfied_plain [OF p] by auto
next
  fix s s' m
  assume "impl_Execute (op_impl (es_Check cwd tgt op) (es_Execute cwd tgt op)) s = (s', Inl m)"
  then show False using es_Execute_spec(1) [OF p _ nonempty] by fastforce
qed

end

section \<open>The in-memory target keeps links\<close>

definition mem_link_path :: "path \<Rightarrow> bool" where
  "mem_link_path p \<longleftrightarrow> IsAbs p \<and> Clean p = p \<and> p \<noteq> ''/''"

lemma implicit_parent:
  assumes "mem_link_path p" and "q \<in> fst ` set (m_Files m) \<union> fst ` set (m_Symlinks m)" and "q = p \<or> HasPrefix q (p @ ''/'')"
  shows "Dir p = ''/'' \<or> isImplicitDir m (Dir p)"
proof (cases "Dir p = ''/''")
  case False
  define d where "d = Dir p"
  have "\<exists>name. name \<noteq> [] \<and> p = (if d = ''/'' then ''/'' @ name else d @ ''/'' @ name)"
    unfolding d_def by (rule Clean_parent) (use assms(1) in \<open>auto simp: mem_link_path_def\<close>)
  with False obtain name where n: "name \<noteq> []" "p = d @ ''/'' @ name" by (auto simp: d_def)
  obtain r where "q = p @ r" using assms(3) by (auto simp: HasPrefix_iff)
  with n(2) have "q = (d @ ''/'') @ name @ r" by simp
  then have "HasPrefix q (d @ ''/'')" "length q > length (d @ ''/'')"
    using n(1) HasPrefix_append [of "d @ ''/''" "name @ r"] by simp_all
  with assms(2) have "isImplicitDir m d" unfolding isImplicitDir_def Let_def list_ex_iff set_map by blast
  then show ?thesis by (simp add: d_def)
qed simp

lemma symlink_mode: "(ModeSymlink OR m) AND ModeSymlink \<noteq> 0"
proof -
  have "(ModeSymlink OR m) AND ModeSymlink = ModeSymlink" by (rule bit_word_eqI) (auto simp: bit_simps)
  moreover have "ModeSymlink \<noteq> 0" by (simp add: ModeSymlink_def)
  ultimately show ?thesis by simp
qed

interpretation mem_links: link_store "mem_target now iter" mem_link_path for now iter
proof (rule link_store.intro)
  fix p s info assume p: "mem_link_path p" and "tg_Lstat (mem_target now iter) s p = Inr info"
  then have "\<exists>q \<in> fst ` set (m_Files s) \<union> fst ` set (m_Symlinks s). q = p \<or> HasPrefix q (p @ ''/'')"
    by (auto simp: mem_Lstat_def mem_link_path_def isImplicitDir_def Let_def list_ex_iff
        split: if_splits option.splits dest!: map_of_SomeD intro: rev_bexI)
  then have "Dir p = ''/'' \<or> isImplicitDir s (Dir p)" using implicit_parent [OF p] by blast
  then show "\<not> isl (tg_Stat (mem_target now iter) s (Dir p))"
    by (auto simp: mem_Stat_def split: option.split)
next
  fix p s t s' assume "mem_link_path p" "tg_Symlink (mem_target now iter) s t p = (s', None)"
  then show "(\<exists>info. tg_Lstat (mem_target now iter) s' p = Inr info \<and> is_symlink info)
      \<and> tg_Readlink (mem_target now iter) s' p = Inr t"
    using symlink_mode [of 511]
    by (auto simp: mem_Symlink_def mem_Lstat_def mem_Readlink_def mem_link_path_def is_symlink_def update_conv)
qed

section \<open>Properties\<close>

lemma symlink_Ops_impl:
  "map fst (symlink_Ops cwd tgt p a) = [mk_op p ''symlink'' [] (Filesystem OR SymlinkCap)]"
  "code_impl (symlink_Ops cwd tgt p a) 0 = op_impl (es_Check cwd tgt (symlink_op a)) (es_Execute cwd tgt (symlink_op a))"
  "es_target (symlink_op a) = sls_target a" "es_link (symlink_op a) = sls_link a"
  by (simp_all add: symlink_Ops_def code_impl_def symlink_op_def)

text \<open>C26: on any target that keeps links, once the op of a symlink step has returned without error the link is there,
  and its text, read in the directory of the link, leads to the configured target: as it is written when it is
  absolute, from the working directory of scampi otherwise.\<close>

theorem symlink_step_converges:
  assumes "link_store tgt plain" and "plain (sls_link a)" and "IsAbs wd" and "IsAbs (sls_link a)"
    and "buildPlan (map fst (symlink_Ops (Inr wd) tgt p a)) = Inr ns"
    and "step_reaches sc (code_impl (symlink_Ops (Inr wd) tgt p a)) ns s0 ns' r s"
    and "op_wait_done r" and "r_grp_err r = None"
  shows "\<exists>info t. tg_Lstat tgt s (sls_link a) = Inr info \<and> is_symlink info \<and> tg_Readlink tgt s (sls_link a) = Inr t
    \<and> link_leads (sls_link a) t
        = Clean (if IsAbs (sls_target a) then sls_target a else wd @ ''/'' @ sls_target a)"
proof -
  let ?op = "symlink_op a"
  have plan: "plan_ok (map fst (symlink_Ops (Inr wd) tgt p a)) ns" "length ns = 1"
    using buildPlan_spec [of "map fst (symlink_Ops (Inr wd) tgt p a)"] assms(5)
    by (auto simp: symlink_Ops_impl dest: plan_fresh(4))
  note leads = resolveTarget_leads [OF assms(3,4)]
  have c: "step_contract 1 (\<lambda>_. []) (\<lambda>_. op_impl (es_Check (Inr wd) tgt ?op) (es_Execute (Inr wd) tgt ?op)) (\<lambda>_. True)"
    by (rule link_store.es_contract [OF assms(1)]) (use assms(2) leads(2) in \<open>auto simp: symlink_Ops_impl\<close>)
  have "step_contract 1 (\<lambda>_. []) (code_impl (symlink_Ops (Inr wd) tgt p a)) (\<lambda>_. True)"
    by (rule step_contract_sub [OF c, where role = "\<lambda>i. i"]) (simp_all add: symlink_Ops_impl)
  from step_contract.run_converges [OF this assms(6) plan TrueI assms(7,8)]
  have "op_satisfied (op_impl (es_Check (Inr wd) tgt ?op) (es_Execute (Inr wd) tgt ?op)) s"
    by (simp only: symlink_Ops_impl less_one simp_thms) 
  then have "link_made (Inr wd) tgt ?op s" unfolding es_satisfied by blast
  then show ?thesis using leads(1) by (auto simp: link_made_def symlink_Ops_impl)
qed

definition current_link :: symlinkStep where
  "current_link = \<lparr>sls_desc = [], sls_kind = ''symlink'', sls_target = ''v2/app'', sls_link = ''/srv/app'',
     sls_step = \<lparr>ds_ID = 2, ds_Desc = [], ds_Kind = ''symlink'', ds_ProvidesFor = None, ds_Resources = None,
       ds_OnChange = [], ds_Span = zero_span, ds_Fields = Map.empty\<rparr>\<rparr>"

definition mem_with_srv :: MemTarget where
  "mem_with_srv = NewMemTarget\<lparr>m_Dirs := [(''/srv'', 493)]\<rparr>"

text \<open>A link that is given relative to the working directory /srv/rel gets the text rel/v2/app.\<close>

lemma symlink_step_converges_witness:
  "\<exists>m. mem_Readlink m ''/srv/app'' = Inr ''rel/v2/app''
     \<and> link_leads ''/srv/app'' ''rel/v2/app'' = ''/srv/rel/v2/app''"
proof -
  let ?T = "mem_target (\<lambda>_. 0) (\<lambda>xs. xs) :: MemTarget Target"
  let ?impl = "code_impl (symlink_Ops (Inr ''/srv/rel'') ?T 3 current_link)"
  have t: "resolveTarget (Inr ''/srv/rel'') ''v2/app'' ''/srv/app'' = Inr ''rel/v2/app''" by code_simp
  have d: "Dir ''/srv/app'' = ''/srv''" and cl: "Clean ''/srv/app'' = ''/srv/app''" by code_simp+
  have c: "impl_Check (?impl 0) mem_with_srv = Some (mem_with_srv, CheckUnsatisfied, drift1 ''target'' [] ''rel/v2/app'', None)"
    unfolding symlink_Ops_impl
    by (simp add: es_Check_def symlink_Ops_impl current_link_def t d mem_Stat_def mem_Lstat_def mem_with_srv_def
        NewMemTarget_def isImplicitDir_def notExist_def IsNotExist_def ErrNotExist_def unsatisfied_def)
  obtain m where x: "impl_Execute (?impl 0) mem_with_srv = (m, Inr (\<lparr>res_changed = True\<rparr>, None))"
    and m: "mem_Readlink m ''/srv/app'' = Inr ''rel/v2/app''"
    unfolding symlink_Ops_impl
    by (simp add: es_Execute_def es_create_def symlink_Ops_impl current_link_def t mem_Lstat_def mem_with_srv_def
        NewMemTarget_def isImplicitDir_def mem_Symlink_def mem_Readlink_def did_def)
  have "op_deps (mk_op 3 ''symlink'' [] (Filesystem OR SymlinkCap)) = []" by (simp add: mk_op_def)
  from one_op_run [where impl = ?impl and sc = apply_sched, OF this c x]
  obtain ns ns' r where run: "buildPlan [mk_op 3 ''symlink'' [] (Filesystem OR SymlinkCap)] = Inr ns"
    "step_reaches apply_sched ?impl ns mem_with_srv ns' r m" "op_wait_done r" "r_grp_err r = None" by blast
  have ok: "mem_link_path (sls_link current_link)" "IsAbs ''/srv/rel''" "IsAbs (sls_link current_link)"
    using cl by (simp_all add: current_link_def mem_link_path_def)
  have "buildPlan (map fst (symlink_Ops (Inr ''/srv/rel'') ?T 3 current_link)) = Inr ns"
    using run(1) by (simp add: symlink_Ops_impl)
  from symlink_step_converges [OF mem_links.link_store_axioms ok this run(2-4)]
  have "link_leads ''/srv/app'' ''rel/v2/app'' = Clean (''/srv/rel'' @ ''/'' @ ''v2/app'')"
    using m by (auto simp: current_link_def)
  also have "\<dots> = ''/srv/rel/v2/app''" by code_simp
  finally show ?thesis using m by blast
qed

end
