(* ===== verification/Sysctl.thy ===== *)
theory Sysctl
  imports Step_Run File_Ops Go_Paths
begin

text \<open>
  The step kind sysctl (internal/step/sysctl): its op that sets the running value with the
  \<open>sysctl\<close> command, and the op that writes the drop-in file or removes a stale one.
\<close>

section \<open>Plan\<close>

record SysctlConfig =
  scc_Desc :: string
  scc_Key :: string
  scc_Value :: string
  scc_Persist :: bool
  scc_Provides :: "string list"
  scc_Requires :: "string list"

record sysctlStep =
  sct_desc :: string
  sct_key :: string
  sct_value :: string
  sct_persist :: bool
  sct_step :: DeclaredStep

definition sysctl_Plan :: "SysctlConfig \<Rightarrow> DeclaredStep \<Rightarrow> sysctlStep" where
  "sysctl_Plan cfg st =
     \<lparr>sct_desc = scc_Desc cfg, sct_key = scc_Key cfg, sct_value = scc_Value cfg, sct_persist = scc_Persist cfg,
      sct_step = st\<rparr>"

definition dropInPath :: "string \<Rightarrow> path" where
  "dropInPath key = ''/etc/sysctl.d/99-scampi-'' @ replace_char (CHR ''.'') ''-'' key @ ''.conf''"

section \<open>Errors\<close>

definition sysctl_ReadError :: "string \<Rightarrow> string \<Rightarrow> err" where
  "sysctl_ReadError key stderr =
     step_diag ''step.sysctl.ReadFailed'' ''sysctl read failed for key \"{{.Key}}\"''
       ''verify \"{{.Key}}\" is a valid sysctl parameter on this kernel; check the spelling and namespace''
       ''{{.Stderr}}'' [key, stderr] None None None"

definition sysctl_WriteError :: "string \<Rightarrow> string \<Rightarrow> string \<Rightarrow> err" where
  "sysctl_WriteError key val stderr =
     step_diag ''step.sysctl.WriteFailed'' ''sysctl write failed for \"{{.Key}}\" = \"{{.Value}}\"''
       ''confirm scampi has privileges to write sysctl values and that \"{{.Value}}\" is valid for \"{{.Key}}\"''
       ''{{.Stderr}}'' [key, val, stderr] None None None"

definition PersistError :: "path \<Rightarrow> err \<Rightarrow> err" where
  "PersistError p e =
     step_diag ''step.sysctl.PersistFailed'' ''failed to write drop-in file \"{{.Path}}\"''
       ''ensure /etc/sysctl.d/ exists and is writable'' [] [p] None None (Some e)"

definition CleanupError :: "path \<Rightarrow> err \<Rightarrow> err" where
  "CleanupError p e =
     step_diag ''step.sysctl.CleanupFailed'' ''failed to remove stale drop-in file \"{{.Path}}\"''
       ''ensure /etc/sysctl.d/ is writable'' [] [p] None None (Some e)"

section \<open>set_op.go\<close>

record setSysctlOp =
  so_key :: string
  so_value :: string

definition stderr_text :: "CommandResult \<Rightarrow> string" where
  "stderr_text r = (if cr_Stderr r = [] then ''exit '' @ fmt_int (cr_ExitCode r) else cr_Stderr r)"

definition read_cmd :: "string \<Rightarrow> string" where
  "read_cmd key = ''sysctl -n '' @ key"

definition write_cmd :: "string \<Rightarrow> string \<Rightarrow> string" where
  "write_cmd key val = ''sysctl -w '' @ key @ ''='' @ val"

definition so_Check :: "'s Target \<Rightarrow> setSysctlOp \<Rightarrow> 's \<Rightarrow> 's \<times> check_answer" where
  "so_Check tgt op s =
     (case tg_RunCommand tgt s (read_cmd (so_key op)) of
        (s', Inl e) \<Rightarrow> (s', check_failed (DiagnoseTargetError e))
      | (s', Inr result) \<Rightarrow>
          (s', if cr_ExitCode result \<noteq> 0 then check_failed (sysctl_ReadError (so_key op) (stderr_text result))
               else
                 (let current = TrimSpace (cr_Stdout result)
                  in if current = so_value op then satisfied
                     else unsatisfied (drift1 (so_key op) current (so_value op)))))"

definition so_Execute :: "'s Target \<Rightarrow> setSysctlOp \<Rightarrow> 's \<Rightarrow> 's \<times> exec_answer" where
  "so_Execute tgt op s =
     (case tg_RunCommand tgt s (write_cmd (so_key op) (so_value op)) of
        (s', Inl e) \<Rightarrow> (s', exec_failed (DiagnoseTargetError e))
      | (s', Inr result) \<Rightarrow>
          (s', if cr_ExitCode result \<noteq> 0
               then exec_failed (sysctl_WriteError (so_key op) (so_value op) (stderr_text result))
               else did True))"

definition so_impl :: "'s Target \<Rightarrow> setSysctlOp \<Rightarrow> 's OpImpl" where
  "so_impl tgt op = \<lparr>impl_Check = (\<lambda>s. Some (so_Check tgt op s)), impl_Execute = so_Execute tgt op\<rparr>"

section \<open>persist_op.go and cleanup_op.go\<close>

record persistSysctlOp =
  po_key :: string
  po_value :: string
  po_path :: path

definition desiredContent :: "persistSysctlOp \<Rightarrow> string" where
  "desiredContent op = po_key op @ '' = '' @ po_value op @ [CHR 0x0A]"

definition po_Check :: "'s Target \<Rightarrow> persistSysctlOp \<Rightarrow> 's \<Rightarrow> check_answer" where
  "po_Check tgt op s =
     (case tg_ReadFile tgt s (po_path op) of
        Inl e \<Rightarrow>
          (if IsNotExist e then unsatisfied (drift1 ''drop-in'' ''(absent)'' (po_path op))
           else check_failed (DiagnoseTargetError e))
      | Inr current \<Rightarrow>
          (if current = desiredContent op then satisfied
           else unsatisfied (drift1 ''drop-in'' current (desiredContent op))))"

definition po_Execute :: "'s Target \<Rightarrow> persistSysctlOp \<Rightarrow> 's \<Rightarrow> 's \<times> exec_answer" where
  "po_Execute tgt op s =
     (case tg_WriteFile tgt s (po_path op) (desiredContent op) of
        (s', Some e) \<Rightarrow> (s', exec_failed (PersistError (po_path op) (DiagnoseTargetError e)))
      | (s', None) \<Rightarrow> (s', did True))"

record cleanupSysctlOp =
  co_path :: path

definition co_Check :: "'s Target \<Rightarrow> cleanupSysctlOp \<Rightarrow> 's \<Rightarrow> check_answer" where
  "co_Check tgt op s =
     (case tg_ReadFile tgt s (co_path op) of
        Inl e \<Rightarrow> (if IsNotExist e then satisfied else check_failed (DiagnoseTargetError e))
      | Inr _ \<Rightarrow> unsatisfied (drift1 ''drop-in'' (co_path op) ''(absent)''))"

definition co_Execute :: "'s Target \<Rightarrow> cleanupSysctlOp \<Rightarrow> 's \<Rightarrow> 's \<times> exec_answer" where
  "co_Execute tgt op s =
     (case tg_Remove tgt s (co_path op) of
        (s', Some e) \<Rightarrow>
          (s', if IsNotExist e then did False else exec_failed (CleanupError (co_path op) (DiagnoseTargetError e)))
      | (s', None) \<Rightarrow> (s', did True))"

definition sysctl_set :: "sysctlStep \<Rightarrow> setSysctlOp" where
  "sysctl_set a = \<lparr>so_key = sct_key a, so_value = sct_value a\<rparr>"

definition sysctl_persist :: "sysctlStep \<Rightarrow> persistSysctlOp" where
  "sysctl_persist a = \<lparr>po_key = sct_key a, po_value = sct_value a, po_path = dropInPath (sct_key a)\<rparr>"

definition sysctl_cleanup :: "sysctlStep \<Rightarrow> cleanupSysctlOp" where
  "sysctl_cleanup a = \<lparr>co_path = dropInPath (sct_key a)\<rparr>"

definition sysctl_Ops :: "'s Target \<Rightarrow> nat \<Rightarrow> sysctlStep \<Rightarrow> 's step_code" where
  "sysctl_Ops tgt p a =
     [(mk_op p ''sysctl.set'' [] CommandCap, so_impl tgt (sysctl_set a)),
      (if \<not> sct_persist a
       then (mk_op (p + 1) ''sysctl.cleanup'' [p] Filesystem,
             op_impl (co_Check tgt (sysctl_cleanup a)) (co_Execute tgt (sysctl_cleanup a)))
       else (mk_op (p + 1) ''sysctl.persist'' [p] Filesystem,
             op_impl (po_Check tgt (sysctl_persist a)) (po_Execute tgt (sysctl_persist a))))]"

section \<open>The laws of a target with the sysctl command\<close>

text \<open>What running \<open>sysctl -n\<close> in a state shows of a key.\<close>

definition shows_value :: "'s Target \<Rightarrow> 's \<Rightarrow> string \<Rightarrow> string \<Rightarrow> bool" where
  "shows_value tgt s key val \<longleftrightarrow>
     (\<exists>s' r. tg_RunCommand tgt s (read_cmd key) = (s', Inr r) \<and> cr_ExitCode r = 0 \<and> TrimSpace (cr_Stdout r) = val)"

text \<open>
  In the states where \<open>I\<close> holds: reading a value disturbs neither values nor files, setting one
  disturbs no file, and when it succeeds a value the kernel \<open>echoes\<close> is shown from then on;
  the file \<open>dropin\<close> holds what was written to it, and is gone once removed.
\<close>

locale sysctl_target =
  fixes tgt :: "'s Target" and I :: "'s \<Rightarrow> bool" and echoes :: "string \<Rightarrow> string \<Rightarrow> bool" and dropin :: path
  assumes read_keeps: "I s \<Longrightarrow> tg_RunCommand tgt s (read_cmd k) = (s', r) \<Longrightarrow>
        I s' \<and> tg_ReadFile tgt s' dropin = tg_ReadFile tgt s dropin
        \<and> (\<forall>v. shows_value tgt s' k v \<longleftrightarrow> shows_value tgt s k v)"
    and write_keeps: "I s \<Longrightarrow> tg_RunCommand tgt s (write_cmd k v) = (s', r) \<Longrightarrow>
        I s' \<and> tg_ReadFile tgt s' dropin = tg_ReadFile tgt s dropin"
    and write_done: "I s \<Longrightarrow> echoes k v \<Longrightarrow> tg_RunCommand tgt s (write_cmd k v) = (s', Inr res) \<Longrightarrow>
        cr_ExitCode res = 0 \<Longrightarrow> shows_value tgt s' k v"
    and file_keeps: "I s \<Longrightarrow> tg_WriteFile tgt s dropin d = (s', e) \<or> tg_Remove tgt s dropin = (s', e) \<Longrightarrow>
        I s' \<and> (\<forall>k v. shows_value tgt s' k v \<longleftrightarrow> shows_value tgt s k v)"
    and file_written: "I s \<Longrightarrow> tg_WriteFile tgt s dropin d = (s', None) \<Longrightarrow> tg_ReadFile tgt s' dropin = Inr d"
    and file_removed: "I s \<Longrightarrow> tg_Remove tgt s dropin = (s', e) \<Longrightarrow> e = None \<or> (\<exists>x. e = Some x \<and> IsNotExist x) \<Longrightarrow>
        \<exists>x. tg_ReadFile tgt s' dropin = Inl x \<and> IsNotExist x"

section \<open>What the ops ask of a state\<close>

lemma so_satisfied: "op_satisfied (so_impl tgt op) s \<longleftrightarrow> shows_value tgt s (so_key op) (so_value op)"
  by (auto simp: op_satisfied_iff so_impl_def so_Check_def shows_value_def answers_def Let_def
      split: prod.splits sum.splits if_splits)

lemma po_satisfied:
  "op_satisfied (op_impl (po_Check tgt op) x) s \<longleftrightarrow> tg_ReadFile tgt s (po_path op) = Inr (desiredContent op)"
  by (auto simp: po_Check_def answers_def split: sum.splits if_splits)

lemma co_satisfied:
  "op_satisfied (op_impl (co_Check tgt op) x) s \<longleftrightarrow>
     (\<exists>e. tg_ReadFile tgt s (co_path op) = Inl e \<and> IsNotExist e)"
  by (auto simp: co_Check_def answers_def split: sum.splits if_splits)

text \<open>The state of the drop-in file a step asks for.\<close>

definition dropin_ok :: "'s Target \<Rightarrow> sysctlStep \<Rightarrow> 's \<Rightarrow> bool" where
  "dropin_ok tgt a s \<longleftrightarrow>
     (if sct_persist a
      then tg_ReadFile tgt s (dropInPath (sct_key a)) = Inr (sct_key a @ '' = '' @ sct_value a @ [CHR 0x0A])
      else \<exists>e. tg_ReadFile tgt s (dropInPath (sct_key a)) = Inl e \<and> IsNotExist e)"

abbreviation sysctl_impl :: "'s Target \<Rightarrow> sysctlStep \<Rightarrow> nat \<Rightarrow> 's OpImpl" where
  "sysctl_impl tgt a \<equiv> code_impl (sysctl_Ops tgt 0 a)"

lemma sysctl_impl_any: "i < 2 \<Longrightarrow> code_impl (sysctl_Ops tgt p a) i = sysctl_impl tgt a i"
  by (auto simp: sysctl_Ops_def code_impl_def less_2_cases_iff)

lemma sysctl_satisfied:
  "op_satisfied (sysctl_impl tgt a 0) s \<longleftrightarrow> shows_value tgt s (sct_key a) (sct_value a)"
  "op_satisfied (sysctl_impl tgt a (Suc 0)) s \<longleftrightarrow> dropin_ok tgt a s"
  unfolding sysctl_Ops_def code_impl_def
  by (auto simp only: nth_Cons_0 nth_Cons_Suc snd_conv so_satisfied po_satisfied co_satisfied dropin_ok_def if_split
      split: if_split)
    (simp_all add: sysctl_set_def sysctl_persist_def sysctl_cleanup_def desiredContent_def)

section \<open>The contract of a step\<close>

context sysctl_target begin

lemma so_Check_spec:
  assumes "I s" and "so_Check tgt op s = (s', c)"
  shows "I s' \<and> tg_ReadFile tgt s' dropin = tg_ReadFile tgt s dropin
    \<and> (\<forall>v. shows_value tgt s' (so_key op) v \<longleftrightarrow> shows_value tgt s (so_key op) v)
    \<and> (fst c = CheckSatisfied \<longrightarrow> shows_value tgt s (so_key op) (so_value op))"
proof -
  obtain r where run: "tg_RunCommand tgt s (read_cmd (so_key op)) = (s', r)"
    using assms(2) by (auto simp: so_Check_def split: prod.splits sum.splits)
  moreover have "fst c = CheckSatisfied \<longrightarrow> shows_value tgt s (so_key op) (so_value op)"
    using assms(2) run
    by (auto simp: so_Check_def answers_def Let_def shows_value_def split: sum.splits if_splits)
  ultimately show ?thesis using read_keeps [OF assms(1) run] by simp
qed

lemma so_Execute_spec:
  assumes "I s" and "so_Execute tgt op s = (s', x)"
  shows "I s' \<and> tg_ReadFile tgt s' dropin = tg_ReadFile tgt s dropin" and "\<exists>res e. x = Inr (res, e)"
    and "x = Inr (res, None) \<Longrightarrow> echoes (so_key op) (so_value op) \<Longrightarrow> shows_value tgt s' (so_key op) (so_value op)"
proof -
  obtain r where run: "tg_RunCommand tgt s (write_cmd (so_key op) (so_value op)) = (s', r)"
    using assms(2) by (auto simp: so_Execute_def split: prod.splits sum.splits)
  show "I s' \<and> tg_ReadFile tgt s' dropin = tg_ReadFile tgt s dropin" by (rule write_keeps [OF assms(1) run])
  show "\<exists>res e. x = Inr (res, e)"
    using assms(2) run by (auto simp: so_Execute_def did_def exec_failed_def split: sum.splits)
  assume "x = Inr (res, None)" "echoes (so_key op) (so_value op)"
  then show "shows_value tgt s' (so_key op) (so_value op)"
    using assms run
    by (auto simp: so_Execute_def exec_failed_def split: sum.splits if_splits intro: write_done)
qed

text \<open>What writing or removing the drop-in file does, for either of the two file ops.\<close>

definition file_op :: "sysctlStep \<Rightarrow> 's \<Rightarrow> 's \<times> exec_answer" where
  "file_op a = (if \<not> sct_persist a then co_Execute tgt (sysctl_cleanup a) else po_Execute tgt (sysctl_persist a))"

lemma file_op_spec:
  assumes "I s" and "file_op a s = (s', x)" and d: "dropInPath (sct_key a) = dropin"
  shows "I s' \<and> (\<forall>k v. shows_value tgt s' k v \<longleftrightarrow> shows_value tgt s k v)" and "\<exists>res e. x = Inr (res, e)"
    and "x = Inr (res, None) \<Longrightarrow> dropin_ok tgt a s'"
proof -
  have path: "po_path (sysctl_persist a) = dropin" "co_path (sysctl_cleanup a) = dropin"
    by (simp_all add: sysctl_persist_def sysctl_cleanup_def d)
  obtain e where w: "tg_WriteFile tgt s dropin (desiredContent (sysctl_persist a)) = (s', e) \<and> sct_persist a
      \<or> tg_Remove tgt s dropin = (s', e) \<and> \<not> sct_persist a"
    and x: "x = Inr (res, None) \<longrightarrow> e = None \<or> \<not> sct_persist a \<and> (\<exists>y. e = Some y \<and> IsNotExist y)"
    using assms(2) unfolding file_op_def po_Execute_def co_Execute_def path
    by (auto simp: exec_failed_def split: prod.splits option.splits if_splits)
  show "I s' \<and> (\<forall>k v. shows_value tgt s' k v \<longleftrightarrow> shows_value tgt s k v)"
    by (rule file_keeps [OF assms(1)]) (use w in blast)
  show "\<exists>res e. x = Inr (res, e)"
    using assms(2) unfolding file_op_def po_Execute_def co_Execute_def
    by (auto simp: exec_failed_def did_def split: prod.splits option.splits if_splits)
  assume "x = Inr (res, None)"
  with x w show "dropin_ok tgt a s'"
    using file_written [OF assms(1)] file_removed [OF assms(1)]
    by (auto simp: dropin_ok_def d sysctl_persist_def desiredContent_def)
qed

lemma sysctl_contract:
  assumes d: "dropInPath (sct_key a) = dropin" and e: "echoes (sct_key a) (sct_value a)"
  shows "step_contract 2 (\<lambda>i. if i = 0 then [] else [0]) (sysctl_impl tgt a) I"
proof (rule step_contract.intro)
  have two: "i = 0 \<or> i = Suc 0" if "i < 2" for i :: nat using that by linarith
  have key: "so_key (sysctl_set a) = sct_key a" "so_value (sysctl_set a) = sct_value a" by (simp_all add: sysctl_set_def)
  have i0: "sysctl_impl tgt a 0 = so_impl tgt (sysctl_set a)" by (simp add: sysctl_Ops_def code_impl_def)
  define chk where "chk = (if \<not> sct_persist a then co_Check tgt (sysctl_cleanup a) else po_Check tgt (sysctl_persist a))"
  have i1: "sysctl_impl tgt a (Suc 0) = op_impl chk (file_op a)"
    by (simp add: sysctl_Ops_def code_impl_def file_op_def chk_def)
  have chk: "op_satisfied (op_impl chk (file_op a)) t" if "fst (chk t) = CheckSatisfied" for t
    using that by (auto simp: chk_def po_Check_def co_Check_def answers_def split: sum.splits if_splits)
  have x0: "impl_Execute (sysctl_impl tgt a 0) = so_Execute tgt (sysctl_set a)" by (simp add: i0 so_impl_def)
  have x1: "impl_Execute (sysctl_impl tgt a (Suc 0)) = file_op a" by (simp add: i1)
  fix i :: nat and s s' ans assume i: "i < 2" and I: "I s"
  show "impl_Check (sysctl_impl tgt a i) s \<noteq> None"
    using two [OF i] by (elim disjE) (simp_all only: i0 i1 so_impl_def op_impl_simps OpImpl.simps, simp_all)
  assume c: "impl_Check (sysctl_impl tgt a i) s = Some (s', ans)"
  from two [OF i] show "I s' \<and> (fst ans = CheckSatisfied \<longrightarrow> op_satisfied (sysctl_impl tgt a i) s')
      \<and> (\<forall>k < 2. op_satisfied (sysctl_impl tgt a k) s \<longrightarrow> op_satisfied (sysctl_impl tgt a k) s')"
  proof
    assume z: "i = 0"
    have "so_Check tgt (sysctl_set a) s = (s', ans)" using c by (simp add: z i0 so_impl_def)
    from so_Check_spec [OF I this] show ?thesis
      by (auto simp: z sysctl_satisfied key dropin_ok_def d dest!: two)
  next
    assume z: "i = Suc 0"
    have "s' = s" "ans = chk s" using c by (auto simp: z i1)
    then show ?thesis using I chk [of s] by (simp add: z i1)
  qed
next
  have two: "i = 0 \<or> i = Suc 0" if "i < 2" for i :: nat using that by linarith
  have x: "impl_Execute (sysctl_impl tgt a 0) = so_Execute tgt (sysctl_set a)"
    "impl_Execute (sysctl_impl tgt a (Suc 0)) = file_op a"
    by (auto simp: sysctl_Ops_def code_impl_def so_impl_def file_op_def)
  have key: "so_key (sysctl_set a) = sct_key a" "so_value (sysctl_set a) = sct_value a" by (simp_all add: sysctl_set_def)
  note spec = so_Execute_spec [of _ "sysctl_set a"] file_op_spec [OF _ _ d]
  {
    fix i :: nat and s s' res er assume i: "i < 2" and I: "I s" and c: "impl_Execute (sysctl_impl tgt a i) s = (s', Inr (res, er))"
    show "I s' \<and> (\<forall>k < 2. k \<noteq> i \<longrightarrow> op_satisfied (sysctl_impl tgt a k) s \<longrightarrow> op_satisfied (sysctl_impl tgt a k) s')"
      using two [OF i] c spec(1) [OF I, where s' = s'] spec(4) [OF I, where s' = s']
      by (auto simp: x sysctl_satisfied dropin_ok_def d dest!: two)
  next
    fix i :: nat and s s' res assume i: "i < 2" and I: "I s" and c: "impl_Execute (sysctl_impl tgt a i) s = (s', Inr (res, None))"
    show "op_satisfied (sysctl_impl tgt a i) s'"
      using two [OF i] c spec(3) [OF I, where s' = s'] spec(6) [OF I, where s' = s'] e
      by (auto simp: x sysctl_satisfied key)
  next
    fix i :: nat and s s' q assume i: "i < 2" and I: "I s" and c: "impl_Execute (sysctl_impl tgt a i) s = (s', Inl q)"
    show False
      using two [OF i] c spec(2) [OF I, where s' = s'] spec(5) [OF I, where s' = s'] by (auto simp: x)
  }
qed

end

section \<open>Running a converged step again\<close>

context step_contract begin

lemma check_ops_satisfied:
  assumes "check_ops impl order s = Some (s', answers)" and "I s" and "set order \<subseteq> {..<n}"
    and "\<forall>k < n. op_satisfied (impl k) s"
  shows "\<forall>i \<in> set order. \<exists>d. answers i = (CheckSatisfied, d, None)"
  using assms
proof (induction order arbitrary: s answers)
  case (Cons i order)
  from Cons.prems(1) obtain s1 a f where c: "impl_Check (impl i) s = Some (s1, a)"
    "check_ops impl order s1 = Some (s', f)" "answers = f(i := a)"
    by (auto split: option.splits prod.splits)
  have i: "i < n" using Cons.prems(3) by simp
  obtain d where "a = (CheckSatisfied, d, None)" using Cons.prems(4) i c(1) by (fastforce simp: op_satisfied_iff)
  moreover from check_keeps [OF i Cons.prems(2) c(1)] Cons.prems(3,4)
  have "\<forall>j \<in> set order. \<exists>d. f j = (CheckSatisfied, d, None)" by (intro Cons.IH [OF c(2)]) auto
  ultimately show ?case using c(3) by auto
qed simp

text \<open>The checks of ops that are all satisfied may change the state, but no op is executed.\<close>

lemma satisfied_run_launches_nothing:
  assumes reach: "step_reaches sc impl ns s0 ns' r s" and plan: "plan_ok ops ns" and n: "length ns = n"
    and I: "I s0" and sat: "\<forall>i < n. op_satisfied (impl i) s0"
  shows "r_launched r = []"
proof -
  from reach obtain order s1 answers evs evs' where
    run: "mset order = mset [0..<length ns]" "check_ops impl order s0 = Some (s1, answers)"
      "runChecks sc answers order (ns, evs, None) = (ns', evs', None)"
      "target_run sc impl ns' s1 r s" by (auto elim: step_reachesE)
  note c = checked_plan [OF plan run(3,1)]
  have "set order = {..<n}" using permutation_distinct(2) [OF run(1)] n by simp
  with check_ops_satisfied [OF run(2) I _ sat] have "\<exists>d. answers i = (CheckSatisfied, d, None)" if "i < n" for i
    using that by simp
  then have all: "n_satisfied (ns' ! i)" if "i < n" for i
    using runChecks_satisfied(2) [OF run(3,1) plan_fresh(1) [OF plan]] that n by blast
  have "{i. i < length ns' \<and> unsat ns' i} = {}" using all c(4) n by (auto simp: unsat_def)
  moreover have "set (r_launched r) \<subseteq> {i. i < length ns' \<and> unsat ns' i}"
    using op_reach_inv [OF target_run_reach [OF run(4)] c(1)] by (auto simp: op_inv_def dest!: ug_launched(1))
  ultimately have "set (r_launched r) \<subseteq> {}" by (simp only:)
  then show ?thesis by simp
qed

end

section \<open>The in-memory target with a given command function\<close>

text \<open>What \<open>sysctl -n\<close> prints of a key after the commands of \<open>log\<close>.\<close>

definition prints_value :: "(string list \<Rightarrow> string \<Rightarrow> err + CommandResult) \<Rightarrow> string list \<Rightarrow> string \<Rightarrow> string \<Rightarrow> bool" where
  "prints_value f log k v \<longleftrightarrow>
     (\<exists>r. f log (read_cmd k) = Inr r \<and> cr_ExitCode r = 0 \<and> TrimSpace (cr_Stdout r) = v)"

text \<open>A command function that does as the \<open>sysctl\<close> command documents, for the values that are echoed.\<close>

definition kernel_ok ::
  "(string list \<Rightarrow> string \<Rightarrow> err + CommandResult) \<Rightarrow> (string \<Rightarrow> string \<Rightarrow> bool) \<Rightarrow> bool" where
  "kernel_ok f echoes \<longleftrightarrow>
     (\<forall>log k v. prints_value f (log @ [read_cmd k]) k v \<longleftrightarrow> prints_value f log k v)
   \<and> (\<forall>log k v res. echoes k v \<longrightarrow> f log (write_cmd k v) = Inr res \<longrightarrow> cr_ExitCode res = 0
        \<longrightarrow> prints_value f (log @ [write_cmd k v]) k v)"

definition sysctl_ready ::
  "(string list \<Rightarrow> string \<Rightarrow> err + CommandResult) \<Rightarrow> (string \<Rightarrow> string \<Rightarrow> bool) \<Rightarrow> path \<Rightarrow> MemTarget \<Rightarrow> bool" where
  "sysctl_ready f echoes p m \<longleftrightarrow> m_CommandFunc m = Some f \<and> kernel_ok f echoes
     \<and> \<not> map_has (m_Symlinks m) p \<and> \<not> map_has (m_Dirs m) p"

lemma mem_shows_value:
  "m_CommandFunc m = Some f \<Longrightarrow> shows_value (mem_target now iter) m k v \<longleftrightarrow> prints_value f (m_Commands m) k v"
  by (auto simp: shows_value_def prints_value_def mem_RunCommand_def)

lemma mem_RunCommand_ready:
  assumes "sysctl_ready f echoes p m" and "mem_RunCommand m c = (m', r)"
  shows "sysctl_ready f echoes p m' \<and> mem_ReadFile m' q = mem_ReadFile m q"
    and "r = f (m_Commands m) c" and "m_CommandFunc m' = Some f" and "m_Commands m' = m_Commands m @ [c]"
  using assms by (auto simp: mem_RunCommand_def sysctl_ready_def mem_ReadFile_def)

lemma mem_file_keeps:
  assumes "sysctl_ready f echoes p m" and "mem_WriteFile now m p d = (m', e) \<or> mem_Remove m p = (m', e)"
  shows "sysctl_ready f echoes p m'"
    and "shows_value (mem_target now iter) m' k v \<longleftrightarrow> shows_value (mem_target now iter) m k v"
proof -
  show r: "sysctl_ready f echoes p m'"
    using assms by (auto simp: mem_WriteFile_def mem_Remove_def sysctl_ready_def split: if_splits)
  have "m_Commands m' = m_Commands m"
    using assms by (auto simp: mem_WriteFile_def mem_Remove_def sysctl_ready_def split: if_splits)
  then show "shows_value (mem_target now iter) m' k v \<longleftrightarrow> shows_value (mem_target now iter) m k v"
    using assms(1) r by (simp add: sysctl_ready_def mem_shows_value)
qed

interpretation mem_sysctl: sysctl_target "mem_target now iter" "sysctl_ready f echoes p" echoes p
  for now iter f echoes p
proof (rule sysctl_target.intro)
  fix s k s' r assume I: "sysctl_ready f echoes p s" and "tg_RunCommand (mem_target now iter) s (read_cmd k) = (s', r)"
  then have x: "mem_RunCommand s (read_cmd k) = (s', r)" by simp
  note c = mem_RunCommand_ready [OF I x]
  have "shows_value (mem_target now iter) s' k v \<longleftrightarrow> shows_value (mem_target now iter) s k v" for v
    using I by (simp add: mem_shows_value [OF c(3)] c(4) sysctl_ready_def mem_shows_value kernel_ok_def)
  then show "sysctl_ready f echoes p s' \<and> tg_ReadFile (mem_target now iter) s' p = tg_ReadFile (mem_target now iter) s p
      \<and> (\<forall>v. shows_value (mem_target now iter) s' k v \<longleftrightarrow> shows_value (mem_target now iter) s k v)"
    using c(1) by simp
next
  fix s k v s' r assume "sysctl_ready f echoes p s" "tg_RunCommand (mem_target now iter) s (write_cmd k v) = (s', r)"
  then show "sysctl_ready f echoes p s' \<and> tg_ReadFile (mem_target now iter) s' p = tg_ReadFile (mem_target now iter) s p"
    using mem_RunCommand_ready(1) by (metis mem_target_simps)
next
  fix s k v s' res assume I: "sysctl_ready f echoes p s" and e: "echoes k v" "cr_ExitCode res = 0"
    and "tg_RunCommand (mem_target now iter) s (write_cmd k v) = (s', Inr res)"
  then have x: "mem_RunCommand s (write_cmd k v) = (s', Inr res)" by simp
  note c = mem_RunCommand_ready [OF I x]
  show "shows_value (mem_target now iter) s' k v"
    using I e c(2) [symmetric] by (simp add: mem_shows_value [OF c(3)] c(4) sysctl_ready_def kernel_ok_def)
next
  fix s d s' e
  assume "sysctl_ready f echoes p s"
    and "tg_WriteFile (mem_target now iter) s p d = (s', e) \<or> tg_Remove (mem_target now iter) s p = (s', e)"
  then show "sysctl_ready f echoes p s'
      \<and> (\<forall>k v. shows_value (mem_target now iter) s' k v \<longleftrightarrow> shows_value (mem_target now iter) s k v)"
    using mem_file_keeps by (metis mem_target_simps)
next
  fix s d s' assume "tg_WriteFile (mem_target now iter) s p d = (s', None)"
  then show "tg_ReadFile (mem_target now iter) s' p = Inr d" by (auto simp: mem_WriteFile_def mem_ReadFile_def)
next
  fix s s' e assume "sysctl_ready f echoes p s" "tg_Remove (mem_target now iter) s p = (s', e)"
  then show "\<exists>x. tg_ReadFile (mem_target now iter) s' p = Inl x \<and> IsNotExist x"
    by (auto simp: mem_Remove_def mem_ReadFile_def sysctl_ready_def notExist_def IsNotExist_def ErrNotExist_def map_has_def
        split: if_splits)
qed

section \<open>A kernel that keeps the values written to it\<close>

text \<open>The values after some commands: those it booted with, except where a write of a known key came later.\<close>

definition after_cmd :: "string \<Rightarrow> (string \<rightharpoonup> string) \<Rightarrow> (string \<rightharpoonup> string)" where
  "after_cmd c vals =
     (if HasPrefix c ''sysctl -w ''
      then (let kv = drop 10 c; k = takeWhile (\<lambda>x. x \<noteq> CHR ''='') kv
            in if k \<in> dom vals then vals(k \<mapsto> drop (Suc (length k)) kv) else vals)
      else vals)"

definition unknown_key :: CommandResult where
  "unknown_key = \<lparr>cr_Stdout = [], cr_Stderr = ''sysctl: cannot stat'', cr_ExitCode = 255\<rparr>"

definition kernel :: "(string \<rightharpoonup> string) \<Rightarrow> string list \<Rightarrow> string \<Rightarrow> err + CommandResult" where
  "kernel boot log c =
     (let vals = fold after_cmd log boot
      in if HasPrefix c ''sysctl -n ''
         then (case vals (drop 10 c) of
                 None \<Rightarrow> Inr unknown_key
               | Some v \<Rightarrow> Inr \<lparr>cr_Stdout = v @ [CHR 0x0A], cr_Stderr = [], cr_ExitCode = 0\<rparr>)
         else if HasPrefix c ''sysctl -w '' \<and> vals (takeWhile (\<lambda>x. x \<noteq> CHR ''='') (drop 10 c)) \<noteq> None
         then Inr \<lparr>cr_Stdout = [], cr_Stderr = [], cr_ExitCode = 0\<rparr>
         else Inr unknown_key)"

text \<open>A key without an equals sign, and a value that is what is left of the line it is printed on.\<close>

definition plain_value :: "string \<Rightarrow> string \<Rightarrow> bool" where
  "plain_value k v \<longleftrightarrow> CHR ''='' \<notin> set k \<and> TrimSpace (v @ [CHR 0x0A]) = v"

lemma after_read: "after_cmd (read_cmd k) vals = vals"
  by (simp add: after_cmd_def read_cmd_def HasPrefix_def)

lemma before_equals: "CHR ''='' \<notin> set k \<Longrightarrow> takeWhile (\<lambda>x. x \<noteq> CHR ''='') (k @ CHR ''='' # v) = k"
  by (induction k) auto

lemma after_write:
  assumes "CHR ''='' \<notin> set k"
  shows "after_cmd (write_cmd k v) vals = (if k \<in> dom vals then vals(k \<mapsto> v) else vals)"
  using before_equals [OF assms, of v]
  by (simp add: after_cmd_def write_cmd_def HasPrefix_def Let_def)

lemma kernel_read:
  "kernel boot log (read_cmd k) = (case fold after_cmd log boot k of
     None \<Rightarrow> Inr unknown_key
   | Some v \<Rightarrow> Inr \<lparr>cr_Stdout = v @ [CHR 0x0A], cr_Stderr = [], cr_ExitCode = 0\<rparr>)"
  by (simp add: kernel_def read_cmd_def HasPrefix_def Let_def)

lemma kernel_write:
  assumes "CHR ''='' \<notin> set k"
  shows "kernel boot log (write_cmd k v) = Inr (if k \<in> dom (fold after_cmd log boot)
     then \<lparr>cr_Stdout = [], cr_Stderr = [], cr_ExitCode = 0\<rparr> else unknown_key)"
  using before_equals [OF assms, of v]
  by (auto simp: kernel_def write_cmd_def HasPrefix_def Let_def)

lemma dom_after_cmd [simp]: "dom (after_cmd c vals) = dom vals"
  by (auto simp: after_cmd_def Let_def)

lemma dom_after_log [simp]: "dom (fold after_cmd log boot) = dom boot"
  by (induction log arbitrary: boot) simp_all

lemma kernel_prints:
  "prints_value (kernel boot) log k v \<longleftrightarrow> (\<exists>w. fold after_cmd log boot k = Some w \<and> TrimSpace (w @ [CHR 0x0A]) = v)"
  by (auto simp: prints_value_def kernel_read unknown_key_def split: option.splits)

lemma kernel_kernel_ok: "kernel_ok (kernel boot) plain_value"
  by (auto simp: kernel_ok_def kernel_prints after_read after_write kernel_write plain_value_def unknown_key_def
      split: if_splits)

text \<open>On the in-memory target with this kernel a step of a key the kernel knows cannot fail.\<close>

lemma mem_sysctl_total:
  assumes v: "plain_value (sct_key a) (sct_value a)" and k: "sct_key a \<in> dom boot"
  shows "total_contract 2 (\<lambda>i. if i = 0 then [] else [0]) (sysctl_impl (mem_target now iter) a)
     (sysctl_ready (kernel boot) plain_value (dropInPath (sct_key a)))"
proof (rule total_contract.intro [OF _ total_contract_axioms.intro])
  show "step_contract 2 (\<lambda>i. if i = 0 then [] else [0]) (sysctl_impl (mem_target now iter) a)
     (sysctl_ready (kernel boot) plain_value (dropInPath (sct_key a)))"
    by (rule mem_sysctl.sysctl_contract) (use v in auto)
next
  let ?T = "mem_target now iter"
  have two: "i = 0 \<or> i = Suc 0" if "i < 2" for i :: nat using that by linarith
  have i0: "sysctl_impl ?T a 0 = so_impl ?T (sysctl_set a)"
    and i1: "sysctl_impl ?T a (Suc 0) = (if \<not> sct_persist a
      then op_impl (co_Check ?T (sysctl_cleanup a)) (co_Execute ?T (sysctl_cleanup a))
      else op_impl (po_Check ?T (sysctl_persist a)) (po_Execute ?T (sysctl_persist a)))"
    by (simp_all add: sysctl_Ops_def code_impl_def)
  have key: "so_key (sysctl_set a) = sct_key a" "so_value (sysctl_set a) = sct_value a" by (simp_all add: sysctl_set_def)
  fix i :: nat and s assume i: "i < 2" and I: "sysctl_ready (kernel boot) plain_value (dropInPath (sct_key a)) s"
  then have f: "m_CommandFunc s = Some (kernel boot)" and p: "\<not> map_has (m_Symlinks s) (dropInPath (sct_key a))"
      "\<not> map_has (m_Dirs s) (dropInPath (sct_key a))" by (auto simp: sysctl_ready_def)
  have rd: "\<forall>e. mem_ReadFile s (dropInPath (sct_key a)) = Inl e \<longrightarrow> IsNotExist e"
    using p by (auto simp: mem_ReadFile_def notExist_def IsNotExist_def ErrNotExist_def map_has_def split: option.splits)
  have "sct_key a \<in> dom (fold after_cmd (m_Commands s) boot)" using k by simp
  then obtain w where w: "fold after_cmd (m_Commands s) boot (sct_key a) = Some w" by blast
  {
    fix s' ans assume "impl_Check (sysctl_impl ?T a i) s = Some (s', ans)"
    then show "snd (snd ans) = None"
      using two [OF i] w rd
      by (auto simp: i0 i1 so_impl_def so_Check_def key mem_RunCommand_def f kernel_read answers_def Let_def
          po_Check_def co_Check_def sysctl_persist_def sysctl_cleanup_def split: sum.splits if_splits)
  next
    fix s' res e assume "impl_Execute (sysctl_impl ?T a i) s = (s', Inr (res, e))"
    then show "e = None"
      using two [OF i] k v p
      by (auto simp: i0 i1 so_impl_def so_Execute_def key mem_RunCommand_def f kernel_write plain_value_def did_def
          po_Execute_def co_Execute_def sysctl_persist_def sysctl_cleanup_def mem_WriteFile_def mem_Remove_def map_has_def
          exec_failed_def notExist_def IsNotExist_def ErrNotExist_def split: if_splits)
  }
qed

section \<open>Properties\<close>

text \<open>C27: on a target whose \<open>sysctl -n\<close> shows a value that \<open>sysctl -w\<close> has set, and on which reading and
  writing values disturbs no file: when a run of the ops of a sysctl step has ended without error, the running
  value is the wanted one and the drop-in file holds exactly the line of a persistent setting, or is gone for one
  that is not, whatever both were before; and running the step again executes nothing.\<close>

theorem sysctl_step_converges:
  assumes "sysctl_target tgt I echoes (dropInPath (sct_key a))" and "echoes (sct_key a) (sct_value a)"
    and "buildPlan (map fst (sysctl_Ops tgt p a)) = Inr ns" and "I s0"
    and "step_reaches sc (code_impl (sysctl_Ops tgt p a)) ns s0 ns' r s"
    and "op_wait_done r" and "r_grp_err r = None"
  shows "shows_value tgt s (sct_key a) (sct_value a)
    \<and> (if sct_persist a
       then tg_ReadFile tgt s (dropInPath (sct_key a)) = Inr (sct_key a @ '' = '' @ sct_value a @ [CHR 0x0A])
       else \<exists>e. tg_ReadFile tgt s (dropInPath (sct_key a)) = Inl e \<and> IsNotExist e)
    \<and> (\<forall>ns2 r2 s2. step_reaches sc (code_impl (sysctl_Ops tgt p a)) ns s ns2 r2 s2 \<longrightarrow> r_launched r2 = [])"
proof -
  have plan: "plan_ok (map fst (sysctl_Ops tgt p a)) ns"
    using buildPlan_spec [of "map fst (sysctl_Ops tgt p a)"] assms(3) by auto
  have two: "length ns = 2" using plan_fresh(4) [OF plan] by (simp add: sysctl_Ops_def)
  have c: "step_contract 2 (\<lambda>i. if i = 0 then [] else [0]) (code_impl (sysctl_Ops tgt p a)) I"
    by (rule step_contract_sub [OF sysctl_target.sysctl_contract [OF assms(1) refl assms(2)], where role = "\<lambda>i. i"])
      (use sysctl_impl_any [of _ tgt p a] in auto)
  note end_state = step_contract.run_converges [OF c assms(5) plan two assms(4,6,7)]
  then have sat: "op_satisfied (code_impl (sysctl_Ops tgt p a) i) s" if "i < 2" for i using that by blast
  have "op_satisfied (sysctl_impl tgt a 0) s" "op_satisfied (sysctl_impl tgt a (Suc 0)) s"
    using sat [of 0] sat [of 1] sysctl_impl_any [of 0 tgt p a] sysctl_impl_any [of 1 tgt p a] by simp_all
  moreover have "r_launched r2 = []" if "step_reaches sc (code_impl (sysctl_Ops tgt p a)) ns s ns2 r2 s2" for ns2 r2 s2
    using step_contract.satisfied_run_launches_nothing [OF c that plan two] end_state by blast
  ultimately show ?thesis unfolding sysctl_satisfied dropin_ok_def by simp
qed

definition forward_step :: sysctlStep where
  "forward_step = \<lparr>sct_desc = [], sct_key = ''net.ipv4.ip_forward'', sct_value = ''1'', sct_persist = True,
     sct_step = \<lparr>ds_ID = 2, ds_Desc = [], ds_Kind = ''sysctl'', ds_ProvidesFor = None, ds_Resources = None,
       ds_OnChange = [], ds_Span = zero_span, ds_Fields = Map.empty\<rparr>\<rparr>"

text \<open>A machine that booted with forwarding off.\<close>

definition booted :: MemTarget where
  "booted = NewMemTarget\<lparr>m_CommandFunc := Some (kernel [''net.ipv4.ip_forward'' \<mapsto> ''0''])\<rparr>"

lemma sysctl_step_converges_witness:
  "\<not> shows_value (mem_target (\<lambda>_. 0) (\<lambda>xs. xs)) booted ''net.ipv4.ip_forward'' ''1''
   \<and> (\<exists>m. shows_value (mem_target (\<lambda>_. 0) (\<lambda>xs. xs)) m ''net.ipv4.ip_forward'' ''1''
        \<and> mem_ReadFile m ''/etc/sysctl.d/99-scampi-net-ipv4-ip_forward.conf'' =
            Inr (''net.ipv4.ip_forward = 1'' @ [CHR 0x0A]))"
proof (rule conjI)
  let ?T = "mem_target (\<lambda>_. 0) (\<lambda>xs. xs)" and ?a = forward_step and ?k = "''net.ipv4.ip_forward''"
  let ?boot = "[?k \<mapsto> ''0'']" and ?ops = "sysctl_Ops ?T 0 ?a" and ?p = "dropInPath ?k"
  have f: "m_CommandFunc booted = Some (kernel ?boot)" "m_Commands booted = []"
    by (simp_all add: booted_def NewMemTarget_def)
  have zero: "TrimSpace (''0'' @ [CHR 0x0A]) = ''0''" and one: "plain_value ?k ''1''" by code_simp+
  show "\<not> shows_value ?T booted ?k ''1''" using zero by (simp add: mem_shows_value [OF f(1)] f(2) kernel_prints)
  have path: "?p = ''/etc/sysctl.d/99-scampi-net-ipv4-ip_forward.conf''" by code_simp
  have a: "sct_key ?a = ?k" "sct_value ?a = ''1''" "sct_persist ?a" by (simp_all add: forward_step_def)
  have fst_ops: "map fst ?ops = [mk_op 0 ''sysctl.set'' [] CommandCap, mk_op 1 ''sysctl.persist'' [0] Filesystem]"
    by (simp add: sysctl_Ops_def a)
  have "acyclic (dep_edges (map fst ?ops))"
  proof (rule acyclic_subset)
    show "dep_edges (map fst ?ops) \<subseteq> {(x, y). x < y}" by (auto simp: dep_edges_def fst_ops mk_op_def)
    show "acyclic {(x, y). x < (y :: nat)}" by (rule wf_acyclic [OF wf_less])
  qed
  then have "ops_ok (map fst ?ops)" by (simp add: fst_ops ops_ok_def mk_op_def)
  then obtain ns where ns: "buildPlan (map fst ?ops) = Inr ns" "plan_ok (map fst ?ops) ns"
    using buildPlan_spec [of "map fst ?ops"] by (auto split: sum.splits)
  have len: "length ns = 2" using plan_fresh(4) [OF ns(2)] by (simp add: fst_ops)
  have deps: "\<forall>i < 2. n_deps (ns ! i) = (if i = 0 then [] else [0])
      \<and> set (if i = 0 then [] else [0 :: nat]) \<subseteq> {..<2}"
    using plan_deps [OF ns(2), of 0 "[]"] plan_deps [OF ns(2), of 1 "[0]"] len
    by (auto simp: fst_ops mk_op_def less_2_cases_iff)
  define ready where "ready = sysctl_ready (kernel ?boot) plain_value (dropInPath (sct_key ?a))"
  have I: "ready booted"
    unfolding ready_def
    by (simp add: sysctl_ready_def f kernel_kernel_ok) (simp add: booted_def NewMemTarget_def map_has_def)
  have t: "total_contract 2 (\<lambda>i. if i = 0 then [] else [0]) (code_impl ?ops) ready"
    unfolding ready_def by (rule mem_sysctl_total) (use one a in auto)
  obtain ns' r m where r: "step_reaches apply_sched (code_impl ?ops) ns booted ns' r m" "op_wait_done r"
    using total_contract.step_completes(1) [OF t ns(2) len I deps, of apply_sched] by blast
  note none = total_contract.run_error_free [OF t r(1) ns(2) len I deps]
  have e: "plain_value (sct_key ?a) (sct_value ?a)" using one a by simp
  from sysctl_step_converges [OF mem_sysctl.sysctl_target_axioms [of _ _ "kernel ?boot"] e ns(1) I [unfolded ready_def] r none]
  have "shows_value ?T m ?k ''1'' \<and> mem_ReadFile m ?p = Inr (?k @ '' = '' @ ''1'' @ [CHR 0x0A])"
    by (simp only: a if_True mem_target_simps)
  then show "\<exists>m. shows_value ?T m ?k ''1'' \<and> mem_ReadFile m ''/etc/sysctl.d/99-scampi-net-ipv4-ip_forward.conf'' =
      Inr (''net.ipv4.ip_forward = 1'' @ [CHR 0x0A])"
    unfolding path by (intro exI [of _ m]) simp
qed

text \<open>
  Two consequences of how the ops are written: the names of two keys that differ only in a dot and a dash share a
  drop-in file, so that both cannot be persisted; and a value with white space at an end is never shown.
\<close>

lemma shared_dropin:
  "dropInPath ''net.ipv4'' = dropInPath ''net-ipv4''"
  "dropin_ok tgt a s \<Longrightarrow> dropin_ok tgt b s \<Longrightarrow> sct_persist a \<Longrightarrow> sct_persist b \<Longrightarrow>
     dropInPath (sct_key a) = dropInPath (sct_key b) \<Longrightarrow>
     sct_key a @ '' = '' @ sct_value a = sct_key b @ '' = '' @ sct_value b"
  by (code_simp, auto simp: dropin_ok_def)

lemma padded_value_never_shown:
  assumes "TrimSpace v \<noteq> v"
  shows "\<not> shows_value tgt s k v"
  using assms TrimSpace_idem by (auto simp: shows_value_def)

end
