(* ===== verification/Tokens.thy ===== *)
theory Tokens
  imports Prelude
begin

text \<open>
  Tokens and source positions of the configuration language (internal/lang/token): token kinds,
  the rule for automatic semicolons, keywords, and the resolution of byte offsets to lines and
  columns. Offsets are 32 bits wide, as in the code.
\<close>

section \<open>Kinds (token.go)\<close>

datatype Kind =
    K_Illegal | K_EOF | K_Semi
  | K_Ident | K_Int | K_String | K_StringBeg | K_StringCont | K_StringEnd
  | K_StringMulti | K_StringMultiBeg | K_StringMultiCont | K_StringMultiEnd
  | K_LInterp | K_RInterp
  | K_Module | K_Import | K_Let | K_Func | K_Decl | K_Type | K_Enum | K_For | K_In | K_If | K_Else
  | K_Return | K_True | K_False | K_None | K_Self | K_Pub
  | K_Plus | K_Minus | K_Star | K_Slash | K_Percent | K_Eq | K_Neq | K_Lt | K_Gt | K_Leq | K_Geq
  | K_And | K_Or | K_Not | K_Assign | K_Colon | K_Dot | K_Question | K_At
  | K_LBrace | K_RBrace | K_LBrack | K_RBrack | K_LParen | K_RParen | K_Comma

record Token =
  tok_Kind :: Kind
  tok_Pos :: u32
  tok_End :: u32

definition IsLiteral :: "Kind \<Rightarrow> bool" where
  "IsLiteral k = (case k of K_Ident \<Rightarrow> True | K_Int \<Rightarrow> True | K_String \<Rightarrow> True | K_StringBeg \<Rightarrow> True
     | K_StringCont \<Rightarrow> True | K_StringEnd \<Rightarrow> True | K_StringMulti \<Rightarrow> True | K_StringMultiBeg \<Rightarrow> True
     | K_StringMultiCont \<Rightarrow> True | K_StringMultiEnd \<Rightarrow> True | _ \<Rightarrow> False)"

definition EndsStatement :: "Kind \<Rightarrow> bool" where
  "EndsStatement k = (case k of K_Ident \<Rightarrow> True | K_Int \<Rightarrow> True | K_String \<Rightarrow> True | K_StringEnd \<Rightarrow> True
     | K_StringMulti \<Rightarrow> True | K_StringMultiEnd \<Rightarrow> True | K_True \<Rightarrow> True | K_False \<Rightarrow> True | K_None \<Rightarrow> True
     | K_Self \<Rightarrow> True | K_Return \<Rightarrow> True | K_RBrace \<Rightarrow> True | K_RBrack \<Rightarrow> True | K_RParen \<Rightarrow> True
     | _ \<Rightarrow> False)"

definition Keywords :: "(string \<times> Kind) list" where
  "Keywords =
     [(''module'', K_Module), (''import'', K_Import), (''let'', K_Let), (''func'', K_Func), (''decl'', K_Decl),
      (''type'', K_Type), (''enum'', K_Enum), (''for'', K_For), (''in'', K_In), (''if'', K_If), (''else'', K_Else),
      (''return'', K_Return), (''true'', K_True), (''false'', K_False), (''none'', K_None), (''self'', K_Self),
      (''pub'', K_Pub)]"

definition Lookup :: "string \<Rightarrow> Kind" where
  "Lookup s = (case map_of Keywords s of Some k \<Rightarrow> k | None \<Rightarrow> K_Ident)"

lemma EndsStatement_simps [simp]:
  "EndsStatement K_Ident" "EndsStatement K_Int" "EndsStatement K_String" "EndsStatement K_StringEnd"
  "EndsStatement K_StringMulti" "EndsStatement K_StringMultiEnd" "EndsStatement K_True" "EndsStatement K_False"
  "EndsStatement K_None" "EndsStatement K_Self" "EndsStatement K_Return" "EndsStatement K_RBrace"
  "EndsStatement K_RBrack" "EndsStatement K_RParen" "\<not> EndsStatement K_Semi" "\<not> EndsStatement K_EOF"
  "\<not> EndsStatement K_LInterp" "\<not> EndsStatement K_RInterp" "\<not> EndsStatement K_StringBeg"
  "\<not> EndsStatement K_StringCont" "\<not> EndsStatement K_StringMultiBeg" "\<not> EndsStatement K_StringMultiCont"
  "\<not> EndsStatement K_Illegal"
  by (simp_all add: EndsStatement_def)

lemma Lookup_kinds: "Lookup s \<in> insert K_Ident (snd ` set Keywords)"
  by (auto simp: Lookup_def split: option.splits dest: map_of_SomeD intro: rev_image_eqI)

lemma Lookup_no_special:
  "Lookup s \<noteq> K_EOF" "Lookup s \<noteq> K_Semi" "Lookup s \<noteq> K_Illegal" "Lookup s \<noteq> K_LInterp" "Lookup s \<noteq> K_RInterp"
  using Lookup_kinds [of s] by (auto simp: Keywords_def)

section \<open>Positions (pos.go)\<close>

record TSpan =
  ts_Start :: u32
  ts_End :: u32

record Pos =
  ps_Line :: int
  ps_Col :: int
  ps_Offset :: u32

text \<open>
  The number of bytes that utf8.DecodeRune consumes: the length of the well-formed sequence at
  the front, one byte where there is none.
\<close>

definition in_range :: "nat \<Rightarrow> nat \<Rightarrow> char \<Rightarrow> bool" where
  "in_range lo hi c \<longleftrightarrow> lo \<le> of_char c \<and> of_char c \<le> (hi :: nat)"

fun rune_size :: "string \<Rightarrow> nat" where
  "rune_size [] = 0"
| "rune_size [a] = 1"
| "rune_size [a, b] = (if in_range 0xC2 0xDF a \<and> in_range 0x80 0xBF b then 2 else 1)"
| "rune_size (a # b # c # rest) =
     (if in_range 0xC2 0xDF a \<and> in_range 0x80 0xBF b then 2
      else if (in_range 0xE0 0xE0 a \<and> in_range 0xA0 0xBF b \<or> in_range 0xE1 0xEC a \<and> in_range 0x80 0xBF b
               \<or> in_range 0xED 0xED a \<and> in_range 0x80 0x9F b \<or> in_range 0xEE 0xEF a \<and> in_range 0x80 0xBF b)
              \<and> in_range 0x80 0xBF c
      then 3
      else if (in_range 0xF0 0xF0 a \<and> in_range 0x90 0xBF b \<or> in_range 0xF1 0xF3 a \<and> in_range 0x80 0xBF b
               \<or> in_range 0xF4 0xF4 a \<and> in_range 0x80 0x8F b)
              \<and> in_range 0x80 0xBF c \<and> rest \<noteq> [] \<and> in_range 0x80 0xBF (hd rest)
      then 4 else 1)"

lemma rune_size_pos: "s \<noteq> [] \<Longrightarrow> 0 < rune_size s"
  by (cases s rule: rune_size.cases) simp_all

lemma rune_size_le: "rune_size s \<le> length s"
  by (cases s rule: rune_size.cases) (auto simp: Suc_le_eq)

text \<open>A decoded rune of more than one byte holds no line feed.\<close>

lemma rune_no_newline:
  assumes "1 < rune_size s" and "j < rune_size s"
  shows "s ! j \<noteq> CHR 0x0A"
proof -
  have lf: "\<not> in_range lo hi (CHR 0x0A)" if "10 < lo" for lo hi using that by (simp add: in_range_def)
  have j: "j = 0 \<or> j = 1 \<or> j = 2 \<or> j = 3 \<or> 4 \<le> j" by linarith
  show ?thesis
  proof (cases s rule: rune_size.cases)
    case (4 a b c rest)
    then show ?thesis
      using assms lf j by (cases rest) (auto simp: numeral_eq_Suc less_Suc_eq split: if_splits)
  qed (use assms lf j in \<open>auto split: if_splits\<close>)
qed

definition newline :: char where
  "newline = CHR 0x0A"

text \<open>The two loops of Resolve: line number and start of the line, then the column.\<close>

fun line_loop :: "string \<Rightarrow> nat \<Rightarrow> nat \<Rightarrow> int \<times> nat \<Rightarrow> int \<times> nat" where
  "line_loop source 0 i acc = acc"
| "line_loop source (Suc n) i acc =
     line_loop source n (Suc i) (if source ! i = newline then (fst acc + 1, i + 1) else acc)"

function col_loop :: "string \<Rightarrow> nat \<Rightarrow> nat \<Rightarrow> int \<Rightarrow> nat \<times> int" where
  "col_loop source offset i col =
     (if i < offset \<and> i < length source then col_loop source offset (i + rune_size (drop i source)) (col + 1)
      else (i, col))"
  by pat_completeness auto
termination
  by (relation "measure (\<lambda>(source, offset, i, col). length source - i)")
    (auto simp: rune_size_pos intro!: diff_less_mono2)

declare col_loop.simps [simp del]

definition Resolve :: "string \<Rightarrow> u32 \<Rightarrow> Pos" where
  "Resolve source offset =
     (let offset = (if unat offset > length source then of_nat (length source) else offset);
          (line, lineStart) = line_loop source (unat offset) 0 (1, 0)
      in \<lparr>ps_Line = line, ps_Col = snd (col_loop source (unat offset) lineStart 1), ps_Offset = offset\<rparr>)"

function span_loop :: "string \<Rightarrow> nat \<Rightarrow> nat \<Rightarrow> int \<Rightarrow> int \<Rightarrow> int \<times> int" where
  "span_loop source e i line col =
     (if i < e \<and> i < length source
      then (if source ! i = newline then span_loop source e (i + 1) (line + 1) 1
            else span_loop source e (i + rune_size (drop i source)) line (col + 1))
      else (line, col))"
  by pat_completeness auto
termination
  by (relation "measure (\<lambda>(source, e, i, line, col). length source - i)")
    (auto simp: rune_size_pos intro!: diff_less_mono2)

declare span_loop.simps [simp del]

definition ResolveSpan :: "string \<Rightarrow> TSpan \<Rightarrow> Pos \<times> Pos" where
  "ResolveSpan source s =
     (let start = Resolve source (ts_Start s);
          (line, col) = span_loop source (unat (ts_End s)) (unat (ts_Start s)) (ps_Line start) (ps_Col start)
      in (start, \<lparr>ps_Line = line, ps_Col = col, ps_Offset = ts_End s\<rparr>))"

section \<open>ResolveSpan agrees with Resolve\<close>

abbreviation line_at :: "string \<Rightarrow> nat \<Rightarrow> int" where
  "line_at source n \<equiv> fst (line_loop source n 0 (1, 0))"

abbreviation start_at :: "string \<Rightarrow> nat \<Rightarrow> nat" where
  "start_at source n \<equiv> snd (line_loop source n 0 (1, 0))"

text \<open>The column loop, started at the line of an offset, ends exactly on it.\<close>

definition rune_start :: "string \<Rightarrow> nat \<Rightarrow> bool" where
  "rune_start source n \<longleftrightarrow> fst (col_loop source n (start_at source n) 1) = n"

lemma line_loop_Suc:
  "line_loop source (Suc n) i acc =
     (if source ! (i + n) = newline then (fst (line_loop source n i acc) + 1, i + n + 1) else line_loop source n i acc)"
  by (induction source n i acc rule: line_loop.induct) simp_all

lemma start_at_le: "start_at source n \<le> n"
  by (induction n) (auto simp: line_loop_Suc simp del: line_loop.simps(2))

lemma line_loop_none: "(\<And>j. i \<le> j \<Longrightarrow> j < i + k \<Longrightarrow> source ! j \<noteq> newline) \<Longrightarrow>
    line_loop source (i + k) 0 acc = line_loop source i 0 acc"
  by (induction k) (auto simp: line_loop_Suc simp del: line_loop.simps(2))

lemma col_loop_done: "e \<le> i \<Longrightarrow> col_loop source e i col = (i, col)"
  by (simp add: col_loop.simps)

lemma col_loop_split:
  assumes "col_loop source a i c = (a, c')" and "a \<le> b"
  shows "col_loop source b i c = col_loop source b a c'"
  using assms
proof (induction source a i c rule: col_loop.induct)
  case (1 source a i c)
  show ?case
  proof (cases "i < a \<and> i < length source")
    case True
    then show ?thesis
      using 1 by (simp add: col_loop.simps [of source a i] col_loop.simps [of source b i])
  next
    case False
    then have "(i, c) = (a, c')" using 1(2) by (simp only: col_loop.simps [of source a i] if_False)
    then show ?thesis by simp
  qed
qed

lemma rune_step_newlines:
  assumes "i < length source" and "source ! i \<noteq> newline" and "i \<le> j" and "j < i + rune_size (drop i source)"
  shows "source ! j \<noteq> newline"
proof (cases "1 < rune_size (drop i source)")
  case True
  then have "drop i source ! (j - i) \<noteq> newline"
    unfolding newline_def by (rule rune_no_newline) (use assms in simp)
  then show ?thesis using assms by simp
next
  case False
  then have "j = i" using assms(3,4) by simp
  then show ?thesis using assms(2) by simp
qed

lemma span_loop_spec:
  assumes "i \<le> e" and "e \<le> length source" and "line = line_at source i"
  shows "fst (span_loop source e i line col) = line_at source e
    \<and> (col_loop source i (start_at source i) 1 = (i, col) \<longrightarrow>
        snd (span_loop source e i line col) = snd (col_loop source e (start_at source e) 1))"
  using assms
proof (induction source e i line col rule: span_loop.induct)
  case (1 source e i line col)
  show ?case
  proof (cases "i = e")
    case True
    then show ?thesis using 1 by (simp add: span_loop.simps)
  next
    case False
    then have i: "i < e" "i < length source" using 1 by simp_all
    show ?thesis
    proof (cases "source ! i = newline")
      case True
      have "line_loop source (Suc i) 0 (1, 0) = (line + 1, i + 1)"
        unfolding line_loop_Suc using True 1(5) by simp
      then show ?thesis
        using 1(1) i True 1(4) by (simp add: span_loop.simps [of source e i] col_loop_done del: line_loop.simps(2))
    next
      case nl: False
      let ?k = "rune_size (drop i source)"
      have same: "line_loop source (i + m) 0 (1, 0) = line_loop source i 0 (1, 0)" if "m \<le> ?k" for m
        by (rule line_loop_none) (use rune_step_newlines [OF i(2) nl] that in auto)
      have step: "span_loop source e i line col = span_loop source e (i + ?k) line (col + 1)"
        using i nl by (simp add: span_loop.simps [of source e i])
      have cols: "col_loop source b (start_at source i) 1 = col_loop source b (i + ?k) (col + 1)"
        if "col_loop source i (start_at source i) 1 = (i, col)" "i < b" for b
        using col_loop_split [OF that(1), of b] that(2) i by (simp add: col_loop.simps [of source b i])
      show ?thesis
      proof (cases "i + ?k \<le> e")
        case True
        have pos: "i < i + ?k" using rune_size_pos [of "drop i source"] i(2) by simp
        have c: "col_loop source i (start_at source i) 1 = (i, col) \<Longrightarrow>
            col_loop source (i + ?k) (start_at source (i + ?k)) 1 = (i + ?k, col + 1)"
          using cols [of "i + ?k"] same [of ?k] pos by (simp add: col_loop_done)
        show ?thesis
          using 1(2) [OF _ nl] i True 1(4,5) same [of ?k] c unfolding step by simp
      next
        case False
        then obtain m where m: "e = i + m" "m \<le> ?k" using i(1) by (metis less_imp_add_positive nat_le_linear add_le_cancel_left)
        have e: "line_loop source e 0 (1, 0) = line_loop source i 0 (1, 0)" using same [OF m(2)] m(1) by simp
        have stop: "span_loop source e (i + ?k) line (col + 1) = (line, col + 1)"
          "col_loop source e (i + ?k) (col + 1) = (i + ?k, col + 1)"
          using False by (simp_all add: span_loop.simps [of source e "i + ?k"] col_loop_done)
        show ?thesis using cols [of e] i(1) 1(5) unfolding step stop e by (simp add: stop)
      qed
    qed
  qed
qed

text \<open>Resolving the two ends of a span in one pass gives what resolving each offset by itself gives, when the span
  starts where a rune of its line starts; the line numbers agree even when it starts inside a rune.\<close>

theorem ResolveSpan_agrees:
  assumes "ts_Start s \<le> ts_End s" and "unat (ts_End s) \<le> length source"
  shows "fst (ResolveSpan source s) = Resolve source (ts_Start s)
    \<and> ps_Line (snd (ResolveSpan source s)) = ps_Line (Resolve source (ts_End s))
    \<and> (rune_start source (unat (ts_Start s)) \<longrightarrow> snd (ResolveSpan source s) = Resolve source (ts_End s))"
proof -
  have le: "unat (ts_Start s) \<le> unat (ts_End s)" using assms(1) by (simp add: word_le_nat_alt)
  have R: "Resolve source x = \<lparr>ps_Line = line_at source (unat x),
      ps_Col = snd (col_loop source (unat x) (start_at source (unat x)) 1), ps_Offset = x\<rparr>"
    if "unat x \<le> length source" for x
    using that by (simp add: Resolve_def split_beta)
  have rs: "rune_start source (unat (ts_Start s)) \<Longrightarrow>
      col_loop source (unat (ts_Start s)) (start_at source (unat (ts_Start s))) 1
        = (unat (ts_Start s), snd (col_loop source (unat (ts_Start s)) (start_at source (unat (ts_Start s))) 1))"
    by (simp add: rune_start_def prod_eq_iff)
  show ?thesis
    using span_loop_spec [OF le assms(2) refl] rs le assms(2)
    by (simp add: ResolveSpan_def R split_beta)
qed

text \<open>A span over the second line of a text with a two-byte rune.\<close>

lemma ResolveSpan_agrees_witness:
  "ResolveSpan [CHR ''a'', newline, char_of (0xC3 :: nat), char_of (0xA9 :: nat), CHR ''b''] \<lparr>ts_Start = 1, ts_End = 4\<rparr>
     = (\<lparr>ps_Line = 1, ps_Col = 2, ps_Offset = 1\<rparr>, \<lparr>ps_Line = 2, ps_Col = 2, ps_Offset = 4\<rparr>)"
proof -
  let ?t = "[CHR ''a'', newline, char_of (0xC3 :: nat), char_of (0xA9 :: nat), CHR ''b'']"
  let ?s = "\<lparr>ts_Start = 1 :: u32, ts_End = 4\<rparr>"
  have r: "rune_start ?t 1" and e: "Resolve ?t 1 = \<lparr>ps_Line = 1, ps_Col = 2, ps_Offset = 1\<rparr>"
    "Resolve ?t 4 = \<lparr>ps_Line = 2, ps_Col = 2, ps_Offset = 4\<rparr>" by code_simp+
  have p: "ts_Start ?s \<le> ts_End ?s" "unat (ts_End ?s) \<le> length ?t" by simp_all
  from ResolveSpan_agrees [OF p] r e show ?thesis by (simp add: prod_eq_iff)
qed

end
