(* ===== verification/Lexer.thy ===== *)
theory Lexer
  imports Tokens
begin

text \<open>
  The lexer (internal/lang/lex): its state, every function of lex.go, and what the token
  stream it produces is like. A loop of the code that advances \<open>l.pos\<close> is a function of the
  position or of the state. Where the code stores an offset in a token it narrows it to 32 bits,
  which is \<open>u32_of\<close> here.
\<close>

section \<open>Errors (errors.go, errcode.go)\<close>

datatype ErrKind =
    ErrInvalidChar | ErrUnterminatedString | ErrUnterminatedComment | ErrInvalidEscape | ErrInvalidNumber
  | ErrUnterminatedInterp

definition ErrKind_Code :: "ErrKind \<Rightarrow> string" where
  "ErrKind_Code k = (case k of
      ErrInvalidChar \<Rightarrow> ''lex.InvalidChar'' | ErrUnterminatedString \<Rightarrow> ''lex.UnterminatedString''
    | ErrUnterminatedComment \<Rightarrow> ''lex.UnterminatedComment'' | ErrInvalidEscape \<Rightarrow> ''lex.InvalidEscape''
    | ErrInvalidNumber \<Rightarrow> ''lex.InvalidNumber'' | ErrUnterminatedInterp \<Rightarrow> ''lex.UnterminatedInterp'')"

definition ErrKind_String :: "ErrKind \<Rightarrow> string" where
  "ErrKind_String k = (case k of
      ErrInvalidChar \<Rightarrow> ''invalid-char'' | ErrUnterminatedString \<Rightarrow> ''unterminated-string''
    | ErrUnterminatedComment \<Rightarrow> ''unterminated-comment'' | ErrInvalidEscape \<Rightarrow> ''invalid-escape''
    | ErrInvalidNumber \<Rightarrow> ''invalid-number'' | ErrUnterminatedInterp \<Rightarrow> ''unterminated-interp'')"

record LexError =
  le_Kind :: ErrKind
  le_Span :: TSpan
  le_Msg :: string

section \<open>State\<close>

record Comment =
  cm_Text :: string
  cm_Start :: u32
  cm_End :: u32

record interpFrame =
  if_braces :: int
  if_multi :: bool

text \<open>\<open>lx_pending\<close> joins the code's pending token and its flag.\<close>

record Lexer =
  lx_src :: string
  lx_name :: string
  lx_pos :: nat
  lx_prev :: Kind
  lx_comments :: "Comment list"
  lx_interp :: "interpFrame list"
  lx_pending :: "Token option"
  lx_resumingString :: bool
  lx_resumingMulti :: bool
  lx_errs :: "LexError list"

definition New :: "string \<Rightarrow> string \<Rightarrow> Lexer" where
  "New name src =
     \<lparr>lx_src = src, lx_name = name, lx_pos = 0, lx_prev = K_Illegal, lx_comments = [], lx_interp = [],
      lx_pending = None, lx_resumingString = False, lx_resumingMulti = False, lx_errs = []\<rparr>"

definition u32_of :: "nat \<Rightarrow> u32" where
  "u32_of n = of_nat n"

definition emit :: "Kind \<Rightarrow> u32 \<Rightarrow> u32 \<Rightarrow> Lexer \<Rightarrow> Token \<times> Lexer" where
  "emit k start e l = (\<lparr>tok_Kind = k, tok_Pos = start, tok_End = e\<rparr>, l\<lparr>lx_prev := k\<rparr>)"

definition addErr :: "ErrKind \<Rightarrow> TSpan \<Rightarrow> string \<Rightarrow> Lexer \<Rightarrow> Lexer" where
  "addErr k span msg l = l\<lparr>lx_errs := lx_errs l @ [\<lparr>le_Kind = k, le_Span = span, le_Msg = msg\<rparr>]\<rparr>"

definition addComment :: "u32 \<Rightarrow> Lexer \<Rightarrow> Lexer" where
  "addComment start l =
     l\<lparr>lx_comments := lx_comments l @
         [\<lparr>cm_Text = take (lx_pos l - unat start) (drop (unat start) (lx_src l)), cm_Start = start,
           cm_End = u32_of (lx_pos l)\<rparr>]\<rparr>"

definition advance :: "nat \<Rightarrow> Lexer \<Rightarrow> Lexer" where
  "advance n l = l\<lparr>lx_pos := lx_pos l + n\<rparr>"

text \<open>The byte \<open>k\<close> places after the current one, and whether it is a given byte.\<close>

definition in_src :: "nat \<Rightarrow> Lexer \<Rightarrow> bool" where
  "in_src k l \<longleftrightarrow> lx_pos l + k < length (lx_src l)"

definition byte_at :: "nat \<Rightarrow> Lexer \<Rightarrow> char" where
  "byte_at k l = lx_src l ! (lx_pos l + k)"

definition next_is :: "nat \<Rightarrow> char \<Rightarrow> Lexer \<Rightarrow> bool" where
  "next_is k c l \<longleftrightarrow> in_src k l \<and> byte_at k l = c"

section \<open>Character classes\<close>

definition isIdentStart :: "char \<Rightarrow> bool" where
  "isIdentStart c \<longleftrightarrow> c \<ge> CHR ''a'' \<and> c \<le> CHR ''z'' \<or> c \<ge> CHR ''A'' \<and> c \<le> CHR ''Z'' \<or> c = CHR ''_''"

definition isDigit :: "char \<Rightarrow> bool" where
  "isDigit c \<longleftrightarrow> c \<ge> CHR ''0'' \<and> c \<le> CHR ''9''"

definition isIdentCont :: "char \<Rightarrow> bool" where
  "isIdentCont c \<longleftrightarrow> isIdentStart c \<or> isDigit c"

definition isHexDigit :: "char \<Rightarrow> bool" where
  "isHexDigit c \<longleftrightarrow> isDigit c \<or> c \<ge> CHR ''a'' \<and> c \<le> CHR ''f'' \<or> c \<ge> CHR ''A'' \<and> c \<le> CHR ''F''"

definition isBinDigit :: "char \<Rightarrow> bool" where
  "isBinDigit c \<longleftrightarrow> c = CHR ''0'' \<or> c = CHR ''1''"

definition isOctDigit :: "char \<Rightarrow> bool" where
  "isOctDigit c \<longleftrightarrow> CHR ''0'' \<le> c \<and> c \<le> CHR ''7''"

definition backslash :: char where "backslash = CHR 0x5C"
definition dquote :: char where "dquote = CHR 0x22"
definition backtick :: char where "backtick = CHR 0x60"

definition isValidEscape :: "char \<Rightarrow> bool" where
  "isValidEscape c \<longleftrightarrow>
     c \<in> {CHR ''n'', CHR ''t'', CHR ''r'', backslash, dquote, backtick, CHR ''$'', CHR ''0''}"

section \<open>White space and comments\<close>

text \<open>A loop that advances while the byte satisfies a predicate.\<close>

function skip_while :: "(char \<Rightarrow> bool) \<Rightarrow> string \<Rightarrow> nat \<Rightarrow> nat" where
  "skip_while p src i = (if i < length src \<and> p (src ! i) then skip_while p src (i + 1) else i)"
  by pat_completeness auto
termination by (relation "measure (\<lambda>(p, src, i). length src - i)") auto

declare skip_while.simps [simp del]

definition skip_to :: "(char \<Rightarrow> bool) \<Rightarrow> Lexer \<Rightarrow> Lexer" where
  "skip_to p l = l\<lparr>lx_pos := skip_while p (lx_src l) (lx_pos l)\<rparr>"

text \<open>The loop of skipBlockComment: position, depth, and whether a line feed was seen.\<close>

function block_loop :: "string \<Rightarrow> nat \<Rightarrow> nat \<Rightarrow> bool \<Rightarrow> nat \<times> nat \<times> bool" where
  "block_loop src i depth nl =
     (if i < length src \<and> depth > 0
      then (if src ! i = CHR ''/'' \<and> i + 1 < length src \<and> src ! (i + 1) = CHR ''*''
            then block_loop src (i + 2) (depth + 1) nl
            else if src ! i = CHR ''*'' \<and> i + 1 < length src \<and> src ! (i + 1) = CHR ''/''
            then block_loop src (i + 2) (depth - 1) nl
            else block_loop src (i + 1) depth (nl \<or> src ! i = newline))
      else (i, depth, nl))"
  by pat_completeness auto
termination by (relation "measure (\<lambda>(src, i, depth, nl). length src - i)") auto

declare block_loop.simps [simp del]

definition skipBlockComment :: "Lexer \<Rightarrow> Token option \<times> Lexer" where
  "skipBlockComment l =
     (let startPos = u32_of (lx_pos l);
          (p, depth, sawNewline) = block_loop (lx_src l) (lx_pos l + 2) 1 False;
          l = l\<lparr>lx_pos := p\<rparr>;
          l = (if depth > 0
               then addErr ErrUnterminatedComment \<lparr>ts_Start = startPos, ts_End = u32_of (lx_pos l)\<rparr>
                      ''unterminated block comment'' l
               else l);
          l = addComment startPos l
      in if sawNewline \<and> EndsStatement (lx_prev l) \<and> lx_interp l = []
         then (let (tok, l) = emit K_Semi (u32_of (lx_pos l)) (u32_of (lx_pos l)) l in (Some tok, l))
         else (None, l))"

lemma block_loop_ge: "i \<le> fst (block_loop src i depth nl)"
proof (induction src i depth nl rule: block_loop.induct)
  case (1 src i depth nl)
  then show ?case by (subst block_loop.simps) auto
qed

lemma skipBlockComment_pos: "lx_pos l + 2 \<le> lx_pos (snd (skipBlockComment l))"
  using block_loop_ge [of "lx_pos l + 2" "lx_src l" 1 False]
  by (auto simp: skipBlockComment_def addErr_def addComment_def emit_def Let_def split: prod.splits)

lemma skipBlockComment_src: "lx_src (snd (skipBlockComment l)) = lx_src l"
  by (auto simp: skipBlockComment_def addErr_def addComment_def emit_def Let_def split: prod.splits)

lemma skip_while_ge: "i \<le> skip_while p src i"
proof (induction p src i rule: skip_while.induct)
  case (1 p src i)
  then show ?case by (subst skip_while.simps) auto
qed

function skipWSAndComments :: "Lexer \<Rightarrow> Token option \<times> Lexer" where
  "skipWSAndComments l =
     (if \<not> in_src 0 l then (None, l)
      else
        (let c = byte_at 0 l
         in if c = CHR '' '' \<or> c = CHR 0x09 \<or> c = CHR 0x0D then skipWSAndComments (advance 1 l)
            else if c = newline
            then (if EndsStatement (lx_prev l) \<and> lx_interp l = []
                  then (let (tok, l) = emit K_Semi (u32_of (lx_pos l)) (u32_of (lx_pos l + 1)) l
                        in (Some tok, advance 1 l))
                  else skipWSAndComments (advance 1 l))
            else if c = CHR ''/''
            then (if \<not> in_src 1 l then (None, l)
                  else if byte_at 1 l = CHR ''/''
                  then (let cstart = u32_of (lx_pos l)
                        in skipWSAndComments (addComment cstart (skip_to (\<lambda>c. c \<noteq> newline) (advance 2 l))))
                  else if byte_at 1 l = CHR ''*''
                  then (case skipBlockComment l of
                          (Some tok, l') \<Rightarrow> (Some tok, l')
                        | (None, l') \<Rightarrow> skipWSAndComments l')
                  else (None, l))
            else (None, l)))"
  by pat_completeness auto
termination
proof (relation "measure (\<lambda>l. length (lx_src l) - lx_pos l)", goal_cases)
  case (4 l)
  then show ?case
    using skip_while_ge [of "lx_pos l + 2" "\<lambda>c. c \<noteq> newline" "lx_src l"]
    by (auto simp: addComment_def skip_to_def advance_def in_src_def)
next
  case (5 l c x y)
  then have "snd (skipBlockComment l) = y" by (metis snd_conv)
  then show ?case
    using 5 skipBlockComment_pos [of l] skipBlockComment_src [of l] by (auto simp: in_src_def)
qed (auto simp: advance_def in_src_def)

declare skipWSAndComments.simps [simp del]

section \<open>Scanning\<close>

definition scanIdent :: "u32 \<Rightarrow> Lexer \<Rightarrow> Token \<times> Lexer" where
  "scanIdent start l =
     (let l = skip_to isIdentCont l;
          kind = Lookup (take (lx_pos l - unat start) (drop (unat start) (lx_src l)))
      in emit kind start (u32_of (lx_pos l)) l)"

definition scanDigits :: "u32 \<Rightarrow> (char \<Rightarrow> bool) \<Rightarrow> string \<Rightarrow> Lexer \<Rightarrow> Token \<times> Lexer" where
  "scanDigits start pred what l =
     (let digitStart = lx_pos l;
          l = skip_to pred l
      in if lx_pos l = digitStart
         then emit K_Illegal start (u32_of (lx_pos l))
                (addErr ErrInvalidNumber \<lparr>ts_Start = start, ts_End = u32_of (lx_pos l)\<rparr>
                   (''expected '' @ what @ '' digits after prefix'') l)
         else if in_src 0 l \<and> isIdentCont (byte_at 0 l)
         then (let l = skip_to isIdentCont l
               in emit K_Illegal start (u32_of (lx_pos l))
                    (addErr ErrInvalidNumber \<lparr>ts_Start = start, ts_End = u32_of (lx_pos l)\<rparr>
                       (''invalid digits in '' @ what @ '' literal'') l))
         else emit K_Int start (u32_of (lx_pos l)) l)"

definition scanNumber :: "u32 \<Rightarrow> Lexer \<Rightarrow> Token \<times> Lexer" where
  "scanNumber start l =
     (if byte_at 0 l = CHR ''0'' \<and> (next_is 1 (CHR ''x'') l \<or> next_is 1 (CHR ''X'') l)
      then scanDigits start isHexDigit ''hexadecimal'' (advance 2 l)
      else if byte_at 0 l = CHR ''0'' \<and> (next_is 1 (CHR ''b'') l \<or> next_is 1 (CHR ''B'') l)
      then scanDigits start isBinDigit ''binary'' (advance 2 l)
      else if byte_at 0 l = CHR ''0'' \<and> (next_is 1 (CHR ''o'') l \<or> next_is 1 (CHR ''O'') l)
      then scanDigits start isOctDigit ''octal'' (advance 2 l)
      else
        (let l = skip_to isDigit l
         in if in_src 0 l \<and> isIdentCont (byte_at 0 l)
            then (let l = skip_to isIdentCont l
                  in emit K_Illegal start (u32_of (lx_pos l))
                       (addErr ErrInvalidNumber \<lparr>ts_Start = start, ts_End = u32_of (lx_pos l)\<rparr>
                          ''number followed by identifier character'' l))
            else emit K_Int start (u32_of (lx_pos l)) l))"

text \<open>The innermost interpolation frame is the last of the list.\<close>

definition set_braces :: "int \<Rightarrow> Lexer \<Rightarrow> Lexer" where
  "set_braces n l =
     l\<lparr>lx_interp := butlast (lx_interp l) @ [(last (lx_interp l))\<lparr>if_braces := n\<rparr>]\<rparr>"

text \<open>The token of one or two bytes that a byte and the byte after it (0 at the end) make.\<close>

definition punct :: "char \<Rightarrow> char \<Rightarrow> (nat \<times> Kind) option" where
  "punct c peek =
     (if c = CHR ''+'' then Some (1, K_Plus)
      else if c = CHR ''-'' then Some (1, K_Minus)
      else if c = CHR ''*'' then Some (1, K_Star)
      else if c = CHR ''/'' then Some (1, K_Slash)
      else if c = CHR ''%'' then Some (1, K_Percent)
      else if c = CHR ''='' then (if peek = CHR ''='' then Some (2, K_Eq) else Some (1, K_Assign))
      else if c = CHR ''!'' then (if peek = CHR ''='' then Some (2, K_Neq) else Some (1, K_Not))
      else if c = CHR ''<'' then (if peek = CHR ''='' then Some (2, K_Leq) else Some (1, K_Lt))
      else if c = CHR ''>'' then (if peek = CHR ''='' then Some (2, K_Geq) else Some (1, K_Gt))
      else if c = CHR ''&'' then (if peek = CHR ''&'' then Some (2, K_And) else None)
      else if c = CHR ''|'' then (if peek = CHR ''|'' then Some (2, K_Or) else None)
      else if c = CHR '':'' then Some (1, K_Colon)
      else if c = CHR ''.'' then Some (1, K_Dot)
      else if c = CHR ''?'' then Some (1, K_Question)
      else if c = CHR ''@'' then Some (1, K_At)
      else if c = CHR '','' then Some (1, K_Comma)
      else if c = CHR ''{'' then Some (1, K_LBrace)
      else if c = CHR ''}'' then Some (1, K_RBrace)
      else if c = CHR ''['' then Some (1, K_LBrack)
      else if c = CHR '']'' then Some (1, K_RBrack)
      else if c = CHR ''('' then Some (1, K_LParen)
      else if c = CHR '')'' then Some (1, K_RParen)
      else None)"

definition scanPunct :: "u32 \<Rightarrow> Lexer \<Rightarrow> Token option \<times> Lexer" where
  "scanPunct start l =
     (let c = byte_at 0 l;
          peek = (if in_src 1 l then byte_at 1 l else CHR 0x00);
          inside = lx_interp l \<noteq> [];
          braces = (if inside then if_braces (last (lx_interp l)) else 0)
      in if inside \<and> c = CHR ''}'' \<and> braces = 1
         then (let multi = if_multi (last (lx_interp l));
                   l = (advance 1 l)\<lparr>lx_interp := butlast (lx_interp l), lx_resumingString := True,
                          lx_resumingMulti := multi\<rparr>;
                   (tok, l) = emit K_RInterp start (u32_of (lx_pos l)) l
               in (Some tok, l))
         else
           (let l = (if inside \<and> c = CHR ''{'' then set_braces (braces + 1) l
                     else if inside \<and> c = CHR ''}'' then set_braces (braces - 1) l else l)
            in case punct c peek of
                 Some (n, k) \<Rightarrow>
                   (let l = advance n l; (tok, l) = emit k start (u32_of (lx_pos l)) l in (Some tok, l))
               | None \<Rightarrow> (None, l)))"

text \<open>The braces are only looked at inside an interpolation.\<close>

lemma scanPunct_unfold:
  "scanPunct start l =
     (let c = byte_at 0 l;
          peek = (if in_src 1 l then byte_at 1 l else CHR 0x00);
          inside = lx_interp l \<noteq> [];
          braces = if_braces (last (lx_interp l))
      in if inside \<and> c = CHR ''}'' \<and> braces = 1
         then (let multi = if_multi (last (lx_interp l));
                   l = (advance 1 l)\<lparr>lx_interp := butlast (lx_interp l), lx_resumingString := True,
                          lx_resumingMulti := multi\<rparr>;
                   (tok, l) = emit K_RInterp start (u32_of (lx_pos l)) l
               in (Some tok, l))
         else
           (let l = (if inside \<and> c = CHR ''{'' then set_braces (braces + 1) l
                     else if inside \<and> c = CHR ''}'' then set_braces (braces - 1) l else l)
            in case punct c peek of
                 Some (n, k) \<Rightarrow>
                   (let l = advance n l; (tok, l) = emit k start (u32_of (lx_pos l)) l in (Some tok, l))
               | None \<Rightarrow> (None, l)))"
  by (cases "lx_interp l = []") (simp_all add: scanPunct_def)

definition segmentKind :: "bool \<Rightarrow> bool \<Rightarrow> bool \<Rightarrow> Kind" where
  "segmentKind fresh e multi =
     (if fresh \<and> e \<and> multi then K_StringMulti
      else if fresh \<and> e then K_String
      else if fresh \<and> multi then K_StringMultiBeg
      else if fresh then K_StringBeg
      else if e \<and> multi then K_StringMultiEnd
      else if e then K_StringEnd
      else if multi then K_StringMultiCont
      else K_StringCont)"

text \<open>The loop of scanStringSegment, from the current position.\<close>

function segment_loop :: "u32 \<Rightarrow> bool \<Rightarrow> bool \<Rightarrow> Lexer \<Rightarrow> Token \<times> Lexer" where
  "segment_loop start fresh multi l =
     (let closer = (if multi then backtick else dquote)
      in if \<not> in_src 0 l
         then
           (let msg = (if multi then ''unterminated multi-line string (reached end of file, no closing `)''
                       else ''unterminated string literal (reached end of file)'');
                l = addErr ErrUnterminatedString \<lparr>ts_Start = start - 1, ts_End = u32_of (lx_pos l)\<rparr> msg l
            in emit (segmentKind fresh True multi) start (u32_of (lx_pos l)) l)
         else
           (let c = byte_at 0 l
            in if c = backslash
               then (if \<not> in_src 1 l
                     then segment_loop start fresh multi
                            (advance 1 (addErr ErrInvalidEscape
                               \<lparr>ts_Start = u32_of (lx_pos l), ts_End = u32_of (lx_pos l + 1)\<rparr>
                               ''trailing backslash in string'' l))
                     else segment_loop start fresh multi
                            (advance 2
                               (if \<not> multi \<and> \<not> isValidEscape (byte_at 1 l)
                                then addErr ErrInvalidEscape
                                       \<lparr>ts_Start = u32_of (lx_pos l), ts_End = u32_of (lx_pos l + 2)\<rparr>
                                       ''invalid escape sequence'' l
                                else l)))
               else if c = CHR ''$''
               then (if next_is 1 (CHR ''{'') l
                     then
                       (let segEnd = u32_of (lx_pos l);
                            l = advance 2 l;
                            interpEnd = u32_of (lx_pos l)
                        in emit (segmentKind fresh False multi) start segEnd
                             (l\<lparr>lx_interp := lx_interp l @ [\<lparr>if_braces = 1, if_multi = multi\<rparr>],
                                lx_pending := Some \<lparr>tok_Kind = K_LInterp, tok_Pos = segEnd, tok_End = interpEnd\<rparr>,
                                lx_prev := K_LInterp\<rparr>))
                     else segment_loop start fresh multi (advance 1 l))
               else if c = closer
               then (let segEnd = u32_of (lx_pos l)
                     in emit (segmentKind fresh True multi) start segEnd (advance 1 l))
               else if c = newline
               then (if multi then segment_loop start fresh multi (advance 1 l)
                     else emit (segmentKind fresh True multi) start (u32_of (lx_pos l))
                            (addErr ErrUnterminatedString \<lparr>ts_Start = start - 1, ts_End = u32_of (lx_pos l)\<rparr>
                               (''unterminated string literal (no closing '' @ [dquote] @ '')'') l))
               else segment_loop start fresh multi (advance 1 l)))"
  by pat_completeness auto
termination
  by (relation "measure (\<lambda>(start, fresh, multi, l). length (lx_src l) - lx_pos l)")
    (auto simp: in_src_def advance_def addErr_def)

declare segment_loop.simps [simp del]

definition scanStringSegment :: "bool \<Rightarrow> bool \<Rightarrow> Lexer \<Rightarrow> Token \<times> Lexer" where
  "scanStringSegment fresh multi l = segment_loop (u32_of (lx_pos l)) fresh multi l"

definition enterString :: "Lexer \<Rightarrow> Token \<times> Lexer" where
  "enterString l = scanStringSegment True (byte_at 0 l = backtick) (advance 1 l)"

section \<open>Next\<close>

definition Next :: "Lexer \<Rightarrow> Token \<times> Lexer" where
  "Next l =
     (case lx_pending l of
        Some tok \<Rightarrow> (tok, l\<lparr>lx_pending := None\<rparr>)
      | None \<Rightarrow>
          if lx_resumingString l
          then scanStringSegment False (lx_resumingMulti l) (l\<lparr>lx_resumingString := False, lx_resumingMulti := False\<rparr>)
          else
            (case skipWSAndComments l of
               (Some tok, l) \<Rightarrow> (tok, l)
             | (None, l) \<Rightarrow>
                 if \<not> in_src 0 l
                 then (if EndsStatement (lx_prev l) then emit K_Semi (u32_of (lx_pos l)) (u32_of (lx_pos l)) l
                       else emit K_EOF (u32_of (lx_pos l)) (u32_of (lx_pos l)) l)
                 else
                   (let c = byte_at 0 l; start = u32_of (lx_pos l)
                    in if isIdentStart c then scanIdent start l
                       else if isDigit c then scanNumber start l
                       else if c = dquote \<or> c = backtick then enterString l
                       else
                         (case scanPunct start l of
                            (Some tok, l) \<Rightarrow> (tok, l)
                          | (None, l) \<Rightarrow>
                              (let l = advance 1 l;
                                   l = addErr ErrInvalidChar \<lparr>ts_Start = start, ts_End = u32_of (lx_pos l)\<rparr>
                                         ''unexpected character'' l
                               in emit K_Illegal start (u32_of (lx_pos l)) l)))))"

section \<open>What the scanning functions return\<close>

lemmas lex_ops = emit_def addErr_def addComment_def advance_def skip_to_def

lemma skip_while_le: "i \<le> length src \<Longrightarrow> skip_while p src i \<le> length src"
proof (induction p src i rule: skip_while.induct)
  case (1 p src i)
  then show ?case by (subst skip_while.simps) auto
qed

lemma skip_while_all: "i \<le> j \<Longrightarrow> j < skip_while p src i \<Longrightarrow> p (src ! j)"
proof (induction p src i rule: skip_while.induct)
  case (1 p src i)
  show ?case
  proof (cases "i < length src \<and> p (src ! i)")
    case True
    then show ?thesis
      using 1 by (cases "i = j") (simp_all add: skip_while.simps [of p src i])
  qed (use 1 in \<open>simp add: skip_while.simps [of p src i] split: if_splits\<close>)
qed

lemma skip_while_stop: "skip_while p src i < length src \<Longrightarrow> \<not> p (src ! skip_while p src i)"
proof (induction p src i rule: skip_while.induct)
  case (1 p src i)
  then show ?case
    by (cases "i < length src \<and> p (src ! i)") (auto simp: skip_while.simps [of p src i])
qed

lemma skip_while_first: "i < length src \<Longrightarrow> p (src ! i) \<Longrightarrow> i < skip_while p src i"
  using skip_while_ge [of "i + 1" p src] by (subst skip_while.simps) simp

text \<open>
  The part of a state that scanning one token outside strings leaves alone, and the shape of the
  token it returns.
\<close>

definition scanned :: "u32 \<Rightarrow> Lexer \<Rightarrow> Token \<Rightarrow> Lexer \<Rightarrow> bool" where
  "scanned start l tok l' \<longleftrightarrow>
     tok_Pos tok = start \<and> tok_End tok = u32_of (lx_pos l') \<and> lx_prev l' = tok_Kind tok
     \<and> tok_Kind tok \<noteq> K_EOF \<and> tok_Kind tok \<noteq> K_Semi \<and> lx_src l' = lx_src l \<and> lx_pos l < lx_pos l'
     \<and> lx_pos l' \<le> length (lx_src l) \<and> lx_pending l' = lx_pending l"

lemma skip_to_simps [simp]:
  "lx_src (skip_to p l) = lx_src l" "lx_pending (skip_to p l) = lx_pending l" "lx_interp (skip_to p l) = lx_interp l"
  "lx_resumingString (skip_to p l) = lx_resumingString l" "lx_resumingMulti (skip_to p l) = lx_resumingMulti l"
  "lx_prev (skip_to p l) = lx_prev l"
  by (simp_all add: skip_to_def)

lemma skip_to_pos:
  "lx_pos l \<le> lx_pos (skip_to p l)"
  "lx_pos l \<le> length (lx_src l) \<Longrightarrow> lx_pos (skip_to p l) \<le> length (lx_src l)"
  "in_src 0 l \<Longrightarrow> p (byte_at 0 l) \<Longrightarrow> lx_pos l < lx_pos (skip_to p l)"
  by (simp_all add: skip_to_def skip_while_ge skip_while_le skip_while_first in_src_def byte_at_def)

lemma scanIdent_scanned:
  assumes "in_src 0 l" and "isIdentStart (byte_at 0 l)" and "scanIdent start l = (tok, l')"
  shows "scanned start l tok l' \<and> lx_interp l' = lx_interp l \<and> lx_resumingString l' = lx_resumingString l
    \<and> lx_resumingMulti l' = lx_resumingMulti l"
proof -
  have "isIdentCont (byte_at 0 l)" "lx_pos l \<le> length (lx_src l)"
    using assms(1,2) by (simp_all add: isIdentCont_def in_src_def)
  then show ?thesis
    using assms(3) skip_to_pos [of l isIdentCont] assms(1)
    by (auto simp: scanIdent_def scanned_def emit_def Let_def Lookup_no_special)
qed

lemma scanDigits_scanned:
  assumes "lx_pos l0 < lx_pos l" and "lx_pos l \<le> length (lx_src l)" and "scanDigits start p what l = (tok, l')"
    and "lx_src l = lx_src l0" and "lx_pending l = lx_pending l0"
  shows "scanned start l0 tok l' \<and> lx_interp l' = lx_interp l \<and> lx_resumingString l' = lx_resumingString l
    \<and> lx_resumingMulti l' = lx_resumingMulti l"
proof -
  let ?l = "skip_to p l"
  have p: "lx_pos l0 < lx_pos ?l" "lx_pos ?l \<le> length (lx_src l)"
    using skip_to_pos(1,2) [of l p] assms(1,2) by auto
  then have "lx_pos l0 < lx_pos (skip_to isIdentCont ?l)" "lx_pos (skip_to isIdentCont ?l) \<le> length (lx_src l)"
    using skip_to_pos(1,2) [of ?l isIdentCont] by auto
  then show ?thesis
    using assms(3-5) p
    by (auto simp: scanDigits_def scanned_def emit_def addErr_def Let_def split: if_splits)
qed

lemma scanNumber_scanned:
  assumes "in_src 0 l" and "isDigit (byte_at 0 l)" and "scanNumber start l = (tok, l')"
  shows "scanned start l tok l' \<and> lx_interp l' = lx_interp l \<and> lx_resumingString l' = lx_resumingString l
    \<and> lx_resumingMulti l' = lx_resumingMulti l"
proof (cases "\<exists>p what. scanDigits start p what (advance 2 l) = (tok, l') \<and> in_src 1 l")
  case True
  then obtain p what where d: "scanDigits start p what (advance 2 l) = (tok, l')" "in_src 1 l" by blast
  show ?thesis
    using scanDigits_scanned [OF _ _ d(1), of l] d(2) by (simp add: advance_def in_src_def)
next
  case False
  let ?l = "skip_to isDigit l"
  have p: "lx_pos l < lx_pos ?l" "lx_pos ?l \<le> length (lx_src l)"
    using skip_to_pos [of l isDigit] assms(1,2) by (auto simp: in_src_def)
  then have "lx_pos l < lx_pos (skip_to isIdentCont ?l)" "lx_pos (skip_to isIdentCont ?l) \<le> length (lx_src l)"
    using skip_to_pos(1,2) [of ?l isIdentCont] by auto
  note q = this
  have "\<not> (scanDigits start f what (advance 2 l) = (tok, l') \<and> next_is 1 c l)" for f what c
    using False by (auto simp: next_is_def)
  then have "(if in_src 0 ?l \<and> isIdentCont (byte_at 0 ?l)
      then (let l = skip_to isIdentCont ?l
            in emit K_Illegal start (u32_of (lx_pos l))
                 (addErr ErrInvalidNumber \<lparr>ts_Start = start, ts_End = u32_of (lx_pos l)\<rparr>
                    ''number followed by identifier character'' l))
      else emit K_Int start (u32_of (lx_pos ?l)) ?l) = (tok, l')"
    using assms(3) unfolding scanNumber_def Let_def by (metis (full_types))
  then show ?thesis
    using p q by (auto simp: scanned_def emit_def addErr_def Let_def split: if_splits)
qed

lemma punct_kinds:
  assumes "punct c peek = Some (n, k)"
  shows "k \<noteq> K_EOF" "k \<noteq> K_Semi" "n = 1 \<or> n = 2 \<and> peek \<noteq> CHR 0x00"
  using assms by (simp_all add: punct_def split: if_splits)

lemma set_braces_simps [simp]:
  "lx_src (set_braces n l) = lx_src l" "lx_pos (set_braces n l) = lx_pos l" "lx_pending (set_braces n l) = lx_pending l"
  "lx_resumingString (set_braces n l) = lx_resumingString l"
  "lx_resumingMulti (set_braces n l) = lx_resumingMulti l"
  "lx_prev (set_braces n l) = lx_prev l" "lx_interp (set_braces n l) \<noteq> []" "in_src k (set_braces n l) = in_src k l"
  by (simp_all add: set_braces_def in_src_def)

text \<open>The two shapes of scanPunct: closing an interpolation, or a table entry.\<close>

definition counted :: "Lexer \<Rightarrow> Lexer" where
  "counted l =
     (if lx_interp l \<noteq> [] \<and> byte_at 0 l = CHR ''{'' then set_braces (if_braces (last (lx_interp l)) + 1) l
      else if lx_interp l \<noteq> [] \<and> byte_at 0 l = CHR ''}'' then set_braces (if_braces (last (lx_interp l)) - 1) l else l)"

definition peeked :: "Lexer \<Rightarrow> char" where
  "peeked l = (if in_src 1 l then byte_at 1 l else CHR 0x00)"

lemma counted_simps [simp]:
  "lx_src (counted l) = lx_src l" "lx_pos (counted l) = lx_pos l" "lx_pending (counted l) = lx_pending l"
  "lx_resumingString (counted l) = lx_resumingString l" "lx_resumingMulti (counted l) = lx_resumingMulti l"
  "lx_prev (counted l) = lx_prev l"
  by (simp_all add: counted_def)

lemma scanPunct_cases:
  "scanPunct start l =
     (if lx_interp l \<noteq> [] \<and> byte_at 0 l = CHR ''}'' \<and> if_braces (last (lx_interp l)) = 1
      then (Some \<lparr>tok_Kind = K_RInterp, tok_Pos = start, tok_End = u32_of (lx_pos l + 1)\<rparr>,
            l\<lparr>lx_pos := lx_pos l + 1, lx_interp := butlast (lx_interp l), lx_resumingString := True,
              lx_resumingMulti := if_multi (last (lx_interp l)), lx_prev := K_RInterp\<rparr>)
      else (case punct (byte_at 0 l) (peeked l) of
              None \<Rightarrow> (None, counted l)
            | Some (n, k) \<Rightarrow>
                (Some \<lparr>tok_Kind = k, tok_Pos = start, tok_End = u32_of (lx_pos l + n)\<rparr>,
                 (counted l)\<lparr>lx_pos := lx_pos l + n, lx_prev := k\<rparr>)))"
  unfolding scanPunct_unfold Let_def counted_def [symmetric] peeked_def [symmetric]
  by (simp add: emit_def advance_def split: option.split)

lemma scanPunct_scanned:
  assumes "in_src 0 l" and "scanPunct start l = (Some tok, l')"
  shows "scanned start l tok l' \<and> (lx_resumingString l \<longrightarrow> lx_resumingString l')
    \<and> (lx_resumingString l' \<longrightarrow> lx_resumingString l \<or> tok_Kind tok = K_RInterp)"
proof (cases "punct (byte_at 0 l) (peeked l)")
  case (Some nk)
  then obtain n k where nk: "punct (byte_at 0 l) (peeked l) = Some (n, k)" by (cases nk) auto
  have "n = 1 \<or> n = 2 \<and> in_src 1 l" using punct_kinds(3) [OF nk] by (auto simp: peeked_def split: if_splits)
  then show ?thesis
    using assms punct_kinds(1,2) [OF nk] unfolding scanPunct_cases nk
    by (auto simp: scanned_def in_src_def split: if_splits)
qed (use assms in \<open>auto simp: scanPunct_cases scanned_def in_src_def split: if_splits\<close>)

lemma scanPunct_none:
  assumes "scanPunct start l = (None, l')"
  shows "lx_src l' = lx_src l \<and> lx_pos l' = lx_pos l \<and> lx_pending l' = lx_pending l
    \<and> lx_resumingString l' = lx_resumingString l \<and> lx_resumingMulti l' = lx_resumingMulti l"
  using assms by (auto simp: scanPunct_cases split: if_splits option.splits)

section \<open>What skipping white space leaves\<close>

lemma addErr_simps [simp]:
  "lx_src (addErr k sp m l) = lx_src l" "lx_pos (addErr k sp m l) = lx_pos l"
  "lx_pending (addErr k sp m l) = lx_pending l" "lx_interp (addErr k sp m l) = lx_interp l"
  "lx_resumingString (addErr k sp m l) = lx_resumingString l"
  "lx_resumingMulti (addErr k sp m l) = lx_resumingMulti l" "lx_prev (addErr k sp m l) = lx_prev l"
  by (simp_all add: addErr_def)

lemma addComment_simps [simp]:
  "lx_src (addComment s l) = lx_src l" "lx_pos (addComment s l) = lx_pos l"
  "lx_pending (addComment s l) = lx_pending l" "lx_interp (addComment s l) = lx_interp l"
  "lx_resumingString (addComment s l) = lx_resumingString l"
  "lx_resumingMulti (addComment s l) = lx_resumingMulti l" "lx_prev (addComment s l) = lx_prev l"
  by (simp_all add: addComment_def)

lemma advance_simps [simp]:
  "lx_src (advance n l) = lx_src l" "lx_pos (advance n l) = lx_pos l + n"
  "lx_pending (advance n l) = lx_pending l" "lx_interp (advance n l) = lx_interp l"
  "lx_resumingString (advance n l) = lx_resumingString l"
  "lx_resumingMulti (advance n l) = lx_resumingMulti l" "lx_prev (advance n l) = lx_prev l"
  by (simp_all add: advance_def)

lemma block_loop_le: "i \<le> length src \<Longrightarrow> fst (block_loop src i depth nl) \<le> length src"
proof (induction src i depth nl rule: block_loop.induct)
  case (1 src i depth nl)
  then show ?case by (subst block_loop.simps) auto
qed

lemma skipBlockComment_spec:
  assumes "in_src 1 l" and "skipBlockComment l = (r, l')"
  shows "lx_src l' = lx_src l \<and> lx_pending l' = lx_pending l \<and> lx_interp l' = lx_interp l
    \<and> lx_resumingString l' = lx_resumingString l \<and> lx_resumingMulti l' = lx_resumingMulti l
    \<and> lx_pos l + 2 \<le> lx_pos l' \<and> lx_pos l' \<le> length (lx_src l)
    \<and> (case r of None \<Rightarrow> lx_prev l' = lx_prev l
       | Some tok \<Rightarrow> tok = \<lparr>tok_Kind = K_Semi, tok_Pos = u32_of (lx_pos l'), tok_End = u32_of (lx_pos l')\<rparr>
           \<and> lx_prev l' = K_Semi \<and> EndsStatement (lx_prev l) \<and> lx_interp l = [])"
proof -
  obtain p d nl where b: "block_loop (lx_src l) (lx_pos l + 2) 1 False = (p, d, nl)" by (metis prod_cases3)
  have "lx_pos l + 2 \<le> p" "p \<le> length (lx_src l)"
    using block_loop_ge [of "lx_pos l + 2" "lx_src l" 1 False] block_loop_le [of "lx_pos l + 2" "lx_src l" 1 False]
      b assms(1) by (simp_all add: in_src_def)
  note le = this
  define l1 where "l1 = (if d > 0
    then addErr ErrUnterminatedComment \<lparr>ts_Start = u32_of (lx_pos l), ts_End = u32_of p\<rparr>
           ''unterminated block comment'' (l\<lparr>lx_pos := p\<rparr>)
    else l\<lparr>lx_pos := p\<rparr>)"
  have l1: "lx_src l1 = lx_src l" "lx_pos l1 = p" "lx_pending l1 = lx_pending l" "lx_interp l1 = lx_interp l"
    "lx_resumingString l1 = lx_resumingString l" "lx_resumingMulti l1 = lx_resumingMulti l" "lx_prev l1 = lx_prev l"
    by (simp_all add: l1_def)
  have "skipBlockComment l =
      (if nl \<and> EndsStatement (lx_prev l) \<and> lx_interp l = []
       then (Some \<lparr>tok_Kind = K_Semi, tok_Pos = u32_of p, tok_End = u32_of p\<rparr>,
             addComment (u32_of (lx_pos l)) l1\<lparr>lx_prev := K_Semi\<rparr>)
       else (None, addComment (u32_of (lx_pos l)) l1))"
    using b l1 by (simp add: skipBlockComment_def Let_def emit_def l1_def)
  then show ?thesis using assms(2) le l1 by (auto split: if_splits)
qed

definition is_blank :: "char \<Rightarrow> bool" where
  "is_blank c \<longleftrightarrow> c = CHR '' '' \<or> c = CHR 0x09 \<or> c = CHR 0x0D \<or> c = newline"

text \<open>A state that differs from another in a later position, and in comments and errors only.\<close>

definition moved :: "Lexer \<Rightarrow> Lexer \<Rightarrow> bool" where
  "moved l l1 \<longleftrightarrow> lx_src l1 = lx_src l \<and> lx_pending l1 = lx_pending l \<and> lx_interp l1 = lx_interp l
    \<and> lx_resumingString l1 = lx_resumingString l \<and> lx_resumingMulti l1 = lx_resumingMulti l
    \<and> lx_prev l1 = lx_prev l \<and> lx_pos l \<le> lx_pos l1 \<and> lx_pos l1 \<le> length (lx_src l)"

text \<open>A semicolon covers no byte, or one line feed.\<close>

definition semi_at :: "string \<Rightarrow> nat \<Rightarrow> nat \<Rightarrow> Token \<Rightarrow> bool" where
  "semi_at src lo hi tok \<longleftrightarrow> (\<exists>a. lo \<le> a \<and> tok = \<lparr>tok_Kind = K_Semi, tok_Pos = u32_of a, tok_End = u32_of hi\<rparr>
     \<and> (a = hi \<or> Suc a = hi \<and> hi \<le> length src \<and> src ! a = newline))"

lemma semi_at_mono: "semi_at src lo hi tok \<Longrightarrow> lo' \<le> lo \<Longrightarrow> semi_at src lo' hi tok"
  unfolding semi_at_def using le_trans by blast

definition skipped :: "Lexer \<Rightarrow> Token option \<Rightarrow> Lexer \<Rightarrow> bool" where
  "skipped l r l' \<longleftrightarrow>
     (case r of None \<Rightarrow> moved l l' \<and> (in_src 0 l' \<longrightarrow> \<not> is_blank (byte_at 0 l'))
      | Some tok \<Rightarrow>
          moved l (l'\<lparr>lx_prev := lx_prev l\<rparr>) \<and> lx_pos l < lx_pos l' \<and> lx_prev l' = K_Semi
          \<and> semi_at (lx_src l) (lx_pos l) (lx_pos l') tok
          \<and> EndsStatement (lx_prev l) \<and> lx_interp l = [])"

lemma moved_refl: "lx_pos l \<le> length (lx_src l) \<Longrightarrow> moved l l"
  by (simp add: moved_def)

lemma moved_trans: "moved l l1 \<Longrightarrow> moved l1 l2 \<Longrightarrow> moved l l2"
  by (auto simp: moved_def)

lemma skipped_after:
  assumes "moved l l1" and "skipped l1 r l'"
  shows "skipped l r l'"
proof (cases r)
  case (Some tok)
  have "lx_pos l \<le> lx_pos l1" using assms(1) by (simp add: moved_def)
  then show ?thesis
    using assms Some semi_at_mono [of "lx_src l" "lx_pos l1" "lx_pos l'" tok "lx_pos l"] unfolding skipped_def
    by (simp add: moved_def)
qed (use assms moved_trans in \<open>auto simp: skipped_def\<close>)

lemma skipWSAndComments_skipped:
  assumes "skipWSAndComments l = (r, l')" and "lx_pos l \<le> length (lx_src l)"
  shows "skipped l r l'"
  using assms
proof (induction l arbitrary: r l' rule: skipWSAndComments.induct)
  case (1 l)
  note eq = 1(5) [unfolded skipWSAndComments.simps [of l] Let_def]
  show ?case
  proof (cases "in_src 0 l")
    case False
    then show ?thesis using eq 1(6) by (auto simp: skipped_def moved_def)
  next
    case i: True
    let ?c = "byte_at 0 l"
    consider (space) "skipWSAndComments (advance 1 l) = (r, l')" "?c = CHR '' '' \<or> ?c = CHR 0x09 \<or> ?c = CHR 0x0D"
      | (line) "skipWSAndComments (advance 1 l) = (r, l')" "\<not> (?c = CHR '' '' \<or> ?c = CHR 0x09 \<or> ?c = CHR 0x0D)"
          "?c = newline" "\<not> (EndsStatement (lx_prev l) \<and> lx_interp l = [])"
      | (semi) "?c = newline" "EndsStatement (lx_prev l)" "lx_interp l = []"
          "r = Some \<lparr>tok_Kind = K_Semi, tok_Pos = u32_of (lx_pos l), tok_End = u32_of (lx_pos l + 1)\<rparr>"
          "l' = advance 1 (l\<lparr>lx_prev := K_Semi\<rparr>)"
      | (comment) "?c = CHR ''/''" "in_src 1 l" "byte_at 1 l = CHR ''/''"
          "skipWSAndComments (addComment (u32_of (lx_pos l)) (skip_to (\<lambda>c. c \<noteq> newline) (advance 2 l))) = (r, l')"
      | (block) tok where "?c = CHR ''/''" "in_src 1 l" "byte_at 1 l = CHR ''*''" "skipBlockComment l = (Some tok, l')"
          "r = Some tok"
      | (block_on) l1 where "?c = CHR ''/''" "in_src 1 l" "byte_at 1 l = CHR ''*''" "skipBlockComment l = (None, l1)"
          "skipWSAndComments l1 = (r, l')"
      | (stop) "r = None" "l' = l" "\<not> is_blank ?c"
      using eq i by (auto simp: is_blank_def emit_def newline_def split: if_splits prod.splits option.splits)
    then show ?thesis
    proof cases
      case space
      have "moved l (advance 1 l)" using i by (simp add: moved_def in_src_def)
      moreover from this have "lx_pos (advance 1 l) \<le> length (lx_src (advance 1 l))" by (simp add: moved_def)
      ultimately show ?thesis using 1(1) [OF _ refl space(2,1)] i skipped_after by blast
    next
      case line
      have "moved l (advance 1 l)" using i by (simp add: moved_def in_src_def)
      moreover from this have "lx_pos (advance 1 l) \<le> length (lx_src (advance 1 l))" by (simp add: moved_def)
      ultimately show ?thesis using 1(2) [OF _ refl line(2,3,4,1)] i skipped_after by blast
    next
      case semi
      have "lx_src l ! lx_pos l = newline" using semi(1) by (simp add: byte_at_def)
      then have "semi_at (lx_src l) (lx_pos l) (lx_pos l') (the r)"
        unfolding semi_at_def using i by (intro exI [of _ "lx_pos l"]) (simp add: semi in_src_def)
      then show ?thesis using i semi by (simp add: skipped_def moved_def in_src_def)
    next
      case comment
      let ?l = "skip_to (\<lambda>c. c \<noteq> newline) (advance 2 l)"
      have le: "moved l (addComment (u32_of (lx_pos l)) ?l)"
        using skip_to_pos(1,2) [of "advance 2 l" "\<lambda>c. c \<noteq> newline"] comment(2)
        by (auto simp: moved_def in_src_def)
      have ne: "\<not> (?c = CHR '' '' \<or> ?c = CHR 0x09 \<or> ?c = CHR 0x0D)" "?c \<noteq> newline"
        using comment(1) by (simp_all add: newline_def)
      have "lx_pos (addComment (u32_of (lx_pos l)) ?l) \<le> length (lx_src (addComment (u32_of (lx_pos l)) ?l))"
        using le by (simp add: moved_def)
      from 1(3) [OF _ refl ne comment(1) _ comment(3) refl comment(4) this] i comment(2) le
      show ?thesis using skipped_after by blast
    next
      case block
      note b = skipBlockComment_spec [OF block(2,4)]
      then have "semi_at (lx_src l) (lx_pos l) (lx_pos l') tok" unfolding semi_at_def by (intro exI [of _ "lx_pos l'"]) simp
      then show ?thesis using b block(5) by (simp add: skipped_def moved_def)
    next
      case block_on
      have ne: "\<not> (?c = CHR '' '' \<or> ?c = CHR 0x09 \<or> ?c = CHR 0x0D)" "?c \<noteq> newline" "byte_at 1 l \<noteq> CHR ''/''"
        using block_on(1,3) by (simp_all add: newline_def)
      have m: "moved l l1" using skipBlockComment_spec [OF block_on(2,4)] by (simp add: moved_def)
      then have "lx_pos l1 \<le> length (lx_src l1)" by (simp add: moved_def)
      from 1(4) [OF _ refl ne(1,2) block_on(1) _ ne(3) block_on(3) block_on(4) [symmetric] refl block_on(5) this] i block_on(2) m
      show ?thesis using skipped_after by blast
    next
      case stop
      then show ?thesis using 1(6) by (simp add: skipped_def moved_refl)
    qed
  qed
qed

section \<open>What a string segment leaves\<close>

definition segmented :: "u32 \<Rightarrow> bool \<Rightarrow> bool \<Rightarrow> Lexer \<Rightarrow> Token \<Rightarrow> Lexer \<Rightarrow> bool" where
  "segmented start fresh multi l tok l' \<longleftrightarrow>
     lx_src l' = lx_src l \<and> lx_resumingString l' = lx_resumingString l \<and> lx_resumingMulti l' = lx_resumingMulti l
     \<and> lx_pos l' \<le> length (lx_src l) \<and> lx_prev l' = tok_Kind tok \<and> tok_Pos tok = start
     \<and> (\<exists>b. lx_pos l \<le> b \<and> tok_End tok = u32_of b
          \<and> (tok_Kind tok = segmentKind fresh True multi \<and> lx_pending l' = None \<and> lx_interp l' = lx_interp l
               \<and> b \<le> lx_pos l'
             \<or> tok_Kind tok = segmentKind fresh False multi \<and> lx_pos l' = b + 2
               \<and> lx_pending l' = Some \<lparr>tok_Kind = K_LInterp, tok_Pos = u32_of b, tok_End = u32_of (b + 2)\<rparr>
               \<and> lx_interp l' = lx_interp l @ [\<lparr>if_braces = 1, if_multi = multi\<rparr>]))"

lemma segmented_after:
  assumes "moved l l1" and "segmented start fresh multi l1 tok l'"
  shows "segmented start fresh multi l tok l'"
proof -
  have le: "lx_pos l \<le> b" if "lx_pos l1 \<le> b" for b using assms(1) that by (simp add: moved_def)
  then show ?thesis
    using assms unfolding segmented_def moved_def by (elim conjE exE) (intro conjI exI, simp_all)
qed

lemma segment_loop_step:
  assumes pos: "lx_pos l \<le> length (lx_src l)" and pend: "lx_pending l = None"
  shows "segmented start fresh multi l (fst (segment_loop start fresh multi l)) (snd (segment_loop start fresh multi l))
    \<or> (\<exists>l1. moved l l1 \<and> lx_pos l < lx_pos l1 \<and> segment_loop start fresh multi l = segment_loop start fresh multi l1)"
proof (cases "in_src 0 l")
  case False
  then show ?thesis
    using assms by (subst segment_loop.simps, subst segment_loop.simps) (auto simp: segmented_def emit_def)
next
  case i: True
  let ?c = "byte_at 0 l" and ?S = "segment_loop start fresh multi"
  note eq = segment_loop.simps [of start fresh multi l, unfolded Let_def]
  have m1: "moved l (advance 1 l1)" if "l1 = l \<or> (\<exists>k s m. l1 = addErr k s m l)" for l1
    using that i by (auto simp: moved_def in_src_def)
  have m2: "moved l (advance 2 l1)" if "l1 = l \<or> (\<exists>k s m. l1 = addErr k s m l)" "in_src 1 l" for l1
    using that by (auto simp: moved_def in_src_def)
  have go: "?thesis" if "?S l = ?S (advance n m)" "moved l (advance n m)" "0 < n" "lx_pos m = lx_pos l" for n m
    using that by (intro disjI2 exI [of _ "advance n m"]) simp
  consider (esc) "?c = backslash" | (dollar) "?c \<noteq> backslash" "?c = CHR ''$''" "next_is 1 (CHR ''{'') l"
    | (close) "?c \<noteq> backslash" "?c \<noteq> CHR ''$''" "?c = (if multi then backtick else dquote)"
    | (line) "?c \<noteq> backslash" "?c \<noteq> CHR ''$''" "?c \<noteq> (if multi then backtick else dquote)" "?c = newline" "\<not> multi"
    | (plain) "?S l = ?S (advance 1 l)"
    using eq i by (auto split: if_splits)
  then show ?thesis
  proof cases
    case esc
    show ?thesis
    proof (cases "in_src 1 l")
      case False
      show ?thesis
        by (rule go [where n = 1 and m = "addErr ErrInvalidEscape
              \<lparr>ts_Start = u32_of (lx_pos l), ts_End = u32_of (lx_pos l + 1)\<rparr> ''trailing backslash in string'' l"])
          (use eq i esc False m1 in auto)
    next
      case True
      show ?thesis
        by (rule go [where n = 2 and m = "if \<not> multi \<and> \<not> isValidEscape (byte_at 1 l)
              then addErr ErrInvalidEscape \<lparr>ts_Start = u32_of (lx_pos l), ts_End = u32_of (lx_pos l + 2)\<rparr>
                     ''invalid escape sequence'' l else l"])
          (use eq i esc True m2 [OF _ True] in auto)
    qed
  next
    case dollar
    then show ?thesis using eq i assms by (intro disjI1) (auto simp: segmented_def emit_def next_is_def in_src_def)
  next
    case close
    then show ?thesis
      using eq i assms by (intro disjI1) (auto simp: segmented_def emit_def in_src_def intro!: exI [of _ "lx_pos l"])
  next
    case line
    then show ?thesis using eq i assms by (intro disjI1) (auto simp: segmented_def emit_def)
  next
    case plain
    then show ?thesis using go [OF plain m1] by simp
  qed
qed

lemma segment_loop_segmented:
  assumes "segment_loop start fresh multi l = (tok, l')" and "lx_pos l \<le> length (lx_src l)"
    and "lx_pending l = None"
  shows "segmented start fresh multi l tok l'"
  using assms
proof (induction "length (lx_src l) - lx_pos l" arbitrary: l rule: less_induct)
  case less
  show ?case
  proof (cases "segmented start fresh multi l tok l'")
    case False
    then obtain l1 where l1: "moved l l1" "lx_pos l < lx_pos l1" "segment_loop start fresh multi l1 = (tok, l')"
      using segment_loop_step [OF less(3,4), of start fresh multi] less(2) by auto
    have "lx_src l1 = lx_src l" "lx_pos l1 \<le> length (lx_src l)" "lx_pending l1 = None"
      using l1(1) less(4) by (simp_all add: moved_def)
    then have "segmented start fresh multi l1 tok l'"
      by (intro less(1) [OF _ l1(3)]) (use l1(2) in simp_all)
    then show ?thesis by (rule segmented_after [OF l1(1)])
  qed
qed

section \<open>One call of Next\<close>

text \<open>
  The states between two calls. \<open>frontier\<close> is where the text of the tokens returned so far ends: a
  queued LInterp token covers the two bytes before the position.
\<close>

definition lex_ok :: "Lexer \<Rightarrow> bool" where
  "lex_ok l \<longleftrightarrow> lx_pos l \<le> length (lx_src l)
     \<and> (\<forall>t. lx_pending l = Some t \<longrightarrow>
          2 \<le> lx_pos l \<and> t = \<lparr>tok_Kind = K_LInterp, tok_Pos = u32_of (lx_pos l - 2), tok_End = u32_of (lx_pos l)\<rparr>
          \<and> \<not> lx_resumingString l \<and> \<not> EndsStatement (lx_prev l))"

definition frontier :: "Lexer \<Rightarrow> nat" where
  "frontier l = (if lx_pending l = None then lx_pos l else lx_pos l - 2)"

text \<open>How many calls are left at most until the end of the source is reported.\<close>

definition fuel_left :: "Lexer \<Rightarrow> nat" where
  "fuel_left l = 3 * (length (lx_src l) - lx_pos l) + (if lx_resumingString l then 2 else 0)
     + (if lx_pending l = None then 0 else 1) + (if EndsStatement (lx_prev l) then 1 else 0)"

definition spans :: "nat \<Rightarrow> nat \<Rightarrow> Token \<Rightarrow> bool" where
  "spans lo hi tok \<longleftrightarrow> (\<exists>a b. lo \<le> a \<and> a \<le> b \<and> b \<le> hi \<and> tok_Pos tok = u32_of a \<and> tok_End tok = u32_of b)"

lemma segmentKind_special:
  "segmentKind f e m \<noteq> K_EOF" "segmentKind f e m \<noteq> K_Semi" "EndsStatement (segmentKind f e m) \<longleftrightarrow> e"
  by (auto simp: segmentKind_def)

text \<open>
  What a call of Next makes of a state: the text stays, the token lies between the old and the new frontier, a semicolon
  is returned only where a statement may end, and the calls left are fewer unless the source has ended.
\<close>

definition advances :: "Lexer \<Rightarrow> Token \<Rightarrow> Lexer \<Rightarrow> bool" where
  "advances l tok l' \<longleftrightarrow>
     lex_ok l' \<and> lx_src l' = lx_src l \<and> spans (frontier l) (frontier l') tok
     \<and> (tok_Kind tok = K_Semi \<longrightarrow> EndsStatement (lx_prev l) \<and> (lx_interp l = [] \<or> lx_pos l' = length (lx_src l))
          \<and> semi_at (lx_src l) (lx_pos l) (lx_pos l') tok)
     \<and> (tok_Kind tok = K_EOF \<longrightarrow> lx_pos l' = length (lx_src l) \<and> lx_prev l' = K_EOF
          \<and> \<not> lx_resumingString l' \<and> lx_pending l' = None)
     \<and> (tok_Kind tok \<noteq> K_EOF \<longrightarrow> fuel_left l' < fuel_left l)
     \<and> (lx_prev l' = tok_Kind tok \<or> lx_pending l = Some tok)"

lemma segmented_advances:
  assumes "lex_ok l" and "lx_pending l = None" and s: "segmented (u32_of (lx_pos l1)) fresh multi l1 tok l'"
    and l1: "lx_src l1 = lx_src l" "lx_pos l \<le> lx_pos l1" "lx_pos l1 \<le> length (lx_src l)"
      "\<not> lx_resumingString l1" "lx_pos l < lx_pos l1 \<or> lx_resumingString l"
  shows "advances l tok l'"
proof -
  obtain b where b: "lx_pos l1 \<le> b" "tok_End tok = u32_of b"
    and c: "tok_Kind tok = segmentKind fresh True multi \<and> lx_pending l' = None \<and> b \<le> lx_pos l'
       \<or> tok_Kind tok = segmentKind fresh False multi \<and> lx_pos l' = b + 2
          \<and> lx_pending l' = Some \<lparr>tok_Kind = K_LInterp, tok_Pos = u32_of b, tok_End = u32_of (b + 2)\<rparr>"
    using s by (auto simp: segmented_def)
  have f: "lx_src l' = lx_src l" "\<not> lx_resumingString l'" "lx_pos l' \<le> length (lx_src l)" "lx_prev l' = tok_Kind tok"
    "tok_Pos tok = u32_of (lx_pos l1)"
    using s l1 by (auto simp: segmented_def)
  have "spans (frontier l) (frontier l') tok"
    unfolding spans_def by (rule exI [of _ "lx_pos l1"], rule exI [of _ b])
      (use b c l1 assms(2) f in \<open>auto simp: frontier_def\<close>)
  moreover have "lex_ok l'" using c f by (auto simp: lex_ok_def segmentKind_special)
  moreover have "tok_Kind tok \<noteq> K_EOF" "tok_Kind tok \<noteq> K_Semi" using c segmentKind_special by auto
  moreover have "fuel_left l' < fuel_left l"
    using c f l1 assms(1,2) b(1) by (auto simp: fuel_left_def segmentKind_special lex_ok_def)
  ultimately show ?thesis using f by (simp add: advances_def)
qed

lemma scanned_advances:
  assumes "lex_ok l" and "lx_pending l = None" and "\<not> lx_resumingString l"
    and s: "scanned (u32_of (lx_pos l1)) l1 tok l'"
    and l1: "moved l l1" and r: "lx_resumingString l' \<longrightarrow> tok_Kind tok = K_RInterp"
  shows "advances l tok l'"
proof -
  note s' = s [unfolded scanned_def]
  have f: "lx_src l' = lx_src l" "lx_pending l' = None" "lx_pos l \<le> lx_pos l1" "lx_pos l1 < lx_pos l'"
    "lx_pos l' \<le> length (lx_src l)"
    using s' l1 assms(2) by (auto simp: moved_def)
  have "spans (frontier l) (frontier l') tok"
    unfolding spans_def by (rule exI [of _ "lx_pos l1"], rule exI [of _ "lx_pos l'"])
      (use s' f assms(2) in \<open>auto simp: frontier_def\<close>)
  moreover have "fuel_left l' < fuel_left l"
    using f s' assms r by (auto simp: fuel_left_def)
  ultimately show ?thesis using s' f r by (auto simp: advances_def lex_ok_def)
qed

lemma Next_advances:
  assumes ok: "lex_ok l" and n: "Next l = (tok, l')"
  shows "advances l tok l'"
proof (cases "lx_pending l")
  case (Some t)
  then have "tok = t" "l' = l\<lparr>lx_pending := None\<rparr>" using n by (simp_all add: Next_def)
  moreover from this ok Some have "spans (frontier l) (frontier l') tok"
    unfolding spans_def by (intro exI [of _ "lx_pos l - 2"] exI [of _ "lx_pos l"]) (auto simp: lex_ok_def frontier_def)
  ultimately show ?thesis using Some ok by (auto simp: advances_def lex_ok_def fuel_left_def)
next
  case None
  show ?thesis
  proof (cases "lx_resumingString l")
    case True
    let ?l = "l\<lparr>lx_resumingString := False, lx_resumingMulti := False\<rparr>"
    have "segment_loop (u32_of (lx_pos ?l)) False (lx_resumingMulti l) ?l = (tok, l')"
      using n None True by (simp add: Next_def scanStringSegment_def)
    then have "segmented (u32_of (lx_pos ?l)) False (lx_resumingMulti l) ?l tok l'"
      by (rule segment_loop_segmented) (use ok None in \<open>simp_all add: lex_ok_def\<close>)
    then show ?thesis by (rule segmented_advances [OF ok None]) (use ok True in \<open>auto simp: lex_ok_def\<close>)
  next
    case res: False
    obtain r l1 where sk: "skipWSAndComments l = (r, l1)" by (metis prod.exhaust)
    have s: "skipped l r l1" by (rule skipWSAndComments_skipped [OF sk]) (use ok in \<open>simp add: lex_ok_def\<close>)
    show ?thesis
    proof (cases r)
      case (Some t)
      then have "tok = t" "l' = l1" using n None res sk by (simp_all add: Next_def)
      moreover from this Some s have sa: "semi_at (lx_src l) (lx_pos l) (lx_pos l') tok" by (simp add: skipped_def)
      moreover from this obtain a where a: "lx_pos l \<le> a" "a \<le> lx_pos l'"
        "tok = \<lparr>tok_Kind = K_Semi, tok_Pos = u32_of a, tok_End = u32_of (lx_pos l')\<rparr>"
        unfolding semi_at_def by auto
      moreover have "lx_pending l' = None" "\<not> lx_resumingString l'" "lx_src l' = lx_src l"
          "lx_pos l' \<le> length (lx_src l)" "lx_pos l < lx_pos l'" "lx_prev l' = K_Semi" "EndsStatement (lx_prev l)"
          "lx_interp l = []"
        using s Some None res \<open>l' = l1\<close> by (auto simp: skipped_def moved_def)
      moreover have "spans (frontier l) (frontier l') tok"
        unfolding spans_def by (rule exI [of _ a], rule exI [of _ "lx_pos l'"])
          (use a None \<open>lx_pending l' = None\<close> in \<open>auto simp: frontier_def\<close>)
      ultimately show ?thesis using None res by (auto simp: advances_def lex_ok_def fuel_left_def)
    next
      case none: None
      have m: "moved l l1" using s none by (simp add: skipped_def)
      then have m': "lx_pending l1 = None" "\<not> lx_resumingString l1" "lx_pos l1 \<le> length (lx_src l1)" "lx_src l1 = lx_src l"
        "lx_prev l1 = lx_prev l" "lx_interp l1 = lx_interp l" "lx_pos l \<le> lx_pos l1"
        using None res by (auto simp: moved_def)
      show ?thesis
      proof (cases "in_src 0 l1")
        case False
        then have e: "lx_pos l1 = length (lx_src l)" using m' by (simp add: in_src_def)
        define k where "k = (if EndsStatement (lx_prev l) then K_Semi else K_EOF)"
        have "tok = \<lparr>tok_Kind = k, tok_Pos = u32_of (lx_pos l1), tok_End = u32_of (lx_pos l1)\<rparr>"
          "l' = l1\<lparr>lx_prev := k\<rparr>"
          using n False None res sk none m'(5) by (auto simp: Next_def emit_def k_def)
        moreover from this have "spans (frontier l) (frontier l') tok"
          unfolding spans_def by (intro exI [of _ "lx_pos l1"]) (use m' None in \<open>auto simp: frontier_def\<close>)
        ultimately show ?thesis
          using m' e None res ok by (auto simp: advances_def lex_ok_def fuel_left_def k_def semi_at_def)
      next
        case i: True
        let ?c = "byte_at 0 l1" and ?s = "u32_of (lx_pos l1)"
        have n2: "(if isIdentStart ?c then scanIdent ?s l1
            else if isDigit ?c then scanNumber ?s l1
            else if ?c = dquote \<or> ?c = backtick then enterString l1
            else (case scanPunct ?s l1 of
                    (Some tok, l) \<Rightarrow> (tok, l)
                  | (None, l) \<Rightarrow>
                      emit K_Illegal ?s (u32_of (lx_pos l + 1))
                        (addErr ErrInvalidChar \<lparr>ts_Start = ?s, ts_End = u32_of (lx_pos l + 1)\<rparr>
                           ''unexpected character'' (advance 1 l)))) = (tok, l')"
          using n i None res sk none 
          by (cases "isIdentStart ?c"; cases "isDigit ?c"; cases "?c = dquote \<or> ?c = backtick";
              cases "scanPunct ?s l1"; cases "fst (scanPunct ?s l1)")
            (simp_all add: Next_def Let_def)
        note adv = scanned_advances [OF ok None res _ m]
        show ?thesis
        proof (cases "isIdentStart ?c \<or> isDigit ?c")
          case True
          then show ?thesis
            using n2 scanIdent_scanned [OF i, of ?s tok l'] scanNumber_scanned [OF i, of ?s tok l'] m'(2)
            by (intro adv) (auto split: if_splits)
        next
          case noword: False
          show ?thesis
          proof (cases "?c = dquote \<or> ?c = backtick")
            case True
            have "segment_loop (u32_of (lx_pos (advance 1 l1))) True (?c = backtick) (advance 1 l1) = (tok, l')"
              using n2 noword True by (simp add: enterString_def scanStringSegment_def)
            then have "segmented (u32_of (lx_pos (advance 1 l1))) True (?c = backtick) (advance 1 l1) tok l'"
              by (rule segment_loop_segmented) (use i m' in \<open>simp_all add: in_src_def\<close>)
            then show ?thesis
              by (rule segmented_advances [OF ok None]) (use i m' in \<open>auto simp: in_src_def\<close>)
          next
            case False
            obtain r2 l2 where sp: "scanPunct ?s l1 = (r2, l2)" by (metis prod.exhaust)
            show ?thesis
            proof (cases r2)
              case (Some t)
              then have "scanPunct ?s l1 = (Some tok, l')" using n2 noword False sp by simp
              from scanPunct_scanned [OF i this] show ?thesis using m'(2) by (intro adv) auto
            next
              case none2: None
              have "tok = \<lparr>tok_Kind = K_Illegal, tok_Pos = ?s, tok_End = u32_of (lx_pos l2 + 1)\<rparr>"
                "l' = (addErr ErrInvalidChar \<lparr>ts_Start = ?s, ts_End = u32_of (lx_pos l2 + 1)\<rparr>
                     ''unexpected character'' (advance 1 l2))\<lparr>lx_prev := K_Illegal\<rparr>"
                using n2 noword False sp none2 by (auto simp: emit_def)
              then show ?thesis
                using scanPunct_none [of ?s l1 l2] sp none2 i m'
                by (intro adv) (auto simp: scanned_def in_src_def)
            qed
          qed
        qed
      qed
    qed
  qed
qed

end
