(* ===== verification/Lexing.thy ===== *)
theory Lexing
  imports Lexer
begin

text \<open>
  The token stream that repeated calls of Next give, as the parser and the formatter read it:
  it ends, its tokens lie in the source one after the other, semicolons are where a statement may
  end, and a list of lexemes that is written out with spaces is read back.
\<close>

section \<open>Repeated calls\<close>

text \<open>Calls of Next until the end of the source is reported, at most so many.\<close>

fun lex_upto :: "nat \<Rightarrow> Lexer \<Rightarrow> Token list \<times> Lexer" where
  "lex_upto 0 l = ([], l)"
| "lex_upto (Suc n) l =
     (let (tok, l') = Next l
      in if tok_Kind tok = K_EOF then ([tok], l')
         else (let (ts, l'') = lex_upto n l' in (tok # ts, l'')))"

text \<open>Three calls for each byte, and one for the end of the source.\<close>

definition lex_fuel :: "string \<Rightarrow> nat" where
  "lex_fuel src = 3 * length src + 1"

definition lex_all :: "string \<Rightarrow> string \<Rightarrow> Token list \<times> Lexer" where
  "lex_all name src = lex_upto (lex_fuel src) (New name src)"

lemma New_ok: "lex_ok (New name src)" "fuel_left (New name src) = 3 * length src" "frontier (New name src) = 0"
  by (simp_all add: New_def lex_ok_def fuel_left_def frontier_def EndsStatement_def)

text \<open>A run of calls: the tokens but the last, the last, and the state after it.\<close>

definition ended :: "Lexer \<Rightarrow> bool" where
  "ended l \<longleftrightarrow> lx_pos l = length (lx_src l) \<and> lx_prev l = K_EOF \<and> lx_pending l = None \<and> \<not> lx_resumingString l"

lemma ended_Next:
  assumes "ended l"
  shows "Next l = (\<lparr>tok_Kind = K_EOF, tok_Pos = u32_of (lx_pos l), tok_End = u32_of (lx_pos l)\<rparr>, l)"
proof -
  have "skipWSAndComments l = (None, l)" "\<not> in_src 0 l"
    using assms by (simp_all add: skipWSAndComments.simps ended_def in_src_def)
  then show ?thesis using assms by (simp add: Next_def emit_def ended_def)
qed

lemma lex_upto_ends:
  assumes "lex_ok l" and "fuel_left l < n" and "lex_upto n l = (ts, l')"
  shows "ended l' \<and> lx_src l' = lx_src l \<and> ts \<noteq> [] \<and> tok_Kind (last ts) = K_EOF \<and> K_EOF \<notin> tok_Kind ` set (butlast ts)
    \<and> length ts \<le> n"
  using assms
proof (induction n arbitrary: l ts l')
  case (Suc n)
  obtain tok l1 where n: "Next l = (tok, l1)" by fastforce
  note a = Next_advances [OF Suc(2) n, unfolded advances_def]
  show ?case
  proof (cases "tok_Kind tok = K_EOF")
    case True
    then show ?thesis using Suc(4) a n by (auto simp: ended_def)
  next
    case False
    obtain us l2 where r: "lex_upto n l1 = (us, l2)" by fastforce
    have "fuel_left l1 < n" using a False Suc(3) by simp
    from Suc(1) [OF _ this r] a False Suc(4) n r show ?thesis by auto
  qed
qed simp

text \<open>The offsets of a list of tokens, in the order start, end, start, end.\<close>

definition offsets :: "Token list \<Rightarrow> nat list" where
  "offsets ts = concat (map (\<lambda>t. [unat (tok_Pos t), unat (tok_End t)]) ts)"

lemma u32_small: "n < 2 ^ 32 \<Longrightarrow> unat (u32_of n) = n"
  by (simp add: u32_of_def unat_of_nat take_bit_nat_eq_self)

lemma lex_upto_sorted:
  assumes "lex_ok l" and "length (lx_src l) < 2 ^ 32" and "lex_upto n l = (ts, l')"
  shows "sorted (offsets ts) \<and> set (offsets ts) \<subseteq> {frontier l..length (lx_src l)}"
  using assms
proof (induction n arbitrary: l ts l')
  case (Suc n)
  obtain tok l1 where n: "Next l = (tok, l1)" by fastforce
  note a = Next_advances [OF Suc(2) n, unfolded advances_def]
  have fr: "frontier l1 \<le> length (lx_src l)" using a by (auto simp: frontier_def lex_ok_def)
  from a obtain x y where "frontier l \<le> x" "x \<le> y" "y \<le> frontier l1" "tok_Pos tok = u32_of x" "tok_End tok = u32_of y"
    by (auto simp: spans_def)
  then have s: "frontier l \<le> unat (tok_Pos tok)" "unat (tok_Pos tok) \<le> unat (tok_End tok)"
    "unat (tok_End tok) \<le> frontier l1"
    using fr Suc(3) by (simp_all add: u32_small)
  show ?case
  proof (cases "tok_Kind tok = K_EOF")
    case True
    then show ?thesis using Suc(4) n s fr by (auto simp: offsets_def)
  next
    case False
    obtain us l2 where r: "lex_upto n l1 = (us, l2)" by fastforce
    have ih: "sorted (offsets us)" "set (offsets us) \<subseteq> {frontier l1..length (lx_src l)}"
      using Suc(1) [OF _ _ r] a Suc(3) by simp_all
    have "ts = tok # us" using Suc(4) n r False by simp
    then show ?thesis using ih s fr by (auto simp: offsets_def)
  qed
qed (simp add: offsets_def)






text \<open>The lexer reads any text to its end: within three calls of Next for each byte and one more it returns an end
  token, the first of its kind, with the whole source consumed; every later call returns an end token
  again and changes nothing.\<close>

theorem lexing_ends:
  "\<exists>ts eof l. lex_all name src = (ts @ [eof], l) \<and> tok_Kind eof = K_EOF \<and> K_EOF \<notin> tok_Kind ` set ts
     \<and> length ts \<le> 3 * length src \<and> lx_pos l = length src \<and> Next l = (eof\<lparr>tok_Pos := u32_of (length src), tok_End := u32_of (length src)\<rparr>, l)"
proof -
  obtain ts l where r: "lex_all name src = (ts, l)" by fastforce
  have "lx_src (New name src) = src" by (simp add: New_def)
  note e = lex_upto_ends [OF New_ok(1) _ r [unfolded lex_all_def], unfolded New_ok(2) lex_fuel_def this, simplified]
  then have ts: "ts = butlast ts @ [last ts]" by simp
  have "tok_Kind (last ts) = K_EOF" using e by simp
  then have "Next l = ((last ts)\<lparr>tok_Pos := u32_of (length src), tok_End := u32_of (length src)\<rparr>, l)"
    using ended_Next [of l] e by (simp add: ended_def)
  moreover have "length (butlast ts) \<le> 3 * length src" using e by (auto simp: le_diff_conv)
  ultimately show ?thesis
    using e r ts by (intro exI [of _ "butlast ts"] exI [of _ "last ts"] exI [of _ l]) (auto simp: ended_def)
qed

text \<open>C28: in a source of less than four gigabytes the tokens lie one after the other: each starts where it ends or
  before, not before the end of the one before it, and none reaches past the end of the source.\<close>

theorem tokens_in_order:
  assumes "length src < 2 ^ 32"
  shows "sorted (offsets (fst (lex_all name src))) \<and> set (offsets (fst (lex_all name src))) \<subseteq> {..length src}"
proof -
  obtain ts l where r: "lex_upto (lex_fuel src) (New name src) = (ts, l)" by fastforce
  have "lx_src (New name src) = src" by (simp add: New_def)
  with lex_upto_sorted [OF New_ok(1) _ r] assms r show ?thesis by (auto simp: lex_all_def)
qed





section \<open>Writing lexemes out and reading them back\<close>

text \<open>A lexeme as a formatter would write it, with the kind of its token.\<close>

definition punct_table :: "(string \<times> Kind) list" where
  "punct_table =
     [(''+'', K_Plus), (''-'', K_Minus), (''*'', K_Star), (''/'', K_Slash), (''%'', K_Percent), (''=='', K_Eq),
      (''!='', K_Neq), (''<'', K_Lt), (''>'', K_Gt), (''<='', K_Leq), (''>='', K_Geq), (''&&'', K_And), (''||'', K_Or),
      (''!'', K_Not), (''='', K_Assign), ('':'', K_Colon), (''.'', K_Dot), (''?'', K_Question), (''@'', K_At),
      (''{'', K_LBrace), (''}'', K_RBrace), (''['', K_LBrack), ('']'', K_RBrack), (''('', K_LParen), ('')'', K_RParen),
      ('','', K_Comma)]"

text \<open>A byte that stands for itself in a string literal.\<close>

definition plain_byte :: "char \<Rightarrow> bool" where
  "plain_byte c \<longleftrightarrow> c \<noteq> backslash \<and> c \<noteq> dquote \<and> c \<noteq> CHR ''$'' \<and> c \<noteq> newline"

datatype lexeme = Word string | Decimal string | Quoted string | Punct string Kind

fun lexeme_ok :: "lexeme \<Rightarrow> bool" where
  "lexeme_ok (Word s) \<longleftrightarrow> s \<noteq> [] \<and> isIdentStart (hd s) \<and> list_all isIdentCont s"
| "lexeme_ok (Decimal s) \<longleftrightarrow> s \<noteq> [] \<and> list_all isDigit s"
| "lexeme_ok (Quoted s) \<longleftrightarrow> list_all plain_byte s"
| "lexeme_ok (Punct s k) \<longleftrightarrow> (s, k) \<in> set punct_table"

fun lexeme_kind :: "lexeme \<Rightarrow> Kind" where
  "lexeme_kind (Word s) = Lookup s"
| "lexeme_kind (Decimal s) = K_Int"
| "lexeme_kind (Quoted s) = K_String"
| "lexeme_kind (Punct s k) = k"

text \<open>What the source holds for a lexeme, and the part of it that its token covers.\<close>

fun lexeme_source :: "lexeme \<Rightarrow> string" where
  "lexeme_source (Word s) = s"
| "lexeme_source (Decimal s) = s"
| "lexeme_source (Quoted s) = dquote # s @ [dquote]"
| "lexeme_source (Punct s k) = s"

fun lexeme_text :: "lexeme \<Rightarrow> string" where
  "lexeme_text (Word s) = s"
| "lexeme_text (Decimal s) = s"
| "lexeme_text (Quoted s) = s"
| "lexeme_text (Punct s k) = s"

definition spaced :: "lexeme list \<Rightarrow> string" where
  "spaced xs = concat (map (\<lambda>x. lexeme_source x @ '' '') xs)"

definition token_text :: "string \<Rightarrow> Token \<Rightarrow> string" where
  "token_text src t = take (unat (tok_End t) - unat (tok_Pos t)) (drop (unat (tok_Pos t)) src)"

text \<open>The rest of the source that a state has before it, and a state outside strings and interpolations.\<close>

definition reads :: "Lexer \<Rightarrow> string \<Rightarrow> bool" where
  "reads l rest \<longleftrightarrow> lx_pos l \<le> length (lx_src l) \<and> drop (lx_pos l) (lx_src l) = rest"

definition calm :: "Lexer \<Rightarrow> bool" where
  "calm l \<longleftrightarrow> lx_pending l = None \<and> \<not> lx_resumingString l \<and> lx_interp l = [] \<and> length (lx_src l) < 2 ^ 32"

lemma reads_Cons: "reads l (c # r) \<Longrightarrow> in_src 0 l \<and> byte_at 0 l = c \<and> (in_src 1 l \<longleftrightarrow> r \<noteq> []) \<and> (r \<noteq> [] \<longrightarrow> byte_at 1 l = hd r)"
proof -
  assume r: "reads l (c # r)"
  have len: "length (lx_src l) - lx_pos l = Suc (length r)" using r by (metis reads_def length_drop length_Cons)
  have at: "lx_src l ! (lx_pos l + k) = (c # r) ! k" for k
    using r by (metis reads_def nth_drop)
  show ?thesis using len at [of 0] at [of 1] r
    by (cases r) (auto simp: in_src_def byte_at_def reads_def)
qed

lemma reads_advance: "reads l (a @ r) \<Longrightarrow> reads (advance (length a) l) r"
proof -
  assume r: "reads l (a @ r)"
  have "length (lx_src l) - lx_pos l = length a + length r" using r by (metis reads_def length_drop length_append)
  moreover have "drop (length a) (drop (lx_pos l) (lx_src l)) = r" using r by (simp add: reads_def)
  ultimately show ?thesis using r by (auto simp: reads_def add.commute)
qed

lemma reads_frame:
  "reads l r \<Longrightarrow> lx_src l' = lx_src l \<Longrightarrow> lx_pos l' = lx_pos l \<Longrightarrow> reads l' r"
  by (simp add: reads_def)

lemma skip_to_reads:
  assumes "reads l (a @ c # r)" and "list_all p a" and "\<not> p c"
  shows "skip_to p l = advance (length a) l"
proof -
  have "skip_while p (lx_src l) (lx_pos l) = lx_pos l + length a"
    using assms(1,2)
  proof (induction a arbitrary: l)
    case Nil
    then show ?case using assms(3) reads_Cons [of l c r] by (subst skip_while.simps) (simp add: byte_at_def)
  next
    case (Cons x a)
    have b: "in_src 0 l" "byte_at 0 l = x" using reads_Cons [of l x "a @ c # r"] Cons(2) by simp_all
    have "reads (advance 1 l) (a @ c # r)" using reads_advance [of l "[x]" "a @ c # r"] Cons(2) by simp
    from Cons(1) [OF this] Cons(3) show ?case
      using b by (subst skip_while.simps) (simp add: in_src_def byte_at_def)
  qed
  then show ?thesis by (simp add: skip_to_def advance_def)
qed

lemma token_text_at:
  assumes "reads l (a @ r)" and "length (lx_src l) < 2 ^ 32"
  shows "token_text (lx_src l) \<lparr>tok_Kind = k, tok_Pos = u32_of (lx_pos l), tok_End = u32_of (lx_pos l + length a)\<rparr> = a"
proof -
  have "lx_pos l + length a \<le> length (lx_src l)" using reads_advance [OF assms(1)] by (simp add: reads_def)
  then show ?thesis using assms by (simp add: token_text_def u32_small reads_def)
qed

text \<open>Characters of one class are in no other.\<close>

lemma ident_chars:
  assumes "isIdentStart c"
  shows "\<not> is_blank c" "c \<noteq> CHR ''/''"
  using assms by (auto simp: isIdentStart_def is_blank_def newline_def less_eq_char_def)

lemma digit_chars:
  assumes "isDigit c"
  shows "\<not> is_blank c" "c \<noteq> CHR ''/''" "\<not> isIdentStart c"
    "c \<noteq> CHR ''x''" "c \<noteq> CHR ''X''" "c \<noteq> CHR ''b''" "c \<noteq> CHR ''B''" "c \<noteq> CHR ''o''" "c \<noteq> CHR ''O''"
  using assms by (auto simp: isIdentStart_def isDigit_def is_blank_def newline_def less_eq_char_def)

lemma space_no_class: "\<not> isIdentCont (CHR '' '')" "\<not> isDigit (CHR '' '')"
  by (simp_all add: isIdentCont_def isIdentStart_def isDigit_def less_eq_char_def)

lemma skip_nothing:
  assumes "reads l (c # r)" and "\<not> is_blank c" and "c = CHR ''/'' \<Longrightarrow> r \<noteq> [] \<and> hd r \<noteq> CHR ''/'' \<and> hd r \<noteq> CHR ''*''"
  shows "skipWSAndComments l = (None, l)"
  using assms reads_Cons [OF assms(1)]
  by (subst skipWSAndComments.simps) (auto simp: is_blank_def Let_def)

lemma skip_space: "reads l (CHR '' '' # r) \<Longrightarrow> skipWSAndComments l = skipWSAndComments (advance 1 l)"
  using reads_Cons [of l "CHR '' ''" r] by (subst skipWSAndComments.simps) simp

lemma Next_space:
  assumes "reads l (CHR '' '' # r)" and "calm l"
  shows "Next l = Next (advance 1 l)"
  using assms by (simp add: Next_def calm_def skip_space)

text \<open>The state after a token that took \<open>n\<close> bytes.\<close>

definition took :: "nat \<Rightarrow> Kind \<Rightarrow> Lexer \<Rightarrow> Lexer" where
  "took n k l = (advance n l)\<lparr>lx_prev := k\<rparr>"

lemma took_frame:
  assumes "reads l (a @ r)" and "calm l"
  shows "reads (took (length a) k l) r \<and> calm (took (length a) k l) \<and> lx_src (took (length a) k l) = lx_src l
    \<and> lx_prev (took (length a) k l) = k \<and> lx_errs (took (length a) k l) = lx_errs l
    \<and> lx_comments (took (length a) k l) = lx_comments l"
  using reads_frame [OF reads_advance [OF assms(1)], of "took (length a) k l"] assms(2)
  by (simp add: took_def calm_def) (simp add: advance_def)

lemma Next_word:
  assumes "s \<noteq> []" "isIdentStart (hd s)" "list_all isIdentCont s" and r: "reads l (s @ CHR '' '' # r)" and c: "calm l"
  shows "Next l = (\<lparr>tok_Kind = Lookup s, tok_Pos = u32_of (lx_pos l), tok_End = u32_of (lx_pos l + length s)\<rparr>,
    took (length s) (Lookup s) l)"
proof -
  obtain a s' where s: "s = a # s'" using assms(1) by (cases s) auto
  have b: "in_src 0 l" "byte_at 0 l = a" using reads_Cons [of l a "s' @ CHR '' '' # r"] r s by simp_all
  have "skipWSAndComments l = (None, l)"
    by (rule skip_nothing [of l a "s' @ CHR '' '' # r"]) (use r s assms(2) ident_chars [of a] in auto)
  moreover have "skip_to isIdentCont l = advance (length s) l"
    by (rule skip_to_reads [OF r assms(3) space_no_class(1)])
  moreover have "lx_pos l + length s \<le> length (lx_src l)" using reads_advance [OF r] by (simp add: reads_def)
  then have "unat (u32_of (lx_pos l)) = lx_pos l" using c by (intro u32_small) (simp add: calm_def)
  moreover have "take (length s) (drop (lx_pos l) (lx_src l)) = s" using r by (simp add: reads_def)
  ultimately show ?thesis
    using b c s assms(2) by (simp add: Next_def calm_def Let_def scanIdent_def emit_def took_def)
qed

lemma Next_decimal:
  assumes "s \<noteq> []" "list_all isDigit s" and r: "reads l (s @ CHR '' '' # r)" and c: "calm l"
  shows "Next l = (\<lparr>tok_Kind = K_Int, tok_Pos = u32_of (lx_pos l), tok_End = u32_of (lx_pos l + length s)\<rparr>,
    took (length s) K_Int l)"
proof -
  obtain a s' where s: "s = a # s'" using assms(1) by (cases s) auto
  have b: "in_src 0 l" "byte_at 0 l = a" "byte_at 1 l = hd (s' @ CHR '' '' # r)"
    using reads_Cons [of l a "s' @ CHR '' '' # r"] r s by simp_all
  have a: "isDigit a" using assms(2) s by simp
  have "isDigit (byte_at 1 l) \<or> byte_at 1 l = CHR '' ''" using b(3) assms(2) s by (cases s') auto
  then have no: "\<not> next_is 1 (CHR ''x'') l" "\<not> next_is 1 (CHR ''X'') l" "\<not> next_is 1 (CHR ''b'') l"
    "\<not> next_is 1 (CHR ''B'') l" "\<not> next_is 1 (CHR ''o'') l" "\<not> next_is 1 (CHR ''O'') l"
    using digit_chars [of "byte_at 1 l"] by (auto simp: next_is_def)
  have "skipWSAndComments l = (None, l)"
    by (rule skip_nothing [of l a "s' @ CHR '' '' # r"]) (use r s digit_chars [OF a] in auto)
  moreover have st: "skip_to isDigit l = advance (length s) l"
    by (rule skip_to_reads [OF r assms(2) space_no_class(2)])
  moreover have "byte_at 0 (advance (length s) l) = CHR '' ''"
    using reads_Cons [OF reads_advance [OF r]] by simp
  ultimately show ?thesis
    using b c digit_chars(3) [OF a] a no
    by (simp add: Next_def calm_def Let_def scanNumber_def emit_def took_def space_no_class)
qed

lemma Next_quoted:
  assumes p: "list_all plain_byte s" and r: "reads l (dquote # s @ dquote # CHR '' '' # r)" and c: "calm l"
  shows "Next l = (\<lparr>tok_Kind = K_String, tok_Pos = u32_of (lx_pos l + 1), tok_End = u32_of (lx_pos l + 1 + length s)\<rparr>,
    took (length s + 2) K_String l)"
proof -
  have seg: "segment_loop st True False m =
      (\<lparr>tok_Kind = K_String, tok_Pos = st, tok_End = u32_of (lx_pos m + length s)\<rparr>, took (length s + 1) K_String m)"
    if "reads m (s @ dquote # CHR '' '' # r)" for m st
    using that p
  proof (induction s arbitrary: m)
    case Nil
    then have "in_src 0 m" "byte_at 0 m = dquote" using reads_Cons [of m dquote "CHR '' '' # r"] by simp_all
    then show ?case
      by (subst segment_loop.simps)
        (simp add: emit_def segmentKind_def took_def Let_def advance_def dquote_def backslash_def)
  next
    case (Cons x s)
    have b: "in_src 0 m" "byte_at 0 m = x" using reads_Cons [of m x "s @ dquote # CHR '' '' # r"] Cons(2) by simp_all
    have "reads (advance 1 m) (s @ dquote # CHR '' '' # r)" using reads_advance [of m "[x]"] Cons(2) by simp
    note ih = Cons(1) [OF this]
    have "x \<noteq> backslash" "x \<noteq> CHR ''$''" "x \<noteq> dquote" "x \<noteq> newline" using Cons(3) by (simp_all add: plain_byte_def)
    then have "segment_loop st True False m = segment_loop st True False (advance 1 m)"
      using b by (subst segment_loop.simps) (simp add: Let_def)
    then show ?case using ih Cons(3) by (simp add: took_def advance_def)
  qed
  have b: "in_src 0 l" "byte_at 0 l = dquote" using reads_Cons [of l dquote "s @ dquote # CHR '' '' # r"] r by simp_all
  have q: "\<not> is_blank dquote" "dquote \<noteq> CHR ''/''" "\<not> isIdentStart dquote" "\<not> isDigit dquote" "dquote \<noteq> backtick"
    by (simp_all add: is_blank_def dquote_def newline_def isIdentStart_def isDigit_def less_eq_char_def backtick_def)
  have "skipWSAndComments l = (None, l)" by (rule skip_nothing [OF r]) (use q in auto)
  moreover have "reads (advance 1 l) (s @ dquote # CHR '' '' # r)" using reads_advance [of l "[dquote]"] r by simp
  ultimately show ?thesis
    using b c q seg [of "advance 1 l"]
    by (simp add: Next_def calm_def Let_def enterString_def scanStringSegment_def took_def advance_def)
qed

lemma punct_table_punct:
  assumes "(s, k) \<in> set punct_table"
  shows "s \<noteq> []" "punct (hd s) (hd (tl s @ '' '')) = Some (length s, k)" "\<not> is_blank (hd s)" "\<not> isIdentStart (hd s)"
    "\<not> isDigit (hd s)" "hd s \<noteq> dquote" "hd s \<noteq> backtick" "hd s = CHR ''/'' \<Longrightarrow> s = ''/''"
  using assms unfolding punct_table_def list.set insert_iff prod.inject empty_iff
  by (elim disjE conjE; simp add: punct_def is_blank_def newline_def isIdentStart_def isDigit_def less_eq_char_def
      dquote_def backtick_def)+

lemma Next_punct:
  assumes t: "(s, k) \<in> set punct_table" and r: "reads l (s @ CHR '' '' # r)" and c: "calm l"
  shows "Next l = (\<lparr>tok_Kind = k, tok_Pos = u32_of (lx_pos l), tok_End = u32_of (lx_pos l + length s)\<rparr>,
    took (length s) k l)"
proof -
  note pt = punct_table_punct [OF t]
  obtain a s' where s: "s = a # s'" using pt(1) by (cases s) auto
  have b: "in_src 0 l" "byte_at 0 l = a" "in_src 1 l" "byte_at 1 l = hd (s' @ CHR '' '' # r)"
    using reads_Cons [of l a "s' @ CHR '' '' # r"] r s by simp_all
  have "hd (s' @ CHR '' '' # r) = hd (tl s @ '' '')" using s by (cases s') auto
  then have p: "punct (byte_at 0 l) (peeked l) = Some (length s, k)" using pt(2) b s by (simp add: peeked_def)
  have sk: "skipWSAndComments l = (None, l)"
    by (rule skip_nothing [of l a "s' @ CHR '' '' # r"]) (use r s pt(3,8) in auto)
  have "counted l = l" using c by (simp add: counted_def calm_def)
  then have "scanPunct (u32_of (lx_pos l)) l =
      (Some \<lparr>tok_Kind = k, tok_Pos = u32_of (lx_pos l), tok_End = u32_of (lx_pos l + length s)\<rparr>, took (length s) k l)"
    using p c by (simp add: scanPunct_cases took_def advance_def calm_def)
  then show ?thesis
    using sk b c s pt(4-7) by (simp add: Next_def calm_def Let_def)
qed

lemma Next_lexeme:
  assumes "lexeme_ok x" and r: "reads l (lexeme_source x @ '' '' @ r)" and c: "calm l"
  shows "\<exists>tok l'. Next l = (tok, l') \<and> tok_Kind tok = lexeme_kind x \<and> token_text (lx_src l) tok = lexeme_text x
    \<and> reads l' ('' '' @ r) \<and> calm l' \<and> lx_src l' = lx_src l \<and> lx_prev l' = lexeme_kind x
    \<and> lx_errs l' = lx_errs l \<and> lx_comments l' = lx_comments l"
proof -
  have big: "length (lx_src l) < 2 ^ 32" using c by (simp add: calm_def)
  note tt = token_text_at [OF _ big]
  show ?thesis
  proof (cases x)
    case (Word s)
    then have "reads l (s @ CHR '' '' # r)" using r by simp
    then show ?thesis
      using Next_word [OF _ _ _ _ c] took_frame [OF _ c] tt Word assms(1) by (intro exI) auto
  next
    case (Decimal s)
    then have "reads l (s @ CHR '' '' # r)" using r by simp
    then show ?thesis
      using Next_decimal [OF _ _ _ c] took_frame [OF _ c] tt Decimal assms(1) by (intro exI) auto
  next
    case (Quoted s)
    then have q: "reads l (dquote # s @ dquote # CHR '' '' # r)" using r by simp
    have 1: "reads (advance 1 l) (s @ dquote # CHR '' '' # r)" using reads_advance [of l "[dquote]"] q by simp
    have 2: "reads l ((dquote # s @ [dquote]) @ CHR '' '' # r)" using q by simp
    have "token_text (lx_src l) \<lparr>tok_Kind = K_String, tok_Pos = u32_of (lx_pos l + 1),
        tok_End = u32_of (lx_pos l + 1 + length s)\<rparr> = s"
      using token_text_at [OF 1] big by simp
    then show ?thesis
      using Next_quoted [OF _ q c] took_frame [OF 2 c, of K_String] Quoted assms(1) by (intro exI) auto
  next
    case (Punct s k)
    then have "reads l (s @ CHR '' '' # r)" using r by simp
    then show ?thesis
      using Next_punct [OF _ _ c] took_frame [OF _ c] tt Punct assms(1) by (intro exI) auto
  qed
qed

text \<open>The same after a leading space.\<close>

lemma Next_lexeme_space:
  assumes "lexeme_ok x" and r: "reads l ('' '' @ lexeme_source x @ '' '' @ r)" and c: "calm l"
  shows "\<exists>tok l'. Next l = (tok, l') \<and> tok_Kind tok = lexeme_kind x \<and> token_text (lx_src l) tok = lexeme_text x
    \<and> reads l' ('' '' @ r) \<and> calm l' \<and> lx_src l' = lx_src l \<and> lx_prev l' = lexeme_kind x
    \<and> lx_errs l' = lx_errs l \<and> lx_comments l' = lx_comments l"
proof -
  have 1: "reads (advance 1 l) (lexeme_source x @ '' '' @ r)" using reads_advance [of l "'' ''"] r by simp
  have 2: "calm (advance 1 l)" using c by (simp add: calm_def)
  have 3: "Next l = Next (advance 1 l)" using Next_space [OF _ c] r by simp
  show ?thesis using Next_lexeme [OF assms(1) 1 2] unfolding 3 by (simp add: advance_def)
qed

lemma Lookup_not_EOF: "lexeme_ok x \<Longrightarrow> lexeme_kind x \<noteq> K_EOF"
  by (cases x) (auto simp: Lookup_no_special punct_table_def)

definition closing :: "Kind \<Rightarrow> Kind list" where
  "closing k = (if EndsStatement k then [K_Semi, K_EOF] else [K_EOF])"

lemma lex_end:
  assumes "reads l r" and "r = [] \<or> r = '' ''" and c: "calm l" and "2 \<le> n" and u: "lex_upto n l = (ts, l')"
  shows "map tok_Kind ts = closing (lx_prev l) \<and> lx_errs l' = lx_errs l \<and> lx_comments l' = lx_comments l"
proof -
  obtain m where n: "n = Suc (Suc m)" using assms(4) by (metis add_2_eq_Suc le_Suc_ex)
  define l1 where "l1 = (if r = [] then l else advance 1 l)"
  have "reads l1 []" using assms(1,2) reads_advance [of l "'' ''" "[]"] by (auto simp: l1_def)
  then have out: "\<not> in_src 0 l1" "\<not> in_src 0 (l1\<lparr>lx_prev := k\<rparr>)" for k by (auto simp: reads_def in_src_def)
  then have s1: "skipWSAndComments l1 = (None, l1)" "skipWSAndComments (l1\<lparr>lx_prev := k\<rparr>) = (None, l1\<lparr>lx_prev := k\<rparr>)" for k
    by (simp_all add: skipWSAndComments.simps)
  have f: "lx_prev l1 = lx_prev l" "lx_errs l1 = lx_errs l" "lx_comments l1 = lx_comments l" "calm l1"
    using c by (simp_all add: l1_def advance_def calm_def)
  have sk: "skipWSAndComments l = (None, l1)"
    using assms(1,2) s1(1) skip_space [of l "[]"] by (cases "r = []") (auto simp: l1_def)
  then show ?thesis
    using u n c f out s1 by (auto simp: Next_def calm_def emit_def closing_def split: if_splits)
qed

lemma lex_spaced:
  assumes "list_all lexeme_ok xs" and "reads l (sp @ spaced xs)" and "sp = [] \<or> sp = '' ''" and "calm l"
    and "length xs + 2 \<le> n" and "lex_upto n l = (ts, l')"
  shows "map tok_Kind ts = map lexeme_kind xs @ closing (last (lx_prev l # map lexeme_kind xs))
    \<and> map (token_text (lx_src l)) (take (length xs) ts) = map lexeme_text xs
    \<and> lx_errs l' = lx_errs l \<and> lx_comments l' = lx_comments l"
  using assms
proof (induction xs arbitrary: sp l n ts)
  case Nil
  then show ?case using lex_end [of l sp n ts l'] by (simp add: spaced_def)
next
  case (Cons x xs)
  obtain m where n: "n = Suc m" "length xs + 2 \<le> m" using Cons(6) by (cases n) auto
  have x: "lexeme_ok x" using Cons(2) by simp
  have src: "reads l (sp @ lexeme_source x @ '' '' @ spaced xs)" using Cons(3) by (simp add: spaced_def)
  have "\<exists>tok l1. Next l = (tok, l1) \<and> tok_Kind tok = lexeme_kind x \<and> token_text (lx_src l) tok = lexeme_text x
    \<and> reads l1 ('' '' @ spaced xs) \<and> calm l1 \<and> lx_src l1 = lx_src l \<and> lx_prev l1 = lexeme_kind x
    \<and> lx_errs l1 = lx_errs l \<and> lx_comments l1 = lx_comments l"
    using Cons(4)
  proof
    assume "sp = []"
    then show ?thesis using Next_lexeme [OF x _ Cons(5)] src by simp
  next
    assume "sp = '' ''"
    then show ?thesis using Next_lexeme_space [OF x _ Cons(5)] src by simp
  qed
  then obtain tok l1 where t: "Next l = (tok, l1)" "tok_Kind tok = lexeme_kind x" "token_text (lx_src l) tok = lexeme_text x"
    "reads l1 ('' '' @ spaced xs)" "calm l1" "lx_src l1 = lx_src l" "lx_prev l1 = lexeme_kind x"
    "lx_errs l1 = lx_errs l" "lx_comments l1 = lx_comments l" by blast
  obtain us where u: "lex_upto m l1 = (us, l')" "ts = tok # us"
    using Cons(7) t(1,2) n(1) Lookup_not_EOF [OF x] by (auto split: prod.splits)
  have "list_all lexeme_ok xs" using Cons(2) by simp
  from Cons(1) [OF this t(4) disjI2 [OF refl] t(5) n(2) u(1)] show ?case
    using t u(2) by simp
qed

lemma spaced_length: "list_all lexeme_ok xs \<Longrightarrow> 2 * length xs \<le> length (spaced xs)"
proof (induction xs)
  case (Cons x xs)
  have "lexeme_source x \<noteq> []" using Cons(2) punct_table_punct(1) by (cases x) auto
  then have "1 \<le> length (lexeme_source x)" by (simp add: Suc_le_eq)
  then show ?case using Cons by (simp add: spaced_def)
qed (simp add: spaced_def)

text \<open>C30: lexemes written out with a space after each - identifiers and keywords, decimal numbers, operators and
  delimiters, strings in double quotes without a backslash, a quote, a dollar sign or a line feed in them - are read
  back one token each, with their kinds and their texts, without an error, and followed by the inserted semicolon
  exactly when the last may end a statement. The text is to be shorter than four gigabytes.\<close>

theorem lex_roundtrip:
  assumes "xs \<noteq> []" and "list_all lexeme_ok xs" and "length (spaced xs) < 2 ^ 32"
  shows "\<exists>ts l. lex_all name (spaced xs) = (ts, l)
    \<and> map tok_Kind ts = map lexeme_kind xs @ (if EndsStatement (lexeme_kind (last xs)) then [K_Semi] else []) @ [K_EOF]
    \<and> map (token_text (spaced xs)) (take (length xs) ts) = map lexeme_text xs \<and> lx_errs l = []"
proof -
  let ?l = "New name (spaced xs)"
  obtain ts l where r: "lex_upto (lex_fuel (spaced xs)) ?l = (ts, l)" by fastforce
  have src: "lx_src ?l = spaced xs" and l: "reads ?l ([] @ spaced xs)" "calm ?l" "lx_errs ?l = []"
    using assms(3) by (simp_all add: New_def reads_def calm_def)
  have "1 \<le> length xs" using assms(1) by (simp add: Suc_le_eq)
  then have "length xs + 2 \<le> lex_fuel (spaced xs)" using spaced_length [OF assms(2)] by (simp add: lex_fuel_def)
  from lex_spaced [OF assms(2) l(1) disjI1 [OF refl] l(2) this r] show ?thesis
    using r l(3) assms(1) unfolding src by (auto simp: lex_all_def closing_def last_map)
qed

text \<open>The statement let x = "a b" .\<close>

lemma lex_roundtrip_witness:
  "\<exists>ts l. lex_all [] (''let x = '' @ dquote # ''a b'' @ [dquote, CHR '' '']) = (ts, l)
    \<and> map tok_Kind ts = [K_Let, K_Ident, K_Assign, K_String, K_Semi, K_EOF]"
proof -
  let ?xs = "[Word ''let'', Word ''x'', Punct ''='' K_Assign, Quoted ''a b'']"
  have k: "list_all lexeme_ok ?xs" by code_simp
  have s: "spaced ?xs = ''let x = '' @ dquote # ''a b'' @ [dquote, CHR '' '']" by (simp add: spaced_def)
  have l: "Lookup ''let'' = K_Let" "Lookup ''x'' = K_Ident" by code_simp+
  have "?xs \<noteq> []" "length (spaced ?xs) < 2 ^ 32" by (simp_all add: spaced_def)
  from lex_roundtrip [OF this(1) k this(2), of "[]"] show ?thesis unfolding s by (auto simp: l)
qed

lemma tokens_in_order_witness:
  "sorted (offsets (fst (lex_all [] ''a / b''))) \<and> set (offsets (fst (lex_all [] ''a / b''))) \<subseteq> {..length ''a / b''}"
  by (rule tokens_in_order) simp

text \<open>A semicolon that is written out is refused, although the token's comment and the parser know it.\<close>

lemma semicolon_rejected:
  "map tok_Kind (fst (lex_all [] ''a;b'')) = [K_Ident, K_Illegal, K_Ident, K_Semi, K_EOF]"
  "map le_Kind (lx_errs (snd (lex_all [] ''a;b''))) = [ErrInvalidChar]"
  by code_simp+

end
