(* ===== verification/Computations.thy ===== *)
theory Computations
  imports Prelude
begin

text \<open>
  Computations over a state, shared by the models of the configuration language: a computation
  returns a value and a state, panics (a nil pointer, an index out of range), or is out of fuel. With them two
  relations that every composition respects: a computation keeps a preorder of states, and with
  more fuel a computation only says more.
\<close>

section \<open>Outcomes\<close>

datatype ('a, 's) outcome = Done 'a 's | Panic string | NoFuel

type_synonym ('a, 's) comp = "'s \<Rightarrow> ('a, 's) outcome"

definition ret :: "'a \<Rightarrow> ('a, 's) comp" where
  "ret x s = Done x s"

definition ebind :: "('a, 's) comp \<Rightarrow> ('a \<Rightarrow> ('b, 's) comp) \<Rightarrow> ('b, 's) comp" where
  "ebind m f s = (case m s of Done x s' \<Rightarrow> f x s' | Panic msg \<Rightarrow> Panic msg | NoFuel \<Rightarrow> NoFuel)"

definition ethen :: "(unit, 's) comp \<Rightarrow> ('b, 's) comp \<Rightarrow> ('b, 's) comp" where
  "ethen m k = ebind m (\<lambda>_. k)"

definition gets :: "('s \<Rightarrow> 'a) \<Rightarrow> ('a, 's) comp" where
  "gets f s = Done (f s) s"

definition modify :: "('s \<Rightarrow> 's) \<Rightarrow> (unit, 's) comp" where
  "modify f s = Done () (f s)"

definition epanic :: "string \<Rightarrow> ('a, 's) comp" where
  "epanic msg s = Panic msg"

definition efuel :: "('a, 's) comp" where
  "efuel s = NoFuel"

text \<open>Loops over the elements of a list, in order.\<close>

fun emap :: "('a \<Rightarrow> ('b, 's) comp) \<Rightarrow> 'a list \<Rightarrow> ('b list, 's) comp" where
  "emap f [] = ret []"
| "emap f (x # xs) = ebind (f x) (\<lambda>y. ebind (emap f xs) (\<lambda>ys. ret (y # ys)))"

fun efold :: "('a \<Rightarrow> 'b \<Rightarrow> ('b, 's) comp) \<Rightarrow> 'a list \<Rightarrow> 'b \<Rightarrow> ('b, 's) comp" where
  "efold f [] b = ret b"
| "efold f (x # xs) b = ebind (f x b) (efold f xs)"

definition eiter :: "('a \<Rightarrow> (unit, 's) comp) \<Rightarrow> 'a list \<Rightarrow> (unit, 's) comp" where
  "eiter f xs = efold (\<lambda>x _. f x) xs ()"

text \<open>A loop: each round goes on with a new value or leaves with a result. The rounds are counted.\<close>

primrec eloop :: "nat \<Rightarrow> ('b \<Rightarrow> ('b + 'a, 's) comp) \<Rightarrow> 'b \<Rightarrow> ('a, 's) comp" where
  "eloop 0 f b = efuel"
| "eloop (Suc n) f b = ebind (f b) (\<lambda>r. case r of Inl b' \<Rightarrow> eloop n f b' | Inr x \<Rightarrow> ret x)"

lemma ev_simps [simp]:
  "ret x s = Done x s" "gets f s = Done (f s) s" "modify g s = Done () (g s)" "epanic m s = Panic m" "efuel s = NoFuel"
  by (simp_all add: ret_def gets_def modify_def epanic_def efuel_def)

lemma ebind_Done [simp]: "m s = Done x s' \<Longrightarrow> ebind m f s = f x s'"
  by (simp add: ebind_def)

lemma ebind_ret [simp]: "ebind (ret x) f = f x"
  by (rule ext) (simp add: ebind_def)

lemma ebind_gets [simp]: "ebind (gets g) f s = f (g s) s"
  by (simp add: ebind_def)

lemma ethen_modify [simp]: "ethen (modify g) k s = k (g s)"
  by (simp add: ethen_def ebind_def)

lemma ebind_DoneE:
  assumes "ebind m f s = Done y t"
  obtains x s' where "m s = Done x s'" "f x s' = Done y t"
  using assms by (cases "m s") (auto simp: ebind_def)

section \<open>Keeping a preorder of states\<close>

definition kept :: "('s \<Rightarrow> 's \<Rightarrow> bool) \<Rightarrow> ('a, 's) comp \<Rightarrow> bool" where
  "kept R m \<longleftrightarrow> (\<forall>s x s'. m s = Done x s' \<longrightarrow> R s s')"

lemma keptD: "kept R m \<Longrightarrow> m s = Done x s' \<Longrightarrow> R s s'"
  by (simp add: kept_def)

lemma kept_modify: "(\<And>s. R s (g s)) \<Longrightarrow> kept R (modify g)"
  by (simp add: kept_def)

lemma kept_if: "(b \<Longrightarrow> kept R m) \<Longrightarrow> (\<not> b \<Longrightarrow> kept R k) \<Longrightarrow> kept R (if b then m else k)"
  by simp

lemma kept_option: "kept R m \<Longrightarrow> (\<And>x. kept R (f x)) \<Longrightarrow> kept R (case_option m f v)"
  by (cases v) auto

lemma kept_prod: "(\<And>x y. kept R (f x y)) \<Longrightarrow> kept R (case_prod f v)"
  by (cases v) auto

lemma kept_prod_arg: "(\<And>x y. kept R (f x y b)) \<Longrightarrow> kept R (case_prod f v b)"
  by (cases v) auto

lemma kept_sum: "(\<And>x. kept R (f x)) \<Longrightarrow> (\<And>x. kept R (g x)) \<Longrightarrow> kept R (case_sum f g v)"
  by (cases v) auto

lemma kept_list: "kept R m \<Longrightarrow> (\<And>x xs. kept R (f x xs)) \<Longrightarrow> kept R (case_list m f v)"
  by (cases v) auto

lemmas kept_cases = kept_if kept_option kept_prod kept_prod_arg kept_sum kept_list

text \<open>The compositions keep whatever is reflexive and transitive.\<close>

locale state_order =
  fixes R :: "'s \<Rightarrow> 's \<Rightarrow> bool"
  assumes same: "R s s" and chained: "R s t \<Longrightarrow> R t u \<Longrightarrow> R s u"
begin

lemma kept_ret: "kept R (ret x)"
  by (simp add: kept_def same)

lemma kept_gets: "kept R (gets f)"
  by (simp add: kept_def same)

lemma kept_panic: "kept R (epanic msg)"
  by (simp add: kept_def)

lemma kept_fuel: "kept R efuel"
  by (simp add: kept_def)

lemma kept_bind: "kept R m \<Longrightarrow> (\<And>x. kept R (f x)) \<Longrightarrow> kept R (ebind m f)"
  unfolding kept_def by (blast elim!: ebind_DoneE intro: chained)

lemma kept_then: "kept R m \<Longrightarrow> kept R k \<Longrightarrow> kept R (ethen m k)"
  unfolding ethen_def by (rule kept_bind)

lemma kept_emap: "(\<And>x. kept R (f x)) \<Longrightarrow> kept R (emap f xs)"
  by (induction xs) (auto intro!: kept_ret kept_bind)

lemma kept_efold: "(\<And>x b. kept R (f x b)) \<Longrightarrow> kept R (efold f xs b)"
  by (induction xs arbitrary: b) (auto intro!: kept_ret kept_bind)

lemma kept_eiter: "(\<And>x. kept R (f x)) \<Longrightarrow> kept R (eiter f xs)"
  unfolding eiter_def by (rule kept_efold)

lemma kept_eloop: "(\<And>b. kept R (f b)) \<Longrightarrow> kept R (eloop n f b)"
  by (induction n arbitrary: b) (auto intro!: kept_fuel kept_bind kept_sum kept_ret)

lemmas kept_compose = kept_ret kept_gets kept_panic kept_fuel kept_bind kept_then kept_emap kept_efold kept_eiter kept_eloop

end

section \<open>More fuel\<close>

named_theorems approx_intros \<open>monotone computations\<close>

text \<open>Out of fuel, or the same.\<close>

definition approx :: "('a, 's) comp \<Rightarrow> ('a, 's) comp \<Rightarrow> bool" where
  "approx m m' \<longleftrightarrow> (\<forall>s. m s = NoFuel \<or> m' s = m s)"

lemma approxD: "approx m m' \<Longrightarrow> m s \<noteq> NoFuel \<Longrightarrow> m' s = m s"
  unfolding approx_def by blast

lemma approx_refl [approx_intros]: "approx m m"
  by (simp add: approx_def)

lemma approx_trans: "approx m k \<Longrightarrow> approx k l \<Longrightarrow> approx m l"
  unfolding approx_def by metis

lemma approx_fuel [approx_intros]: "approx efuel m"
  by (simp add: approx_def)

lemma approx_bind [approx_intros]:
  assumes "approx m m'" and "\<And>x. approx (f x) (f' x)"
  shows "approx (ebind m f) (ebind m' f')"
  unfolding approx_def
proof
  fix s
  show "ebind m f s = NoFuel \<or> ebind m' f' s = ebind m f s"
  proof (cases "m s")
    case (Done x t)
    then have "m' s = Done x t" using approxD [OF assms(1), of s] by simp
    then show ?thesis using Done assms(2) [of x] by (auto simp: approx_def)
  next
    case (Panic msg)
    then have "m' s = Panic msg" using approxD [OF assms(1), of s] by simp
    then show ?thesis using Panic by (simp add: ebind_def)
  qed (simp add: ebind_def)
qed

lemma approx_then [approx_intros]: "approx m m' \<Longrightarrow> approx k k' \<Longrightarrow> approx (ethen m k) (ethen m' k')"
  unfolding ethen_def by (rule approx_bind)

lemma approx_emap [approx_intros]: "(\<And>x. approx (f x) (f' x)) \<Longrightarrow> approx (emap f xs) (emap f' xs)"
  by (induction xs) (auto intro!: approx_intros)

lemma approx_efold [approx_intros]: "(\<And>x b. approx (f x b) (f' x b)) \<Longrightarrow> approx (efold f xs b) (efold f' xs b)"
  by (induction xs arbitrary: b) (auto intro!: approx_intros)

lemma approx_eiter [approx_intros]: "(\<And>x. approx (f x) (f' x)) \<Longrightarrow> approx (eiter f xs) (eiter f' xs)"
  unfolding eiter_def by (rule approx_efold)

lemma approx_eloop [approx_intros]:
  assumes "n \<le> m" and "\<And>b. approx (f b) (f' b)"
  shows "approx (eloop n f b) (eloop m f' b)"
  using assms(1)
proof (induction n arbitrary: m b)
  case (Suc n)
  then obtain k where m: "m = Suc k" "n \<le> k" by (cases m) auto
  have "approx (case r of Inl b' \<Rightarrow> eloop n f b' | Inr x \<Rightarrow> ret x) (case r of Inl b' \<Rightarrow> eloop k f' b' | Inr x \<Rightarrow> ret x)"
    for r using Suc.IH [OF m(2)] approx_refl by (cases r) auto
  then show ?case using assms(2) by (auto simp: m(1) intro!: approx_bind)
qed (simp add: approx_fuel)

lemma approx_if [approx_intros]:
  "(b \<Longrightarrow> approx m m') \<Longrightarrow> (\<not> b \<Longrightarrow> approx k k') \<Longrightarrow> approx (if b then m else k) (if b then m' else k')"
  by simp

lemma approx_option [approx_intros]:
  "approx m m' \<Longrightarrow> (\<And>x. approx (f x) (f' x)) \<Longrightarrow> approx (case_option m f v) (case_option m' f' v)"
  by (cases v) auto

lemma approx_prod [approx_intros]: "(\<And>x y. approx (f x y) (f' x y)) \<Longrightarrow> approx (case_prod f v) (case_prod f' v)"
  by (cases v) auto

lemma approx_prod_arg [approx_intros]:
  "(\<And>x y. approx (f x y b) (f' x y b)) \<Longrightarrow> approx (case_prod f v b) (case_prod f' v b)"
  by (cases v) auto

lemma approx_sum [approx_intros]:
  "(\<And>x. approx (f x) (f' x)) \<Longrightarrow> (\<And>x. approx (g x) (g' x)) \<Longrightarrow> approx (case_sum f g v) (case_sum f' g' v)"
  by (cases v) auto

lemma approx_list [approx_intros]:
  "approx m m' \<Longrightarrow> (\<And>x xs. approx (f x xs) (f' x xs)) \<Longrightarrow> approx (case_list m f v) (case_list m' f' v)"
  by (cases v) auto

end
