(* ===== verification/Lang_Ast.thy ===== *)
theory Lang_Ast
  imports Tokens
begin

text \<open>
  The syntax tree of the configuration language (internal/lang/ast). A Go interface may be nil:
  \<open>NilE\<close> and \<open>NilT\<close> are the nil expression and the nil type expression, which the code uses for
  the parts of a node that may be absent. A pointer to a block is an option, and so is the variable of
  a comprehension, which the parser leaves nil after an error. \<open>NilStmt\<close> is a nil pointer to a for or an if
  statement and \<open>NilDecl\<close> one to an attribute type declaration: interfaces that are not nil, but whose methods panic.
  Every node keeps its span.
\<close>

section \<open>Names and types\<close>

record Ident =
  id_Name :: string
  id_Span :: TSpan

record DottedName =
  dn_Parts :: "Ident list"
  dn_Span :: TSpan

datatype TypeExpr =
    NilT
  | NamedType DottedName TSpan
  | GenericType Ident "TypeExpr list" TSpan
  | OptionalType TypeExpr TSpan

section \<open>Expressions and statements\<close>

datatype Expr =
    NilE
  | IdentE Ident
  | DottedNameE DottedName
  | ParenExpr Expr TSpan
  | IntLit "64 word" string TSpan
  | StringLit "StringPart list" bool string TSpan
  | BoolLit bool TSpan
  | NoneLit TSpan
  | SelfLit TSpan
  | ListLit "Expr list" TSpan
  | MapLit "(Expr \<times> Expr) list" TSpan
  | StructLit TypeExpr "FieldInit list" "Stmt list" TSpan
  | BlockExpr Expr "Block option" TSpan
  | CallExpr Expr "CallArg list" bool string TSpan
  | SelectorExpr Expr Ident TSpan
  | IndexExpr Expr Expr TSpan
  | BinaryExpr Kind Expr Expr TSpan
  | UnaryExpr Kind Expr TSpan
  | IfExpr Expr Expr Expr TSpan
  | ListComp Expr "Ident option" Expr Expr TSpan
  | MapComp Expr Expr "Ident list" Expr Expr TSpan
and StringPart = StringText string TSpan | StringInterp Expr TSpan
and FieldInit = FieldInit (fin_Name: Ident) (fin_Value: Expr) (fin_Span: TSpan)
and CallArg = CallArg (ca_Name: "Ident option") (ca_Value: Expr)
and LetDecl = LetDecl (ld_Name: Ident) (ld_Type: TypeExpr) (ld_Value: Expr) (ld_Public: bool) (ld_Span: TSpan)
and Stmt =
    LetStmt LetDecl
  | ForStmt Ident Expr "Block option" TSpan
  | IfStmt Expr "Block option" "Block option" TSpan
  | ReturnStmt Expr TSpan
  | ExprStmt Expr
  | AssignStmt Expr Expr TSpan
  | NilStmt
and Block = Block (bk_Stmts: "Stmt list") (bk_Span: TSpan)

definition no_span :: TSpan where
  "no_span = \<lparr>ts_Start = 0, ts_End = 0\<rparr>"

text \<open>The Span method; a nil expression has none.\<close>

fun expr_Span :: "Expr \<Rightarrow> TSpan" where
  "expr_Span NilE = no_span"
| "expr_Span (IdentE i) = id_Span i"
| "expr_Span (DottedNameE d) = dn_Span d"
| "expr_Span (ParenExpr _ s) = s"
| "expr_Span (IntLit _ _ s) = s"
| "expr_Span (StringLit _ _ _ s) = s"
| "expr_Span (BoolLit _ s) = s"
| "expr_Span (NoneLit s) = s"
| "expr_Span (SelfLit s) = s"
| "expr_Span (ListLit _ s) = s"
| "expr_Span (MapLit _ s) = s"
| "expr_Span (StructLit _ _ _ s) = s"
| "expr_Span (BlockExpr _ _ s) = s"
| "expr_Span (CallExpr _ _ _ _ s) = s"
| "expr_Span (SelectorExpr _ _ s) = s"
| "expr_Span (IndexExpr _ _ s) = s"
| "expr_Span (BinaryExpr _ _ _ s) = s"
| "expr_Span (UnaryExpr _ _ s) = s"
| "expr_Span (IfExpr _ _ _ s) = s"
| "expr_Span (ListComp _ _ _ _ s) = s"
| "expr_Span (MapComp _ _ _ _ _ s) = s"

fun stmt_Span :: "Stmt \<Rightarrow> TSpan" where
  "stmt_Span (LetStmt d) = ld_Span d"
| "stmt_Span (ForStmt _ _ _ s) = s"
| "stmt_Span (IfStmt _ _ _ s) = s"
| "stmt_Span (ReturnStmt _ s) = s"
| "stmt_Span (ExprStmt e) = expr_Span e"
| "stmt_Span (AssignStmt _ _ s) = s"
| "stmt_Span NilStmt = no_span"

section \<open>Declarations\<close>

record AttrArg =
  aa_Name :: Ident
  aa_Value :: Expr
  aa_Span :: TSpan

record Attribute =
  at_Name :: DottedName
  at_Positionals :: "Expr list"
  at_Named :: "AttrArg list"
  at_Span :: TSpan

record Field =
  fd_Name :: Ident
  fd_Type :: TypeExpr
  fd_Default :: Expr
  fd_Attributes :: "Attribute list"
  fd_Span :: TSpan

text \<open>The fields of a type declaration are nil for an opaque type.\<close>

datatype Decl =
    TypeDecl Ident "Field list option" bool TSpan
  | AttrTypeDecl Ident "Field list" string TSpan
  | EnumDecl Ident "Ident list" bool TSpan
  | FuncDecl Ident "Field list" TypeExpr "Block option" bool TSpan
  | DeclDecl DottedName "Field list" TypeExpr "Block option" bool TSpan
  | LetD LetDecl
  | NilDecl

fun decl_Span :: "Decl \<Rightarrow> TSpan" where
  "decl_Span (TypeDecl _ _ _ s) = s"
| "decl_Span (AttrTypeDecl _ _ _ s) = s"
| "decl_Span (EnumDecl _ _ _ s) = s"
| "decl_Span (FuncDecl _ _ _ _ _ s) = s"
| "decl_Span (DeclDecl _ _ _ _ _ s) = s"
| "decl_Span (LetD d) = ld_Span d"
| "decl_Span NilDecl = no_span"

record ModuleDecl =
  md_Name :: Ident
  md_Span :: TSpan

record ImportDecl =
  im_Path :: string
  im_Span :: TSpan

record File =
  fl_Name :: string
  fl_Module :: "ModuleDecl option"
  fl_Imports :: "ImportDecl list"
  fl_Decls :: "Decl list"
  fl_Stmts :: "Stmt list"
  fl_Span :: TSpan

text \<open>The first part of the name of a decl declaration; the code indexes it without a check.\<close>

definition first_part :: "DottedName \<Rightarrow> string" where
  "first_part d = id_Name (hd (dn_Parts d))"

end
