(* ===== verification/Eval_Values.thy ===== *)
theory Eval_Values
  imports Computations Lang_Ast Go_Paths "HOL-Library.Signed_Division"
begin

text \<open>
  The values and the state of the evaluator (internal/lang/eval/value.go and env.go, and the
  struct Evaluator of eval.go). Values that the code shares by pointer and changes in place -
  lists, maps, structs, thunks - are addresses into a heap; so are the variable scopes, which
  closures capture. A computation returns a value and a state, panics, or is out of fuel.
\<close>

section \<open>Values\<close>

text \<open>What a function value carries as its body: nil, a pointer to a block, which may itself be nil, or a
  decl declaration with its parameters.\<close>

datatype FuncBody = NoBody | BlockBody "Block option" | DeclBody "Field list" "Block option"

record FuncVal =
  fv_Name :: string
  fv_QualName :: string
  fv_Params :: "string list"
  fv_Defaults :: "Expr list"
  fv_RetType :: string
  fv_body :: FuncBody
  fv_scope :: "nat option"

text \<open>\<open>VNil\<close> is the nil interface. What an opaque value wraps is a number here: only the caller that
  made it knows what it stands for.\<close>

datatype Value =
    VNil
  | VString string
  | VInt "64 word"
  | VBool bool
  | VNone
  | VList nat
  | VMap nat
  | VStruct nat
  | VBlock string string "(string \<times> Value) list"
  | VBlockResult string string "(string \<times> Value) list" "Value list"
  | VFunc FuncVal
  | VThunk nat
  | VRef nat string
  | VOpaque string nat

text \<open>A Go map from strings is an association list; the keys of a MapVal are in insertion order.\<close>

record StructVal =
  sv_TypeName :: string
  sv_QualName :: string
  sv_RetType :: string
  sv_Fields :: "(string \<times> Value) list"
  sv_SrcSpan :: TSpan
  sv_FieldSpans :: "(string \<times> TSpan) list"

datatype Obj =
    OList "Value list"
  | OMap "(Value \<times> Value) list"
  | OStruct StructVal
  | OThunk nat Expr "Value option"

text \<open>MapVal.Get and MapVal.Set.\<close>

fun map_Get :: "(Value \<times> Value) list \<Rightarrow> string \<Rightarrow> Value option" where
  "map_Get [] key = None"
| "map_Get ((k, v) # m) key = (if k = VString key then Some v else map_Get m key)"

fun map_Set :: "(Value \<times> Value) list \<Rightarrow> string \<Rightarrow> Value \<Rightarrow> (Value \<times> Value) list" where
  "map_Set [] key val = [(VString key, val)]"
| "map_Set ((k, v) # m) key val = (if k = VString key then (k, val) # m else (k, v) # map_Set m key val)"

lemma map_Get_Set [simp]: "map_Get (map_Set m k v) k' = (if k = k' then Some v else map_Get m k')"
  by (induction m k v rule: map_Set.induct) auto

lemma map_Set_keys: "map fst (map_Set m k v) = (if VString k \<in> fst ` set m then map fst m else map fst m @ [VString k])"
  by (induction m k v rule: map_Set.induct) auto

section \<open>State\<close>

record EnvFrame =
  ef_parent :: "nat option"
  ef_vars :: "(string \<times> Value) list"

record EvError =
  ee_Span :: TSpan
  ee_Code :: string
  ee_Msg :: string

record EvState =
  es_env :: nat
  es_errs :: "EvError list"
  es_Exprs :: "Value list"
  es_declReturns :: "(string \<times> string) list"
  es_returnVal :: Value
  es_collector :: "Value list option"
  es_modInternal :: "(string \<times> nat) list"
  es_typeDefaults :: "(string \<times> Field list) list"
  es_envs :: "EnvFrame list"
  es_heap :: "Obj list"

type_synonym 'a ev = "('a, EvState) comp"

text \<open>A loop that stops as soon as a return statement has left a value.\<close>

fun until_return :: "('a \<Rightarrow> unit ev) \<Rightarrow> 'a list \<Rightarrow> unit ev" where
  "until_return f [] = ret ()"
| "until_return f (x # xs) =
     ethen (f x) (ebind (gets es_returnVal) (\<lambda>r. if r \<noteq> VNil then ret () else until_return f xs))"

section \<open>Heap and scopes\<close>

definition alloc :: "Obj \<Rightarrow> nat ev" where
  "alloc obj s = Done (length (es_heap s)) (s\<lparr>es_heap := es_heap s @ [obj]\<rparr>)"

definition new_list :: "Value list \<Rightarrow> Value ev" where
  "new_list vs = ebind (alloc (OList vs)) (\<lambda>a. ret (VList a))"

definition new_map :: "(Value \<times> Value) list \<Rightarrow> Value ev" where
  "new_map kvs = ebind (alloc (OMap kvs)) (\<lambda>a. ret (VMap a))"

definition new_struct :: "StructVal \<Rightarrow> Value ev" where
  "new_struct sv = ebind (alloc (OStruct sv)) (\<lambda>a. ret (VStruct a))"

definition obj_at :: "EvState \<Rightarrow> nat \<Rightarrow> Obj option" where
  "obj_at s a = (if a < length (es_heap s) then Some (es_heap s ! a) else None)"

definition list_at :: "EvState \<Rightarrow> nat \<Rightarrow> Value list" where
  "list_at s a = (case obj_at s a of Some (OList vs) \<Rightarrow> vs | _ \<Rightarrow> [])"

definition map_at :: "EvState \<Rightarrow> nat \<Rightarrow> (Value \<times> Value) list" where
  "map_at s a = (case obj_at s a of Some (OMap m) \<Rightarrow> m | _ \<Rightarrow> [])"

definition empty_struct :: StructVal where
  "empty_struct = \<lparr>sv_TypeName = [], sv_QualName = [], sv_RetType = [], sv_Fields = [], sv_SrcSpan = no_span,
     sv_FieldSpans = []\<rparr>"

definition struct_at :: "EvState \<Rightarrow> nat \<Rightarrow> StructVal" where
  "struct_at s a = (case obj_at s a of Some (OStruct sv) \<Rightarrow> sv | _ \<Rightarrow> empty_struct)"

definition put_obj :: "nat \<Rightarrow> Obj \<Rightarrow> unit ev" where
  "put_obj a obj = modify (\<lambda>s. s\<lparr>es_heap := (es_heap s)[a := obj]\<rparr>)"

text \<open>Writes through a pointer to a map, a list, a struct.\<close>

definition set_entry :: "nat \<Rightarrow> string \<Rightarrow> Value \<Rightarrow> unit ev" where
  "set_entry a k v = modify (\<lambda>s. case obj_at s a of
     Some (OMap m) \<Rightarrow> s\<lparr>es_heap := (es_heap s)[a := OMap (map_Set m k v)]\<rparr> | _ \<Rightarrow> s)"

definition set_item :: "nat \<Rightarrow> nat \<Rightarrow> Value \<Rightarrow> unit ev" where
  "set_item a i v = modify (\<lambda>s. case obj_at s a of
     Some (OList vs) \<Rightarrow> s\<lparr>es_heap := (es_heap s)[a := OList (vs[i := v])]\<rparr> | _ \<Rightarrow> s)"

definition set_field :: "nat \<Rightarrow> string \<Rightarrow> Value \<Rightarrow> unit ev" where
  "set_field a name v = modify (\<lambda>s. case obj_at s a of
     Some (OStruct sv) \<Rightarrow>
       s\<lparr>es_heap := (es_heap s)[a := OStruct (sv\<lparr>sv_Fields := AList.update name v (sv_Fields sv)\<rparr>)]\<rparr>
   | _ \<Rightarrow> s)"

definition newEnv :: "nat option \<Rightarrow> nat ev" where
  "newEnv parent s = Done (length (es_envs s)) (s\<lparr>es_envs := es_envs s @ [\<lparr>ef_parent = parent, ef_vars = []\<rparr>]\<rparr>)"

definition env_set :: "nat \<Rightarrow> string \<Rightarrow> Value \<Rightarrow> unit ev" where
  "env_set e name v =
     modify (\<lambda>s. s\<lparr>es_envs := (es_envs s)[e := (es_envs s ! e)\<lparr>ef_vars := AList.update name v (ef_vars (es_envs s ! e))\<rparr>]\<rparr>)"

text \<open>A scope is younger than its parent, so that following parents ends.\<close>

function env_get :: "EnvFrame list \<Rightarrow> nat \<Rightarrow> string \<Rightarrow> Value option" where
  "env_get envs e name =
     (if length envs \<le> e then None
      else
        (case map_of (ef_vars (envs ! e)) name of
           Some v \<Rightarrow> Some v
         | None \<Rightarrow>
             (case ef_parent (envs ! e) of
                None \<Rightarrow> None
              | Some p \<Rightarrow> if p < e then env_get envs p name else None)))"
  by pat_completeness auto
termination by (relation "measure (\<lambda>(envs, e, name). e)") auto

declare env_get.simps [simp del]

definition lookup_var :: "string \<Rightarrow> Value option ev" where
  "lookup_var name = gets (\<lambda>s. env_get (es_envs s) (es_env s) name)"

definition set_var :: "string \<Rightarrow> Value \<Rightarrow> unit ev" where
  "set_var name v = ebind (gets es_env) (\<lambda>e. env_set e name v)"

definition ev_errAt :: "TSpan \<Rightarrow> string \<Rightarrow> string \<Rightarrow> unit ev" where
  "ev_errAt span code msg =
     modify (\<lambda>s. s\<lparr>es_errs := es_errs s @ [\<lparr>ee_Span = span, ee_Code = code, ee_Msg = msg\<rparr>]\<rparr>)"

text \<open>An error is recorded and none is returned.\<close>

definition err_none :: "TSpan \<Rightarrow> string \<Rightarrow> string \<Rightarrow> Value ev" where
  "err_none span code msg = ethen (ev_errAt span code msg) (ret VNone)"

section \<open>Configuration of a run\<close>

type_synonym kwargs = "(string \<times> Value) list"

text \<open>
  What the caller of the evaluator injects - the environment variables, registered builtin functions, the
  callback for emitted values - and strconv.Quote, whose table of printable characters is not
  modelled.
\<close>

record EvCfg =
  cf_envLookup :: "(string \<Rightarrow> string option) option"
  cf_lenient :: bool
  cf_builtins :: "string \<Rightarrow> (Value list \<Rightarrow> kwargs \<Rightarrow> (Value \<times> string) ev) option"
  cf_onEmit :: "(Value \<Rightarrow> unit ev) option"
  cf_Quote :: "string \<Rightarrow> string"

end
