(* ===== verification/Evaluator.thy ===== *)
theory Evaluator
  imports Eval_Values
begin

text \<open>
  The evaluator (internal/lang/eval/eval.go): statements, expressions, calls, the builtin
  functions and struct literals. The functions of the code call each other through evalExpr
  and evalStmt; here each takes these two, and the fuel that is left, in a record \<open>ev\<close>, and
  \<open>interp\<close> at the end ties the knot.
\<close>

record Evaluator =
  r_expr :: "Expr \<Rightarrow> Value ev"
  r_stmt :: "Stmt \<Rightarrow> unit ev"
  r_fuel :: nat

section \<open>Text\<close>

definition escape_char :: "char \<Rightarrow> char" where
  "escape_char c =
     (if c = CHR ''n'' then CHR 0x0A else if c = CHR ''t'' then CHR 0x09 else if c = CHR ''r'' then CHR 0x0D
      else if c = CHR ''0'' then CHR 0x00 else c)"

fun resolveEscapes :: "string \<Rightarrow> string" where
  "resolveEscapes [] = []"
| "resolveEscapes [c] = [c]"
| "resolveEscapes (c # d # raw) =
     (if c = CHR 0x5C then escape_char d # resolveEscapes raw else c # resolveEscapes (d # raw))"

fun resolveMultiEscapes :: "string \<Rightarrow> string" where
  "resolveMultiEscapes [] = []"
| "resolveMultiEscapes [c] = [c]"
| "resolveMultiEscapes (c # d # raw) =
     (if c = CHR 0x5C \<and> (d = CHR 0x5C \<or> d = CHR 0x60 \<or> d = CHR ''$'') then d # resolveMultiEscapes raw
      else c # resolveMultiEscapes (d # raw))"

text \<open>The text up to the first line feed and including it, and the rest.\<close>

fun take_line :: "string \<Rightarrow> string \<times> string" where
  "take_line [] = ([], [])"
| "take_line (c # s) = (if c = CHR 0x0A then ([c], s) else (let (l, r) = take_line s in (c # l, r)))"

lemma take_line_append: "fst (take_line s) @ snd (take_line s) = s"
  by (induction s) (auto simp: split_beta)

lemma take_line_shorter: "s \<noteq> [] \<Longrightarrow> length (snd (take_line s)) < length s"
proof (induction s)
  case (Cons c s)
  then show ?case by (cases s) (auto simp: split_beta)
qed simp

function strip_lines :: "string \<Rightarrow> string \<Rightarrow> bool \<Rightarrow> string \<times> bool" where
  "strip_lines prefix s atLineStart =
     (if s = [] then ([], atLineStart)
      else
        (let t = (if atLineStart \<and> HasPrefix s prefix then drop (length prefix) s else s);
             (line, r) = take_line t;
             (out, e) = strip_lines prefix r (line \<noteq> [] \<and> last line = CHR 0x0A)
         in (line @ out, e)))"
  by pat_completeness auto
termination
proof (relation "measure (\<lambda>(prefix, s, a). length s)", goal_cases)
  case (2 prefix s a t p line r)
  have "length t \<le> length s" using 2(2) by (simp split: if_splits)
  moreover have "r = snd (take_line t)" using 2 by (metis snd_conv)
  then have "t \<noteq> [] \<Longrightarrow> length r < length t" using take_line_shorter [of t] by simp
  ultimately show ?case using 2 by (cases "t = []") auto
qed simp

declare strip_lines.simps [simp del]

definition stripIndent :: "string \<Rightarrow> string \<Rightarrow> bool \<Rightarrow> string \<times> bool" where
  "stripIndent s prefix atLineStart =
     (if prefix = [] then (s, if s \<noteq> [] then last s = CHR 0x0A else atLineStart)
      else strip_lines prefix s atLineStart)"

fun value_String :: "EvCfg \<Rightarrow> nat \<Rightarrow> Value \<Rightarrow> string ev" where
  "value_String c 0 v s = NoFuel"
| "value_String c (Suc n) v s =
     (case v of
        VNil \<Rightarrow> Panic ''nil pointer dereference''
      | VString x \<Rightarrow> Done (cf_Quote c x) s
      | VInt i \<Rightarrow> Done (fmt_int (sint i)) s
      | VBool b \<Rightarrow> Done (if b then ''true'' else ''false'') s
      | VNone \<Rightarrow> Done ''none'' s
      | VList a \<Rightarrow> Done (''[...'' @ Itoa (length (list_at s a)) @ '' items]'') s
      | VMap a \<Rightarrow> Done (''{...'' @ Itoa (length (map_at s a)) @ '' entries}'') s
      | VStruct a \<Rightarrow>
          Done (if sv_RetType (struct_at s a) \<noteq> [] then sv_RetType (struct_at s a) @ ''('' @ sv_TypeName (struct_at s a) @ '')''
                else sv_TypeName (struct_at s a) @ ''{...}'') s
      | VBlock f t fs \<Rightarrow> Done (''block('' @ f @ '')'') s
      | VBlockResult t f fs body \<Rightarrow> Done (t @ ''('' @ f @ '', '' @ Itoa (length body) @ '' body values)'') s
      | VFunc fv \<Rightarrow> Done (''func '' @ fv_Name fv) s
      | VThunk a \<Rightarrow>
          (case obj_at s a of
             Some (OThunk _ _ (Some w)) \<Rightarrow> value_String c n w s
           | _ \<Rightarrow> Done ''<thunk>'' s)
      | VRef a e \<Rightarrow> Done (''ref(..,'' @ e @ '')'') s
      | VOpaque t _ \<Rightarrow> Done t s)"

definition valueToString :: "EvCfg \<Rightarrow> Evaluator \<Rightarrow> Value \<Rightarrow> string ev" where
  "valueToString c ev v =
     (case v of
        VNil \<Rightarrow> ret ''none''
      | VString x \<Rightarrow> ret x
      | VNone \<Rightarrow> ret ''none''
      | _ \<Rightarrow> value_String c (r_fuel ev) v)"

definition typeNameOf :: "Value \<Rightarrow> string" where
  "typeNameOf v = (case v of VBool _ \<Rightarrow> ''bool'' | VInt _ \<Rightarrow> ''int'' | VString _ \<Rightarrow> ''string'' | VNone \<Rightarrow> ''none''
     | VList _ \<Rightarrow> ''list'' | VMap _ \<Rightarrow> ''map'' | VStruct _ \<Rightarrow> ''struct'' | VFunc _ \<Rightarrow> ''func''
     | VBlock _ _ _ \<Rightarrow> ''block'' | VBlockResult _ _ _ _ \<Rightarrow> ''block'' | VOpaque _ _ \<Rightarrow> ''opaque'' | VRef _ _ \<Rightarrow> ''ref''
     | _ \<Rightarrow> ''unknown'')"

section \<open>Operators\<close>

definition asBool :: "Value \<Rightarrow> TSpan \<Rightarrow> bool ev" where
  "asBool v span =
     (case v of
        VBool b \<Rightarrow> ret b
      | _ \<Rightarrow> ethen (ev_errAt span ''lang.NotBool'' (''expected bool, got '' @ typeNameOf v)) (ret False))"

definition isIntZero :: "Value \<Rightarrow> bool" where
  "isIntZero v = (case v of VInt i \<Rightarrow> i = 0 | _ \<Rightarrow> False)"

definition valuesEqual :: "Value \<Rightarrow> Value \<Rightarrow> bool" where
  "valuesEqual a b =
     (case (a, b) of
        (VString x, VString y) \<Rightarrow> x = y
      | (VInt x, VInt y) \<Rightarrow> x = y
      | (VBool x, VBool y) \<Rightarrow> x = y
      | (VNone, VNone) \<Rightarrow> True
      | _ \<Rightarrow> False)"

definition compareInts :: "Value \<Rightarrow> Value \<Rightarrow> int" where
  "compareInts a b =
     (case (a, b) of
        (VInt x, VInt y) \<Rightarrow> if sint x < sint y then -1 else if sint x > sint y then 1 else 0
      | _ \<Rightarrow> 0)"

definition intBinOp :: "Value \<Rightarrow> Value \<Rightarrow> (64 word \<Rightarrow> 64 word \<Rightarrow> 64 word) \<Rightarrow> Value" where
  "intBinOp a b f = (case (a, b) of (VInt x, VInt y) \<Rightarrow> VInt (f x y) | _ \<Rightarrow> VNone)"

text \<open>Go's division of 64-bit integers rounds towards zero, and the remainder has the sign of the dividend.\<close>

definition int64_div :: "64 word \<Rightarrow> 64 word \<Rightarrow> 64 word" where
  "int64_div a b = word_of_int (sint a sdiv sint b)"

definition int64_mod :: "64 word \<Rightarrow> 64 word \<Rightarrow> 64 word" where
  "int64_mod a b = word_of_int (sint a smod sint b)"

definition valueIn :: "Value \<Rightarrow> Value \<Rightarrow> EvState \<Rightarrow> bool" where
  "valueIn needle haystack s =
     (case haystack of
        VList a \<Rightarrow> list_ex (valuesEqual needle) (list_at s a)
      | VMap a \<Rightarrow> (case needle of VString k \<Rightarrow> map_Get (map_at s a) k \<noteq> None | _ \<Rightarrow> False)
      | _ \<Rightarrow> False)"

definition vbool :: "bool \<Rightarrow> Value ev" where
  "vbool b = ret (VBool b)"

definition evalBinary :: "Evaluator \<Rightarrow> Kind \<Rightarrow> Expr \<Rightarrow> Expr \<Rightarrow> TSpan \<Rightarrow> Value ev" where
  "evalBinary ev bop l r span =
     ebind (r_expr ev l) (\<lambda>lv. ebind (r_expr ev r) (\<lambda>rv.
       case bop of
         K_Plus \<Rightarrow>
           (case (lv, rv) of
              (VString x, VString y) \<Rightarrow> ret (VString (x @ y))
            | (VInt x, VInt y) \<Rightarrow> ret (VInt (x + y))
            | (VList x, VList y) \<Rightarrow> ebind (gets (\<lambda>s. list_at s x @ list_at s y)) new_list
            | _ \<Rightarrow> ret VNone)
       | K_Minus \<Rightarrow> ret (intBinOp lv rv (\<lambda>a b. a - b))
       | K_Star \<Rightarrow> ret (intBinOp lv rv (\<lambda>a b. a * b))
       | K_Slash \<Rightarrow> if isIntZero rv then err_none span ''lang.DivByZero'' ''division by zero''
                    else ret (intBinOp lv rv int64_div)
       | K_Percent \<Rightarrow> if isIntZero rv then err_none span ''lang.DivByZero'' ''modulo by zero''
                      else ret (intBinOp lv rv int64_mod)
       | K_Eq \<Rightarrow> vbool (valuesEqual lv rv)
       | K_Neq \<Rightarrow> vbool (\<not> valuesEqual lv rv)
       | K_Lt \<Rightarrow> vbool (compareInts lv rv < 0)
       | K_Gt \<Rightarrow> vbool (compareInts lv rv > 0)
       | K_Leq \<Rightarrow> vbool (compareInts lv rv \<le> 0)
       | K_Geq \<Rightarrow> vbool (compareInts lv rv \<ge> 0)
       | K_And \<Rightarrow> ebind (asBool lv (expr_Span l)) (\<lambda>a. if a then ebind (asBool rv (expr_Span r)) vbool else vbool False)
       | K_Or \<Rightarrow> ebind (asBool lv (expr_Span l)) (\<lambda>a. if a then vbool True else ebind (asBool rv (expr_Span r)) vbool)
       | K_In \<Rightarrow> ebind (gets (valueIn lv rv)) vbool
       | _ \<Rightarrow> ret VNone))"

definition evalUnary :: "Evaluator \<Rightarrow> Kind \<Rightarrow> Expr \<Rightarrow> Value ev" where
  "evalUnary ev uop x =
     ebind (r_expr ev x) (\<lambda>xv.
       case uop of
         K_Not \<Rightarrow> ebind (asBool xv (expr_Span x)) (\<lambda>b. vbool (\<not> b))
       | K_Minus \<Rightarrow> (case xv of VInt i \<Rightarrow> ret (VInt (- i)) | _ \<Rightarrow> ret VNone)
       | _ \<Rightarrow> ret VNone)"

section \<open>Thunks and access\<close>

text \<open>forceValue and ThunkVal.Force: the expression is evaluated in the scope of its module, once.\<close>

definition forceValue :: "Evaluator \<Rightarrow> Value \<Rightarrow> Value ev" where
  "forceValue ev v =
     (case v of
        VThunk a \<Rightarrow>
          ebind (gets (\<lambda>s. obj_at s a)) (\<lambda>t.
            case t of
              Some (OThunk scope e None) \<Rightarrow>
                ebind (gets es_env) (\<lambda>oldEnv.
                  ethen (modify (\<lambda>s. s\<lparr>es_env := scope\<rparr>))
                    (ebind (r_expr ev e) (\<lambda>w.
                      ethen (modify (\<lambda>s. s\<lparr>es_env := oldEnv\<rparr>))
                        (ethen (put_obj a (OThunk scope e (Some w))) (ret w)))))
            | Some (OThunk _ _ (Some w)) \<Rightarrow> ret w
            | _ \<Rightarrow> ret VNil)
      | _ \<Rightarrow> ret v)"

text \<open>A field of a struct or an entry of a map, if there is one.\<close>

definition member :: "Value \<Rightarrow> string \<Rightarrow> EvState \<Rightarrow> Value option" where
  "member x name s =
     (case x of
        VStruct a \<Rightarrow> map_of (sv_Fields (struct_at s a)) name
      | VMap a \<Rightarrow> map_Get (map_at s a) name
      | _ \<Rightarrow> None)"

definition evalSelector :: "Evaluator \<Rightarrow> Expr \<Rightarrow> Ident \<Rightarrow> TSpan \<Rightarrow> Value ev" where
  "evalSelector ev e sel span =
     ebind (r_expr ev e) (\<lambda>x0. ebind (forceValue ev x0) (\<lambda>x.
       ebind (gets (member x (id_Name sel))) (\<lambda>m.
         case m of
           Some v \<Rightarrow> forceValue ev v
         | None \<Rightarrow> err_none span ''lang.CannotAccess'' (''cannot access .'' @ id_Name sel))))"

fun dotted_loop :: "Evaluator \<Rightarrow> Ident list \<Rightarrow> Value \<Rightarrow> Value ev" where
  "dotted_loop ev [] v = ret v"
| "dotted_loop ev (p # ps) v =
     (case v of
        VStruct a \<Rightarrow>
          ebind (gets (member v (id_Name p))) (\<lambda>m.
            ebind (forceValue ev (case m of Some w \<Rightarrow> w | None \<Rightarrow> VNil)) (dotted_loop ev ps))
      | VMap a \<Rightarrow>
          ebind (gets (member v (id_Name p))) (\<lambda>m.
            ebind (forceValue ev (case m of Some w \<Rightarrow> w | None \<Rightarrow> VNil)) (dotted_loop ev ps))
      | _ \<Rightarrow> err_none (id_Span p) ''lang.CannotAccess'' (''cannot access .'' @ id_Name p))"

definition evalDottedName :: "Evaluator \<Rightarrow> DottedName \<Rightarrow> Value ev" where
  "evalDottedName ev dn =
     (case dn_Parts dn of
        [] \<Rightarrow> ret VNone
      | p # ps \<Rightarrow>
          ebind (lookup_var (id_Name p)) (\<lambda>r.
            case r of
              None \<Rightarrow> err_none (id_Span p) ''lang.Undefined'' (''undefined: '' @ id_Name p)
            | Some v \<Rightarrow> ebind (forceValue ev v) (dotted_loop ev ps)))"

definition evalIdent :: "Evaluator \<Rightarrow> Ident \<Rightarrow> Value ev" where
  "evalIdent ev i =
     ebind (lookup_var (id_Name i)) (\<lambda>r.
       case r of
         None \<Rightarrow> err_none (id_Span i) ''lang.Undefined'' (''undefined: '' @ id_Name i)
       | Some v \<Rightarrow> forceValue ev v)"

definition evalIndex :: "Evaluator \<Rightarrow> Expr \<Rightarrow> Expr \<Rightarrow> Value ev" where
  "evalIndex ev x i =
     ebind (r_expr ev x) (\<lambda>coll. ebind (r_expr ev i) (\<lambda>key.
       ebind (gets (\<lambda>s. s)) (\<lambda>s.
         case (coll, key) of
           (VList a, VInt k) \<Rightarrow>
             if sint k < int (length (list_at s a))
             then (if sint k < 0 then epanic ''index out of range'' else ret (list_at s a ! nat (sint k)))
             else ret VNone
         | (VMap a, VString k) \<Rightarrow> ret (case map_Get (map_at s a) k of Some v \<Rightarrow> v | None \<Rightarrow> VNone)
         | (VStruct a, VString k) \<Rightarrow> ret (case map_of (sv_Fields (struct_at s a)) k of Some v \<Rightarrow> v | None \<Rightarrow> VNone)
         | _ \<Rightarrow> ret VNone)))"

section \<open>Strings\<close>

fun string_parts :: "EvCfg \<Rightarrow> Evaluator \<Rightarrow> StringPart list \<Rightarrow> string ev" where
  "string_parts c ev [] = ret []"
| "string_parts c ev (StringText raw _ # ps) = ebind (string_parts c ev ps) (\<lambda>r. ret (resolveEscapes raw @ r))"
| "string_parts c ev (StringInterp e _ # ps) =
     ebind (r_expr ev e) (\<lambda>v. ebind (valueToString c ev v) (\<lambda>t.
       ebind (string_parts c ev ps) (\<lambda>r. ret (t @ r))))"

text \<open>The loop of evalMultiLineString, with its two flags.\<close>

fun multi_parts :: "EvCfg \<Rightarrow> Evaluator \<Rightarrow> string \<Rightarrow> StringPart list \<Rightarrow> bool \<Rightarrow> bool \<Rightarrow> string ev" where
  "multi_parts c ev indent [] stripLeadingNL atLineStart = ret []"
| "multi_parts c ev indent (StringText raw _ # ps) stripLeadingNL atLineStart =
     (let text = resolveMultiEscapes raw;
          text = (if stripLeadingNL \<and> text \<noteq> [] \<and> hd text = CHR 0x0A then tl text else text);
          (out, atLineStart) = stripIndent text indent atLineStart
      in ebind (multi_parts c ev indent ps False atLineStart) (\<lambda>r. ret (out @ r)))"
| "multi_parts c ev indent (StringInterp e _ # ps) stripLeadingNL atLineStart =
     ebind (r_expr ev e) (\<lambda>v. ebind (valueToString c ev v) (\<lambda>t.
       ebind (multi_parts c ev indent ps False (if t \<noteq> [] then last t = CHR 0x0A else atLineStart))
         (\<lambda>r. ret (t @ r))))"

definition evalMultiLineString :: "EvCfg \<Rightarrow> Evaluator \<Rightarrow> StringPart list \<Rightarrow> string \<Rightarrow> string ev" where
  "evalMultiLineString c ev parts indent = multi_parts c ev indent parts True True"

definition evalString :: "EvCfg \<Rightarrow> Evaluator \<Rightarrow> StringPart list \<Rightarrow> bool \<Rightarrow> string \<Rightarrow> Value ev" where
  "evalString c ev parts multi indent =
     ebind (if multi then evalMultiLineString c ev parts indent else string_parts c ev parts) (\<lambda>t. ret (VString t))"

section \<open>Builtin functions\<close>

definition kwarg :: "kwargs \<Rightarrow> string \<Rightarrow> Value option" where
  "kwarg kw name = map_of kw name"

definition string_val :: "Value option \<Rightarrow> string option" where
  "string_val v = (case v of Some (VString s) \<Rightarrow> Some s | _ \<Rightarrow> None)"

definition nth_arg :: "Value list \<Rightarrow> nat \<Rightarrow> Value option" where
  "nth_arg vs i = (if i < length vs then Some (vs ! i) else None)"

definition stringArg :: "Value list \<Rightarrow> kwargs \<Rightarrow> string \<Rightarrow> nat \<Rightarrow> string" where
  "stringArg positional kw name i =
     (case string_val (nth_arg positional i) of
        Some s \<Rightarrow> s
      | None \<Rightarrow> (case string_val (kwarg kw name) of Some s \<Rightarrow> s | None \<Rightarrow> []))"

text \<open>A list of a length that does not fit the address space makes make panic.\<close>

definition callRange :: "Value list \<Rightarrow> kwargs \<Rightarrow> Value ev" where
  "callRange positional kw =
     (let n = (case nth_arg positional 0 of Some (VInt i) \<Rightarrow> i | _ \<Rightarrow> 0);
          n = (case kwarg kw ''n'' of Some (VInt i) \<Rightarrow> i | _ \<Rightarrow> n)
      in if sint n < 0 \<or> 2 ^ 44 < sint n then epanic ''makeslice: len out of range''
         else new_list (map (\<lambda>i. VInt (of_nat i)) [0..<nat (sint n)]))"

fun unique_loop :: "Value list \<Rightarrow> Value list \<Rightarrow> Value list" where
  "unique_loop out [] = out"
| "unique_loop out (it # items) =
     unique_loop (if list_ex (\<lambda>p. valuesEqual p it) out then out else out @ [it]) items"

definition callUnique :: "Value list \<Rightarrow> kwargs \<Rightarrow> Value ev" where
  "callUnique positional kw =
     ebind (gets (\<lambda>s.
       let items = (case nth_arg positional 0 of Some (VList a) \<Rightarrow> list_at s a | _ \<Rightarrow> [])
       in (case kwarg kw ''items'' of Some (VList a) \<Rightarrow> list_at s a | _ \<Rightarrow> items)))
     (\<lambda>items. new_list (unique_loop [] items))"

definition callTrimPrefix :: "Value list \<Rightarrow> kwargs \<Rightarrow> Value ev" where
  "callTrimPrefix positional kw =
     ret (VString (TrimPrefix (stringArg positional kw ''s'' 0) (stringArg positional kw ''prefix'' 1)))"

definition callTrimSuffix :: "Value list \<Rightarrow> kwargs \<Rightarrow> Value ev" where
  "callTrimSuffix positional kw =
     ret (VString (TrimSuffix (stringArg positional kw ''s'' 0) (stringArg positional kw ''suffix'' 1)))"

definition callParseInt :: "EvCfg \<Rightarrow> Value list \<Rightarrow> kwargs \<Rightarrow> TSpan \<Rightarrow> Value ev" where
  "callParseInt c positional kw span =
     (let s = stringArg positional kw ''s'' 0
      in case strconv_ParseInt 10 s of
           (n, None) \<Rightarrow> ret (VInt n)
         | (_, Some _) \<Rightarrow>
             if cf_lenient c then ret (VInt 0)
             else ethen (ev_errAt span ''lang.CallError'' (''parse_int: cannot parse '' @ cf_Quote c s @ '' as int''))
                    (ret (VInt 0)))"

definition callRef :: "Value list \<Rightarrow> kwargs \<Rightarrow> Value ev" where
  "callRef positional kw =
     (let step = (case nth_arg positional 0 of Some (VStruct a) \<Rightarrow> Some a | _ \<Rightarrow> None);
          e = (case string_val (nth_arg positional 1) of Some t \<Rightarrow> t | None \<Rightarrow> []);
          step = (case kwarg kw ''step'' of Some (VStruct a) \<Rightarrow> Some a | Some _ \<Rightarrow> None | None \<Rightarrow> step);
          e = (case string_val (kwarg kw ''expr'') of Some t \<Rightarrow> t | None \<Rightarrow> e)
      in case step of None \<Rightarrow> ret VNone | Some a \<Rightarrow> ret (VRef a e))"

definition callEnv :: "EvCfg \<Rightarrow> Value list \<Rightarrow> kwargs \<Rightarrow> TSpan \<Rightarrow> Value ev" where
  "callEnv c positional kw span =
     (let name = (case string_val (nth_arg positional 0) of Some t \<Rightarrow> t | None \<Rightarrow> []);
          name = (case string_val (kwarg kw ''name'') of Some t \<Rightarrow> t | None \<Rightarrow> name);
          found = (case cf_envLookup c of None \<Rightarrow> None | Some f \<Rightarrow> f name);
          dflt = (case string_val (nth_arg positional 1) of Some t \<Rightarrow> t | None \<Rightarrow> []);
          dflt = (case string_val (kwarg kw ''default'') of Some t \<Rightarrow> t | None \<Rightarrow> dflt)
      in case found of
           Some v \<Rightarrow> ret (VString v)
         | None \<Rightarrow>
             if dflt \<noteq> [] then ret (VString dflt)
             else ethen (ev_errAt span ''lang.EnvVarNotSet''
                           (''required environment variable '' @ [CHR 0x22] @ name @ [CHR 0x22] @ '' is not set''))
                    (ret (VString [])))"

section \<open>Calls\<close>

text \<open>The parameters of a call: by keyword, by position.\<close>

definition arg_for :: "Value list \<Rightarrow> kwargs \<Rightarrow> nat \<Rightarrow> string \<Rightarrow> Value option" where
  "arg_for positional kw i name = (case kwarg kw name of Some v \<Rightarrow> Some v | None \<Rightarrow> nth_arg positional i)"

definition stub_fields :: "Value list \<Rightarrow> kwargs \<Rightarrow> string list \<Rightarrow> (string \<times> Value) list" where
  "stub_fields positional kw params =
     fold (\<lambda>(i, name) fs. case arg_for positional kw i name of Some v \<Rightarrow> AList.update name v fs | None \<Rightarrow> fs)
       (enumerate 0 params) []"

definition with_env :: "nat \<Rightarrow> 'a ev \<Rightarrow> 'a ev" where
  "with_env e m =
     ebind (gets es_env) (\<lambda>prev.
       ethen (modify (\<lambda>s. s\<lparr>es_env := e\<rparr>))
         (ebind m (\<lambda>x. ethen (modify (\<lambda>s. s\<lparr>es_env := prev\<rparr>)) (ret x))))"

definition default_at :: "FuncVal \<Rightarrow> nat \<Rightarrow> Expr" where
  "default_at fv i = (if i < length (fv_Defaults fv) then fv_Defaults fv ! i else NilE)"

definition applyDeclDefaults :: "Evaluator \<Rightarrow> FuncVal \<Rightarrow> (string \<times> Value) list \<Rightarrow> (string \<times> Value) list ev" where
  "applyDeclDefaults ev fv given =
     (let fill = efold (\<lambda>(i, name) fs.
            if map_of fs name \<noteq> None \<or> default_at fv i = NilE then ret fs
            else ebind (r_expr ev (default_at fv i)) (\<lambda>v. ret (AList.update name v fs)))
          (enumerate 0 (fv_Params fv)) given
      in case fv_scope fv of
           Some e \<Rightarrow> with_env e fill
         | None \<Rightarrow> ebind (gets es_env) (\<lambda>e. with_env e fill))"

definition applyTypeDefaults ::
  "Evaluator \<Rightarrow> string \<Rightarrow> string \<Rightarrow> (string \<times> Value) list \<Rightarrow> (string \<times> Value) list ev" where
  "applyTypeDefaults ev typeName qualName given =
     ebind (gets es_typeDefaults) (\<lambda>td.
       let tf = (case map_of td typeName of
                   Some fs \<Rightarrow> fs
                 | None \<Rightarrow> if qualName \<noteq> typeName then (case map_of td qualName of Some fs \<Rightarrow> fs | None \<Rightarrow> []) else [])
       in efold (\<lambda>f fs.
            if fd_Default f = NilE \<or> map_of fs (id_Name (fd_Name f)) \<noteq> None then ret fs
            else ebind (r_expr ev (fd_Default f)) (\<lambda>v. ret (AList.update (id_Name (fd_Name f)) v fs)))
          tf given)"

definition callBuiltin :: "EvCfg \<Rightarrow> Evaluator \<Rightarrow> FuncVal \<Rightarrow> Value list \<Rightarrow> kwargs \<Rightarrow> TSpan \<Rightarrow> Value ev" where
  "callBuiltin c ev fv positional kw span =
     (let given = stub_fields positional kw (fv_Params fv); n = fv_Name fv
      in case cf_builtins c (fv_QualName fv) of
           Some fn \<Rightarrow>
             ebind (fn positional kw) (\<lambda>(result, errMsg).
               if errMsg \<noteq> [] then err_none span ''lang.CallError'' errMsg else ret result)
         | None \<Rightarrow>
             if n = ''env'' then callEnv c positional kw span
             else if n = ''range'' then callRange positional kw
             else if n = ''unique'' then callUnique positional kw
             else if n = ''ref'' then callRef positional kw
             else if n = ''trim_prefix'' then callTrimPrefix positional kw
             else if n = ''trim_suffix'' then callTrimSuffix positional kw
             else if n = ''parse_int'' then callParseInt c positional kw span
             else
               ebind (applyDeclDefaults ev fv given) (\<lambda>flds.
                 if HasPrefix (fv_RetType fv) ''block['' \<and> HasSuffix (fv_RetType fv) '']''
                 then ret (VBlock n (take (length (fv_RetType fv) - 7) (drop 6 (fv_RetType fv))) flds)
                 else new_struct \<lparr>sv_TypeName = n, sv_QualName = fv_QualName fv, sv_RetType = fv_RetType fv,
                        sv_Fields = flds, sv_SrcSpan = no_span, sv_FieldSpans = []\<rparr>))"

text \<open>The symbols of its module become visible in the scope of a function of a user module.\<close>

definition bind_module :: "FuncVal \<Rightarrow> nat \<Rightarrow> unit ev" where
  "bind_module fv child =
     (case Cut (CHR ''.'') (fv_QualName fv) of
        Some (p, _) \<Rightarrow>
          if p = [] then ret ()
          else
            ebind (gets (\<lambda>s. case map_of (es_modInternal s) p of Some a \<Rightarrow> map_at s a | None \<Rightarrow> [])) (\<lambda>m.
              efold (\<lambda>(k, v) _. case k of VString name \<Rightarrow> env_set child name v | _ \<Rightarrow> ret ()) m ())
      | None \<Rightarrow> ret ())"

definition callFunc :: "EvCfg \<Rightarrow> Evaluator \<Rightarrow> FuncVal \<Rightarrow> Value list \<Rightarrow> kwargs \<Rightarrow> TSpan \<Rightarrow> Value ev" where
  "callFunc c ev fv positional kw span =
     (if fv_body fv = NoBody \<and> fv_RetType fv \<noteq> [] then callBuiltin c ev fv positional kw span
      else
        (case fv_body fv of
           BlockBody body \<Rightarrow>
             ebind (newEnv (fv_scope fv)) (\<lambda>child.
               ethen (bind_module fv child)
                 (with_env child
                   (ethen
                     (efold (\<lambda>(i, name) _.
                        case arg_for positional kw i name of
                          Some v \<Rightarrow> env_set child name v
                        | None \<Rightarrow>
                            if default_at fv i \<noteq> NilE
                            then ebind (r_expr ev (default_at fv i)) (env_set child name)
                            else env_set child name VNone)
                        (enumerate 0 (fv_Params fv)) ())
                     (ethen (modify (\<lambda>s. s\<lparr>es_returnVal := VNil\<rparr>))
                       (case body of
                          None \<Rightarrow> epanic ''nil pointer dereference''
                        | Some b \<Rightarrow>
                            ethen (until_return (r_stmt ev) (bk_Stmts b))
                              (ebind (gets es_returnVal) (\<lambda>v.
                                ethen (modify (\<lambda>s. s\<lparr>es_returnVal := VNil\<rparr>))
                                  (ret (if v = VNil then VNone else v)))))))))
         | _ \<Rightarrow> ret VNone))"

section \<open>Emitting values and filling blocks\<close>

definition emitValue :: "EvCfg \<Rightarrow> Value \<Rightarrow> unit ev" where
  "emitValue c v =
     (if v = VNil \<or> v = VNone then ret ()
      else
        ethen (case cf_onEmit c of Some f \<Rightarrow> f v | None \<Rightarrow> ret ())
          (modify (\<lambda>s. case es_collector s of
             Some vs \<Rightarrow> s\<lparr>es_collector := Some (vs @ [v])\<rparr>
           | None \<Rightarrow> s\<lparr>es_Exprs := es_Exprs s @ [v]\<rparr>)))"

definition in_child :: "'a ev \<Rightarrow> 'a ev" where
  "in_child m = ebind (gets es_env) (\<lambda>e. ebind (newEnv (Some e)) (\<lambda>child. with_env child m))"

text \<open>Run a body with an empty collector; the values it emitted, and the collector of before.\<close>

definition collecting :: "unit ev \<Rightarrow> Value list ev" where
  "collecting m =
     ebind (gets es_collector) (\<lambda>prev.
       ethen (modify (\<lambda>s. s\<lparr>es_collector := Some []\<rparr>))
         (ethen m
           (ebind (gets es_collector) (\<lambda>c.
             ethen (modify (\<lambda>s. s\<lparr>es_collector := prev\<rparr>)) (ret (case c of Some vs \<Rightarrow> vs | None \<Rightarrow> []))))))"

definition evalBlock :: "Evaluator \<Rightarrow> Block option \<Rightarrow> unit ev" where
  "evalBlock ev b = (case b of None \<Rightarrow> ret () | Some b \<Rightarrow> until_return (r_stmt ev) (bk_Stmts b))"

definition fillBlock :: "Evaluator \<Rightarrow> string \<Rightarrow> string \<Rightarrow> (string \<times> Value) list \<Rightarrow> Block option \<Rightarrow> Value ev" where
  "fillBlock ev funcName innerType given body =
     ebind (collecting (in_child (evalBlock ev body))) (\<lambda>vs. ret (VBlockResult innerType funcName given vs))"

definition fillBlockFromStmts ::
  "Evaluator \<Rightarrow> string \<Rightarrow> string \<Rightarrow> (string \<times> Value) list \<Rightarrow> Stmt list \<Rightarrow> Value ev" where
  "fillBlockFromStmts ev funcName innerType given stmts =
     ebind (collecting (in_child (efold (\<lambda>st _. r_stmt ev st) stmts ())))
       (\<lambda>vs. ret (VBlockResult innerType funcName given vs))"

definition evalBlockExpr :: "Evaluator \<Rightarrow> Expr \<Rightarrow> Block option \<Rightarrow> TSpan \<Rightarrow> Value ev" where
  "evalBlockExpr ev target body span =
     ebind (r_expr ev target) (\<lambda>t.
       case t of
         VBlock f i fs \<Rightarrow> fillBlock ev f i fs body
       | _ \<Rightarrow> err_none span ''lang.CannotFillBlock'' ''cannot fill non-block value'')"

section \<open>Call expressions\<close>

text \<open>lookupUFCSFunc: the function, or the message of the error.\<close>

definition lookupUFCSFunc :: "string \<Rightarrow> string \<Rightarrow> (string + FuncVal) ev" where
  "lookupUFCSFunc mdl name =
     (if mdl = []
      then ebind (lookup_var name) (\<lambda>r. ret (case r of
             None \<Rightarrow> Inl (''ufcs: undefined '' @ name)
           | Some (VFunc fv) \<Rightarrow> Inr fv
           | Some _ \<Rightarrow> Inl (''ufcs: '' @ name @ '' is not a function'')))
      else ebind (lookup_var mdl) (\<lambda>r.
        case r of
          None \<Rightarrow> ret (Inl (''ufcs: module '' @ mdl @ '' not in scope''))
        | Some (VMap a) \<Rightarrow>
            ebind (gets (\<lambda>s. map_Get (map_at s a) name)) (\<lambda>mb. ret (case mb of
                None \<Rightarrow> Inl (''ufcs: '' @ mdl @ ''.'' @ name @ '' not found'')
              | Some (VFunc fv) \<Rightarrow> Inr fv
              | Some _ \<Rightarrow> Inl (''ufcs: '' @ mdl @ ''.'' @ name @ '' is not a function'')))
        | Some _ \<Rightarrow> ret (Inl (''ufcs: '' @ mdl @ '' is not a module''))))"

text \<open>The arguments of a call, forced: positional ones after those given, and keyword ones.\<close>

definition evalArgs :: "Evaluator \<Rightarrow> CallArg list \<Rightarrow> Value list \<Rightarrow> (Value list \<times> kwargs) ev" where
  "evalArgs ev args leading =
     efold (\<lambda>a (positional, kw).
         ebind (r_expr ev (ca_Value a)) (\<lambda>v0. ebind (forceValue ev v0) (\<lambda>v.
           ret (case ca_Name a of
                  Some n \<Rightarrow> (positional, AList.update (id_Name n) v kw)
                | None \<Rightarrow> (positional @ [v], kw)))))
       args (leading, [])"

definition evalCall :: "EvCfg \<Rightarrow> Evaluator \<Rightarrow> Expr \<Rightarrow> CallArg list \<Rightarrow> bool \<Rightarrow> string \<Rightarrow> TSpan \<Rightarrow> Value ev" where
  "evalCall c ev fn args ufcs ufcsModule span =
     (let run = (\<lambda>fv leading.
            ebind (evalArgs ev args leading) (\<lambda>(positional, kw). callFunc c ev fv positional kw span))
      in if ufcs
         then
           (case fn of
              SelectorExpr x sel _ \<Rightarrow>
                ebind (r_expr ev x) (\<lambda>r0. ebind (forceValue ev r0) (\<lambda>recv.
                  ebind (lookupUFCSFunc ufcsModule (id_Name sel)) (\<lambda>f.
                    case f of
                      Inl msg \<Rightarrow> err_none span ''lang.CallError'' msg
                    | Inr fv \<Rightarrow> run fv [recv])))
            | _ \<Rightarrow> epanic ''interface conversion'')
         else
           ebind (r_expr ev fn) (\<lambda>f.
             case f of
               VFunc fv \<Rightarrow> run fv []
             | _ \<Rightarrow> err_none span ''lang.CannotCall'' ''cannot call non-function''))"

section \<open>Struct literals\<close>

definition structLitTypeName :: "TypeExpr \<Rightarrow> string" where
  "structLitTypeName t =
     (case t of NamedType n _ \<Rightarrow> if dn_Parts n = [] then [] else id_Name (last (dn_Parts n)) | _ \<Rightarrow> [])"

definition structLitQualifiedName :: "TypeExpr \<Rightarrow> string" where
  "structLitQualifiedName t =
     (case t of
        NamedType n _ \<Rightarrow>
          (case dn_Parts n of
             [] \<Rightarrow> [] | [p] \<Rightarrow> id_Name p | p # q # _ \<Rightarrow> id_Name p @ ''.'' @ id_Name q)
      | _ \<Rightarrow> [])"

definition lookupStep :: "string \<Rightarrow> FuncVal option ev" where
  "lookupStep name = ebind (lookup_var name) (\<lambda>r. ret (case r of Some (VFunc fv) \<Rightarrow> Some fv | _ \<Rightarrow> None))"

definition lookupStepQualified :: "string \<Rightarrow> FuncVal option ev" where
  "lookupStepQualified qualName =
     (case Cut (CHR ''.'') qualName of
        None \<Rightarrow> ret None
      | Some (modName, funcName) \<Rightarrow>
          ebind (lookup_var modName) (\<lambda>r.
            case r of
              Some (VMap a) \<Rightarrow>
                ebind (gets (\<lambda>s. map_Get (map_at s a) funcName)) (\<lambda>v.
                  ret (case v of Some (VFunc fv) \<Rightarrow> Some fv | _ \<Rightarrow> None))
            | _ \<Rightarrow> ret None))"

text \<open>
  The loop over the body of a decl: a return statement with a value at the top of the body emits
  the value and ends the expansion; so does a return that a nested statement left behind.
\<close>

definition returns_value :: "Stmt \<Rightarrow> bool" where
  "returns_value st = (case st of ReturnStmt e _ \<Rightarrow> e \<noteq> NilE | _ \<Rightarrow> False)"

definition return_expr :: "Stmt \<Rightarrow> Expr" where
  "return_expr st = (case st of ReturnStmt e _ \<Rightarrow> e | _ \<Rightarrow> NilE)"

fun step_body :: "EvCfg \<Rightarrow> Evaluator \<Rightarrow> Stmt list \<Rightarrow> unit ev" where
  "step_body c ev [] = ret ()"
| "step_body c ev (st # stmts) =
     (if returns_value st then ebind (r_expr ev (return_expr st)) (emitValue c)
      else
        ethen (r_stmt ev st)
          (ebind (gets es_returnVal) (\<lambda>v. if v \<noteq> VNil then emitValue c v else step_body c ev stmts)))"

definition expandUserStep :: "EvCfg \<Rightarrow> Evaluator \<Rightarrow> FuncVal \<Rightarrow> (string \<times> Value) list \<Rightarrow> Value ev" where
  "expandUserStep c ev fv given =
     (case fv_body fv of
        DeclBody params (Some body) \<Rightarrow>
          ebind (new_struct (empty_struct\<lparr>sv_TypeName := ''self'', sv_Fields := given\<rparr>)) (\<lambda>selfVal.
            ebind (gets es_env) (\<lambda>e. ebind (newEnv (Some e)) (\<lambda>child.
              ethen (env_set child ''self'' selfVal)
                (ethen (efold (\<lambda>p _. case map_of given (id_Name (fd_Name p)) of
                                Some v \<Rightarrow> env_set child (id_Name (fd_Name p)) v | None \<Rightarrow> ret ()) params ())
                  (with_env child
                    (ebind (gets es_returnVal) (\<lambda>prevReturn.
                      ethen (modify (\<lambda>s. s\<lparr>es_returnVal := VNil\<rparr>))
                        (ethen (step_body c ev (bk_Stmts body))
                          (ethen (modify (\<lambda>s. s\<lparr>es_returnVal := prevReturn\<rparr>)) (ret VNone))))))))))
      | _ \<Rightarrow> new_struct (empty_struct\<lparr>sv_TypeName := fv_Name fv, sv_Fields := given\<rparr>))"

definition evalStructLit :: "EvCfg \<Rightarrow> Evaluator \<Rightarrow> TypeExpr \<Rightarrow> FieldInit list \<Rightarrow> Stmt list \<Rightarrow> TSpan \<Rightarrow> Value ev" where
  "evalStructLit c ev t inits body span =
     ebind (efold (\<lambda>f fs. ebind (r_expr ev (fin_Value f)) (\<lambda>v. ret (AList.update (id_Name (fin_Name f)) v fs))) inits [])
     (\<lambda>given.
       let spans = fold (\<lambda>f. AList.update (id_Name (fin_Name f)) (expr_Span (fin_Value f))) inits [];
           typeName = structLitTypeName t;
           qualName = structLitQualifiedName t;
           plain = (\<lambda>retType flds.
             ebind (applyTypeDefaults ev typeName qualName flds) (\<lambda>flds.
               new_struct \<lparr>sv_TypeName = typeName, sv_QualName = qualName, sv_RetType = retType, sv_Fields = flds,
                 sv_SrcSpan = span, sv_FieldSpans = spans\<rparr>));
           fill = (\<lambda>retType flds.
             if retType = [] \<and> body \<noteq> []
             then ebind (lookup_var typeName) (\<lambda>v.
                    case v of
                      Some (VBlock f i fs) \<Rightarrow> fillBlockFromStmts ev f i fs body
                    | _ \<Rightarrow> plain retType flds)
             else plain retType flds)
       in ebind (gets es_declReturns) (\<lambda>dr.
          let retType = (case map_of dr qualName of Some r \<Rightarrow> r | None \<Rightarrow> [])
          in ebind (lookupStep typeName) (\<lambda>st.
             case st of
               Some fv \<Rightarrow> expandUserStep c ev fv given
             | None \<Rightarrow>
                 if qualName \<noteq> typeName
                 then ebind (lookupStepQualified qualName) (\<lambda>q.
                        case q of
                          Some fv \<Rightarrow>
                            if fv_body fv \<noteq> NoBody then callFunc c ev fv [] given span
                            else ebind (applyDeclDefaults ev fv given) (fill retType)
                        | None \<Rightarrow> fill retType given)
                 else fill retType given)))"

section \<open>Statements and expressions\<close>

text \<open>The loop of evalFor reads the list it ranges over at each round, in the length it had at first.\<close>

fun for_loop :: "Evaluator \<Rightarrow> string \<Rightarrow> Block option \<Rightarrow> nat \<Rightarrow> nat list \<Rightarrow> unit ev" where
  "for_loop ev x body a [] = ret ()"
| "for_loop ev x body a (i # is) =
     ebind (gets (\<lambda>s. list_at s a ! i)) (\<lambda>item.
       ethen
         (ebind (gets es_env) (\<lambda>e. ebind (newEnv (Some e)) (\<lambda>child.
           ethen (env_set child x item) (with_env child (evalBlock ev body)))))
         (ebind (gets es_returnVal) (\<lambda>r. if r \<noteq> VNil then ret () else for_loop ev x body a is)))"

definition evalFor :: "Evaluator \<Rightarrow> Ident \<Rightarrow> Expr \<Rightarrow> Block option \<Rightarrow> TSpan \<Rightarrow> unit ev" where
  "evalFor ev x it body span =
     ebind (r_expr ev it) (\<lambda>v.
       case v of
         VList a \<Rightarrow> ebind (gets (\<lambda>s. length (list_at s a))) (\<lambda>n. for_loop ev (id_Name x) body a [0..<n])
       | _ \<Rightarrow> ev_errAt span ''lang.ForInRequiresList'' ''for-in requires a list'')"

definition evalIf :: "Evaluator \<Rightarrow> Expr \<Rightarrow> Block option \<Rightarrow> Block option \<Rightarrow> unit ev" where
  "evalIf ev cnd th el =
     ebind (r_expr ev cnd) (\<lambda>v. ebind (asBool v (expr_Span cnd)) (\<lambda>b.
       if b then in_child (evalBlock ev th)
       else if el \<noteq> None then in_child (evalBlock ev el)
       else ret ()))"

definition evalAssign :: "Evaluator \<Rightarrow> Expr \<Rightarrow> Expr \<Rightarrow> unit ev" where
  "evalAssign ev target value =
     ebind (r_expr ev value) (\<lambda>val.
       case target of
         IndexExpr x i _ \<Rightarrow>
           ebind (r_expr ev x) (\<lambda>coll. ebind (r_expr ev i) (\<lambda>key. ebind (gets (\<lambda>s. s)) (\<lambda>s.
             case (coll, key) of
               (VMap a, VString k) \<Rightarrow> set_entry a k val
             | (VList a, VInt k) \<Rightarrow>
                 if sint k < int (length (list_at s a))
                 then (if sint k < 0 then epanic ''index out of range''
                       else set_item a (nat (sint k)) val)
                 else ret ()
             | _ \<Rightarrow> ret ())))
       | SelectorExpr x sel _ \<Rightarrow>
           ebind (r_expr ev x) (\<lambda>obj.
             case obj of
               VStruct a \<Rightarrow> set_field a (id_Name sel) val
             | VMap a \<Rightarrow> set_entry a (id_Name sel) val
             | _ \<Rightarrow> ret ())
       | _ \<Rightarrow> ret ())"

definition evalStmt :: "EvCfg \<Rightarrow> Evaluator \<Rightarrow> Stmt \<Rightarrow> unit ev" where
  "evalStmt c ev st =
     (case st of
        ExprStmt e \<Rightarrow> ebind (r_expr ev e) (emitValue c)
      | LetStmt d \<Rightarrow> ebind (r_expr ev (ld_Value d)) (set_var (id_Name (ld_Name d)))
      | ForStmt x it body span \<Rightarrow> evalFor ev x it body span
      | IfStmt cnd th el span \<Rightarrow> evalIf ev cnd th el
      | ReturnStmt e _ \<Rightarrow>
          if e \<noteq> NilE then ebind (r_expr ev e) (\<lambda>v. modify (\<lambda>s. s\<lparr>es_returnVal := v\<rparr>))
          else modify (\<lambda>s. s\<lparr>es_returnVal := VNone\<rparr>)
      | AssignStmt target value _ \<Rightarrow> evalAssign ev target value
      | NilStmt \<Rightarrow> epanic ''nil pointer dereference'')"

fun comp_loop :: "Evaluator \<Rightarrow> Expr \<Rightarrow> string \<Rightarrow> Expr \<Rightarrow> nat \<Rightarrow> nat list \<Rightarrow> Value list ev" where
  "comp_loop ev e x cnd a [] = ret []"
| "comp_loop ev e x cnd a (i # is) =
     ebind (gets (\<lambda>s. list_at s a ! i)) (\<lambda>item.
       ebind
         (ebind (gets es_env) (\<lambda>p. ebind (newEnv (Some p)) (\<lambda>child.
           ethen (env_set child x item)
             (with_env child
               (ebind (if cnd \<noteq> NilE then ebind (r_expr ev cnd) (\<lambda>v. asBool v (expr_Span cnd)) else ret True) (\<lambda>b.
                 if b then ebind (r_expr ev e) (\<lambda>v. ret [v]) else ret []))))))
         (\<lambda>vs. ebind (comp_loop ev e x cnd a is) (\<lambda>rest. ret (vs @ rest))))"

definition evalListComp :: "Evaluator \<Rightarrow> Expr \<Rightarrow> Ident option \<Rightarrow> Expr \<Rightarrow> Expr \<Rightarrow> Value ev" where
  "evalListComp ev e x it cnd =
     ebind (r_expr ev it) (\<lambda>v.
       case v of
         VList a \<Rightarrow>
           ebind (gets (\<lambda>s. length (list_at s a))) (\<lambda>n.
             case x of
               Some i \<Rightarrow> ebind (comp_loop ev e (id_Name i) cnd a [0..<n]) new_list
             | None \<Rightarrow> if n = 0 then new_list [] else epanic ''nil pointer dereference'')
       | _ \<Rightarrow> new_list [])"

text \<open>check.ParseInt, whose error the evaluator drops.\<close>

definition ParseInt :: "string \<Rightarrow> 64 word \<times> num_error option" where
  "ParseInt raw =
     (if 2 < length raw \<and> (take 2 raw = ''0x'' \<or> take 2 raw = ''0X'') then strconv_ParseInt 16 (drop 2 raw)
      else if 2 < length raw \<and> (take 2 raw = ''0b'' \<or> take 2 raw = ''0B'') then strconv_ParseInt 2 (drop 2 raw)
      else if 2 < length raw \<and> (take 2 raw = ''0o'' \<or> take 2 raw = ''0O'') then strconv_ParseInt 8 (drop 2 raw)
      else strconv_ParseInt 10 raw)"

definition evalExpr :: "EvCfg \<Rightarrow> Evaluator \<Rightarrow> Expr \<Rightarrow> Value ev" where
  "evalExpr c ev e =
     (case e of
        NilE \<Rightarrow> ret VNone
      | ParenExpr x _ \<Rightarrow> r_expr ev x
      | IntLit _ raw _ \<Rightarrow> ret (VInt (fst (ParseInt raw)))
      | BoolLit b _ \<Rightarrow> ret (VBool b)
      | NoneLit _ \<Rightarrow> ret VNone
      | SelfLit _ \<Rightarrow> ebind (lookup_var ''self'') (\<lambda>v. ret (case v of Some w \<Rightarrow> w | None \<Rightarrow> VNil))
      | StringLit parts multi indent _ \<Rightarrow> evalString c ev parts multi indent
      | IdentE i \<Rightarrow> evalIdent ev i
      | SelectorExpr x sel span \<Rightarrow> evalSelector ev x sel span
      | BlockExpr target body span \<Rightarrow> evalBlockExpr ev target body span
      | CallExpr fn args ufcs mdl span \<Rightarrow> evalCall c ev fn args ufcs mdl span
      | StructLit t inits body span \<Rightarrow> evalStructLit c ev t inits body span
      | ListLit items _ \<Rightarrow> ebind (emap (r_expr ev) items) new_list
      | MapLit entries _ \<Rightarrow>
          ebind (emap (\<lambda>(k, v). ebind (r_expr ev k) (\<lambda>kv. ebind (r_expr ev v) (\<lambda>vv. ret (kv, vv)))) entries) new_map
      | IndexExpr x i _ \<Rightarrow> evalIndex ev x i
      | BinaryExpr bop l r span \<Rightarrow> evalBinary ev bop l r span
      | UnaryExpr uop x _ \<Rightarrow> evalUnary ev uop x
      | IfExpr cnd th el _ \<Rightarrow>
          ebind (r_expr ev cnd) (\<lambda>v. ebind (asBool v (expr_Span cnd)) (\<lambda>b. r_expr ev (if b then th else el)))
      | ListComp x v it cnd _ \<Rightarrow> evalListComp ev x v it cnd
      | DottedNameE dn \<Rightarrow> evalDottedName ev dn
      | MapComp _ _ _ _ _ span \<Rightarrow> err_none span ''lang.CannotEvaluate'' ''cannot evaluate expression'')"

text \<open>The knot: fuel bounds the depth of the recursion, and running out of it is an outcome of its own.\<close>

primrec evaluator :: "EvCfg \<Rightarrow> nat \<Rightarrow> Evaluator" where
  "evaluator c 0 = \<lparr>r_expr = \<lambda>_ _. NoFuel, r_stmt = \<lambda>_ _. NoFuel, r_fuel = 0\<rparr>"
| "evaluator c (Suc n) =
     \<lparr>r_expr = evalExpr c (evaluator c n), r_stmt = evalStmt c (evaluator c n), r_fuel = Suc n\<rparr>"

abbreviation eval_expr :: "EvCfg \<Rightarrow> nat \<Rightarrow> Expr \<Rightarrow> Value ev" where
  "eval_expr c n \<equiv> r_expr (evaluator c n)"

abbreviation eval_stmt :: "EvCfg \<Rightarrow> nat \<Rightarrow> Stmt \<Rightarrow> unit ev" where
  "eval_stmt c n \<equiv> r_stmt (evaluator c n)"

end
