(* ===== verification/Eval_Modules.thy ===== *)
theory Eval_Modules
  imports Evaluator
begin

text \<open>
  Setting up a run of the evaluator and running a file (internal/lang/eval/eval.go): stub
  modules, user modules with their lazily evaluated let-bindings, sibling files, declarations,
  and Eval. The stub files are given as parsed files, in the order in which the directory is
  walked; the order in which Go ranges over its maps of modules and enums is a parameter.
\<close>

section \<open>Type names\<close>

fun typeExprString :: "TypeExpr \<Rightarrow> string" where
  "typeExprString NilT = []"
| "typeExprString (NamedType n _) = strings_Join ''.'' (map id_Name (dn_Parts n))"
| "typeExprString (GenericType n args _) = id_Name n @ ''['' @ strings_Join '', '' (map typeExprString args) @ '']''"
| "typeExprString (OptionalType t _) = typeExprString t @ ''?''"

definition typeExprName :: "TypeExpr \<Rightarrow> string" where
  "typeExprName t = (case t of NamedType n _ \<Rightarrow> id_Name (last (dn_Parts n)) | _ \<Rightarrow> [])"

definition is_generic :: "TypeExpr \<Rightarrow> bool" where
  "is_generic t = (case t of GenericType _ _ _ \<Rightarrow> True | _ \<Rightarrow> False)"

text \<open>The name a function's return type is recorded under: in full for a generic type.\<close>

definition ret_name :: "TypeExpr \<Rightarrow> string" where
  "ret_name t = (if t = NilT then [] else if is_generic t then typeExprString t else typeExprName t)"

definition param_names :: "Field list \<Rightarrow> string list" where
  "param_names ps = map (\<lambda>p. id_Name (fd_Name p)) ps"

section \<open>Stub files\<close>

record stubFunc =
  sf_Name :: string
  sf_Params :: "string list"
  sf_Defaults :: "Expr list"
  sf_RetType :: string
  sf_Body :: "Block option"

record stubInfo =
  si_enums :: "(string \<times> (string \<times> string list) list) list"
  si_declReturns :: "(string \<times> string) list"
  si_funcs :: "(string \<times> stubFunc list) list"
  si_typeFields :: "(string \<times> Field list) list"

text \<open>Reading a Go map whose zero value is an empty list or map.\<close>

definition get_list :: "(string \<times> 'a list) list \<Rightarrow> string \<Rightarrow> 'a list" where
  "get_list m k = (case map_of m k of Some x \<Rightarrow> x | None \<Rightarrow> [])"

definition qualify :: "string \<Rightarrow> string \<Rightarrow> string" where
  "qualify m n = m @ ''.'' @ n"

definition add_func :: "string \<Rightarrow> stubFunc \<Rightarrow> stubInfo \<Rightarrow> stubInfo" where
  "add_func modName sf info =
     info\<lparr>si_funcs := AList.update modName (get_list (si_funcs info) modName @ [sf]) (si_funcs info)\<rparr>"

definition extract_decl :: "string \<Rightarrow> stubInfo \<Rightarrow> Decl \<Rightarrow> stubInfo" where
  "extract_decl modName info d =
     (case d of
        EnumDecl n variants _ _ \<Rightarrow>
          info\<lparr>si_enums := AList.update modName
                 (AList.update (id_Name n) (map id_Name variants) (get_list (si_enums info) modName)) (si_enums info)\<rparr>
      | DeclDecl n params rt body _ _ \<Rightarrow>
          (let retName = (if rt = NilT then [] else typeExprName rt);
               info = (if rt = NilT then info
                       else info\<lparr>si_declReturns := AList.update (qualify modName (first_part n)) retName (si_declReturns info)\<rparr>)
           in add_func modName \<lparr>sf_Name = first_part n, sf_Params = param_names params,
                sf_Defaults = map fd_Default params, sf_RetType = retName, sf_Body = body\<rparr> info)
      | FuncDecl n params rt body _ _ \<Rightarrow>
          (let info = (if rt = NilT then info
                       else info\<lparr>si_declReturns :=
                              AList.update (qualify modName (id_Name n)) (typeExprName rt) (si_declReturns info)\<rparr>)
           in add_func modName \<lparr>sf_Name = id_Name n, sf_Params = param_names params,
                sf_Defaults = map fd_Default params, sf_RetType = ret_name rt, sf_Body = body\<rparr> info)
      | TypeDecl n (Some fs) _ _ \<Rightarrow>
          info\<lparr>si_typeFields := AList.update (qualify modName (id_Name n)) fs (si_typeFields info)\<rparr>
      | _ \<Rightarrow> info)"

definition file_module :: "File \<Rightarrow> string" where
  "file_module f = (case fl_Module f of Some m \<Rightarrow> id_Name (md_Name m) | None \<Rightarrow> [])"

definition extractStubInfo :: "File list \<Rightarrow> stubInfo" where
  "extractStubInfo files =
     foldl (\<lambda>info f. foldl (extract_decl (file_module f)) info (fl_Decls f))
       \<lparr>si_enums = [], si_declReturns = [], si_funcs = [], si_typeFields = []\<rparr> files"

section \<open>Declarations\<close>

definition registerTypeDefaults :: "string \<Rightarrow> Field list option \<Rightarrow> unit ev" where
  "registerTypeDefaults name flds =
     (case flds of
        None \<Rightarrow> ret ()
      | Some fs \<Rightarrow>
          if list_all (\<lambda>f. fd_Default f = NilE) fs then ret ()
          else modify (\<lambda>s. s\<lparr>es_typeDefaults := AList.update name fs (es_typeDefaults s)\<rparr>))"

definition evalDecl :: "Evaluator \<Rightarrow> Decl \<Rightarrow> unit ev" where
  "evalDecl ev d =
     (case d of
        LetD l \<Rightarrow> ebind (r_expr ev (ld_Value l)) (set_var (id_Name (ld_Name l)))
      | FuncDecl n params rt body _ _ \<Rightarrow>
          ebind (gets es_env) (\<lambda>e.
            set_var (id_Name n) (VFunc \<lparr>fv_Name = id_Name n, fv_QualName = [], fv_Params = param_names params,
              fv_Defaults = map fd_Default params, fv_RetType = [], fv_body = BlockBody body, fv_scope = Some e\<rparr>))
      | DeclDecl n params rt body _ _ \<Rightarrow>
          if body = None then ret ()
          else
            ebind (gets es_env) (\<lambda>e.
              set_var (first_part n) (VFunc \<lparr>fv_Name = first_part n, fv_QualName = [], fv_Params = [],
                fv_Defaults = [], fv_RetType = [], fv_body = DeclBody params body, fv_scope = Some e\<rparr>))
      | TypeDecl n flds _ _ \<Rightarrow> registerTypeDefaults (id_Name n) flds
      | _ \<Rightarrow> ret ())"

text \<open>The first pass of evalFile registers functions, decls and types.\<close>

definition register_first :: "Evaluator \<Rightarrow> Decl \<Rightarrow> unit ev" where
  "register_first ev d =
     (case d of
        FuncDecl _ _ _ _ _ _ \<Rightarrow> evalDecl ev d
      | DeclDecl _ _ _ _ _ _ \<Rightarrow> evalDecl ev d
      | TypeDecl n flds _ _ \<Rightarrow> registerTypeDefaults (id_Name n) flds
      | _ \<Rightarrow> ret ())"

text \<open>The second pass takes let-bindings and statements in the order of the source.\<close>

definition is_let :: "Decl \<Rightarrow> bool" where
  "is_let d = (case d of LetD _ \<Rightarrow> True | _ \<Rightarrow> False)"

fun file_loop :: "Evaluator \<Rightarrow> Decl list \<Rightarrow> Stmt list \<Rightarrow> unit ev" where
  "file_loop ev [] [] = ret ()"
| "file_loop ev (d # ds) [] =
     (if d = NilDecl then epanic ''nil pointer dereference''
      else ethen (if is_let d then evalDecl ev d else ret ()) (file_loop ev ds []))"
| "file_loop ev [] (st # sts) =
     (if st = NilStmt then epanic ''nil pointer dereference'' else ethen (r_stmt ev st) (file_loop ev [] sts))"
| "file_loop ev (d # ds) (st # sts) =
     (if d = NilDecl \<or> st = NilStmt then epanic ''nil pointer dereference''
      else if ts_Start (decl_Span d) \<le> ts_Start (stmt_Span st)
      then ethen (if is_let d then evalDecl ev d else ret ()) (file_loop ev ds (st # sts))
      else ethen (r_stmt ev st) (file_loop ev (d # ds) sts))"

definition evalFile :: "Evaluator \<Rightarrow> File \<Rightarrow> unit ev" where
  "evalFile ev f =
     ethen (efold (\<lambda>d _. register_first ev d) (fl_Decls f) ()) (file_loop ev (fl_Decls f) (fl_Stmts f))"

section \<open>Registering modules\<close>

definition variant_map :: "string list \<Rightarrow> (Value \<times> Value) list" where
  "variant_map variants = foldl (\<lambda>m v. map_Set m v (VString v)) [] variants"

text \<open>A module scope gets the symbols of a map, under their bare names.\<close>

definition bind_symbols :: "nat \<Rightarrow> (Value \<times> Value) list \<Rightarrow> unit ev" where
  "bind_symbols e m = efold (\<lambda>(k, v) _. case k of VString name \<Rightarrow> env_set e name v | _ \<Rightarrow> ret ()) m ()"

definition stub_value :: "string \<Rightarrow> nat \<Rightarrow> stubFunc \<Rightarrow> Value" where
  "stub_value modName modScope sf =
     VFunc \<lparr>fv_Name = sf_Name sf, fv_QualName = qualify modName (sf_Name sf), fv_Params = sf_Params sf,
       fv_Defaults = sf_Defaults sf, fv_RetType = sf_RetType sf,
       fv_body = (case sf_Body sf of None \<Rightarrow> NoBody | Some b \<Rightarrow> BlockBody (Some b)), fv_scope = Some modScope\<rparr>"

definition register_stub_module ::
  "((string \<times> string list) list \<Rightarrow> (string \<times> string list) list) \<Rightarrow> stubInfo \<Rightarrow> string \<Rightarrow> unit ev" where
  "register_stub_module iter info modName =
     (let funcs = get_list (si_funcs info) modName
      in ebind (efold (\<lambda>(enumName, variants) m.
             ebind (new_map (variant_map variants)) (\<lambda>v. ret (map_Set m enumName v)))
           (iter (get_list (si_enums info) modName)) []) (\<lambda>m.
         ebind (gets es_env) (\<lambda>e.
           if funcs = [] then ebind (new_map m) (set_var modName)
           else
             ebind (newEnv (Some e)) (\<lambda>modScope.
               let m = foldl (\<lambda>m sf. map_Set m (sf_Name sf) (stub_value modName modScope sf)) m funcs
               in ebind (new_map m) (\<lambda>mv. ethen (set_var modName mv) (bind_symbols modScope m))))))"

definition registerStubInfo ::
  "(string list \<Rightarrow> string list) \<Rightarrow> ((string \<times> string list) list \<Rightarrow> (string \<times> string list) list) \<Rightarrow> File list option
     \<Rightarrow> unit ev" where
  "registerStubInfo iter_mods iter_enums stubFS =
     (case stubFS of
        None \<Rightarrow> modify (\<lambda>s. s\<lparr>es_declReturns := []\<rparr>)
      | Some files \<Rightarrow>
          (let info = extractStubInfo files;
               allMods = remdups (map fst (si_enums info) @ map fst (si_funcs info))
           in ethen (modify (\<lambda>s. s\<lparr>es_declReturns := si_declReturns info\<rparr>))
                (ethen (efold (\<lambda>(qual, fs) _. registerTypeDefaults qual (Some fs)) (si_typeFields info) ())
                  (efold (\<lambda>m _. register_stub_module iter_enums info m) (iter_mods allMods) ()))))"

record UserModule =
  um_Name :: string
  um_File :: File

text \<open>The maps of a user module while its declarations are read: all symbols, and the public ones.\<close>

type_synonym mod_maps = "(Value \<times> Value) list \<times> (Value \<times> Value) list"

definition add_symbol :: "bool \<Rightarrow> string \<Rightarrow> Value \<Rightarrow> mod_maps \<Rightarrow> mod_maps" where
  "add_symbol public name v maps =
     (map_Set (fst maps) name v, if public then map_Set (snd maps) name v else snd maps)"

definition user_func :: "string \<Rightarrow> string \<Rightarrow> Field list \<Rightarrow> string \<Rightarrow> Block option \<Rightarrow> nat \<Rightarrow> Value" where
  "user_func modName n params retName body e =
     VFunc \<lparr>fv_Name = n, fv_QualName = qualify modName n, fv_Params = param_names params,
       fv_Defaults = map fd_Default params, fv_RetType = retName,
       fv_body = (case body of None \<Rightarrow> NoBody | Some b \<Rightarrow> BlockBody (Some b)),
       fv_scope = (case body of None \<Rightarrow> None | Some b \<Rightarrow> Some e)\<rparr>"

definition set_declReturn :: "string \<Rightarrow> string \<Rightarrow> unit ev" where
  "set_declReturn qual r = modify (\<lambda>s. s\<lparr>es_declReturns := AList.update qual r (es_declReturns s)\<rparr>)"

definition user_decl :: "string \<Rightarrow> Decl \<Rightarrow> mod_maps \<Rightarrow> mod_maps ev" where
  "user_decl modName d maps =
     (case d of
        FuncDecl n params rt body public _ \<Rightarrow>
          ebind (gets es_env) (\<lambda>e.
            ethen (if rt = NilT then ret () else set_declReturn (qualify modName (id_Name n)) (typeExprName rt))
              (ret (add_symbol public (id_Name n) (user_func modName (id_Name n) params (ret_name rt) body e) maps)))
      | DeclDecl n params rt body public _ \<Rightarrow>
          (let nm = first_part n; retName = (if rt = NilT then [] else typeExprName rt)
           in ebind (gets es_env) (\<lambda>e.
                ethen (if rt = NilT then ret () else set_declReturn (qualify modName nm) retName)
                  (ret (add_symbol public nm (user_func modName nm params retName body e) maps))))
      | TypeDecl n flds _ _ \<Rightarrow> ethen (registerTypeDefaults (qualify modName (id_Name n)) flds) (ret maps)
      | EnumDecl n variants public _ \<Rightarrow>
          ebind (new_map (variant_map (map id_Name variants))) (\<lambda>v. ret (add_symbol public (id_Name n) v maps))
      | _ \<Rightarrow> ret maps)"

text \<open>A let-binding becomes a thunk in the scope of its module.\<close>

definition user_let :: "nat \<Rightarrow> Decl \<Rightarrow> mod_maps \<Rightarrow> mod_maps ev" where
  "user_let moduleScope d maps =
     (case d of
        LetD l \<Rightarrow>
          ebind (alloc (OThunk moduleScope (ld_Value l) None)) (\<lambda>a.
            ethen (env_set moduleScope (id_Name (ld_Name l)) (VThunk a))
              (ret (add_symbol (ld_Public l) (id_Name (ld_Name l)) (VThunk a) maps)))
      | _ \<Rightarrow> ret maps)"

definition inject_missing :: "nat \<Rightarrow> (Value \<times> Value) list \<Rightarrow> unit ev" where
  "inject_missing moduleScope m =
     efold (\<lambda>(k, v) _.
         case k of
           VString name \<Rightarrow>
             ebind (gets (\<lambda>s. env_get (es_envs s) moduleScope name)) (\<lambda>found.
               if found = None then env_set moduleScope name v else ret ())
         | _ \<Rightarrow> ret ()) m ()"

definition register_user_module :: "UserModule \<Rightarrow> unit ev" where
  "register_user_module um =
     ebind (efold (user_decl (um_Name um)) (fl_Decls (um_File um)) ([], [])) (\<lambda>maps.
       ebind (gets es_env) (\<lambda>e. ebind (newEnv (Some e)) (\<lambda>moduleScope.
         ebind (efold (user_let moduleScope) (fl_Decls (um_File um)) maps) (\<lambda>(full, pub).
           ebind (new_map pub) (\<lambda>pubMap. ebind (alloc (OMap full)) (\<lambda>fullMap.
             ethen (set_var (um_Name um) pubMap)
               (ethen (modify (\<lambda>s. s\<lparr>es_modInternal := AList.update (um_Name um) fullMap (es_modInternal s)\<rparr>))
                 (inject_missing moduleScope full))))))))"

definition registerUserModules :: "UserModule list \<Rightarrow> unit ev" where
  "registerUserModules ums = efold (\<lambda>um _. register_user_module um) ums ()"

definition sibling_decl :: "Evaluator \<Rightarrow> Decl \<Rightarrow> unit ev" where
  "sibling_decl ev d =
     (case d of
        FuncDecl _ _ _ _ _ _ \<Rightarrow> evalDecl ev d
      | DeclDecl _ _ _ _ _ _ \<Rightarrow> evalDecl ev d
      | TypeDecl n flds _ _ \<Rightarrow> registerTypeDefaults (id_Name n) flds
      | _ \<Rightarrow> ret ())"

definition registerSiblingModules :: "Evaluator \<Rightarrow> UserModule list \<Rightarrow> unit ev" where
  "registerSiblingModules ev ums = efold (\<lambda>um _. efold (\<lambda>d _. sibling_decl ev d) (fl_Decls (um_File um)) ()) ums ()"

section \<open>Eval\<close>

record EvOptions =
  op_cfg :: EvCfg
  op_stubFS :: "File list option"
  op_userModules :: "UserModule list"
  op_siblings :: "UserModule list"
  op_iter_mods :: "string list \<Rightarrow> string list"
  op_iter_enums :: "(string \<times> string list) list \<Rightarrow> (string \<times> string list) list"

record Result =
  rs_Bindings :: "(string \<times> Value) list"
  rs_Exprs :: "Value list"

text \<open>The state Eval starts in: one scope without a parent.\<close>

definition start_state :: EvState where
  "start_state = \<lparr>es_env = 0, es_errs = [], es_Exprs = [], es_declReturns = [], es_returnVal = VNil,
     es_collector = None, es_modInternal = [], es_typeDefaults = [],
     es_envs = [\<lparr>ef_parent = None, ef_vars = []\<rparr>], es_heap = []\<rparr>"

definition eval_run :: "EvOptions \<Rightarrow> nat \<Rightarrow> File \<Rightarrow> unit ev" where
  "eval_run opts n f =
     (let ev = evaluator (op_cfg opts) n
      in ethen (registerStubInfo (op_iter_mods opts) (op_iter_enums opts) (op_stubFS opts))
           (ethen (registerUserModules (op_userModules opts))
             (ethen (registerSiblingModules ev (op_siblings opts)) (evalFile ev f))))"

definition Eval :: "EvOptions \<Rightarrow> nat \<Rightarrow> File \<Rightarrow> (Result \<times> EvError list, EvState) outcome" where
  "Eval opts n f =
     ebind (eval_run opts n f) (\<lambda>_ s.
       Done (\<lparr>rs_Bindings = ef_vars (es_envs s ! es_env s), rs_Exprs = es_Exprs s\<rparr>, es_errs s) s) start_state"

end
