(* ===== verification/Eval_Frame.thy ===== *)
theory Eval_Frame
  imports Eval_Modules
begin

text \<open>
  What every evaluation leaves alone: the current scope, the shape of the scopes and objects
  there already are, the errors and values recorded so far. Each combinator of the evaluator keeps
  these, so each function does, and by induction on the fuel the whole evaluator.
\<close>

named_theorems keeps_intros \<open>computations that keep the frame\<close>

section \<open>The frame\<close>

text \<open>An object may change its contents, not its kind, a list not its length, a map only by adding keys at its end; a
  thunk may be given its value, which then stays.\<close>

fun obj_le :: "Obj \<Rightarrow> Obj \<Rightarrow> bool" where
  "obj_le (OList xs) (OList ys) \<longleftrightarrow> length xs = length ys"
| "obj_le (OMap m) (OMap m') \<longleftrightarrow> (\<exists>k. map fst m' = map fst m @ k)"
| "obj_le (OStruct a) (OStruct b) \<longleftrightarrow>
     sv_TypeName a = sv_TypeName b \<and> sv_QualName a = sv_QualName b \<and> sv_RetType a = sv_RetType b"
| "obj_le (OThunk e x v) (OThunk e' x' v') \<longleftrightarrow> e = e' \<and> x = x' \<and> (v \<noteq> None \<longrightarrow> v' = v)"
| "obj_le _ _ \<longleftrightarrow> False"

lemma obj_le_refl [simp]: "obj_le x x"
  by (cases x) auto

lemma obj_le_trans: "obj_le x y \<Longrightarrow> obj_le y z \<Longrightarrow> obj_le x z"
  by (cases x; cases y; cases z) auto

definition prefix_of :: "'a list \<Rightarrow> 'a list \<Rightarrow> bool" where
  "prefix_of xs ys \<longleftrightarrow> (\<exists>zs. ys = xs @ zs)"

lemma prefix_of_refl [simp]: "prefix_of xs xs"
  by (simp add: prefix_of_def)

lemma prefix_of_append [simp]: "prefix_of xs (xs @ ys)"
  by (simp add: prefix_of_def)

lemma prefix_of_trans: "prefix_of xs ys \<Longrightarrow> prefix_of ys zs \<Longrightarrow> prefix_of xs zs"
  by (auto simp: prefix_of_def)

definition collector_le :: "Value list option \<Rightarrow> Value list option \<Rightarrow> bool" where
  "collector_le c d \<longleftrightarrow> (case (c, d) of (None, None) \<Rightarrow> True | (Some xs, Some ys) \<Rightarrow> prefix_of xs ys | _ \<Rightarrow> False)"

lemma collector_le_refl [simp]: "collector_le c c"
  by (cases c) (simp_all add: collector_le_def)

lemma collector_le_trans: "collector_le a b \<Longrightarrow> collector_le b c \<Longrightarrow> collector_le a c"
  by (auto simp: collector_le_def split: option.splits intro: prefix_of_trans)

definition heap_le :: "Obj list \<Rightarrow> Obj list \<Rightarrow> bool" where
  "heap_le h h' \<longleftrightarrow> length h \<le> length h' \<and> (\<forall>a < length h. obj_le (h ! a) (h' ! a))"

definition envs_le :: "EnvFrame list \<Rightarrow> EnvFrame list \<Rightarrow> bool" where
  "envs_le es es' \<longleftrightarrow> length es \<le> length es' \<and> (\<forall>e < length es. ef_parent (es' ! e) = ef_parent (es ! e))"

text \<open>All but the current scope and the collector.\<close>

definition frame0 :: "EvState \<Rightarrow> EvState \<Rightarrow> bool" where
  "frame0 s s' \<longleftrightarrow> prefix_of (es_errs s) (es_errs s') \<and> prefix_of (es_Exprs s) (es_Exprs s')
     \<and> es_declReturns s' = es_declReturns s \<and> es_modInternal s' = es_modInternal s
     \<and> es_typeDefaults s' = es_typeDefaults s \<and> envs_le (es_envs s) (es_envs s') \<and> heap_le (es_heap s) (es_heap s')"

definition frame :: "EvState \<Rightarrow> EvState \<Rightarrow> bool" where
  "frame s s' \<longleftrightarrow> frame0 s s' \<and> es_env s' = es_env s \<and> collector_le (es_collector s) (es_collector s')"

lemma heap_le_refl [simp]: "heap_le h h"
  by (simp add: heap_le_def)

lemma heap_le_trans: "heap_le a b \<Longrightarrow> heap_le b c \<Longrightarrow> heap_le a c"
  unfolding heap_le_def using obj_le_trans by (meson less_le_trans order_trans)

lemma envs_le_refl [simp]: "envs_le e e"
  by (simp add: envs_le_def)

lemma envs_le_trans: "envs_le a b \<Longrightarrow> envs_le b c \<Longrightarrow> envs_le a c"
  unfolding envs_le_def by (metis less_le_trans order_trans)

lemma heap_le_update: "(a < length h \<Longrightarrow> obj_le (h ! a) obj) \<Longrightarrow> heap_le h (h[a := obj])"
  unfolding heap_le_def by (metis length_list_update nth_list_update_eq nth_list_update_neq obj_le_refl order_refl)

lemma envs_le_update: "ef_parent f = ef_parent (h ! a) \<Longrightarrow> envs_le h (h[a := f])"
  unfolding envs_le_def by (metis length_list_update nth_list_update_eq nth_list_update_neq order_refl)

lemma frame0_refl [simp]: "frame0 s s"
  by (simp add: frame0_def)

lemma frame0_trans: "frame0 a b \<Longrightarrow> frame0 b c \<Longrightarrow> frame0 a c"
  unfolding frame0_def by (auto intro: prefix_of_trans heap_le_trans envs_le_trans)

lemma frame_refl [simp]: "frame s s"
  by (simp add: frame_def)

lemma frame_trans: "frame a b \<Longrightarrow> frame b c \<Longrightarrow> frame a c"
  unfolding frame_def by (auto intro: frame0_trans collector_le_trans)

section \<open>Computations that keep it\<close>

abbreviation keeps :: "'a ev \<Rightarrow> bool" where
  "keeps \<equiv> kept frame"

interpretation fr: state_order frame
  by unfold_locales (auto intro: frame_trans)

lemmas [keeps_intros] = fr.kept_compose kept_cases

lemma keeps_until_return [keeps_intros]: "(\<And>x. keeps (f x)) \<Longrightarrow> keeps (until_return f xs)"
  by (induction xs) (auto intro!: keeps_intros)

lemma keeps_errAt [keeps_intros]: "keeps (ev_errAt span code msg)"
  unfolding ev_errAt_def by (rule kept_modify) (simp add: frame_def frame0_def)

lemma keeps_err_none [keeps_intros]: "keeps (err_none span code msg)"
  unfolding err_none_def by (intro keeps_intros)

lemma keeps_returnVal [keeps_intros]: "keeps (modify (\<lambda>s. s\<lparr>es_returnVal := f s\<rparr>))"
  by (rule kept_modify) (simp add: frame_def frame0_def)

lemma keeps_alloc [keeps_intros]: "keeps (alloc obj)"
  by (auto simp: kept_def alloc_def frame_def frame0_def heap_le_def nth_append)

lemma keeps_new [keeps_intros]: "keeps (new_list vs)" "keeps (new_map m)" "keeps (new_struct sv)"
  by (auto simp: new_list_def new_map_def new_struct_def intro!: keeps_intros)

lemma keeps_newEnv [keeps_intros]: "keeps (newEnv p)"
  by (auto simp: kept_def newEnv_def frame_def frame0_def envs_le_def nth_append)

lemma keeps_env_set [keeps_intros]: "keeps (env_set e name v)"
  unfolding env_set_def
  by (rule kept_modify) (simp add: frame_def frame0_def envs_le_update)

lemma keeps_lookup [keeps_intros]: "keeps (lookup_var name)"
  unfolding lookup_var_def by (rule keeps_intros)

lemma keeps_set_var [keeps_intros]: "keeps (set_var name v)"
  unfolding set_var_def by (intro keeps_intros)

lemma keeps_with_env [keeps_intros]:
  assumes "keeps m"
  shows "keeps (with_env e m)"
  unfolding kept_def
proof (intro allI impI)
  fix s x s' assume "with_env e m s = Done x s'"
  then obtain s1 where m: "m (s\<lparr>es_env := e\<rparr>) = Done x s1" and s': "s' = s1\<lparr>es_env := es_env s\<rparr>"
    by (auto simp: with_env_def elim!: ebind_DoneE)
  show "frame s s'" using keptD [OF assms m] unfolding s' by (simp add: frame_def frame0_def)
qed

lemma keeps_collecting [keeps_intros]:
  assumes "keeps m"
  shows "keeps (collecting m)"
  unfolding kept_def
proof (intro allI impI)
  fix s x s' assume "collecting m s = Done x s'"
  then obtain s1 where m: "m (s\<lparr>es_collector := Some []\<rparr>) = Done () s1" and s': "s' = s1\<lparr>es_collector := es_collector s\<rparr>"
    by (auto simp: collecting_def ethen_def elim!: ebind_DoneE)
  show "frame s s'" using keptD [OF assms m] unfolding s' by (simp add: frame_def frame0_def)
qed

lemma keeps_in_child [keeps_intros]: "keeps m \<Longrightarrow> keeps (in_child m)"
  unfolding in_child_def by (intro keeps_intros)

text \<open>Changing an object to one of its kind.\<close>

lemma keeps_set [keeps_intros]: "keeps (set_entry a k v)" "keeps (set_item a i v)" "keeps (set_field a name v)"
  unfolding set_entry_def set_item_def set_field_def
  by (rule kept_modify; auto simp: frame_def frame0_def obj_at_def map_Set_keys intro!: heap_le_update
      split: option.splits Obj.splits if_splits)+

section \<open>The functions of the evaluator\<close>

text \<open>What is asked of the functions the caller registers.\<close>

definition cfg_keeps :: "EvCfg \<Rightarrow> bool" where
  "cfg_keeps c \<longleftrightarrow> (\<forall>q f. cf_builtins c q = Some f \<longrightarrow> (\<forall>ps kw. keeps (f ps kw)))
     \<and> (\<forall>f. cf_onEmit c = Some f \<longrightarrow> (\<forall>v. keeps (f v)))"

definition ev_keeps :: "Evaluator \<Rightarrow> bool" where
  "ev_keeps ev \<longleftrightarrow> (\<forall>e. keeps (r_expr ev e)) \<and> (\<forall>st. keeps (r_stmt ev st))"

lemma keeps_asBool [keeps_intros]: "keeps (asBool v span)"
  by (cases v) (simp_all add: asBool_def, auto intro!: keeps_intros)

lemma keeps_value_String: "keeps (value_String c n v)"
proof (induction n arbitrary: v)
  case (Suc n)
  show ?case
    unfolding kept_def
  proof (intro allI impI)
    fix s x s' assume d: "value_String c (Suc n) v s = Done x s'"
    show "frame s s'"
      using d Suc [unfolded kept_def] by (cases v) (auto split: if_splits option.splits Obj.splits)
  qed
qed (simp add: kept_def)

lemma keeps_valueToString [keeps_intros]: "keeps (valueToString c ev v)"
  by (cases v) (auto simp: valueToString_def intro!: keeps_intros keeps_value_String)

lemma rec_expr [keeps_intros]: "ev_keeps ev \<Longrightarrow> keeps (r_expr ev e)"
  by (simp add: ev_keeps_def)

lemma rec_stmt [keeps_intros]: "ev_keeps ev \<Longrightarrow> keeps (r_stmt ev st)"
  by (simp add: ev_keeps_def)

text \<open>Case distinctions.\<close>

lemma keeps_Value [keeps_intros]:
  assumes "keeps m1" "\<And>x. keeps (m2 x)" "\<And>x. keeps (m3 x)" "\<And>x. keeps (m4 x)" "keeps m5" "\<And>x. keeps (m6 x)"
    "\<And>x. keeps (m7 x)" "\<And>x. keeps (m8 x)" "\<And>x y z. keeps (m9 x y z)" "\<And>x y z w. keeps (m10 x y z w)"
    "\<And>x. keeps (m11 x)" "\<And>x. keeps (m12 x)" "\<And>x y. keeps (m13 x y)" "\<And>x y. keeps (m14 x y)"
  shows "keeps (case_Value m1 m2 m3 m4 m5 m6 m7 m8 m9 m10 m11 m12 m13 m14 v)"
  using assms by (cases v) auto

lemma keeps_FuncBody [keeps_intros]:
  "keeps m \<Longrightarrow> (\<And>b. keeps (f b)) \<Longrightarrow> (\<And>ps b. keeps (g ps b)) \<Longrightarrow> keeps (case_FuncBody m f g v)"
  by (cases v) auto

section \<open>The functions of the evaluator\<close>

lemma keeps_forceValue [keeps_intros]:
  assumes "ev_keeps ev"
  shows "keeps (forceValue ev v)"
proof (cases v)
  case (VThunk a)
  show ?thesis
    unfolding kept_def
  proof (intro allI impI)
    fix s x s' assume d: "forceValue ev v s = Done x s'"
    show "frame s s'"
    proof (cases "\<exists>scope e. obj_at s a = Some (OThunk scope e None)")
      case True
      then obtain scope e where o: "obj_at s a = Some (OThunk scope e None)" by blast
      obtain s1 where r: "r_expr ev e (s\<lparr>es_env := scope\<rparr>) = Done x s1"
        and s': "s' = s1\<lparr>es_env := es_env s, es_heap := (es_heap s1)[a := OThunk scope e (Some x)]\<rparr>"
        using d VThunk o by (auto simp: forceValue_def ethen_def put_obj_def elim!: ebind_DoneE)
      have f: "frame (s\<lparr>es_env := scope\<rparr>) s1" using rec_expr [OF assms] r by (rule keptD)
      have a: "a < length (es_heap s)" "es_heap s ! a = OThunk scope e None"
        using o by (auto simp: obj_at_def split: if_splits)
      have h: "heap_le (es_heap s) (es_heap s1)" using f by (simp add: frame_def frame0_def)
      then have "obj_le (es_heap s ! b) ((es_heap s1)[a := OThunk scope e (Some x)] ! b)" if "b < length (es_heap s)" for b
        using a that by (cases "b = a") (auto simp: heap_le_def)
      then have "heap_le (es_heap s) ((es_heap s1)[a := OThunk scope e (Some x)])"
        using h by (simp add: heap_le_def)
      then show ?thesis using f unfolding s' frame_def frame0_def by simp
    next
      case False
      then show ?thesis
        using d VThunk by (auto simp: forceValue_def split: option.splits Obj.splits)
    qed
  qed
qed (simp_all add: forceValue_def fr.kept_ret)

lemma keeps_dotted_loop [keeps_intros]: "ev_keeps ev \<Longrightarrow> keeps (dotted_loop ev ps v)"
  by (induction ps arbitrary: v) (auto intro!: keeps_intros)

lemma keeps_string_parts [keeps_intros]: "ev_keeps ev \<Longrightarrow> keeps (string_parts c ev ps)"
  by (induction c ev ps rule: string_parts.induct) (auto intro!: keeps_intros)

lemma keeps_multi_parts [keeps_intros]:
  assumes "ev_keeps ev"
  shows "keeps (multi_parts c ev ind ps a b)"
proof (induction ps arbitrary: a b)
  case (Cons p ps)
  show ?case by (cases p) (auto simp: Let_def intro!: keeps_intros Cons.IH assms)
qed (simp add: keeps_intros)

lemma keeps_evalString [keeps_intros]: "ev_keeps ev \<Longrightarrow> keeps (evalString c ev parts multi ind)"
  unfolding evalString_def evalMultiLineString_def by (intro keeps_intros)

lemma keeps_evalBinary [keeps_intros]: "ev_keeps ev \<Longrightarrow> keeps (evalBinary ev bop l r span)"
  unfolding evalBinary_def vbool_def by (cases bop) (auto intro!: keeps_intros)

lemma keeps_evalUnary [keeps_intros]: "ev_keeps ev \<Longrightarrow> keeps (evalUnary ev uop x)"
  unfolding evalUnary_def vbool_def by (cases uop) (auto intro!: keeps_intros)

lemma keeps_access [keeps_intros]:
  assumes "ev_keeps ev"
  shows "keeps (evalSelector ev e sel span)" and "keeps (evalDottedName ev dn)" and "keeps (evalIdent ev i)"
    and "keeps (evalIndex ev e x)"
  using assms by (auto simp: evalSelector_def evalDottedName_def evalIdent_def evalIndex_def intro!: keeps_intros)

lemma keeps_builtins [keeps_intros]:
  "keeps (callRange ps kw)" "keeps (callUnique ps kw)" "keeps (callTrimPrefix ps kw)" "keeps (callTrimSuffix ps kw)"
  "keeps (callParseInt c ps kw span)" "keeps (callRef ps kw)" "keeps (callEnv c ps kw span)"
  by (auto simp: callRange_def callUnique_def callTrimPrefix_def callTrimSuffix_def callParseInt_def callRef_def
      callEnv_def Let_def intro!: keeps_intros)

lemma keeps_applyDeclDefaults [keeps_intros]: "ev_keeps ev \<Longrightarrow> keeps (applyDeclDefaults ev fv fs)"
  unfolding applyDeclDefaults_def Let_def by (auto intro!: keeps_intros)

lemma keeps_applyTypeDefaults [keeps_intros]: "ev_keeps ev \<Longrightarrow> keeps (applyTypeDefaults ev t q fs)"
  unfolding applyTypeDefaults_def Let_def by (auto intro!: keeps_intros)

text \<open>A call runs in a scope of its own and comes back to the one it was made in.\<close>

lemma keeps_collector [keeps_intros]: "keeps (emitValue c v)" if "cfg_keeps c"
proof -
  have "keeps (modify (\<lambda>s. case es_collector s of
          Some vs \<Rightarrow> s\<lparr>es_collector := Some (vs @ [v])\<rparr> | None \<Rightarrow> s\<lparr>es_Exprs := es_Exprs s @ [v]\<rparr>))"
    by (rule kept_modify) (auto simp: frame_def frame0_def collector_le_def split: option.splits)
  then show ?thesis
    using that unfolding emitValue_def cfg_keeps_def by (cases "cf_onEmit c") (auto intro!: keeps_intros)
qed

lemma keeps_bind_module [keeps_intros]: "keeps (bind_module fv child)"
  unfolding bind_module_def by (auto intro!: keeps_intros)

lemma keeps_callBuiltin [keeps_intros]: "cfg_keeps c \<Longrightarrow> ev_keeps ev \<Longrightarrow> keeps (callBuiltin c ev fv positional kw span)"
  unfolding callBuiltin_def Let_def
  by (auto simp: cfg_keeps_def intro!: keeps_intros split: option.split)

lemma keeps_callFunc [keeps_intros]: "cfg_keeps c \<Longrightarrow> ev_keeps ev \<Longrightarrow> keeps (callFunc c ev fv positional kw span)"
  unfolding callFunc_def by (auto intro!: keeps_intros)

lemma keeps_evalBlock [keeps_intros]: "ev_keeps ev \<Longrightarrow> keeps (evalBlock ev b)"
  unfolding evalBlock_def by (auto intro!: keeps_intros)

lemma keeps_fill [keeps_intros]:
  assumes "ev_keeps ev"
  shows "keeps (fillBlock ev f i fs body)" and "keeps (fillBlockFromStmts ev f i fs stmts)"
    and "keeps (evalBlockExpr ev target body span)"
  using assms by (auto simp: fillBlock_def fillBlockFromStmts_def evalBlockExpr_def intro!: keeps_intros)

lemma keeps_evalCall [keeps_intros]: "cfg_keeps c \<Longrightarrow> ev_keeps ev \<Longrightarrow> keeps (evalCall c ev fn args u m span)"
  unfolding evalCall_def evalArgs_def lookupUFCSFunc_def Let_def by (auto intro!: keeps_intros split: Expr.split)

lemma keeps_step_body [keeps_intros]: "cfg_keeps c \<Longrightarrow> ev_keeps ev \<Longrightarrow> keeps (step_body c ev stmts)"
  by (induction c ev stmts rule: step_body.induct) (auto intro!: keeps_intros)

lemma keeps_expandUserStep [keeps_intros]: "cfg_keeps c \<Longrightarrow> ev_keeps ev \<Longrightarrow> keeps (expandUserStep c ev fv fs)"
  unfolding expandUserStep_def by (auto intro!: keeps_intros)

lemma keeps_evalStructLit [keeps_intros]: "cfg_keeps c \<Longrightarrow> ev_keeps ev \<Longrightarrow> keeps (evalStructLit c ev t inits body span)"
  unfolding evalStructLit_def lookupStep_def lookupStepQualified_def Let_def by (auto intro!: keeps_intros)

lemma keeps_for_loop [keeps_intros]: "ev_keeps ev \<Longrightarrow> keeps (for_loop ev x body a is)"
  by (induction ev x body a "is" rule: for_loop.induct) (auto intro!: keeps_intros)

lemma keeps_comp_loop [keeps_intros]: "ev_keeps ev \<Longrightarrow> keeps (comp_loop ev e x cnd a is)"
  by (induction ev e x cnd a "is" rule: comp_loop.induct) (auto intro!: keeps_intros)

lemma keeps_control [keeps_intros]:
  assumes "ev_keeps ev"
  shows "keeps (evalFor ev x it body span)" and "keeps (evalIf ev cnd th el)" and "keeps (evalListComp ev e y it cnd)"
  using assms by (auto simp: evalFor_def evalIf_def evalListComp_def intro!: keeps_intros)

lemma keeps_evalAssign [keeps_intros]: "ev_keeps ev \<Longrightarrow> keeps (evalAssign ev target value)"
  unfolding evalAssign_def by (cases target) (auto intro!: keeps_intros)

lemma keeps_evalStmt [keeps_intros]: "cfg_keeps c \<Longrightarrow> ev_keeps ev \<Longrightarrow> keeps (evalStmt c ev st)"
  unfolding evalStmt_def by (cases st) (auto intro!: keeps_intros)

lemma keeps_evalExpr [keeps_intros]: "cfg_keeps c \<Longrightarrow> ev_keeps ev \<Longrightarrow> keeps (evalExpr c ev e)"
  unfolding evalExpr_def by (cases e) (auto intro!: keeps_intros)

lemma ev_keeps_evaluator: "cfg_keeps c \<Longrightarrow> ev_keeps (evaluator c n)"
proof (induction n)
  case (Suc n)
  then have "ev_keeps (evaluator c n)" by blast
  with Suc.prems have "\<And>e. keeps (evalExpr c (evaluator c n) e)" "\<And>st. keeps (evalStmt c (evaluator c n) st)"
    by (auto intro: keeps_evalExpr keeps_evalStmt)
  then show ?case by (simp add: ev_keeps_def)
qed (simp add: ev_keeps_def kept_def)

lemma expression_keeps_frame: "cfg_keeps c \<Longrightarrow> eval_expr c n e s = Done v s' \<Longrightarrow> frame s s'"
  using ev_keeps_evaluator [of c n] by (auto simp: ev_keeps_def dest: keptD)

section \<open>What a run changes\<close>

text \<open>C31: Running a statement, however deep the calls in it, comes back to the scope it started in. It
  takes back no error and no emitted value recorded before, makes no scope change its parent,
  changes no object into one of another kind, no list's length, removes no key of a map, never
  unsets a thunk and leaves the registered modules, return types and type defaults as they are - provided the
  functions that the caller registers do.\<close>

theorem evaluation_keeps_frame:
  assumes "cfg_keeps c" and "eval_stmt c n st s = Done () s'"
  shows "frame s s'"
  using ev_keeps_evaluator [OF assms(1), of n] assms(2) by (auto simp: ev_keeps_def dest: keptD)

text \<open>A configuration without builtins of the caller's own, and one statement: \<open>for x in [true] { y = x }\<close> after a
  list was made.\<close>

definition plain_cfg :: EvCfg where
  "plain_cfg = \<lparr>cf_envLookup = None, cf_lenient = False, cf_builtins = \<lambda>_. None, cf_onEmit = None,
     cf_Quote = \<lambda>t. CHR 0x22 # t @ [CHR 0x22]\<rparr>"

definition name_at :: "string \<Rightarrow> Ident" where
  "name_at n = \<lparr>id_Name = n, id_Span = no_span\<rparr>"

definition sample_loop :: Stmt where
  "sample_loop = ForStmt (name_at ''x'') (ListLit [BoolLit True no_span] no_span)
     (Some (Block [LetStmt (LetDecl (name_at ''y'') NilT (IdentE (name_at ''x'')) False no_span)] no_span)) no_span"

lemma cfg_keeps_plain: "cfg_keeps plain_cfg"
  by (simp add: cfg_keeps_def plain_cfg_def)

lemma sample_loop_runs: "\<exists>s'. eval_stmt plain_cfg 3 sample_loop start_state = Done () s' \<and> length (es_envs s') = 2"
proof -
  have "case eval_stmt plain_cfg 3 sample_loop start_state of Done _ s' \<Rightarrow> length (es_envs s') = 2 | _ \<Rightarrow> False"
    by code_simp
  then show ?thesis by (cases "eval_stmt plain_cfg 3 sample_loop start_state") auto
qed

theorem evaluation_keeps_frame_witness:
  "\<exists>s'. eval_stmt plain_cfg 3 sample_loop start_state = Done () s' \<and> length (es_envs s') = 2 \<and> frame start_state s'"
  using sample_loop_runs evaluation_keeps_frame [OF cfg_keeps_plain] by blast

end
