(* ===== verification/Eval_Fuel.thy ===== *)
theory Eval_Fuel
  imports Eval_Frame
begin

text \<open>
  Fuel only bounds the depth of the recursion: once an evaluation returns or panics, more fuel
  changes nothing, as each function is monotone in the evaluator it is given.
\<close>

section \<open>The order\<close>

lemma approx_until_return [approx_intros]:
  "(\<And>x. approx (f x) (f' x)) \<Longrightarrow> approx (until_return f xs) (until_return f' xs)"
  by (induction xs) (auto intro!: approx_intros)

lemma approx_with_env [approx_intros]: "approx m m' \<Longrightarrow> approx (with_env e m) (with_env e m')"
  unfolding with_env_def by (intro approx_intros)

lemma approx_collecting [approx_intros]: "approx m m' \<Longrightarrow> approx (collecting m) (collecting m')"
  unfolding collecting_def by (intro approx_intros)

lemma approx_in_child [approx_intros]: "approx m m' \<Longrightarrow> approx (in_child m) (in_child m')"
  unfolding in_child_def by (intro approx_intros)

text \<open>Case distinctions.\<close>

lemma approx_Value [approx_intros]:
  assumes "approx m1 l1" "\<And>x. approx (m2 x) (l2 x)" "\<And>x. approx (m3 x) (l3 x)" "\<And>x. approx (m4 x) (l4 x)" "approx m5 l5"
    "\<And>x. approx (m6 x) (l6 x)" "\<And>x. approx (m7 x) (l7 x)" "\<And>x. approx (m8 x) (l8 x)"
    "\<And>x y z. approx (m9 x y z) (l9 x y z)" "\<And>x y z w. approx (m10 x y z w) (l10 x y z w)" "\<And>x. approx (m11 x) (l11 x)"
    "\<And>x. approx (m12 x) (l12 x)" "\<And>x y. approx (m13 x y) (l13 x y)" "\<And>x y. approx (m14 x y) (l14 x y)"
  shows "approx (case_Value m1 m2 m3 m4 m5 m6 m7 m8 m9 m10 m11 m12 m13 m14 v)
    (case_Value l1 l2 l3 l4 l5 l6 l7 l8 l9 l10 l11 l12 l13 l14 v)"
  using assms by (cases v) auto

lemma approx_FuncBody [approx_intros]:
  "approx m m' \<Longrightarrow> (\<And>b. approx (f b) (f' b)) \<Longrightarrow> (\<And>ps b. approx (g ps b) (g' ps b))
     \<Longrightarrow> approx (case_FuncBody m f g v) (case_FuncBody m' f' g' v)"
  by (cases v) auto

section \<open>The functions of the evaluator\<close>

text \<open>One evaluator below another: it has no more fuel and is out of it wherever the two differ.\<close>

definition ev_le :: "Evaluator \<Rightarrow> Evaluator \<Rightarrow> bool" where
  "ev_le ev ev' \<longleftrightarrow> (\<forall>e. approx (r_expr ev e) (r_expr ev' e)) \<and> (\<forall>st. approx (r_stmt ev st) (r_stmt ev' st))
     \<and> r_fuel ev \<le> r_fuel ev'"

lemma approx_rec [approx_intros]:
  "ev_le ev ev' \<Longrightarrow> approx (r_expr ev e) (r_expr ev' e)"
  "ev_le ev ev' \<Longrightarrow> approx (r_stmt ev st) (r_stmt ev' st)"
  by (simp_all add: ev_le_def)

lemma approx_value_String: "n \<le> m \<Longrightarrow> approx (value_String c n v) (value_String c m v)"
proof (induction n arbitrary: m v)
  case (Suc n)
  then obtain k where m: "m = Suc k" "n \<le> k" by (cases m) auto
  show ?case
    using Suc.IH [OF m(2)] unfolding m(1) approx_def by (cases v) (auto split: option.splits Obj.splits)
qed (simp add: approx_def)

lemma approx_valueToString [approx_intros]: "ev_le ev ev' \<Longrightarrow> approx (valueToString c ev v) (valueToString c ev' v)"
  unfolding valueToString_def by (cases v) (auto simp: ev_le_def intro!: approx_intros approx_value_String)

lemma approx_Obj [approx_intros]:
  assumes "\<And>x. approx (m1 x) (l1 x)" "\<And>x. approx (m2 x) (l2 x)" "\<And>x. approx (m3 x) (l3 x)"
    "\<And>x y z. approx (m4 x y z) (l4 x y z)"
  shows "approx (case_Obj m1 m2 m3 m4 v) (case_Obj l1 l2 l3 l4 v)"
  using assms by (cases v) auto

lemma approx_forceValue [approx_intros]: "ev_le ev ev' \<Longrightarrow> approx (forceValue ev v) (forceValue ev' v)"
  unfolding forceValue_def by (auto intro!: approx_intros)

lemma approx_dotted_loop [approx_intros]: "ev_le ev ev' \<Longrightarrow> approx (dotted_loop ev ps v) (dotted_loop ev' ps v)"
  by (induction ps arbitrary: v) (auto intro!: approx_intros)

lemma approx_string_parts [approx_intros]: "ev_le ev ev' \<Longrightarrow> approx (string_parts c ev ps) (string_parts c ev' ps)"
  by (induction c ev ps rule: string_parts.induct) (auto intro!: approx_intros)

lemma approx_multi_parts [approx_intros]:
  assumes "ev_le ev ev'"
  shows "approx (multi_parts c ev ind ps a b) (multi_parts c ev' ind ps a b)"
proof (induction ps arbitrary: a b)
  case (Cons p ps)
  show ?case by (cases p) (auto simp: Let_def intro!: approx_intros Cons.IH assms)
qed (simp add: approx_intros)

lemma approx_evalString [approx_intros]:
  "ev_le ev ev' \<Longrightarrow> approx (evalString c ev parts multi ind) (evalString c ev' parts multi ind)"
  unfolding evalString_def evalMultiLineString_def by (intro approx_intros)

lemma approx_operators [approx_intros]:
  assumes "ev_le ev ev'"
  shows "approx (evalBinary ev bop l r span) (evalBinary ev' bop l r span)"
    and "approx (evalUnary ev uop x) (evalUnary ev' uop x)"
  using assms unfolding evalBinary_def evalUnary_def by (intro approx_intros; assumption)+

lemma approx_access [approx_intros]:
  assumes "ev_le ev ev'"
  shows "approx (evalSelector ev e sel span) (evalSelector ev' e sel span)"
    and "approx (evalDottedName ev dn) (evalDottedName ev' dn)"
    and "approx (evalIdent ev i) (evalIdent ev' i)"
    and "approx (evalIndex ev e x) (evalIndex ev' e x)"
  using assms by (auto simp: evalSelector_def evalDottedName_def evalIdent_def evalIndex_def intro!: approx_intros)

lemma approx_defaults [approx_intros]:
  assumes "ev_le ev ev'"
  shows "approx (applyDeclDefaults ev fv fs) (applyDeclDefaults ev' fv fs)"
    and "approx (applyTypeDefaults ev t q fs) (applyTypeDefaults ev' t q fs)"
  using assms unfolding applyDeclDefaults_def applyTypeDefaults_def Let_def by (auto intro!: approx_intros)

lemma approx_callBuiltin [approx_intros]:
  "ev_le ev ev' \<Longrightarrow> approx (callBuiltin c ev fv ps kw span) (callBuiltin c ev' fv ps kw span)"
  unfolding callBuiltin_def Let_def by (auto intro!: approx_intros)

lemma approx_callFunc [approx_intros]:
  "ev_le ev ev' \<Longrightarrow> approx (callFunc c ev fv ps kw span) (callFunc c ev' fv ps kw span)"
  unfolding callFunc_def by (auto intro!: approx_intros)

lemma approx_evalBlock [approx_intros]: "ev_le ev ev' \<Longrightarrow> approx (evalBlock ev b) (evalBlock ev' b)"
  unfolding evalBlock_def by (auto intro!: approx_intros)

lemma approx_fill [approx_intros]:
  assumes "ev_le ev ev'"
  shows "approx (fillBlock ev f i fs body) (fillBlock ev' f i fs body)"
    and "approx (fillBlockFromStmts ev f i fs stmts) (fillBlockFromStmts ev' f i fs stmts)"
    and "approx (evalBlockExpr ev target body span) (evalBlockExpr ev' target body span)"
  using assms by (auto simp: fillBlock_def fillBlockFromStmts_def evalBlockExpr_def intro!: approx_intros)

lemma approx_evalCall [approx_intros]:
  "ev_le ev ev' \<Longrightarrow> approx (evalCall c ev fn args u m span) (evalCall c ev' fn args u m span)"
  unfolding evalCall_def evalArgs_def Let_def by (cases fn) (auto intro!: approx_intros)

lemma approx_step_body [approx_intros]: "ev_le ev ev' \<Longrightarrow> approx (step_body c ev stmts) (step_body c ev' stmts)"
  by (induction c ev stmts rule: step_body.induct) (auto intro!: approx_intros)

lemma approx_expandUserStep [approx_intros]:
  "ev_le ev ev' \<Longrightarrow> approx (expandUserStep c ev fv fs) (expandUserStep c ev' fv fs)"
  unfolding expandUserStep_def by (auto intro!: approx_intros)

lemma approx_evalStructLit [approx_intros]:
  "ev_le ev ev' \<Longrightarrow> approx (evalStructLit c ev t inits body span) (evalStructLit c ev' t inits body span)"
  unfolding evalStructLit_def Let_def by (auto intro!: approx_intros)

lemma approx_for_loop [approx_intros]: "ev_le ev ev' \<Longrightarrow> approx (for_loop ev x body a is) (for_loop ev' x body a is)"
  by (induction ev x body a "is" rule: for_loop.induct) (auto intro!: approx_intros)

lemma approx_comp_loop [approx_intros]:
  "ev_le ev ev' \<Longrightarrow> approx (comp_loop ev e x cnd a is) (comp_loop ev' e x cnd a is)"
  by (induction ev e x cnd a "is" rule: comp_loop.induct) (auto intro!: approx_intros)

lemma approx_control [approx_intros]:
  assumes "ev_le ev ev'"
  shows "approx (evalFor ev x it body span) (evalFor ev' x it body span)"
    and "approx (evalIf ev cnd th el) (evalIf ev' cnd th el)"
    and "approx (evalListComp ev e y it cnd) (evalListComp ev' e y it cnd)"
  using assms by (auto simp: evalFor_def evalIf_def evalListComp_def intro!: approx_intros)

lemma approx_evalAssign [approx_intros]:
  "ev_le ev ev' \<Longrightarrow> approx (evalAssign ev target value) (evalAssign ev' target value)"
  unfolding evalAssign_def by (cases target) (auto intro!: approx_intros)

lemma approx_evalStmt [approx_intros]: "ev_le ev ev' \<Longrightarrow> approx (evalStmt c ev st) (evalStmt c ev' st)"
  unfolding evalStmt_def by (cases st) (auto intro!: approx_intros)

lemma approx_evalExpr [approx_intros]: "ev_le ev ev' \<Longrightarrow> approx (evalExpr c ev e) (evalExpr c ev' e)"
  unfolding evalExpr_def by (cases e) (auto intro!: approx_intros)

lemma ev_le_Suc: "ev_le (evaluator c n) (evaluator c (Suc n))"
proof (induction n)
  case (Suc n)
  show ?case
    unfolding evaluator.simps(2) [of c "Suc n"] evaluator.simps(2) [of c n]
    using approx_evalExpr [OF Suc] approx_evalStmt [OF Suc] by (simp add: ev_le_def)
qed (simp add: ev_le_def approx_def)

lemma ev_le_trans: "ev_le a b \<Longrightarrow> ev_le b c \<Longrightarrow> ev_le a c"
  unfolding ev_le_def approx_def by (metis order_trans)

lemma ev_le_refl: "ev_le ev ev"
  by (simp add: ev_le_def approx_refl)

lemma ev_le_evaluator: "n \<le> m \<Longrightarrow> ev_le (evaluator c n) (evaluator c m)"
proof (induction m rule: dec_induct)
  case (step m)
  then show ?case using ev_le_trans ev_le_Suc by blast
qed (rule ev_le_refl)

section \<open>A whole file\<close>

lemma approx_decls [approx_intros]:
  assumes "ev_le ev ev'"
  shows "approx (evalDecl ev d) (evalDecl ev' d)" and "approx (register_first ev d) (register_first ev' d)"
    and "approx (sibling_decl ev d) (sibling_decl ev' d)"
  using assms by (auto simp: evalDecl_def register_first_def sibling_decl_def intro!: approx_intros split: Decl.split)

lemma approx_file_loop [approx_intros]: "ev_le ev ev' \<Longrightarrow> approx (file_loop ev ds sts) (file_loop ev' ds sts)"
  by (induction ev ds sts rule: file_loop.induct) (auto intro!: approx_intros)

lemma approx_files [approx_intros]:
  assumes "ev_le ev ev'"
  shows "approx (evalFile ev f) (evalFile ev' f)" and "approx (registerSiblingModules ev ums) (registerSiblingModules ev' ums)"
  using assms by (auto simp: evalFile_def registerSiblingModules_def intro!: approx_intros)

lemma approx_run: "n \<le> m \<Longrightarrow> approx (eval_run opts n f) (eval_run opts m f)"
  unfolding eval_run_def Let_def by (auto intro!: approx_intros ev_le_evaluator)

text \<open>What evaluating a configuration file gives does not depend on the fuel. If Eval ends within one bound on the
  depth of its recursion - with bindings, values and errors, or with a panic - then it ends the same way
  under every larger one; so the model's answer is the program's answer.\<close>

theorem eval_fuel_irrelevant:
  assumes "Eval opts n f \<noteq> NoFuel" and "n \<le> m"
  shows "Eval opts m f = Eval opts n f"
proof -
  let ?fin = "\<lambda>_ s. Done (\<lparr>rs_Bindings = ef_vars (es_envs s ! es_env s), rs_Exprs = es_Exprs s\<rparr>, es_errs s) s"
  have "approx (ebind (eval_run opts n f) ?fin) (ebind (eval_run opts m f) ?fin)"
    by (intro approx_bind approx_run assms(2) approx_refl)
  then show ?thesis using assms(1) unfolding Eval_def by (rule approxD)
qed

text \<open>A file with \<open>let x = f()\<close> and, after it, a function \<open>f\<close> that returns true.\<close>

definition plain_opts :: EvOptions where
  "plain_opts = \<lparr>op_cfg = plain_cfg, op_stubFS = None, op_userModules = [], op_siblings = [], op_iter_mods = \<lambda>x. x,
     op_iter_enums = \<lambda>x. x\<rparr>"

definition file_of :: "Decl list \<Rightarrow> Stmt list \<Rightarrow> File" where
  "file_of ds sts = \<lparr>fl_Name = [], fl_Module = None, fl_Imports = [], fl_Decls = ds, fl_Stmts = sts, fl_Span = no_span\<rparr>"

definition call_of :: "string \<Rightarrow> Expr" where
  "call_of f = CallExpr (IdentE (name_at f)) [] False [] no_span"

definition let_of :: "string \<Rightarrow> Expr \<Rightarrow> Decl" where
  "let_of x e = LetD (LetDecl (name_at x) NilT e False no_span)"

definition sample_file :: File where
  "sample_file = file_of
     [let_of ''x'' (call_of ''f''),
      FuncDecl (name_at ''f'') [] NilT (Some (Block [ReturnStmt (BoolLit True no_span) no_span] no_span)) False no_span] []"

definition binds :: "(Result \<times> EvError list, EvState) outcome \<Rightarrow> string \<Rightarrow> Value \<Rightarrow> bool" where
  "binds r x v \<longleftrightarrow> (case r of Done (res, errs) _ \<Rightarrow> errs = [] \<and> map_of (rs_Bindings res) x = Some v | _ \<Rightarrow> False)"

theorem eval_fuel_irrelevant_witness:
  "Eval plain_opts 1000 sample_file = Eval plain_opts 3 sample_file
     \<and> binds (Eval plain_opts 3 sample_file) ''x'' (VBool True)"
proof -
  have b: "binds (Eval plain_opts 3 sample_file) ''x'' (VBool True)" by code_simp
  then have "Eval plain_opts 3 sample_file \<noteq> NoFuel" by (auto simp: binds_def)
  then show ?thesis using eval_fuel_irrelevant [of plain_opts 3 sample_file 1000] b by simp
qed

end
