(* ===== verification/Eval_Behaviour.thy ===== *)
theory Eval_Behaviour
  imports Eval_Fuel
begin

text \<open>
  How single constructs of the language evaluate: indexing with its panics, the two operands of a logical
  operator, the builtin \<open>unique\<close>, module bindings that are evaluated once, and the name under which a struct
  literal finds a declaration.
\<close>

section \<open>Indexing\<close>

lemma eval_step [simp]: "r_expr (evaluator c (Suc n)) = evalExpr c (evaluator c n)"
  "r_stmt (evaluator c (Suc n)) = evalStmt c (evaluator c n)"
  by simp_all

text \<open>Indexing a list. An index within the list gives the item there, one past the end gives none without an
  error, and a negative index makes the evaluator panic, whatever the list: the code compares
  the index with the length only.\<close>

theorem list_index_outcome:
  assumes "eval_expr c n x s = Done (VList a) s1" and "eval_expr c n i s1 = Done (VInt k) s2"
  shows "eval_expr c (Suc n) (IndexExpr x i span) s =
    (if sint k < 0 then Panic ''index out of range''
     else if nat (sint k) < length (list_at s2 a) then Done (list_at s2 a ! nat (sint k)) s2
     else Done VNone s2)"
  using assms by (auto simp: evalExpr_def evalIndex_def)

text \<open>\<open>[][-1]\<close>: its index is negated, as there are no negative literals.\<close>

definition sample_index :: Expr where
  "sample_index = UnaryExpr K_Minus (IntLit 1 ''1'' no_span) no_span"

lemma ParseInt_1: "ParseInt ''1'' = (1, None)"
  by (simp add: ParseInt_def strconv_ParseInt_def ParseUint_def digit_value_def)

theorem list_index_outcome_witness:
  "eval_expr plain_cfg 3 (IndexExpr (ListLit [] no_span) sample_index no_span) start_state
     = Panic ''index out of range''"
proof -
  have l: "eval_expr plain_cfg 2 (ListLit [] no_span) start_state
      = Done (VList 0) (start_state\<lparr>es_heap := [OList []]\<rparr>)"
    by (simp add: numeral_2_eq_2 evalExpr_def new_list_def alloc_def ebind_def start_state_def)
  have i: "eval_expr plain_cfg 2 sample_index s = Done (VInt (- 1)) s" for s
    by (simp add: numeral_2_eq_2 evalExpr_def sample_index_def evalUnary_def ParseInt_1 ebind_def)
  have "sint (- 1 :: 64 word) < 0" by simp
  then show ?thesis using list_index_outcome [OF l i] by (simp add: numeral_3_eq_3 numeral_2_eq_2)
qed

section \<open>Logical operators\<close>

text \<open>The logical operators do not stop at their first operand: the second one is evaluated even where the first decides
  the result, and its panics and effects count.\<close>

theorem logical_operands_both_run:
  assumes "eval_expr c n l s = Done (VBool (bop = K_Or)) s1" and "bop = K_And \<or> bop = K_Or"
  shows "eval_expr c (Suc n) (BinaryExpr bop l r span) s =
    (case eval_expr c n r s1 of Done v s2 \<Rightarrow> Done (VBool (bop = K_Or)) s2 | Panic m \<Rightarrow> Panic m | NoFuel \<Rightarrow> NoFuel)"
  using assms by (auto simp: evalExpr_def evalBinary_def asBool_def vbool_def ebind_def split: outcome.split)

theorem logical_operands_both_run_witness:
  "eval_expr plain_cfg 4 (BinaryExpr K_And (BoolLit False no_span)
     (IndexExpr (ListLit [] no_span) sample_index no_span) no_span) start_state = Panic ''index out of range''"
proof -
  have b: "eval_expr plain_cfg 3 (BoolLit False no_span) start_state = Done (VBool (K_And = K_Or)) start_state"
    by (simp add: numeral_3_eq_3 evalExpr_def)
  have "evaluator plain_cfg 4 = evaluator plain_cfg (Suc 3)" by simp
  then show ?thesis
    using logical_operands_both_run [OF b, of "IndexExpr (ListLit [] no_span) sample_index no_span" no_span]
      list_index_outcome_witness by (simp del: evaluator.simps)
qed

section \<open>Removing duplicates\<close>

lemma valuesEqual_sym: "valuesEqual a b \<Longrightarrow> valuesEqual b a"
  by (auto simp: valuesEqual_def split: Value.splits)

lemma valuesEqual_trans: "valuesEqual a b \<Longrightarrow> valuesEqual b d \<Longrightarrow> valuesEqual a d"
  by (auto simp: valuesEqual_def split: Value.splits)

text \<open>The items that equal no item before them.\<close>

definition first_items :: "Value list \<Rightarrow> Value list" where
  "first_items xs = nths xs {i. \<forall>j < i. \<not> valuesEqual (xs ! j) (xs ! i)}"

lemma first_items_snoc:
  "first_items (xs @ [x]) = first_items xs @ (if \<exists>y \<in> set xs. valuesEqual y x then [] else [x])"
proof -
  have "nths xs {i. \<forall>j < i. \<not> valuesEqual ((xs @ [x]) ! j) ((xs @ [x]) ! i)} = first_items xs"
    unfolding first_items_def nths_def
    by (rule arg_cong [where f = "map fst"], rule filter_cong)
      (auto simp: nth_append set_zip)
  moreover have "(\<forall>j < length xs. \<not> valuesEqual (xs ! j) x) \<longleftrightarrow> \<not> (\<exists>y \<in> set xs. valuesEqual y x)"
    by (metis in_set_conv_nth)
  ultimately show ?thesis
    by (auto simp: first_items_def nths_append nths_singleton nth_append)
qed

lemma first_items_covers: "(\<exists>y \<in> set (first_items xs). valuesEqual y x) \<longleftrightarrow> (\<exists>y \<in> set xs. valuesEqual y x)"
proof (induction xs arbitrary: x rule: rev_induct)
  case (snoc z xs)
  show ?case
    using snoc [of x] snoc [of z] by (auto simp: first_items_snoc intro: valuesEqual_trans valuesEqual_sym)
qed (simp add: first_items_def)

lemma unique_loop_first: "unique_loop (first_items xs) ys = first_items (xs @ ys)"
proof (induction ys arbitrary: xs)
  case (Cons y ys)
  have "(if list_ex (\<lambda>p. valuesEqual p y) (first_items xs) then first_items xs else first_items xs @ [y])
      = first_items (xs @ [y])"
    using first_items_covers [of xs y] by (auto simp: first_items_snoc list_ex_iff)
  then show ?case using Cons [of "xs @ [y]"] by simp
qed simp

text \<open>The builtin unique keeps, in their order, exactly the items that equal no earlier item of the list. Only
  strings, numbers, booleans and none equal anything, so that every list, map or struct stays.\<close>

theorem unique_keeps_first:
  "callUnique [VList a] [] s = new_list (first_items (list_at s a)) s"
proof -
  have "unique_loop [] xs = first_items xs" for xs
    using unique_loop_first [of "[]" xs] by (simp add: first_items_def)
  then show ?thesis
    by (simp add: callUnique_def nth_arg_def kwarg_def)
qed

section \<open>Module bindings\<close>

text \<open>The states evaluation can go on to, by expressions and statements that end normally.\<close>

inductive later :: "EvCfg \<Rightarrow> EvState \<Rightarrow> EvState \<Rightarrow> bool" for c s where
  now: "later c s s"
| expr: "later c s s1 \<Longrightarrow> eval_expr c n e s1 = Done v s2 \<Longrightarrow> later c s s2"
| stmt: "later c s s1 \<Longrightarrow> eval_stmt c n st s1 = Done () s2 \<Longrightarrow> later c s s2"

lemma later_frame: "later c s s' \<Longrightarrow> cfg_keeps c \<Longrightarrow> frame s s'"
proof (induction rule: later.induct)
  case (expr s1 n e v s2)
  then have "frame s1 s2" using ev_keeps_evaluator [of c n] by (auto simp: ev_keeps_def dest: keptD)
  with expr show ?case using frame_trans by blast
next
  case (stmt s1 n st s2)
  then have "frame s1 s2" using ev_keeps_evaluator [of c n] by (auto simp: ev_keeps_def dest: keptD)
  with stmt show ?case using frame_trans by blast
qed simp

lemma forced_thunk_stays:
  assumes "frame s s'" and "obj_at s a = Some (OThunk scope e (Some v))"
  shows "forceValue ev (VThunk a) s' = Done v s'"
proof -
  have a: "a < length (es_heap s)" "es_heap s ! a = OThunk scope e (Some v)"
    using assms(2) by (auto simp: obj_at_def split: if_splits)
  with assms(1) have "a < length (es_heap s')" "obj_le (OThunk scope e (Some v)) (es_heap s' ! a)"
    by (auto simp: frame_def frame0_def heap_le_def)
  then have "obj_at s' a = Some (OThunk scope e (Some v))" by (cases "es_heap s' ! a") (auto simp: obj_at_def)
  then show ?thesis by (simp add: forceValue_def)
qed

text \<open>C32: a let-binding of a module is evaluated when it is first forced, in the scope of its module, and the
  value is kept: once forcing it has returned a value, then however evaluation goes on, forcing it again
  gives this very value and leaves the state as it is. It evaluates nothing, as it is done by an evaluator that
  may take no step at all (\<open>m = 0\<close>). Before the first forcing has returned nothing is kept: a binding whose
  expression forces the binding itself is outside of this.\<close>

theorem thunk_forced_once:
  assumes "cfg_keeps c" and "obj_at s a = Some (OThunk scope e None)"
    and "forceValue (evaluator c n) (VThunk a) s = Done v s1"
  shows "(\<exists>s'. eval_expr c n e (s\<lparr>es_env := scope\<rparr>) = Done v s' \<and> es_env s1 = es_env s)
    \<and> (\<forall>s2 m. later c s1 s2 \<longrightarrow> forceValue (evaluator c m) (VThunk a) s2 = Done v s2)"
proof -
  have "frame s s1" using keptD [OF keeps_forceValue [OF ev_keeps_evaluator [OF assms(1)]] assms(3)] .
  then have "length (es_heap s) \<le> length (es_heap s1)" by (simp add: frame_def frame0_def heap_le_def)
  moreover have "a < length (es_heap s)" using assms(2) by (auto simp: obj_at_def split: if_splits)
  ultimately have "obj_at s1 a = Some (OThunk scope e (Some v))"
    using assms(2,3) by (auto simp: forceValue_def ethen_def put_obj_def obj_at_def elim!: ebind_DoneE)
  moreover have "\<exists>s'. eval_expr c n e (s\<lparr>es_env := scope\<rparr>) = Done v s' \<and> es_env s1 = es_env s"
    using assms(2,3) by (auto simp: forceValue_def ethen_def put_obj_def elim!: ebind_DoneE)
  ultimately show ?thesis using forced_thunk_stays later_frame [OF _ assms(1)] by blast
qed

text \<open>A binding to a list literal: each evaluation makes a new list, and forcing twice gives the first one.\<close>

lemma thunk_forced_once_witness:
  "\<exists>t u. forceValue (evaluator plain_cfg 2) (VThunk 0) (start_state\<lparr>es_heap := [OThunk 0 (ListLit [] no_span) None]\<rparr>)
        = Done (VList 1) t
      \<and> eval_expr plain_cfg 2 (ListLit [] no_span) t = Done (VList 2) u
      \<and> forceValue (evaluator plain_cfg 0) (VThunk 0) u = Done (VList 1) u"
proof -
  let ?l = "ListLit [] no_span"
  let ?s = "start_state\<lparr>es_heap := [OThunk 0 ?l None]\<rparr>"
  let ?t = "start_state\<lparr>es_heap := [OThunk 0 ?l (Some (VList 1)), OList []]\<rparr>"
  let ?u = "start_state\<lparr>es_heap := [OThunk 0 ?l (Some (VList 1)), OList [], OList []]\<rparr>"
  have o: "obj_at ?s 0 = Some (OThunk 0 ?l None)" by (simp add: obj_at_def)
  have f: "forceValue (evaluator plain_cfg 2) (VThunk 0) ?s = Done (VList 1) ?t"
    by (simp add: forceValue_def obj_at_def numeral_2_eq_2 evalExpr_def new_list_def alloc_def ebind_def ethen_def
        put_obj_def start_state_def)
  have x: "eval_expr plain_cfg 2 ?l ?t = Done (VList 2) ?u"
    by (simp add: numeral_2_eq_2 evalExpr_def new_list_def alloc_def ebind_def start_state_def)
  have "later plain_cfg ?t ?u" by (rule later.expr [OF later.now x])
  with thunk_forced_once [OF cfg_keeps_plain o f] have "forceValue (evaluator plain_cfg 0) (VThunk 0) ?u = Done (VList 1) ?u"
    by blast
  with f x show ?thesis by blast
qed

end
