(* ===== verification/Unquote.thy ===== *)
theory Unquote
  imports Tokens
begin

text \<open>
  strconv.Unquote for double-quoted strings, which the parser applies to import paths: escapes,
  numbers of bytes and code points, and the replacement of bytes that are not UTF-8.
\<close>

definition byte_of :: "nat \<Rightarrow> char" where
  "byte_of n = char_of n"

text \<open>utf8.AppendRune for a valid rune.\<close>

definition utf8_encode :: "nat \<Rightarrow> string" where
  "utf8_encode r =
     (if r < 0x80 then [byte_of r]
      else if r < 0x800 then [byte_of (0xC0 + r div 64), byte_of (0x80 + r mod 64)]
      else if r < 0x10000 then [byte_of (0xE0 + r div 4096), byte_of (0x80 + r div 64 mod 64), byte_of (0x80 + r mod 64)]
      else [byte_of (0xF0 + r div 262144), byte_of (0x80 + r div 4096 mod 64), byte_of (0x80 + r div 64 mod 64),
            byte_of (0x80 + r mod 64)])"

definition ValidRune :: "nat \<Rightarrow> bool" where
  "ValidRune r \<longleftrightarrow> r < 0xD800 \<or> 0xDFFF < r \<and> r \<le> 0x10FFFF"

definition unhex :: "char \<Rightarrow> nat option" where
  "unhex c =
     (let n = of_char c :: nat
      in if 48 \<le> n \<and> n \<le> 57 then Some (n - 48)
         else if 97 \<le> n \<and> n \<le> 102 then Some (n - 87)
         else if 65 \<le> n \<and> n \<le> 70 then Some (n - 55) else None)"

text \<open>A number of so many digits, and the text after it.\<close>

primrec digits :: "(char \<Rightarrow> nat option) \<Rightarrow> nat \<Rightarrow> nat \<Rightarrow> nat \<Rightarrow> string \<Rightarrow> (nat \<times> string) option" where
  "digits val base 0 v s = Some (v, s)"
| "digits val base (Suc k) v s =
     (case s of
        [] \<Rightarrow> None
      | c # s \<Rightarrow> (case val c of None \<Rightarrow> None | Some d \<Rightarrow> digits val base k (v * base + d) s))"

definition octal_digit :: "char \<Rightarrow> nat option" where
  "octal_digit c = (let n = of_char c :: nat in if 48 \<le> n \<and> n \<le> 55 then Some (n - 48) else None)"

text \<open>The bytes an escape stands for, and the text after it; \<open>s\<close> is what follows the backslash.\<close>

definition unescape :: "string \<Rightarrow> (string \<times> string) option" where
  "unescape s =
     (case s of
        [] \<Rightarrow> None
      | c # t \<Rightarrow>
          if c = CHR ''a'' then Some ([CHR 0x07], t) else if c = CHR ''b'' then Some ([CHR 0x08], t)
          else if c = CHR ''f'' then Some ([CHR 0x0C], t) else if c = CHR ''n'' then Some ([CHR 0x0A], t)
          else if c = CHR ''r'' then Some ([CHR 0x0D], t) else if c = CHR ''t'' then Some ([CHR 0x09], t)
          else if c = CHR ''v'' then Some ([CHR 0x0B], t)
          else if c = CHR ''x'' then map_option (\<lambda>(v, r). ([byte_of v], r)) (digits unhex 16 2 0 t)
          else if c = CHR ''u'' \<or> c = CHR ''U''
          then (case digits unhex 16 (if c = CHR ''u'' then 4 else 8) 0 t of
                  None \<Rightarrow> None
                | Some (v, r) \<Rightarrow> if ValidRune v then Some (utf8_encode v, r) else None)
          else if octal_digit c \<noteq> None
          then (case digits octal_digit 8 3 0 s of
                  None \<Rightarrow> None
                | Some (v, r) \<Rightarrow> if v \<le> 255 then Some ([byte_of v], r) else None)
          else if c = CHR 0x5C \<or> c = CHR 0x22 then Some ([c], t)
          else None)"

lemma digits_rest: "digits val base k v s = Some (w, r) \<Longrightarrow> length r \<le> length s"
  by (induction k arbitrary: v s) (fastforce split: list.splits option.splits)+

lemma unescape_rest: "unescape s = Some (bs, r) \<Longrightarrow> length r \<le> length s"
  unfolding unescape_def by (auto dest!: digits_rest split: list.splits if_splits option.splits)

text \<open>The text between the quotes, unquoted; the closing quote must be the end.\<close>

function unquote_body :: "string \<Rightarrow> string option" where
  "unquote_body [] = None"
| "unquote_body (c # s) =
     (if c = CHR 0x22 then (if s = [] then Some [] else None)
      else if c = CHR 0x0A then None
      else if c = CHR 0x5C
      then (case unescape s of
              None \<Rightarrow> None
            | Some (bs, r) \<Rightarrow> map_option (\<lambda>u. bs @ u) (unquote_body r))
      else if 128 \<le> (of_char c :: nat)
      then (let n = rune_size (c # s);
                bs = (if n = 1 then utf8_encode 0xFFFD else take n (c # s))
            in map_option (\<lambda>u. bs @ u) (unquote_body (drop n (c # s))))
      else map_option (\<lambda>u. c # u) (unquote_body s))"
  by pat_completeness auto
termination
proof (relation "measure length", goal_cases)
  case (2 c s x bs r)
  then show ?case using unescape_rest [of s bs r] by simp
next
  case (3 c s n bs)
  then show ?case using rune_size_pos [of "c # s"] by simp
qed auto

declare unquote_body.simps(2) [simp del]

text \<open>strconv.Unquote of a text put between double quotes.\<close>

definition Unquote :: "string \<Rightarrow> string option" where
  "Unquote raw = unquote_body (raw @ [CHR 0x22])"

lemma unquote_plain:
  "list_all (\<lambda>c. of_char c < (128 :: nat) \<and> c \<noteq> CHR 0x22 \<and> c \<noteq> CHR 0x5C \<and> c \<noteq> CHR 0x0A) s \<Longrightarrow> Unquote s = Some s"
proof -
  have "list_all (\<lambda>c. of_char c < (128 :: nat) \<and> c \<noteq> CHR 0x22 \<and> c \<noteq> CHR 0x5C \<and> c \<noteq> CHR 0x0A) s
    \<Longrightarrow> unquote_body (s @ [CHR 0x22]) = Some s"
    by (induction s) (auto simp: unquote_body.simps)
  then show "list_all (\<lambda>c. of_char c < (128 :: nat) \<and> c \<noteq> CHR 0x22 \<and> c \<noteq> CHR 0x5C \<and> c \<noteq> CHR 0x0A) s \<Longrightarrow> Unquote s = Some s"
    by (simp add: Unquote_def)
qed

end
