(* ===== verification/Parser.thy ===== *)
theory Parser
  imports Computations Lang_Ast Lexing Unquote Go_Paths
begin

text \<open>
  The parser (internal/lang/parse): recursive descent with one token of lookahead over the
  lexer, and recovery from errors. The functions of the code that call each other in circles are fields
  of a record \<open>q\<close>, with the fuel that is left; \<open>parser\<close> at the end ties the knot.
  A nil expression or type expression is \<open>NilE\<close> or \<open>NilT\<close>, any other nil pointer is None.
\<close>

section \<open>State and errors (parse.go, errors.go, errcode.go)\<close>

record ParseError =
  pe_Span :: TSpan
  pe_Code :: string
  pe_Msg :: string
  pe_Hint :: string
  pe_Got :: Kind
  pe_Want :: "Kind list"

record Parser =
  p_lex :: Lexer
  p_cur :: Token
  p_peek :: Token
  p_inCond :: bool
  p_errs :: "ParseError list"

type_synonym 'a parse = "('a, Parser) comp"

definition New_parser :: "Lexer \<Rightarrow> Parser" where
  "New_parser l =
     (let (c, l) = Next l; (k, l) = Next l
      in \<lparr>p_lex = l, p_cur = c, p_peek = k, p_inCond = False, p_errs = []\<rparr>)"

definition expectCode :: "Kind \<Rightarrow> string" where
  "expectCode k =
     (case k of
        K_LBrace \<Rightarrow> ''parse.ExpectedLBrace'' | K_RBrace \<Rightarrow> ''parse.ExpectedRBrace''
      | K_LParen \<Rightarrow> ''parse.ExpectedLParen'' | K_RParen \<Rightarrow> ''parse.ExpectedRParen''
      | K_RBrack \<Rightarrow> ''parse.ExpectedRBrack'' | K_Assign \<Rightarrow> ''parse.ExpectedAssign''
      | K_Colon \<Rightarrow> ''parse.ExpectedColon'' | K_String \<Rightarrow> ''parse.ExpectedString''
      | K_Ident \<Rightarrow> ''parse.ExpectedIdent'' | K_In \<Rightarrow> ''parse.ExpectedIn''
      | K_Else \<Rightarrow> ''parse.ExpectedElse'' | K_At \<Rightarrow> ''parse.ExpectedAt''
      | K_RInterp \<Rightarrow> ''parse.UnterminatedInterp'' | _ \<Rightarrow> ''parse.ExpectedToken'')"

text \<open>Kind.String.\<close>

definition kind_String :: "Kind \<Rightarrow> string" where
  "kind_String k =
     (case k of
        K_Illegal \<Rightarrow> ''Illegal'' | K_EOF \<Rightarrow> ''EOF'' | K_Semi \<Rightarrow> ''Semi'' | K_Ident \<Rightarrow> ''Ident'' | K_Int \<Rightarrow> ''Int''
      | K_String \<Rightarrow> ''String'' | K_StringBeg \<Rightarrow> ''StringBeg'' | K_StringCont \<Rightarrow> ''StringCont''
      | K_StringEnd \<Rightarrow> ''StringEnd'' | K_StringMulti \<Rightarrow> ''StringMulti'' | K_StringMultiBeg \<Rightarrow> ''StringMultiBeg''
      | K_StringMultiCont \<Rightarrow> ''StringMultiCont'' | K_StringMultiEnd \<Rightarrow> ''StringMultiEnd''
      | K_LInterp \<Rightarrow> ''LInterp'' | K_RInterp \<Rightarrow> ''RInterp'' | K_Module \<Rightarrow> ''Module'' | K_Import \<Rightarrow> ''Import''
      | K_Let \<Rightarrow> ''Let'' | K_Func \<Rightarrow> ''Func'' | K_Decl \<Rightarrow> ''Decl'' | K_Type \<Rightarrow> ''Type'' | K_Enum \<Rightarrow> ''Enum''
      | K_For \<Rightarrow> ''For'' | K_In \<Rightarrow> ''In'' | K_If \<Rightarrow> ''If'' | K_Else \<Rightarrow> ''Else'' | K_Return \<Rightarrow> ''Return''
      | K_True \<Rightarrow> ''True'' | K_False \<Rightarrow> ''False'' | K_None \<Rightarrow> ''None'' | K_Self \<Rightarrow> ''Self'' | K_Pub \<Rightarrow> ''Pub''
      | K_Plus \<Rightarrow> ''Plus'' | K_Minus \<Rightarrow> ''Minus'' | K_Star \<Rightarrow> ''Star'' | K_Slash \<Rightarrow> ''Slash''
      | K_Percent \<Rightarrow> ''Percent'' | K_Eq \<Rightarrow> ''Eq'' | K_Neq \<Rightarrow> ''Neq'' | K_Lt \<Rightarrow> ''Lt'' | K_Gt \<Rightarrow> ''Gt''
      | K_Leq \<Rightarrow> ''Leq'' | K_Geq \<Rightarrow> ''Geq'' | K_And \<Rightarrow> ''And'' | K_Or \<Rightarrow> ''Or'' | K_Not \<Rightarrow> ''Not''
      | K_Assign \<Rightarrow> ''Assign'' | K_Colon \<Rightarrow> ''Colon'' | K_Dot \<Rightarrow> ''Dot'' | K_Question \<Rightarrow> ''Question''
      | K_At \<Rightarrow> ''At'' | K_LBrace \<Rightarrow> ''LBrace'' | K_RBrace \<Rightarrow> ''RBrace'' | K_LBrack \<Rightarrow> ''LBrack''
      | K_RBrack \<Rightarrow> ''RBrack'' | K_LParen \<Rightarrow> ''LParen'' | K_RParen \<Rightarrow> ''RParen'' | K_Comma \<Rightarrow> ''Comma'')"

section \<open>Token stream helpers (parse.go)\<close>

definition tok_span :: "Token \<Rightarrow> TSpan" where
  "tok_span t = \<lparr>ts_Start = tok_Pos t, ts_End = tok_End t\<rparr>"

definition cur :: "Token parse" where
  "cur = gets p_cur"

definition kind :: "Kind parse" where
  "kind = gets (\<lambda>p. tok_Kind (p_cur p))"

text \<open>The current token and the one after it.\<close>

definition kinds :: "(Kind \<times> Kind) parse" where
  "kinds = gets (\<lambda>p. (tok_Kind (p_cur p), tok_Kind (p_peek p)))"

definition advance_tok :: "Token parse" where
  "advance_tok p =
     (let (t, l) = Next (p_lex p) in Done (p_cur p) (p\<lparr>p_cur := p_peek p, p_peek := t, p_lex := l\<rparr>))"

definition skip_tok :: "unit parse" where
  "skip_tok = ebind advance_tok (\<lambda>_. ret ())"

definition add_error :: "ParseError \<Rightarrow> unit parse" where
  "add_error e = modify (\<lambda>p. p\<lparr>p_errs := p_errs p @ [e]\<rparr>)"

definition expect :: "Kind \<Rightarrow> string \<Rightarrow> Token parse" where
  "expect k ctx =
     ebind cur (\<lambda>t.
       if tok_Kind t = k then advance_tok
       else
         ethen (add_error \<lparr>pe_Span = tok_span t, pe_Code = expectCode k,
                 pe_Msg = ''expected '' @ kind_String k @ '' in '' @ ctx, pe_Hint = [], pe_Got = tok_Kind t, pe_Want = [k]\<rparr>)
           (ret t))"

definition expect_only :: "Kind \<Rightarrow> string \<Rightarrow> unit parse" where
  "expect_only k ctx = ebind (expect k ctx) (\<lambda>_. ret ())"

definition errAt :: "TSpan \<Rightarrow> string \<Rightarrow> string \<Rightarrow> unit parse" where
  "errAt span code msg =
     add_error \<lparr>pe_Span = span, pe_Code = code, pe_Msg = msg, pe_Hint = [], pe_Got = K_Illegal, pe_Want = []\<rparr>"

text \<open>An error at the current token.\<close>

definition errHere :: "string \<Rightarrow> string \<Rightarrow> unit parse" where
  "errHere code msg = ebind cur (\<lambda>t. errAt (tok_span t) code msg)"

definition synchronize :: "nat \<Rightarrow> unit parse" where
  "synchronize n =
     eloop n (\<lambda>_. ebind kind (\<lambda>k.
       if k = K_EOF \<or> k = K_RBrace then ret (Inr ())
       else if k = K_Semi then ethen skip_tok (ret (Inr ()))
       else ethen skip_tok (ret (Inl ())))) ()"

text \<open>Skip the tokens of some kinds.\<close>

definition skip_kinds :: "nat \<Rightarrow> (Kind \<Rightarrow> bool) \<Rightarrow> unit parse" where
  "skip_kinds n want =
     eloop n (\<lambda>_. ebind kind (\<lambda>k. if want k then ethen skip_tok (ret (Inl ())) else ret (Inr ()))) ()"

definition skipSemis :: "nat \<Rightarrow> unit parse" where
  "skipSemis n = skip_kinds n (\<lambda>k. k = K_Semi)"

text \<open>Consume one token if it is of this kind.\<close>

definition skip_if :: "Kind \<Rightarrow> unit parse" where
  "skip_if k = ebind kind (\<lambda>k'. if k' = k then skip_tok else ret ())"

definition isDeclStart :: "Kind \<Rightarrow> bool" where
  "isDeclStart k \<longleftrightarrow> k \<in> {K_Type, K_Enum, K_Func, K_Decl, K_Let, K_Pub}"

text \<open>The source, and the part of it that a token covers; offsets are less than its length (Lexing.tokens_in_order).\<close>

definition source :: "string parse" where
  "source = gets (\<lambda>p. lx_src (p_lex p))"

definition slice :: "string \<Rightarrow> nat \<Rightarrow> nat \<Rightarrow> string" where
  "slice src a b = take (b - a) (drop a src)"

definition text_of :: "Token \<Rightarrow> string parse" where
  "text_of t = ebind source (\<lambda>src. ret (slice src (unat (tok_Pos t)) (unat (tok_End t))))"

primrec line_start :: "string \<Rightarrow> nat \<Rightarrow> nat" where
  "line_start src 0 = 0"
| "line_start src (Suc i) = (if src ! i = newline then Suc i else line_start src i)"

lemma line_start_le: "line_start src i \<le> i"
  by (induction i) auto

definition is_indent :: "char \<Rightarrow> bool" where
  "is_indent c \<longleftrightarrow> c = CHR '' '' \<or> c = CHR 0x09"

function doc_lines :: "string \<Rightarrow> nat \<Rightarrow> string list \<Rightarrow> string list" where
  "doc_lines src c acc =
     (if c = 0 then acc
      else
        (let prevStart = line_start src (c - 1);
             trimmed = dropWhile is_indent (slice src prevStart (c - 1))
         in if \<not> HasPrefix trimmed ''//'' then acc
            else doc_lines src prevStart (TrimPrefix (TrimPrefix trimmed ''//'') '' '' # acc)))"
  by pat_completeness auto
termination
proof (relation "measure (\<lambda>(src, c, acc). c)", goal_cases)
  case (2 src c acc p t)
  then show ?case using line_start_le [of src "c - 1"] by simp
qed simp

declare doc_lines.simps [simp del]

definition docCommentBefore :: "string \<Rightarrow> u32 \<Rightarrow> string" where
  "docCommentBefore src pos =
     (if length src < unat pos then []
      else strings_Join [newline] (doc_lines src (line_start src (unat pos)) []))"

definition closingIndent :: "string \<Rightarrow> u32 \<Rightarrow> string" where
  "closingIndent src closeEnd =
     (let line = slice src (line_start src (unat closeEnd)) (unat closeEnd)
      in if list_all is_indent line then line else [])"

definition parseInt :: "string \<Rightarrow> 64 word \<times> num_error option" where
  "parseInt raw =
     (if 2 < length raw \<and> (take 2 raw = ''0x'' \<or> take 2 raw = ''0X'') then strconv_ParseInt 16 (drop 2 raw)
      else if 2 < length raw \<and> (take 2 raw = ''0b'' \<or> take 2 raw = ''0B'') then strconv_ParseInt 2 (drop 2 raw)
      else if 2 < length raw \<and> (take 2 raw = ''0o'' \<or> take 2 raw = ''0O'') then strconv_ParseInt 8 (drop 2 raw)
      else strconv_ParseInt 10 raw)"

section \<open>Names\<close>

record ParseRec =
  q_binary :: "int \<Rightarrow> Expr parse"
  q_unary :: "Expr parse"
  q_stmt :: "Stmt option parse"
  q_if :: "Stmt option parse"
  q_type :: "TypeExpr parse"
  q_fuel :: nat

definition parseIdent :: "string \<Rightarrow> Ident option parse" where
  "parseIdent ctx =
     ebind kind (\<lambda>k.
       if k \<noteq> K_Ident then ethen (expect_only K_Ident ctx) (ret None)
       else
         ebind advance_tok (\<lambda>t. ebind (text_of t) (\<lambda>name.
           ret (Some \<lparr>id_Name = name, id_Span = tok_span t\<rparr>))))"

text \<open>The span from the start of one node to the end of another.\<close>

definition span_to :: "u32 \<Rightarrow> u32 \<Rightarrow> TSpan" where
  "span_to a b = \<lparr>ts_Start = a, ts_End = b\<rparr>"

definition parseDottedName :: "ParseRec \<Rightarrow> string \<Rightarrow> DottedName option parse" where
  "parseDottedName q ctx =
     ebind (parseIdent ctx) (\<lambda>f.
       case f of
         None \<Rightarrow> ret None
       | Some first \<Rightarrow>
           ebind
             (eloop (q_fuel q) (\<lambda>parts. ebind kind (\<lambda>k.
                if k \<noteq> K_Dot then ret (Inr parts)
                else
                  ethen skip_tok (ebind (parseIdent ''dotted name'') (\<lambda>n.
                    ret (case n of None \<Rightarrow> Inr parts | Some i \<Rightarrow> Inl (parts @ [i])))))) [first])
             (\<lambda>parts. ret (Some \<lparr>dn_Parts = parts,
                dn_Span = span_to (ts_Start (id_Span first)) (ts_End (id_Span (last parts)))\<rparr>)))"

section \<open>Type expressions (types.go)\<close>

fun type_Span :: "TypeExpr \<Rightarrow> TSpan" where
  "type_Span NilT = no_span"
| "type_Span (NamedType _ s) = s"
| "type_Span (GenericType _ _ s) = s"
| "type_Span (OptionalType _ s) = s"

definition type_args :: "ParseRec \<Rightarrow> TypeExpr list parse" where
  "type_args q =
     eloop (q_fuel q) (\<lambda>args. ebind kind (\<lambda>k.
       if k = K_RBrack \<or> k = K_EOF then ret (Inr args)
       else if k = K_Comma then ethen skip_tok (ret (Inl args))
       else ebind (q_type q) (\<lambda>a. ret (if a = NilT then Inr args else Inl (args @ [a]))))) []"

definition parseTypeExpr :: "ParseRec \<Rightarrow> TypeExpr parse" where
  "parseTypeExpr q =
     ebind (parseDottedName q ''type name'') (\<lambda>n.
       case n of
         None \<Rightarrow> ret NilT
       | Some name \<Rightarrow>
           (let start = ts_Start (dn_Span name)
            in ebind kind (\<lambda>k.
                 ebind
                   (if k = K_LBrack
                    then
                      ethen (if length (dn_Parts name) \<noteq> 1
                             then errAt (dn_Span name) ''parse.GenericOnDotted''
                                    ''generic arguments only valid on simple type names''
                             else ret ())
                        (ethen skip_tok (ebind (type_args q) (\<lambda>args. ebind (expect K_RBrack ''generic type'') (\<lambda>e.
                           ret (GenericType (hd (dn_Parts name)) args (span_to start (tok_End e)))))))
                    else ret (NamedType name (dn_Span name)))
                   (\<lambda>t. ebind kind (\<lambda>k.
                      if k = K_Question
                      then ebind advance_tok (\<lambda>e. ret (OptionalType t (span_to start (tok_End e))))
                      else ret t)))))"

section \<open>Expressions (expr.go)\<close>

definition parseExpr :: "ParseRec \<Rightarrow> Expr parse" where
  "parseExpr q = q_binary q 0"

text \<open>An expression inside a condition, where a brace starts the body.\<close>

definition with_cond :: "'a parse \<Rightarrow> 'a parse" where
  "with_cond m =
     ebind (gets p_inCond) (\<lambda>prev.
       ethen (modify (\<lambda>p. p\<lparr>p_inCond := True\<rparr>))
         (ebind m (\<lambda>x. ethen (modify (\<lambda>p. p\<lparr>p_inCond := prev\<rparr>)) (ret x))))"

definition binaryPrec :: "Kind \<Rightarrow> int" where
  "binaryPrec k =
     (case k of
        K_Or \<Rightarrow> 1 | K_And \<Rightarrow> 2
      | K_Eq \<Rightarrow> 3 | K_Neq \<Rightarrow> 3 | K_Lt \<Rightarrow> 3 | K_Gt \<Rightarrow> 3 | K_Leq \<Rightarrow> 3 | K_Geq \<Rightarrow> 3
      | K_In \<Rightarrow> 4 | K_Plus \<Rightarrow> 5 | K_Minus \<Rightarrow> 5 | K_Star \<Rightarrow> 6 | K_Slash \<Rightarrow> 6 | K_Percent \<Rightarrow> 6
      | _ \<Rightarrow> -1)"

definition expr_start :: "Expr \<Rightarrow> u32" where
  "expr_start e = ts_Start (expr_Span e)"

definition expr_end :: "Expr \<Rightarrow> u32" where
  "expr_end e = ts_End (expr_Span e)"

definition parseBinary :: "ParseRec \<Rightarrow> int \<Rightarrow> Expr parse" where
  "parseBinary q minPrec =
     ebind (q_unary q) (\<lambda>left.
       if left = NilE then ret NilE
       else
         eloop (q_fuel q) (\<lambda>left. ebind kind (\<lambda>k.
           if binaryPrec k < minPrec then ret (Inr left)
           else
             ethen skip_tok (ebind (q_binary q (binaryPrec k + 1)) (\<lambda>right.
               ret (if right = NilE then Inr left
                    else Inl (BinaryExpr k left right (span_to (expr_start left) (expr_end right)))))))) left)"

definition parseCallArgs :: "ParseRec \<Rightarrow> CallArg list parse" where
  "parseCallArgs q =
     eloop (q_fuel q) (\<lambda>args. ebind kinds (\<lambda>(k, pk).
       if k = K_RParen \<or> k = K_EOF then ret (Inr args)
       else if k = K_Comma \<or> k = K_Semi then ethen skip_tok (ret (Inl args))
       else if k = K_Ident \<and> pk = K_Assign
       then
         ebind (parseIdent ''keyword argument'') (\<lambda>name. ethen skip_tok (ebind (parseExpr q) (\<lambda>val.
           ret (Inl (if name \<noteq> None \<and> val \<noteq> NilE then args @ [CallArg name val] else args)))))
       else
         ebind (parseExpr q) (\<lambda>a. ret (if a = NilE then Inr args else Inl (args @ [CallArg None a]))))) []"

definition parseBlock :: "ParseRec \<Rightarrow> Block parse" where
  "parseBlock q =
     ebind cur (\<lambda>start.
       ebind
         (eloop (q_fuel q) (\<lambda>stmts. ebind kind (\<lambda>k.
            if k = K_RBrace \<or> k = K_EOF then ret (Inr stmts)
            else if k = K_Semi then ethen skip_tok (ret (Inl stmts))
            else
              ebind (q_stmt q) (\<lambda>s.
                case s of
                  None \<Rightarrow> ethen (synchronize (q_fuel q)) (ret (Inl stmts))
                | Some st \<Rightarrow> ret (Inl (stmts @ [st]))))) [])
         (\<lambda>stmts. ebind cur (\<lambda>e. ret (Block stmts (span_to (tok_Pos start) (tok_End e))))))"

text \<open>The contents of a struct literal: field bindings and statements, in any order.\<close>

definition stmt_keyword :: "Kind \<Rightarrow> bool" where
  "stmt_keyword k \<longleftrightarrow> k = K_Let \<or> k = K_For \<or> k = K_If \<or> k = K_Return"

definition add_stmt :: "FieldInit list \<times> Stmt list \<Rightarrow> Stmt option \<Rightarrow> FieldInit list \<times> Stmt list" where
  "add_stmt acc s = (case s of None \<Rightarrow> acc | Some st \<Rightarrow> (fst acc, snd acc @ [st]))"

definition parseBlockContent :: "ParseRec \<Rightarrow> Kind \<Rightarrow> (FieldInit list \<times> Stmt list) parse" where
  "parseBlockContent q endk =
     eloop (q_fuel q) (\<lambda>acc. ebind kinds (\<lambda>(k, pk).
       if k = endk \<or> k = K_EOF then ret (Inr acc)
       else if k = K_Comma \<or> k = K_Semi then ethen skip_tok (ret (Inl acc))
       else if stmt_keyword k then ebind (q_stmt q) (\<lambda>s. ret (Inl (add_stmt acc s)))
       else if k = K_Ident \<and> pk = K_Assign
       then
         ebind (parseIdent ''field name'') (\<lambda>name. ethen (expect_only K_Assign ''field binding'')
           (ebind (parseExpr q) (\<lambda>val.
             ret (Inl (case name of
                         None \<Rightarrow> acc
                       | Some n \<Rightarrow>
                           if val = NilE then acc
                           else (fst acc @ [FieldInit n val (span_to (ts_Start (id_Span n)) (expr_end val))], snd acc))))))
       else ebind (q_stmt q) (\<lambda>s. ret (Inl (add_stmt acc s))))) ([], [])"

definition parseBlockExprBody :: "ParseRec \<Rightarrow> Expr \<Rightarrow> Expr parse" where
  "parseBlockExprBody q target =
     ethen skip_tok (ebind (parseBlock q) (\<lambda>body. ebind (expect K_RBrace ''block body'') (\<lambda>e.
       ret (BlockExpr target (Some body) (span_to (expr_start target) (tok_End e))))))"

definition canTakeStructLit :: "Expr \<Rightarrow> bool" where
  "canTakeStructLit x =
     (case x of IdentE _ \<Rightarrow> True | SelectorExpr _ _ _ \<Rightarrow> True | DottedNameE _ \<Rightarrow> True | _ \<Rightarrow> False)"

fun flattenSelector :: "Expr \<Rightarrow> Ident \<Rightarrow> Ident list option" where
  "flattenSelector (IdentE i) sel = Some [i, sel]"
| "flattenSelector (SelectorExpr x s _) sel = map_option (\<lambda>parts. parts @ [sel]) (flattenSelector x s)"
| "flattenSelector _ sel = None"

definition exprToTypeExpr :: "Expr \<Rightarrow> TypeExpr" where
  "exprToTypeExpr x =
     (case x of
        IdentE i \<Rightarrow> NamedType \<lparr>dn_Parts = [i], dn_Span = id_Span i\<rparr> (id_Span i)
      | DottedNameE d \<Rightarrow> NamedType d (dn_Span d)
      | SelectorExpr y sel _ \<Rightarrow>
          (case flattenSelector y sel of
             None \<Rightarrow> NilT
           | Some parts \<Rightarrow>
               (let s = span_to (ts_Start (id_Span (hd parts))) (ts_End (id_Span (last parts)))
                in NamedType \<lparr>dn_Parts = parts, dn_Span = s\<rparr> s))
      | _ \<Rightarrow> NilT)"

definition parseStructLitBody :: "ParseRec \<Rightarrow> Expr \<Rightarrow> Expr parse" where
  "parseStructLitBody q te =
     ethen skip_tok (ebind (parseBlockContent q K_RBrace) (\<lambda>(inits, body).
       ebind (expect K_RBrace ''struct/step literal body'') (\<lambda>e.
         ret (StructLit (exprToTypeExpr te) inits body (span_to (expr_start te) (tok_End e))))))"

definition is_call :: "Expr \<Rightarrow> bool" where
  "is_call x = (case x of CallExpr _ _ _ _ _ \<Rightarrow> True | _ \<Rightarrow> False)"

text \<open>One round of the loop of parsePostfix.\<close>

definition postfix_step :: "ParseRec \<Rightarrow> Expr \<Rightarrow> (Expr + Expr) parse" where
  "postfix_step q x =
     ebind kind (\<lambda>k.
       if k = K_Dot
       then
         ethen skip_tok (ebind (parseIdent ''selector'') (\<lambda>sel.
           ret (case sel of
                  None \<Rightarrow> Inr x
                | Some i \<Rightarrow> Inl (SelectorExpr x i (span_to (expr_start x) (ts_End (id_Span i)))))))
       else if k = K_LBrack
       then
         ethen skip_tok (ebind (parseExpr q) (\<lambda>idx. ebind (expect K_RBrack ''index expression'') (\<lambda>e.
           ret (Inl (IndexExpr x idx (span_to (expr_start x) (tok_End e)))))))
       else if k = K_LParen
       then
         ethen skip_tok (ebind (parseCallArgs q) (\<lambda>args. ebind (expect K_RParen ''call arguments'') (\<lambda>e.
           ret (Inl (CallExpr x args False [] (span_to (expr_start x) (tok_End e)))))))
       else if k = K_LBrace
       then
         ebind (gets p_inCond) (\<lambda>c.
           if c then ret (Inr x)
           else if is_call x then ebind (parseBlockExprBody q x) (\<lambda>y. ret (Inl y))
           else if \<not> canTakeStructLit x then ret (Inr x)
           else ebind (parseStructLitBody q x) (\<lambda>y. ret (Inl y)))
       else ret (Inr x))"

section \<open>Primary expressions\<close>

text \<open>The loop of parseInterpString: the parts so far and the end. After an interpolation comes more text.\<close>

definition interp_text :: "Token \<Rightarrow> StringPart parse" where
  "interp_text t = ebind (text_of t) (\<lambda>raw. ret (StringText raw (tok_span t)))"

definition interp_rest :: "StringPart list \<Rightarrow> u32 \<Rightarrow> (StringPart list \<times> u32 + StringPart list \<times> u32) parse" where
  "interp_rest parts e =
     ebind kind (\<lambda>k.
       if k = K_StringCont \<or> k = K_StringMultiCont
       then ebind advance_tok (\<lambda>t. ebind (interp_text t) (\<lambda>s. ret (Inl (parts @ [s], e))))
       else if k = K_StringEnd \<or> k = K_StringMultiEnd
       then ebind advance_tok (\<lambda>t. ebind (interp_text t) (\<lambda>s. ret (Inr (parts @ [s], tok_End t))))
       else
         ethen (errHere ''parse.UnterminatedInterp'' ''unterminated interpolated string'')
           (ret (Inr (parts, e))))"

definition interp_step :: "ParseRec \<Rightarrow> StringPart list \<times> u32 \<Rightarrow> (StringPart list \<times> u32 + StringPart list \<times> u32) parse" where
  "interp_step q acc =
     ebind cur (\<lambda>t.
       if tok_Kind t \<noteq> K_LInterp
       then ethen (errHere ''parse.UnterminatedInterp'' ''expected ${ in interpolated string'') (ret (Inr acc))
       else
         ethen skip_tok (ebind (parseExpr q) (\<lambda>e. ebind cur (\<lambda>r.
           if tok_Kind r \<noteq> K_RInterp then ethen (expect_only K_RInterp ''string interpolation'') (ret (Inr acc))
           else
             ethen skip_tok
               (interp_rest
                  (if e \<noteq> NilE then fst acc @ [StringInterp e (span_to (tok_Pos t) (tok_End r))] else fst acc)
                  (snd acc))))))"

definition parseInterpString :: "ParseRec \<Rightarrow> Expr parse" where
  "parseInterpString q =
     ebind advance_tok (\<lambda>beg. ebind (interp_text beg) (\<lambda>s.
       ebind (eloop (q_fuel q) (interp_step q) ([s], tok_End beg)) (\<lambda>(parts, e). ebind source (\<lambda>src.
         (let multi = (tok_Kind beg = K_StringMultiBeg)
          in ret (StringLit parts multi (if multi then closingIndent src e else []) (span_to (tok_Pos beg) e)))))))"

definition list_items :: "ParseRec \<Rightarrow> Expr \<Rightarrow> Expr list parse" where
  "list_items q first =
     eloop (q_fuel q) (\<lambda>items. ebind kind (\<lambda>k.
       if k = K_RBrack \<or> k = K_EOF then ret (Inr items)
       else if k = K_Comma \<or> k = K_Semi then ethen skip_tok (ret (Inl items))
       else ebind (parseExpr q) (\<lambda>x. ret (if x = NilE then Inr items else Inl (items @ [x]))))) [first]"

definition parseListOrComp :: "ParseRec \<Rightarrow> Expr parse" where
  "parseListOrComp q =
     ebind advance_tok (\<lambda>t.
       let start = tok_Pos t
       in ebind kind (\<lambda>k.
         if k = K_RBrack then ebind advance_tok (\<lambda>e. ret (ListLit [] (span_to start (tok_End e))))
         else
           ebind (parseExpr q) (\<lambda>first. ebind kind (\<lambda>k.
             if k = K_For
             then
               ethen skip_tok (ebind (parseIdent ''comprehension variable'') (\<lambda>v.
                 ethen (expect_only K_In ''list comprehension'') (ebind (parseExpr q) (\<lambda>it. ebind kind (\<lambda>k.
                   ebind (if k = K_If then ethen skip_tok (parseExpr q) else ret NilE) (\<lambda>cnd.
                     ebind (expect K_RBrack ''list comprehension'') (\<lambda>e.
                       ret (ListComp first v it cnd (span_to start (tok_End e))))))))))
             else
               ebind (list_items q first) (\<lambda>items. ebind (expect K_RBrack ''list literal'') (\<lambda>e.
                 ret (ListLit items (span_to start (tok_End e)))))))))"

definition finishStructLit :: "ParseRec \<Rightarrow> u32 \<Rightarrow> TypeExpr \<Rightarrow> Expr parse" where
  "finishStructLit q start t =
     ebind (parseBlockContent q K_RBrace) (\<lambda>(inits, body). ebind (expect K_RBrace ''type literal'') (\<lambda>e.
       ret (StructLit t inits body (span_to start (tok_End e)))))"

definition map_entries :: "ParseRec \<Rightarrow> (Expr \<times> Expr) list parse" where
  "map_entries q =
     eloop (q_fuel q) (\<lambda>entries. ebind kind (\<lambda>k.
       if k = K_RBrace \<or> k = K_EOF then ret (Inr entries)
       else if k = K_Comma \<or> k = K_Semi then ethen skip_tok (ret (Inl entries))
       else
         ebind (parseExpr q) (\<lambda>key.
           if key = NilE then ret (Inr entries)
           else
             ethen (expect_only K_Colon ''map entry'') (ebind (parseExpr q) (\<lambda>v.
               ret (if v = NilE then Inr entries else Inl (entries @ [(key, v)]))))))) []"

definition finishMapLit :: "ParseRec \<Rightarrow> u32 \<Rightarrow> Expr parse" where
  "finishMapLit q start =
     ebind (map_entries q) (\<lambda>entries. ebind (expect K_RBrace ''map literal'') (\<lambda>e.
       ret (MapLit entries (span_to start (tok_End e)))))"

definition parseBraceExpr :: "ParseRec \<Rightarrow> Expr parse" where
  "parseBraceExpr q =
     ebind advance_tok (\<lambda>t. ebind kind (\<lambda>k.
       if k = K_RBrace then ebind advance_tok (\<lambda>e. ret (MapLit [] (span_to (tok_Pos t) (tok_End e))))
       else
         ethen (skipSemis (q_fuel q)) (ebind kinds (\<lambda>(k, pk).
           if k = K_Ident \<and> pk = K_Assign then finishStructLit q (tok_Pos t) NilT
           else finishMapLit q (tok_Pos t)))))"

definition parseIfExpr :: "ParseRec \<Rightarrow> Expr parse" where
  "parseIfExpr q =
     ebind advance_tok (\<lambda>t. ebind (with_cond (parseExpr q)) (\<lambda>cnd.
       ethen (expect_only K_LBrace ''if expression'') (ebind (parseExpr q) (\<lambda>th.
         ethen (expect_only K_RBrace ''if expression'') (ethen (expect_only K_Else ''if expression'')
           (ethen (expect_only K_LBrace ''if expression'') (ebind (parseExpr q) (\<lambda>el.
             ebind (expect K_RBrace ''if expression'') (\<lambda>e.
               ret (IfExpr cnd th el (span_to (tok_Pos t) (tok_End e))))))))))))"

definition parseParen :: "ParseRec \<Rightarrow> Expr parse" where
  "parseParen q =
     ebind advance_tok (\<lambda>t. ebind (parseExpr q) (\<lambda>e. ebind (expect K_RParen ''parenthesized expression'') (\<lambda>r.
       ret (ParenExpr e (span_to (tok_Pos t) (tok_End r))))))"

text \<open>A literal of one token.\<close>

definition literal :: "(Token \<Rightarrow> string \<Rightarrow> string \<Rightarrow> Expr) \<Rightarrow> Expr parse" where
  "literal mk = ebind advance_tok (\<lambda>t. ebind (text_of t) (\<lambda>raw. ebind source (\<lambda>src. ret (mk t raw src))))"

definition parsePrimary :: "ParseRec \<Rightarrow> Expr parse" where
  "parsePrimary q =
     ebind cur (\<lambda>tok.
       case tok_Kind tok of
         K_Int \<Rightarrow> literal (\<lambda>t raw src. IntLit (fst (parseInt raw)) raw (tok_span t))
       | K_String \<Rightarrow> literal (\<lambda>t raw src. StringLit [StringText raw (tok_span t)] False [] (tok_span t))
       | K_StringMulti \<Rightarrow>
           literal (\<lambda>t raw src. StringLit [StringText raw (tok_span t)] True (closingIndent src (tok_End t)) (tok_span t))
       | K_StringBeg \<Rightarrow> parseInterpString q
       | K_StringMultiBeg \<Rightarrow> parseInterpString q
       | K_True \<Rightarrow> literal (\<lambda>t raw src. BoolLit True (tok_span t))
       | K_False \<Rightarrow> literal (\<lambda>t raw src. BoolLit False (tok_span t))
       | K_None \<Rightarrow> literal (\<lambda>t raw src. NoneLit (tok_span t))
       | K_Self \<Rightarrow> literal (\<lambda>t raw src. SelfLit (tok_span t))
       | K_Ident \<Rightarrow> ebind (parseIdent ''expression'') (\<lambda>i. ret (case i of Some n \<Rightarrow> IdentE n | None \<Rightarrow> NilE))
       | K_LParen \<Rightarrow> parseParen q
       | K_LBrack \<Rightarrow> parseListOrComp q
       | K_LBrace \<Rightarrow> parseBraceExpr q
       | K_If \<Rightarrow> parseIfExpr q
       | k \<Rightarrow>
           ethen (errAt (tok_span tok) ''parse.ExpectedExpr'' (''expected expression, got '' @ kind_String k))
             (ethen skip_tok (ret NilE)))"

definition parsePostfix :: "ParseRec \<Rightarrow> Expr parse" where
  "parsePostfix q = ebind (parsePrimary q) (\<lambda>x. if x = NilE then ret NilE else eloop (q_fuel q) (postfix_step q) x)"

definition parseUnary :: "ParseRec \<Rightarrow> Expr parse" where
  "parseUnary q =
     ebind cur (\<lambda>t.
       if tok_Kind t = K_Not \<or> tok_Kind t = K_Minus
       then
         ethen skip_tok (ebind (q_unary q) (\<lambda>x.
           ret (if x = NilE then NilE else UnaryExpr (tok_Kind t) x (span_to (tok_Pos t) (expr_end x)))))
       else parsePostfix q)"

section \<open>Declarations (decl.go)\<close>

text \<open>One argument of an attribute; the loop over them keeps the positional and the named ones.\<close>

definition attr_arg :: "ParseRec \<Rightarrow> bool \<Rightarrow> Expr list \<times> AttrArg list \<Rightarrow> (Expr list \<times> AttrArg list) parse" where
  "attr_arg q named acc =
     (if named
      then
        ebind (parseIdent ''attribute argument name'') (\<lambda>an.
          ethen (expect_only K_Assign ''attribute argument value'') (ebind (parseExpr q) (\<lambda>val.
            ret (case an of
                   None \<Rightarrow> acc
                 | Some i \<Rightarrow>
                     if val = NilE then acc
                     else (fst acc, snd acc @ [\<lparr>aa_Name = i, aa_Value = val,
                             aa_Span = span_to (ts_Start (id_Span i)) (expr_end val)\<rparr>])))))
      else
        ebind (parseExpr q) (\<lambda>val. ret (if val = NilE then acc else (fst acc @ [val], snd acc))))"

definition attr_args :: "ParseRec \<Rightarrow> (Expr list \<times> AttrArg list) parse" where
  "attr_args q =
     eloop (q_fuel q) (\<lambda>acc. ethen (skipSemis (q_fuel q)) (ebind kinds (\<lambda>(k, pk).
       if k = K_RParen \<or> k = K_EOF then ret (Inr acc)
       else
         ebind (attr_arg q (k = K_Ident \<and> pk = K_Assign) acc) (\<lambda>acc. ebind kind (\<lambda>k.
           if k = K_Comma \<or> k = K_Semi then ethen skip_tok (ret (Inl acc)) else ret (Inr acc)))))) ([], [])"

definition parseAttribute :: "ParseRec \<Rightarrow> Attribute option parse" where
  "parseAttribute q =
     ebind (expect K_At ''attribute'') (\<lambda>a. ebind (parseDottedName q ''attribute name'') (\<lambda>n.
       case n of
         None \<Rightarrow> ret None
       | Some name \<Rightarrow>
           (let attr = (\<lambda>pos named e. Some \<lparr>at_Name = name, at_Positionals = pos, at_Named = named,
                          at_Span = span_to (tok_Pos a) e\<rparr>)
            in ebind kind (\<lambda>k.
              if k \<noteq> K_LParen then ret (attr [] [] (ts_End (dn_Span name)))
              else
                ethen skip_tok (ebind kind (\<lambda>k.
                  if k = K_RParen then ebind advance_tok (\<lambda>e. ret (attr [] [] (tok_End e)))
                  else
                    ebind (attr_args q) (\<lambda>(pos, named). ebind (expect K_RParen ''attribute argument list'') (\<lambda>e.
                      ret (attr pos named (tok_End e))))))))))"

definition parseAttributes :: "ParseRec \<Rightarrow> Attribute list parse" where
  "parseAttributes q =
     eloop (q_fuel q) (\<lambda>attrs. ebind kind (\<lambda>k.
       if k \<noteq> K_At then ret (Inr attrs)
       else
         ebind (parseAttribute q) (\<lambda>a.
           case a of
             None \<Rightarrow> ethen skip_tok (ret (Inl attrs))
           | Some at \<Rightarrow>
               ethen (skip_kinds (q_fuel q) (\<lambda>k. k = K_Semi \<or> k = K_Comma)) (ret (Inl (attrs @ [at])))))) []"

definition parseField :: "ParseRec \<Rightarrow> Field option parse" where
  "parseField q =
     ebind (parseIdent ''field name'') (\<lambda>n.
       case n of
         None \<Rightarrow> ret None
       | Some name \<Rightarrow>
           ethen (expect_only K_Colon ''field type annotation'') (ebind (q_type q) (\<lambda>t.
             if t = NilT then ret None
             else
               ebind kind (\<lambda>k. ebind (if k = K_Assign then ethen skip_tok (parseExpr q) else ret NilE) (\<lambda>def.
                 ret (Some \<lparr>fd_Name = name, fd_Type = t, fd_Default = def, fd_Attributes = [],
                   fd_Span = span_to (ts_Start (id_Span name))
                     (if def \<noteq> NilE then expr_end def else ts_End (type_Span t))\<rparr>))))))"

text \<open>The attributes become part of the field, and its span starts with the first of them.\<close>

definition with_attributes :: "Attribute list \<Rightarrow> Field \<Rightarrow> Field" where
  "with_attributes attrs f =
     f\<lparr>fd_Attributes := attrs,
       fd_Span := (if attrs = [] then fd_Span f else (fd_Span f)\<lparr>ts_Start := ts_Start (at_Span (hd attrs))\<rparr>)\<rparr>"

definition field_loop :: "ParseRec \<Rightarrow> Kind \<Rightarrow> unit parse \<Rightarrow> Field list parse" where
  "field_loop q endk recover =
     eloop (q_fuel q) (\<lambda>fs. ebind kind (\<lambda>k.
       if k = endk \<or> k = K_EOF then ret (Inr fs)
       else if k = K_Semi \<or> k = K_Comma then ethen skip_tok (ret (Inl fs))
       else
         ebind (parseAttributes q) (\<lambda>attrs. ebind (parseField q) (\<lambda>f.
           case f of
             None \<Rightarrow> ethen recover (ret (Inl fs))
           | Some fd \<Rightarrow> ret (Inl (fs @ [with_attributes attrs fd])))))) []"

definition parseFields :: "ParseRec \<Rightarrow> Kind \<Rightarrow> Field list parse" where
  "parseFields q endk = field_loop q endk (synchronize (q_fuel q))"

definition parseParams :: "ParseRec \<Rightarrow> Kind \<Rightarrow> Field list parse" where
  "parseParams q endk = field_loop q endk (skip_kinds (q_fuel q) (\<lambda>k. k \<noteq> K_Comma \<and> k \<noteq> endk \<and> k \<noteq> K_EOF))"

text \<open>The name of a declaration; without one the parser skips to the end of the statement.\<close>

definition decl_name :: "ParseRec \<Rightarrow> 'n option parse \<Rightarrow> ('n \<Rightarrow> 'd option parse) \<Rightarrow> 'd option parse" where
  "decl_name q name k =
     ebind name (\<lambda>n. case n of None \<Rightarrow> ethen (synchronize (q_fuel q)) (ret None) | Some x \<Rightarrow> k x)"

definition parseModule :: "ParseRec \<Rightarrow> ModuleDecl option parse" where
  "parseModule q =
     ebind advance_tok (\<lambda>t. decl_name q (parseIdent ''module name'') (\<lambda>name.
       ethen (skip_if K_Semi)
         (ret (Some \<lparr>md_Name = name, md_Span = span_to (tok_Pos t) (ts_End (id_Span name))\<rparr>))))"

definition parseImport :: "ParseRec \<Rightarrow> ImportDecl option parse" where
  "parseImport q =
     ebind advance_tok (\<lambda>t. ebind kind (\<lambda>k.
       if k \<noteq> K_String
       then ethen (expect_only K_String ''import'') (ethen (synchronize (q_fuel q)) (ret None))
       else
         ebind advance_tok (\<lambda>path. ebind (text_of path) (\<lambda>raw.
           ethen (skip_if K_Semi)
             (ret (Some \<lparr>im_Path = (case Unquote raw of Some s \<Rightarrow> s | None \<Rightarrow> raw),
                im_Span = span_to (tok_Pos t) (tok_End path)\<rparr>))))))"

definition parseAttrTypeDecl :: "ParseRec \<Rightarrow> u32 \<Rightarrow> Decl option parse" where
  "parseAttrTypeDecl q start =
     ebind source (\<lambda>src. ethen skip_tok (decl_name q (parseIdent ''attribute type name'') (\<lambda>name.
       ethen (expect_only K_LBrace ''attribute type body'') (ebind (parseFields q K_RBrace) (\<lambda>fs.
         ebind (expect K_RBrace ''attribute type body'') (\<lambda>e. ethen (skip_if K_Semi)
           (ret (Some (AttrTypeDecl name fs (docCommentBefore src start) (span_to start (tok_End e)))))))))))"

text \<open>A nil attribute type declaration is returned as a declaration, which makes an interface that is not nil.\<close>

definition parseTypeDecl :: "ParseRec \<Rightarrow> Decl option parse" where
  "parseTypeDecl q =
     ebind advance_tok (\<lambda>t. ebind kind (\<lambda>k.
       if k = K_At
       then ebind (parseAttrTypeDecl q (tok_Pos t)) (\<lambda>d. ret (Some (case d of Some d \<Rightarrow> d | None \<Rightarrow> NilDecl)))
       else
         decl_name q (parseIdent ''type name'') (\<lambda>name. ebind kind (\<lambda>k.
           if k \<noteq> K_LBrace
           then ethen (skip_if K_Semi)
                  (ret (Some (TypeDecl name None False (span_to (tok_Pos t) (ts_End (id_Span name))))))
           else
             ethen (expect_only K_LBrace ''type body'') (ebind (parseFields q K_RBrace) (\<lambda>fs.
               ebind (expect K_RBrace ''type body'') (\<lambda>e. ethen (skip_if K_Semi)
                 (ret (Some (TypeDecl name (Some fs) False (span_to (tok_Pos t) (tok_End e))))))))))))"

definition enum_variants :: "ParseRec \<Rightarrow> Ident list parse" where
  "enum_variants q =
     eloop (q_fuel q) (\<lambda>vs. ebind kind (\<lambda>k.
       if k = K_RBrace \<or> k = K_EOF then ret (Inr vs)
       else if k = K_Semi then ethen skip_tok (ret (Inl vs))
       else
         ebind (parseIdent ''enum variant'') (\<lambda>v.
           case v of
             None \<Rightarrow> ethen (synchronize (q_fuel q)) (ret (Inl vs))
           | Some i \<Rightarrow> ethen (skip_if K_Comma) (ret (Inl (vs @ [i])))))) []"

definition parseEnumDecl :: "ParseRec \<Rightarrow> Decl option parse" where
  "parseEnumDecl q =
     ebind advance_tok (\<lambda>t. decl_name q (parseIdent ''enum name'') (\<lambda>name.
       ethen (expect_only K_LBrace ''enum body'') (ebind (enum_variants q) (\<lambda>vs.
         ebind (expect K_RBrace ''enum body'') (\<lambda>e. ethen (skip_if K_Semi)
           (ret (Some (EnumDecl name vs False (span_to (tok_Pos t) (tok_End e))))))))))"

text \<open>A body in braces, if one follows: with where it ends.\<close>

definition optional_body :: "ParseRec \<Rightarrow> string \<Rightarrow> u32 \<Rightarrow> (Block option \<times> u32) parse" where
  "optional_body q ctx e =
     ebind kind (\<lambda>k.
       if k = K_LBrace
       then ethen skip_tok (ebind (parseBlock q) (\<lambda>body. ebind (expect K_RBrace ctx) (\<lambda>t. ret (Some body, tok_End t))))
       else ret (None, e))"

definition parseFuncDecl :: "ParseRec \<Rightarrow> Decl option parse" where
  "parseFuncDecl q =
     ebind advance_tok (\<lambda>t. decl_name q (parseIdent ''function name'') (\<lambda>name.
       ethen (expect_only K_LParen ''function parameters'') (ebind (parseParams q K_RParen) (\<lambda>params.
         ethen (expect_only K_RParen ''function parameters'') (ebind (q_type q) (\<lambda>rt. ebind cur (\<lambda>c.
           ebind (optional_body q ''function body'' (if rt = NilT then tok_End c else ts_End (type_Span rt)))
             (\<lambda>(body, e). ethen (skip_if K_Semi)
               (ret (Some (FuncDecl name params rt body False (span_to (tok_Pos t) e))))))))))))"

definition parseDeclDecl :: "ParseRec \<Rightarrow> Decl option parse" where
  "parseDeclDecl q =
     ebind advance_tok (\<lambda>t. decl_name q (parseDottedName q ''decl name'') (\<lambda>name.
       ethen (expect_only K_LParen ''decl parameters'') (ebind (parseParams q K_RParen) (\<lambda>params.
         ethen (expect_only K_RParen ''decl parameters'') (ebind kind (\<lambda>k.
           ebind (if k \<noteq> K_LBrace \<and> k \<noteq> K_Semi \<and> k \<noteq> K_EOF then q_type q else ret NilT) (\<lambda>rt. ebind cur (\<lambda>c.
             ebind (optional_body q ''decl body'' (tok_End c))
               (\<lambda>(body, e). ethen (skip_if K_Semi)
                 (ret (Some (DeclDecl name params rt body False (span_to (tok_Pos t) e)))))))))))))"

definition parseLetDecl :: "ParseRec \<Rightarrow> LetDecl option parse" where
  "parseLetDecl q =
     ebind advance_tok (\<lambda>t. decl_name q (parseIdent ''let binding name'') (\<lambda>name. ebind kind (\<lambda>k.
       ebind (if k = K_Colon then ethen skip_tok (q_type q) else ret NilT) (\<lambda>typ.
         ethen (expect_only K_Assign ''let binding'') (ebind (parseExpr q) (\<lambda>v.
           if v = NilE then ethen (synchronize (q_fuel q)) (ret None)
           else
             ebind cur (\<lambda>c. ethen (skip_if K_Semi)
               (ret (Some (LetDecl name typ v False
                  (span_to (tok_Pos t) (if tok_Kind c = K_Semi then tok_End c else expr_end v))))))))))))"

definition isDeclKeyword :: "Kind \<Rightarrow> bool" where
  "isDeclKeyword k \<longleftrightarrow> k \<in> {K_Type, K_Enum, K_Func, K_Decl, K_Let}"

definition setPublic :: "Decl \<Rightarrow> Decl" where
  "setPublic d =
     (case d of
        TypeDecl n fs _ s \<Rightarrow> TypeDecl n fs True s
      | EnumDecl n vs _ s \<Rightarrow> EnumDecl n vs True s
      | FuncDecl n ps rt b _ s \<Rightarrow> FuncDecl n ps rt b True s
      | DeclDecl n ps rt b _ s \<Rightarrow> DeclDecl n ps rt b True s
      | LetD (LetDecl n t v _ s) \<Rightarrow> LetD (LetDecl n t v True s)
      | _ \<Rightarrow> d)"

definition parseDecl :: "ParseRec \<Rightarrow> Decl option parse" where
  "parseDecl q =
     ebind kind (\<lambda>k.
       let pub = (k = K_Pub)
       in ethen (if pub then skip_tok else ret ()) (ebind cur (\<lambda>t.
         if pub \<and> \<not> isDeclKeyword (tok_Kind t)
         then ethen (errAt (tok_span t) ''parse.UnexpectedPub'' ''pub must be followed by let, func, decl, type, or enum'')
                (ret None)
         else
           ebind
             (case tok_Kind t of
                K_Type \<Rightarrow> parseTypeDecl q
              | K_Enum \<Rightarrow> parseEnumDecl q
              | K_Func \<Rightarrow> parseFuncDecl q
              | K_Decl \<Rightarrow> parseDeclDecl q
              | K_Let \<Rightarrow> ebind (parseLetDecl q) (\<lambda>d. ret (map_option LetD d))
              | j \<Rightarrow>
                  ethen (errAt (tok_span t) ''parse.UnexpectedToken'' (''unexpected token: '' @ kind_String j))
                    (ethen skip_tok (ret None)))
             (\<lambda>d. ret (if pub then map_option setPublic d else d)))))"

section \<open>Statements (stmt.go)\<close>

definition isAssignable :: "Expr \<Rightarrow> bool" where
  "isAssignable e = (case e of IndexExpr _ _ _ \<Rightarrow> True | SelectorExpr _ _ _ \<Rightarrow> True | _ \<Rightarrow> False)"

definition parseForStmt :: "ParseRec \<Rightarrow> Stmt option parse" where
  "parseForStmt q =
     ebind advance_tok (\<lambda>t. ebind (parseIdent ''for-loop variable'') (\<lambda>v.
       case v of
         None \<Rightarrow> ret None
       | Some i \<Rightarrow>
           ethen (expect_only K_In ''for-loop'') (ebind (with_cond (parseExpr q)) (\<lambda>it.
             if it = NilE then ret None
             else
               ethen (expect_only K_LBrace ''for-loop body'') (ebind (parseBlock q) (\<lambda>body.
                 ebind (expect K_RBrace ''for-loop body'') (\<lambda>e. ethen (skip_if K_Semi)
                   (ret (Some (ForStmt i it (Some body) (span_to (tok_Pos t) (tok_End e))))))))))))"

text \<open>An else branch: a block, or another if statement whose span the code reads even where it is nil. With
  where it ends.\<close>

definition else_branch :: "ParseRec \<Rightarrow> u32 \<Rightarrow> (Block option \<times> u32) parse" where
  "else_branch q e =
     ebind kind (\<lambda>k.
       if k \<noteq> K_Else then ret (None, e)
       else
         ethen skip_tok (ebind kind (\<lambda>k.
           if k = K_If
           then
             ebind (q_if q) (\<lambda>inner.
               case inner of
                 None \<Rightarrow> epanic ''nil pointer dereference''
               | Some st \<Rightarrow> ret (Some (Block [st] (stmt_Span st)), ts_End (stmt_Span st)))
           else
             ethen (expect_only K_LBrace ''else body'') (ebind (parseBlock q) (\<lambda>b.
               ebind (expect K_RBrace ''else body'') (\<lambda>t. ret (Some b, tok_End t)))))))"

definition parseIfStmt :: "ParseRec \<Rightarrow> Stmt option parse" where
  "parseIfStmt q =
     ebind advance_tok (\<lambda>t. ebind (with_cond (parseExpr q)) (\<lambda>cnd.
       if cnd = NilE then ret None
       else
         ethen (expect_only K_LBrace ''if body'') (ebind (parseBlock q) (\<lambda>th.
           ebind (expect K_RBrace ''if body'') (\<lambda>r. ebind (else_branch q (tok_End r)) (\<lambda>(el, e).
             ethen (skip_if K_Semi)
               (ret (Some (IfStmt cnd (Some th) el (span_to (tok_Pos t) e))))))))))"

definition parseReturnStmt :: "ParseRec \<Rightarrow> Stmt parse" where
  "parseReturnStmt q =
     ebind advance_tok (\<lambda>t. ebind kind (\<lambda>k.
       ebind (if k \<noteq> K_Semi \<and> k \<noteq> K_RBrace \<and> k \<noteq> K_EOF then parseExpr q else ret NilE) (\<lambda>v. ebind cur (\<lambda>c.
         ethen (skip_if K_Semi)
           (ret (ReturnStmt v (span_to (tok_Pos t)
              (if tok_Kind c = K_Semi then tok_End c
               else if v \<noteq> NilE then expr_end v else tok_Pos t + 6))))))))"

text \<open>A nil for or if statement is returned as a statement.\<close>

definition typed_nil :: "Stmt option parse \<Rightarrow> Stmt option parse" where
  "typed_nil m = ebind m (\<lambda>s. ret (Some (case s of Some st \<Rightarrow> st | None \<Rightarrow> NilStmt)))"

definition parseStmt :: "ParseRec \<Rightarrow> Stmt option parse" where
  "parseStmt q =
     ebind kind (\<lambda>k.
       case k of
         K_Let \<Rightarrow> ebind (parseLetDecl q) (\<lambda>d. ret (map_option LetStmt d))
       | K_For \<Rightarrow> typed_nil (parseForStmt q)
       | K_If \<Rightarrow> typed_nil (q_if q)
       | K_Return \<Rightarrow> ebind (parseReturnStmt q) (\<lambda>s. ret (Some s))
       | _ \<Rightarrow>
           ebind (parseExpr q) (\<lambda>e.
             if e = NilE then ret None
             else
               ebind kind (\<lambda>k.
                 if k \<noteq> K_Assign then ethen (skip_if K_Semi) (ret (Some (ExprStmt e)))
                 else
                   ethen skip_tok (ebind (parseExpr q) (\<lambda>val.
                     if val = NilE then ret None
                     else
                       ethen (if isAssignable e then ret ()
                              else errAt (expr_Span e) ''parse.NotAssignable'' ''left side of assignment is not assignable'')
                         (ebind cur (\<lambda>c. ethen (skip_if K_Semi)
                           (ret (Some (AssignStmt e val (span_to (expr_start e)
                              (if tok_Kind c = K_Semi then tok_End c else expr_end val))))))))))))"

section \<open>A file\<close>

primrec parser :: "nat \<Rightarrow> ParseRec" where
  "parser 0 = \<lparr>q_binary = \<lambda>_. efuel, q_unary = efuel, q_stmt = efuel, q_if = efuel, q_type = efuel, q_fuel = 0\<rparr>"
| "parser (Suc n) =
     \<lparr>q_binary = parseBinary (parser n), q_unary = parseUnary (parser n), q_stmt = parseStmt (parser n),
      q_if = parseIfStmt (parser n), q_type = parseTypeExpr (parser n), q_fuel = Suc n\<rparr>"

text \<open>One round of the loop of Parse.\<close>

definition file_step :: "ParseRec \<Rightarrow> File \<Rightarrow> (File + File) parse" where
  "file_step q f =
     ebind kind (\<lambda>k.
       if k = K_EOF then ret (Inr f)
       else if k = K_Semi then ethen skip_tok (ret (Inl f))
       else if k = K_Import
       then ebind (parseImport q) (\<lambda>d. ret (Inl (case d of None \<Rightarrow> f | Some i \<Rightarrow> f\<lparr>fl_Imports := fl_Imports f @ [i]\<rparr>)))
       else if isDeclStart k
       then ebind (parseDecl q) (\<lambda>d. ret (Inl (case d of None \<Rightarrow> f | Some d \<Rightarrow> f\<lparr>fl_Decls := fl_Decls f @ [d]\<rparr>)))
       else ebind (q_stmt q) (\<lambda>s. ret (Inl (case s of None \<Rightarrow> f | Some st \<Rightarrow> f\<lparr>fl_Stmts := fl_Stmts f @ [st]\<rparr>))))"

definition Parse :: "ParseRec \<Rightarrow> File parse" where
  "Parse q =
     ebind cur (\<lambda>start. ebind (gets (\<lambda>p. lx_name (p_lex p))) (\<lambda>name.
       ethen (skipSemis (q_fuel q)) (ebind kind (\<lambda>k.
         ebind
           (if k = K_Module then parseModule q
            else
              ethen (errHere ''parse.MissingModuleDecl''
                       ''every file must start with a module declaration (e.g. module main)'')
                (ret None))
           (\<lambda>m. ebind
              (eloop (q_fuel q) (file_step q)
                \<lparr>fl_Name = name, fl_Module = m, fl_Imports = [], fl_Decls = [], fl_Stmts = [], fl_Span = no_span\<rparr>)
              (\<lambda>f. ebind cur (\<lambda>e. ret (f\<lparr>fl_Span := span_to (tok_Pos start) (tok_End e)\<rparr>))))))))"

text \<open>Lexing and parsing a source; the fuel is enough for every source, as \<open>parsing_ends\<close> shows.\<close>

definition parse_fuel :: "string \<Rightarrow> nat" where
  "parse_fuel src = 9 * length src + 20"

definition parse_source :: "string \<Rightarrow> string \<Rightarrow> (File, Parser) outcome" where
  "parse_source name src = Parse (parser (parse_fuel src)) (New_parser (New name src))"

end
