(* ===== verification/Parsing.thy ===== *)
theory Parsing
  imports Parser
begin

text \<open>
  Parsing always ends, at the end of the source, and a parse without errors leaves no nil in the
  tree. Both follow from one description of each function of the parser: it loses no token and
  no error, consumes at least so many tokens, and returns nil only with an error.
\<close>

section \<open>Trees without nil\<close>

fun ok_type :: "TypeExpr \<Rightarrow> bool" where
  "ok_type NilT \<longleftrightarrow> False"
| "ok_type (NamedType n _) \<longleftrightarrow> dn_Parts n \<noteq> []"
| "ok_type (GenericType _ args _) \<longleftrightarrow> list_all ok_type args"
| "ok_type (OptionalType t _) \<longleftrightarrow> ok_type t"

text \<open>Optional parts may be nil: the type of a literal and of a let, the condition of a comprehension, the
  value of a return. No map comprehension is ever built, and only index and selector expressions are assigned to.\<close>

fun ok_expr :: "Expr \<Rightarrow> bool" and ok_part :: "StringPart \<Rightarrow> bool" and ok_init :: "FieldInit \<Rightarrow> bool"
  and ok_arg :: "CallArg \<Rightarrow> bool" and ok_let :: "LetDecl \<Rightarrow> bool" and ok_stmt :: "Stmt \<Rightarrow> bool"
  and ok_block :: "Block \<Rightarrow> bool" where
  "ok_expr NilE \<longleftrightarrow> False"
| "ok_expr (IdentE _) \<longleftrightarrow> True"
| "ok_expr (DottedNameE n) \<longleftrightarrow> dn_Parts n \<noteq> []"
| "ok_expr (ParenExpr x _) \<longleftrightarrow> ok_expr x"
| "ok_expr (IntLit _ _ _) \<longleftrightarrow> True"
| "ok_expr (StringLit parts _ _ _) \<longleftrightarrow> list_all ok_part parts"
| "ok_expr (BoolLit _ _) \<longleftrightarrow> True"
| "ok_expr (NoneLit _) \<longleftrightarrow> True"
| "ok_expr (SelfLit _) \<longleftrightarrow> True"
| "ok_expr (ListLit xs _) \<longleftrightarrow> list_all ok_expr xs"
| "ok_expr (MapLit es _) \<longleftrightarrow> list_all (\<lambda>e. ok_expr (fst e) \<and> ok_expr (snd e)) es"
| "ok_expr (StructLit t inits body _) \<longleftrightarrow> (t = NilT \<or> ok_type t) \<and> list_all ok_init inits \<and> list_all ok_stmt body"
| "ok_expr (BlockExpr x b _) \<longleftrightarrow> ok_expr x \<and> (case b of None \<Rightarrow> False | Some b \<Rightarrow> ok_block b)"
| "ok_expr (CallExpr f args _ _ _) \<longleftrightarrow> ok_expr f \<and> list_all ok_arg args"
| "ok_expr (SelectorExpr x _ _) \<longleftrightarrow> ok_expr x"
| "ok_expr (IndexExpr x i _) \<longleftrightarrow> ok_expr x \<and> ok_expr i"
| "ok_expr (BinaryExpr _ l r _) \<longleftrightarrow> ok_expr l \<and> ok_expr r"
| "ok_expr (UnaryExpr _ x _) \<longleftrightarrow> ok_expr x"
| "ok_expr (IfExpr c t e _) \<longleftrightarrow> ok_expr c \<and> ok_expr t \<and> ok_expr e"
| "ok_expr (ListComp x v it c _) \<longleftrightarrow> ok_expr x \<and> v \<noteq> None \<and> ok_expr it \<and> (c = NilE \<or> ok_expr c)"
| "ok_expr (MapComp _ _ _ _ _ _) \<longleftrightarrow> False"
| "ok_part (StringText _ _) \<longleftrightarrow> True"
| "ok_part (StringInterp x _) \<longleftrightarrow> ok_expr x"
| "ok_init (FieldInit _ x _) \<longleftrightarrow> ok_expr x"
| "ok_arg (CallArg _ x) \<longleftrightarrow> ok_expr x"
| "ok_let (LetDecl _ t x _ _) \<longleftrightarrow> (t = NilT \<or> ok_type t) \<and> ok_expr x"
| "ok_stmt (LetStmt d) \<longleftrightarrow> ok_let d"
| "ok_stmt (ForStmt _ it b _) \<longleftrightarrow> ok_expr it \<and> (case b of None \<Rightarrow> False | Some b \<Rightarrow> ok_block b)"
| "ok_stmt (IfStmt c t e _) \<longleftrightarrow>
     ok_expr c \<and> (case t of None \<Rightarrow> False | Some b \<Rightarrow> ok_block b) \<and> (case e of None \<Rightarrow> True | Some b \<Rightarrow> ok_block b)"
| "ok_stmt (ReturnStmt x _) \<longleftrightarrow> x = NilE \<or> ok_expr x"
| "ok_stmt (ExprStmt x) \<longleftrightarrow> ok_expr x"
| "ok_stmt (AssignStmt t x _) \<longleftrightarrow> ok_expr t \<and> isAssignable t \<and> ok_expr x"
| "ok_stmt NilStmt \<longleftrightarrow> False"
| "ok_block (Block sts _) \<longleftrightarrow> list_all ok_stmt sts"

definition ok_attr :: "Attribute \<Rightarrow> bool" where
  "ok_attr a \<longleftrightarrow> dn_Parts (at_Name a) \<noteq> [] \<and> list_all ok_expr (at_Positionals a)
     \<and> list_all (\<lambda>n. ok_expr (aa_Value n)) (at_Named a)"

definition ok_field :: "Field \<Rightarrow> bool" where
  "ok_field f \<longleftrightarrow> ok_type (fd_Type f) \<and> (fd_Default f = NilE \<or> ok_expr (fd_Default f)) \<and> list_all ok_attr (fd_Attributes f)"

fun ok_decl :: "Decl \<Rightarrow> bool" where
  "ok_decl (TypeDecl _ fs _ _) \<longleftrightarrow> (case fs of None \<Rightarrow> True | Some fs \<Rightarrow> list_all ok_field fs)"
| "ok_decl (AttrTypeDecl _ fs _ _) \<longleftrightarrow> list_all ok_field fs"
| "ok_decl (EnumDecl _ _ _ _) \<longleftrightarrow> True"
| "ok_decl (FuncDecl _ ps rt b _ _) \<longleftrightarrow>
     list_all ok_field ps \<and> ok_type rt \<and> (case b of None \<Rightarrow> True | Some b \<Rightarrow> ok_block b)"
| "ok_decl (DeclDecl n ps rt b _ _) \<longleftrightarrow> dn_Parts n \<noteq> [] \<and>
     list_all ok_field ps \<and> (rt = NilT \<or> ok_type rt) \<and> (case b of None \<Rightarrow> True | Some b \<Rightarrow> ok_block b)"
| "ok_decl (LetD d) \<longleftrightarrow> ok_let d"
| "ok_decl NilDecl \<longleftrightarrow> False"

definition ok_file :: "File \<Rightarrow> bool" where
  "ok_file f \<longleftrightarrow> fl_Module f \<noteq> None \<and> list_all ok_decl (fl_Decls f) \<and> list_all ok_stmt (fl_Stmts f)"

section \<open>Tokens left\<close>

definition p_ok :: "Parser \<Rightarrow> bool" where
  "p_ok p \<longleftrightarrow> lex_ok (p_lex p) \<and> (tok_Kind (p_cur p) = K_EOF \<longrightarrow> tok_Kind (p_peek p) = K_EOF)
     \<and> (tok_Kind (p_peek p) = K_EOF \<longrightarrow> ended (p_lex p))"

definition left :: "Parser \<Rightarrow> nat" where
  "left p = (if tok_Kind (p_cur p) = K_EOF then 0 else 1) + (if tok_Kind (p_peek p) = K_EOF then 0 else 1)
     + (if ended (p_lex p) then 0 else fuel_left (p_lex p))"

lemma left_0: "p_ok p \<Longrightarrow> left p = 0 \<longleftrightarrow> tok_Kind (p_cur p) = K_EOF"
  by (auto simp: p_ok_def left_def)

lemma p_frame [simp]:
  "p_ok (p\<lparr>p_errs := es\<rparr>) = p_ok p" "left (p\<lparr>p_errs := es\<rparr>) = left p"
  "p_ok (p\<lparr>p_inCond := b\<rparr>) = p_ok p" "left (p\<lparr>p_inCond := b\<rparr>) = left p"
  by (simp_all add: p_ok_def left_def)

text \<open>What is known after a function; \<open>c\<close> tells whether it consumed a token, if there was one.\<close>

definition after :: "bool \<Rightarrow> Parser \<Rightarrow> Parser \<Rightarrow> bool" where
  "after c p p' \<longleftrightarrow> p_ok p' \<and> left p' \<le> left p \<and> (c \<longrightarrow> tok_Kind (p_cur p) \<noteq> K_EOF \<longrightarrow> left p' < left p)
     \<and> lx_src (p_lex p') = lx_src (p_lex p)
     \<and> (left p' = left p \<longrightarrow> tok_Kind (p_cur p') = tok_Kind (p_cur p))"

lemma left_pos: "p_ok p \<Longrightarrow> tok_Kind (p_cur p) \<noteq> K_EOF \<Longrightarrow> 0 < left p"
  using left_0 by blast

lemma after_refl: "p_ok p \<Longrightarrow> after False p p"
  by (simp add: after_def)

lemma after_trans: "after c p q \<Longrightarrow> after d q r \<Longrightarrow> after (c \<or> d) p r"
  unfolding after_def by (metis le_antisym le_trans linorder_not_less not_less_iff_gr_or_eq)

lemma after_ok: "after c p p' \<Longrightarrow> p_ok p'"
  by (simp add: after_def)

lemma after_weaken: "after c p q \<Longrightarrow> (d \<Longrightarrow> tok_Kind (p_cur p) \<noteq> K_EOF \<Longrightarrow> c) \<Longrightarrow> after d p q"
  unfolding after_def by blast

section \<open>Weakest preconditions\<close>

definition wp :: "'a parse \<Rightarrow> ('a \<Rightarrow> Parser \<Rightarrow> bool) \<Rightarrow> Parser \<Rightarrow> bool" where
  "wp m Q p \<longleftrightarrow>
     (case m p of Done x p' \<Rightarrow> Q x p' | Panic msg \<Rightarrow> msg = ''nil pointer dereference'' | NoFuel \<Rightarrow> False)"

lemma wp_mono: "wp m Q p \<Longrightarrow> (\<And>x p'. Q x p' \<Longrightarrow> R x p') \<Longrightarrow> wp m R p"
  by (auto simp: wp_def split: outcome.splits)

lemma wp_bind: "wp (ebind m f) Q p = wp m (\<lambda>x. wp (f x) Q) p"
  by (simp add: wp_def ebind_def split: outcome.split)

text \<open>
  A function that is called in a state \<open>p\<close>, reached from \<open>p0\<close>: what it leaves may depend on whether a token was
  consumed since.
\<close>

definition V :: "Parser \<Rightarrow> bool \<Rightarrow> 'a parse \<Rightarrow> (bool \<Rightarrow> 'a \<Rightarrow> Parser \<Rightarrow> bool) \<Rightarrow> Parser \<Rightarrow> bool" where
  "V p0 d m Q p \<longleftrightarrow> after d p0 p \<longrightarrow> wp m (\<lambda>x p'. \<exists>d'. after d' p0 p' \<and> (p_errs p' = [] \<longrightarrow> p_errs p = []) \<and> Q d' x p') p"

named_theorems V_rules \<open>what functions of the parser establish\<close>

text \<open>What a function establishes: it consumes a token if \<open>C\<close> holds of its result, and the result satisfies \<open>J\<close> where there is no error.\<close>

definition spec :: "('a \<Rightarrow> bool) \<Rightarrow> ('a \<Rightarrow> bool) \<Rightarrow> 'a parse \<Rightarrow> Parser \<Rightarrow> bool" where
  "spec C J m p \<longleftrightarrow>
     wp m (\<lambda>x p'. after (C x) p p' \<and> (p_errs p' = [] \<longrightarrow> p_errs p = []) \<and> (p_errs p' = [] \<longrightarrow> J x)) p"

lemma V_bind [V_rules]: "V p0 d m (\<lambda>d' x p'. V p0 d' (f x) Q p') p \<Longrightarrow> V p0 d (ebind m f) Q p"
  unfolding V_def wp_bind by (fastforce elim!: wp_mono)

lemma V_then [V_rules]: "V p0 d u (\<lambda>d' x p'. V p0 d' k Q p') p \<Longrightarrow> V p0 d (ethen u k) Q p"
  unfolding ethen_def by (rule V_bind)

lemma V_ret [V_rules]: "Q d x p \<Longrightarrow> V p0 d (ret x) Q p"
  unfolding V_def wp_def by auto

lemma V_gets [V_rules]: "Q d (g p) p \<Longrightarrow> V p0 d (gets g) Q p"
  unfolding V_def wp_def by auto

lemma V_panic [V_rules]: "V p0 d (epanic ''nil pointer dereference'') Q p"
  unfolding V_def wp_def by simp

lemma V_inCond [V_rules]: "Q d () (p\<lparr>p_inCond := b\<rparr>) \<Longrightarrow> V p0 d (modify (\<lambda>p. p\<lparr>p_inCond := b\<rparr>)) Q p"
  unfolding V_def wp_def by (auto simp: after_def intro!: exI [of _ d])

lemma V_error [V_rules]: "Q d () (p\<lparr>p_errs := p_errs p @ [e]\<rparr>) \<Longrightarrow> V p0 d (add_error e) Q p"
  unfolding V_def wp_def add_error_def by (auto simp: after_def intro!: exI [of _ d])

lemma V_case [simp]:
  "V p0 d (if b then m else k) Q p = (if b then V p0 d m Q p else V p0 d k Q p)"
  "V p0 d (case v of None \<Rightarrow> m | Some x \<Rightarrow> f x) Q p = (case v of None \<Rightarrow> V p0 d m Q p | Some x \<Rightarrow> V p0 d (f x) Q p)"
  "V p0 d (case w of (x, y) \<Rightarrow> g x y) Q p = (case w of (x, y) \<Rightarrow> V p0 d (g x y) Q p)"
  by (auto split: option.split prod.split)

lemma V_if [V_rules]: "(b \<Longrightarrow> V p0 d m Q p) \<Longrightarrow> (\<not> b \<Longrightarrow> V p0 d k Q p) \<Longrightarrow> V p0 d (if b then m else k) Q p"
  by simp

lemma V_option [V_rules]:
  "(v = None \<Longrightarrow> V p0 d m Q p) \<Longrightarrow> (\<And>x. v = Some x \<Longrightarrow> V p0 d (f x) Q p)
     \<Longrightarrow> V p0 d (case v of None \<Rightarrow> m | Some x \<Rightarrow> f x) Q p"
  by (cases v) auto

lemma V_pair [V_rules]: "(\<And>x y. w = (x, y) \<Longrightarrow> V p0 d (g x y) Q p) \<Longrightarrow> V p0 d (case w of (x, y) \<Rightarrow> g x y) Q p"
  by (cases w) auto

lemma V_use:
  assumes "p_ok p \<Longrightarrow> left p \<le> left p0 \<Longrightarrow> (d \<Longrightarrow> tok_Kind (p_cur p0) \<noteq> K_EOF \<Longrightarrow> left p < left p0) \<Longrightarrow> spec C J m p"
    and "\<And>x p'. (p_errs p' = [] \<Longrightarrow> p_errs p = []) \<Longrightarrow> (p_errs p' = [] \<Longrightarrow> J x) \<Longrightarrow> Q (d \<or> C x) x p'"
  shows "V p0 d m Q p"
  unfolding V_def
proof
  assume a: "after d p0 p"
  then have "spec C J m p" by (intro assms(1)) (auto simp: after_def)
  then show "wp m (\<lambda>x p'. \<exists>d'. after d' p0 p' \<and> (p_errs p' = [] \<longrightarrow> p_errs p = []) \<and> Q d' x p') p"
    unfolding spec_def
    by (rule wp_mono) (use after_trans [OF a] assms(2) in blast)
qed

lemma V_mono: "V p0 d m R p \<Longrightarrow> (\<And>d x p'. after d p0 p' \<Longrightarrow> R d x p' \<Longrightarrow> Q d x p') \<Longrightarrow> V p0 d m Q p"
  unfolding V_def by (blast intro: wp_mono)

lemma specI:
  assumes "p_ok p" and "V p False m (\<lambda>d x p'. (C x \<and> tok_Kind (p_cur p) \<noteq> K_EOF \<longrightarrow> d) \<and> (p_errs p' = [] \<longrightarrow> J x)) p"
  shows "spec C J m p"
  using assms(2) after_refl [OF assms(1)] unfolding V_def spec_def
  by (auto elim!: wp_mono intro: after_weaken)

lemma advance_spec: "p_ok p \<Longrightarrow> spec (\<lambda>_. True) (\<lambda>_. True) advance_tok p"
proof -
  assume ok: "p_ok p"
  obtain t l where n: "Next (p_lex p) = (t, l)" by fastforce
  let ?p = "p\<lparr>p_cur := p_peek p, p_peek := t, p_lex := l\<rparr>"
  have lex: "lex_ok (p_lex p)" using ok by (simp add: p_ok_def)
  note a = Next_advances [OF lex n, unfolded advances_def]
  have e: "ended (p_lex p) \<Longrightarrow> tok_Kind t = K_EOF \<and> l = p_lex p"
    using ended_Next [of "p_lex p"] n by simp
  have e': "tok_Kind t = K_EOF \<Longrightarrow> ended l" using a by (simp add: ended_def)
  have "after True p ?p"
    using ok a e e' unfolding after_def p_ok_def left_def by (auto split: if_splits)
  then show ?thesis using n by (simp add: spec_def wp_def advance_tok_def)
qed

lemmas [V_rules] = V_use [OF advance_spec]

text \<open>
  A loop whose rounds that go on consume a token; \<open>I\<close> holds for what it carries while there is no
  error, and a first round that leaves has consumed a token if \<open>c\<close> holds.
\<close>

lemma loop_spec:
  assumes "p_ok p" and "left p < n" and "p_errs p = [] \<Longrightarrow> I b"
    and step: "\<And>b p1 c1. p_ok p1 \<Longrightarrow> left p1 \<le> left p \<Longrightarrow> (p_errs p1 = [] \<Longrightarrow> I b)
      \<Longrightarrow> (c1 \<Longrightarrow> c \<and> tok_Kind (p_cur p1) = tok_Kind (p_cur p)) \<Longrightarrow>
      V p1 False (f b) (\<lambda>d r p2. case r of Inl b' \<Rightarrow> d \<and> tok_Kind (p_cur p1) \<noteq> K_EOF \<and> (p_errs p2 = [] \<longrightarrow> I b')
        | Inr x \<Rightarrow> (c1 \<and> tok_Kind (p_cur p1) \<noteq> K_EOF \<longrightarrow> d) \<and> (p_errs p2 = [] \<longrightarrow> J x)) p1"
  shows "spec (\<lambda>_. c) J (eloop n f b) p"
proof -
  have "spec (\<lambda>_. c1) J (eloop n f b) p1"
    if "p_ok p1" "left p1 \<le> left p" "left p1 < n" "p_errs p1 = [] \<Longrightarrow> I b"
      "c1 \<Longrightarrow> c \<and> tok_Kind (p_cur p1) = tok_Kind (p_cur p)" for p1 c1
    using that
  proof (induction n arbitrary: b p1 c1)
    case (Suc n)
    have "V p1 False (f b) (\<lambda>d r p2. case r of Inl b' \<Rightarrow> d \<and> tok_Kind (p_cur p1) \<noteq> K_EOF \<and> (p_errs p2 = [] \<longrightarrow> I b')
        | Inr x \<Rightarrow> (c1 \<and> tok_Kind (p_cur p1) \<noteq> K_EOF \<longrightarrow> d) \<and> (p_errs p2 = [] \<longrightarrow> J x)) p1"
      using Suc.prems by (intro step) auto
    then have "V p1 False (f b) (\<lambda>d r p2. V p1 d (case r of Inl b' \<Rightarrow> eloop n f b' | Inr x \<Rightarrow> ret x)
        (\<lambda>d x p'. (c1 \<and> tok_Kind (p_cur p1) \<noteq> K_EOF \<longrightarrow> d) \<and> (p_errs p' = [] \<longrightarrow> J x)) p2) p1"
    proof (rule V_mono)
      fix d r p2
      assume a: "after d p1 p2" and q: "case r of Inl b' \<Rightarrow> d \<and> tok_Kind (p_cur p1) \<noteq> K_EOF \<and> (p_errs p2 = [] \<longrightarrow> I b')
        | Inr x \<Rightarrow> (c1 \<and> tok_Kind (p_cur p1) \<noteq> K_EOF \<longrightarrow> d) \<and> (p_errs p2 = [] \<longrightarrow> J x)"
      show "V p1 d (case r of Inl b' \<Rightarrow> eloop n f b' | Inr x \<Rightarrow> ret x) (\<lambda>d x p'. (c1 \<and> tok_Kind (p_cur p1) \<noteq> K_EOF \<longrightarrow> d) \<and> (p_errs p' = [] \<longrightarrow> J x)) p2"
      proof (cases r)
        case (Inl b')
        have d: "d" "tok_Kind (p_cur p1) \<noteq> K_EOF" "p_errs p2 = [] \<Longrightarrow> I b'" using q Inl by auto
        have "left p2 < left p1" "p_ok p2" using a d by (auto simp: after_def)
        then have "spec (\<lambda>_. False) J (eloop n f b') p2"
          using d Suc.prems by (intro Suc.IH) auto
        then show ?thesis unfolding Inl sum.case by (rule V_use) (use d in auto)
      qed (use q in \<open>auto intro: V_ret\<close>)
    qed
    then have "V p1 False (eloop (Suc n) f b) (\<lambda>d x p'. (c1 \<and> tok_Kind (p_cur p1) \<noteq> K_EOF \<longrightarrow> d) \<and> (p_errs p' = [] \<longrightarrow> J x)) p1"
      unfolding eloop.simps by (rule V_bind)
    then show ?case using Suc.prems(1) by (intro specI)
  qed (simp add: spec_def wp_def)
  then show ?thesis using assms(1,2,3) by blast
qed

section \<open>Helpers\<close>

abbreviation consumes :: "('a \<Rightarrow> bool) \<Rightarrow> 'a parse \<Rightarrow> Parser \<Rightarrow> bool" where
  "consumes J m p \<equiv> spec (\<lambda>_. True) J m p"

abbreviation stays :: "('a \<Rightarrow> bool) \<Rightarrow> 'a parse \<Rightarrow> Parser \<Rightarrow> bool" where
  "stays J m p \<equiv> spec (\<lambda>_. False) J m p"

abbreviation consumes_unless :: "'a \<Rightarrow> ('a \<Rightarrow> bool) \<Rightarrow> 'a parse \<Rightarrow> Parser \<Rightarrow> bool" where
  "consumes_unless nil J m p \<equiv> spec (\<lambda>x. x \<noteq> nil) J m p"

lemmas cur_defs = cur_def kind_def kinds_def text_of_def source_def

lemma skip_tok_spec: "p_ok p \<Longrightarrow> consumes (\<lambda>_. True) skip_tok p"
  unfolding skip_tok_def by (rule specI) (auto intro!: V_rules)

lemmas [V_rules] = V_use [OF skip_tok_spec]

lemma errAt_spec: "p_ok p \<Longrightarrow> stays (\<lambda>_. False) (errAt span code msg) p"
  unfolding errAt_def by (rule specI) (auto intro!: V_rules)

lemmas [V_rules] = V_use [OF errAt_spec]

lemma errHere_spec: "p_ok p \<Longrightarrow> stays (\<lambda>_. False) (errHere code msg) p"
  unfolding errHere_def cur_def by (rule specI) (auto intro!: V_rules)

lemmas [V_rules] = V_use [OF errHere_spec]

text \<open>Without an error the token was the expected one.\<close>

lemma expect_spec: "p_ok p \<Longrightarrow> stays (\<lambda>_. tok_Kind (p_cur p) = k) (expect k ctx) p"
  unfolding expect_def cur_def by (rule specI) (auto intro!: V_rules)

lemmas [V_rules] = V_use [OF expect_spec]

lemma expect_only_spec: "p_ok p \<Longrightarrow> stays (\<lambda>_. tok_Kind (p_cur p) = k) (expect_only k ctx) p"
  unfolding expect_only_def by (rule specI) (auto intro!: V_rules)

lemmas [V_rules] = V_use [OF expect_only_spec]

text \<open>An attribute starts with its token.\<close>

lemma expect_consumes: "p_ok p \<Longrightarrow> tok_Kind (p_cur p) = k \<Longrightarrow> consumes (\<lambda>_. True) (expect k ctx) p"
  unfolding expect_def cur_def by (rule specI) (auto intro!: V_rules)

lemma skip_if_spec: "p_ok p \<Longrightarrow> stays (\<lambda>_. True) (skip_if k) p"
  unfolding skip_if_def kind_def by (rule specI) (auto intro!: V_rules)

lemmas [V_rules] = V_use [OF skip_if_spec]

lemma skip_kinds_spec:
  "p_ok p \<Longrightarrow> left p < n \<Longrightarrow> \<not> want K_EOF
     \<Longrightarrow> spec (\<lambda>_. want (tok_Kind (p_cur p))) (\<lambda>_. True) (skip_kinds n want) p"
  unfolding skip_kinds_def kind_def
  by (rule loop_spec [where I = "\<lambda>_. True"]) (auto intro!: V_rules)

lemmas [V_rules] = V_use [OF skip_kinds_spec]

lemma skipSemis_spec: "p_ok p \<Longrightarrow> left p < n \<Longrightarrow> stays (\<lambda>_. True) (skipSemis n) p"
  unfolding skipSemis_def by (rule specI) (auto intro!: V_rules dest: )

lemmas [V_rules] = V_use [OF skipSemis_spec]

lemma synchronize_spec:
  "p_ok p \<Longrightarrow> left p < n \<Longrightarrow> spec (\<lambda>_. tok_Kind (p_cur p) \<noteq> K_RBrace) (\<lambda>_. True) (synchronize n) p"
  unfolding synchronize_def kind_def
  by (rule loop_spec [where I = "\<lambda>_. True"]) (auto intro!: V_rules)

lemmas [V_rules] = V_use [OF synchronize_spec]

lemma parseIdent_spec: "p_ok p \<Longrightarrow> consumes_unless None (\<lambda>i. i \<noteq> None) (parseIdent ctx) p"
  unfolding parseIdent_def cur_defs by (rule specI) (auto intro!: V_rules)

lemmas [V_rules] = V_use [OF parseIdent_spec]

section \<open>Recursive calls\<close>

text \<open>
  Each token costs at most three levels of recursion: a statement calls an expression, an expression its
  operand, and only these calls consume no token first.
\<close>

definition opt_ok :: "('a \<Rightarrow> bool) \<Rightarrow> 'a option \<Rightarrow> bool" where
  "opt_ok J x \<longleftrightarrow> (case x of None \<Rightarrow> False | Some y \<Rightarrow> J y)"

lemma opt_ok_simps [simp]: "opt_ok J (Some y) = J y" "\<not> opt_ok J None"
  by (simp_all add: opt_ok_def)

definition q_ok :: "ParseRec \<Rightarrow> bool" where
  "q_ok q \<longleftrightarrow>
     (\<forall>p. p_ok p \<longrightarrow> 3 * left p + 1 \<le> q_fuel q \<longrightarrow> consumes ok_expr (q_unary q) p)
   \<and> (\<forall>p mp. p_ok p \<longrightarrow> 0 \<le> mp \<longrightarrow> 3 * left p + 2 \<le> q_fuel q \<longrightarrow> consumes ok_expr (q_binary q mp) p)
   \<and> (\<forall>p. p_ok p \<longrightarrow> 3 * left p + 3 \<le> q_fuel q \<longrightarrow> consumes (opt_ok ok_stmt) (q_stmt q) p)
   \<and> (\<forall>p. p_ok p \<longrightarrow> tok_Kind (p_cur p) \<noteq> K_EOF \<longrightarrow> 3 * left p + 2 \<le> q_fuel q \<longrightarrow> consumes (opt_ok ok_stmt) (q_if q) p)
   \<and> (\<forall>p. p_ok p \<longrightarrow> 3 * left p + 2 \<le> q_fuel q \<longrightarrow> consumes_unless NilT ok_type (q_type q) p)"

lemma q_specs:
  assumes "q_ok q" and "p_ok p"
  shows "3 * left p + 1 \<le> q_fuel q \<Longrightarrow> consumes ok_expr (q_unary q) p"
    and "0 \<le> mp \<Longrightarrow> 3 * left p + 2 \<le> q_fuel q \<Longrightarrow> consumes ok_expr (q_binary q mp) p"
    and "3 * left p + 2 \<le> q_fuel q \<Longrightarrow> consumes ok_expr (parseExpr q) p"
    and "3 * left p + 3 \<le> q_fuel q \<Longrightarrow> consumes (opt_ok ok_stmt) (q_stmt q) p"
    and "tok_Kind (p_cur p) \<noteq> K_EOF \<Longrightarrow> 3 * left p + 2 \<le> q_fuel q \<Longrightarrow> consumes (opt_ok ok_stmt) (q_if q) p"
    and "3 * left p + 2 \<le> q_fuel q \<Longrightarrow> consumes_unless NilT ok_type (q_type q) p"
  using assms unfolding q_ok_def parseExpr_def by blast+

lemmas [V_rules] = V_use [OF q_specs(1)] V_use [OF q_specs(2)] V_use [OF q_specs(3)] V_use [OF q_specs(4)]
  V_use [OF q_specs(5)] V_use [OF q_specs(6)]

section \<open>Names and types\<close>

lemma opt_ok_not_None: "opt_ok J x \<Longrightarrow> x \<noteq> None"
  by (cases x) auto

lemma parts_loop:
  "p_ok p \<Longrightarrow> left p < n \<Longrightarrow> parts \<noteq> [] \<Longrightarrow>
     stays (\<lambda>parts. parts \<noteq> [])
       (eloop n (\<lambda>parts. ebind kind (\<lambda>k.
          if k \<noteq> K_Dot then ret (Inr parts)
          else ethen skip_tok (ebind (parseIdent ctx) (\<lambda>n. ret (case n of None \<Rightarrow> Inr parts | Some i \<Rightarrow> Inl (parts @ [i])))))) parts) p"
  unfolding kind_def
  by (rule loop_spec [where I = "\<lambda>parts. parts \<noteq> []"]) (auto intro!: V_rules split: option.split)

lemmas [V_rules] = V_use [OF parts_loop]

lemma parseDottedName_spec:
  "p_ok p \<Longrightarrow> left p < q_fuel q \<Longrightarrow> consumes_unless None (opt_ok (\<lambda>n. dn_Parts n \<noteq> [])) (parseDottedName q ctx) p"
  unfolding parseDottedName_def
  by (rule specI) (auto intro!: V_rules split: option.split)

lemmas [V_rules] = V_use [OF parseDottedName_spec]

lemma type_args_spec:
  "q_ok q \<Longrightarrow> p_ok p \<Longrightarrow> 3 * left p + 2 \<le> q_fuel q \<Longrightarrow> stays (list_all ok_type) (type_args q) p"
  unfolding type_args_def kind_def
  by (rule loop_spec [where I = "list_all ok_type"]) (auto intro!: V_rules )

lemmas [V_rules] = V_use [OF type_args_spec]

lemma parseDottedName_EOF:
  "tok_Kind (p_cur p) = K_EOF \<Longrightarrow> V p False (parseDottedName q ctx) (\<lambda>d x p'. x = None \<and> p_errs p' \<noteq> []) p"
  unfolding parseDottedName_def parseIdent_def cur_defs by (auto intro!: V_rules)

lemma parseTypeExpr_spec:
  assumes "q_ok q" and "p_ok p" and "3 * left p + 2 \<le> Suc (q_fuel q)"
  shows "consumes_unless NilT ok_type (parseTypeExpr q) p"
proof (cases "tok_Kind (p_cur p) = K_EOF")
  case True
  show ?thesis
    unfolding parseTypeExpr_def
    by (rule specI [OF assms(2)], rule V_bind, rule V_mono [OF parseDottedName_EOF [OF True]]) (auto intro!: V_rules)
next
  case False
  show ?thesis
    unfolding parseTypeExpr_def kind_def Let_def
    by (rule specI) (use assms False in \<open>auto intro!: V_rules split: option.split\<close>)
qed

section \<open>Expressions\<close>

lemma expr_spans [simp]: "ok_expr e \<Longrightarrow> e \<noteq> NilE" "ok_type t \<Longrightarrow> t \<noteq> NilT"
  by auto

lemma binaryPrec_EOF [simp]: "binaryPrec K_EOF = -1"
  by (simp add: binaryPrec_def)

lemma parseBinary_spec:
  assumes "q_ok q" and "p_ok p" and "0 \<le> mp" and "3 * left p + 2 \<le> Suc (q_fuel q)"
  shows "consumes ok_expr (parseBinary q mp) p"
proof -
  have rest: "stays ok_expr (eloop (q_fuel q) (\<lambda>left. ebind kind (\<lambda>k.
           if binaryPrec k < mp then ret (Inr left)
           else
             ethen skip_tok (ebind (q_binary q (binaryPrec k + 1)) (\<lambda>right.
               ret (if right = NilE then Inr left
                    else Inl (BinaryExpr k left right (span_to (expr_start left) (expr_end right)))))))) e) p1"
    if "p_ok p1" "left p1 \<le> left p" "p_errs p1 = [] \<Longrightarrow> ok_expr e" for e p1
    unfolding kind_def
    by (rule loop_spec [where I = ok_expr])
      (use that assms in \<open>auto intro!: V_rules \<close>)
  show ?thesis
    unfolding parseBinary_def
    by (rule specI) (use assms in \<open>auto intro!: V_rules V_use [OF rest] \<close>)
qed

lemma parseCallArgs_spec:
  "q_ok q \<Longrightarrow> p_ok p \<Longrightarrow> 3 * left p + 3 \<le> q_fuel q \<Longrightarrow> stays (list_all ok_arg) (parseCallArgs q) p"
  unfolding parseCallArgs_def kinds_def
  by (rule loop_spec [where I = "list_all ok_arg"]) (auto intro!: V_rules )

lemmas [V_rules] = V_use [OF parseCallArgs_spec]

lemma parseBlock_spec:
  assumes "q_ok q" and "p_ok p" and "3 * left p + 3 \<le> q_fuel q"
  shows "stays ok_block (parseBlock q) p"
proof -
  have rest: "stays (list_all ok_stmt) (eloop (q_fuel q) (\<lambda>stmts. ebind kind (\<lambda>k.
            if k = K_RBrace \<or> k = K_EOF then ret (Inr stmts)
            else if k = K_Semi then ethen skip_tok (ret (Inl stmts))
            else
              ebind (q_stmt q) (\<lambda>s.
                case s of
                  None \<Rightarrow> ethen (synchronize (q_fuel q)) (ret (Inl stmts))
                | Some st \<Rightarrow> ret (Inl (stmts @ [st]))))) []) p1"
    if "p_ok p1" "left p1 \<le> left p" for p1
    unfolding kind_def
    by (rule loop_spec [where I = "list_all ok_stmt"])
      (use that assms in \<open>auto intro!: V_rules split: option.split\<close>)
  show ?thesis
    unfolding parseBlock_def cur_def
    by (rule specI) (use assms in \<open>auto intro!: V_rules V_use [OF rest] \<close>)
qed

lemmas [V_rules] = V_use [OF parseBlock_spec]

lemma flatten_parts: "flattenSelector x sel = Some ps \<Longrightarrow> ps \<noteq> []"
  by (induction x sel arbitrary: ps rule: flattenSelector.induct) auto

lemma exprToTypeExpr_ok: "ok_expr x \<Longrightarrow> exprToTypeExpr x = NilT \<or> ok_type (exprToTypeExpr x)"
  by (cases x) (auto simp: exprToTypeExpr_def Let_def dest: flatten_parts split: option.split)

lemma add_stmt_ok [simp]:
  "list_all ok_init (fst (add_stmt acc s)) = list_all ok_init (fst acc)"
  "opt_ok ok_stmt s \<Longrightarrow> list_all ok_stmt (snd (add_stmt acc s)) = list_all ok_stmt (snd acc)"
  by (auto simp: add_stmt_def split: option.split)

definition ok_content :: "FieldInit list \<times> Stmt list \<Rightarrow> bool" where
  "ok_content acc \<longleftrightarrow> list_all ok_init (fst acc) \<and> list_all ok_stmt (snd acc)"

lemma parseBlockContent_spec:
  "q_ok q \<Longrightarrow> p_ok p \<Longrightarrow> 3 * left p + 3 \<le> q_fuel q \<Longrightarrow> stays ok_content (parseBlockContent q K_RBrace) p"
  unfolding parseBlockContent_def kinds_def
  by (rule loop_spec [where I = ok_content]) (auto intro!: V_rules simp: ok_content_def split: option.split)

lemmas [V_rules] = V_use [OF parseBlockContent_spec]

lemma body_specs:
  assumes "q_ok q" and "p_ok p" and "tok_Kind (p_cur p) \<noteq> K_EOF" and "3 * left p \<le> q_fuel q"
  shows "(p_errs p = [] \<Longrightarrow> ok_expr x) \<Longrightarrow> consumes ok_expr (parseBlockExprBody q x) p"
    and "(p_errs p = [] \<Longrightarrow> ok_expr x) \<Longrightarrow> consumes ok_expr (parseStructLitBody q x) p"
  unfolding parseBlockExprBody_def parseStructLitBody_def
  by (rule specI; use assms in \<open>auto intro!: V_rules simp: ok_content_def exprToTypeExpr_ok\<close>)+

lemmas [V_rules] = V_use [OF body_specs(1)] V_use [OF body_specs(2)]

text \<open>The rounds of the loop of parsePostfix: a selector, an index, a call, a body in braces.\<close>

abbreviation round_ok :: "('b \<Rightarrow> bool) \<Rightarrow> bool \<Rightarrow> ('b + 'b) \<Rightarrow> Parser \<Rightarrow> bool" where
  "round_ok I \<equiv> \<lambda>d r p'. case r of Inl x \<Rightarrow> d \<and> (p_errs p' = [] \<longrightarrow> I x) | Inr x \<Rightarrow> p_errs p' = [] \<longrightarrow> I x"

lemma postfix_selector:
  assumes "q_ok q" and "p_ok p" and "tok_Kind (p_cur p) = K_Dot" and "3 * left p \<le> q_fuel q" and "p_errs p = [] \<Longrightarrow> ok_expr x"
  shows "V p False (postfix_step q x) (round_ok ok_expr) p"
  unfolding postfix_step_def kind_def
  by (use assms in \<open>auto intro!: V_rules split: option.split\<close>)

lemma postfix_index:
  assumes "q_ok q" and "p_ok p" and "tok_Kind (p_cur p) = K_LBrack" and "3 * left p \<le> q_fuel q" and "p_errs p = [] \<Longrightarrow> ok_expr x"
  shows "V p False (postfix_step q x) (round_ok ok_expr) p"
  unfolding postfix_step_def kind_def
  by (use assms in \<open>auto intro!: V_rules split: option.split\<close>)

lemma postfix_call:
  assumes "q_ok q" and "p_ok p" and "tok_Kind (p_cur p) = K_LParen" and "3 * left p \<le> q_fuel q" and "p_errs p = [] \<Longrightarrow> ok_expr x"
  shows "V p False (postfix_step q x) (round_ok ok_expr) p"
  unfolding postfix_step_def kind_def
  by (use assms in \<open>auto intro!: V_rules split: option.split\<close>)

lemma postfix_brace:
  assumes "q_ok q" and "p_ok p" and "tok_Kind (p_cur p) = K_LBrace" and "3 * left p \<le> q_fuel q" and "p_errs p = [] \<Longrightarrow> ok_expr x"
  shows "V p False (postfix_step q x) (round_ok ok_expr) p"
  unfolding postfix_step_def kind_def
  by (use assms in \<open>auto intro!: V_rules split: option.split\<close>)

lemma postfix_other:
  assumes "tok_Kind (p_cur p) \<notin> {K_Dot, K_LBrack, K_LParen, K_LBrace}"
  shows "V p False (postfix_step q x) (\<lambda>d r p'. r = Inr x \<and> p' = p) p"
  unfolding postfix_step_def kind_def
  by (use assms in \<open>auto intro!: V_rules\<close>)

lemma postfix_loop_spec:
  assumes "q_ok q" and "p_ok p" and "3 * left p + 3 \<le> q_fuel q" and "p_errs p = [] \<Longrightarrow> ok_expr x"
  shows "stays ok_expr (eloop (q_fuel q) (postfix_step q) x) p"
proof (rule loop_spec [where I = ok_expr])
  fix y p1 c1
  assume p1: "p_ok p1" "left p1 \<le> left p" "p_errs p1 = [] \<Longrightarrow> ok_expr y"
    and c1: "c1 \<Longrightarrow> False \<and> tok_Kind (p_cur p1) = tok_Kind (p_cur p)"
  have "3 * left p1 \<le> q_fuel q" using p1 assms by linarith
  note round = postfix_selector [OF assms(1) p1(1) _ this p1(3)] postfix_index [OF assms(1) p1(1) _ this p1(3)]
    postfix_call [OF assms(1) p1(1) _ this p1(3)] postfix_brace [OF assms(1) p1(1) _ this p1(3)]
  show "V p1 False (postfix_step q y)
     (\<lambda>d r p2. case r of Inl b' \<Rightarrow> d \<and> tok_Kind (p_cur p1) \<noteq> K_EOF \<and> (p_errs p2 = [] \<longrightarrow> ok_expr b')
        | Inr x \<Rightarrow> (c1 \<and> tok_Kind (p_cur p1) \<noteq> K_EOF \<longrightarrow> d) \<and> (p_errs p2 = [] \<longrightarrow> ok_expr x)) p1"
  proof (cases "tok_Kind (p_cur p1) \<in> {K_Dot, K_LBrack, K_LParen, K_LBrace}")
    case True
    then show ?thesis
      by safe (rule V_mono [OF round(1)] V_mono [OF round(2)] V_mono [OF round(3)] V_mono [OF round(4)];
          use c1 in \<open>force split: sum.splits\<close>)+
  next
    case False
    then show ?thesis by (rule V_mono [OF postfix_other]) (use c1 p1 in auto)
  qed
qed (use assms in auto)

lemmas [V_rules] = V_use [OF postfix_loop_spec]

section \<open>Primary expressions\<close>

lemma interp_text_spec: "p_ok p \<Longrightarrow> stays ok_part (interp_text t) p"
  unfolding interp_text_def cur_defs by (rule specI) (auto intro!: V_rules)

lemmas [V_rules] = V_use [OF interp_text_spec]

lemma interp_rest_spec:
  "p_ok p \<Longrightarrow> (p_errs p = [] \<Longrightarrow> list_all ok_part parts)
     \<Longrightarrow> stays (\<lambda>r. list_all ok_part (fst (case r of Inl a \<Rightarrow> a | Inr a \<Rightarrow> a))) (interp_rest parts e) p"
  unfolding interp_rest_def kind_def by (rule specI) (auto intro!: V_rules)

lemma interp_step_round:
  assumes "q_ok q" and "p_ok p" and "3 * left p + 2 \<le> q_fuel q" and "p_errs p = [] \<Longrightarrow> list_all ok_part (fst acc)"
    and "tok_Kind (p_cur p) = K_LInterp"
  shows "V p False (interp_step q acc) (round_ok (\<lambda>acc. list_all ok_part (fst acc))) p"
  unfolding interp_step_def cur_def
  by (use assms in \<open>auto intro!: V_use [OF interp_rest_spec] V_rules split: sum.split\<close>)

lemma interp_step_end:
  assumes "p_ok p" and "tok_Kind (p_cur p) \<noteq> K_LInterp"
  shows "V p False (interp_step q acc) (\<lambda>d r p'. r = Inr acc \<and> p_errs p' \<noteq> []) p"
  unfolding interp_step_def cur_def
  by (use assms in \<open>auto intro!: V_rules\<close>)

lemma interp_loop_spec:
  assumes "q_ok q" and "p_ok p" and "3 * left p + 2 \<le> q_fuel q" and "p_errs p = [] \<Longrightarrow> list_all ok_part (fst acc)"
  shows "stays (\<lambda>acc. list_all ok_part (fst acc)) (eloop (q_fuel q) (interp_step q) acc) p"
proof (rule loop_spec [where I = "\<lambda>acc. list_all ok_part (fst acc)"])
  fix b :: "StringPart list \<times> u32" and p1 c1
  assume p1: "p_ok p1" "left p1 \<le> left p" "p_errs p1 = [] \<Longrightarrow> list_all ok_part (fst b)"
    and c1: "c1 \<Longrightarrow> False \<and> tok_Kind (p_cur p1) = tok_Kind (p_cur p)"
  have fuel: "3 * left p1 + 2 \<le> q_fuel q" using p1 assms by linarith
  show "V p1 False (interp_step q b)
     (\<lambda>d r p2. case r of Inl b' \<Rightarrow> d \<and> tok_Kind (p_cur p1) \<noteq> K_EOF \<and> (p_errs p2 = [] \<longrightarrow> list_all ok_part (fst b'))
        | Inr x \<Rightarrow> (c1 \<and> tok_Kind (p_cur p1) \<noteq> K_EOF \<longrightarrow> d) \<and> (p_errs p2 = [] \<longrightarrow> list_all ok_part (fst x))) p1"
  proof (cases "tok_Kind (p_cur p1) = K_LInterp")
    case True
    then show ?thesis
      by (intro V_mono [OF interp_step_round [OF assms(1) p1(1) fuel p1(3)]]) (use c1 in \<open>force split: sum.splits\<close>)+
  next
    case False
    then show ?thesis by (rule V_mono [OF interp_step_end [OF p1(1)]]) (use c1 in auto)
  qed
qed (use assms in auto)

lemmas [V_rules] = V_use [OF interp_loop_spec]

lemma list_items_spec:
  "q_ok q \<Longrightarrow> p_ok p \<Longrightarrow> 3 * left p + 2 \<le> q_fuel q \<Longrightarrow> (p_errs p = [] \<Longrightarrow> ok_expr x)
     \<Longrightarrow> stays (list_all ok_expr) (list_items q x) p"
  unfolding list_items_def kind_def
  by (rule loop_spec [where I = "list_all ok_expr"]) (auto intro!: V_rules)

lemmas [V_rules] = V_use [OF list_items_spec]

lemma map_entries_spec:
  "q_ok q \<Longrightarrow> p_ok p \<Longrightarrow> 3 * left p + 2 \<le> q_fuel q
     \<Longrightarrow> stays (list_all (\<lambda>e. ok_expr (fst e) \<and> ok_expr (snd e))) (map_entries q) p"
  unfolding map_entries_def kind_def
  by (rule loop_spec [where I = "list_all (\<lambda>e. ok_expr (fst e) \<and> ok_expr (snd e))"]) (auto intro!: V_rules)

lemmas [V_rules] = V_use [OF map_entries_spec]

lemma parseInterpString_spec:
  assumes "q_ok q" and "p_ok p" and "tok_Kind (p_cur p) \<noteq> K_EOF" and "3 * left p \<le> q_fuel q"
  shows "consumes ok_expr (parseInterpString q) p"
  unfolding parseInterpString_def source_def Let_def
  by (rule specI; use assms in \<open>auto intro!: V_rules\<close>)

lemma finish_specs:
  assumes "q_ok q" and "p_ok p" and "3 * left p + 3 \<le> q_fuel q"
  shows "stays ok_expr (finishStructLit q start NilT) p" and "stays ok_expr (finishMapLit q start) p"
  unfolding finishStructLit_def finishMapLit_def
  by (rule specI; use assms in \<open>auto intro!: V_rules simp: ok_content_def\<close>)+

lemmas [V_rules] = V_use [OF finish_specs(1)] V_use [OF finish_specs(2)]

lemma parseBraceExpr_spec:
  assumes "q_ok q" and "p_ok p" and "tok_Kind (p_cur p) \<noteq> K_EOF" and "3 * left p \<le> q_fuel q"
  shows "consumes ok_expr (parseBraceExpr q) p"
  unfolding parseBraceExpr_def kind_def kinds_def
  by (rule specI; use assms in \<open>auto intro!: V_rules\<close>)

lemma with_cond_spec:
  assumes "\<And>p. p_ok p \<Longrightarrow> left p \<le> left p1 \<Longrightarrow> consumes J m p" and "p_ok p1"
  shows "consumes J (with_cond m) p1"
  unfolding with_cond_def
  by (rule specI; use assms in \<open>auto intro!: V_rules V_use [OF assms(1)]\<close>)

lemma parseParen_spec:
  assumes "q_ok q" and "p_ok p" and "tok_Kind (p_cur p) \<noteq> K_EOF" and "3 * left p \<le> q_fuel q"
  shows "consumes ok_expr (parseParen q) p"
  unfolding parseParen_def
  by (rule specI; use assms in \<open>auto intro!: V_rules\<close>)

lemma parseListOrComp_spec:
  assumes "q_ok q" and "p_ok p" and "tok_Kind (p_cur p) \<noteq> K_EOF" and "3 * left p \<le> q_fuel q"
  shows "consumes ok_expr (parseListOrComp q) p"
  unfolding parseListOrComp_def kind_def Let_def
  by (insert assms, rule specI, simp, intro V_rules; auto)

lemma parseIfExpr_spec:
  assumes "q_ok q" and "p_ok p" and "tok_Kind (p_cur p) \<noteq> K_EOF" and "3 * left p \<le> q_fuel q"
  shows "consumes ok_expr (parseIfExpr q) p"
proof -
  have cond: "consumes ok_expr (with_cond (parseExpr q)) p1" if "p_ok p1" "3 * left p1 + 2 \<le> q_fuel q" for p1
    by (rule with_cond_spec [OF _ that(1)]) (use that in \<open>auto intro: q_specs(3) [OF assms(1)]\<close>)
  show ?thesis
    unfolding parseIfExpr_def
    by (insert assms, rule specI, simp, intro V_rules V_use [OF cond]; simp)
qed

lemma literal_spec:
  "p_ok p \<Longrightarrow> (\<And>t raw src. ok_expr (mk t raw src)) \<Longrightarrow> consumes ok_expr (literal mk) p"
  unfolding literal_def cur_defs by (rule specI) (auto intro!: V_rules)

lemma ident_spec:
  "p_ok p \<Longrightarrow> tok_Kind (p_cur p) = K_Ident \<Longrightarrow>
     consumes ok_expr (ebind (parseIdent ''expression'') (\<lambda>i. ret (case i of Some n \<Rightarrow> IdentE n | None \<Rightarrow> NilE))) p"
  unfolding parseIdent_def cur_defs by (rule specI) (auto intro!: V_rules)

lemmas primary_specs = literal_spec ident_spec parseInterpString_spec parseParen_spec parseListOrComp_spec
  parseBraceExpr_spec parseIfExpr_spec

lemma unexpected_spec:
  "p_ok p \<Longrightarrow> consumes ok_expr (ethen (errAt s code msg) (ethen skip_tok (ret NilE))) p"
  by (rule specI) (auto intro!: V_rules)

text \<open>Where the current token is known, reading it picks one branch.\<close>

lemma spec_gets: "spec C J (f (g p)) p \<Longrightarrow> spec C J (ebind (gets g) f) p"
  by (simp add: spec_def wp_bind) (simp add: wp_def gets_def)

lemma parsePrimary_spec:
  assumes "q_ok q" and "p_ok p" and "3 * left p \<le> q_fuel q"
  shows "consumes ok_expr (parsePrimary q) p"
  unfolding parsePrimary_def cur_def
  by (rule spec_gets, cases "tok_Kind (p_cur p)"; insert assms; simp; intro primary_specs unexpected_spec; simp)

lemma parsePrimary_EOF: "tok_Kind (p_cur p) = K_EOF \<Longrightarrow> V p False (parsePrimary q) (\<lambda>d x p'. x = NilE \<and> p_errs p' \<noteq> []) p"
  unfolding parsePrimary_def cur_def by (auto intro!: V_rules)

lemma parsePostfix_spec:
  assumes "q_ok q" and "p_ok p" and "3 * left p \<le> q_fuel q"
  shows "consumes ok_expr (parsePostfix q) p"
proof (cases "tok_Kind (p_cur p) = K_EOF")
  case True
  show ?thesis
    unfolding parsePostfix_def
    by (rule specI [OF assms(2)], rule V_bind, rule V_mono [OF parsePrimary_EOF [OF True]]) (use True in \<open>auto intro!: V_rules\<close>)
next
  case False
  show ?thesis
    unfolding parsePostfix_def
    by (rule specI) (use assms False in \<open>auto intro!: V_rules V_use [OF parsePrimary_spec]\<close>)
qed

lemmas [V_rules] = V_use [OF parsePostfix_spec]

lemma parseUnary_spec:
  "q_ok q \<Longrightarrow> p_ok p \<Longrightarrow> 3 * left p + 1 \<le> Suc (q_fuel q) \<Longrightarrow> consumes ok_expr (parseUnary q) p"
  unfolding parseUnary_def cur_def by (rule specI) (auto intro!: V_rules)

section \<open>Statements\<close>

lemma with_cond_expr:
  "q_ok q \<Longrightarrow> p_ok p \<Longrightarrow> 3 * left p + 2 \<le> q_fuel q \<Longrightarrow> consumes ok_expr (with_cond (parseExpr q)) p"
  by (rule with_cond_spec) (auto intro: q_specs(3))

lemmas [V_rules] = V_use [OF with_cond_expr]

lemma parseLetDecl_spec:
  assumes "q_ok q" and "p_ok p" and "tok_Kind (p_cur p) \<noteq> K_EOF" and "3 * left p \<le> q_fuel q"
  shows "consumes (opt_ok ok_let) (parseLetDecl q) p"
  unfolding parseLetDecl_def decl_name_def kind_def cur_def
  by (insert assms, rule specI, simp, intro V_rules; auto)

lemma parseForStmt_spec:
  assumes "q_ok q" and "p_ok p" and "tok_Kind (p_cur p) \<noteq> K_EOF" and "3 * left p \<le> q_fuel q"
  shows "consumes (opt_ok ok_stmt) (parseForStmt q) p"
  unfolding parseForStmt_def
  by (insert assms, rule specI, simp, intro V_rules; auto)

lemma else_branch_spec:
  assumes "q_ok q" and "p_ok p" and "3 * left p + 3 \<le> q_fuel q"
  shows "stays (\<lambda>(b, _). b = None \<or> opt_ok ok_block b) (else_branch q e) p"
  unfolding else_branch_def kind_def
  by (insert assms, rule specI, simp, intro V_rules; auto)

lemmas [V_rules] = V_use [OF else_branch_spec]

lemma parseIfStmt_spec:
  assumes "q_ok q" and "p_ok p" and "tok_Kind (p_cur p) \<noteq> K_EOF" and "3 * left p \<le> q_fuel q"
  shows "consumes (opt_ok ok_stmt) (parseIfStmt q) p"
  unfolding parseIfStmt_def
  by (insert assms, rule specI, simp, intro V_rules; auto simp: opt_ok_def split: option.splits)

lemma parseReturnStmt_spec:
  assumes "q_ok q" and "p_ok p" and "tok_Kind (p_cur p) \<noteq> K_EOF" and "3 * left p \<le> q_fuel q"
  shows "consumes ok_stmt (parseReturnStmt q) p"
  unfolding parseReturnStmt_def kind_def cur_def
  by (insert assms, rule specI, simp, intro V_rules; auto)

lemma expr_stmt_spec:
  assumes "q_ok q" and "p_ok p" and "3 * left p + 3 \<le> Suc (q_fuel q)"
  shows "consumes (opt_ok ok_stmt)
    (ebind (parseExpr q) (\<lambda>e.
       if e = NilE then ret None
       else
         ebind kind (\<lambda>k.
           if k \<noteq> K_Assign then ethen (skip_if K_Semi) (ret (Some (ExprStmt e)))
           else
             ethen skip_tok (ebind (parseExpr q) (\<lambda>val.
               if val = NilE then ret None
               else
                 ethen (if isAssignable e then ret ()
                        else errAt (expr_Span e) ''parse.NotAssignable'' ''left side of assignment is not assignable'')
                   (ebind cur (\<lambda>c. ethen (skip_if K_Semi)
                     (ret (Some (AssignStmt e val (span_to (expr_start e)
                        (if tok_Kind c = K_Semi then tok_End c else expr_end val)))))))))))) p"
  unfolding kind_def cur_def
  by (insert assms, rule specI, simp, intro V_rules; auto)

lemma typed_nil_spec: "p_ok p \<Longrightarrow> consumes (opt_ok ok_stmt) m p \<Longrightarrow> consumes (opt_ok ok_stmt) (typed_nil m) p"
  unfolding typed_nil_def by (rule specI) (auto intro!: V_rules V_use [of _ _ _ "\<lambda>_. True" "opt_ok ok_stmt" m] simp: opt_ok_def split: option.splits)

lemma stmt_kind_other:
  "k \<notin> {K_Let, K_For, K_If, K_Return} \<Longrightarrow> (case k of K_Let \<Rightarrow> a | K_For \<Rightarrow> b | K_If \<Rightarrow> c | K_Return \<Rightarrow> d | _ \<Rightarrow> e) = e"
  by (cases k) auto

lemma parseStmt_spec:
  assumes "q_ok q" and "p_ok p" and "3 * left p + 3 \<le> Suc (q_fuel q)"
  shows "consumes (opt_ok ok_stmt) (parseStmt q) p"
proof -
  have l: "consumes (opt_ok ok_stmt) (ebind (parseLetDecl q) (\<lambda>d. ret (map_option LetStmt d))) p"
    if "tok_Kind (p_cur p) \<noteq> K_EOF"
    by (rule specI)
      (use assms that left_pos [OF assms(2) that] in \<open>auto intro!: V_rules V_use [OF parseLetDecl_spec] simp: opt_ok_def split: option.splits\<close>)
  have r: "consumes (opt_ok ok_stmt) (ebind (parseReturnStmt q) (\<lambda>s. ret (Some s))) p"
    if "tok_Kind (p_cur p) \<noteq> K_EOF"
    by (rule specI)
      (use assms that left_pos [OF assms(2) that] in \<open>auto intro!: V_rules V_use [OF parseReturnStmt_spec]\<close>)
  show ?thesis
    unfolding parseStmt_def unfolding kind_def
    using assms left_pos [OF assms(2)]
    by (intro spec_gets, cases "tok_Kind (p_cur p) \<in> {K_Let, K_For, K_If, K_Return}")
      (auto intro!: l r expr_stmt_spec [unfolded kind_def] typed_nil_spec parseForStmt_spec q_specs(5) simp: stmt_kind_other)
qed

section \<open>The parser\<close>

lemma q_ok_parser: "q_ok (parser n)"
proof (induction n)
  case 0
  show ?case by (simp add: q_ok_def)
next
  case (Suc n)
  have "q_fuel (parser n) = n" for n by (cases n) auto
  then show ?case
    using parseUnary_spec [OF Suc] parseBinary_spec [OF Suc] parseStmt_spec [OF Suc] parseIfStmt_spec [OF Suc]
      parseTypeExpr_spec [OF Suc]
    unfolding q_ok_def by (auto dest: left_pos)
qed

section \<open>Declarations\<close>

text \<open>Reading the current token where it tells how far the parser is.\<close>

lemma V_look: "(p_ok p \<Longrightarrow> left p \<le> left p0 \<Longrightarrow> Q d (g p) p) \<Longrightarrow> V p0 d (gets g) Q p"
  unfolding V_def wp_def after_def by auto

lemma V_progress:
  assumes "V p0 True m Q p" and "tok_Kind (p_cur p) = tok_Kind (p_cur p0) \<Longrightarrow> V p0 d m Q p"
  shows "V p0 d m Q p"
proof (cases "after d p0 p \<and> left p = left p0")
  case True
  then show ?thesis using assms(2) by (auto simp: after_def)
next
  case False
  then have "after d p0 p \<Longrightarrow> after True p0 p" by (auto simp: after_def)
  then show ?thesis using assms(1) by (auto simp: V_def)
qed

text \<open>Recovery consumes a token where nothing was consumed before, unless it starts at a token that ends it.\<close>

lemma V_recover:
  assumes "p_ok p \<Longrightarrow> left p \<le> left p0 \<Longrightarrow> spec (\<lambda>_. P (tok_Kind (p_cur p))) (\<lambda>_. True) m p"
    and "P (tok_Kind (p_cur p0))"
    and "\<And>x p'. (p_errs p' = [] \<Longrightarrow> p_errs p = []) \<Longrightarrow> Q True x p'"
  shows "V p0 d m Q p"
proof (rule V_progress)
  show "V p0 True m Q p" by (rule V_use [OF assms(1)]) (use assms(3) in auto)
  show "V p0 d m Q p" if "tok_Kind (p_cur p) = tok_Kind (p_cur p0)"
    by (rule V_use [OF assms(1)]) (use assms(2,3) that in auto)
qed

definition ok_args :: "Expr list \<times> AttrArg list \<Rightarrow> bool" where
  "ok_args acc \<longleftrightarrow> list_all ok_expr (fst acc) \<and> list_all (\<lambda>n. ok_expr (aa_Value n)) (snd acc)"

lemma attr_arg_spec:
  assumes "q_ok q" and "p_ok p" and "3 * left p + 2 \<le> q_fuel q" and "p_errs p = [] \<Longrightarrow> ok_args acc"
  shows "consumes ok_args (attr_arg q b acc) p"
proof (cases b)
  case True
  have "consumes ok_args (attr_arg q True acc) p"
    unfolding attr_arg_def if_True
    by (insert assms, rule specI, simp, intro V_rules; simp add: ok_args_def split: option.split)
  then show ?thesis using True by simp
next
  case False
  have "consumes ok_args (attr_arg q False acc) p"
    unfolding attr_arg_def if_False
    by (insert assms, rule specI, simp, intro V_rules; simp add: ok_args_def)
  then show ?thesis using False by simp
qed

lemma attr_args_spec:
  assumes "q_ok q" and "p_ok p" and "3 * left p + 2 \<le> q_fuel q"
  shows "stays ok_args (attr_args q) p"
  unfolding attr_args_def kind_def kinds_def
proof (rule loop_spec [where I = ok_args], goal_cases)
  case (4 acc p1 c1)
  then have "left p1 = 0 \<longleftrightarrow> tok_Kind (p_cur p1) = K_EOF" by (intro left_0)
  then show ?case
    using 4 assms
    by (intro V_then V_use [OF skipSemis_spec] V_bind V_look V_if V_pair V_use [OF attr_arg_spec]
        V_ret V_use [OF skip_tok_spec]; auto dest!: left_pos)
qed (use assms in \<open>auto simp: ok_args_def\<close>)

lemma parseAttribute_spec:
  assumes "q_ok q" and "p_ok p" and "tok_Kind (p_cur p) = K_At" and "3 * left p + 2 \<le> q_fuel q"
  shows "consumes (opt_ok ok_attr) (parseAttribute q) p"
  unfolding parseAttribute_def kind_def Let_def
  by (insert assms, rule specI, simp, intro V_bind V_use [OF expect_consumes] V_use [OF attr_args_spec] V_rules;
      auto simp: ok_attr_def ok_args_def)

lemmas [V_rules] = V_use [OF parseAttribute_spec]

lemma parseAttributes_spec:
  assumes "q_ok q" and "p_ok p" and "3 * left p + 2 \<le> q_fuel q"
  shows "stays (list_all ok_attr) (parseAttributes q) p"
  unfolding parseAttributes_def kind_def
  by (rule loop_spec [where I = "list_all ok_attr"])
    (use assms in \<open>auto intro!: V_rules split: option.split\<close>)

lemmas [V_rules] = V_use [OF parseAttributes_spec]

lemma parseField_spec:
  assumes "q_ok q" and "p_ok p" and "3 * left p + 2 \<le> q_fuel q"
  shows "consumes_unless None (opt_ok ok_field) (parseField q) p"
  unfolding parseField_def kind_def
  by (insert assms, rule specI, simp, intro V_rules; auto simp: ok_field_def)

lemmas [V_rules] = V_use [OF parseField_spec]

lemma with_attributes_ok [simp]: "ok_field f \<Longrightarrow> ok_field (with_attributes as f) = list_all ok_attr as"
  by (auto simp: with_attributes_def ok_field_def)

text \<open>The fields of a type and the parameters of a function differ in how they recover.\<close>

lemma field_loop_spec:
  assumes q: "q_ok q" and p: "p_ok p" "3 * left p + 2 \<le> q_fuel q"
    and recover: "\<And>p1. p_ok p1 \<Longrightarrow> left p1 \<le> left p
      \<Longrightarrow> spec (\<lambda>_. tok_Kind (p_cur p1) \<notin> {endk, K_EOF, K_Comma}) (\<lambda>_. True) recover p1"
  shows "stays (list_all ok_field) (field_loop q endk recover) p"
  unfolding field_loop_def kind_def
proof (rule loop_spec [where I = "list_all ok_field"], goal_cases)
  case (4 fs p1 c1)
  then show ?case
    using q p
    by (intro V_bind V_gets V_if V_use [OF skip_tok_spec] V_then V_ret V_use [OF parseAttributes_spec] V_use [OF parseField_spec]
          V_option V_recover [where P = "\<lambda>k. k \<notin> {endk, K_EOF, K_Comma}" and m = recover, OF recover]; auto)
qed (use assms in auto)


lemma spec_weaken: "spec C J m p \<Longrightarrow> (\<And>x. D x \<Longrightarrow> C x) \<Longrightarrow> spec D J m p"
  unfolding spec_def by (erule wp_mono) (auto intro: after_weaken)

lemma parseFields_spec:
  "q_ok q \<Longrightarrow> p_ok p \<Longrightarrow> 3 * left p + 2 \<le> q_fuel q \<Longrightarrow> stays (list_all ok_field) (parseFields q K_RBrace) p"
  unfolding parseFields_def
  by (rule field_loop_spec) (auto intro: spec_weaken [OF synchronize_spec])

lemma parseParams_spec:
  "q_ok q \<Longrightarrow> p_ok p \<Longrightarrow> 3 * left p + 2 \<le> q_fuel q \<Longrightarrow> stays (list_all ok_field) (parseParams q endk) p"
  unfolding parseParams_def
  by (rule field_loop_spec) (auto intro: spec_weaken [OF skip_kinds_spec])

lemmas [V_rules] = V_use [OF parseFields_spec] V_use [OF parseParams_spec]

lemma enum_variants_spec:
  assumes "q_ok q" and "p_ok p" and "3 * left p + 2 \<le> q_fuel q"
  shows "stays (\<lambda>_. True) (enum_variants q) p"
  unfolding enum_variants_def kind_def
proof (rule loop_spec [where I = "\<lambda>_. True"], goal_cases)
  case (4 vs p1 c1)
  then show ?case
    using assms
    by (intro V_bind V_gets V_if V_use [OF skip_tok_spec] V_then V_ret V_use [OF parseIdent_spec] V_use [OF skip_if_spec]
          V_option V_recover [where P = "\<lambda>k. k \<noteq> K_RBrace" and m = "synchronize (q_fuel q)", OF synchronize_spec]; auto)
qed (use assms in auto)

lemmas [V_rules] = V_use [OF enum_variants_spec]

lemma optional_body_spec:
  assumes "q_ok q" and "p_ok p" and "3 * left p + 2 \<le> q_fuel q"
  shows "stays (\<lambda>(b, _). b = None \<or> opt_ok ok_block b) (optional_body q ctx e) p"
  unfolding optional_body_def kind_def
  by (insert assms, rule specI, simp, intro V_rules; auto)

lemmas [V_rules] = V_use [OF optional_body_spec]

lemma parseModule_spec:
  assumes "p_ok p" and "tok_Kind (p_cur p) \<noteq> K_EOF" and "3 * left p + 2 \<le> q_fuel q"
  shows "consumes (\<lambda>m. m \<noteq> None) (parseModule q) p"
  unfolding parseModule_def decl_name_def
  by (insert assms, rule specI, simp, intro V_rules; auto)

lemma parseImport_spec:
  assumes "p_ok p" and "tok_Kind (p_cur p) \<noteq> K_EOF" and "3 * left p + 2 \<le> q_fuel q"
  shows "consumes (\<lambda>_. True) (parseImport q) p"
  unfolding parseImport_def text_of_def source_def kind_def
  by (insert assms, rule specI, simp, intro V_rules; auto)

lemma parseAttrTypeDecl_spec:
  assumes "q_ok q" and "p_ok p" and "tok_Kind (p_cur p) \<noteq> K_EOF" and "3 * left p + 2 \<le> q_fuel q"
  shows "consumes (opt_ok ok_decl) (parseAttrTypeDecl q start) p"
  unfolding parseAttrTypeDecl_def source_def decl_name_def
  by (insert assms, rule specI, simp, intro V_rules; auto)

lemmas [V_rules] = V_use [OF parseAttrTypeDecl_spec]

lemma parseTypeDecl_spec:
  assumes "q_ok q" and "p_ok p" and "tok_Kind (p_cur p) \<noteq> K_EOF" and "3 * left p + 2 \<le> q_fuel q"
  shows "consumes (opt_ok ok_decl) (parseTypeDecl q) p"
  unfolding parseTypeDecl_def kind_def decl_name_def
  by (insert assms, rule specI, simp, intro V_rules; auto simp: opt_ok_def split: option.splits)

lemma parseEnumDecl_spec:
  assumes "q_ok q" and "p_ok p" and "tok_Kind (p_cur p) \<noteq> K_EOF" and "3 * left p + 2 \<le> q_fuel q"
  shows "consumes (opt_ok ok_decl) (parseEnumDecl q) p"
  unfolding parseEnumDecl_def decl_name_def
  by (insert assms, rule specI, simp, intro V_rules; auto)

lemma parseFuncDecl_spec:
  assumes "q_ok q" and "p_ok p" and "tok_Kind (p_cur p) \<noteq> K_EOF" and "3 * left p + 2 \<le> q_fuel q"
  shows "consumes (opt_ok ok_decl) (parseFuncDecl q) p"
  unfolding parseFuncDecl_def decl_name_def cur_def
  by (insert assms, rule specI, simp, intro V_rules; auto simp: opt_ok_def split: option.splits)

lemma parseDeclDecl_spec:
  assumes "q_ok q" and "p_ok p" and "tok_Kind (p_cur p) \<noteq> K_EOF" and "3 * left p + 2 \<le> q_fuel q"
  shows "consumes (opt_ok ok_decl) (parseDeclDecl q) p"
  unfolding parseDeclDecl_def decl_name_def cur_def kind_def
  by (insert assms, rule specI, simp, intro V_rules; auto simp: opt_ok_def split: option.splits)

lemma setPublic_ok [simp]: "ok_decl (setPublic d) = ok_decl d"
proof (cases d)
  case (LetD l)
  then show ?thesis by (cases l) (auto simp: setPublic_def)
qed (auto simp: setPublic_def)

lemma keyword_decl_spec:
  assumes "q_ok q" and "p_ok p" and "tok_Kind (p_cur p) \<noteq> K_EOF" and "3 * left p + 2 \<le> q_fuel q"
  shows "consumes (opt_ok ok_decl)
     (case tok_Kind (p_cur p) of
        K_Type \<Rightarrow> parseTypeDecl q
      | K_Enum \<Rightarrow> parseEnumDecl q
      | K_Func \<Rightarrow> parseFuncDecl q
      | K_Decl \<Rightarrow> parseDeclDecl q
      | K_Let \<Rightarrow> ebind (parseLetDecl q) (\<lambda>d. ret (map_option LetD d))
      | j \<Rightarrow>
          ethen (errAt s ''parse.UnexpectedToken'' (''unexpected token: '' @ kind_String j))
            (ethen skip_tok (ret None))) p"
proof -
  have l: "consumes (opt_ok ok_decl) (ebind (parseLetDecl q) (\<lambda>d. ret (map_option LetD d))) p"
    by (rule specI)
      (use assms left_pos [OF assms(2,3)] in \<open>auto intro!: V_rules V_use [OF parseLetDecl_spec] simp: opt_ok_def split: option.splits\<close>)
  have e: "consumes (opt_ok ok_decl) (ethen (errAt s c m) (ethen skip_tok (ret None))) p" for c m
    by (rule specI) (use assms in \<open>auto intro!: V_rules\<close>)
  note specs = parseTypeDecl_spec [OF assms] parseEnumDecl_spec [OF assms] parseFuncDecl_spec [OF assms]
    parseDeclDecl_spec [OF assms] l e
  show ?thesis by (cases "tok_Kind (p_cur p)"; simp only: Kind.case; rule specs)
qed

lemma decl_rest_spec:
  assumes "q_ok q" and "p_ok p" and "pub \<or> tok_Kind (p_cur p) \<noteq> K_EOF" and "3 * left p + 2 \<le> q_fuel q"
  shows "spec (\<lambda>_. \<not> pub) (opt_ok ok_decl) (ebind cur (\<lambda>t.
         if pub \<and> \<not> isDeclKeyword (tok_Kind t)
         then ethen (errAt (tok_span t) c m) (ret None)
         else
           ebind
             (case tok_Kind t of
                K_Type \<Rightarrow> parseTypeDecl q
              | K_Enum \<Rightarrow> parseEnumDecl q
              | K_Func \<Rightarrow> parseFuncDecl q
              | K_Decl \<Rightarrow> parseDeclDecl q
              | K_Let \<Rightarrow> ebind (parseLetDecl q) (\<lambda>d. ret (map_option LetD d))
              | j \<Rightarrow>
                  ethen (errAt (tok_span t) ''parse.UnexpectedToken'' (''unexpected token: '' @ kind_String j))
                    (ethen skip_tok (ret None)))
             (\<lambda>d. ret (if pub then map_option setPublic d else d)))) p"
  unfolding cur_def
proof (rule spec_gets, cases "pub \<and> \<not> isDeclKeyword (tok_Kind (p_cur p))", goal_cases)
  case 1
  then show ?case by simp (rule specI; use assms in \<open>auto intro!: V_rules\<close>)
next
  case 2
  have "tok_Kind (p_cur p) \<noteq> K_EOF" using 2 assms(3) by (auto simp: isDeclKeyword_def)
  note d = keyword_decl_spec [OF assms(1,2) this assms(4)]
  show ?case
    unfolding if_not_P [OF 2]
    by (rule specI [OF assms(2)], rule V_bind, rule V_use [OF d]) (auto intro!: V_rules simp: opt_ok_def split: option.splits)
qed

lemma parseDecl_spec:
  assumes "q_ok q" and "p_ok p" and "tok_Kind (p_cur p) \<noteq> K_EOF" and "3 * left p + 2 \<le> q_fuel q"
  shows "consumes (opt_ok ok_decl) (parseDecl q) p"
  unfolding parseDecl_def kind_def Let_def
  by (rule specI [OF assms(2)], intro V_bind V_gets V_then V_use [OF decl_rest_spec] V_if V_use [OF skip_tok_spec] V_ret;
      use assms in auto)

section \<open>Files\<close>

lemma file_step_round:
  assumes "q_ok q" and "p_ok p" and "3 * left p + 3 \<le> q_fuel q" and "p_errs p = [] \<Longrightarrow> ok_file f"
  shows "V p False (file_step q f) (\<lambda>d r p'. case r of Inl f' \<Rightarrow> d \<and> tok_Kind (p_cur p) \<noteq> K_EOF \<and> (p_errs p' = [] \<longrightarrow> ok_file f')
     | Inr x \<Rightarrow> p_errs p' = [] \<longrightarrow> ok_file x) p"
  unfolding file_step_def kind_def
  by (insert assms, intro V_bind V_gets V_if V_then V_ret V_use [OF skip_tok_spec] V_use [OF parseImport_spec]
        V_use [OF parseDecl_spec] V_use [OF q_specs(4)];
      auto simp: ok_file_def split: option.split)

lemma Parse_spec:
  assumes "q_ok q" and "p_ok p" and "3 * left p + 3 \<le> q_fuel q"
  shows "stays ok_file (Parse q) p"
proof -
  have module: "stays (\<lambda>m. m \<noteq> None) (if tok_Kind (p_cur p1) = K_Module then parseModule q
      else ethen (errHere c e) (ret None)) p1"
    if "p_ok p1" "3 * left p1 + 3 \<le> q_fuel q" for p1 c e
    using that by (intro specI) (auto intro!: V_rules V_use [OF parseModule_spec])
  have rounds: "stays ok_file (eloop (q_fuel q) (file_step q) f) p1"
    if "p_ok p1" "3 * left p1 + 3 \<le> q_fuel q" "p_errs p1 = [] \<Longrightarrow> ok_file f" for f p1
  proof (rule loop_spec [where I = ok_file], goal_cases)
    case (4 b p2 c2)
    then show ?case
      using that(2) by (intro V_mono [OF file_step_round [OF assms(1)]]) (auto split: sum.splits)
  qed (use that in auto)
  show ?thesis
    unfolding Parse_def cur_def kind_def
    by (insert assms, rule specI, simp, intro V_bind V_gets V_then V_ret V_use [OF skipSemis_spec] V_use [OF module] V_use [OF rounds];
        auto simp: ok_file_def)
qed

lemma New_parser_ok:
  "p_ok (New_parser (New name src))" "left (New_parser (New name src)) \<le> 3 * length src + 2"
  "p_errs (New_parser (New name src)) = []" "lx_src (p_lex (New_parser (New name src))) = src"
proof -
  obtain t1 l1 where n1: "Next (New name src) = (t1, l1)" by fastforce
  obtain t2 l2 where n2: "Next l1 = (t2, l2)" by fastforce
  note a1 = Next_advances [OF New_ok(1) n1, unfolded advances_def]
  then have "lex_ok l1" by simp
  note a2 = Next_advances [OF this n2, unfolded advances_def]
  have src: "lx_src (New name src) = src" by (simp add: New_def)
  have e1: "ended l1" if "tok_Kind t1 = K_EOF" using a1 that by (simp add: ended_def)
  have e2: "ended l2" if "tok_Kind t2 = K_EOF" using a2 that by (simp add: ended_def)
  have c: "tok_Kind t2 = K_EOF" if "tok_Kind t1 = K_EOF" using ended_Next [OF e1 [OF that]] n2 by simp
  have p: "New_parser (New name src) = \<lparr>p_lex = l2, p_cur = t1, p_peek = t2, p_inCond = False, p_errs = []\<rparr>"
    by (simp add: New_parser_def n1 n2)
  show "p_ok (New_parser (New name src))" using a2 e2 c by (simp add: p p_ok_def)
  have "fuel_left l2 < fuel_left l1" if "tok_Kind t2 \<noteq> K_EOF" using a2 that by blast
  moreover have "fuel_left l1 < 3 * length src" if "tok_Kind t1 \<noteq> K_EOF" using a1 that New_ok(2) [of name src] by simp
  ultimately show "left (New_parser (New name src)) \<le> 3 * length src + 2"
    using e2 c by (cases "tok_Kind t2 = K_EOF"; cases "tok_Kind t1 = K_EOF") (auto simp: p left_def)
  show "p_errs (New_parser (New name src)) = []" by (simp add: p)
  show "lx_src (p_lex (New_parser (New name src))) = src" using a1 a2 src by (simp add: p)
qed

text \<open>The rounds of Parse go on until the end of the source.\<close>

lemma eloop_ends:
  assumes "\<And>b p r p'. f b p = Done (Inr r) p' \<Longrightarrow> P p'"
  shows "eloop n f b p = Done x p' \<Longrightarrow> P p'"
  by (induction n arbitrary: b p) (auto simp: ebind_def assms split: outcome.splits sum.splits)

lemma file_step_ends: "file_step q f p = Done (Inr r) p' \<Longrightarrow> tok_Kind (p_cur p') = K_EOF"
  by (auto simp: file_step_def kind_def ebind_def ethen_def split: if_splits outcome.splits)

lemma file_loop_ends: "eloop n (file_step q) f p = Done x p' \<Longrightarrow> tok_Kind (p_cur p') = K_EOF"
  by (rule eloop_ends [where f = "file_step q" and P = "\<lambda>p. tok_Kind (p_cur p) = K_EOF"]) (rule file_step_ends)

lemma Parse_ends: "Parse q p = Done f p' \<Longrightarrow> tok_Kind (p_cur p') = K_EOF"
  unfolding Parse_def cur_def
  by (auto simp: ebind_def ethen_def split: outcome.splits dest: file_loop_ends)

lemma parse_source_wp:
  "wp (Parse (parser (parse_fuel src))) (\<lambda>f p'. after False (New_parser (New name src)) p' \<and> (p_errs p' = [] \<longrightarrow> ok_file f))
     (New_parser (New name src))"
proof -
  have "q_fuel (parser n) = n" for n by (cases n) auto
  then have "stays ok_file (Parse (parser (parse_fuel src))) (New_parser (New name src))"
    using New_parser_ok(2) [of name src] by (intro Parse_spec q_ok_parser New_parser_ok) (simp add: parse_fuel_def)
  then show ?thesis unfolding spec_def by (rule wp_mono) auto
qed

text \<open>C33: Lexing and parsing a file ends, with the fuel that \<open>parse_source\<close> gives and whatever the
  bytes: either the parser has reached the end of the file, and the lexer the last byte, or the code has
  dereferenced a nil pointer.\<close>

theorem parsing_ends:
  "case parse_source name src of
     Done f p \<Rightarrow> tok_Kind (p_cur p) = K_EOF \<and> lx_src (p_lex p) = src \<and> lx_pos (p_lex p) = length src
   | Panic msg \<Rightarrow> msg = ''nil pointer dereference''
   | NoFuel \<Rightarrow> False"
proof (cases "parse_source name src")
  case (Done f p)
  then have "after False (New_parser (New name src)) p" and e: "tok_Kind (p_cur p) = K_EOF"
    using parse_source_wp [of src name] Parse_ends by (auto simp: wp_def parse_source_def)
  then have "p_ok p" "lx_src (p_lex p) = src" by (auto simp: after_def New_parser_ok)
  then show ?thesis using Done e by (auto simp: p_ok_def ended_def)
qed (use parse_source_wp [of src name] in \<open>auto simp: wp_def parse_source_def\<close>)

text \<open>C34: A file that parses without an error has no nil in its tree: it has its module, every
  declaration, statement and expression is there, names have parts and only index and selector
  expressions are assigned to. Only the parts that are optional may be missing.\<close>

theorem clean_parse_has_no_nil:
  "parse_source name src = Done f p \<Longrightarrow> p_errs p = [] \<Longrightarrow> ok_file f"
  using parse_source_wp [of src name] by (auto simp: wp_def parse_source_def)

section \<open>Running the parser\<close>

text \<open>The parser's functions, unfolded only where the state is there.\<close>

lemma run_bind: "ebind m f p = (case m p of Done x p' \<Rightarrow> f x p' | Panic msg \<Rightarrow> Panic msg | NoFuel \<Rightarrow> NoFuel)"
  by (simp add: ebind_def)

lemma run_then: "ethen m k p = (case m p of Done _ p' \<Rightarrow> k p' | Panic msg \<Rightarrow> Panic msg | NoFuel \<Rightarrow> NoFuel)"
  by (simp add: ethen_def ebind_def)

lemma run_loop:
  "eloop (numeral n) f b p =
     (case f b p of
        Done (Inl b') p' \<Rightarrow> eloop (pred_numeral n) f b' p'
      | Done (Inr x) p' \<Rightarrow> Done x p' | Panic msg \<Rightarrow> Panic msg | NoFuel \<Rightarrow> NoFuel)"
  by (simp add: numeral_eq_Suc ebind_def split: outcome.split sum.split)

lemma run_parser:
  "q_binary (parser (numeral n)) mp p = parseBinary (parser (pred_numeral n)) mp p"
  "q_unary (parser (numeral n)) p = parseUnary (parser (pred_numeral n)) p"
  "q_stmt (parser (numeral n)) p = parseStmt (parser (pred_numeral n)) p"
  "q_if (parser (numeral n)) p = parseIfStmt (parser (pred_numeral n)) p"
  "q_type (parser (numeral n)) p = parseTypeExpr (parser (pred_numeral n)) p"
  "q_fuel (parser (numeral n)) = numeral n"
  by (simp_all add: numeral_eq_Suc)

lemmas run_defs = run_bind run_then run_loop run_parser cur_defs
  Parse_def [THEN fun_cong] file_step_def [THEN fun_cong] parseModule_def [THEN fun_cong] parseDecl_def [THEN fun_cong]
  parseLetDecl_def [THEN fun_cong] decl_name_def [THEN fun_cong] parseIdent_def [THEN fun_cong] expect_def [THEN fun_cong]
  expect_only_def [THEN fun_cong] skip_tok_def [THEN fun_cong] skip_if_def [THEN fun_cong] advance_tok_def
  skipSemis_def [THEN fun_cong] skip_kinds_def [THEN fun_cong] parseExpr_def [THEN fun_cong] parseBinary_def [THEN fun_cong]
  parseUnary_def [THEN fun_cong] parsePostfix_def [THEN fun_cong] parsePrimary_def [THEN fun_cong] literal_def [THEN fun_cong]
  postfix_step_def [THEN fun_cong] parseStmt_def [THEN fun_cong] typed_nil_def [THEN fun_cong] parseIfStmt_def [THEN fun_cong]
  with_cond_def [THEN fun_cong] parseBlock_def [THEN fun_cong] else_branch_def [THEN fun_cong] errAt_def [THEN fun_cong]
  add_error_def [THEN fun_cong] New_parser_def isDeclStart_def isDeclKeyword_def binaryPrec_def

abbreviation lexer_at :: "string \<Rightarrow> nat \<Rightarrow> Kind \<Rightarrow> Lexer" where
  "lexer_at src pos prev \<equiv> \<lparr>lx_src = src, lx_name = [], lx_pos = pos, lx_prev = prev, lx_comments = [], lx_interp = [],
     lx_pending = None, lx_resumingString = False, lx_resumingMulti = False, lx_errs = []\<rparr>"

definition clean_source :: string where
  "clean_source = ''module m'' @ newline # ''let x = a''"

lemma clean_tokens:
  "Next (New [] clean_source) = (\<lparr>tok_Kind = K_Module, tok_Pos = 0, tok_End = 6\<rparr>, lexer_at clean_source 6 K_Module)"
  "Next (lexer_at clean_source 6 K_Module) = (\<lparr>tok_Kind = K_Ident, tok_Pos = 7, tok_End = 8\<rparr>, lexer_at clean_source 8 K_Ident)"
  "Next (lexer_at clean_source 8 K_Ident) = (\<lparr>tok_Kind = K_Semi, tok_Pos = 8, tok_End = 9\<rparr>, lexer_at clean_source 9 K_Semi)"
  "Next (lexer_at clean_source 9 K_Semi) = (\<lparr>tok_Kind = K_Let, tok_Pos = 9, tok_End = 12\<rparr>, lexer_at clean_source 12 K_Let)"
  "Next (lexer_at clean_source 12 K_Let) = (\<lparr>tok_Kind = K_Ident, tok_Pos = 13, tok_End = 14\<rparr>, lexer_at clean_source 14 K_Ident)"
  "Next (lexer_at clean_source 14 K_Ident) = (\<lparr>tok_Kind = K_Assign, tok_Pos = 15, tok_End = 16\<rparr>, lexer_at clean_source 16 K_Assign)"
  "Next (lexer_at clean_source 16 K_Assign) = (\<lparr>tok_Kind = K_Ident, tok_Pos = 17, tok_End = 18\<rparr>, lexer_at clean_source 18 K_Ident)"
  "Next (lexer_at clean_source 18 K_Ident) = (\<lparr>tok_Kind = K_Semi, tok_Pos = 18, tok_End = 18\<rparr>, lexer_at clean_source 18 K_Semi)"
  "Next (lexer_at clean_source 18 K_Semi) = (\<lparr>tok_Kind = K_EOF, tok_Pos = 18, tok_End = 18\<rparr>, lexer_at clean_source 18 K_EOF)"
  "Next (lexer_at clean_source 18 K_EOF) = (\<lparr>tok_Kind = K_EOF, tok_Pos = 18, tok_End = 18\<rparr>, lexer_at clean_source 18 K_EOF)"
  by code_simp+

lemma clean_fuel: "parse_fuel clean_source = 182"
  by code_simp

lemma clean_run:
  "case parse_source [] clean_source of Done f p \<Rightarrow> p_errs p = [] \<and> length (fl_Decls f) = 1 | _ \<Rightarrow> False"
  unfolding parse_source_def clean_fuel
  by (simp add: run_defs clean_tokens Let_def del: parser.simps)

definition else_if_source :: string where
  "else_if_source = ''module m'' @ newline # ''if a { } else if''"

lemma else_if_tokens:
  "Next (New [] else_if_source) = (\<lparr>tok_Kind = K_Module, tok_Pos = 0, tok_End = 6\<rparr>, lexer_at else_if_source 6 K_Module)"
  "Next (lexer_at else_if_source 6 K_Module) = (\<lparr>tok_Kind = K_Ident, tok_Pos = 7, tok_End = 8\<rparr>, lexer_at else_if_source 8 K_Ident)"
  "Next (lexer_at else_if_source 8 K_Ident) = (\<lparr>tok_Kind = K_Semi, tok_Pos = 8, tok_End = 9\<rparr>, lexer_at else_if_source 9 K_Semi)"
  "Next (lexer_at else_if_source 9 K_Semi) = (\<lparr>tok_Kind = K_If, tok_Pos = 9, tok_End = 11\<rparr>, lexer_at else_if_source 11 K_If)"
  "Next (lexer_at else_if_source 11 K_If) = (\<lparr>tok_Kind = K_Ident, tok_Pos = 12, tok_End = 13\<rparr>, lexer_at else_if_source 13 K_Ident)"
  "Next (lexer_at else_if_source 13 K_Ident) = (\<lparr>tok_Kind = K_LBrace, tok_Pos = 14, tok_End = 15\<rparr>, lexer_at else_if_source 15 K_LBrace)"
  "Next (lexer_at else_if_source 15 K_LBrace) = (\<lparr>tok_Kind = K_RBrace, tok_Pos = 16, tok_End = 17\<rparr>, lexer_at else_if_source 17 K_RBrace)"
  "Next (lexer_at else_if_source 17 K_RBrace) = (\<lparr>tok_Kind = K_Else, tok_Pos = 18, tok_End = 22\<rparr>, lexer_at else_if_source 22 K_Else)"
  "Next (lexer_at else_if_source 22 K_Else) = (\<lparr>tok_Kind = K_If, tok_Pos = 23, tok_End = 25\<rparr>, lexer_at else_if_source 25 K_If)"
  "Next (lexer_at else_if_source 25 K_If) = (\<lparr>tok_Kind = K_EOF, tok_Pos = 25, tok_End = 25\<rparr>, lexer_at else_if_source 25 K_EOF)"
  "Next (lexer_at else_if_source 25 K_EOF) = (\<lparr>tok_Kind = K_EOF, tok_Pos = 25, tok_End = 25\<rparr>, lexer_at else_if_source 25 K_EOF)"
  by code_simp+

lemma else_if_fuel: "parse_fuel else_if_source = 245"
  by code_simp

text \<open>An if that is cut off right after else if makes the parser panic: the inner if statement has no condition and is nil,
  and parseIfStmt reads its span.\<close>

theorem else_if_panics: "parse_source [] (''module m'' @ newline # ''if a { } else if'') = Panic ''nil pointer dereference''"
  unfolding else_if_source_def [symmetric] parse_source_def else_if_fuel
  by (simp add: run_defs else_if_tokens Let_def del: parser.simps)

lemma clean_parse_has_no_nil_witness:
  "\<exists>f p. parse_source [] clean_source = Done f p \<and> p_errs p = [] \<and> length (fl_Decls f) = 1 \<and> ok_file f"
  using clean_run clean_parse_has_no_nil [of "[]" clean_source] by (auto split: outcome.splits)

end
