(* ===== verification/Check_Types.thy ===== *)
theory Check_Types
  imports Computations Lang_Ast Go_Paths
begin

text \<open>
  The types, the scopes and the state of the type checker (internal/lang/check: types.go, scope.go and the
  struct of checker.go). Types are pointers: a number tells two types of the same shape apart, and the fields of a
  struct or attribute type, which are filled in after the type is in use, are in a list of the state.
\<close>

section \<open>Types (types.go)\<close>

text \<open>A Go value of type any, as the argument of an attribute: the literals.\<close>

datatype AnyValue = AnyNil | AnyString string | AnyInt "64 word" | AnyBool bool | AnyList "AnyValue list"

text \<open>A nil type is None. A struct or attribute type has its fields in the state, at its number.\<close>

datatype Type =
    StringType
  | IntType
  | BoolType
  | NoneType
  | AnyType
  | OptT nat Type
  | ListT nat Type
  | MapT nat Type Type
  | StructT nat string
  | OpaqueT nat string
  | BlockT nat Type
  | EnumT nat string "string list"
  | FuncT nat "FieldDef list" "Type option"
  | DeclT nat string "FieldDef list" "Type option" bool
  | AttrT nat string string
and FieldDef =
    FieldDef (fdef_Name: string) (fdef_Type: "Type option") (fdef_HasDef: bool) (fdef_Attributes: "ResolvedAttribute list")
and ResolvedAttribute =
    ResolvedAttribute (ra_QualifiedName: string) (ra_Args: "(string \<times> AnyValue) list option") (ra_Type: "Type option")

text \<open>The String methods. The one of a decl type asks its result, which may be nil, for its own: then it panics.\<close>

fun type_String :: "Type \<Rightarrow> string option" where
  "type_String StringType = Some ''string''"
| "type_String IntType = Some ''int''"
| "type_String BoolType = Some ''bool''"
| "type_String NoneType = Some ''none''"
| "type_String AnyType = Some ''any''"
| "type_String (OptT _ t) = map_option (\<lambda>s. s @ ''?'') (type_String t)"
| "type_String (ListT _ t) = map_option (\<lambda>s. ''list['' @ s @ '']'') (type_String t)"
| "type_String (MapT _ k v) =
     (case type_String k of
        None \<Rightarrow> None
      | Some a \<Rightarrow> map_option (\<lambda>b. ''map['' @ a @ '', '' @ b @ '']'') (type_String v))"
| "type_String (StructT _ name) = Some name"
| "type_String (OpaqueT _ name) = Some name"
| "type_String (BlockT _ t) = map_option (\<lambda>s. ''block['' @ s @ '']'') (type_String t)"
| "type_String (EnumT _ name _) = Some name"
| "type_String (FuncT _ _ None) = Some ''func(...)''"
| "type_String (FuncT _ _ (Some t)) = map_option (\<lambda>s. ''func(...) '' @ s) (type_String t)"
| "type_String (DeclT _ _ _ None _) = None"
| "type_String (DeclT _ name _ (Some t) _) = map_option (\<lambda>s. ''decl '' @ name @ ''(...) '' @ s) (type_String t)"
| "type_String (AttrT _ name _) = Some (CHR ''@'' # name)"

text \<open>Two types are the same pointer when they are equal with their numbers.\<close>

fun IsAssignableTo :: "Type \<Rightarrow> Type \<Rightarrow> bool" where
  "IsAssignableTo src dst =
     (if src = dst then True
      else if dst = AnyType then True
      else
        (case dst of
           OptT _ d \<Rightarrow>
             (case src of
                OptT _ s \<Rightarrow> IsAssignableTo s d
              | _ \<Rightarrow> if src = NoneType then True else IsAssignableTo src d)
         | ListT _ d \<Rightarrow>
             (case src of ListT _ s \<Rightarrow> if s = AnyType then True else IsAssignableTo s d | _ \<Rightarrow> False)
         | MapT _ dk dv \<Rightarrow>
             (case src of MapT _ sk sv \<Rightarrow> IsAssignableTo sk dk \<and> IsAssignableTo sv dv | _ \<Rightarrow> False)
         | StructT _ dn \<Rightarrow> (case src of StructT _ sn \<Rightarrow> sn = dn | _ \<Rightarrow> False)
         | EnumT _ dn _ \<Rightarrow> (case src of EnumT _ sn _ \<Rightarrow> sn = dn | _ \<Rightarrow> False)
         | OpaqueT _ dn \<Rightarrow> (case src of OpaqueT _ sn \<Rightarrow> sn = dn | _ \<Rightarrow> False)
         | _ \<Rightarrow> False))"

declare IsAssignableTo.simps [simp del]

text \<open>Where the expected type may be nil, nothing is assignable to it.\<close>

definition assignable :: "Type \<Rightarrow> Type option \<Rightarrow> bool" where
  "assignable src dst = (case dst of None \<Rightarrow> False | Some d \<Rightarrow> IsAssignableTo src d)"

definition isOptional :: "Type option \<Rightarrow> bool" where
  "isOptional t = (case t of Some (OptT _ _) \<Rightarrow> True | _ \<Rightarrow> False)"

definition isListType :: "Type option \<Rightarrow> bool" where
  "isListType t = (case t of Some (ListT _ _) \<Rightarrow> True | _ \<Rightarrow> False)"

definition builtinByName :: "string \<Rightarrow> Type option" where
  "builtinByName name =
     (if name = ''string'' then Some StringType
      else if name = ''int'' then Some IntType
      else if name = ''bool'' then Some BoolType
      else if name = ''any'' then Some AnyType
      else None)"

section \<open>Scopes (scope.go)\<close>

datatype ScopeKind = ScopeFile | ScopeFunc | ScopeDecl | ScopeBlock

datatype SymbolKind = SymLet | SymParam | SymFunc | SymDecl | SymType | SymEnum | SymImport | SymAttrType

record Symbol =
  sy_Name :: string
  sy_Type :: "Type option"
  sy_Kind :: SymbolKind
  sy_IsPublic :: bool
  sy_Span :: TSpan

record ScopeFrame =
  sc_symbols :: "(string \<times> Symbol) list"
  sc_kind :: ScopeKind

text \<open>A scope with its parents, the innermost first. No list element is the nil scope.\<close>

type_synonym Scope = "ScopeFrame list"

definition NewScope :: "Scope \<Rightarrow> ScopeKind \<Rightarrow> Scope" where
  "NewScope parent k = \<lparr>sc_symbols = [], sc_kind = k\<rparr> # parent"

definition scope_Define :: "Symbol \<Rightarrow> Scope \<Rightarrow> bool \<times> Scope" where
  "scope_Define sy s =
     (case s of
        [] \<Rightarrow> (False, [])
      | f # fs \<Rightarrow>
          if map_of (sc_symbols f) (sy_Name sy) \<noteq> None then (False, s)
          else (True, f\<lparr>sc_symbols := sc_symbols f @ [(sy_Name sy, sy)]\<rparr> # fs))"

fun scope_Lookup :: "string \<Rightarrow> Scope \<Rightarrow> Symbol option" where
  "scope_Lookup name [] = None"
| "scope_Lookup name (f # fs) =
     (case map_of (sc_symbols f) name of Some sy \<Rightarrow> Some sy | None \<Rightarrow> scope_Lookup name fs)"

text \<open>Setting the type of the symbol that a lookup finds.\<close>

fun scope_set_type :: "string \<Rightarrow> Type option \<Rightarrow> Scope \<Rightarrow> Scope" where
  "scope_set_type name t [] = []"
| "scope_set_type name t (f # fs) =
     (if map_of (sc_symbols f) name \<noteq> None
      then f\<lparr>sc_symbols := map (\<lambda>(n, sy). (n, if n = name then sy\<lparr>sy_Type := t\<rparr> else sy)) (sc_symbols f)\<rparr> # fs
      else f # scope_set_type name t fs)"

definition PublicView :: "Scope \<Rightarrow> Scope" where
  "PublicView s =
     (case s of
        [] \<Rightarrow> []
      | f # _ \<Rightarrow> [\<lparr>sc_symbols = filter (\<lambda>(n, sy). sy_IsPublic sy) (sc_symbols f), sc_kind = sc_kind f\<rparr>])"

text \<open>The imports of all scopes, each name once. Their order does not matter for what the checker does with them.\<close>

fun AllImports_from :: "string list \<Rightarrow> Scope \<Rightarrow> Symbol list" where
  "AllImports_from seen [] = []"
| "AllImports_from seen (f # fs) =
     (let new = [sy. (n, sy) \<leftarrow> sc_symbols f, sy_Kind sy = SymImport \<and> n \<notin> set seen]
      in new @ AllImports_from (seen @ map sy_Name new) fs)"

definition AllImports :: "Scope \<Rightarrow> Symbol list" where
  "AllImports s = AllImports_from [] s"

fun AllowsMutation :: "Scope \<Rightarrow> bool" where
  "AllowsMutation [] = False"
| "AllowsMutation (f # fs) =
     (case sc_kind f of ScopeFunc \<Rightarrow> True | ScopeDecl \<Rightarrow> True | ScopeBlock \<Rightarrow> AllowsMutation fs | ScopeFile \<Rightarrow> False)"

section \<open>State (checker.go)\<close>

record CheckError =
  ce_Span :: TSpan
  ce_Code :: string
  ce_Msg :: string

text \<open>
  The fields of a Checker, with the fields of the struct and attribute types, the next number of a type, and the
  calls that were marked as method calls, with their module. An empty list of self fields is nil.
\<close>

record Checker =
  ck_scope :: Scope
  ck_errs :: "CheckError list"
  ck_modules :: "(string \<times> Scope) list"
  ck_selfFields :: "FieldDef list"
  ck_returnType :: "Type option"
  ck_modName :: string
  ck_allBindings :: "(string \<times> Symbol) list"
  ck_fields :: "FieldDef list list"
  ck_next :: nat
  ck_ufcs :: "(Expr \<times> string) list"

type_synonym 'a ck = "('a, Checker) comp"

definition ck_errAt :: "TSpan \<Rightarrow> string \<Rightarrow> string \<Rightarrow> unit ck" where
  "ck_errAt span code msg = modify (\<lambda>c. c\<lparr>ck_errs := ck_errs c @ [\<lparr>ce_Span = span, ce_Code = code, ce_Msg = msg\<rparr>]\<rparr>)"

text \<open>An error, and the nil type.\<close>

definition no_type :: "TSpan \<Rightarrow> string \<Rightarrow> string \<Rightarrow> Type option ck" where
  "no_type span code msg = ethen (ck_errAt span code msg) (ret None)"

definition ck_String :: "Type \<Rightarrow> string ck" where
  "ck_String t = (case type_String t of None \<Rightarrow> epanic ''nil pointer dereference'' | Some s \<Rightarrow> ret s)"

text \<open>A new type of a shape.\<close>

definition new_type :: "(nat \<Rightarrow> Type) \<Rightarrow> Type option ck" where
  "new_type mk c = Done (Some (mk (ck_next c))) (c\<lparr>ck_next := ck_next c + 1\<rparr>)"

definition new_fields :: "FieldDef list \<Rightarrow> nat ck" where
  "new_fields fs c = Done (length (ck_fields c)) (c\<lparr>ck_fields := ck_fields c @ [fs]\<rparr>)"

definition fields_at :: "nat \<Rightarrow> FieldDef list ck" where
  "fields_at n = gets (\<lambda>c. if n < length (ck_fields c) then ck_fields c ! n else [])"

definition add_field :: "nat \<Rightarrow> FieldDef \<Rightarrow> unit ck" where
  "add_field n f = modify (\<lambda>c. c\<lparr>ck_fields := (ck_fields c)[n := ck_fields c ! n @ [f]]\<rparr>)"

definition ck_Lookup :: "string \<Rightarrow> Symbol option ck" where
  "ck_Lookup name = gets (\<lambda>c. scope_Lookup name (ck_scope c))"

definition ck_Define :: "Symbol \<Rightarrow> bool ck" where
  "ck_Define sy c = (let (ok, s) = scope_Define sy (ck_scope c) in Done ok (c\<lparr>ck_scope := s\<rparr>))"

text \<open>Define where the code does not look at the answer.\<close>

definition define_only :: "Symbol \<Rightarrow> unit ck" where
  "define_only sy = ebind (ck_Define sy) (\<lambda>_. ret ())"

definition recordBinding :: "Symbol \<Rightarrow> unit ck" where
  "recordBinding sy =
     (if sy_Kind sy = SymImport then ret ()
      else modify (\<lambda>c. c\<lparr>ck_allBindings := AList.update (sy_Name sy) sy (ck_allBindings c)\<rparr>))"

definition pushScope :: "ScopeKind \<Rightarrow> unit ck" where
  "pushScope k = modify (\<lambda>c. c\<lparr>ck_scope := NewScope (ck_scope c) k\<rparr>)"

definition popScope :: "unit ck" where
  "popScope = modify (\<lambda>c. c\<lparr>ck_scope := (case ck_scope c of _ # f # fs \<Rightarrow> f # fs | s \<Rightarrow> s)\<rparr>)"

text \<open>check.New.\<close>

definition New_checker :: "(string \<times> Scope) list \<Rightarrow> FieldDef list list \<Rightarrow> nat \<Rightarrow> Checker" where
  "New_checker modules fds n =
     \<lparr>ck_scope = [], ck_errs = [], ck_modules = modules, ck_selfFields = [], ck_returnType = None, ck_modName = [],
      ck_allBindings = [], ck_fields = fds, ck_next = n, ck_ufcs = []\<rparr>"

end
