(* ===== verification/Checker.thy ===== *)
theory Checker
  imports Check_Types
begin

text \<open>
  The type checker (internal/lang/check/checker.go, expr.go, attribute.go and bootstrap.go). Expressions,
  statements and blocks are checked by functions that recurse on the tree together; a nil type stands for a
  type that an error has left open.
\<close>

section \<open>Names\<close>

text \<open>The type of a member of a module, and of a chain of members of that.\<close>

fun chainAccess :: "Type option \<Rightarrow> Ident list \<Rightarrow> TSpan \<Rightarrow> Type option ck" where
  "chainAccess t [] span = ret t"
| "chainAccess None (part # parts) span = ret None"
| "chainAccess (Some t) (part # parts) span =
     (case t of
        EnumT _ name variants \<Rightarrow>
          if id_Name part \<in> set variants then ret (Some t)
          else no_type (id_Span part) ''lang.NoVariant'' (''no variant '' @ id_Name part @ '' on enum '' @ name)
      | StructT n name \<Rightarrow>
          ebind (fields_at n) (\<lambda>fs.
            case find (\<lambda>f. fdef_Name f = id_Name part) fs of
              Some f \<Rightarrow> chainAccess (fdef_Type f) parts span
            | None \<Rightarrow> no_type (id_Span part) ''lang.NoField'' (''no field '' @ id_Name part @ '' on '' @ name))
      | _ \<Rightarrow>
          ebind (ck_String t) (\<lambda>s.
            no_type span ''lang.CannotAccess'' (''cannot access .'' @ id_Name part @ '' on '' @ s)))"

definition resolveModuleMember :: "string \<Rightarrow> Ident list \<Rightarrow> TSpan \<Rightarrow> Type option ck" where
  "resolveModuleMember modName parts span =
     ebind (gets (\<lambda>c. map_of (ck_modules c) modName)) (\<lambda>m.
       case m of
         None \<Rightarrow> no_type span ''lang.UnknownModule'' (''unknown module: '' @ modName)
       | Some md \<Rightarrow>
           (let p = hd parts
            in case scope_Lookup (id_Name p) md of
                 None \<Rightarrow> no_type (id_Span p) ''lang.ModuleMemberUndef'' (modName @ ''.'' @ id_Name p @ '': undefined'')
               | Some sy \<Rightarrow> if length parts = 1 then ret (sy_Type sy) else chainAccess (sy_Type sy) (tl parts) span))"

definition resolveIdent :: "Ident \<Rightarrow> Type option ck" where
  "resolveIdent i =
     ebind (ck_Lookup (id_Name i)) (\<lambda>s.
       case s of
         None \<Rightarrow> no_type (id_Span i) ''lang.Undefined'' (''undefined: '' @ id_Name i)
       | Some sy \<Rightarrow> ret (sy_Type sy))"

definition resolveDottedName :: "DottedName \<Rightarrow> Type option ck" where
  "resolveDottedName dn =
     (case dn_Parts dn of
        [] \<Rightarrow> ret None
      | p # ps \<Rightarrow>
          ebind (ck_Lookup (id_Name p)) (\<lambda>s.
            case s of
              None \<Rightarrow> no_type (id_Span p) ''lang.Undefined'' (''undefined: '' @ id_Name p)
            | Some sy \<Rightarrow>
                if ps = [] then ret (sy_Type sy)
                else if sy_Kind sy \<noteq> SymImport
                then no_type (dn_Span dn) ''lang.NotAModule'' (id_Name p @ '' is not a module'')
                else resolveModuleMember (id_Name p) ps (dn_Span dn)))"

text \<open>The name of an import, in scope.\<close>

definition is_import :: "Expr \<Rightarrow> bool ck" where
  "is_import x =
     (case x of
        IdentE i \<Rightarrow> ebind (ck_Lookup (id_Name i)) (\<lambda>s. ret (case s of Some sy \<Rightarrow> sy_Kind sy = SymImport | None \<Rightarrow> False))
      | _ \<Rightarrow> ret False)"

section \<open>Type expressions (checker.go)\<close>

definition resolveNamedType :: "DottedName \<Rightarrow> TSpan \<Rightarrow> Type option ck" where
  "resolveNamedType dn span =
     (case dn_Parts dn of
        [] \<Rightarrow> epanic ''index out of range''
      | [p] \<Rightarrow>
          (case builtinByName (id_Name p) of
             Some t \<Rightarrow> ret (Some t)
           | None \<Rightarrow>
               ebind (ck_Lookup (id_Name p)) (\<lambda>s.
                 case s of
                   Some sy \<Rightarrow>
                     if sy_Kind sy \<in> {SymType, SymEnum, SymDecl} then ret (sy_Type sy)
                     else no_type span ''lang.UnknownType'' (''unknown type: '' @ id_Name p)
                 | None \<Rightarrow> no_type span ''lang.UnknownType'' (''unknown type: '' @ id_Name p)))
      | p # ps \<Rightarrow>
          ebind (ck_Lookup (id_Name p)) (\<lambda>s.
            case s of
              Some sy \<Rightarrow>
                if sy_Kind sy = SymImport then resolveModuleMember (id_Name p) ps span
                else no_type span ''lang.UnknownType'' (''unknown type: '' @ id_Name p)
            | None \<Rightarrow> no_type span ''lang.UnknownType'' (''unknown type: '' @ id_Name p)))"

text \<open>A type built from one that is known.\<close>

definition wrap_type :: "(nat \<Rightarrow> Type \<Rightarrow> Type) \<Rightarrow> Type option \<Rightarrow> Type option ck" where
  "wrap_type mk t = (case t of None \<Rightarrow> ret None | Some t \<Rightarrow> new_type (\<lambda>n. mk n t))"

fun resolveType :: "TypeExpr \<Rightarrow> Type option ck" where
  "resolveType NilT = ret None"
| "resolveType (NamedType dn span) = resolveNamedType dn span"
| "resolveType (OptionalType t span) = ebind (resolveType t) (wrap_type OptT)"
| "resolveType (GenericType name args span) =
     (if id_Name name = ''list''
      then
        (case args of
           [t] \<Rightarrow> ebind (resolveType t) (wrap_type ListT)
         | _ \<Rightarrow> no_type span ''lang.GenericArgCount'' ''list takes exactly 1 type argument'')
      else if id_Name name = ''map''
      then
        (case args of
           [k, v] \<Rightarrow>
             ebind (resolveType k) (\<lambda>kt. ebind (resolveType v) (\<lambda>vt.
               case kt of None \<Rightarrow> ret None | Some kt \<Rightarrow> wrap_type (\<lambda>n. MapT n kt) vt))
         | _ \<Rightarrow> no_type span ''lang.GenericArgCount'' ''map takes exactly 2 type arguments'')
      else if id_Name name = ''block''
      then
        (case args of
           [t] \<Rightarrow> ebind (resolveType t) (wrap_type BlockT)
         | _ \<Rightarrow> no_type span ''lang.GenericArgCount'' ''block takes exactly 1 type argument'')
      else no_type span ''lang.UnknownGenericType'' (''unknown generic type: '' @ id_Name name))"

section \<open>Calls (expr.go)\<close>

text \<open>joinSorted: insertion from the right; the list is kept with its last element first.\<close>

fun place :: "string \<Rightarrow> string list \<Rightarrow> string list" where
  "place x [] = [x]"
| "place x (y # ys) = (if x < y then y # place x ys else x # y # ys)"

definition joinSorted :: "string list \<Rightarrow> string" where
  "joinSorted xs = strings_Join '', '' (rev (foldl (\<lambda>acc x. place x acc) [] xs))"

text \<open>A function type whose first parameter takes a receiver of a type.\<close>

definition accepts_receiver :: "Type \<Rightarrow> Type option \<Rightarrow> bool" where
  "accepts_receiver xType t =
     (case t of Some (FuncT _ (p # _) _) \<Rightarrow> assignable xType (fdef_Type p) | _ \<Rightarrow> False)"

definition ufcs_candidates :: "Type \<Rightarrow> string \<Rightarrow> (string \<times> Scope) list \<Rightarrow> Symbol list \<Rightarrow> (string \<times> Type) list" where
  "ufcs_candidates xType name modules imports =
     List.map_filter (\<lambda>sy.
       case map_of modules (sy_Name sy) of
         None \<Rightarrow> None
       | Some md \<Rightarrow>
           (case scope_Lookup name md of
              None \<Rightarrow> None
            | Some m \<Rightarrow>
                if accepts_receiver xType (sy_Type m) then map_option (\<lambda>t. (sy_Name sy, t)) (sy_Type m) else None)) imports"

text \<open>The functions of the imported modules, where the local scope has none; more than one is an error.\<close>

definition ufcs_import :: "Type \<Rightarrow> Ident \<Rightarrow> TSpan \<Rightarrow> (Type \<times> string) option ck" where
  "ufcs_import xType sel span =
     ebind (gets (\<lambda>c. ufcs_candidates xType (id_Name sel) (ck_modules c) (AllImports (ck_scope c)))) (\<lambda>cands.
       case cands of
         [] \<Rightarrow> ret None
       | [(m, t)] \<Rightarrow> ret (Some (t, m))
       | _ \<Rightarrow>
           ethen (ck_errAt span ''lang.AmbiguousUFCS''
                    (''ambiguous UFCS: '' @ id_Name sel @ '' matches '' @
                     joinSorted (map (\<lambda>(m, t). m @ ''.'' @ id_Name sel) cands) @
                     '' - call one of them explicitly to disambiguate''))
             (ret None))"

text \<open>The part of detectUFCS after the type of the receiver: the function and its module, empty for the local scope.\<close>

definition ufcs_lookup :: "Type option \<Rightarrow> Ident \<Rightarrow> TSpan \<Rightarrow> (Type \<times> string) option ck" where
  "ufcs_lookup t sel span =
     (case t of
        None \<Rightarrow> ret None
      | Some xType \<Rightarrow>
          ebind (case xType of StructT n _ \<Rightarrow> fields_at n | _ \<Rightarrow> ret []) (\<lambda>fs.
            if \<exists>f \<in> set fs. fdef_Name f = id_Name sel then ret None
            else
              ebind (ck_Lookup (id_Name sel)) (\<lambda>s.
                case s of
                  Some sy \<Rightarrow>
                    if accepts_receiver xType (sy_Type sy) then ret (map_option (\<lambda>t. (t, [])) (sy_Type sy))
                    else ufcs_import xType sel span
                | None \<Rightarrow> ufcs_import xType sel span)))"

text \<open>The call is marked for the evaluator, and a function type has these parameters and this result.\<close>

definition mark_ufcs :: "Expr \<Rightarrow> string \<Rightarrow> unit ck" where
  "mark_ufcs call m = modify (\<lambda>c. c\<lparr>ck_ufcs := ck_ufcs c @ [(call, m)]\<rparr>)"

definition func_params :: "Type \<Rightarrow> FieldDef list" where
  "func_params t = (case t of FuncT _ ps _ \<Rightarrow> ps | _ \<Rightarrow> [])"

definition func_ret :: "Type \<Rightarrow> Type option" where
  "func_ret t = (case t of FuncT _ _ r \<Rightarrow> r | _ \<Rightarrow> None)"

definition is_func :: "Type \<Rightarrow> bool" where
  "is_func t = (case t of FuncT _ _ _ \<Rightarrow> True | _ \<Rightarrow> False)"

text \<open>The two parts of typeCheckCallArgs: the number of arguments, and one argument with its type.\<close>

definition check_arg_count :: "FieldDef list \<Rightarrow> nat \<Rightarrow> nat \<Rightarrow> TSpan \<Rightarrow> unit ck" where
  "check_arg_count params off n span =
     (let minArgs = length (filter (\<lambda>p. \<not> fdef_HasDef p \<and> \<not> isOptional (fdef_Type p)) (drop off params))
      in ethen (if n < minArgs then ck_errAt span ''lang.TooFewArgs'' ''too few arguments'' else ret ())
           (if length params - off < n then ck_errAt span ''lang.TooManyArgs'' ''too many arguments'' else ret ()))"

definition param_type :: "FieldDef list \<Rightarrow> nat \<Rightarrow> nat \<Rightarrow> Ident option \<Rightarrow> Type option" where
  "param_type params off i name =
     (case name of
        Some n \<Rightarrow>
          (case find (\<lambda>p. fdef_Name p = id_Name n) (drop off params) of Some p \<Rightarrow> fdef_Type p | None \<Rightarrow> None)
      | None \<Rightarrow> if i < length params - off then fdef_Type (params ! (off + i)) else None)"

text \<open>An error unless a value of a type can be used where another is expected; nil types are let through.\<close>

definition mismatch :: "Type option \<Rightarrow> Type option \<Rightarrow> TSpan \<Rightarrow> string \<Rightarrow> string \<Rightarrow> unit ck" where
  "mismatch got want span code what =
     (case got of
        None \<Rightarrow> ret ()
      | Some g \<Rightarrow>
          (case want of
             None \<Rightarrow> ret ()
           | Some w \<Rightarrow>
               if IsAssignableTo g w then ret ()
               else
                 ebind (ck_String g) (\<lambda>gs. ebind (ck_String w) (\<lambda>ws.
                   ck_errAt span code (what @ ''got '' @ gs @ '', want '' @ ws)))))"

section \<open>Fields of literals\<close>

definition check_required :: "FieldDef list \<Rightarrow> string list \<Rightarrow> TSpan \<Rightarrow> unit ck" where
  "check_required decl seen span =
     eiter (\<lambda>d.
       if \<not> fdef_HasDef d \<and> \<not> isOptional (fdef_Type d) \<and> fdef_Name d \<notin> set seen
       then ck_errAt span ''lang.MissingField'' (''missing required field: '' @ fdef_Name d)
       else ret ()) decl"

text \<open>A let-bound block variable that a literal fills.\<close>

definition block_fill :: "TypeExpr \<Rightarrow> Type option ck" where
  "block_fill t =
     (case t of
        NamedType dn _ \<Rightarrow>
          (case dn_Parts dn of
             [p] \<Rightarrow>
               ebind (ck_Lookup (id_Name p)) (\<lambda>s.
                 ret (case s of
                        Some sy \<Rightarrow>
                          if sy_Kind sy = SymLet then (case sy_Type sy of Some (BlockT _ inner) \<Rightarrow> Some inner | _ \<Rightarrow> None)
                          else None
                      | None \<Rightarrow> None))
           | _ \<Rightarrow> ret None)
      | _ \<Rightarrow> ret None)"

section \<open>Operators\<close>

definition is_type :: "Type \<Rightarrow> Type option \<Rightarrow> bool" where
  "is_type t u \<longleftrightarrow> u = Some t"

text \<open>An error unless a type is open or bool (or int).\<close>

definition require_type :: "Type \<Rightarrow> Type option \<Rightarrow> TSpan \<Rightarrow> string \<Rightarrow> string \<Rightarrow> unit ck" where
  "require_type want t span code what =
     (case t of
        None \<Rightarrow> ret ()
      | Some t \<Rightarrow> if t = want then ret () else ebind (ck_String t) (\<lambda>s. ck_errAt span code (what @ s)))"

definition binary_type :: "Kind \<Rightarrow> Type option \<Rightarrow> Type option \<Rightarrow> Expr \<Rightarrow> Expr \<Rightarrow> TSpan \<Rightarrow> Type option ck" where
  "binary_type op lt rt l r span =
     (if op = K_Plus
      then
        (if is_type StringType lt \<and> is_type StringType rt then ret (Some StringType)
         else if is_type IntType lt \<and> is_type IntType rt then ret (Some IntType)
         else if isListType lt \<and> isListType rt then ret lt
         else
           (case lt of
              None \<Rightarrow> ret None
            | Some a \<Rightarrow>
                (case rt of
                   None \<Rightarrow> ret None
                 | Some b \<Rightarrow>
                     ebind (ck_String a) (\<lambda>s1. ebind (ck_String b) (\<lambda>s2.
                       no_type span ''lang.CannotAdd'' (''cannot add '' @ s1 @ '' and '' @ s2))))))
      else if op \<in> {K_Minus, K_Star, K_Slash, K_Percent}
      then
        (if is_type IntType lt \<and> is_type IntType rt then ret (Some IntType)
         else if lt \<noteq> None \<and> rt \<noteq> None then no_type span ''lang.ArithNotInt'' ''arithmetic requires int operands''
         else ret None)
      else if op \<in> {K_Eq, K_Neq, K_Lt, K_Gt, K_Leq, K_Geq} then ret (Some BoolType)
      else if op = K_And \<or> op = K_Or
      then
        ethen (require_type BoolType lt (expr_Span l) ''lang.BoolOpNotBool'' ''&& and || require bool operands, got '')
          (ethen (require_type BoolType rt (expr_Span r) ''lang.BoolOpNotBool'' ''&& and || require bool operands, got '')
             (ret (Some BoolType)))
      else if op = K_In then ret (Some BoolType)
      else ret None)"

definition unary_type :: "Kind \<Rightarrow> Type option \<Rightarrow> TSpan \<Rightarrow> Type option ck" where
  "unary_type op xt span =
     (if op = K_Not
      then ethen (require_type BoolType xt span ''lang.NotOpNotBool'' ''! requires bool operand, got '') (ret (Some BoolType))
      else if op = K_Minus
      then
        ethen (require_type IntType xt span ''lang.UnaryMinusNotInt'' ''unary minus requires int operand, got '')
          (ret (Some IntType))
      else ret None)"

text \<open>The optional part of a type is unwrapped before it is indexed.\<close>

definition index_type :: "Type option \<Rightarrow> Type option \<Rightarrow> Expr \<Rightarrow> TSpan \<Rightarrow> Type option ck" where
  "index_type xType idxType idx span =
     (case xType of
        None \<Rightarrow> ret None
      | Some x \<Rightarrow>
          (case (case x of OptT _ t \<Rightarrow> t | _ \<Rightarrow> x) of
             ListT _ elem \<Rightarrow>
               ethen (require_type IntType idxType (expr_Span idx) ''lang.ListIndexNotInt'' ''list index must be int, got '')
                 (ret (Some elem))
           | MapT _ key val \<Rightarrow>
               ethen (case idxType of
                        None \<Rightarrow> ret ()
                      | Some t \<Rightarrow>
                          if IsAssignableTo t key then ret ()
                          else ck_errAt (expr_Span idx) ''lang.MapKeyMismatch'' ''map key type mismatch'')
                 (ret (Some val))
           | t \<Rightarrow> ebind (ck_String t) (\<lambda>s. no_type span ''lang.CannotIndex'' (''cannot index '' @ s))))"

definition first_type :: "Type option list \<Rightarrow> Type" where
  "first_type ts = (case find (\<lambda>t. t \<noteq> None) ts of Some (Some t) \<Rightarrow> t | _ \<Rightarrow> AnyType)"

definition new_list_type :: "Type \<Rightarrow> Type option ck" where
  "new_list_type t = new_type (\<lambda>n. ListT n t)"

definition selfType :: "Type option ck" where
  "selfType =
     ebind (gets ck_selfFields) (\<lambda>fs.
       if fs = [] then no_type no_span ''lang.SelfOutsideStep'' ''self used outside of step body''
       else ebind (new_fields fs) (\<lambda>n. ret (Some (StructT n ''self''))))"

text \<open>The type of a field or of a variant of an enum.\<close>

definition selector_type :: "Type option \<Rightarrow> Ident \<Rightarrow> TSpan \<Rightarrow> Type option ck" where
  "selector_type xType sel span =
     (case xType of
        None \<Rightarrow> ret None
      | Some t \<Rightarrow>
          (case t of
             StructT n name \<Rightarrow>
               ebind (fields_at n) (\<lambda>fs.
                 case find (\<lambda>f. fdef_Name f = id_Name sel) fs of
                   Some f \<Rightarrow> ret (fdef_Type f)
                 | None \<Rightarrow> no_type (id_Span sel) ''lang.NoField'' (''no field '' @ id_Name sel @ '' on '' @ name))
           | EnumT _ name variants \<Rightarrow>
               if id_Name sel \<in> set variants then ret (Some t)
               else no_type (id_Span sel) ''lang.NoVariant'' (''no variant '' @ id_Name sel @ '' on enum '' @ name)
           | _ \<Rightarrow>
               ebind (ck_String t) (\<lambda>s.
                 no_type span ''lang.CannotAccess'' (''cannot access .'' @ id_Name sel @ '' on '' @ s))))"

section \<open>Bindings\<close>

definition local_symbol :: "Ident \<Rightarrow> Type option \<Rightarrow> SymbolKind \<Rightarrow> TSpan \<Rightarrow> Symbol" where
  "local_symbol name t k span = \<lparr>sy_Name = id_Name name, sy_Type = t, sy_Kind = k, sy_IsPublic = False, sy_Span = span\<rparr>"

definition for_var :: "Ident \<Rightarrow> Type option \<Rightarrow> unit ck" where
  "for_var v t =
     (case t of
        Some (ListT _ elem) \<Rightarrow>
          (let sy = local_symbol v (Some elem) SymLet (id_Span v) in ethen (define_only sy) (recordBinding sy))
      | _ \<Rightarrow> ret ())"

text \<open>The part of checkLetDecl after the types: a let symbol that is in scope gets the type, whichever scope it is in.\<close>

definition bind_let :: "Ident \<Rightarrow> Type option \<Rightarrow> Type option \<Rightarrow> TSpan \<Rightarrow> unit ck" where
  "bind_let name declared inferred span =
     ethen (mismatch inferred declared span ''lang.LetTypeMismatch'' ''let type mismatch: '')
       (let resolved = (if declared \<noteq> None then declared else inferred)
        in ebind (ck_Lookup (id_Name name)) (\<lambda>s.
             case s of
               Some sy \<Rightarrow>
                 if sy_Kind sy = SymLet
                 then
                   ethen (modify (\<lambda>c. c\<lparr>ck_scope := scope_set_type (id_Name name) resolved (ck_scope c)\<rparr>))
                     (recordBinding (sy\<lparr>sy_Type := resolved\<rparr>))
                 else
                   (let n = local_symbol name resolved SymLet span in ethen (define_only n) (recordBinding n))
             | None \<Rightarrow>
                 (let n = local_symbol name resolved SymLet span in ethen (define_only n) (recordBinding n))))"

section \<open>Expressions and statements\<close>

text \<open>
  typeOf and the callback of the walk over statements. A call with a selector first asks whether it is a method call,
  for which the receiver is typed; where it is not one, the callee with its receiver is typed again.
\<close>

function (sequential)
  typeOf :: "Expr \<Rightarrow> Type option ck" and
  checkStructLit :: "TypeExpr \<Rightarrow> FieldInit list \<Rightarrow> Stmt list \<Rightarrow> TSpan \<Rightarrow> Type option ck" and
  checkBlockExpr :: "Expr \<Rightarrow> Block option \<Rightarrow> Type option ck" and
  checkCall :: "Expr \<Rightarrow> CallArg list \<Rightarrow> bool \<Rightarrow> string \<Rightarrow> TSpan \<Rightarrow> Type option ck" and
  resolveSelector :: "Expr \<Rightarrow> Ident \<Rightarrow> TSpan \<Rightarrow> Type option ck" and
  checkIfExpr :: "Expr \<Rightarrow> Expr \<Rightarrow> Expr \<Rightarrow> Type option ck" and
  checkListComp :: "Expr \<Rightarrow> Ident option \<Rightarrow> Expr \<Rightarrow> Expr \<Rightarrow> Type option ck" and
  typesOf :: "Expr list \<Rightarrow> Type option list ck" and
  map_values :: "(Expr \<times> Expr) list \<Rightarrow> Type option \<Rightarrow> Type option ck" and
  checkStringParts :: "StringPart list \<Rightarrow> unit ck" and
  init_values :: "FieldInit list \<Rightarrow> unit ck" and
  checkFieldInits :: "FieldDef list \<Rightarrow> string \<Rightarrow> TSpan \<Rightarrow> FieldInit list \<Rightarrow> string list \<Rightarrow> unit ck" and
  call_args :: "FieldDef list \<Rightarrow> nat \<Rightarrow> nat \<Rightarrow> CallArg list \<Rightarrow> unit ck" and
  checkLetDecl :: "LetDecl \<Rightarrow> unit ck" and
  walkStmt :: "Stmt \<Rightarrow> unit ck" and
  walkStmts :: "Stmt list \<Rightarrow> unit ck" and
  walkBlock :: "Block \<Rightarrow> unit ck"
where
  "typeOf NilE = ret None"
| "typeOf (IdentE i) = resolveIdent i"
| "typeOf (DottedNameE dn) = resolveDottedName dn"
| "typeOf (ParenExpr x _) = typeOf x"
| "typeOf (IntLit _ _ _) = ret (Some IntType)"
| "typeOf (StringLit parts _ _ _) = ethen (checkStringParts parts) (ret (Some StringType))"
| "typeOf (BoolLit _ _) = ret (Some BoolType)"
| "typeOf (NoneLit _) = ret (Some NoneType)"
| "typeOf (SelfLit _) = selfType"
| "typeOf (ListLit items _) =
     (if items = [] then new_list_type AnyType
      else ebind (typesOf items) (\<lambda>ts. new_list_type (first_type ts)))"
| "typeOf (MapLit es _) =
     ebind (map_values es None) (\<lambda>v. new_type (\<lambda>n. MapT n StringType (case v of None \<Rightarrow> AnyType | Some t \<Rightarrow> t)))"
| "typeOf (StructLit t inits body span) = checkStructLit t inits body span"
| "typeOf (BlockExpr target b _) = checkBlockExpr target b"
| "typeOf (CallExpr fn args u m span) = checkCall fn args u m span"
| "typeOf (SelectorExpr x sel span) = resolveSelector x sel span"
| "typeOf (IndexExpr x idx span) = ebind (typeOf x) (\<lambda>xt. ebind (typeOf idx) (\<lambda>it. index_type xt it idx span))"
| "typeOf (BinaryExpr op l r span) = ebind (typeOf l) (\<lambda>lt. ebind (typeOf r) (\<lambda>rt. binary_type op lt rt l r span))"
| "typeOf (UnaryExpr op x span) = ebind (typeOf x) (\<lambda>t. unary_type op t span)"
| "typeOf (IfExpr cnd th el _) = checkIfExpr cnd th el"
| "typeOf (ListComp x v it cnd _) = checkListComp x v it cnd"
| "typeOf (MapComp k v vs it cnd span) = no_type span ''lang.IndeterminateType'' ''cannot determine type of expression''"
| "checkStructLit t inits body span =
     (if t = NilT then ethen (init_values inits) (new_type (\<lambda>n. MapT n StringType AnyType))
      else
        ebind (block_fill t) (\<lambda>fill.
          case fill of
            Some inner \<Rightarrow> ethen (walkStmts body) (ret (Some inner))
          | None \<Rightarrow>
              ebind (resolveType t) (\<lambda>rt.
                case rt of
                  None \<Rightarrow> ret None
                | Some (OpaqueT _ name) \<Rightarrow> no_type span ''lang.OpaqueConstruct'' (''cannot construct opaque type '' @ name)
                | Some (StructT n name) \<Rightarrow>
                    ebind (fields_at n) (\<lambda>fs. ethen (checkFieldInits fs name span inits []) (ret rt))
                | Some (DeclT _ name ps r _) \<Rightarrow>
                    ethen (checkFieldInits ps name span inits []) (ethen (walkStmts body) (ret r))
                | Some other \<Rightarrow>
                    ebind (ck_String other) (\<lambda>s.
                      no_type span ''lang.NotStructOrDecl'' (s @ '' is not a struct or decl type'')))))"
| "checkBlockExpr target b =
     ebind (typeOf target) (\<lambda>tt.
       case tt of
         None \<Rightarrow> ret None
       | Some (BlockT _ inner) \<Rightarrow>
           ethen (case b of
                    None \<Rightarrow> ret ()
                  | Some body \<Rightarrow> ethen (pushScope ScopeDecl) (ethen (walkBlock body) popScope))
             (ret (Some inner))
       | Some other \<Rightarrow>
           ebind (ck_String other) (\<lambda>s.
             no_type (expr_Span target) ''lang.NotBlockType'' (s @ '' is not a block type'')))"
| "checkCall fn args u m span =
     ebind
       (case fn of
          SelectorExpr x sel _ \<Rightarrow>
            ebind (is_import x) (\<lambda>i. if i then ret None else ebind (typeOf x) (\<lambda>t. ufcs_lookup t sel span))
        | _ \<Rightarrow> ret None)
       (\<lambda>method.
          case method of
            Some (ft, md) \<Rightarrow>
              ethen (mark_ufcs (CallExpr fn args u m span) md)
                (ethen (check_arg_count (func_params ft) 1 (length args) span)
                  (ethen (call_args (func_params ft) 1 0 args) (ret (func_ret ft))))
          | None \<Rightarrow>
              ebind (typeOf fn) (\<lambda>ft.
                case ft of
                  None \<Rightarrow> ret None
                | Some ft \<Rightarrow>
                    if is_func ft
                    then
                      ethen (check_arg_count (func_params ft) 0 (length args) span)
                        (ethen (call_args (func_params ft) 0 0 args) (ret (func_ret ft)))
                    else ebind (ck_String ft) (\<lambda>s. no_type span ''lang.CannotCall'' (''cannot call '' @ s))))"
| "resolveSelector x sel span =
     ebind (is_import x) (\<lambda>i.
       if i then (case x of IdentE d \<Rightarrow> resolveModuleMember (id_Name d) [sel] span | _ \<Rightarrow> ret None)
       else ebind (typeOf x) (\<lambda>t. selector_type t sel span))"
| "checkIfExpr cnd th el =
     ebind (typeOf cnd) (\<lambda>ct.
       ethen (require_type BoolType ct (expr_Span cnd) ''lang.IfNotBool'' ''if condition must be bool, got '')
         (ebind (typeOf th) (\<lambda>tt. ebind (typeOf el) (\<lambda>_. ret tt))))"
| "checkListComp x v it cnd =
     ebind (typeOf it) (\<lambda>t.
       case t of
         Some (ListT _ elem) \<Rightarrow>
           (case v of
              None \<Rightarrow> epanic ''nil pointer dereference''
            | Some i \<Rightarrow>
                ethen (pushScope ScopeBlock) (ethen (define_only (local_symbol i (Some elem) SymLet (id_Span i)))
                  (ebind (typeOf x) (\<lambda>et. ebind (typeOf cnd) (\<lambda>_. ethen popScope
                    (new_list_type (case et of None \<Rightarrow> AnyType | Some t \<Rightarrow> t)))))))
       | _ \<Rightarrow> new_list_type AnyType)"
| "typesOf [] = ret []"
| "typesOf (x # xs) = ebind (typeOf x) (\<lambda>t. ebind (typesOf xs) (\<lambda>ts. ret (t # ts)))"
| "map_values [] acc = ret acc"
| "map_values ((k, v) # es) acc =
     ebind (typeOf k) (\<lambda>_. ebind (typeOf v) (\<lambda>vt.
       map_values es
         (case vt of
            None \<Rightarrow> acc
          | Some t \<Rightarrow> (case acc of None \<Rightarrow> Some t | Some a \<Rightarrow> if a = t then acc else Some AnyType))))"
| "checkStringParts [] = ret ()"
| "checkStringParts (StringText _ _ # ps) = checkStringParts ps"
| "checkStringParts (StringInterp x _ # ps) = ebind (typeOf x) (\<lambda>_. checkStringParts ps)"
| "init_values [] = ret ()"
| "init_values (FieldInit _ x _ # fs) = ebind (typeOf x) (\<lambda>_. init_values fs)"
| "checkFieldInits decl tname span [] seen = check_required decl seen span"
| "checkFieldInits decl tname span (FieldInit n x s # fs) seen =
     (if id_Name n \<in> set seen
      then ethen (ck_errAt s ''lang.DuplicateField'' (''duplicate field: '' @ id_Name n)) (checkFieldInits decl tname span fs seen)
      else
        (case find (\<lambda>d. fdef_Name d = id_Name n) (rev decl) of
           None \<Rightarrow>
             ethen (ck_errAt (id_Span n) ''lang.UnknownField'' (''unknown field '' @ id_Name n @ '' on '' @ tname))
               (checkFieldInits decl tname span fs (id_Name n # seen))
         | Some d \<Rightarrow>
             ebind (typeOf x) (\<lambda>vt.
               ethen (mismatch vt (fdef_Type d) s ''lang.FieldTypeMismatch'' (''field '' @ id_Name n @ '': ''))
                 (checkFieldInits decl tname span fs (id_Name n # seen)))))"
| "call_args params off i [] = ret ()"
| "call_args params off i (CallArg name x # as) =
     ebind (typeOf x) (\<lambda>t.
       ethen (mismatch t (param_type params off i name) (expr_Span x) ''lang.ArgTypeMismatch'' ''argument type mismatch: '')
         (call_args params off (i + 1) as))"
| "checkLetDecl (LetDecl name typ x _ span) =
     ebind (resolveType typ) (\<lambda>declared. ebind (typeOf x) (\<lambda>inferred. bind_let name declared inferred span))"
| "walkStmt (LetStmt d) = checkLetDecl d"
| "walkStmt (ForStmt v it b _) =
     ethen (pushScope ScopeBlock) (ebind (typeOf it) (\<lambda>t. ethen (for_var v t)
       (ethen (case b of None \<Rightarrow> ret () | Some body \<Rightarrow> walkBlock body) popScope)))"
| "walkStmt (IfStmt cnd th el _) =
     ebind (typeOf cnd) (\<lambda>ct.
       ethen (require_type BoolType ct (expr_Span cnd) ''lang.IfNotBool'' ''if condition must be bool, got '')
         (ethen (pushScope ScopeBlock)
           (ethen (case th of None \<Rightarrow> ret () | Some b \<Rightarrow> walkBlock b)
             (ethen popScope
               (case el of
                  None \<Rightarrow> ret ()
                | Some b \<Rightarrow> ethen (pushScope ScopeBlock) (ethen (walkBlock b) popScope))))))"
| "walkStmt (ReturnStmt x span) =
     (if x = NilE then ret ()
      else
        ebind (typeOf x) (\<lambda>vt. ebind (gets ck_returnType) (\<lambda>rt.
          mismatch vt rt span ''lang.ReturnTypeMismatch'' ''return type mismatch: '')))"
| "walkStmt (ExprStmt x) = ebind (typeOf x) (\<lambda>_. ret ())"
| "walkStmt (AssignStmt t x span) =
     ebind (gets (\<lambda>c. AllowsMutation (ck_scope c))) (\<lambda>ok.
       ethen (if ok then ret ()
              else ck_errAt span ''lang.MutationOutsideFunc'' ''mutation not allowed outside func/decl bodies'')
         (ebind (typeOf t) (\<lambda>_. ebind (typeOf x) (\<lambda>_. ret ()))))"
| "walkStmt NilStmt = ret ()"
| "walkStmts [] = ret ()"
| "walkStmts (s # ss) = ethen (walkStmt s) (walkStmts ss)"
| "walkBlock (Block sts _) = walkStmts sts"
  by pat_completeness auto
termination
  by (relation "measure     (case_sum (case_sum (case_sum (case_sum (\<lambda>x. 2 * size x) (\<lambda>(t, is, b, s). Suc (2 *
    (size_list size is + size_list size b)))) (case_sum (\<lambda>(x, b). Suc (2 * (size x + size_option size b)))
    (\<lambda>(x, as, u, m, s). Suc (2 * (size x + size_list size as))))) (case_sum (case_sum (\<lambda>(x, i, s).
    Suc (2 * size x)) (\<lambda>(c, t, e). Suc (2 * (size c + size t + size e)))) (case_sum (\<lambda>(x, v, i,
    c). Suc (2 * (size x + size i + size c))) (\<lambda>xs. 2 * size_list size xs)))) (case_sum (case_sum
    (case_sum (\<lambda>(es, acc). 2 * size_list (size_prod size size) es) (\<lambda>ps. 2 * size_list size ps))
    (case_sum (\<lambda>is. 2 * size_list size is) (\<lambda>(d, n, s, is, seen). 2 * size_list size is)))
    (case_sum (case_sum (\<lambda>(ps, off, i, as). 2 * size_list size as) (\<lambda>d. 2 * size d)) (case_sum
    (\<lambda>s. 2 * size s) (case_sum (\<lambda>ss. 2 * size_list size ss) (\<lambda>b. 2 * size b))))))")
    (auto split: Expr.splits)

section \<open>Attributes (attribute.go)\<close>

fun literalValue :: "Expr \<Rightarrow> AnyValue option" where
  "literalValue (StringLit parts _ _ _) = (case parts of [StringText raw _] \<Rightarrow> Some (AnyString raw) | _ \<Rightarrow> None)"
| "literalValue (IntLit v _ _) = Some (AnyInt v)"
| "literalValue (BoolLit b _) = Some (AnyBool b)"
| "literalValue (NoneLit _) = Some AnyNil"
| "literalValue (ListLit items _) =
     (let vs = map literalValue items in if None \<in> set vs then None else Some (AnyList (map the vs)))"
| "literalValue _ = None"

text \<open>An attribute type under its name in a scope.\<close>

definition attr_in :: "string \<Rightarrow> Scope \<Rightarrow> Symbol option" where
  "attr_in name s =
     (case scope_Lookup (CHR ''@'' # name) s of
        Some sy \<Rightarrow> if sy_Kind sy = SymAttrType then Some sy else None
      | None \<Rightarrow> None)"

definition attr_type :: "Symbol option \<Rightarrow> Type option" where
  "attr_type s = (case s of Some sy \<Rightarrow> (case sy_Type sy of Some (AttrT n a d) \<Rightarrow> Some (AttrT n a d) | _ \<Rightarrow> None) | None \<Rightarrow> None)"

definition lookupAttrTypeForArgs :: "DottedName \<Rightarrow> Type option ck" where
  "lookupAttrTypeForArgs name = gets (\<lambda>c.
     case dn_Parts name of
       [p] \<Rightarrow> attr_type (attr_in (id_Name p) (ck_scope c))
     | [m, p] \<Rightarrow>
         (case map_of (ck_modules c) (id_Name m) of None \<Rightarrow> None | Some md \<Rightarrow> attr_type (attr_in (id_Name p) md))
     | _ \<Rightarrow> None)"

definition resolveAttrType :: "DottedName \<Rightarrow> TSpan \<Rightarrow> Type option ck" where
  "resolveAttrType name useSpan =
     (case dn_Parts name of
        [p] \<Rightarrow>
          ebind (gets (\<lambda>c. attr_in (id_Name p) (ck_scope c))) (\<lambda>s.
            if s = None then no_type useSpan ''lang.UnknownAttribute'' (''unknown attribute: @'' @ id_Name p)
            else ret (attr_type s))
      | [m, p] \<Rightarrow>
          ebind (ck_Lookup (id_Name m)) (\<lambda>ms.
            if \<not> (case ms of Some sy \<Rightarrow> sy_Kind sy = SymImport | None \<Rightarrow> False)
            then no_type useSpan ''lang.UnknownModule'' (''unknown module: '' @ id_Name m)
            else
              ebind (gets (\<lambda>c. map_of (ck_modules c) (id_Name m))) (\<lambda>md.
                case md of
                  None \<Rightarrow> no_type useSpan ''lang.UnknownModule'' (''unknown module: '' @ id_Name m)
                | Some md \<Rightarrow>
                    if attr_in (id_Name p) md = None
                    then no_type useSpan ''lang.UnknownAttribute'' (''unknown attribute: @'' @ id_Name m @ ''.'' @ id_Name p)
                    else ret (attr_type (attr_in (id_Name p) md))))
      | _ \<Rightarrow> no_type useSpan ''lang.AttrTooManyDots'' ''attribute names may have at most one dot'')"

definition attr_name :: "Type \<Rightarrow> string" where
  "attr_name t = (case t of AttrT _ name _ \<Rightarrow> name | _ \<Rightarrow> [])"

definition attr_fields :: "Type \<Rightarrow> FieldDef list ck" where
  "attr_fields t = (case t of AttrT n _ _ \<Rightarrow> fields_at n | _ \<Rightarrow> ret [])"

text \<open>Binding a value to a field; \<open>what\<close> says which part of the field.\<close>

definition cannot_bind :: "Type \<Rightarrow> Type \<Rightarrow> FieldDef \<Rightarrow> Type option \<Rightarrow> TSpan \<Rightarrow> string \<Rightarrow> string \<Rightarrow> unit ck" where
  "cannot_bind t at field want span code what =
     ebind (ck_String t) (\<lambda>ts.
       case want of
         None \<Rightarrow> epanic ''nil pointer dereference''
       | Some w \<Rightarrow>
           ebind (ck_String w) (\<lambda>ws.
             ck_errAt span code
               (''cannot bind '' @ ts @ '' to attribute @'' @ attr_name at @ '' field '' @ fdef_Name field @ what @ ws)))"

definition elem_type :: "Type option \<Rightarrow> Type option" where
  "elem_type t = (case t of Some (ListT _ e) \<Rightarrow> Some e | _ \<Rightarrow> None)"

text \<open>The positional arguments: the names they bind, or nothing where there are too many.\<close>

definition bind_positionals :: "Attribute \<Rightarrow> Type \<Rightarrow> FieldDef list \<Rightarrow> string list option ck" where
  "bind_positionals a at fs =
     (let field = hd fs; want = fdef_Type field
      in if at_Positionals a = [] then ret (Some [])
         else if length fs = 1 \<and> isListType want
         then
           ethen
             (if length (at_Positionals a) = 1
              then
                ebind (typeOf (hd (at_Positionals a))) (\<lambda>t.
                  case t of
                    None \<Rightarrow> ret ()
                  | Some t \<Rightarrow>
                      if assignable t want \<or> assignable t (elem_type want) then ret ()
                      else cannot_bind t at field want (expr_Span (hd (at_Positionals a))) ''lang.AttrBindError'' '' of type '')
              else
                eiter (\<lambda>x. ebind (typeOf x) (\<lambda>t.
                  case t of
                    None \<Rightarrow> ret ()
                  | Some t \<Rightarrow>
                      if assignable t (elem_type want) then ret ()
                      else cannot_bind t at field (elem_type want) (expr_Span x) ''lang.AttrError'' '' element type ''))
                  (at_Positionals a))
             (ret (Some [fdef_Name field]))
         else if length (at_Positionals a) = 1
         then
           ebind (typeOf (hd (at_Positionals a))) (\<lambda>t.
             ethen
               (case t of
                  None \<Rightarrow> ret ()
                | Some t \<Rightarrow>
                    if assignable t want then ret ()
                    else cannot_bind t at field want (expr_Span (hd (at_Positionals a))) ''lang.AttrError'' '' of type '')
               (ret (Some [fdef_Name field])))
         else
           ethen (ck_errAt (at_Span a) ''lang.AttrError''
                    (''attribute @'' @ attr_name at @ '' accepts at most one positional argument; '' @
                     ''use keyword arguments for the rest''))
             (ret None))"

definition bind_named :: "Type \<Rightarrow> FieldDef list \<Rightarrow> AttrArg \<Rightarrow> string list \<Rightarrow> string list ck" where
  "bind_named at fs na bound =
     (let name = id_Name (aa_Name na)
      in case find (\<lambda>f. fdef_Name f = name) (rev fs) of
           None \<Rightarrow>
             ethen (ck_errAt (aa_Span na) ''lang.AttrError'' (''attribute @'' @ attr_name at @ '' has no field '' @ name)) (ret bound)
         | Some field \<Rightarrow>
             if name \<in> set bound
             then
               ethen (ck_errAt (aa_Span na) ''lang.AttrError''
                        (''attribute @'' @ attr_name at @ '' field '' @ name @ '' already bound by positional argument''))
                 (ret bound)
             else
               ebind (typeOf (aa_Value na)) (\<lambda>t.
                 ethen
                   (case t of
                      None \<Rightarrow> ret ()
                    | Some t \<Rightarrow>
                        if assignable t (fdef_Type field) then ret ()
                        else cannot_bind t at field (fdef_Type field) (expr_Span (aa_Value na)) ''lang.AttrBindError'' '' of type '')
                   (ret (name # bound))))"

definition bindAttribute :: "Attribute \<Rightarrow> Type \<Rightarrow> unit ck" where
  "bindAttribute a at =
     ebind (attr_fields at) (\<lambda>fs.
       if fs = []
       then
         (if at_Positionals a \<noteq> [] \<or> at_Named a \<noteq> []
          then ck_errAt (at_Span a) ''lang.MarkerAttrArgs'' (''marker attribute @'' @ attr_name at @ '' takes no arguments'')
          else ret ())
       else
         ebind (bind_positionals a at fs) (\<lambda>b.
           case b of
             None \<Rightarrow> ret ()
           | Some bound \<Rightarrow>
               ebind (efold (bind_named at fs) (at_Named a) bound) (\<lambda>bound.
                 eiter (\<lambda>f.
                   if fdef_Name f \<notin> set bound \<and> \<not> fdef_HasDef f
                   then ck_errAt (at_Span a) ''lang.AttrError'' (''attribute @'' @ attr_name at @ '' missing required field '' @ fdef_Name f)
                   else ret ()) fs)))"

definition checkAttribute :: "Attribute \<Rightarrow> unit ck" where
  "checkAttribute a =
     ebind (resolveAttrType (at_Name a) (at_Span a)) (\<lambda>t. case t of None \<Rightarrow> ret () | Some at \<Rightarrow> bindAttribute a at)"

definition checkFieldAttributes :: "Field \<Rightarrow> unit ck" where
  "checkFieldAttributes f = eiter checkAttribute (fd_Attributes f)"

definition qualifiedAttrName :: "string \<Rightarrow> Attribute \<Rightarrow> string" where
  "qualifiedAttrName modName a =
     (case dn_Parts (at_Name a) of
        [p] \<Rightarrow> modName @ ''.@'' @ id_Name p
      | [m, p] \<Rightarrow> id_Name m @ ''.@'' @ id_Name p
      | _ \<Rightarrow> [])"

definition named_args :: "AttrArg list \<Rightarrow> (string \<times> AnyValue) list \<Rightarrow> (string \<times> AnyValue) list" where
  "named_args nas m =
     foldl (\<lambda>m na. case literalValue (aa_Value na) of None \<Rightarrow> m | Some v \<Rightarrow> AList.update (id_Name (aa_Name na)) v m) m nas"

definition resolveAttributeArgs :: "Attribute \<Rightarrow> (string \<times> AnyValue) list option ck" where
  "resolveAttributeArgs a =
     ebind (lookupAttrTypeForArgs (at_Name a)) (\<lambda>t.
       case t of
         None \<Rightarrow> ret None
       | Some at \<Rightarrow>
           ebind (attr_fields at) (\<lambda>fs.
             let ps = at_Positionals a
             in if length fs = 1 \<and> isListType (fdef_Type (hd fs)) \<and> ps \<noteq> [] \<and> at_Named a = []
                then
                  (case (if length ps = 1 then literalValue (hd ps) else None) of
                     Some v \<Rightarrow> ret (Some [(fdef_Name (hd fs), v)])
                   | None \<Rightarrow> ret (Some [(fdef_Name (hd fs), AnyList (List.map_filter literalValue ps))]))
                else
                  ret (Some (named_args (at_Named a)
                    (case (if length ps = 1 \<and> fs \<noteq> [] then literalValue (hd ps) else None) of
                       Some v \<Rightarrow> [(fdef_Name (hd fs), v)]
                     | None \<Rightarrow> [])))))"

definition resolveFieldAttributes :: "Field \<Rightarrow> ResolvedAttribute list ck" where
  "resolveFieldAttributes f =
     efold (\<lambda>a out.
       ebind (gets ck_modName) (\<lambda>modName.
         let qn = qualifiedAttrName modName a
         in if qn = [] then ret out
            else
              ebind (resolveAttributeArgs a) (\<lambda>as. ebind (lookupAttrTypeForArgs (at_Name a)) (\<lambda>t.
                ret (out @ [ResolvedAttribute qn as t]))))) (fd_Attributes f) []"

section \<open>Declarations (checker.go)\<close>

definition importLeaf :: "string \<Rightarrow> string" where
  "importLeaf p = rev (takeWhile (\<lambda>c. c \<noteq> CHR ''/'') (rev p))"

definition isStdImportPath :: "string \<Rightarrow> bool" where
  "isStdImportPath p \<longleftrightarrow> CHR ''.'' \<notin> set p"

definition checkImport :: "ImportDecl \<Rightarrow> unit ck" where
  "checkImport imp =
     (let leaf = importLeaf (im_Path imp)
      in ebind (gets ck_modules) (\<lambda>ms.
           if map_of ms (im_Path imp) = None \<and> \<not> (isStdImportPath (im_Path imp) \<and> map_of ms leaf \<noteq> None)
           then ck_errAt (im_Span imp) ''lang.UnknownModule'' (''unknown module: '' @ im_Path imp)
           else
             ebind (ck_Define \<lparr>sy_Name = leaf, sy_Type = None, sy_Kind = SymImport, sy_IsPublic = False, sy_Span = im_Span imp\<rparr>) (\<lambda>ok.
               if ok then ret () else ck_errAt (im_Span imp) ''lang.DuplicateImport'' (''duplicate import: '' @ leaf))))"

definition declare_symbol :: "Symbol \<Rightarrow> string \<Rightarrow> string \<Rightarrow> unit ck" where
  "declare_symbol sy code msg = ebind (ck_Define sy) (\<lambda>ok. if ok then ret () else ck_errAt (sy_Span sy) code msg)"

text \<open>Forward declaration. A nil pointer to a declaration has no name.\<close>

definition registerDecl :: "Decl \<Rightarrow> unit ck" where
  "registerDecl d =
     ebind (gets (\<lambda>c. ck_modName c = ''main'')) (\<lambda>isMain.
       case d of
         TypeDecl name fs pub span \<Rightarrow>
           ebind (if fs = None then new_type (\<lambda>n. OpaqueT n (id_Name name))
                  else ebind (new_fields []) (\<lambda>n. ret (Some (StructT n (id_Name name))))) (\<lambda>t.
             declare_symbol \<lparr>sy_Name = id_Name name, sy_Type = t, sy_Kind = SymType, sy_IsPublic = pub \<or> isMain, sy_Span = span\<rparr>
               ''lang.DuplicateSymbol'' (''duplicate type: '' @ id_Name name))
       | AttrTypeDecl name fs doc span \<Rightarrow>
           ebind (new_fields []) (\<lambda>n.
             declare_symbol \<lparr>sy_Name = CHR ''@'' # id_Name name, sy_Type = Some (AttrT n (id_Name name) doc), sy_Kind = SymAttrType,
                 sy_IsPublic = True, sy_Span = span\<rparr>
               ''lang.DuplicateSymbol'' (''duplicate attribute type: @'' @ id_Name name))
       | EnumDecl name vs pub span \<Rightarrow>
           ebind (new_type (\<lambda>n. EnumT n (id_Name name) (map id_Name vs))) (\<lambda>t.
             declare_symbol \<lparr>sy_Name = id_Name name, sy_Type = t, sy_Kind = SymEnum, sy_IsPublic = pub \<or> isMain, sy_Span = span\<rparr>
               ''lang.DuplicateSymbol'' (''duplicate enum: '' @ id_Name name))
       | FuncDecl name ps r b pub span \<Rightarrow>
           declare_symbol \<lparr>sy_Name = id_Name name, sy_Type = None, sy_Kind = SymFunc, sy_IsPublic = pub \<or> isMain, sy_Span = span\<rparr>
             ''lang.DuplicateSymbol'' (''duplicate func: '' @ id_Name name)
       | DeclDecl dn ps r b pub span \<Rightarrow>
           (case dn_Parts dn of
              [] \<Rightarrow> epanic ''index out of range''
            | p # _ \<Rightarrow>
                declare_symbol \<lparr>sy_Name = id_Name p, sy_Type = None, sy_Kind = SymDecl, sy_IsPublic = pub \<or> isMain, sy_Span = span\<rparr>
                  ''lang.DuplicateSymbol'' (''duplicate decl: '' @ id_Name p))
       | LetD (LetDecl name t x pub span) \<Rightarrow>
           declare_symbol \<lparr>sy_Name = id_Name name, sy_Type = None, sy_Kind = SymLet, sy_IsPublic = pub \<or> isMain, sy_Span = span\<rparr>
             ''lang.DuplicateLet'' (''duplicate let binding: '' @ id_Name name)
       | NilDecl \<Rightarrow> epanic ''nil pointer dereference'')"

text \<open>The loop over the fields of a type or of an attribute type, whose fields go to the type's number.\<close>

definition check_field :: "bool \<Rightarrow> nat \<Rightarrow> Field \<Rightarrow> string list \<Rightarrow> string list ck" where
  "check_field attr n f seen =
     (let name = id_Name (fd_Name f)
      in if name \<in> set seen
         then ethen (ck_errAt (id_Span (fd_Name f)) ''lang.DuplicateField'' (''duplicate field: '' @ name)) (ret seen)
         else
           ebind (resolveType (fd_Type f)) (\<lambda>ft.
             if ft = None
             then
               ethen (if attr
                      then ck_errAt (fd_Span f) ''lang.UnknownAttrFieldType'' (''unknown type in attribute field '' @ name)
                      else ck_errAt (fd_Span f) ''lang.UnknownFieldType'' (''unknown type in field '' @ name))
                 (ret (name # seen))
             else
               ethen
                 (if attr
                  then
                    (if fd_Attributes f = [] then ret ()
                     else
                       ck_errAt (at_Span (hd (fd_Attributes f))) ''lang.AttrFieldCarriesAttr''
                         ''attribute fields cannot themselves carry attributes'')
                  else ethen (ebind (typeOf (fd_Default f)) (\<lambda>_. ret ())) (checkFieldAttributes f))
                 (ethen (add_field n (FieldDef name ft (fd_Default f \<noteq> NilE) [])) (ret (name # seen)))))"

definition check_fields :: "bool \<Rightarrow> nat \<Rightarrow> Field list \<Rightarrow> unit ck" where
  "check_fields attr n fs = ebind (efold (check_field attr n) fs []) (\<lambda>_. ret ())"

definition checkTypeDecl :: "Ident \<Rightarrow> Field list option \<Rightarrow> unit ck" where
  "checkTypeDecl name fs =
     (case fs of
        None \<Rightarrow> ret ()
      | Some fs \<Rightarrow>
          ebind (ck_Lookup (id_Name name)) (\<lambda>s.
            case s of
              Some sy \<Rightarrow> (case sy_Type sy of Some (StructT n _) \<Rightarrow> check_fields False n fs | _ \<Rightarrow> ret ())
            | None \<Rightarrow> ret ()))"

definition checkAttrTypeDecl :: "Ident \<Rightarrow> Field list \<Rightarrow> unit ck" where
  "checkAttrTypeDecl name fs =
     ebind (ck_Lookup (CHR ''@'' # id_Name name)) (\<lambda>s.
       case s of
         Some sy \<Rightarrow> (case sy_Type sy of Some (AttrT n _ _) \<Rightarrow> check_fields True n fs | _ \<Rightarrow> ret ())
       | None \<Rightarrow> ret ())"

lemma last_size: "sts \<noteq> [] \<Longrightarrow> size (last sts) < Suc (size_list size sts)"
  by (induction sts) auto

function definitelyReturns :: "Block \<Rightarrow> bool" where
  "definitelyReturns (Block sts s) =
     (if sts = [] then False
      else
        (case last sts of
           ReturnStmt v _ \<Rightarrow> v \<noteq> NilE
         | IfStmt _ th el _ \<Rightarrow>
             (case el of
                None \<Rightarrow> False
              | Some e \<Rightarrow> (case th of None \<Rightarrow> False | Some t \<Rightarrow> definitelyReturns t) \<and> definitelyReturns e)
         | _ \<Rightarrow> False))"
  by pat_completeness auto

termination
proof (relation "measure size", goal_cases)
  case (2 sts s c th el sp e t)
  then show ?case using last_size [of sts] by simp
next
  case (3 sts s c th el sp e)
  then show ?case using last_size [of sts] by simp
qed simp

definition param_field :: "Field \<Rightarrow> FieldDef ck" where
  "param_field f =
     ebind (resolveType (fd_Type f)) (\<lambda>pt. ethen (ebind (typeOf (fd_Default f)) (\<lambda>_. ret ()))
       (ebind (resolveFieldAttributes f) (\<lambda>as. ret (FieldDef (id_Name (fd_Name f)) pt (fd_Default f \<noteq> NilE) as))))"

text \<open>A parameter in the scope of a body.\<close>

definition param_symbol :: "Field \<Rightarrow> FieldDef ck" where
  "param_symbol f =
     ebind (resolveType (fd_Type f)) (\<lambda>pt.
       let sy = local_symbol (fd_Name f) pt SymParam (fd_Span f)
       in ethen (define_only sy) (ethen (recordBinding sy) (ret (FieldDef (id_Name (fd_Name f)) pt (fd_Default f \<noteq> NilE) []))))"

text \<open>The type of the symbol of a declaration, once its parameters are known.\<close>

definition set_decl_type :: "string \<Rightarrow> Field list \<Rightarrow> (nat \<Rightarrow> FieldDef list \<Rightarrow> Type) \<Rightarrow> unit ck" where
  "set_decl_type name ps mk =
     ebind (ck_Lookup name) (\<lambda>s.
       if s = None then ret ()
       else
         ebind (emap param_field ps) (\<lambda>params. ebind (new_type (\<lambda>n. mk n params)) (\<lambda>t.
           modify (\<lambda>c. c\<lparr>ck_scope := scope_set_type name t (ck_scope c)\<rparr>))))"

definition checkFuncDecl :: "Ident \<Rightarrow> Field list \<Rightarrow> TypeExpr \<Rightarrow> Block option \<Rightarrow> TSpan \<Rightarrow> unit ck" where
  "checkFuncDecl name ps rt body span =
     ebind (resolveType rt) (\<lambda>r.
       ethen (if body \<noteq> None \<and> rt = NilT
              then ck_errAt span ''lang.Error'' (''func '' @ id_Name name @ '' with a body requires a return type'') else ret ())
         (ethen (if rt \<noteq> NilT \<and> (case body of None \<Rightarrow> False | Some b \<Rightarrow> \<not> definitelyReturns b)
                 then ck_errAt span ''lang.NotAllPathsReturn'' (''func '' @ id_Name name @ '': not all paths return a value'')
                 else ret ())
           (ethen (eiter checkFieldAttributes ps)
             (ethen (set_decl_type (id_Name name) ps (\<lambda>n params. FuncT n params r))
               (case body of
                  None \<Rightarrow> ret ()
                | Some b \<Rightarrow>
                    ethen (pushScope ScopeFunc) (ebind (gets ck_returnType) (\<lambda>prev.
                      ethen (modify (\<lambda>c. c\<lparr>ck_returnType := r\<rparr>)) (ebind (emap param_symbol ps) (\<lambda>_.
                        ethen (walkBlock b) (ethen (modify (\<lambda>c. c\<lparr>ck_returnType := prev\<rparr>)) popScope))))))))))"

definition checkDeclDecl :: "DottedName \<Rightarrow> Field list \<Rightarrow> TypeExpr \<Rightarrow> Block option \<Rightarrow> TSpan \<Rightarrow> unit ck" where
  "checkDeclDecl dn ps rt body span =
     ebind (if rt \<noteq> NilT then resolveType rt
            else no_type span ''lang.DeclMissingReturnType'' ''decl declaration requires a return type'') (\<lambda>r.
       ethen (eiter checkFieldAttributes ps)
         (case dn_Parts dn of
            [] \<Rightarrow> epanic ''index out of range''
          | p # _ \<Rightarrow>
              ethen (set_decl_type (id_Name p) ps (\<lambda>n params. DeclT n (id_Name p) params r (body \<noteq> None)))
                (case body of
                   None \<Rightarrow> ret ()
                 | Some b \<Rightarrow>
                     ethen (pushScope ScopeDecl) (ebind (gets ck_selfFields) (\<lambda>prev. ebind (emap param_symbol ps) (\<lambda>stepParams.
                       ethen (modify (\<lambda>c. c\<lparr>ck_selfFields := stepParams\<rparr>))
                         (ethen (walkBlock b) (ethen (modify (\<lambda>c. c\<lparr>ck_selfFields := prev\<rparr>)) popScope))))))))"

text \<open>The walk over the declarations; nil pointers are passed over.\<close>

definition check_decl :: "Decl \<Rightarrow> unit ck" where
  "check_decl d =
     (case d of
        TypeDecl name fs _ _ \<Rightarrow> checkTypeDecl name fs
      | AttrTypeDecl name fs _ _ \<Rightarrow> checkAttrTypeDecl name fs
      | EnumDecl _ _ _ _ \<Rightarrow> ret ()
      | FuncDecl name ps rt b _ span \<Rightarrow> checkFuncDecl name ps rt b span
      | DeclDecl dn ps rt b _ span \<Rightarrow> checkDeclDecl dn ps rt b span
      | LetD l \<Rightarrow> checkLetDecl l
      | NilDecl \<Rightarrow> ret ())"

definition Check :: "File \<Rightarrow> unit ck" where
  "Check f =
     ethen (modify (\<lambda>c. c\<lparr>ck_scope := (if ck_scope c = [] then NewScope [] ScopeFile else ck_scope c),
              ck_modName := (case fl_Module f of Some m \<Rightarrow> id_Name (md_Name m) | None \<Rightarrow> ''main'')\<rparr>))
       (ethen (eiter checkImport (fl_Imports f))
         (ethen (eiter registerDecl (fl_Decls f))
           (ethen (eiter check_decl (fl_Decls f)) (walkStmts (fl_Stmts f)))))"

text \<open>Only the forward declarations, for the files of a module that share a scope.\<close>

definition RegisterForwardDecls :: "File \<Rightarrow> unit ck" where
  "RegisterForwardDecls f =
     ethen (modify (\<lambda>c. c\<lparr>ck_scope := (if ck_scope c = [] then NewScope [] ScopeFile else ck_scope c),
              ck_modName := (case fl_Module f of Some m \<Rightarrow> id_Name (md_Name m) | None \<Rightarrow> ck_modName c)\<rparr>))
       (eiter registerDecl (fl_Decls f))"

section \<open>The standard modules (bootstrap.go)\<close>

text \<open>The modules so far, with the types that their checkers made. The files are those the code has read and parsed.\<close>

record Boot =
  bt_modules :: "(string \<times> Scope) list"
  bt_fields :: "FieldDef list list"
  bt_next :: nat

text \<open>A file checked by a checker of its own.\<close>

definition check_module :: "File \<Rightarrow> (Checker, Boot) comp" where
  "check_module f b =
     (case Check f (New_checker (bt_modules b) (bt_fields b) (bt_next b)) of
        Done _ c \<Rightarrow> Done c (b\<lparr>bt_fields := ck_fields c, bt_next := ck_next c\<rparr>)
      | Panic msg \<Rightarrow> Panic msg
      | NoFuel \<Rightarrow> NoFuel)"

definition add_module :: "string \<Rightarrow> Scope \<Rightarrow> (unit, Boot) comp" where
  "add_module name s = modify (\<lambda>b. b\<lparr>bt_modules := AList.update name s (bt_modules b)\<rparr>)"

text \<open>One pass over the pending files: those that have errors stay.\<close>

fun bootstrap_pass :: "(path \<times> File) list \<Rightarrow> ((path \<times> File) list, Boot) comp" where
  "bootstrap_pass [] = ret []"
| "bootstrap_pass ((p, f) # rest) =
     ebind (check_module f) (\<lambda>c.
       if ck_errs c \<noteq> [] then ebind (bootstrap_pass rest) (\<lambda>r. ret ((p, f) # r))
       else
         (case fl_Module f of
            None \<Rightarrow> epanic ''nil pointer dereference''
          | Some m \<Rightarrow> ethen (add_module (id_Name (md_Name m)) (PublicView (ck_scope c))) (bootstrap_pass rest)))"

fun first_error :: "(path \<times> File) list \<Rightarrow> (CheckError option, Boot) comp" where
  "first_error [] = ret None"
| "first_error ((p, f) # rest) =
     ebind (check_module f) (\<lambda>c. case ck_errs c of [] \<Rightarrow> first_error rest | e # _ \<Rightarrow> ret (Some e))"

text \<open>The passes go on while they take a file away; \<open>iter\<close> is the order of the pending files, a map in the code.\<close>

function bootstrap_loop ::
  "(nat \<Rightarrow> (path \<times> File) list \<Rightarrow> (path \<times> File) list) \<Rightarrow> (path \<times> File) list \<Rightarrow> (CheckError option, Boot) comp" where
  "bootstrap_loop iter pending =
     (if pending = [] then ret None
      else
        ebind (bootstrap_pass (iter (length pending) pending)) (\<lambda>rest.
          if length rest < length pending then bootstrap_loop iter rest else first_error (iter 0 rest)))"
  by pat_completeness auto
termination by (relation "measure (\<lambda>(iter, pending). length pending)") auto

declare bootstrap_loop.simps [simp del]

definition BootstrapModules ::
  "(nat \<Rightarrow> (path \<times> File) list \<Rightarrow> (path \<times> File) list) \<Rightarrow> File \<Rightarrow> string \<Rightarrow> (path \<times> File) list \<Rightarrow> (CheckError option, Boot) comp" where
  "BootstrapModules iter rootFile rootName subs =
     ebind (check_module rootFile) (\<lambda>c.
       case ck_errs c of
         e # _ \<Rightarrow> ret (Some e)
       | [] \<Rightarrow> ethen (add_module rootName (ck_scope c)) (bootstrap_loop iter subs))"

end
