(* ===== verification/Checking.thy ===== *)
theory Checking
  imports Checker
begin

text \<open>
  What the type checker does: receivers of calls that are no methods are checked twice, so that their errors double with each
  call of a chain; assignability is a preorder away from any.
\<close>

section \<open>Receivers are typed twice\<close>

text \<open>The call chain x.f().f() ... of some length on a name.\<close>

primrec call_chain :: "Ident \<Rightarrow> Ident \<Rightarrow> TSpan \<Rightarrow> nat \<Rightarrow> Expr" where
  "call_chain x f s 0 = IdentE x"
| "call_chain x f s (Suc n) = CallExpr (SelectorExpr (call_chain x f s n) f s) [] False [] s"

definition undefined_error :: "Ident \<Rightarrow> CheckError" where
  "undefined_error x = \<lparr>ce_Span = id_Span x, ce_Code = ''lang.Undefined'', ce_Msg = ''undefined: '' @ id_Name x\<rparr>"

lemma is_import_undefined:
  "scope_Lookup (id_Name x) (ck_scope c) = None \<Longrightarrow> is_import (call_chain x f s n) c = Done False c"
  by (cases n) (simp_all add: is_import_def ck_Lookup_def)

text \<open>C37: a name that is not defined is reported again for each time its expression is typed, and a call on a
  receiver types the receiver twice: a chain of n calls on an undefined name is reported as 2 to the n
  errors, all of them equal, and nothing else of the state changes.\<close>

theorem receiver_errors_double:
  assumes "scope_Lookup (id_Name x) (ck_scope c) = None"
  shows "typeOf (call_chain x f s n) c = Done None (c\<lparr>ck_errs := ck_errs c @ replicate (2 ^ n) (undefined_error x)\<rparr>)"
  using assms
proof (induction n arbitrary: c)
  case 0
  then show ?case
    by (simp add: resolveIdent_def ck_Lookup_def no_type_def ck_errAt_def undefined_error_def)
next
  case (Suc n)
  let ?c = "\<lambda>k. c\<lparr>ck_errs := ck_errs c @ replicate k (undefined_error x)\<rparr>"
  have "typeOf (call_chain x f s n) c = Done None (?c (2 ^ n))" by (rule Suc.IH [OF Suc.prems])
  moreover have "typeOf (call_chain x f s n) (?c (2 ^ n)) = Done None (?c (2 ^ n + 2 ^ n))"
    using Suc.IH [of "?c (2 ^ n)"] Suc.prems by (simp add: replicate_add)
  moreover have "is_import (call_chain x f s n) c = Done False c"
    "is_import (call_chain x f s n) (?c (2 ^ n)) = Done False (?c (2 ^ n))"
    using is_import_undefined Suc.prems by auto
  ultimately show ?case
    by (simp add: ufcs_lookup_def selector_type_def ebind_def mult_2)
qed

lemma receiver_errors_double_witness:
  "typeOf (call_chain \<lparr>id_Name = ''nginx'', id_Span = no_span\<rparr> \<lparr>id_Name = ''f'', id_Span = no_span\<rparr> no_span 3) (New_checker [] [] 0) =
     Done None ((New_checker [] [] 0)\<lparr>ck_errs := replicate 8 (undefined_error \<lparr>id_Name = ''nginx'', id_Span = no_span\<rparr>)\<rparr>)"
  using receiver_errors_double [of "\<lparr>id_Name = ''nginx'', id_Span = no_span\<rparr>" "New_checker [] [] 0" "\<lparr>id_Name = ''f'', id_Span = no_span\<rparr>" no_span 3]
  by (simp add: New_checker_def)

section \<open>Assignability\<close>

text \<open>Types without any.\<close>

primrec no_any :: "Type \<Rightarrow> bool" where
  "no_any StringType = True"
| "no_any IntType = True"
| "no_any BoolType = True"
| "no_any NoneType = True"
| "no_any AnyType = False"
| "no_any (OptT _ t) = no_any t"
| "no_any (ListT _ t) = no_any t"
| "no_any (MapT _ k v) = (no_any k \<and> no_any v)"
| "no_any (StructT _ _) = True"
| "no_any (OpaqueT _ _) = True"
| "no_any (BlockT _ _) = True"
| "no_any (EnumT _ _ _) = True"
| "no_any (FuncT _ _ _) = True"
| "no_any (DeclT _ _ _ _ _) = True"
| "no_any (AttrT _ _ _) = True"

lemma assignable_refl [simp]: "IsAssignableTo t t"
  by (simp add: IsAssignableTo.simps)

text \<open>What a type other than any takes, by its shape.\<close>

lemma assignable_cases:
  assumes "IsAssignableTo s d" and "s \<noteq> d" and "d \<noteq> AnyType"
  obtains (opt_opt) n m a b where "s = OptT n a" "d = OptT m b" "IsAssignableTo a b"
  | (into_opt) m b where "d = OptT m b" "\<not> isOptional (Some s)" "s = NoneType \<or> IsAssignableTo s b"
  | (lists) n m a b where "s = ListT n a" "d = ListT m b" "a = AnyType \<or> IsAssignableTo a b"
  | (maps) n m a b a' b' where "s = MapT n a b" "d = MapT m a' b'" "IsAssignableTo a a'" "IsAssignableTo b b'"
  | (structs) n m a where "s = StructT n a" "d = StructT m a"
  | (enums) n m a v w where "s = EnumT n a v" "d = EnumT m a w"
  | (opaques) n m a where "s = OpaqueT n a" "d = OpaqueT m a"
proof -
  have "case d of
      OptT _ b \<Rightarrow> (case s of OptT _ a \<Rightarrow> IsAssignableTo a b | _ \<Rightarrow> s = NoneType \<or> IsAssignableTo s b)
    | ListT _ b \<Rightarrow> (case s of ListT _ a \<Rightarrow> a = AnyType \<or> IsAssignableTo a b | _ \<Rightarrow> False)
    | MapT _ a' b' \<Rightarrow> (case s of MapT _ a b \<Rightarrow> IsAssignableTo a a' \<and> IsAssignableTo b b' | _ \<Rightarrow> False)
    | StructT _ b \<Rightarrow> (case s of StructT _ a \<Rightarrow> a = b | _ \<Rightarrow> False)
    | EnumT _ b _ \<Rightarrow> (case s of EnumT _ a _ \<Rightarrow> a = b | _ \<Rightarrow> False)
    | OpaqueT _ b \<Rightarrow> (case s of OpaqueT _ a \<Rightarrow> a = b | _ \<Rightarrow> False)
    | _ \<Rightarrow> False"
    using assms by (subst (asm) IsAssignableTo.simps) (auto split: Type.splits if_splits)
  then show ?thesis
    using that by (cases d; simp; cases s; simp add: isOptional_def)
qed

lemma assignable_intros:
  "IsAssignableTo a b \<Longrightarrow> IsAssignableTo (OptT n a) (OptT m b)"
  "\<not> isOptional (Some a) \<Longrightarrow> a = NoneType \<or> IsAssignableTo a b \<Longrightarrow> IsAssignableTo a (OptT m b)"
  "IsAssignableTo a b \<Longrightarrow> IsAssignableTo (ListT n a) (ListT m b)"
  "IsAssignableTo a a' \<Longrightarrow> IsAssignableTo b b' \<Longrightarrow> IsAssignableTo (MapT n a b) (MapT m a' b')"
  by (simp_all add: IsAssignableTo.simps [of "OptT n a" "OptT m b"] IsAssignableTo.simps [of a "OptT m b"]
      IsAssignableTo.simps [of "ListT n a" "ListT m b"] IsAssignableTo.simps [of "MapT n a b" "MapT m a' b'"]
      isOptional_def split: Type.splits)

lemma assignable_names:
  "IsAssignableTo (StructT n a) (StructT m a)" "IsAssignableTo (EnumT n a v) (EnumT m a w)"
  "IsAssignableTo (OpaqueT n a) (OpaqueT m a)"
  by (simp_all add: IsAssignableTo.simps)

lemma assignable_into_plain:
  "IsAssignableTo a b \<Longrightarrow> \<not> isOptional (Some b) \<Longrightarrow> b \<noteq> AnyType \<Longrightarrow> \<not> isOptional (Some a)"
  by (cases "a = b") (auto elim!: assignable_cases [of a b] simp: isOptional_def)

lemma assignable_none: "IsAssignableTo a NoneType \<Longrightarrow> a = NoneType"
  by (subst (asm) IsAssignableTo.simps) (auto split: if_splits)

lemma assignable_trans:
  assumes "no_any a" "no_any b" "no_any c" "IsAssignableTo a b" "IsAssignableTo b c"
  shows "IsAssignableTo a c"
  using assms
proof (induction c arbitrary: a b rule: measure_induct_rule [of size])
  case (less c)
  show ?case
  proof (cases "a = b \<or> b = c")
    case False
    have any: "b \<noteq> AnyType" "c \<noteq> AnyType" using less.prems by auto
    have ab: "IsAssignableTo a b" "a \<noteq> b" and bc: "IsAssignableTo b c" "b \<noteq> c" using less.prems False by auto
    from bc any(2) show ?thesis
    proof (cases rule: assignable_cases)
      case (opt_opt n m b1 c1)
      then have sz: "size c1 < size c" and na: "no_any b1" "no_any c1" using less.prems by auto
      from ab any(1) show ?thesis
      proof (cases rule: assignable_cases)
        case (opt_opt n' m' a1 b2)
        then show ?thesis
          using less.IH [OF sz, of a1 b1] \<open>b = OptT n b1\<close> \<open>c = OptT m c1\<close> \<open>IsAssignableTo b1 c1\<close> na less.prems
          by (auto intro: assignable_intros)
      next
        case (into_opt m' b2)
        then show ?thesis
          using less.IH [OF sz, of a b1] \<open>b = OptT n b1\<close> \<open>c = OptT m c1\<close> \<open>IsAssignableTo b1 c1\<close> na less.prems
          by (auto intro: assignable_intros)
      qed (use opt_opt in auto)
    next
      case (into_opt m c1)
      then have sz: "size c1 < size c" and na: "no_any c1" using less.prems by auto
      have "b \<noteq> NoneType" using ab assignable_none by auto
      then have "IsAssignableTo a c1" using less.IH [OF sz, of a b] into_opt na less.prems by auto
      moreover have "\<not> isOptional (Some a)" using assignable_into_plain [OF ab(1) into_opt(2) any(1)] .
      ultimately show ?thesis using into_opt(1) by (auto intro: assignable_intros)
    next
      case (lists n m b1 c1)
      then have sz: "size c1 < size c" and na: "no_any b1" "no_any c1" using less.prems by auto
      then have bc1: "IsAssignableTo b1 c1" using lists by auto
      from ab any(1) show ?thesis
      proof (cases rule: assignable_cases)
        case (lists n' m' a1 b2)
        then have "no_any a1" "IsAssignableTo a1 b1" using less.prems \<open>b = ListT n b1\<close> by auto
        then show ?thesis
          using less.IH [OF sz, of a1 b1] lists(1) \<open>c = ListT m c1\<close> bc1 na by (auto intro: assignable_intros)
      qed (use lists in auto)
    next
      case (maps n m b1 b2 c1 c2)
      then have sz: "size c1 < size c" "size c2 < size c" and na: "no_any b1" "no_any c1" "no_any b2" "no_any c2"
        using less.prems by auto
      from ab any(1) show ?thesis
      proof (cases rule: assignable_cases)
        case (maps n' m' a1 a2 d1 d2)
        then have "no_any a1" "no_any a2" "IsAssignableTo a1 b1" "IsAssignableTo a2 b2"
          using less.prems \<open>b = MapT n b1 b2\<close> by auto
        then show ?thesis
          using less.IH [OF sz(1), of a1 b1] less.IH [OF sz(2), of a2 b2] maps(1) \<open>c = MapT m c1 c2\<close>
            \<open>IsAssignableTo b1 c1\<close> \<open>IsAssignableTo b2 c2\<close> na
          by (auto intro: assignable_intros)
      qed (use maps in auto)
    next
      case (structs n m d)
      from ab any(1) show ?thesis by (cases rule: assignable_cases) (use structs in \<open>auto intro: assignable_names\<close>)
    next
      case (enums n m d v w)
      from ab any(1) show ?thesis by (cases rule: assignable_cases) (use enums in \<open>auto intro: assignable_names\<close>)
    next
      case (opaques n m d)
      from ab any(1) show ?thesis by (cases rule: assignable_cases) (use opaques in \<open>auto intro: assignable_names\<close>)
    qed
  qed (use less.prems in auto)
qed

text \<open>C38: away from any, assignability is a preorder: every type takes itself, and what goes into a type goes into every type
  that takes that one. Optional types, none, collections and named types all respect it.\<close>

theorem assignability_is_preorder:
  assumes "no_any a" and "no_any b" and "no_any c"
  shows "IsAssignableTo a a \<and> (IsAssignableTo a b \<and> IsAssignableTo b c \<longrightarrow> IsAssignableTo a c)"
  using assignable_trans [OF assms] assignable_refl by blast

text \<open>An int goes into an optional int, and a list of the one into a list of the other.\<close>

lemma assignability_is_preorder_witness:
  "IsAssignableTo (ListT 0 IntType) (ListT 1 (OptT 2 IntType)) \<and> IsAssignableTo (ListT 1 (OptT 2 IntType)) (OptT 4 (ListT 3 (OptT 5 IntType)))
     \<and> IsAssignableTo (ListT 0 IntType) (OptT 4 (ListT 3 (OptT 5 IntType)))"
proof -
  have "IsAssignableTo (ListT 0 IntType) (ListT 1 (OptT 2 IntType))"
    "IsAssignableTo (ListT 1 (OptT 2 IntType)) (OptT 4 (ListT 3 (OptT 5 IntType)))" by code_simp+
  with assignability_is_preorder [of "ListT 0 IntType" "ListT 1 (OptT 2 IntType)" "OptT 4 (ListT 3 (OptT 5 IntType))"]
  show ?thesis by simp
qed

text \<open>With any it is none: an empty list goes into every list, and every list into a list of any.\<close>

lemma any_breaks_transitivity:
  "IsAssignableTo (ListT 0 IntType) (ListT 1 AnyType)" "IsAssignableTo (ListT 1 AnyType) (ListT 2 StringType)"
  "\<not> IsAssignableTo (ListT 0 IntType) (ListT 2 StringType)"
  by code_simp+

end
