(* ===== verification/Check_Safety.thy ===== *)
theory Check_Safety
  imports Checker Parsing
begin

text \<open>
  The type checker does not panic on what the parser accepts. The one nil pointer it can meet is the
  result of a decl type, which is nil where a decl declaration has none or one that is not known; the invariant of this theory
  says that no such type is in the state. The judgement W follows the checker's functions: a computation started with
  the invariant ends with it, and what it returns can be printed; its rules, one for each function, are in W_rules.
\<close>

section \<open>Types that can be printed\<close>

text \<open>
  Decl types have a result, all the way down, and the fields of an attribute type, in the table \<open>F\<close> of fields, have types.
\<close>

lemma fdef_size: "f \<in> set ps \<Longrightarrow> fdef_Type f = Some t \<Longrightarrow> size t < size_list size ps"
proof (induction ps)
  case (Cons g ps)
  then show ?case by (cases g) auto
qed simp

function (sequential) ok_ty :: "FieldDef list list \<Rightarrow> Type \<Rightarrow> bool" where
  "ok_ty F (OptT _ t) = ok_ty F t"
| "ok_ty F (ListT _ t) = ok_ty F t"
| "ok_ty F (MapT _ k v) = (ok_ty F k \<and> ok_ty F v)"
| "ok_ty F (BlockT _ t) = ok_ty F t"
| "ok_ty F (FuncT _ ps r) =
     ((\<forall>p \<in> set ps. case fdef_Type p of None \<Rightarrow> True | Some t \<Rightarrow> ok_ty F t) \<and> (case r of None \<Rightarrow> True | Some t \<Rightarrow> ok_ty F t))"
| "ok_ty F (DeclT _ _ ps r _) =
     ((\<forall>p \<in> set ps. case fdef_Type p of None \<Rightarrow> True | Some t \<Rightarrow> ok_ty F t) \<and> (case r of None \<Rightarrow> False | Some t \<Rightarrow> ok_ty F t))"
| "ok_ty F (AttrT n _ _) = (n < length F \<and> (\<forall>f \<in> set (F ! n). fdef_Type f \<noteq> None))"
| "ok_ty F _ = True"
  by pat_completeness auto
termination by (relation "measure (\<lambda>(F, t). size t)") (auto dest: fdef_size)

lemma ok_String: "ok_ty F t \<Longrightarrow> \<exists>s. type_String t = Some s"
  by (induction t rule: type_String.induct) auto

text \<open>The table fields_grow, and keeps what is known of attribute types.\<close>

definition fields_grow :: "FieldDef list list \<Rightarrow> FieldDef list list \<Rightarrow> bool" where
  "fields_grow F F' \<longleftrightarrow> length F \<le> length F' \<and>
     (\<forall>n < length F. (\<forall>f \<in> set (F ! n). fdef_Type f \<noteq> None) \<longrightarrow> (\<forall>f \<in> set (F' ! n). fdef_Type f \<noteq> None))"

lemma fields_grow_refl [simp]: "fields_grow F F"
  by (simp add: fields_grow_def)

lemma fields_grow_trans: "fields_grow F G \<Longrightarrow> fields_grow G H \<Longrightarrow> fields_grow F H"
  unfolding fields_grow_def by (meson le_trans less_le_trans)

lemma ok_ty_mono: "fields_grow F F' \<Longrightarrow> ok_ty F t \<Longrightarrow> ok_ty F' t"
  by (induction F t rule: ok_ty.induct) (auto simp: fields_grow_def split: option.splits)

definition oks :: "FieldDef list list \<Rightarrow> Type list \<Rightarrow> bool" where
  "oks F ts \<longleftrightarrow> (\<forall>t \<in> set ts. ok_ty F t)"

lemma oks_simps [simp]: "oks F []" "oks F (t # ts) = (ok_ty F t \<and> oks F ts)" "oks F (ts @ us) = (oks F ts \<and> oks F us)"
  by (auto simp: oks_def)

lemma oks_mono: "fields_grow F F' \<Longrightarrow> oks F ts \<Longrightarrow> oks F' ts"
  unfolding oks_def using ok_ty_mono by blast

definition opts :: "Type option \<Rightarrow> Type list" where
  "opts t = (case t of None \<Rightarrow> [] | Some t \<Rightarrow> [t])"

lemma opts_simps [simp]: "opts None = []" "opts (Some t) = [t]"
  by (simp_all add: opts_def)

definition fds :: "FieldDef list \<Rightarrow> Type list" where
  "fds fs = concat (map (\<lambda>f. opts (fdef_Type f)) fs)"

lemma fds_simps [simp]: "fds [] = []" "fds (f # fs) = opts (fdef_Type f) @ fds fs" "fds (fs @ gs) = fds fs @ fds gs"
  by (simp_all add: fds_def)

lemma oks_fds: "oks F (fds fs) \<longleftrightarrow> (\<forall>f \<in> set fs. oks F (opts (fdef_Type f)))"
  by (auto simp: fds_def oks_def)

lemma ok_ty_decls [simp]:
  "ok_ty F (FuncT n ps r) = (oks F (fds ps) \<and> oks F (opts r))"
  "ok_ty F (DeclT n name ps r b) = (oks F (fds ps) \<and> r \<noteq> None \<and> oks F (opts r))"
  by (auto simp: oks_fds opts_def split: option.splits)

declare ok_ty.simps(5,6) [simp del]

section \<open>The invariant\<close>

definition ok_scope :: "FieldDef list list \<Rightarrow> Scope \<Rightarrow> bool" where
  "ok_scope F s \<longleftrightarrow> (\<forall>f \<in> set s. \<forall>(n, sy) \<in> set (sc_symbols f). oks F (opts (sy_Type sy)))"

lemma ok_scope_mono: "fields_grow F F' \<Longrightarrow> ok_scope F s \<Longrightarrow> ok_scope F' s"
  unfolding ok_scope_def using oks_mono by fast

lemma ok_scope_Lookup: "ok_scope F s \<Longrightarrow> scope_Lookup name s = Some sy \<Longrightarrow> oks F (opts (sy_Type sy))"
  by (induction s) (auto simp: ok_scope_def split: option.splits dest!: map_of_SomeD)

lemma ok_scope_set_type: "ok_scope F s \<Longrightarrow> oks F (opts t) \<Longrightarrow> ok_scope F (scope_set_type name t s)"
  by (induction s) (auto simp: ok_scope_def)

lemma scope_set_type_nil [simp]: "scope_set_type name t s = [] \<longleftrightarrow> s = []"
  by (cases s) auto

lemma ok_scope_Define: "ok_scope F s \<Longrightarrow> oks F (opts (sy_Type sy)) \<Longrightarrow> ok_scope F (snd (scope_Define sy s))"
  by (auto simp: ok_scope_def scope_Define_def split: list.split)

lemma scope_Define_nil [simp]: "snd (scope_Define sy s) = [] \<longleftrightarrow> s = []"
  by (auto simp: scope_Define_def split: list.split)

text \<open>All types in the state can be printed.\<close>

definition types_ok :: "Checker \<Rightarrow> bool" where
  "types_ok c \<longleftrightarrow> (let F = ck_fields c in
     ck_scope c \<noteq> [] \<and> ok_scope F (ck_scope c) \<and> (\<forall>(m, s) \<in> set (ck_modules c). ok_scope F s)
     \<and> (\<forall>fs \<in> set F. oks F (fds fs)) \<and> oks F (opts (ck_returnType c)) \<and> oks F (fds (ck_selfFields c)))"

lemma types_ok_mono:
  assumes "types_ok c" and "fields_grow (ck_fields c) F" and "\<And>fs. fs \<in> set F \<Longrightarrow> fs \<in> set (ck_fields c) \<or> oks F (fds fs)"
  shows "types_ok (c\<lparr>ck_fields := F\<rparr>)"
  using assms unfolding types_ok_def Let_def by (auto intro: ok_scope_mono oks_mono)

section \<open>Computations that do not panic\<close>

text \<open>
  From a state with the invariant, in which some types can be printed, a computation returns to
  one, and more types can be printed.
\<close>

definition W :: "Type list \<Rightarrow> 'a ck \<Rightarrow> ('a \<Rightarrow> Type list \<Rightarrow> bool) \<Rightarrow> bool" where
  "W ts m Q \<longleftrightarrow> (\<forall>c. types_ok c \<longrightarrow> oks (ck_fields c) ts \<longrightarrow>
     (\<exists>x c' us. m c = Done x c' \<and> types_ok c' \<and> fields_grow (ck_fields c) (ck_fields c') \<and> oks (ck_fields c') us \<and> Q x us))"

definition entails :: "Type list \<Rightarrow> Type list \<Rightarrow> bool" where
  "entails ts us \<longleftrightarrow> (\<forall>F. oks F ts \<longrightarrow> oks F us)"

lemma entails_refl [simp]: "entails ts ts" "entails (us @ ts) ts" "entails ts []"
  by (simp_all add: entails_def)

named_theorems W_rules \<open>computations that do not panic\<close>

lemma W_ret [W_rules]: "Q x ts \<Longrightarrow> W ts (ret x) Q"
  unfolding W_def by auto

lemma W_bind [W_rules]: "W ts m (\<lambda>x us. W us (f x) Q) \<Longrightarrow> W ts (ebind m f) Q"
  unfolding W_def by (fastforce intro: fields_grow_trans)

lemma W_then [W_rules]: "W ts m (\<lambda>x us. W us k Q) \<Longrightarrow> W ts (ethen m k) Q"
  unfolding ethen_def by (rule W_bind)

lemma W_mono: "W ts m R \<Longrightarrow> (\<And>x us. R x us \<Longrightarrow> Q x us) \<Longrightarrow> W ts m Q"
  unfolding W_def by blast

lemma W_weaken: "entails ts us \<Longrightarrow> W us m Q \<Longrightarrow> W ts m Q"
  unfolding W_def entails_def by blast

lemma W_if [W_rules]: "(b \<Longrightarrow> W ts m Q) \<Longrightarrow> (\<not> b \<Longrightarrow> W ts k Q) \<Longrightarrow> W ts (if b then m else k) Q"
  by simp

lemma W_option [W_rules]:
  "(v = None \<Longrightarrow> W ts m Q) \<Longrightarrow> (\<And>x. v = Some x \<Longrightarrow> W ts (f x) Q) \<Longrightarrow> W ts (case v of None \<Rightarrow> m | Some x \<Rightarrow> f x) Q"
  by (cases v) auto

lemma W_pair [W_rules]: "(\<And>x y. w = (x, y) \<Longrightarrow> W ts (g x y) Q) \<Longrightarrow> W ts (case w of (x, y) \<Rightarrow> g x y) Q"
  by (cases w) auto

lemma W_list [W_rules]:
  "(v = [] \<Longrightarrow> W ts m Q) \<Longrightarrow> (\<And>x xs. v = x # xs \<Longrightarrow> W ts (f x xs) Q) \<Longrightarrow> W ts (case v of [] \<Rightarrow> m | x # xs \<Rightarrow> f x xs) Q"
  by (cases v) auto

lemma W_gets: "(\<And>x. Q x ts) \<Longrightarrow> W ts (gets g) Q"
  unfolding W_def by auto

lemma W_modify: "(\<And>c. types_ok c \<Longrightarrow> oks (ck_fields c) ts \<Longrightarrow> types_ok (g c) \<and> ck_fields (g c) = ck_fields c) \<Longrightarrow> Q () ts \<Longrightarrow> W ts (modify g) Q"
  unfolding W_def by (metis ev_simps(3) fields_grow_refl)

lemma W_errAt [W_rules]: "Q () ts \<Longrightarrow> W ts (ck_errAt s code msg) Q"
  unfolding ck_errAt_def by (rule W_modify) (simp_all add: types_ok_def)

lemma W_no_type [W_rules]: "Q None ts \<Longrightarrow> W ts (no_type s code msg) Q"
  unfolding no_type_def by (intro W_rules)

lemma W_String [W_rules]: "entails ts [t] \<Longrightarrow> (\<And>s. Q s ts) \<Longrightarrow> W ts (ck_String t) Q"
  unfolding W_def entails_def ck_String_def by (fastforce dest: ok_String)

lemma W_reads:
  assumes "\<And>c. types_ok c \<Longrightarrow> oks (ck_fields c) ts \<Longrightarrow> oks (ck_fields c) (us (g c)) \<and> R (g c)"
    and "\<And>x vs. R x \<Longrightarrow> entails vs (us x @ ts) \<Longrightarrow> Q x vs"
  shows "W ts (gets g) Q"
  unfolding W_def using assms by (metis entails_refl(1) ev_simps(2) fields_grow_refl oks_simps(3))

lemma W_Lookup [W_rules]:
  "(\<And>s us. entails us ((case s of None \<Rightarrow> [] | Some sy \<Rightarrow> opts (sy_Type sy)) @ ts) \<Longrightarrow> Q s us) \<Longrightarrow> W ts (ck_Lookup name) Q"
  unfolding ck_Lookup_def
  by (rule W_reads [where R = "\<lambda>_. True" and us = "\<lambda>s. case s of None \<Rightarrow> [] | Some sy \<Rightarrow> opts (sy_Type sy)"])
    (auto simp: types_ok_def Let_def ok_scope_Lookup split: option.split)

section \<open>Operations on the state\<close>

lemma W_new_type [W_rules]:
  "(\<And>n. entails ts [mk n]) \<Longrightarrow> (\<And>n. Q (Some (mk n)) ts) \<Longrightarrow> W ts (new_type mk) Q"
  unfolding W_def new_type_def entails_def
  by (auto simp: types_ok_def Let_def)

lemma W_new_fields [W_rules]:
  assumes "entails ts (fds fs)"
    and "\<And>n us. entails us ts \<Longrightarrow> (\<forall>f \<in> set fs. fdef_Type f \<noteq> None) \<longrightarrow> (\<forall>a d. entails us [AttrT n a d]) \<Longrightarrow> Q n us"
  shows "W ts (new_fields fs) Q"
  unfolding W_def
proof (intro allI impI)
  fix c
  assume c: "types_ok c" "oks (ck_fields c) ts"
  let ?F = "ck_fields c @ [fs]" and ?n = "length (ck_fields c)"
  let ?us = "if \<forall>f \<in> set fs. fdef_Type f \<noteq> None then AttrT ?n [] [] # ts else ts"
  have g: "fields_grow (ck_fields c) ?F" by (simp add: fields_grow_def nth_append)
  then have o: "oks ?F ts" "oks ?F (fds fs)" using c(2) assms(1) oks_mono by (auto simp: entails_def)
  have "types_ok (c\<lparr>ck_fields := ?F\<rparr>)" using o(2) by (intro types_ok_mono [OF c(1) g]) auto
  moreover have "oks ?F ?us" using o(1) by auto
  moreover have "Q ?n ?us" by (rule assms(2)) (auto simp: entails_def)
  ultimately show "\<exists>x c' us. new_fields fs c = Done x c' \<and> types_ok c' \<and> fields_grow (ck_fields c) (ck_fields c') \<and> oks (ck_fields c') us \<and> Q x us"
    using g by (intro exI [of _ ?n] exI [of _ "c\<lparr>ck_fields := ?F\<rparr>"] exI [of _ ?us]) (simp add: new_fields_def)
qed

lemma types_ok_fields: "types_ok c \<Longrightarrow> n < length (ck_fields c) \<Longrightarrow> oks (ck_fields c) (fds (ck_fields c ! n))"
  by (simp add: types_ok_def Let_def)

lemma W_fields_at [W_rules]: "(\<And>fs us. entails us (fds fs @ ts) \<Longrightarrow> Q fs us) \<Longrightarrow> W ts (fields_at n) Q"
  unfolding fields_at_def by (rule W_reads [where R = "\<lambda>_. True" and us = fds]) (auto simp: types_ok_fields)

lemma W_attr_fields [W_rules]:
  assumes "entails ts [at]" and "\<And>fs us. \<forall>f \<in> set fs. fdef_Type f \<noteq> None \<Longrightarrow> entails us (fds fs @ ts) \<Longrightarrow> Q fs us"
  shows "W ts (attr_fields at) Q"
proof (cases "\<exists>n a d. at = AttrT n a d")
  case True
  then obtain n a d where at: "at = AttrT n a d" by blast
  show ?thesis
    unfolding at attr_fields_def fields_at_def Type.case
    by (rule W_reads [where R = "\<lambda>fs. \<forall>f \<in> set fs. fdef_Type f \<noteq> None" and us = fds])
      (use assms in \<open>auto simp: types_ok_fields entails_def at\<close>)
next
  case False
  then have "attr_fields at = ret []" by (cases at) (auto simp: attr_fields_def)
  then show ?thesis using assms(2) [of "[]" ts] by (auto intro: W_ret)
qed

lemma W_add_field [W_rules]:
  assumes "entails ts (opts (fdef_Type f))" and "fdef_Type f \<noteq> None" and "Q () ts"
  shows "W ts (add_field n f) Q"
  unfolding W_def
proof (intro allI impI)
  fix c
  assume c: "types_ok c" "oks (ck_fields c) ts"
  let ?F = "(ck_fields c)[n := ck_fields c ! n @ [f]]"
  have g: "fields_grow (ck_fields c) ?F"
    using assms(2) by (cases "n < length (ck_fields c)") (auto simp: fields_grow_def nth_list_update split: if_splits)
  then have o: "oks ?F ts" "oks ?F (opts (fdef_Type f))" using c(2) assms(1) oks_mono by (auto simp: entails_def)
  have "types_ok (c\<lparr>ck_fields := ?F\<rparr>)"
  proof (rule types_ok_mono [OF c(1) g])
    fix fs
    assume fs: "fs \<in> set ?F"
    show "fs \<in> set (ck_fields c) \<or> oks ?F (fds fs)"
    proof (cases "n < length (ck_fields c)")
      case True
      then have "oks (ck_fields c) (fds (ck_fields c ! n))" using c(1) by (simp add: types_ok_def Let_def)
      then have "oks ?F (fds (ck_fields c ! n @ [f]))" using o(2) oks_mono [OF g] by simp
      then show ?thesis using fs set_update_subset_insert by fast
    qed (use fs in \<open>simp add: list_update_beyond\<close>)
  qed
  then show "\<exists>x c' us. add_field n f c = Done x c' \<and> types_ok c' \<and> fields_grow (ck_fields c) (ck_fields c') \<and> oks (ck_fields c') us \<and> Q x us"
    using g o(1) assms(3) by (auto simp: add_field_def)
qed

lemma W_Define [W_rules]:
  "entails ts (opts (sy_Type sy)) \<Longrightarrow> (\<And>b. Q b ts) \<Longrightarrow> W ts (ck_Define sy) Q"
  unfolding W_def ck_Define_def entails_def
  by (auto simp: types_ok_def Let_def split: prod.split intro!: exI [of _ ts])
    (metis ok_scope_Define scope_Define_nil snd_conv)+

lemma W_define_only [W_rules]: "entails ts (opts (sy_Type sy)) \<Longrightarrow> Q () ts \<Longrightarrow> W ts (define_only sy) Q"
  unfolding define_only_def by (intro W_rules)

lemma W_recordBinding [W_rules]: "Q () ts \<Longrightarrow> W ts (recordBinding sy) Q"
  unfolding recordBinding_def by (auto intro!: W_ret W_modify simp: types_ok_def)

lemma W_pushScope [W_rules]: "Q () ts \<Longrightarrow> W ts (pushScope k) Q"
  unfolding pushScope_def by (rule W_modify) (auto simp: types_ok_def Let_def NewScope_def ok_scope_def)

lemma W_popScope [W_rules]: "Q () ts \<Longrightarrow> W ts popScope Q"
  unfolding popScope_def by (rule W_modify) (auto simp: types_ok_def Let_def ok_scope_def split: list.split)

lemma W_set_type:
  "entails ts (opts t) \<Longrightarrow> Q () ts \<Longrightarrow> W ts (modify (\<lambda>c. c\<lparr>ck_scope := scope_set_type name t (ck_scope c)\<rparr>)) Q"
  by (rule W_modify) (auto simp: types_ok_def Let_def entails_def ok_scope_set_type)

lemma W_mark [W_rules]: "Q () ts \<Longrightarrow> W ts (mark_ufcs e m) Q"
  unfolding mark_ufcs_def by (rule W_modify) (auto simp: types_ok_def)

section \<open>Resolving names\<close>

lemma entailsD: "entails ts us \<Longrightarrow> oks F ts \<Longrightarrow> oks F us"
  by (simp add: entails_def)

lemma entails_field: "f \<in> set fs \<Longrightarrow> entails ts (fds fs) \<Longrightarrow> entails ts (opts (fdef_Type f))"
  by (auto simp: entails_def oks_fds)

lemma find_in_set: "find P fs = Some f \<Longrightarrow> f \<in> set fs"
  by (auto simp: find_Some_iff)

lemma W_chain [W_rules]:
  assumes "entails ts (opts t)" and "\<And>u us. entails us (opts u @ ts) \<Longrightarrow> Q u us"
  shows "W ts (chainAccess t parts span) Q"
  using assms
proof (induction t parts span arbitrary: ts rule: chainAccess.induct)
  case (3 t part parts span)
  show ?case
  proof (cases t)
    case (StructT n name)
    show ?thesis
      unfolding StructT chainAccess.simps Type.case
    proof (intro W_bind W_fields_at W_option W_no_type)
      fix fs us x
      assume us: "entails us (fds fs @ ts)" and x: "find (\<lambda>f. fdef_Name f = id_Name part) fs = Some x"
      show "W us (chainAccess (fdef_Type x) parts span) Q"
      proof (rule "3.IH" [OF StructT])
        show "entails us (opts (fdef_Type x))" using us entails_field [OF find_in_set [OF x]] by (auto simp: entails_def)
        show "Q u vs" if "entails vs (opts u @ us)" for u vs
          using that us by (intro "3.prems"(2)) (auto simp: entails_def)
      qed (rule x)
    qed (use "3.prems"(2) in \<open>auto simp: entails_def\<close>)
  qed (use "3.prems" in \<open>auto intro!: W_rules simp: entails_def\<close>)
qed (auto intro!: W_ret simp: entails_def)

lemma W_resolveIdent [W_rules]:
  "(\<And>u us. entails us (opts u @ ts) \<Longrightarrow> Q u us) \<Longrightarrow> W ts (resolveIdent i) Q"
  unfolding resolveIdent_def by (intro W_rules; auto simp: entails_def)


text \<open>The types of the symbols of a scope.\<close>

definition scope_types :: "Scope \<Rightarrow> Type list" where
  "scope_types s = concat (map (\<lambda>f. concat (map (\<lambda>(n, sy). opts (sy_Type sy)) (sc_symbols f))) s)"

lemma oks_scope_types: "oks F (scope_types s) = ok_scope F s"
  by (fastforce simp: scope_types_def ok_scope_def oks_def)

lemma entails_Lookup:
  "entails ts (scope_types s) \<Longrightarrow> scope_Lookup name s = Some sy \<Longrightarrow> entails ts (opts (sy_Type sy))"
  using ok_scope_Lookup by (auto simp: entails_def oks_scope_types)

lemma W_module:
  "(\<And>m us. entails us ((case m of None \<Rightarrow> [] | Some s \<Rightarrow> scope_types s) @ ts) \<Longrightarrow> Q m us)
   \<Longrightarrow> W ts (gets (\<lambda>c. map_of (ck_modules c) name)) Q"
  by (rule W_reads [where R = "\<lambda>_. True" and us = "\<lambda>m. case m of None \<Rightarrow> [] | Some s \<Rightarrow> scope_types s"])
    (auto simp: types_ok_def Let_def oks_scope_types split: option.split dest!: map_of_SomeD)

lemma entails_append [simp]: "entails ts (us @ vs) \<longleftrightarrow> entails ts us \<and> entails ts vs"
  by (auto simp: entails_def)

lemma entails_trans: "entails ts us \<Longrightarrow> entails us vs \<Longrightarrow> entails ts vs"
  by (simp add: entails_def)

text \<open>What a computation needs of the state may be less than what is known, and the rest stays known.\<close>

lemma W_frame:
  assumes "W us m R" and "entails ts us" and "\<And>x vs ws. R x vs \<Longrightarrow> entails ws vs \<Longrightarrow> entails ws ts \<Longrightarrow> Q x ws"
  shows "W ts m Q"
  unfolding W_def
proof (intro allI impI)
  fix c
  assume c: "types_ok c" "oks (ck_fields c) ts"
  then obtain x c' vs where r: "m c = Done x c'" "types_ok c'" "fields_grow (ck_fields c) (ck_fields c')" "oks (ck_fields c') vs" "R x vs"
    using assms(1,2) unfolding W_def entails_def by blast
  then have "oks (ck_fields c') (vs @ ts)" using c(2) oks_mono by auto
  moreover have "Q x (vs @ ts)" using assms(3) [OF r(5)] by (simp add: entails_def)
  ultimately show "\<exists>x c' us. m c = Done x c' \<and> types_ok c' \<and> fields_grow (ck_fields c) (ck_fields c') \<and> oks (ck_fields c') us \<and> Q x us"
    using r by blast
qed

text \<open>Computations of a type that can be printed, and computations without a result.\<close>

definition yields :: "Type list \<Rightarrow> Type option ck \<Rightarrow> bool" where
  "yields ts m \<longleftrightarrow> W ts m (\<lambda>u us. entails us (opts u))"

definition runs :: "Type list \<Rightarrow> 'a ck \<Rightarrow> bool" where
  "runs ts m \<longleftrightarrow> W ts m (\<lambda>_ _. True)"

lemma W_yields:
  "yields us m \<Longrightarrow> entails ts us \<Longrightarrow> (\<And>u vs. entails vs (opts u) \<Longrightarrow> entails vs ts \<Longrightarrow> Q u vs) \<Longrightarrow> W ts m Q"
  unfolding yields_def by (erule W_frame) (auto intro: entails_trans)

lemma W_runs: "runs us m \<Longrightarrow> entails ts us \<Longrightarrow> (\<And>x vs. entails vs ts \<Longrightarrow> Q x vs) \<Longrightarrow> W ts m Q"
  unfolding runs_def by (erule W_frame) auto

lemma entails_simps [simp]: "entails ts []" "entails ts (t # u # us) \<longleftrightarrow> entails ts [t] \<and> entails ts (u # us)"
  by (auto simp: entails_def)

lemma yields_chain: "yields (opts t) (chainAccess t parts span)"
  unfolding yields_def
proof (rule W_chain)
qed (auto simp: entails_def)

lemmas W_chainAccess [W_rules] = W_yields [OF yields_chain]

lemma entails_in_Lookup:
  "scope_Lookup name s = Some sy \<Longrightarrow> oks F (scope_types s) \<Longrightarrow> oks F (opts (sy_Type sy))"
  using ok_scope_Lookup by (simp add: oks_scope_types)

lemma yields_member: "yields [] (resolveModuleMember m parts span)"
  unfolding yields_def resolveModuleMember_def Let_def
  by (intro W_rules W_module) (auto simp: entails_def dest: entails_in_Lookup)

lemmas W_member [W_rules] = W_yields [OF yields_member]

lemma yields_dotted: "yields [] (resolveDottedName dn)"
  unfolding yields_def resolveDottedName_def
  by (intro W_rules) (auto simp: entails_def)

lemmas W_dotted [W_rules] = W_yields [OF yields_dotted]

lemma W_is_import [W_rules]: "(\<And>b us. entails us ts \<Longrightarrow> Q b us) \<Longrightarrow> W ts (is_import x) Q"
  unfolding is_import_def by (cases x) (auto intro!: W_rules)

lemma builtin_ok: "builtinByName n = Some t \<Longrightarrow> ok_ty F t"
  by (auto simp: builtinByName_def split: if_splits)

lemma yields_named: "dn_Parts dn \<noteq> [] \<Longrightarrow> yields [] (resolveNamedType dn span)"
  unfolding yields_def resolveNamedType_def
  by (intro W_rules) (auto simp: entails_def builtin_ok)

lemmas W_named [W_rules] = W_yields [OF yields_named]

lemma W_wrap [W_rules]:
  "entails ts (opts u) \<Longrightarrow> (\<And>n t. u = Some t \<Longrightarrow> entails ts [mk n t])
   \<Longrightarrow> (\<And>v us. entails us (opts v) \<Longrightarrow> entails us ts \<Longrightarrow> Q v us) \<Longrightarrow> W ts (wrap_type mk u) Q"
  unfolding wrap_type_def by (intro W_rules) (auto simp: entails_def)

lemma yields_type: "t = NilT \<or> ok_type t \<Longrightarrow> yields [] (resolveType t)"
proof (induction t)
  case (OptionalType t span)
  then have t: "yields [] (resolveType t)" by simp
  show ?case
    unfolding yields_def resolveType.simps by (intro W_rules W_yields [OF t]) (auto simp: entails_def)
next
  case (GenericType name args span)
  then have a: "yields [] (resolveType t)" if "t \<in> set args" for t using that by (auto simp: list_all_iff)
  show ?case
    unfolding yields_def resolveType.simps
    by (intro W_rules W_yields [OF a]) (auto simp: entails_def)
qed (auto simp: yields_def intro!: W_rules)

lemmas W_type [W_rules] = W_yields [OF yields_type]

section \<open>Calls\<close>

lemma map_filter_member: "y \<in> set (List.map_filter f xs) \<Longrightarrow> \<exists>x. f x = Some y"
  by (induction xs) (auto simp: map_filter_simps split: option.splits)

lemma types_ok_candidates:
  assumes "types_ok c"
  shows "oks (ck_fields c) (map snd (ufcs_candidates x name (ck_modules c) imports))"
proof -
  have "ok_ty (ck_fields c) t" if m: "(m, t) \<in> set (ufcs_candidates x name (ck_modules c) imports)" for m t
  proof -
    obtain md sy where s: "map_of (ck_modules c) m = Some md" "scope_Lookup name md = Some sy" "sy_Type sy = Some t"
      using m unfolding ufcs_candidates_def by (auto dest!: map_filter_member split: option.splits if_splits)
    then have "ok_scope (ck_fields c) md" using assms map_of_SomeD [OF s(1)] by (auto simp: types_ok_def Let_def)
    then show ?thesis using ok_scope_Lookup [OF _ s(2)] s(3) by auto
  qed
  then show ?thesis by (auto simp: oks_def)
qed

lemma W_ufcs_import [W_rules]:
  "(\<And>r us. entails us (case r of None \<Rightarrow> [] | Some (t, m) \<Rightarrow> [t]) \<Longrightarrow> entails us ts \<Longrightarrow> Q r us) \<Longrightarrow> W ts (ufcs_import x sel span) Q"
  unfolding ufcs_import_def
  by (intro W_rules W_reads [where R = "\<lambda>_. True" and us = "map snd"]) (auto simp: entails_def types_ok_candidates)

lemma W_struct_fields [W_rules]:
  "(\<And>fs us. entails us ts \<Longrightarrow> Q fs us) \<Longrightarrow> W ts (case t of StructT n _ \<Rightarrow> fields_at n | _ \<Rightarrow> ret []) Q"
  by (cases t) (auto intro!: W_rules)

lemma W_ufcs_lookup [W_rules]:
  assumes "\<And>r us. entails us (case r of None \<Rightarrow> [] | Some (t, m) \<Rightarrow> [t]) \<Longrightarrow> entails us ts \<Longrightarrow> Q r us"
  shows "W ts (ufcs_lookup t sel span) Q"
  unfolding ufcs_lookup_def by (intro W_rules) (auto simp: entails_def intro!: assms split: option.split)

lemma W_arg_count [W_rules]: "Q () ts \<Longrightarrow> W ts (check_arg_count ps off n span) Q"
  unfolding check_arg_count_def Let_def by (intro W_rules) auto

lemma W_mismatch [W_rules]: "entails ts (opts got) \<Longrightarrow> entails ts (opts want) \<Longrightarrow> Q () ts \<Longrightarrow> W ts (mismatch got want span code what) Q"
  unfolding mismatch_def by (intro W_rules) auto

lemma ok_func: "ok_ty F t \<Longrightarrow> oks F (fds (func_params t))" "ok_ty F t \<Longrightarrow> oks F (opts (func_ret t))"
  by (cases t; simp add: func_params_def func_ret_def)+

lemma entails_param_type: "entails (fds ps) (opts (param_type ps off i name))"
  unfolding param_type_def by (auto simp: entails_def oks_fds split: option.split dest!: find_in_set in_set_dropD)

lemma W_eiter [W_rules]: "(\<And>x. x \<in> set xs \<Longrightarrow> runs ts (f x)) \<Longrightarrow> (\<And>us. entails us ts \<Longrightarrow> Q () us) \<Longrightarrow> W ts (eiter f xs) Q"
proof (induction xs arbitrary: ts)
  case (Cons x xs)
  have "runs us (f y)" if "y \<in> set xs" "entails us ts" for y us
    using Cons.prems(1) [of y] that W_weaken [of us ts] by (auto simp: runs_def)
  then have "W us (eiter f xs) Q" if "entails us ts" for us
    using that by (intro Cons.IH) (auto intro: Cons.prems(2) entails_trans)
  then show ?case
    unfolding eiter_def efold.simps by (intro W_bind W_runs [OF Cons.prems(1)]) (auto simp: eiter_def)
qed (auto simp: eiter_def intro: W_ret)

lemma W_required [W_rules]: "(\<And>us. entails us ts \<Longrightarrow> Q () us) \<Longrightarrow> W ts (check_required ps seen span) Q"
  unfolding check_required_def by (intro W_rules) (auto simp: runs_def intro!: W_rules)

lemma yields_fill: "yields [] (block_fill t)"
  unfolding yields_def block_fill_def
  by (cases t; simp; intro W_rules) (auto simp: entails_def split: option.splits Type.splits)

lemmas W_fill [W_rules] = W_yields [OF yields_fill]

lemma W_require [W_rules]: "entails ts (opts t) \<Longrightarrow> Q () ts \<Longrightarrow> W ts (require_type want t span code what) Q"
  unfolding require_type_def by (intro W_rules) auto

lemma yields_binary: "yields (opts lt @ opts rt) (binary_type op lt rt l r span)"
  unfolding yields_def binary_type_def by (intro W_rules) (auto simp: entails_def)

lemmas W_binary [W_rules] = W_yields [OF yields_binary]

lemma yields_unary: "yields (opts t) (unary_type op t span)"
  unfolding yields_def unary_type_def by (intro W_rules) (auto simp: entails_def)

lemmas W_unary [W_rules] = W_yields [OF yields_unary]

lemma yields_index: "yields (opts xt @ opts it) (index_type xt it idx span)"
proof (cases xt)
  case (Some x)
  define y where "y = (case x of OptT _ t \<Rightarrow> t | _ \<Rightarrow> x)"
  have "entails [x] [y]" by (auto simp: y_def entails_def split: Type.split)
  then show ?thesis
    unfolding yields_def index_type_def Some option.case y_def [symmetric]
    by (cases y) (auto simp: entails_def intro!: W_rules)
qed (auto simp: index_type_def yields_def intro: W_rules)

lemmas W_index [W_rules] = W_yields [OF yields_index]

lemma yields_self: "yields [] selfType"
  unfolding yields_def selfType_def
  by (intro W_rules W_reads [where R = "\<lambda>_. True" and us = fds]) (auto simp: entails_def types_ok_def Let_def)

lemmas W_self [W_rules] = W_yields [OF yields_self]

lemma yields_selector: "yields (opts t) (selector_type t sel span)"
proof (cases t)
  case (Some x)
  show ?thesis
    unfolding yields_def selector_type_def Some
    by (cases x) (auto simp: entails_def oks_fds dest: find_in_set intro!: W_rules)
qed (auto simp: selector_type_def yields_def intro: W_rules)

lemmas W_selector [W_rules] = W_yields [OF yields_selector]

section \<open>Expressions and statements\<close>

lemma W_bind_let [W_rules]:
  "entails ts (opts declared) \<Longrightarrow> entails ts (opts inferred) \<Longrightarrow> (\<And>us. entails us ts \<Longrightarrow> Q () us)
   \<Longrightarrow> W ts (bind_let name declared inferred span) Q"
  unfolding bind_let_def Let_def local_symbol_def
  by (intro W_rules W_set_type) (auto simp: entails_def)

lemma W_for_var [W_rules]: "entails ts (opts t) \<Longrightarrow> (\<And>us. entails us ts \<Longrightarrow> Q () us) \<Longrightarrow> W ts (for_var v t) Q"
  unfolding for_var_def local_symbol_def Let_def
  by (auto split: option.split Type.split simp: entails_def intro!: W_rules)

lemma W_returnType [W_rules]:
  "(\<And>u us. entails us (opts u) \<Longrightarrow> entails us ts \<Longrightarrow> Q u us) \<Longrightarrow> W ts (gets ck_returnType) Q"
  by (rule W_reads [where R = "\<lambda>_. True" and us = opts]) (auto simp: types_ok_def Let_def)

lemma W_selfFields [W_rules]:
  "(\<And>fs us. entails us (fds fs) \<Longrightarrow> entails us ts \<Longrightarrow> Q fs us) \<Longrightarrow> W ts (gets ck_selfFields) Q"
  by (rule W_reads [where R = "\<lambda>_. True" and us = fds]) (auto simp: types_ok_def Let_def)

lemma W_allows [W_rules]: "(\<And>b. Q b ts) \<Longrightarrow> W ts (gets (\<lambda>c. AllowsMutation (ck_scope c))) Q"
  by (rule W_gets)

definition yields_list :: "Type option list ck \<Rightarrow> bool" where
  "yields_list m \<longleftrightarrow> W [] m (\<lambda>ts us. entails us (concat (map opts ts)))"

lemma W_yields_list:
  "yields_list m \<Longrightarrow> (\<And>vs us. entails us (concat (map opts vs)) \<Longrightarrow> entails us ts \<Longrightarrow> Q vs us) \<Longrightarrow> W ts m Q"
  unfolding yields_list_def by (erule W_frame) (auto intro: entails_trans)

lemma yields_listI: "W [] m (\<lambda>ts us. entails us (concat (map opts ts))) \<Longrightarrow> yields_list m"
  by (simp add: yields_list_def)

lemma yieldsI: "W ts m (\<lambda>u us. entails us (opts u)) \<Longrightarrow> yields ts m"
  by (simp add: yields_def)

lemma runsI: "W ts m (\<lambda>_ _. True) \<Longrightarrow> runs ts m"
  by (simp add: runs_def)

lemmas W_calls =
  W_yields [where us = "[]" and m = "typeOf x" for x] W_yields [where us = "[]" and m = "checkStructLit t is b s" for t "is" b s]
  W_yields [where us = "[]" and m = "checkBlockExpr x b" for x b] W_yields [where us = "[]" and m = "checkCall f as u m s" for f as u m s]
  W_yields [where us = "[]" and m = "resolveSelector x i s" for x i s] W_yields [where us = "[]" and m = "checkIfExpr c t e" for c t e]
  W_yields [where us = "[]" and m = "checkListComp x v t c" for x v t c]
  W_yields [where us = "opts acc" and m = "map_values es acc" for es acc]
  W_yields_list [where m = "typesOf xs" for xs]
  W_runs [where us = "[]" and m = "checkStringParts ps" for ps] W_runs [where us = "[]" and m = "init_values is" for "is"]
  W_runs [where us = "fds ps" and m = "checkFieldInits ps n s is seen" for ps n s "is" seen]
  W_runs [where us = "fds ps" and m = "call_args ps off i as" for ps off i as] W_runs [where us = "[]" and m = "checkLetDecl d" for d]
  W_runs [where us = "[]" and m = "walkStmt s" for s] W_runs [where us = "[]" and m = "walkStmts ss" for ss]
  W_runs [where us = "[]" and m = "walkBlock b" for b]

lemma entails_first: "entails us (concat (map opts ts)) \<Longrightarrow> entails us [first_type ts]"
  by (auto simp: first_type_def entails_def oks_def opts_def find_Some_iff all_set_conv_all_nth split: option.splits)

lemma W_BlockT:
  assumes "entails ts [t]" and "\<And>n a. entails ts [a] \<Longrightarrow> W ts (f n a) Q" and "Q None ts"
  shows "W ts (case t of BlockT n a \<Rightarrow> f n a | other \<Rightarrow> ebind (ck_String other) (\<lambda>s. no_type sp code (s @ msg))) Q"
  using assms by (cases t) (auto simp: entails_def intro!: W_rules)

lemma step_BlockExpr:
  assumes "yields [] (typeOf target)" and "\<And>x. b = Some x \<Longrightarrow> runs [] (walkBlock x)"
  shows "yields [] (checkBlockExpr target b)"
  unfolding checkBlockExpr.simps
  by (rule yieldsI, intro W_BlockT W_rules W_calls) (auto simp: assms entails_def)

lemma W_literal_type:
  assumes "entails ts [t]" and "\<And>n name. W ts (f n name) Q" and "\<And>n name ps r b. entails ts (fds ps) \<Longrightarrow> entails ts (opts r) \<Longrightarrow> W ts (g n name ps r b) Q"
    and "Q None ts"
  shows "W ts (case t of OpaqueT _ name \<Rightarrow> no_type span code (msg @ name) | StructT n name \<Rightarrow> f n name
      | DeclT n name ps r b \<Rightarrow> g n name ps r b
      | other \<Rightarrow> ebind (ck_String other) (\<lambda>s. no_type span code2 (s @ msg2))) Q"
  using assms by (cases t) (auto simp: entails_def intro!: W_rules)

lemma step_StructLit:
  assumes "t = NilT \<or> ok_type t" and "t = NilT \<Longrightarrow> runs [] (init_values inits)" and "t \<noteq> NilT \<Longrightarrow> runs [] (walkStmts body)"
    and "\<And>fs name. t \<noteq> NilT \<Longrightarrow> runs (fds fs) (checkFieldInits fs name span inits [])"
  shows "yields [] (checkStructLit t inits body span)"
  unfolding checkStructLit.simps
  by (rule yieldsI, intro W_literal_type W_rules W_calls) (use assms in \<open>auto simp: entails_def\<close>)

lemma step_Call:
  assumes "yields [] (typeOf fn)" and "\<And>x i s. fn = SelectorExpr x i s \<Longrightarrow> yields [] (typeOf x)"
    and "\<And>ft. is_func ft \<Longrightarrow> runs (fds (func_params ft)) (call_args (func_params ft) 0 0 args)"
    and "\<And>ft. runs (fds (func_params ft)) (call_args (func_params ft) 1 0 args)"
  shows "yields [] (checkCall fn args u m span)"
proof -
  have "W [] (case fn of SelectorExpr x sel _ \<Rightarrow>
            ebind (is_import x) (\<lambda>i. if i then ret None else ebind (typeOf x) (\<lambda>t. ufcs_lookup t sel span))
        | _ \<Rightarrow> ret None) (\<lambda>r us. entails us (case r of None \<Rightarrow> [] | Some (t, m) \<Rightarrow> [t]))"
    by (cases fn) (auto intro!: W_rules W_calls assms)
  then show ?thesis
    unfolding checkCall.simps
    by (intro yieldsI W_bind, elim W_mono, intro W_rules W_calls) (use assms in \<open>auto simp: entails_def ok_func\<close>)
qed

lemma W_ListT:
  assumes "\<And>n a. u = Some (ListT n a) \<Longrightarrow> W ts (f n a) Q" and "W ts m Q"
  shows "W ts (case u of Some (ListT n a) \<Rightarrow> f n a | _ \<Rightarrow> m) Q"
  using assms by (auto split: option.split Type.split)

lemma step_ListComp:
  assumes "yields [] (typeOf it)" and "yields [] (typeOf x)" and "yields [] (typeOf c)" and "v \<noteq> None"
  shows "yields [] (checkListComp x v it c)"
  unfolding checkListComp.simps new_list_type_def local_symbol_def
  by (rule yieldsI, intro W_ListT W_rules W_calls) (use assms in \<open>auto simp: entails_def split: option.split\<close>)


lemma step_Selector:
  assumes "yields [] (typeOf x)"
  shows "yields [] (resolveSelector x sel span)"
proof -
  have i: "W us (case x of IdentE d \<Rightarrow> resolveModuleMember (id_Name d) [sel] span | _ \<Rightarrow> ret None) (\<lambda>u us. entails us (opts u))" for us
    by (cases x) (auto intro!: W_rules)
  show ?thesis
    unfolding resolveSelector.simps by (rule yieldsI, intro i W_rules W_calls) (use assms in \<open>auto simp: entails_def\<close>)
qed

lemma step_List:
  assumes "items \<noteq> [] \<Longrightarrow> yields_list (typesOf items)"
  shows "yields [] (typeOf (ListLit items span))"
  unfolding typeOf.simps new_list_type_def
  by (rule yieldsI, intro W_rules W_calls) (use entails_first in \<open>auto simp: assms entails_def\<close>)

lemma step_Map:
  assumes "yields [] (map_values es None)"
  shows "yields [] (typeOf (MapLit es span))"
proof -
  have "yields (opts None) (map_values es None)" using assms by simp
  then show ?thesis
    unfolding typeOf.simps
    by (rule_tac yieldsI, intro W_rules W_yields [where m = "map_values es None"]) (auto simp: entails_def split: option.split)
qed

lemma step_map:
  assumes "yields [] (typeOf k)" and "yields [] (typeOf v)" 
    and "\<And>u. let acc' = (case u of None \<Rightarrow> acc | Some t \<Rightarrow> (case acc of None \<Rightarrow> Some t | Some a \<Rightarrow> if a = t then acc else Some AnyType))
      in yields (opts acc') (map_values es acc')"
  shows "yields (opts acc) (map_values ((k, v) # es) acc)"
  unfolding map_values.simps
  by (rule yieldsI, intro W_rules W_calls) (use assms in \<open>auto simp: Let_def entails_def split: option.split\<close>)

lemma step_inits:
  assumes "id_Name n \<in> set seen \<Longrightarrow> runs (fds decl) (checkFieldInits decl tname span fs seen)"
    and "id_Name n \<notin> set seen \<Longrightarrow> runs (fds decl) (checkFieldInits decl tname span fs (id_Name n # seen))"
    and "id_Name n \<notin> set seen \<Longrightarrow> find (\<lambda>d. fdef_Name d = id_Name n) (rev decl) \<noteq> None \<Longrightarrow> yields [] (typeOf x)"
  shows "runs (fds decl) (checkFieldInits decl tname span (FieldInit n x s # fs) seen)"
  unfolding checkFieldInits.simps
  by (rule runsI, intro W_rules W_calls) (auto simp: assms entails_def oks_fds dest!: find_in_set)

lemma step_args:
  assumes "yields [] (typeOf x)" and "runs (fds ps) (call_args ps off (i + 1) as)"
  shows "runs (fds ps) (call_args ps off i (CallArg name x # as))"
  unfolding call_args.simps
  by (rule runsI, intro W_rules W_calls) (use assms entails_param_type in \<open>auto simp: entails_def\<close>)

text \<open>The cases that delegate keep the function they delegate to.\<close>

declare checkStructLit.simps [simp del] checkBlockExpr.simps [simp del] checkCall.simps [simp del]
  resolveSelector.simps [simp del] checkListComp.simps [simp del]

lemma checking_safe:
  "e = NilE \<or> ok_expr e \<Longrightarrow> yields [] (typeOf e)"
  "(t = NilT \<or> ok_type t) \<and> list_all ok_init inits \<and> list_all ok_stmt body \<Longrightarrow> yields [] (checkStructLit t inits body span)"
  "ok_expr target \<and> (case b of None \<Rightarrow> False | Some b \<Rightarrow> ok_block b) \<Longrightarrow> yields [] (checkBlockExpr target b)"
  "ok_expr fn \<and> list_all ok_arg args \<Longrightarrow> yields [] (checkCall fn args u m span)"
  "ok_expr x \<Longrightarrow> yields [] (resolveSelector x sel span)"
  "ok_expr cnd \<and> ok_expr th \<and> ok_expr el \<Longrightarrow> yields [] (checkIfExpr cnd th el)"
  "ok_expr y \<and> v \<noteq> None \<and> ok_expr it \<and> (c = NilE \<or> ok_expr c) \<Longrightarrow> yields [] (checkListComp y v it c)"
  "list_all ok_expr xs \<Longrightarrow> yields_list (typesOf xs)"
  "list_all (\<lambda>e. ok_expr (fst e) \<and> ok_expr (snd e)) es \<Longrightarrow> yields (opts acc) (map_values es acc)"
  "list_all ok_part parts \<Longrightarrow> runs [] (checkStringParts parts)"
  "list_all ok_init is1 \<Longrightarrow> runs [] (init_values is1)"
  "list_all ok_init is2 \<Longrightarrow> runs (fds decl) (checkFieldInits decl tname span is2 seen)"
  "list_all ok_arg as1 \<Longrightarrow> runs (fds ps) (call_args ps off i as1)"
  "ok_let d \<Longrightarrow> runs [] (checkLetDecl d)"
  "ok_stmt s \<Longrightarrow> runs [] (walkStmt s)"
  "list_all ok_stmt ss \<Longrightarrow> runs [] (walkStmts ss)"
  "ok_block bl \<Longrightarrow> runs [] (walkBlock bl)"
  by (induction e and t inits body span and target b and fn args u m span and x sel span and cnd th el and y v it c
    and xs and es acc and parts and is1 and decl tname span is2 seen and ps off i as1 and d and s and ss and bl
    rule: typeOf_checkStructLit_checkBlockExpr_checkCall_resolveSelector_checkIfExpr_checkListComp_typesOf_map_values_checkStringParts_init_values_checkFieldInits_call_args_checkLetDecl_walkStmt_walkStmts_walkBlock.induct)
   ((rule step_List step_Map step_Selector step_Call step_StructLit step_BlockExpr step_ListComp step_map step_inits step_args;
         (auto split: option.splits)?; fail)
    | (simp; fail)
    | (simp only: typeOf.simps checkIfExpr.simps typesOf.simps map_values.simps checkStringParts.simps init_values.simps checkFieldInits.simps
         call_args.simps checkLetDecl.simps walkStmt.simps walkStmts.simps walkBlock.simps,
       rule yieldsI runsI yields_listI, intro W_rules W_calls; (auto simp: entails_def; fail)))+

lemma W_typeOf [W_rules]:
  "e = NilE \<or> ok_expr e \<Longrightarrow> (\<And>u vs. entails vs (opts u) \<Longrightarrow> entails vs ts \<Longrightarrow> Q u vs) \<Longrightarrow> W ts (typeOf e) Q"
  by (rule W_yields [OF checking_safe(1)]) auto

lemma W_walkBlock [W_rules]: "ok_block b \<Longrightarrow> (\<And>x vs. entails vs ts \<Longrightarrow> Q x vs) \<Longrightarrow> W ts (walkBlock b) Q"
  by (rule W_runs [OF checking_safe(17)]) auto

section \<open>Attributes\<close>

lemma W_cannot_bind [W_rules]:
  "entails ts [t] \<Longrightarrow> want \<noteq> None \<Longrightarrow> entails ts (opts want) \<Longrightarrow> Q () ts \<Longrightarrow> W ts (cannot_bind t at field want span code what) Q"
  unfolding cannot_bind_def by (intro W_rules) auto

lemma W_efold [W_rules]:
  assumes "\<And>x b. x \<in> set xs \<Longrightarrow> runs ts (f x b)" and "\<And>b us. entails us ts \<Longrightarrow> Q b us"
  shows "W ts (efold f xs b) Q"
  using assms
proof (induction xs arbitrary: ts b)
  case (Cons x xs)
  have r: "runs us (f y b')" if "y \<in> set xs" "entails us ts" for y us b'
    using Cons.prems(1) [of y b'] that W_weaken [of us ts] by (auto simp: runs_def)
  have "W us (efold f xs b') Q" if "entails us ts" for us b'
    using that r by (intro Cons.IH) (auto intro: Cons.prems(2) entails_trans)
  then show ?case
    unfolding efold.simps by (intro W_bind W_runs [OF Cons.prems(1)]) auto
qed (auto intro: W_ret)

lemma W_emap:
  assumes "\<And>x. x \<in> set xs \<Longrightarrow> W ts (f x) (\<lambda>y us. entails us (R y))"
    and "\<And>ys us. entails us (concat (map R ys)) \<Longrightarrow> entails us ts \<Longrightarrow> Q ys us"
  shows "W ts (emap f xs) Q"
  using assms
proof (induction xs arbitrary: ts Q)
  case (Cons x xs)
  have r: "W us (f y) (\<lambda>y us. entails us (R y))" if "y \<in> set xs" "entails us ts" for y us
    using Cons.prems(1) [of y] that W_weaken [of us ts] by auto
  show ?case
    unfolding emap.simps
  proof (intro W_bind W_frame [OF Cons.prems(1), of x])
    fix y vs ws
    assume y: "entails vs (R y)" "entails ws vs" "entails ws ts"
    show "W ws (emap f xs) (\<lambda>ys us. W us (ret (y # ys)) Q)"
    proof (rule Cons.IH)
      show "W ws (f z) (\<lambda>y us. entails us (R y))" if "z \<in> set xs" for z using r that y(3) by blast
      fix ys us
      assume "entails us (concat (map R ys))" "entails us ws"
      then show "W us (ret (y # ys)) Q" using y by (intro W_ret Cons.prems(2)) (auto intro: entails_trans)
    qed
  qed auto
qed (auto intro!: W_ret)

lemma W_attr_in [W_rules]:
  "(\<And>s us. entails us (opts (attr_type s)) \<Longrightarrow> entails us ts \<Longrightarrow> Q s us) \<Longrightarrow> W ts (gets (\<lambda>c. attr_in name (ck_scope c))) Q"
  by (rule W_reads [where R = "\<lambda>_. True" and us = "\<lambda>s. opts (attr_type s)"])
    (auto simp: attr_in_def attr_type_def types_ok_def Let_def dest!: ok_scope_Lookup split: option.split Type.split)

lemma entails_attr_in: "entails ts (scope_types md) \<Longrightarrow> entails ts (opts (attr_type (attr_in name md)))"
  by (auto simp: attr_in_def attr_type_def entails_def oks_scope_types dest!: ok_scope_Lookup split: option.split Type.split)

lemma yields_attr_type: "yields [] (resolveAttrType name span)"
  unfolding resolveAttrType_def
  by (rule yieldsI, intro W_rules W_module) (auto dest: entails_attr_in intro: entails_trans)

lemmas W_attr_type [W_rules] = W_yields [OF yields_attr_type]

lemma yields_attr_args: "yields [] (lookupAttrTypeForArgs name)"
  unfolding lookupAttrTypeForArgs_def yields_def
proof (rule W_reads [where R = "\<lambda>_. True" and us = opts], goal_cases)
  case (1 c)
  then have "ok_scope (ck_fields c) (ck_scope c)"
    and "map_of (ck_modules c) m = Some md \<Longrightarrow> ok_scope (ck_fields c) md" for m md
    by (auto simp: types_ok_def Let_def dest!: map_of_SomeD)
  moreover have "oks F (opts (attr_type (attr_in n s)))" if "ok_scope F s" for F n s
    using that by (auto simp: attr_in_def attr_type_def dest!: ok_scope_Lookup split: option.split Type.split)
  ultimately show ?case by (auto split: list.split option.split)
qed auto

lemmas W_attr_args [W_rules] = W_yields [OF yields_attr_args]

lemma entails_hd: "fs \<noteq> [] \<Longrightarrow> entails ts (fds fs) \<Longrightarrow> entails ts (opts (fdef_Type (hd fs)))"
  by (cases fs) auto

lemma entails_elem: "entails ts (opts t) \<Longrightarrow> entails ts (opts (elem_type t))"
  by (auto simp: elem_type_def entails_def split: option.splits Type.splits)

lemma isListType_elem: "isListType t \<Longrightarrow> elem_type t \<noteq> None"
  by (auto simp: isListType_def elem_type_def split: option.splits Type.splits)

lemma W_positionals [W_rules]:
  assumes "fs \<noteq> []" and "\<forall>f \<in> set fs. fdef_Type f \<noteq> None" and "entails ts (fds fs)" and "list_all ok_expr (at_Positionals a)"
    and "\<And>b us. entails us ts \<Longrightarrow> Q b us"
  shows "W ts (bind_positionals a at fs) Q"
proof -
  have w: "fdef_Type (hd fs) \<noteq> None" "entails ts (opts (fdef_Type (hd fs)))" using assms(1-3) entails_hd by auto
  then have e: "entails us (opts (fdef_Type (hd fs)))" "entails us (opts (elem_type (fdef_Type (hd fs))))" if "entails us ts" for us
    using that entails_trans entails_elem by blast+
  have p: "ok_expr x" if "x \<in> set (at_Positionals a)" for x using that assms(4) by (auto simp: list_all_iff)
  have h: "ok_expr (hd (at_Positionals a))" if "at_Positionals a \<noteq> []" using p that by simp
  have m: "elem_type (fdef_Type (hd fs)) \<noteq> None" if "isListType (fdef_Type (hd fs))" using that isListType_elem by blast
  show ?thesis
    unfolding bind_positionals_def Let_def
    by (intro W_rules runsI) (use w e p h m assms(5) in \<open>auto intro: entails_trans\<close>)
qed

lemma W_bind_named [W_rules]:
  assumes "\<forall>f \<in> set fs. fdef_Type f \<noteq> None" and "entails ts (fds fs)" and "ok_expr (aa_Value na)"
    and "\<And>b us. entails us ts \<Longrightarrow> Q b us"
  shows "W ts (bind_named at fs na bound) Q"
proof -
  have f: "fdef_Type f \<noteq> None" "entails us (opts (fdef_Type f))"
    if "find P (rev fs) = Some f" "entails us ts" for P f us
    using find_in_set [OF that(1)] that(2) assms(1,2) entails_field entails_trans by auto
  show ?thesis
    unfolding bind_named_def Let_def by (intro W_rules) (use f assms(3,4) in \<open>auto intro: entails_trans\<close>)
qed

lemma runs_bindAttribute: "ok_attr a \<Longrightarrow> runs [at] (bindAttribute a at)"
  unfolding bindAttribute_def
  by (rule runsI, intro W_rules runsI) (auto simp: ok_attr_def list_all_iff intro: entails_trans)

lemmas W_bindAttribute [W_rules] = W_runs [OF runs_bindAttribute]

lemma runs_fieldAttributes: "list_all ok_attr (fd_Attributes f) \<Longrightarrow> runs [] (checkFieldAttributes f)"
  unfolding checkFieldAttributes_def checkAttribute_def
  by (rule runsI, intro W_rules runsI) (auto simp: list_all_iff)

lemmas W_fieldAttributes [W_rules] = W_runs [OF runs_fieldAttributes]

lemma runs_resolveArgs: "runs [] (resolveAttributeArgs a)"
  unfolding resolveAttributeArgs_def Let_def
  by (rule runsI, intro W_rules) auto

lemmas W_resolveArgs [W_rules] = W_runs [OF runs_resolveArgs]

lemma runs_resolveAttributes: "runs [] (resolveFieldAttributes f)"
  unfolding resolveFieldAttributes_def Let_def
  by (rule runsI, intro W_rules W_gets runsI) auto

lemmas W_resolveAttributes [W_rules] = W_runs [OF runs_resolveAttributes]

section \<open>Declarations\<close>

lemma runs_import: "runs [] (checkImport imp)"
  unfolding checkImport_def Let_def by (rule runsI, intro W_rules W_gets) auto

lemma W_declare [W_rules]: "entails ts (opts (sy_Type sy)) \<Longrightarrow> (\<And>us. entails us ts \<Longrightarrow> Q () us) \<Longrightarrow> W ts (declare_symbol sy code msg) Q"
  unfolding declare_symbol_def by (intro W_rules) auto

lemma runs_register: "ok_decl d \<Longrightarrow> runs [] (registerDecl d)"
  unfolding registerDecl_def
  by (rule runsI, intro W_bind W_gets, cases d; simp split: LetDecl.split; intro W_rules W_gets impI allI conjI; simp add: entails_def)

lemma runs_field:
  assumes "ok_field f"
  shows "runs [] (check_field attr n f seen)"
  using assms unfolding check_field_def Let_def ok_field_def
  by (intro runsI W_rules) (auto simp: entails_def)

lemma runs_fields: "list_all ok_field fs \<Longrightarrow> runs [] (check_fields attr n fs)"
  unfolding check_fields_def
  by (rule runsI, intro W_rules) (auto simp: list_all_iff runs_field)

lemmas W_check_fields [W_rules] = W_runs [OF runs_fields]

lemma runs_TypeDecl: "(case fs of None \<Rightarrow> True | Some fs \<Rightarrow> list_all ok_field fs) \<Longrightarrow> runs [] (checkTypeDecl name fs)"
  unfolding checkTypeDecl_def
  by (rule runsI, cases fs) (auto intro!: W_rules split: option.split Type.split)

lemma runs_AttrTypeDecl: "list_all ok_field fs \<Longrightarrow> runs [] (checkAttrTypeDecl name fs)"
  unfolding checkAttrTypeDecl_def
  by (rule runsI) (auto intro!: W_rules split: option.split Type.split)

lemma W_param_field: "ok_field f \<Longrightarrow> W ts (param_field f) (\<lambda>y us. entails us (opts (fdef_Type y)))"
  unfolding param_field_def ok_field_def by (intro W_rules) (auto intro: entails_trans)

lemma W_param_symbol: "ok_field f \<Longrightarrow> W ts (param_symbol f) (\<lambda>y us. entails us (opts (fdef_Type y)))"
  unfolding param_symbol_def ok_field_def local_symbol_def Let_def by (intro W_rules) (auto intro: entails_trans)

lemma W_set_decl [W_rules]:
  assumes "list_all ok_field ps" and "\<And>n params us. entails us (fds params) \<Longrightarrow> entails us ts \<Longrightarrow> entails us [mk n params]"
    and "\<And>us. entails us ts \<Longrightarrow> Q () us"
  shows "W ts (set_decl_type name ps mk) Q"
  unfolding set_decl_type_def
  by (intro W_rules W_emap [where R = "\<lambda>y. opts (fdef_Type y)"] W_param_field W_set_type)
    (use assms in \<open>auto simp: list_all_iff fds_def entails_def\<close>)

lemma W_set_return: "entails ts (opts r) \<Longrightarrow> Q () ts \<Longrightarrow> W ts (modify (\<lambda>c. c\<lparr>ck_returnType := r\<rparr>)) Q"
  by (rule W_modify) (auto simp: types_ok_def Let_def entails_def)

lemma W_set_self: "entails ts (fds fs) \<Longrightarrow> Q () ts \<Longrightarrow> W ts (modify (\<lambda>c. c\<lparr>ck_selfFields := fs\<rparr>)) Q"
  by (rule W_modify) (auto simp: types_ok_def Let_def entails_def)

lemma runs_FuncDecl:
  assumes "list_all ok_field ps" and "ok_type rt" and "case body of None \<Rightarrow> True | Some b \<Rightarrow> ok_block b"
  shows "runs [] (checkFuncDecl name ps rt body span)"
  unfolding checkFuncDecl_def
  by (rule runsI, intro W_rules runsI W_emap [where R = "\<lambda>y. opts (fdef_Type y)"] W_param_symbol W_set_return)
    (use assms in \<open>auto simp: list_all_iff ok_field_def entails_def\<close>)

lemma runs_LetDecl: "ok_let d \<Longrightarrow> runs [] (checkLetDecl d)"
  by (rule checking_safe(14))

text \<open>A decl declaration after its result is resolved: with no result, the type it gets cannot be printed.\<close>

definition decl_rest :: "DottedName \<Rightarrow> Field list \<Rightarrow> Block option \<Rightarrow> Type option \<Rightarrow> unit ck" where
  "decl_rest dn ps body r =
       ethen (eiter checkFieldAttributes ps)
         (case dn_Parts dn of
            [] \<Rightarrow> epanic ''index out of range''
          | p # _ \<Rightarrow>
              ethen (set_decl_type (id_Name p) ps (\<lambda>n params. DeclT n (id_Name p) params r (body \<noteq> None)))
                (case body of
                   None \<Rightarrow> ret ()
                 | Some b \<Rightarrow>
                     ethen (pushScope ScopeDecl) (ebind (gets ck_selfFields) (\<lambda>prev. ebind (emap param_symbol ps) (\<lambda>stepParams.
                       ethen (modify (\<lambda>c. c\<lparr>ck_selfFields := stepParams\<rparr>))
                         (ethen (walkBlock b) (ethen (modify (\<lambda>c. c\<lparr>ck_selfFields := prev\<rparr>)) popScope)))))))"

lemma runs_decl_rest:
  assumes "list_all ok_field ps" and "dn_Parts dn \<noteq> []" and "case body of None \<Rightarrow> True | Some b \<Rightarrow> ok_block b" and "r \<noteq> None"
  shows "runs (opts r) (decl_rest dn ps body r)"
  unfolding decl_rest_def
  by (rule runsI, intro W_rules runsI W_emap [where R = "\<lambda>y. opts (fdef_Type y)"] W_param_symbol W_set_self)
    (use assms in \<open>auto simp: list_all_iff ok_field_def entails_def fds_def\<close>)

lemma checkDeclDecl_rest:
  "rt \<noteq> NilT \<Longrightarrow> checkDeclDecl dn ps rt body span = ebind (resolveType rt) (decl_rest dn ps body)"
  unfolding checkDeclDecl_def by (simp add: decl_rest_def [abs_def])

section \<open>Files\<close>

lemma runs_at:
  assumes "runs ts m" and "types_ok c" and "oks (ck_fields c) ts"
  shows "\<exists>x c'. m c = Done x c' \<and> types_ok c'"
  using assms unfolding runs_def W_def by blast

text \<open>The result of each decl declaration is known when the walk comes to it.\<close>

definition result_known :: "Decl \<Rightarrow> Checker \<Rightarrow> bool" where
  "result_known d c =
     (case d of
        DeclDecl _ _ rt _ _ _ \<Rightarrow> rt \<noteq> NilT \<and> (case resolveType rt c of Done (Some _) _ \<Rightarrow> True | _ \<Rightarrow> False)
      | _ \<Rightarrow> True)"

fun results_known :: "Decl list \<Rightarrow> Checker \<Rightarrow> bool" where
  "results_known [] c = True"
| "results_known (d # ds) c = (result_known d c \<and> (case check_decl d c of Done _ c' \<Rightarrow> results_known ds c' | _ \<Rightarrow> True))"

text \<open>The state of Check when the walk begins.\<close>

definition declared :: "File \<Rightarrow> unit ck" where
  "declared f =
     ethen (modify (\<lambda>c. c\<lparr>ck_scope := (if ck_scope c = [] then NewScope [] ScopeFile else ck_scope c),
              ck_modName := (case fl_Module f of Some m \<Rightarrow> id_Name (md_Name m) | None \<Rightarrow> ''main'')\<rparr>))
       (ethen (eiter checkImport (fl_Imports f)) (eiter registerDecl (fl_Decls f)))"

definition file_results_known :: "File \<Rightarrow> Checker \<Rightarrow> bool" where
  "file_results_known f c = (case declared f c of Done _ c' \<Rightarrow> results_known (fl_Decls f) c' | _ \<Rightarrow> True)"

lemma ethen_assoc: "ethen (ethen m k) l = ethen m (ethen k l)"
  by (rule ext) (simp add: ethen_def ebind_def split: outcome.split)

lemma Check_declared: "Check f = ethen (declared f) (ethen (eiter check_decl (fl_Decls f)) (walkStmts (fl_Stmts f)))"
  by (simp add: Check_def declared_def ethen_assoc)

lemma decl_safe:
  assumes "ok_decl d" and "types_ok c" and "result_known d c"
  shows "\<exists>c'. check_decl d c = Done () c' \<and> types_ok c'"
proof (cases "\<exists>dn ps rt b pub span. d = DeclDecl dn ps rt b pub span")
  case True
  then obtain dn ps rt b pub span where d: "d = DeclDecl dn ps rt b pub span" by blast
  from assms(3) obtain t c1 where r: "rt \<noteq> NilT" "resolveType rt c = Done (Some t) c1"
    by (auto simp: d result_known_def split: outcome.splits option.splits)
  then have "ok_type rt" using assms(1) by (simp add: d)
  then obtain us where c1: "types_ok c1" "oks (ck_fields c1) us" "entails us [t]"
    using yields_type [of rt] assms(2) r(2) unfolding yields_def W_def by fastforce
  have "runs (opts (Some t)) (decl_rest dn ps b (Some t))" using assms(1) by (intro runs_decl_rest) (auto simp: d)
  from runs_at [OF this c1(1)] c1(2,3) r show ?thesis
    by (auto simp: check_decl_def d checkDeclDecl_rest entails_def)
next
  case False
  then have "runs [] (check_decl d)"
    using assms(1) by (cases d)
      (auto simp: check_decl_def intro: runsI [OF W_ret] runs_TypeDecl runs_AttrTypeDecl runs_FuncDecl runs_LetDecl)
  from runs_at [OF this assms(2)] show ?thesis by auto
qed

lemma decls_safe:
  "list_all ok_decl ds \<Longrightarrow> types_ok c \<Longrightarrow> results_known ds c \<Longrightarrow> \<exists>c'. eiter check_decl ds c = Done () c' \<and> types_ok c'"
proof (induction ds arbitrary: c)
  case (Cons d ds)
  then obtain c1 where c1: "check_decl d c = Done () c1" "types_ok c1" using decl_safe [of d c] by auto
  then have "\<exists>c'. eiter check_decl ds c1 = Done () c' \<and> types_ok c'" using Cons by auto
  then show ?case using c1(1) by (auto simp: eiter_def ebind_def)
qed (simp add: eiter_def)

text \<open>Types in a checker that has not started, or has ended, can be printed.\<close>

definition printable :: "Checker \<Rightarrow> bool" where
  "printable c \<longleftrightarrow> types_ok (c\<lparr>ck_scope := (if ck_scope c = [] then NewScope [] ScopeFile else ck_scope c)\<rparr>)"

lemma types_ok_printable: "types_ok c \<Longrightarrow> printable c"
  by (simp add: types_ok_def printable_def Let_def)

lemma declared_safe:
  assumes "ok_file f" and "printable c"
  shows "\<exists>c'. declared f c = Done () c' \<and> types_ok c'"
proof -
  let ?c = "c\<lparr>ck_scope := (if ck_scope c = [] then NewScope [] ScopeFile else ck_scope c),
    ck_modName := (case fl_Module f of Some m \<Rightarrow> id_Name (md_Name m) | None \<Rightarrow> ''main'')\<rparr>"
  have i: "types_ok ?c" using assms(2) by (simp add: printable_def types_ok_def Let_def)
  have "runs [] (eiter checkImport (fl_Imports f))" by (rule runsI, rule W_eiter) (auto simp: runs_import)
  from runs_at [OF this i] obtain c1 where c1: "eiter checkImport (fl_Imports f) ?c = Done () c1" "types_ok c1" by auto
  have "runs [] (eiter registerDecl (fl_Decls f))"
    using assms(1) by (intro runsI [OF W_eiter]) (auto simp: runs_register ok_file_def list_all_iff)
  from runs_at [OF this c1(2)] c1(1) show ?thesis by (auto simp: declared_def ethen_def ebind_def)
qed

text \<open>C35: the type checker does not panic on a file that the parser accepted, started with types that can be printed, as long as
  the result type of each decl declaration resolves when the checker comes to it. Its types can
  be printed again afterwards, so that the next file can be checked with them.\<close>

theorem checker_never_panics:
  assumes "parse_source name src = Done f p" and "p_errs p = []" and "printable c" and "file_results_known f c"
  shows "\<exists>c'. Check f c = Done () c' \<and> printable c'"
proof -
  have f: "ok_file f" using parse_source_wp [of src name] assms(1,2) by (auto simp: wp_def parse_source_def)
  then obtain c1 where c1: "declared f c = Done () c1" "types_ok c1" using declared_safe assms(3) by blast
  then obtain c2 where c2: "eiter check_decl (fl_Decls f) c1 = Done () c2" "types_ok c2"
    using decls_safe [of "fl_Decls f" c1] f assms(4) by (auto simp: ok_file_def file_results_known_def)
  have "runs [] (walkStmts (fl_Stmts f))" using f by (intro checking_safe(16)) (simp add: ok_file_def)
  from runs_at [OF this c2(2)] show ?thesis
    using c1(1) c2(1) types_ok_printable by (auto simp: Check_declared ethen_def ebind_def)
qed

text \<open>A decl declaration without a result is an error that the checker reports; it goes on, and an expression that has to
  print the type of the name makes it panic.\<close>

lemma nil_result_panics:
  assumes "scope_Lookup (id_Name f) (ck_scope c) = Some sy" and "sy_Type sy = Some (DeclT n name ps None b)"
  shows "typeOf (BinaryExpr K_Plus (IdentE f) (IntLit v raw s1) s2) c = Panic ''nil pointer dereference''"
  using assms
  by (simp add: resolveIdent_def ck_Lookup_def binary_type_def is_type_def isListType_def ck_String_def ebind_def)

section \<open>A file with a decl declaration\<close>

definition decl_source :: string where
  "decl_source = ''module m'' @ newline # ''decl f() int'' @ newline # ''let x = f''"

lemma decl_tokens:
  "Next (New [] decl_source) = (\<lparr>tok_Kind = K_Module, tok_Pos = 0, tok_End = 6\<rparr>, lexer_at decl_source 6 K_Module)"
  "Next (lexer_at decl_source 6 K_Module) = (\<lparr>tok_Kind = K_Ident, tok_Pos = 7, tok_End = 8\<rparr>, lexer_at decl_source 8 K_Ident)"
  "Next (lexer_at decl_source 8 K_Ident) = (\<lparr>tok_Kind = K_Semi, tok_Pos = 8, tok_End = 9\<rparr>, lexer_at decl_source 9 K_Semi)"
  "Next (lexer_at decl_source 9 K_Semi) = (\<lparr>tok_Kind = K_Decl, tok_Pos = 9, tok_End = 13\<rparr>, lexer_at decl_source 13 K_Decl)"
  "Next (lexer_at decl_source 13 K_Decl) = (\<lparr>tok_Kind = K_Ident, tok_Pos = 14, tok_End = 15\<rparr>, lexer_at decl_source 15 K_Ident)"
  "Next (lexer_at decl_source 15 K_Ident) = (\<lparr>tok_Kind = K_LParen, tok_Pos = 15, tok_End = 16\<rparr>, lexer_at decl_source 16 K_LParen)"
  "Next (lexer_at decl_source 16 K_LParen) = (\<lparr>tok_Kind = K_RParen, tok_Pos = 16, tok_End = 17\<rparr>, lexer_at decl_source 17 K_RParen)"
  "Next (lexer_at decl_source 17 K_RParen) = (\<lparr>tok_Kind = K_Ident, tok_Pos = 18, tok_End = 21\<rparr>, lexer_at decl_source 21 K_Ident)"
  "Next (lexer_at decl_source 21 K_Ident) = (\<lparr>tok_Kind = K_Semi, tok_Pos = 21, tok_End = 22\<rparr>, lexer_at decl_source 22 K_Semi)"
  "Next (lexer_at decl_source 22 K_Semi) = (\<lparr>tok_Kind = K_Let, tok_Pos = 22, tok_End = 25\<rparr>, lexer_at decl_source 25 K_Let)"
  "Next (lexer_at decl_source 25 K_Let) = (\<lparr>tok_Kind = K_Ident, tok_Pos = 26, tok_End = 27\<rparr>, lexer_at decl_source 27 K_Ident)"
  "Next (lexer_at decl_source 27 K_Ident) = (\<lparr>tok_Kind = K_Assign, tok_Pos = 28, tok_End = 29\<rparr>, lexer_at decl_source 29 K_Assign)"
  "Next (lexer_at decl_source 29 K_Assign) = (\<lparr>tok_Kind = K_Ident, tok_Pos = 30, tok_End = 31\<rparr>, lexer_at decl_source 31 K_Ident)"
  "Next (lexer_at decl_source 31 K_Ident) = (\<lparr>tok_Kind = K_Semi, tok_Pos = 31, tok_End = 31\<rparr>, lexer_at decl_source 31 K_Semi)"
  "Next (lexer_at decl_source 31 K_Semi) = (\<lparr>tok_Kind = K_EOF, tok_Pos = 31, tok_End = 31\<rparr>, lexer_at decl_source 31 K_EOF)"
  "Next (lexer_at decl_source 31 K_EOF) = (\<lparr>tok_Kind = K_EOF, tok_Pos = 31, tok_End = 31\<rparr>, lexer_at decl_source 31 K_EOF)"
  by code_simp+

lemma decl_fuel: "parse_fuel decl_source = 299"
  by code_simp

lemmas decl_defs = run_defs parseDeclDecl_def [THEN fun_cong] parseDottedName_def [THEN fun_cong] parseParams_def [THEN fun_cong]
  field_loop_def [THEN fun_cong] parseTypeExpr_def [THEN fun_cong] optional_body_def [THEN fun_cong]

lemma decl_text:
  "slice decl_source 14 15 = ''f''" "slice decl_source 18 21 = ''int''" "slice decl_source 26 27 = ''x''"
  "slice decl_source 30 31 = ''f''"
  by code_simp+

lemma decl_run:
  "case parse_source [] decl_source of
     Done f p \<Rightarrow> p_errs p = [] \<and> fl_Imports f = [] \<and> (\<exists>s1 s2 s3 s4 s5 s6. fl_Decls f = 
       [DeclDecl \<lparr>dn_Parts = [\<lparr>id_Name = ''f'', id_Span = s1\<rparr>], dn_Span = s1\<rparr> []
          (NamedType \<lparr>dn_Parts = [\<lparr>id_Name = ''int'', id_Span = s2\<rparr>], dn_Span = s2\<rparr> s2) None False s3,
        LetD (LetDecl \<lparr>id_Name = ''x'', id_Span = s4\<rparr> NilT (IdentE \<lparr>id_Name = ''f'', id_Span = s5\<rparr>) False s6)])
   | _ \<Rightarrow> False"
  unfolding parse_source_def decl_fuel
  by (simp add: decl_defs decl_tokens decl_text Let_def span_to_def tok_span_def del: parser.simps)

lemma checker_never_panics_witness:
  "\<exists>f p c. parse_source [] decl_source = Done f p \<and> length (fl_Decls f) = 2
     \<and> Check f (New_checker [] [] 0) = Done () c \<and> printable c"
proof -
  obtain f p where f: "parse_source [] decl_source = Done f p" "p_errs p = []" "fl_Imports f = []"
    and d: "\<exists>s1 s2 s3 s4 s5 s6. fl_Decls f =
       [DeclDecl \<lparr>dn_Parts = [\<lparr>id_Name = ''f'', id_Span = s1\<rparr>], dn_Span = s1\<rparr> []
          (NamedType \<lparr>dn_Parts = [\<lparr>id_Name = ''int'', id_Span = s2\<rparr>], dn_Span = s2\<rparr> s2) None False s3,
        LetD (LetDecl \<lparr>id_Name = ''x'', id_Span = s4\<rparr> NilT (IdentE \<lparr>id_Name = ''f'', id_Span = s5\<rparr>) False s6)]"
    using decl_run by (auto split: outcome.splits)
  have "printable (New_checker [] [] 0)" by code_simp
  moreover have "file_results_known f (New_checker [] [] 0)"
    using d f(3)
    by (auto simp: file_results_known_def declared_def result_known_def resolveNamedType_def builtinByName_def eiter_def
        ethen_def ebind_def split: outcome.split)
  ultimately show ?thesis using checker_never_panics [OF f(1,2)] f d by fastforce
qed

end
