(* ===== verification/Return_Paths.thy ===== *)
theory Return_Paths
  imports Checker Eval_Behaviour
begin

text \<open>
  The checker's test that all paths of a function return a value (definitelyReturns of internal/lang/check/checker.go), against the
  evaluator, which runs the body until a return statement has left a value.
\<close>

section \<open>The return statements at the end\<close>

text \<open>The expressions that the test relies on.\<close>

function final_returns :: "Block \<Rightarrow> Expr list" where
  "final_returns (Block sts s) =
     (if sts = [] then []
      else
        (case last sts of
           ReturnStmt v _ \<Rightarrow> [v]
         | IfStmt _ th el _ \<Rightarrow>
             (case th of None \<Rightarrow> [] | Some t \<Rightarrow> final_returns t) @ (case el of None \<Rightarrow> [] | Some e \<Rightarrow> final_returns e)
         | _ \<Rightarrow> []))"
  by pat_completeness auto

termination
proof (relation "measure size", goal_cases)
  case (2 sts s c th el sp t)
  then show ?case using last_size [of sts] by simp
next
  case (3 sts s c th el sp e)
  then show ?case using last_size [of sts] by simp
qed simp

declare definitelyReturns.simps [simp del] final_returns.simps [simp del]

section \<open>Running a block\<close>

text \<open>A run ends with a value, or with the last statement.\<close>

lemma until_return_last:
  assumes "until_return f xs s = Done () s'" and "xs \<noteq> []"
  shows "es_returnVal s' \<noteq> VNil \<or> (\<exists>s1. f (last xs) s1 = Done () s')"
  using assms
proof (induction xs arbitrary: s)
  case (Cons x xs)
  from Cons.prems(1) obtain s1 where x: "f x s = Done () s1"
    and r: "(if es_returnVal s1 \<noteq> VNil then ret () else until_return f xs) s1 = Done () s'"
    by (auto simp: ethen_def elim!: ebind_DoneE)
  show ?case
  proof (cases "xs = [] \<or> es_returnVal s1 \<noteq> VNil")
    case True
    then show ?thesis using x r by (auto split: if_splits)
  next
    case False
    then show ?thesis using Cons.IH [of s1] r by simp
  qed
qed simp

lemma in_child_returns:
  assumes "in_child m s = Done () s'"
  obtains s1 s2 where "m s1 = Done () s2" "es_returnVal s' = es_returnVal s2"
  using assms by (auto simp: in_child_def with_env_def ethen_def elim!: ebind_DoneE)

lemma evalIf_branch:
  assumes "evalIf ev cnd (Some t) (Some e) s = Done () s'"
  obtains b s1 s2 where "b = t \<or> b = e" "evalBlock ev (Some b) s1 = Done () s2" "es_returnVal s' = es_returnVal s2"
proof -
  have "\<exists>b s1. (b = t \<or> b = e) \<and> in_child (evalBlock ev (Some b)) s1 = Done () s'"
    using assms unfolding evalIf_def by (auto simp: conj_disj_distribR ex_disj_distrib elim!: ebind_DoneE split: if_splits)
  then obtain b s1 where "b = t \<or> b = e" and "in_child (evalBlock ev (Some b)) s1 = Done () s'" by blast
  with that show thesis by (auto elim!: in_child_returns)
qed

lemma block_returns:
  assumes "definitelyReturns b" and "evalBlock (evaluator c n) (Some b) s = Done () s'"
    and "\<And>e m s1 v s2. e \<in> set (final_returns b) \<Longrightarrow> eval_expr c m e s1 = Done v s2 \<Longrightarrow> v \<noteq> VNil"
  shows "es_returnVal s' \<noteq> VNil"
  using assms
proof (induction b arbitrary: n s s' rule: measure_induct_rule [of size])
  case (less b)
  obtain sts sp where b: "b = Block sts sp" by (cases b)
  have ne: "sts \<noteq> []" using less.prems(1) by (auto simp: definitelyReturns.simps b)
  have run: "until_return (eval_stmt c n) sts s = Done () s'" using less.prems(2) by (simp add: evalBlock_def b)
  show ?case
  proof (cases "es_returnVal s' \<noteq> VNil")
    case False
    then obtain s1 where l: "eval_stmt c n (last sts) s1 = Done () s'" using until_return_last [OF run ne] by blast
    then obtain m where n: "n = Suc m" by (cases n) auto
    have l: "evalStmt c (evaluator c m) (last sts) s1 = Done () s'" using l by (simp add: n)
    show ?thesis
    proof (cases "last sts")
      case (ReturnStmt v span)
      then have "v \<noteq> NilE" and "final_returns b = [v]"
        using less.prems(1) ne by (auto simp: definitelyReturns.simps final_returns.simps b)
      then show ?thesis
        using l ReturnStmt less.prems(3) [of v] by (auto simp: evalStmt_def elim!: ebind_DoneE)
    next
      case (IfStmt cnd th el span)
      then obtain t e where te: "th = Some t" "el = Some e" "definitelyReturns t" "definitelyReturns e"
        using less.prems(1) ne by (auto simp: definitelyReturns.simps b split: option.splits)
      then have "evalIf (evaluator c m) cnd (Some t) (Some e) s1 = Done () s'" using l IfStmt by (simp add: evalStmt_def)
      then obtain b' s2 s3 where r: "b' = t \<or> b' = e" "evalBlock (evaluator c m) (Some b') s2 = Done () s3"
          "es_returnVal s' = es_returnVal s3"
        by (rule evalIf_branch)
      have "set (final_returns b') \<subseteq> set (final_returns b)"
        using r(1) ne IfStmt te by (auto simp: final_returns.simps [of sts] b)
      moreover have "size b' < size b" "definitelyReturns b'" using last_size [OF ne] r(1) IfStmt te b by auto
      ultimately have "es_returnVal s3 \<noteq> VNil" using less.IH [OF _ _ r(2)] less.prems(3) by blast
      then show ?thesis using r(3) by simp
    qed (use less.prems(1) ne in \<open>auto simp: definitelyReturns.simps b\<close>)
  qed simp
qed

section \<open>Calling a function\<close>

lemma ethen_DoneE:
  assumes "ethen m k s = Done v s'"
  obtains s1 where "m s = Done () s1" "k s1 = Done v s'"
  using assms by (auto simp: ethen_def elim!: ebind_DoneE)

lemma with_env_DoneE:
  assumes "with_env e m s = Done v s'"
  obtains s1 s2 where "m s1 = Done v s2"
  using assms by (auto simp: with_env_def elim!: ebind_DoneE ethen_DoneE)

lemma callFunc_body:
  assumes "callFunc c ev fv positional kw span s = Done v s'" and "fv_body fv = BlockBody (Some b)"
  obtains s1 s2 where "es_returnVal s1 = VNil" "evalBlock ev (Some b) s1 = Done () s2"
    "v = (if es_returnVal s2 = VNil then VNone else es_returnVal s2)"
proof -
  have "\<exists>s1 s2. until_return (r_stmt ev) (bk_Stmts b) (s1\<lparr>es_returnVal := VNil\<rparr>) = Done () s2
      \<and> v = (if es_returnVal s2 = VNil then VNone else es_returnVal s2)"
    using assms by (auto simp: callFunc_def elim!: ebind_DoneE ethen_DoneE with_env_DoneE split del: if_split) blast
  then show thesis using that [of "s\<lparr>es_returnVal := VNil\<rparr>" for s] by (auto simp: evalBlock_def)
qed

text \<open>C39: the test of the checker that all paths return a value means what it says: a call of a function whose body passes it, and whose
  final return expressions never evaluate to nil, gives the value that a return statement of the body has
  left; the none that a call gives for a body that ends without a return is never used.\<close>

theorem all_paths_return:
  assumes "callFunc c (evaluator c n) fv positional kw span s = Done v s'"
    and "fv_body fv = BlockBody (Some b)" and "definitelyReturns b"
    and "\<And>e m s1 w s2. e \<in> set (final_returns b) \<Longrightarrow> eval_expr c m e s1 = Done w s2 \<Longrightarrow> w \<noteq> VNil"
  shows "\<exists>s1 s2. es_returnVal s1 = VNil \<and> evalBlock (evaluator c n) (Some b) s1 = Done () s2
    \<and> es_returnVal s2 \<noteq> VNil \<and> v = es_returnVal s2"
  using assms(1,2) by (rule callFunc_body) (use block_returns [OF assms(3) _ assms(4)] in auto)

text \<open>A function that ends in an if statement with a return in each branch.\<close>

definition sample_body :: Block where
  "sample_body = Block [IfStmt (BoolLit False no_span)
     (Some (Block [ReturnStmt (IntLit 1 ''1'' no_span) no_span] no_span))
     (Some (Block [ReturnStmt (ListLit [] no_span) no_span] no_span)) no_span] no_span"


definition sample_func :: FuncVal where
  "sample_func = \<lparr>fv_Name = ''f'', fv_QualName = ''f'', fv_Params = [], fv_Defaults = [], fv_RetType = ''int'',
     fv_body = BlockBody (Some sample_body), fv_scope = None\<rparr>"

lemma sample_returns:
  "definitelyReturns sample_body" "set (final_returns sample_body) = {IntLit 1 ''1'' no_span, ListLit [] no_span}"
  by (auto simp: sample_body_def definitelyReturns.simps final_returns.simps)

lemma sample_not_nil:
  assumes "e \<in> set (final_returns sample_body)" and "eval_expr plain_cfg m e s1 = Done w s2"
  shows "w \<noteq> VNil"
  using assms by (cases m) (auto simp: sample_returns evalExpr_def new_list_def elim!: ebind_DoneE)

lemma sample_call:
  "case callFunc plain_cfg (evaluator plain_cfg 4) sample_func [] [] no_span start_state of Done v s \<Rightarrow> v = VList 0 | _ \<Rightarrow> False"
  by code_simp

lemma all_paths_return_witness:
  "\<exists>v s s1 s2. callFunc plain_cfg (evaluator plain_cfg 4) sample_func [] [] no_span start_state = Done v s
     \<and> evalBlock (evaluator plain_cfg 4) (Some sample_body) s1 = Done () s2 \<and> v = es_returnVal s2 \<and> es_returnVal s2 = VList 0"
proof -
  obtain s where s: "callFunc plain_cfg (evaluator plain_cfg 4) sample_func [] [] no_span start_state = Done (VList 0) s"
    using sample_call by (auto split: outcome.splits)
  have "fv_body sample_func = BlockBody (Some sample_body)" by (simp add: sample_func_def)
  from all_paths_return [OF s this sample_returns(1) sample_not_nil] s show ?thesis by fastforce
qed

end
