(* ===== verification/Render_Order.thy ===== *)
theory Render_Order
  imports Engine_Model
begin

text \<open>
  The way of an event to the output: the emitter (internal/diagnostic/policy.go), which hands over one event at a time, and
  the sequencer (internal/render/order/order.go), which gives the events of the steps that run in parallel to the output in
  the order in which the steps are declared. The output is the list of the calls it has received.
\<close>

section \<open>Emitter\<close>

definition Emit :: "bool \<Rightarrow> Event \<Rightarrow> Event" where
  "Emit WarningsAsErrors ev =
     (if WarningsAsErrors then (case ev of EvWarning t \<Rightarrow> EvError ImpactNone t | _ \<Rightarrow> ev) else ev)"

section \<open>Sequencer\<close>

text \<open>A block is done when it has its result. Blocks and lanes are under their numbers.\<close>

record block =
  bl_changes :: "Event list"
  bl_result :: "Event option"

record lane =
  ln_cursor :: nat
  ln_pending :: "(nat \<times> block) list"

datatype ('s, 'p, 'i) Call =
    CallEvent Event
  | CallSummary 's bool
  | CallPlan 'p
  | CallInspect 'i
  | CallLegend

record ('s, 'p, 'i) Sequencer =
  sq_out :: "('s, 'p, 'i) Call list"
  sq_lanes :: "(int \<times> lane) list"

definition New_Sequencer :: "('s, 'p, 'i) Sequencer" where
  "New_Sequencer = \<lparr>sq_out = [], sq_lanes = []\<rparr>"

definition no_block :: block where
  "no_block = \<lparr>bl_changes = [], bl_result = None\<rparr>"

definition laneFor :: "int \<Rightarrow> ('s, 'p, 'i) Sequencer \<Rightarrow> lane" where
  "laneFor n s = (case map_of (sq_lanes s) n of Some l \<Rightarrow> l | None \<Rightarrow> \<lparr>ln_cursor = 0, ln_pending = []\<rparr>)"

definition collect_into :: "nat \<Rightarrow> (block \<Rightarrow> block) \<Rightarrow> lane \<Rightarrow> lane" where
  "collect_into idx mut l =
     l\<lparr>ln_pending := AList.update idx (mut (case map_of (ln_pending l) idx of Some b \<Rightarrow> b | None \<Rightarrow> no_block)) (ln_pending l)\<rparr>"

text \<open>The events of a block in the order in which it gives them away.\<close>

definition flush_block :: "block \<Rightarrow> Event list" where
  "flush_block b = bl_changes b @ (case bl_result b of Some r \<Rightarrow> [r] | None \<Rightarrow> [])"

lemma delete_shorter: "map_of xs k = Some v \<Longrightarrow> length (AList.delete k xs) < length xs"
proof (induction xs)
  case (Cons x xs)
  then show ?case by (auto simp: AList.delete_eq less_Suc_eq_le intro: length_filter_le split: if_splits)
qed simp

text \<open>The events that are released from the cursor on, and the lane after that.\<close>

function advance_lane :: "lane \<Rightarrow> Event list \<times> lane" where
  "advance_lane l =
     (case map_of (ln_pending l) (ln_cursor l) of
        None \<Rightarrow> ([], l)
      | Some b \<Rightarrow>
          if bl_result b = None then ([], l)
          else
            (let (evs, l') = advance_lane (l\<lparr>ln_cursor := ln_cursor l + 1, ln_pending := AList.delete (ln_cursor l) (ln_pending l)\<rparr>)
             in (flush_block b @ evs, l')))"
  by pat_completeness auto

termination
  by (relation "measure (\<lambda>l. length (ln_pending l))") (auto intro: delete_shorter)

declare advance_lane.simps [simp del]

definition emit_events :: "Event list \<Rightarrow> ('s, 'p, 'i) Sequencer \<Rightarrow> ('s, 'p, 'i) Sequencer" where
  "emit_events evs s = s\<lparr>sq_out := sq_out s @ map CallEvent evs\<rparr>"

definition set_lane :: "int \<Rightarrow> lane \<Rightarrow> ('s, 'p, 'i) Sequencer \<Rightarrow> ('s, 'p, 'i) Sequencer" where
  "set_lane n l s = s\<lparr>sq_lanes := AList.update n l (sq_lanes s)\<rparr>"

definition RenderEvent :: "Event \<Rightarrow> ('s, 'p, 'i) Sequencer \<Rightarrow> ('s, 'p, 'i) Sequencer" where
  "RenderEvent e s =
     (case e of
        EvChange _ ref _ _ _ \<Rightarrow>
          (let n = dr_Ordinal (ref_Deploy ref)
           in set_lane n (collect_into (ref_Index ref) (\<lambda>b. b\<lparr>bl_changes := bl_changes b @ [e]\<rparr>) (laneFor n s)) s)
      | EvResult ref _ _ _ _ \<Rightarrow>
          (let n = dr_Ordinal (ref_Deploy ref);
               (evs, l) = advance_lane (collect_into (ref_Index ref) (\<lambda>b. b\<lparr>bl_result := Some e\<rparr>) (laneFor n s))
           in emit_events evs (set_lane n l s))
      | _ \<Rightarrow> emit_events [e] s)"

text \<open>What a lane still has to give, and the drain of all lanes.\<close>

definition lane_rest :: "lane \<Rightarrow> Event list" where
  "lane_rest l =
     concat (map (\<lambda>i. case map_of (ln_pending l) i of
         Some b \<Rightarrow> if bl_result b = None then [] else flush_block b | None \<Rightarrow> []) (sort (map fst (ln_pending l))))"

definition drain :: "('s, 'p, 'i) Sequencer \<Rightarrow> ('s, 'p, 'i) Sequencer" where
  "drain s =
     (emit_events (concat (map (\<lambda>n. lane_rest (laneFor n s)) (sort (map fst (sq_lanes s))))) s)
       \<lparr>sq_lanes := map (\<lambda>(n, l). (n, l\<lparr>ln_pending := []\<rparr>)) (sq_lanes s)\<rparr>"

definition Flush :: "('s, 'p, 'i) Sequencer \<Rightarrow> ('s, 'p, 'i) Sequencer" where
  "Flush s = drain s"

definition call_out :: "('s, 'p, 'i) Call \<Rightarrow> ('s, 'p, 'i) Sequencer \<Rightarrow> ('s, 'p, 'i) Sequencer" where
  "call_out c s = s\<lparr>sq_out := sq_out s @ [c]\<rparr>"

definition RenderSummary :: "'s \<Rightarrow> bool \<Rightarrow> ('s, 'p, 'i) Sequencer \<Rightarrow> ('s, 'p, 'i) Sequencer" where
  "RenderSummary rep checkOnly s = call_out (CallSummary rep checkOnly) (drain s)"

definition RenderPlan :: "'p \<Rightarrow> ('s, 'p, 'i) Sequencer \<Rightarrow> ('s, 'p, 'i) Sequencer" where
  "RenderPlan p s = call_out (CallPlan p) s"

definition RenderInspect :: "'i \<Rightarrow> ('s, 'p, 'i) Sequencer \<Rightarrow> ('s, 'p, 'i) Sequencer" where
  "RenderInspect d s = call_out (CallInspect d) s"

definition RenderLegend :: "('s, 'p, 'i) Sequencer \<Rightarrow> ('s, 'p, 'i) Sequencer" where
  "RenderLegend s = call_out CallLegend s"

section \<open>The serial order\<close>

text \<open>The step of an event, in its lane; diagnostics and begin events have none.\<close>

fun step_of :: "Event \<Rightarrow> (int \<times> nat) option" where
  "step_of (EvChange _ ref _ _ _) = Some (dr_Ordinal (ref_Deploy ref), ref_Index ref)"
| "step_of (EvResult ref _ _ _ _) = Some (dr_Ordinal (ref_Deploy ref), ref_Index ref)"
| "step_of _ = None"

fun is_result :: "Event \<Rightarrow> bool" where
  "is_result (EvResult _ _ _ _ _) = True"
| "is_result _ = False"

definition has_result :: "Event list \<Rightarrow> int \<times> nat \<Rightarrow> bool" where
  "has_result es k \<longleftrightarrow> (\<exists>e \<in> set es. step_of e = Some k \<and> is_result e)"

text \<open>What a serial run shows of a step: its changes, then its result.\<close>

definition changes_of :: "Event list \<Rightarrow> int \<times> nat \<Rightarrow> Event list" where
  "changes_of es k = filter (\<lambda>e. step_of e = Some k \<and> \<not> is_result e) es"

definition results_of :: "Event list \<Rightarrow> int \<times> nat \<Rightarrow> Event list" where
  "results_of es k = filter (\<lambda>e. step_of e = Some k \<and> is_result e) es"

definition step_block :: "Event list \<Rightarrow> int \<times> nat \<Rightarrow> Event list" where
  "step_block es k = changes_of es k @ results_of es k"

definition in_lane :: "int \<Rightarrow> Event \<Rightarrow> bool" where
  "in_lane n e \<longleftrightarrow> (case step_of e of Some (m, _) \<Rightarrow> m = n | None \<Rightarrow> False)"

text \<open>The steps of a lane that have a result, in the order of their numbers.\<close>

definition finished :: "Event list \<Rightarrow> int \<Rightarrow> nat list" where
  "finished es n = sort (map (\<lambda>e. snd (the (step_of e))) (filter (\<lambda>e. in_lane n e \<and> is_result e) es))"

text \<open>Nothing comes of a step after its result, as the engine emits a step's result last.\<close>

fun settled :: "Event list \<Rightarrow> bool" where
  "settled [] = True"
| "settled (e # es) = ((is_result e \<longrightarrow> (\<forall>x \<in> set es. step_of x \<noteq> step_of e)) \<and> settled es)"

lemma result_step: "is_result e \<Longrightarrow> step_of e \<noteq> None"
  by (cases e) auto

lemma settled_snoc: "settled (es @ [e]) \<longleftrightarrow> settled es \<and> (\<forall>k. step_of e = Some k \<longrightarrow> \<not> has_result es k)"
proof (induction es)
  case Nil
  then show ?case using result_step [of e] by (auto simp: has_result_def)
next
  case (Cons x es)
  then show ?case using result_step [of x] by (auto simp: has_result_def)
qed

lemma block_snoc [simp]:
  "changes_of (es @ [e]) k = changes_of es k @ (if step_of e = Some k \<and> \<not> is_result e then [e] else [])"
  "results_of (es @ [e]) k = results_of es k @ (if step_of e = Some k \<and> is_result e then [e] else [])"
  "has_result (es @ [e]) k \<longleftrightarrow> has_result es k \<or> step_of e = Some k \<and> is_result e"
  by (auto simp: changes_of_def results_of_def has_result_def)

lemma no_results: "\<not> has_result es k \<longleftrightarrow> results_of es k = []"
  by (auto simp: has_result_def results_of_def filter_empty_conv)

section \<open>One lane\<close>

text \<open>The block of a step after some events.\<close>

definition pending_of :: "Event list \<Rightarrow> int \<times> nat \<Rightarrow> block option" where
  "pending_of es k =
     (if changes_of es k = [] \<and> results_of es k = [] then None
      else Some \<lparr>bl_changes = changes_of es k, bl_result = (case results_of es k of [] \<Rightarrow> None | r # _ \<Rightarrow> Some r)\<rparr>)"

definition lane_ok :: "Event list \<Rightarrow> int \<Rightarrow> lane \<Rightarrow> bool" where
  "lane_ok es n l \<longleftrightarrow> distinct (map fst (ln_pending l)) \<and> (\<forall>i < ln_cursor l. has_result es (n, i))
     \<and> (\<forall>i. map_of (ln_pending l) i = (if i < ln_cursor l then None else pending_of es (n, i)))"

lemma single_result: "settled es \<Longrightarrow> length (results_of es k) \<le> 1"
proof (induction es rule: rev_induct)
  case (snoc e es)
  then show ?case using no_results [of es k] by (cases k) (auto simp: settled_snoc)
qed (simp add: results_of_def)

lemma flush_pending:
  assumes "settled es" and "pending_of es k = Some b"
  shows "flush_block b = step_block es k" and "bl_result b = None \<longleftrightarrow> \<not> has_result es k"
  using assms single_result [OF assms(1), of k] no_results [of es k]
  by (auto simp: pending_of_def flush_block_def step_block_def Let_def split: if_splits list.splits)

lemma advance_lane_spec:
  assumes "settled es" and "lane_ok es n l" and "advance_lane l = (evs, l')"
  shows "lane_ok es n l' \<and> ln_cursor l \<le> ln_cursor l' \<and> \<not> has_result es (n, ln_cursor l')
    \<and> evs = concat (map (\<lambda>i. step_block es (n, i)) [ln_cursor l..<ln_cursor l'])"
  using assms(2,3)
proof (induction l arbitrary: evs rule: advance_lane.induct)
  case (1 l)
  let ?i = "ln_cursor l"
  have m: "map_of (ln_pending l) ?i = pending_of es (n, ?i)" using "1.prems"(1) by (simp add: lane_ok_def)
  show ?case
  proof (cases "has_result es (n, ?i)")
    case False
    then have "advance_lane l = ([], l)"
      using flush_pending [OF assms(1), of "(n, ?i)"] m by (subst advance_lane.simps) (auto split: option.split)
    then show ?thesis using "1.prems" False by simp
  next
    case True
    then obtain b where b: "pending_of es (n, ?i) = Some b"
      using no_results [of es "(n, ?i)"] by (auto simp: pending_of_def)
    let ?l = "l\<lparr>ln_cursor := ln_cursor l + 1, ln_pending := AList.delete (ln_cursor l) (ln_pending l)\<rparr>"
    obtain evs1 where r: "advance_lane ?l = (evs1, l')" "evs = flush_block b @ evs1"
      using "1.prems"(2) m b True flush_pending(2) [OF assms(1) b]
      by (subst (asm) advance_lane.simps) (auto split: prod.splits)
    have "lane_ok es n ?l"
      using "1.prems"(1) True by (auto simp: lane_ok_def less_Suc_eq distinct_delete delete_conv')
    from "1.IH" [OF _ _ this r(1)] m b True flush_pending [OF assms(1) b] r(2) show ?thesis
      by (auto simp: upt_conv_Cons)
  qed
qed

section \<open>All lanes\<close>

definition out_events :: "('s, 'p, 'i) Sequencer \<Rightarrow> Event list" where
  "out_events s = concat (map (\<lambda>c. case c of CallEvent e \<Rightarrow> [e] | _ \<Rightarrow> []) (sq_out s))"

lemma out_emit [simp]: "out_events (emit_events evs s) = out_events s @ evs"
  by (induction evs) (auto simp: out_events_def emit_events_def)

lemma lanes_emit [simp]: "sq_lanes (emit_events evs s) = sq_lanes s" "laneFor n (emit_events evs s) = laneFor n s"
  by (simp_all add: emit_events_def laneFor_def)

lemma out_set_lane [simp]: "out_events (set_lane n l s) = out_events s"
  by (simp add: out_events_def set_lane_def)

lemma laneFor_set [simp]: "laneFor m (set_lane n l s) = (if m = n then l else laneFor m s)"
  by (simp add: laneFor_def set_lane_def update_conv')

lemma distinct_set_lane: "distinct (map fst (sq_lanes s)) \<Longrightarrow> distinct (map fst (sq_lanes (set_lane n l s)))"
  by (simp add: set_lane_def distinct_update)

definition lane_events :: "int \<Rightarrow> Event list \<Rightarrow> Event list" where
  "lane_events n es = filter (in_lane n) es"

definition other_events :: "Event list \<Rightarrow> Event list" where
  "other_events es = filter (\<lambda>e. step_of e = None) es"

lemma lane_events_simps [simp]:
  "lane_events n [] = []" "lane_events n (es @ fs) = lane_events n es @ lane_events n fs"
  "lane_events n [e] = (if in_lane n e then [e] else [])" "other_events [e] = (if step_of e = None then [e] else [])"
  "other_events [] = []" "other_events (es @ fs) = other_events es @ other_events fs"
  by (simp_all add: lane_events_def other_events_def)

lemma step_block_lane: "lane_events n (step_block es (m, i)) = (if m = n then step_block es (m, i) else [])"
  "other_events (step_block es (m, i)) = []"
  by (auto simp: lane_events_def other_events_def step_block_def changes_of_def results_of_def in_lane_def
      filter_empty_conv intro!: arg_cong2 [where f = "(@)"] filter_cong)

lemma step_blocks_lane:
  "lane_events n (concat (map (\<lambda>i. step_block es (m, i)) is)) = (if m = n then concat (map (\<lambda>i. step_block es (m, i)) is) else [])"
  "other_events (concat (map (\<lambda>i. step_block es (m, i)) is)) = []"
  by (induction "is") (auto simp: step_block_lane)

text \<open>The state after some events: each lane has shown the blocks before its cursor and holds the others; the cursor
  is at the first step without a result.\<close>

definition seq_ok :: "Event list \<Rightarrow> ('s, 'p, 'i) Sequencer \<Rightarrow> bool" where
  "seq_ok es s \<longleftrightarrow> distinct (map fst (sq_lanes s)) \<and> other_events (out_events s) = other_events es
     \<and> (\<forall>n. lane_ok es n (laneFor n s) \<and> \<not> has_result es (n, ln_cursor (laneFor n s))
          \<and> lane_events n (out_events s) = concat (map (\<lambda>i. step_block es (n, i)) [0..<ln_cursor (laneFor n s)]))"

lemma lane_ok_other:
  assumes "lane_ok es n l" and "\<And>i. step_of e \<noteq> Some (n, i)"
  shows "lane_ok (es @ [e]) n l"
  using assms by (auto simp: lane_ok_def pending_of_def)

lemma collect_ok:
  assumes "lane_ok es n l" and "settled (es @ [e])" and "step_of e = Some (n, i)"
  shows "lane_ok (es @ [e]) n (collect_into i (if is_result e then (\<lambda>b. b\<lparr>bl_result := Some e\<rparr>) else (\<lambda>b. b\<lparr>bl_changes := bl_changes b @ [e]\<rparr>)) l)"
proof -
  have r: "results_of es (n, i) = []" and c: "ln_cursor l \<le> i"
    using assms no_results [of es "(n, i)"] by (auto simp: settled_snoc lane_ok_def not_less [symmetric])
  then have "map_of (ln_pending l) i = pending_of es (n, i)" using assms(1) by (simp add: lane_ok_def)
  then show ?thesis
    using assms r c by (auto simp: lane_ok_def collect_into_def update_conv' distinct_update pending_of_def no_block_def)
qed

lemma step_block_snoc: "step_of e \<noteq> Some k \<Longrightarrow> step_block (es @ [e]) k = step_block es k"
  by (simp add: step_block_def)

lemma seq_ok_lane:
  assumes "seq_ok es s"
  shows "lane_ok es n (laneFor n s)" "\<not> has_result es (n, ln_cursor (laneFor n s))"
    "lane_events n (out_events s) = concat (map (\<lambda>i. step_block es (n, i)) [0..<ln_cursor (laneFor n s)])"
  using assms by (auto simp: seq_ok_def)

text \<open>What is shown of a lane stays as it is when an event comes that is of none of the shown steps.\<close>

lemma shown_snoc:
  assumes "\<And>i. i < c \<Longrightarrow> step_of e \<noteq> Some (n, i)"
  shows "concat (map (\<lambda>i. step_block (es @ [e]) (n, i)) [0..<c]) = concat (map (\<lambda>i. step_block es (n, i)) [0..<c])"
  by (intro arg_cong [of _ _ concat] map_cong) (use assms in \<open>auto simp: step_block_snoc\<close>)

lemma cursor_before:
  assumes "seq_ok es s" and "settled (es @ [e])" and "step_of e = Some (n, i)"
  shows "ln_cursor (laneFor n s) \<le> i"
  using seq_ok_lane(1) [OF assms(1), of n] assms(2,3) by (auto simp: lane_ok_def settled_snoc not_less [symmetric])

lemma seq_step:
  assumes s: "seq_ok es s" and st: "settled (es @ [e])"
  shows "seq_ok (es @ [e]) (RenderEvent e s)"
proof (cases "step_of e")
  case None
  then have "RenderEvent e s = emit_events [e] s" by (cases e) (auto simp: RenderEvent_def)
  then show ?thesis
    using None seq_ok_lane [OF s] lane_ok_other [of es _ _ e] s
    by (auto simp: seq_ok_def in_lane_def shown_snoc)
next
  case (Some k)
  obtain n i where k: "k = (n, i)" by (cases k)
  let ?l = "laneFor n s" and ?es = "es @ [e]"
  have e: "step_of e = Some (n, i)" using Some k by simp
  have other: "lane_ok ?es m (laneFor m s)" if "m \<noteq> n" for m
    using lane_ok_other [OF seq_ok_lane(1) [OF s, of m], of e] e that by simp
  have shown: "concat (map (\<lambda>j. step_block ?es (m, j)) [0..<ln_cursor (laneFor m s)]) = lane_events m (out_events s)" for m
    using seq_ok_lane(3) [OF s, of m] cursor_before [OF s st e] e by (subst shown_snoc) auto
  note col = collect_ok [OF seq_ok_lane(1) [OF s, of n] st e]
  show ?thesis
  proof (cases "is_result e")
    case False
    then obtain ph ref id d ca where ev: "e = EvChange ph ref id d ca" using e by (cases e) auto
    then have "RenderEvent e s = set_lane n (collect_into i (\<lambda>b. b\<lparr>bl_changes := bl_changes b @ [e]\<rparr>) ?l) s"
      using e by (simp add: RenderEvent_def Let_def)
    moreover have "ln_cursor (collect_into i mut ?l) = ln_cursor ?l" for mut by (simp add: collect_into_def)
    ultimately show ?thesis
      using s col other shown False e seq_ok_lane(2) [OF s]
      by (auto simp: seq_ok_def distinct_set_lane)
  next
    case True
    then obtain ref oc su ops ca where ev: "e = EvResult ref oc su ops ca" using e by (cases e) auto
    let ?c = "collect_into i (\<lambda>b. b\<lparr>bl_result := Some e\<rparr>) ?l"
    obtain evs l' where a: "advance_lane ?c = (evs, l')" by (cases "advance_lane ?c")
    have r: "RenderEvent e s = emit_events evs (set_lane n l' s)"
      using e ev a by (simp add: RenderEvent_def Let_def)
    have c: "ln_cursor ?c = ln_cursor ?l" by (simp add: collect_into_def)
    have "lane_ok ?es n ?c" using col True by simp
    from advance_lane_spec [OF st this a] have l': "lane_ok ?es n l'" "ln_cursor ?l \<le> ln_cursor l'"
      "\<not> has_result ?es (n, ln_cursor l')" "evs = concat (map (\<lambda>i. step_block ?es (n, i)) [ln_cursor ?l..<ln_cursor l'])"
      by (auto simp: c)
    have "[0..<ln_cursor l'] = [0..<ln_cursor ?l] @ [ln_cursor ?l..<ln_cursor l']"
      using l'(2) by (metis le0 upt_add_eq_append le_iff_add plus_nat.add_0)
    then show ?thesis
      unfolding r seq_ok_def
      using s l' other shown e seq_ok_lane(2) [OF s]
      by (auto simp: seq_ok_def step_blocks_lane distinct_set_lane)
  qed
qed

definition run_events :: "Event list \<Rightarrow> ('s, 'p, 'i) Sequencer" where
  "run_events es = fold RenderEvent es New_Sequencer"

lemma seq_run: "settled es \<Longrightarrow> seq_ok es (run_events es)"
proof (induction es rule: rev_induct)
  case Nil
  then show ?case
    by (simp add: run_events_def New_Sequencer_def seq_ok_def laneFor_def lane_ok_def out_events_def has_result_def
        pending_of_def changes_of_def results_of_def)
next
  case (snoc e es)
  then show ?case using seq_step [of es "run_events es" e] by (simp add: run_events_def settled_snoc)
qed

section \<open>The end of a run\<close>

lemma out_drain:
  "out_events (drain s) = out_events s @ concat (map (\<lambda>n. lane_rest (laneFor n s)) (sort (map fst (sq_lanes s))))"
proof -
  have "out_events (drain s)
      = out_events (emit_events (concat (map (\<lambda>n. lane_rest (laneFor n s)) (sort (map fst (sq_lanes s))))) s)"
    by (simp add: drain_def out_events_def)
  then show ?thesis by simp
qed

lemma concat_if: "concat (map (\<lambda>i. if P i then f i else []) xs) = concat (map f (filter P xs))"
  by (induction xs) auto

lemma lane_rest_blocks:
  assumes "settled es" and "lane_ok es n l"
  shows "lane_rest l = concat (map (\<lambda>i. step_block es (n, i)) (filter (\<lambda>i. has_result es (n, i)) (sort (map fst (ln_pending l)))))"
proof -
  have "(case map_of (ln_pending l) i of Some b \<Rightarrow> if bl_result b = None then [] else flush_block b | None \<Rightarrow> [])
      = (if has_result es (n, i) then step_block es (n, i) else [])" if "i \<in> fst ` set (ln_pending l)" for i
  proof -
    obtain b where "map_of (ln_pending l) i = Some b" using \<open>i \<in> fst ` set (ln_pending l)\<close> by (metis map_of_eq_None_iff not_None_eq)
    then show ?thesis
      using assms(2) flush_pending [OF assms(1), of "(n, i)" b] by (auto simp: lane_ok_def split: if_splits)
  qed
  then show ?thesis
    unfolding lane_rest_def concat_if [symmetric] by (intro arg_cong [of _ _ concat] map_cong) auto
qed

lemma rest_of_lanes:
  assumes "settled es" and "\<And>m. lane_ok es m (laneFor m s)" and "distinct ords"
  shows "lane_events n (concat (map (\<lambda>m. lane_rest (laneFor m s)) ords)) = (if n \<in> set ords then lane_rest (laneFor n s) else [])"
    and "other_events (concat (map (\<lambda>m. lane_rest (laneFor m s)) ords)) = []"
  using assms(3) by (induction ords) (auto simp: lane_rest_blocks [OF assms(1,2)] step_blocks_lane)

lemma finished_distinct:
  assumes "settled es"
  shows "distinct (finished es n)" and "set (finished es n) = {i. has_result es (n, i)}"
proof -
  have "distinct (map (\<lambda>e. snd (the (step_of e))) (filter (\<lambda>e. in_lane n e \<and> is_result e) es))"
    using assms
  proof (induction es rule: rev_induct)
    case (snoc e es)
    then show ?case by (auto simp: settled_snoc in_lane_def has_result_def split: option.splits)
  qed simp
  then show "distinct (finished es n)" by (simp add: finished_def)
  show "set (finished es n) = {i. has_result es (n, i)}"
    by (force simp: finished_def has_result_def in_lane_def split: option.splits)
qed

lemma finished_split:
  assumes "settled es" and "lane_ok es n l" and "\<not> has_result es (n, ln_cursor l)"
  shows "finished es n = [0..<ln_cursor l] @ filter (\<lambda>i. has_result es (n, i)) (sort (map fst (ln_pending l)))"
proof (rule sorted_distinct_set_unique)
  have k: "i \<in> fst ` set (ln_pending l) \<longleftrightarrow> \<not> i < ln_cursor l \<and> pending_of es (n, i) \<noteq> None" for i
  proof -
    have "map_of (ln_pending l) i = (if i < ln_cursor l then None else pending_of es (n, i))"
      using assms(2) by (simp add: lane_ok_def)
    then show ?thesis using map_of_eq_None_iff [of "ln_pending l" i] by (auto split: if_splits)
  qed
  show "sorted (finished es n)" by (simp add: finished_def)
  show "distinct (finished es n)" by (rule finished_distinct(1) [OF assms(1)])
  show "sorted ([0..<ln_cursor l] @ filter (\<lambda>i. has_result es (n, i)) (sort (map fst (ln_pending l))))"
    using k by (fastforce simp: sorted_append sorted_wrt_filter)
  show "distinct ([0..<ln_cursor l] @ filter (\<lambda>i. has_result es (n, i)) (sort (map fst (ln_pending l))))"
    using assms(2) k by (auto simp: lane_ok_def)
  have "pending_of es (n, i) \<noteq> None" if "has_result es (n, i)" for i
    using that no_results [of es "(n, i)"] by (simp add: pending_of_def)
  then show "set (finished es n) = set ([0..<ln_cursor l] @ filter (\<lambda>i. has_result es (n, i)) (sort (map fst (ln_pending l))))"
    using finished_distinct(2) [OF assms(1)] assms(2) k by (auto simp: lane_ok_def)
qed

text \<open>C36: parallelism does not show in the output. However the events of the steps of a run are interleaved, with
  nothing of a step after its result, the output gets, in each lane, what a serial run would show: the changes and the
  result of each step with a result, step after step. Diagnostics pass through as they come. During the run
  each lane has shown exactly its steps before the first that has no result yet.\<close>

theorem sequencer_serializes:
  assumes "settled es"
  shows "let s = (run_events es :: ('s, 'p, 'i) Sequencer) in
    lane_events n (out_events (Flush s)) = concat (map (\<lambda>i. step_block es (n, i)) (finished es n))
    \<and> other_events (out_events (Flush s)) = other_events es
    \<and> (\<exists>c. (\<forall>i < c. has_result es (n, i)) \<and> \<not> has_result es (n, c)
         \<and> lane_events n (out_events s) = concat (map (\<lambda>i. step_block es (n, i)) [0..<c]))"
proof -
  let ?s = "run_events es :: ('s, 'p, 'i) Sequencer"
  have s: "seq_ok es ?s" by (rule seq_run [OF assms])
  note l = seq_ok_lane [OF s, of n]
  have d: "distinct (sort (map fst (sq_lanes ?s)))" using s by (simp add: seq_ok_def)
  note r = rest_of_lanes [OF assms seq_ok_lane(1) [OF s] d]
  have e: "lane_rest (laneFor n ?s) = []" if "n \<notin> set (map fst (sq_lanes ?s))"
    using that map_of_eq_None_iff [of "sq_lanes ?s" n] by (simp add: laneFor_def lane_rest_def)
  have "lane_events n (out_events (Flush ?s)) = lane_events n (out_events ?s) @ lane_rest (laneFor n ?s)"
    using r(1) [of n] e by (simp add: Flush_def out_drain)
  then have "lane_events n (out_events (Flush ?s)) = concat (map (\<lambda>i. step_block es (n, i)) (finished es n))"
    using finished_split [OF assms l(1,2)] lane_rest_blocks [OF assms l(1)] l(3) by simp
  moreover have "other_events (out_events (Flush ?s)) = other_events es"
    using r(2) s by (simp add: Flush_def out_drain seq_ok_def)
  ultimately show ?thesis using l by (auto simp: lane_ok_def Let_def)
qed

text \<open>Two lanes; the steps of the first end in the order 1, 0, and step 3 ends without step 2.\<close>

definition sample_ref :: "int \<Rightarrow> nat \<Rightarrow> StepRef" where
  "sample_ref n i = \<lparr>ref_Deploy = \<lparr>dr_Name = [], dr_Ordinal = n, dr_MaxNameWidth = 0, dr_RunTotalSteps = 5\<rparr>,
     ref_Index = i, ref_Kind = ''dir'', ref_Desc = []\<rparr>"

definition sample_change :: "int \<Rightarrow> nat \<Rightarrow> string \<Rightarrow> Event" where
  "sample_change n i what = EvChange ChangeExecuted (sample_ref n i) what
     \<lparr>drift_field = ''mode'', drift_current = [], drift_desired = []\<rparr> \<lparr>cause_kind = CauseNone, cause_ref = []\<rparr>"

definition sample_result :: "int \<Rightarrow> nat \<Rightarrow> Event" where
  "sample_result n i = EvResult (sample_ref n i) StepChanged
     \<lparr>sum_Total = 1, sum_Succeeded = 1, sum_Failed = 0, sum_Aborted = 0, sum_Skipped = 0, sum_Changed = 1, sum_WouldChange = 0\<rparr>
     [] \<lparr>cause_kind = CauseNone, cause_ref = []\<rparr>"

definition sample_events :: "Event list" where
  "sample_events = [sample_change 0 1 ''a'', sample_change 0 0 ''b'', sample_result 0 1, sample_result 1 0, sample_change 0 0 ''c'',
     sample_result 0 3, sample_result 0 0]"

lemma sequencer_serializes_witness:
  "lane_events 0 (out_events (Flush (run_events sample_events :: (unit, unit, unit) Sequencer)))
     = [sample_change 0 0 ''b'', sample_change 0 0 ''c'', sample_result 0 0, sample_change 0 1 ''a'', sample_result 0 1, sample_result 0 3]"
proof -
  have s: "settled sample_events" by code_simp
  have "finished sample_events 0 = [0, 1, 3]" by code_simp
  moreover have "step_block sample_events (0, 0) = [sample_change 0 0 ''b'', sample_change 0 0 ''c'', sample_result 0 0]"
    "step_block sample_events (0, 1) = [sample_change 0 1 ''a'', sample_result 0 1]"
    "step_block sample_events (0, 3) = [sample_result 0 3]" by code_simp+
  ultimately show ?thesis
    using sequencer_serializes [OF s, of 0, where 's = unit and 'p = unit and 'i = unit] by (simp add: Let_def)
qed

end
