(* ===== verification/Redactor.thy ===== *)
theory Redactor
  imports Prelude
begin

text \<open>
  The redactor (internal/secret/redactor.go): the secrets that the evaluation has come upon, and their
  replacement in what is shown. The iteration over the secrets, a map in the code, has an order of its own each time.
\<close>

section \<open>Strings\<close>

fun Contains :: "string \<Rightarrow> string \<Rightarrow> bool" where
  "Contains [] x \<longleftrightarrow> x = []"
| "Contains (c # s) x \<longleftrightarrow> HasPrefix (c # s) x \<or> Contains s x"

lemma Contains_iff: "Contains s x \<longleftrightarrow> (\<exists>u v. s = u @ x @ v)"
proof (induction s)
  case (Cons c s)
  have "(\<exists>u v. c # s = u @ x @ v) \<longleftrightarrow> HasPrefix (c # s) x \<or> (\<exists>u v. s = u @ x @ v)"
    by (auto simp: HasPrefix_iff Cons_eq_append_conv)
  then show ?case using Cons by simp
qed simp

text \<open>strings.ReplaceAll for a string that is not empty.\<close>

function ReplaceAll :: "string \<Rightarrow> string \<Rightarrow> string \<Rightarrow> string" where
  "ReplaceAll s old new =
     (if s = [] \<or> old = [] then s
      else if HasPrefix s old then new @ ReplaceAll (drop (length old) s) old new
      else hd s # ReplaceAll (tl s) old new)"
  by pat_completeness auto
termination by (relation "measure (\<lambda>(s, old, new). length s)") auto

declare ReplaceAll.simps [simp del]

section \<open>Redactor\<close>

record Redactor =
  rd_mask :: string
  rd_secrets :: "string list"

definition DefaultMask :: string where
  "DefaultMask = ''***SECRET***''"

definition minRedactLen :: nat where
  "minRedactLen = 4"

definition NewRedactor :: Redactor where
  "NewRedactor = \<lparr>rd_mask = DefaultMask, rd_secrets = []\<rparr>"

text \<open>The methods of a pointer, which may be nil.\<close>

definition Add :: "string \<Rightarrow> Redactor option \<Rightarrow> Redactor option" where
  "Add value r =
     (case r of
        None \<Rightarrow> None
      | Some rd \<Rightarrow>
          if length value < minRedactLen then r
          else Some (rd\<lparr>rd_secrets := (if value \<in> set (rd_secrets rd) then rd_secrets rd else rd_secrets rd @ [value])\<rparr>))"

definition Redact :: "(nat \<Rightarrow> string list \<Rightarrow> string list) \<Rightarrow> nat \<Rightarrow> Redactor option \<Rightarrow> string \<Rightarrow> string" where
  "Redact iter l r s =
     (case r of
        None \<Rightarrow> s
      | Some rd \<Rightarrow>
          if s = [] then s else fold (\<lambda>sec s. ReplaceAll s sec (rd_mask rd)) (iter l (rd_secrets rd)) s)"

definition Size :: "Redactor option \<Rightarrow> nat" where
  "Size r = (case r of None \<Rightarrow> 0 | Some rd \<Rightarrow> length (rd_secrets rd))"

definition SetMask :: "string \<Rightarrow> Redactor option \<Rightarrow> Redactor option" where
  "SetMask m r = map_option (\<lambda>rd. rd\<lparr>rd_mask := m\<rparr>) r"

section \<open>Secrets do not show\<close>

text \<open>A text without a character is not found across it.\<close>

lemma Contains_split:
  assumes "c \<notin> set x"
  shows "Contains (u @ c # v) x \<longleftrightarrow> Contains u x \<or> Contains v x"
proof
  assume "Contains (u @ c # v) x"
  then obtain a b where "u @ c # v = a @ x @ b" by (auto simp: Contains_iff)
  then show "Contains u x \<or> Contains v x"
    using assms by (auto simp: Contains_iff append_eq_append_conv2 append_eq_Cons_conv Cons_eq_append_conv) blast+
qed (auto simp: Contains_iff; metis append.assoc append_Cons)

text \<open>A secret that is no part of the mask and has none of its stars.\<close>

definition plain_secret :: "string \<Rightarrow> bool" where
  "plain_secret x \<longleftrightarrow> CHR ''*'' \<notin> set x \<and> \<not> Contains ''SECRET'' x"

lemma plain_not_nil: "plain_secret x \<Longrightarrow> x \<noteq> []"
  by (auto simp: plain_secret_def HasPrefix_def)

lemma Contains_mask:
  assumes "plain_secret x"
  shows "Contains (u @ DefaultMask @ v) x \<longleftrightarrow> Contains u x \<or> Contains v x"
proof -
  have x: "CHR ''*'' \<notin> set x" "\<not> Contains ''SECRET'' x" "x \<noteq> []" using assms plain_not_nil by (auto simp: plain_secret_def)
  have "u @ DefaultMask @ v = u @ CHR ''*'' # [] @ CHR ''*'' # [] @ CHR ''*'' # ''SECRET'' @ CHR ''*'' # [] @ CHR ''*'' # [] @ CHR ''*'' # v"
    by (simp add: DefaultMask_def)
  then show ?thesis using x by (simp only: Contains_split [OF x(1)]) simp
qed

lemma replace_keeps_absent:
  assumes "plain_secret x" and "\<not> Contains (u @ s) x"
  shows "\<not> Contains (u @ ReplaceAll s old DefaultMask) x"
  using assms(2)
proof (induction s old DefaultMask arbitrary: u rule: ReplaceAll.induct)
  case (1 s old)
  show ?case
  proof (cases "s = [] \<or> old = []")
    case False
    show ?thesis
    proof (cases "HasPrefix s old")
      case True
      then obtain r where s: "s = old @ r" by (auto simp: HasPrefix_iff)
      have "\<not> Contains u x" "\<not> Contains ([] @ r) x" using "1.prems" unfolding s Contains_iff by (metis append.assoc append_Nil)+
      moreover have "\<not> Contains ([] @ ReplaceAll r old DefaultMask) x"
        using "1.hyps"(1) [OF False True, of "[]"] \<open>\<not> Contains ([] @ r) x\<close> by (simp add: s)
      ultimately show ?thesis using False True Contains_mask [OF assms(1)] by (subst ReplaceAll.simps) (simp add: s)
    next
      case nope: False
      then have "\<not> Contains ((u @ [hd s]) @ ReplaceAll (tl s) old DefaultMask) x"
        using "1.hyps"(2) [OF False nope, of "u @ [hd s]"] "1.prems" False by simp
      then show ?thesis using False nope by (subst ReplaceAll.simps) simp
    qed
  qed (use "1.prems" in \<open>auto simp: ReplaceAll.simps\<close>)
qed

lemma replace_removes:
  assumes "plain_secret x" and "\<And>i. i < length u \<Longrightarrow> \<not> HasPrefix (drop i (u @ s)) x"
  shows "\<not> Contains (u @ ReplaceAll s x DefaultMask) x"
  using assms
proof (induction s x DefaultMask arbitrary: u rule: ReplaceAll.induct)
  case (1 s x)
  note x = "1.prems"(1)
  have absent: "\<not> Contains u x"
  proof
    assume "Contains u x"
    then obtain a b where "u = a @ x @ b" by (auto simp: Contains_iff)
    then show False using "1.prems"(2) [of "length a"] plain_not_nil [OF x] by auto
  qed
  show ?case
  proof (cases "s = []")
    case False
    then have ne: "\<not> (s = [] \<or> x = [])" using plain_not_nil [OF x] by simp
    show ?thesis
    proof (cases "HasPrefix s x")
      case True
      then have "\<not> Contains ([] @ ReplaceAll (drop (length x) s) x DefaultMask) x" using "1.hyps"(1) [OF ne True x, of "[]"] by simp
      then show ?thesis using ne True absent Contains_mask [OF x] by (subst ReplaceAll.simps) simp
    next
      case nope: False
      have "\<not> HasPrefix (drop i ((u @ [hd s]) @ tl s)) x" if "i < length (u @ [hd s])" for i
        using that False nope "1.prems"(2) [of i] by (cases "i = length u") auto
      then have "\<not> Contains ((u @ [hd s]) @ ReplaceAll (tl s) x DefaultMask) x" using "1.hyps"(2) [OF ne nope] x by blast
      then show ?thesis using ne nope by (subst ReplaceAll.simps) simp
    qed
  qed (use absent in \<open>simp add: ReplaceAll.simps\<close>)
qed

lemma redact_all:
  assumes "plain_secret x" and "x \<in> set secs \<or> \<not> Contains s x"
  shows "\<not> Contains (fold (\<lambda>sec s. ReplaceAll s sec DefaultMask) secs s) x"
  using assms(2)
proof (induction secs arbitrary: s)
  case (Cons y secs)
  have "\<not> Contains (ReplaceAll s y DefaultMask) x" if "x = y \<or> \<not> Contains s x"
    using that replace_removes [of x "[]" s] replace_keeps_absent [of x "[]" s y] assms(1) by auto
  then show ?case using Cons by auto
qed simp

lemma replace_absent: "\<not> Contains s old \<Longrightarrow> ReplaceAll s old new = s"
proof (induction s old new rule: ReplaceAll.induct)
  case (1 s old new)
  show ?case
  proof (cases s)
    case (Cons c t)
    with 1 show ?thesis by (subst ReplaceAll.simps) auto
  qed (simp add: ReplaceAll.simps)
qed

lemma redact_none: "\<forall>x \<in> set secs. \<not> Contains s x \<Longrightarrow> fold (\<lambda>sec s. ReplaceAll s sec m) secs s = s"
  by (induction secs) (auto simp: replace_absent)

text \<open>C40: a registered secret of at least four bytes that is no part of the word SECRET of the default mask and has
  none of the mask's stars is nowhere in the redacted text, in whatever order the secrets are replaced and whatever
  other secrets there are: the replacement of another one cannot make it appear again. A text in which
  none of the secrets occurs is not changed.\<close>

theorem redact_hides_secrets:
  assumes "map_iteration iter" and "4 \<le> length x" and "plain_secret x" and "rd_mask rd = DefaultMask"
  shows "\<not> Contains (Redact iter l (Add x (Some rd)) s) x
    \<and> ((\<forall>y \<in> insert x (set (rd_secrets rd)). \<not> Contains s y) \<longrightarrow> Redact iter l (Add x (Some rd)) s = s)"
proof -
  let ?secs = "rd_secrets rd @ (if x \<in> set (rd_secrets rd) then [] else [x])"
  have r: "Redact iter l (Add x (Some rd)) s
      = (if s = [] then s else fold (\<lambda>sec s. ReplaceAll s sec DefaultMask) (iter l ?secs) s)"
    using assms by (simp add: Redact_def Add_def minRedactLen_def)
  have set: "set (iter l ?secs) = insert x (set (rd_secrets rd))"
    using map_iteration_set [OF assms(1), of l ?secs] by auto
  then have "\<not> Contains (fold (\<lambda>sec s. ReplaceAll s sec DefaultMask) (iter l ?secs) s) x"
    by (intro redact_all [OF assms(3)]) simp
  then show ?thesis
    unfolding r using redact_none [of "iter l ?secs" s DefaultMask] plain_not_nil [OF assms(3)] set by auto
qed

lemma redact_hides_secrets_witness:
  "\<not> Contains (Redact (\<lambda>_ xs. xs) 0 (Add ''hunter2'' (Some NewRedactor)) ''login root hunter2'') ''hunter2''
     \<and> Redact (\<lambda>_ xs. xs) 0 (Add ''hunter2'' (Some NewRedactor)) ''login root hunter2'' = ''login root ***SECRET***''
     \<and> Redact (\<lambda>_ xs. xs) 0 (Add ''hunter2'' (Some NewRedactor)) ''login root'' = ''login root''"
proof (intro conjI)
  have p: "plain_secret ''hunter2''" by code_simp
  note hides = redact_hides_secrets [OF map_iteration_id _ p, of NewRedactor 0]
  show "\<not> Contains (Redact (\<lambda>_ xs. xs) 0 (Add ''hunter2'' (Some NewRedactor)) ''login root hunter2'') ''hunter2''"
    using hides [of "''login root hunter2''"] by (simp add: NewRedactor_def)
  have "\<not> Contains ''login root'' ''hunter2''" by code_simp
  then show "Redact (\<lambda>_ xs. xs) 0 (Add ''hunter2'' (Some NewRedactor)) ''login root'' = ''login root''"
    using hides [of "''login root''"] by (simp add: NewRedactor_def del: Contains.simps)
qed code_simp

text \<open>Where a secret begins another, the order matters: in one order the rest of the longer one shows.\<close>

lemma redact_order_leaks:
  "Redact (\<lambda>_ xs. xs) 0 (Add ''pass1word'' (Add ''pass1'' (Some NewRedactor))) ''pass1word'' = ''***SECRET***word''"
  "Redact (\<lambda>_. rev) 0 (Add ''pass1word'' (Add ''pass1'' (Some NewRedactor))) ''pass1word'' = ''***SECRET***''"
  by code_simp+

text \<open>A secret that is part of the mask shows in the redacted text.\<close>

lemma mask_shows_secret: "Contains (Redact (\<lambda>_ xs. xs) 0 (Add ''SECRET'' (Some NewRedactor)) ''SECRET'') ''SECRET''"
  by code_simp

end
