(* ===== verification/Spec2Isabelle.thy ===== *)
theory Spec2Isabelle
  imports Op_Reports Check_Scheduler Multi_Deploy Converge Dir_Step Account_Runs Services Symlink Sysctl
    Lexing Eval_Behaviour Parsing Checking Check_Safety Return_Paths Render_Order Redactor
begin

text \<open>
  A model of scampi, a tool that converges systems to a declared state, in the order in which a run goes through the
  program: a configuration file is lexed, parsed, checked and evaluated; the deploy blocks and steps it declares are resolved
  and planned; the plans run, deploy by deploy, step by step and op by op; a step's operations look at a target and
  change it. Each theory models one part of \<^verbatim>\<open>src/internal\<close>; definitions keep the names of the Go code.

  \<^bold>\<open>Language\<close> (\<^verbatim>\<open>lang/\<close>).
  \<^item> \<^verbatim>\<open>Tokens\<close> and \<^verbatim>\<open>Lexer\<close> are \<^verbatim>\<open>lang/token\<close> and \<^verbatim>\<open>lang/lex\<close>: positions as 32-bit words, the scanner as a
    function of its state. \<^verbatim>\<open>Lexing\<close> shows that the tokens lie in the source in order, where semicolons are inserted, and
    that spaced lexemes are read back.
  \<^item> \<^verbatim>\<open>Lang_Ast\<close>, \<^verbatim>\<open>Unquote\<close> and \<^verbatim>\<open>Parser\<close> are \<^verbatim>\<open>lang/ast\<close>, strconv.Unquote and \<^verbatim>\<open>lang/parse\<close>. \<^verbatim>\<open>Parsing\<close> shows that
    parsing ends at the end of every source, and that a file without errors has no nil in its tree.
  \<^item> \<^verbatim>\<open>Check_Types\<close> and \<^verbatim>\<open>Checker\<close> are \<^verbatim>\<open>lang/check\<close>: types are pointers, told apart by numbers, and fields that are filled in
    late are in a table of the state. \<^verbatim>\<open>Checking\<close> has assignability and the cost of typing receivers twice,
    \<^verbatim>\<open>Check_Safety\<close> that the checker does not panic on what the parser accepts.
  \<^item> \<^verbatim>\<open>Eval_Values\<close>, \<^verbatim>\<open>Evaluator\<close> and \<^verbatim>\<open>Eval_Modules\<close> are \<^verbatim>\<open>lang/eval\<close>: environments and thunks live in a heap, since the code
    shares them. \<^verbatim>\<open>Eval_Frame\<close> shows what evaluation never changes, \<^verbatim>\<open>Eval_Fuel\<close> that the fuel does not matter where
    it suffices, \<^verbatim>\<open>Eval_Behaviour\<close> indexing, unique and the forcing of thunks, \<^verbatim>\<open>Return_Paths\<close> that the
    checker's test for missing returns holds of its runs.
  \<^item> \<^verbatim>\<open>Computations\<close> is what the parser, the checker and the evaluator are written in: a function of a state that is done, panics, or
    has run out of fuel.

  \<^bold>\<open>Engine\<close> (\<^verbatim>\<open>engine/\<close>, \<^verbatim>\<open>spec/\<close>, \<^verbatim>\<open>diagnostic/\<close>).
  \<^item> \<^verbatim>\<open>Engine_Model\<close> and \<^verbatim>\<open>Declared\<close> are its data and \<^verbatim>\<open>config.go\<close>; \<^verbatim>\<open>Cycles\<close> and \<^verbatim>\<open>Cycle_Dedup\<close> are \<^verbatim>\<open>cycles.go\<close>.
  \<^item> \<^verbatim>\<open>Step_Graph\<close> is \<^verbatim>\<open>step_graph.go\<close>; \<^verbatim>\<open>Step_Scheduler\<close> and \<^verbatim>\<open>Check_Scheduler\<close> are executePlan and checkPlan of \<^verbatim>\<open>exec.go\<close> as
    step relations on the state their goroutines share, with \<^verbatim>\<open>Counters\<close> for the counting of pending predecessors.
    One handler under the lock is one transition, so that every interleaving is a path. The two loops are translated each on
    their own and shown to simulate each other, so that what is proved of the one holds of the other.
  \<^item> \<^verbatim>\<open>Op_Plan\<close>, \<^verbatim>\<open>Op_Scheduler\<close> and \<^verbatim>\<open>Op_Reports\<close> are buildPlan, runStep and runChecks: the tree of ops of a step, its run
    and what is reported of it.
  \<^item> \<^verbatim>\<open>Planning\<close>, \<^verbatim>\<open>Plan_Steps\<close>, \<^verbatim>\<open>Plan_Checks\<close> and \<^verbatim>\<open>Plan_Properties\<close> are \<^verbatim>\<open>plan.go\<close>, \<^verbatim>\<open>plan_cycles.go\<close> and
    \<^verbatim>\<open>duplicate_provides.go\<close>: the pure functions of a plan, the computation that emits its events, and what an accepted
    plan has.
  \<^item> \<^verbatim>\<open>Hooks\<close>, \<^verbatim>\<open>Hook_Runs\<close> and \<^verbatim>\<open>Converge\<close> are \<^verbatim>\<open>hooks.go\<close> and \<^verbatim>\<open>converge.go\<close>.
  \<^item> \<^verbatim>\<open>Deploy_Graph\<close> and \<^verbatim>\<open>Deploy_Order\<close> are \<^verbatim>\<open>deploy_graph.go\<close> and \<^verbatim>\<open>deploy_builders.go\<close>, \<^verbatim>\<open>Multi_Deploy\<close> is
    runPlansConcurrent of \<^verbatim>\<open>engine.go\<close> with the command line's handling of its errors.
  \<^item> \<^verbatim>\<open>Render_Order\<close> is \<^verbatim>\<open>render/order\<close> with the emitter of \<^verbatim>\<open>diagnostic/policy.go\<close>: the output of parallel steps is that of
    a serial run. \<^verbatim>\<open>Redactor\<close> is \<^verbatim>\<open>secret/redactor.go\<close>: which secrets cannot show in the output.

  \<^bold>\<open>Targets and steps\<close> (\<^verbatim>\<open>target/\<close>, \<^verbatim>\<open>step/\<close>, \<^verbatim>\<open>perm/\<close>).
  \<^item> \<^verbatim>\<open>Target_Model\<close> has the target's interfaces as records of functions, with the locales \<^verbatim>\<open>posix_files\<close>, \<^verbatim>\<open>account_store\<close> and
    \<^verbatim>\<open>service_manager\<close> for the laws a step relies on; \<^verbatim>\<open>Mem_Target\<close> is \<^verbatim>\<open>target/mem.go\<close> and interprets them.
  \<^item> \<^verbatim>\<open>Go_Paths\<close> and \<^verbatim>\<open>Perm\<close> are the string and path functions of the standard library and \<^verbatim>\<open>perm/perm.go\<close>.
  \<^item> \<^verbatim>\<open>Step_Run\<close> is the run of the ops of one step on one target; \<^verbatim>\<open>File_Ops\<close> has the mode and owner ops.
  \<^item> \<^verbatim>\<open>Dir_Step\<close>, \<^verbatim>\<open>Accounts\<close> with \<^verbatim>\<open>Account_Runs\<close>, \<^verbatim>\<open>Services\<close>, \<^verbatim>\<open>Symlink\<close> and \<^verbatim>\<open>Sysctl\<close> are the step kinds dir, user, group,
    service, symlink and sysctl, each with a theorem that running it on the in-memory target converges: where the run
    succeeds a second check finds nothing to do. For sysctl the in-memory target has a kernel that keeps the values written to it.

  \<^bold>\<open>How the code becomes definitions.\<close> A struct is a record, an interface with known implementations a datatype, a nil pointer
  None or a constructor of its own. An error is a value of a sum, a panic the outcome \<^verbatim>\<open>Panic\<close> or a constructor of
  the result. Integers that can wrap are words. Go maps whose iteration order the code lets through
  are iterated in an order that a parameter gives (\<^verbatim>\<open>map_iteration\<close>, \<^verbatim>\<open>pe_range_producers\<close>), so that theorems hold
  for every order. Other parameters are code that is not in the repository or asks the machine: the clock, the
  working directory, strconv.Quote, functions a caller registers with the evaluator or as command function of the in-memory
  target (a closure, which is given the commands run before), what an op of a step kind answers where
  the engine is concerned, and the texts of some errors.

  \<^bold>\<open>Bounds.\<close> Loops over finite work are structural or have a measure. The lexer is run with \<^verbatim>\<open>lex_fuel\<close>, three calls for
  each byte, the parser with \<^verbatim>\<open>parse_fuel\<close>, three levels of recursion for each token: the theorems \<^verbatim>\<open>tokens_in_order\<close> and
  \<^verbatim>\<open>parsing_ends\<close> show that both suffice for every source. A program of the language may run forever, so the evaluator
  takes fuel as an argument; the lemma \<^verbatim>\<open>eval_fuel_irrelevant\<close> shows that more of it does not change a result. The
  schedulers have no fuel: \<^verbatim>\<open>step_run_terminates\<close> bounds the length of every run. Offsets in a source are 32-bit words, as
  in the code; that slicing a source of four gigabytes or more by wrapped offsets panics is not modelled.

  \<^bold>\<open>Lemma groups.\<close> Invariants of the schedulers are proved by induction over reachability and combined into the theorems on
  order, completion and failure. The planner's computation is compared with its specification \<^verbatim>\<open>plan_valid\<close>. The parser
  has one description for each function (\<^verbatim>\<open>spec\<close>), composed by the rules of \<^verbatim>\<open>V_rules\<close>, and so has the checker with \<^verbatim>\<open>W_rules\<close>. The evaluator's invariants are
  those of the combinators in \<^verbatim>\<open>Computations\<close>.

  \<^bold>\<open>Not modelled.\<close> The formatter and the resolver of imports, the linker, module files and the storage of secrets
  are further passes over the language and are left out. The step kinds container, copy, firewall, mount,
  pkg, run, runset, template and unarchive follow the pattern of those that are there. The local, SSH and
  POSIX targets run commands on a machine, the renderers write to a terminal, and process support, the command line and
  the test kit are glue: of them nothing is proved.
\<close>

section \<open>Planning and running\<close>

text \<open>C18: an accepted plan can be run to its end: when all step goroutines have returned and none
  failed, every step of the plan was completed, once, after the steps the plan says it depends on, and
  the run reports no error. In particular no step is left waiting by a cycle.\<close>

theorem accepted_plan_completes:
  assumes "env_ok env" and "hooks_ok (cf_Hooks cfg)" and "kinds_ok env cfg"
    and "plan env cfg caps = Inr (evs, Inr (p, deps, hp))"
    and "exec_reach (buildStepGraph (pe_range_producers env) (pl_Steps p)) s"
    and "all_returned s" and "group_err s = None"
  shows "set (completed s) = {..<length (pl_Steps p)} \<and> distinct (completed s)
    \<and> topological (\<lambda>n. sn_requires (buildStepGraph (pe_range_producers env) (pl_Steps p) ! n)) (completed s)
    \<and> deps = map sn_requires (buildStepGraph (pe_range_producers env) (pl_Steps p))
    \<and> snd (wait_result s) = None"
proof -
  let ?g = "buildStepGraph (pe_range_producers env) (pl_Steps p)"
  have it: "map_iteration (pe_range_producers env)" using assms(1) by (simp add: env_ok_def)
  from plan_spec [OF assms(1-3), of caps] assms(4)
  have p: "pl_Steps p = live_steps env cfg caps" "plan_valid env cfg caps" "deps = map sn_requires ?g"
    by (auto simp: plan_ok_answer_def)
  then have "acyclic (edges ?g)" by (simp add: plan_valid_def)
  with run_inv_all_done [OF exec_reach_inv [OF assms(5)]] assms(6,7) it p(3) show ?thesis
    by (simp add: wait_result_def)
qed

definition planned_graph :: "stepNode list" where
  "planned_graph = buildStepGraph (pe_range_producers dir_env) (live_steps dir_env two_dirs_config POSIX)"

definition planned_run :: "nat \<Rightarrow> nat run_state" where
  "planned_run k = fold (\<lambda>n s. finish_step planned_graph n zero_report None (\<lambda>_. None) (begin_step n s)) [0..<k]
     (init_run planned_graph)"

lemma planned_run_step:
  assumes "exec_reach planned_graph (planned_run k)" and "k \<in> set (launched (planned_run k))"
    and "k \<notin> active (planned_run k)" and "k \<notin> returned (planned_run k)"
    and "k \<in> active (begin_step k (planned_run k))"
  shows "exec_reach planned_graph (planned_run (Suc k))"
proof -
  have "exec_reach planned_graph (begin_step k (planned_run k))"
    by (rule exec_reach.step [OF assms(1) exec_trans.begins [OF assms(2-4)]])
  from exec_reach.step [OF this exec_trans.finishes [OF assms(5)]] show ?thesis by (simp add: planned_run_def)
qed

lemma planned_run_reached: "exec_reach planned_graph (planned_run 2)"
proof -
  have "exec_reach planned_graph (planned_run 0)" by (simp add: planned_run_def exec_reach.start)
  moreover have "0 \<in> set (launched (planned_run 0))" "0 \<notin> active (planned_run 0)" "0 \<notin> returned (planned_run 0)"
    "0 \<in> active (begin_step 0 (planned_run 0))" by code_simp+
  ultimately have "exec_reach planned_graph (planned_run (Suc 0))" by (rule planned_run_step)
  moreover have "Suc 0 \<in> set (launched (planned_run (Suc 0)))" "Suc 0 \<notin> active (planned_run (Suc 0))"
    "Suc 0 \<notin> returned (planned_run (Suc 0))" "Suc 0 \<in> active (begin_step (Suc 0) (planned_run (Suc 0)))" by code_simp+
  ultimately have "exec_reach planned_graph (planned_run (Suc (Suc 0)))" by (rule planned_run_step)
  then show ?thesis by (simp add: numeral_2_eq_2)
qed

lemma accepted_plan_completes_witness:
  "set (completed (planned_run 2)) = {..<2} \<and> snd (wait_result (planned_run 2)) = None"
proof -
  obtain evs p deps hp where a: "plan dir_env two_dirs_config POSIX = Inr (evs, Inr (p, deps, hp))"
    using two_dirs_accepted accepted_iff by metis
  have h: "hooks_ok (cf_Hooks two_dirs_config)" by code_simp
  from plan_spec [OF dir_env_ok(1) h dir_env_ok(2), of POSIX] a
  have p: "pl_Steps p = live_steps dir_env two_dirs_config POSIX" by (simp add: plan_ok_answer_def)
  have r: "exec_reach (buildStepGraph (pe_range_producers dir_env) (pl_Steps p)) (planned_run 2)"
    using planned_run_reached by (simp add: p planned_graph_def)
  have s: "all_returned (planned_run 2)" "group_err (planned_run 2) = None"
    "length (live_steps dir_env two_dirs_config POSIX) = 2" by code_simp+
  from accepted_plan_completes [OF dir_env_ok(1) h dir_env_ok(2) a r s(1,2)] s(3) show ?thesis by (simp add: p)
qed

end
